(* ===== verification/Prelude.thy ===== *)
theory Prelude
  imports Main "HOL-Library.AList" "HOL-Library.Multiset" "HOL-Library.Char_ord" "HOL-Library.List_Lexorder"
begin

text \<open>
  The prelude of the development: the exceptions of the program, computations that may raise,
  Python's dictionaries as insertion-ordered association lists, decimal and hexadecimal text, and
  the generic facts on lists that the components share.

  An exception is a value of \<open>py_error\<close>: one constructor per raise site, or per builtin
  exception the code can run into, carrying the data the message interpolates.  A computation that
  may raise has a result of type \<open>py_error + 'a\<close>, \<open>Inl\<close> for the exception.  Records
  whose fields have the types the sources annotate cannot hold every value Python would let
  through unchecked; where a decoder meets such a value the model answers \<open>Untyped\<close>, which is
  no exception of the program but the edge of the model.
\<close>

section \<open>Collections of facts\<close>

named_theorems raise_simps \<open>equations that evaluate computations that may raise\<close>
named_theorems dict_simps \<open>equations on dictionaries\<close>

section \<open>Exceptions\<close>

datatype py_error =
    KeyError string                     \<comment> \<open>builtin\<close>
  | IndexError                          \<comment> \<open>builtin\<close>
  | TypeError                           \<comment> \<open>builtin\<close>
  | AttributeError string               \<comment> \<open>builtin\<close>
  | ValueError string                   \<comment> \<open>builtin, with the fixed part of its message\<close>
  | RuntimeError string
  | AssertionError
  | SequenceGap string int int          \<comment> \<open>ValueError of the ledgers: stream, expected, got\<close>
  | OverflowError                       \<comment> \<open>sqlite3: an int does not fit in 64 bits\<close>
  | IntegrityError                      \<comment> \<open>sqlite3: a uniqueness constraint fails\<close>
  | JSONDecodeError
  | PurityViolationError string
  | UnknownSchemaError string int int   \<comment> \<open>event type, schema version, canonical version\<close>
  | NoUpcasterError string int int      \<comment> \<open>UnknownSchemaError of the second raise site\<close>
  | MissingProjectBootstrapError string
  | UnicodeDecodeError
  | NotImplementedError
  | CircularDependencyError string string     \<comment> \<open>dependent and dependency\<close>
  | MissingDependencyError string string      \<comment> \<open>dependent and dependency\<close>
  | DuplicateProjectionError string
  | InvalidDependencyKindError string
  | ProjectionNotFoundError string            \<comment> \<open>projection platform\<close>
  | CyclicDependencyError string              \<comment> \<open>projection platform\<close>
  | ZeroDivisionError                   \<comment> \<open>builtin\<close>
  | Untyped string                      \<comment> \<open>no exception: the value leaves the annotated types\<close>

type_synonym 'a result = "py_error + 'a"

text \<open>The Python class of an exception, as an \<open>except\<close> clause sees it.\<close>

fun exc_class :: "py_error \<Rightarrow> string" where
  "exc_class (KeyError k) = ''KeyError''"
| "exc_class IndexError = ''IndexError''"
| "exc_class TypeError = ''TypeError''"
| "exc_class (AttributeError a) = ''AttributeError''"
| "exc_class (ValueError m) = ''ValueError''"
| "exc_class (RuntimeError m) = ''RuntimeError''"
| "exc_class AssertionError = ''AssertionError''"
| "exc_class (SequenceGap s e g) = ''ValueError''"
| "exc_class OverflowError = ''OverflowError''"
| "exc_class IntegrityError = ''IntegrityError''"
| "exc_class JSONDecodeError = ''ValueError''"
| "exc_class (PurityViolationError m) = ''PurityViolationError''"
| "exc_class (UnknownSchemaError t v c) = ''ValueError''"
| "exc_class (NoUpcasterError t v c) = ''ValueError''"
| "exc_class (MissingProjectBootstrapError m) = ''MissingProjectBootstrapError''"
| "exc_class UnicodeDecodeError = ''ValueError''"
| "exc_class NotImplementedError = ''RuntimeError''"
| "exc_class (CircularDependencyError a b) = ''ValueError''"
| "exc_class (MissingDependencyError a b) = ''ValueError''"
| "exc_class (DuplicateProjectionError n) = ''ValueError''"
| "exc_class (InvalidDependencyKindError n) = ''ValueError''"
| "exc_class (ProjectionNotFoundError n) = ''ProjectionNotFoundError''"
| "exc_class (CyclicDependencyError n) = ''CyclicDependencyError''"
| "exc_class ZeroDivisionError = ''ZeroDivisionError''"
| "exc_class (Untyped m) = []"

section \<open>Computations that may raise\<close>

definition rbind :: "'e + 'a \<Rightarrow> ('a \<Rightarrow> 'e + 'b) \<Rightarrow> 'e + 'b" where
  "rbind m f = (case m of Inl e \<Rightarrow> Inl e | Inr x \<Rightarrow> f x)"

fun rmap :: "('a \<Rightarrow> 'e + 'b) \<Rightarrow> 'a list \<Rightarrow> 'e + 'b list" where
  "rmap f [] = Inr []"
| "rmap f (x # xs) = rbind (f x) (\<lambda>y. rbind (rmap f xs) (\<lambda>ys. Inr (y # ys)))"

text \<open>A \<open>for\<close> loop whose body updates a state and may raise.\<close>

fun rfold :: "('s \<Rightarrow> 'a \<Rightarrow> 'e + 's) \<Rightarrow> 's \<Rightarrow> 'a list \<Rightarrow> 'e + 's" where
  "rfold f s [] = Inr s"
| "rfold f s (x # xs) = rbind (f s x) (\<lambda>s'. rfold f s' xs)"

lemma rbind_simps [simp, raise_simps]:
  "rbind (Inl e) f = Inl e"
  "rbind (Inr x) g = g x"
  by (simp_all add: rbind_def)

lemma rbind_eq_Inr [simp]: "rbind m f = Inr y \<longleftrightarrow> (\<exists>x. m = Inr x \<and> f x = Inr y)"
  by (cases m) auto

lemma rbind_eq_Inl: "rbind m f = Inl e \<longleftrightarrow> m = Inl e \<or> (\<exists>x. m = Inr x \<and> f x = Inl e)"
  by (cases m) auto

lemma rbind_assoc: "rbind (rbind m f) g = rbind m (\<lambda>x. rbind (f x) g)"
  by (cases m) auto

lemma rbind_Inr_right [simp]: "rbind m Inr = m"
  by (cases m) auto

lemma rbind_cong [fundef_cong]:
  "m = m' \<Longrightarrow> (\<And>x. m' = Inr x \<Longrightarrow> f x = f' x) \<Longrightarrow> rbind m f = rbind m' f'"
  by (cases m') auto

lemma rfold_append: "rfold f s (xs @ ys) = rbind (rfold f s xs) (\<lambda>s'. rfold f s' ys)"
  by (induction xs arbitrary: s) (simp_all add: rbind_assoc)

lemma rfold_Inr: "rfold (\<lambda>s x. Inr (f s x)) s xs = Inr (foldl f s xs)"
  by (induction xs arbitrary: s) simp_all

lemma foldl_invariant: "P s \<Longrightarrow> (\<And>s x. P s \<Longrightarrow> x \<in> set xs \<Longrightarrow> P (f s x)) \<Longrightarrow> P (foldl f s xs)"
  by (induction xs arbitrary: s) simp_all

lemma rfold_invariant:
  assumes "rfold f s xs = Inr s'" and "P s"
    and "\<And>s x s'. P s \<Longrightarrow> x \<in> set xs \<Longrightarrow> f s x = Inr s' \<Longrightarrow> P s'"
  shows "P s'"
  using assms
proof (induction xs arbitrary: s)
  case (Cons x xs)
  from Cons.prems(1) obtain t where "f s x = Inr t" "rfold f t xs = Inr s'" by auto
  moreover have "P t" using Cons.prems(2,3) calculation(1) by (meson list.set_intros(1))
  ultimately show ?case using Cons.IH Cons.prems(3) by (meson list.set_intros(2))
qed simp

text \<open>A loop that only adds to a set seen through \<open>P\<close>.\<close>

lemma rfold_union:
  assumes "rfold f s xs = Inr s'"
    and "\<And>s x s'. x \<in> set xs \<Longrightarrow> f s x = Inr s' \<Longrightarrow> P s' = P s \<union> A x"
  shows "P s' = P s \<union> (\<Union>x \<in> set xs. A x)"
  using assms
proof (induction xs arbitrary: s)
  case (Cons x xs)
  from Cons.prems(1) obtain t where t: "f s x = Inr t" "rfold f t xs = Inr s'" by auto
  have "P s' = P t \<union> (\<Union>x \<in> set xs. A x)" by (rule Cons.IH [OF t(2)]) (simp add: Cons.prems(2))
  moreover have "P t = P s \<union> A x" using t(1) by (rule Cons.prems(2) [rotated]) simp
  ultimately show ?case by auto
qed simp

lemma rfold_skip:
  "(\<And>s x. x \<in> set xs \<Longrightarrow> \<not> P x \<Longrightarrow> f s x = Inr s) \<Longrightarrow> rfold f s xs = rfold f s (filter P xs)"
  by (induction xs arbitrary: s) (auto intro!: arg_cong [where f = "rbind _"])

lemma rfold_unit: "rfold (\<lambda>_ x. g x) () xs = Inr () \<longleftrightarrow> (\<forall>x \<in> set xs. g x = Inr ())"
  by (induction xs) auto

lemma rmap_Inr: "(\<And>x. x \<in> set xs \<Longrightarrow> f x = Inr (g x)) \<Longrightarrow> rmap f xs = Inr (map g xs)"
  by (induction xs) auto

lemma rmap_cong: "(\<And>x. x \<in> set xs \<Longrightarrow> f x = g x) \<Longrightarrow> rmap f xs = rmap g xs"
  by (induction xs) simp_all

lemma rmap_append: "rmap f (xs @ ys) = rbind (rmap f xs) (\<lambda>us. rbind (rmap f ys) (\<lambda>vs. Inr (us @ vs)))"
  by (induction xs) (simp_all add: rbind_assoc)

lemma rmap_map: "rmap f (map g xs) = rmap (\<lambda>x. f (g x)) xs"
  by (induction xs) simp_all

text \<open>Filtering before or after the conversion, for a condition both sides can express.\<close>

lemma rmap_filter:
  assumes "rmap g rows = Inr es" and "\<And>r x. g r = Inr x \<Longrightarrow> Q x = P r"
  shows "rmap g (filter P rows) = Inr (filter Q es)"
  using assms(1)
proof (induction rows arbitrary: es)
  case (Cons r rows)
  from Cons.prems obtain x xs where "g r = Inr x" "rmap g rows = Inr xs" "es = x # xs" by auto
  with Cons.IH [of xs] assms(2) [of r x] show ?case by simp
qed simp

lemma rmap_columns:
  assumes "rmap g rows = Inr es" and "\<And>r x. g r = Inr x \<Longrightarrow> f x = k r"
  shows "map k rows = map f es"
  using assms(1)
proof (induction rows arbitrary: es)
  case (Cons r rows)
  from Cons.prems obtain x xs where "g r = Inr x" "rmap g rows = Inr xs" "es = x # xs" by auto
  with Cons.IH [of xs] assms(2) [of r x] show ?case by simp
qed simp

lemma rmap_length: "rmap f xs = Inr ys \<Longrightarrow> length ys = length xs"
  by (induction xs arbitrary: ys) auto

lemma rmap_in_set: "rmap f xs = Inr ys \<Longrightarrow> y \<in> set ys \<Longrightarrow> \<exists>x \<in> set xs. f x = Inr y"
  by (induction xs arbitrary: ys) auto

section \<open>Dictionaries\<close>

text \<open>
  A \<open>dict\<close> is an association list with distinct keys in insertion order.  \<open>AList.update\<close>
  is \<open>d[k] = v\<close> (it replaces in place or appends, as Python does), \<open>AList.delete\<close> is
  \<open>d.pop(k, None)\<close> and \<open>map_of\<close> the lookup.
\<close>

type_synonym ('k, 'v) dict = "('k \<times> 'v) list"

definition wf_dict :: "('k, 'v) dict \<Rightarrow> bool" where
  "wf_dict d \<longleftrightarrow> distinct (map fst d)"

definition dict_get :: "('k, 'v) dict \<Rightarrow> 'k \<Rightarrow> 'v \<Rightarrow> 'v" where
  "dict_get d k v = (case map_of d k of None \<Rightarrow> v | Some x \<Rightarrow> x)"

definition dict_has :: "('k, 'v) dict \<Rightarrow> 'k \<Rightarrow> bool" where
  "dict_has d k \<longleftrightarrow> k \<in> set (map fst d)"

definition dict_setdefault :: "('k, 'v) dict \<Rightarrow> 'k \<Rightarrow> 'v \<Rightarrow> ('k, 'v) dict" where
  "dict_setdefault d k v = (if dict_has d k then d else d @ [(k, v)])"

lemma dict_has_map_of: "dict_has d k \<longleftrightarrow> map_of d k \<noteq> None"
  by (simp add: dict_has_def map_of_eq_None_iff)

lemma wf_dict_Nil [simp]: "wf_dict []"
  by (simp add: wf_dict_def)

lemma wf_dict_update [simp, intro]: "wf_dict d \<Longrightarrow> wf_dict (AList.update k v d)"
  by (simp add: wf_dict_def distinct_update)

lemma wf_dict_delete [simp, intro]: "wf_dict d \<Longrightarrow> wf_dict (AList.delete k d)"
  by (simp add: wf_dict_def distinct_delete)

lemma map_of_update [simp, dict_simps]:
  "map_of (AList.update k v d) x = (if x = k then Some v else map_of d x)"
  by (simp add: update_conv')

lemma map_of_delete [simp, dict_simps]:
  "map_of (AList.delete k d) x = (if x = k then None else map_of d x)"
  by (simp add: delete_conv')

lemma update_new: "k \<notin> fst ` set d \<Longrightarrow> AList.update k v d = d @ [(k, v)]"
  by (induction d) auto

lemma map_fst_update:
  "map fst (AList.update k v d) = (if k \<in> fst ` set d then map fst d else map fst d @ [k])"
  by (induction d) auto

lemma set_update_subset: "set (AList.update k v d) \<subseteq> insert (k, v) (set d)"
  by (induction d) auto

lemma set_update_cases:
  "wf_dict d \<Longrightarrow> set (AList.update k v d) = insert (k, v) {p \<in> set d. fst p \<noteq> k}"
  by (induction d) (auto simp: wf_dict_def rev_image_eqI)

section \<open>Lists and sorting\<close>

lemma fold_update:
  "map_of (foldl (\<lambda>d k. AList.update (f k) (v k) d) d ks) = map_of d ++ map_of (rev (map (\<lambda>k. (f k, v k)) ks))"
  "fst ` set (foldl (\<lambda>d k. AList.update (f k) (v k) d) d ks) = f ` set ks \<union> fst ` set d"
  "wf_dict d \<Longrightarrow> wf_dict (foldl (\<lambda>d k. AList.update (f k) (v k) d) d ks)"
proof (induction ks arbitrary: d)
  case (Cons k ks)
  {
    case 1
    show ?case using Cons(1) by (auto simp: map_add_def fun_eq_iff split: option.splits)
  next
    case 2
    show ?case using Cons(2) by (auto simp: dom_update)
  next
    case 3
    then show ?case using Cons(3) by simp
  }
qed simp_all

lemma sort_key_sorted_id: "sorted (map f xs) \<Longrightarrow> sort_key f xs = xs"
  by (induction xs) (simp_all add: insort_is_Cons)

lemma sort_key_unique_perm:
  fixes f :: "'a \<Rightarrow> 'k::linorder"
  assumes "mset xs = mset ys" and "inj_on f (set xs)" and "distinct xs"
  shows "sort_key f xs = sort_key f ys"
proof (rule map_sorted_distinct_set_unique)
  have s: "set xs = set ys" and d: "distinct ys"
    using assms by (metis mset_eq_setD, metis mset_eq_imp_distinct_iff)
  show "inj_on f (set (sort_key f xs) \<union> set (sort_key f ys))"
    using assms(2) s by simp
  show "distinct (map f (sort_key f xs))" "distinct (map f (sort_key f ys))"
    using assms(2,3) s d by (simp_all add: distinct_map)
qed (use assms(1) mset_eq_setD in \<open>auto\<close>)

lemma insort_key_map: "map f (insort_key (\<lambda>x. g (f x)) x xs) = insort_key g (f x) (map f xs)"
  by (induction xs) auto

lemma sort_key_map: "sort_key g (map f xs) = map f (sort_key (\<lambda>x. g (f x)) xs)"
  by (induction xs) (simp_all add: insort_key_map)

lemma sort_key_apsnd: "sort_key fst (map (apsnd f) d) = map (apsnd f) (sort_key fst d)"
  by (simp add: sort_key_map)

lemma wf_dict_sort [simp]: "wf_dict (sort_key f d) \<longleftrightarrow> wf_dict d"
  by (simp add: wf_dict_def distinct_map)

lemma wf_dict_apsnd [simp]: "wf_dict (map (apsnd f) d) \<longleftrightarrow> wf_dict d"
  by (simp add: wf_dict_def comp_def)

lemma map_of_sort [simp]: "wf_dict d \<Longrightarrow> map_of (sort_key f d) = map_of d"
  by (simp add: wf_dict_def map_of_inject_set distinct_map)

lemma map_of_apsnd: "map_of (map (apsnd f) d) k = map_option f (map_of d k)"
  by (induction d) auto

lemma map_of_eq_sort_key:
  fixes d e :: "('k::linorder, 'v) dict"
  assumes "wf_dict d" "wf_dict e" "map_of d = map_of e"
  shows "sort_key fst d = sort_key fst e"
proof (rule sort_key_unique_perm)
  show "mset d = mset e"
    using assms by (simp add: wf_dict_def distinct_map map_of_inject_set set_eq_iff_mset_eq_distinct)
qed (use assms in \<open>auto simp: wf_dict_def distinct_map\<close>)

lemma upto_extend:
  fixes n k :: int assumes "0 \<le> n" "0 \<le> k" shows "[1..n] @ [n + 1..n + k] = [1..n + k]"
  using assms upto_split2 [of 1 n "n + k"] by (cases "n = 0") (simp_all add: add.commute)

lemma upto_snoc:
  fixes n :: int assumes "0 \<le> n" shows "[1..n] @ [n + 1] = [1..n + 1]" "[1..n] @ [n + 1] = [1..1 + n]"
    "[1..n] @ [1 + n] = [1..1 + n]"
  using upto_rec2 [of 1 "n + 1"] assms by (simp_all add: add.commute)

lemma takeWhile_append_stop:
  assumes "r = [] \<or> \<not> P (hd r)"
  shows "takeWhile P (s @ r) = takeWhile P s" "dropWhile P (s @ r) = dropWhile P s @ r"
  using assms by (induction s; cases r; simp)+

section \<open>Decimal and hexadecimal text\<close>

definition digit_char :: "nat \<Rightarrow> char" where
  "digit_char n = (if n < 10 then char_of (48 + n) else char_of (87 + n))"

definition is_digit :: "char \<Rightarrow> bool" where
  "is_digit c \<longleftrightarrow> 48 \<le> (of_char c :: nat) \<and> (of_char c :: nat) \<le> 57"

definition digit_val :: "char \<Rightarrow> nat" where
  "digit_val c = of_char c - 48"

fun show_nat :: "nat \<Rightarrow> string" where
  "show_nat n = (if n < 10 then [digit_char n] else show_nat (n div 10) @ [digit_char (n mod 10)])"

declare show_nat.simps [simp del]

definition show_int :: "int \<Rightarrow> string" where
  "show_int i = (if i < 0 then CHR ''-'' # show_nat (nat (- i)) else show_nat (nat i))"

definition read_nat :: "string \<Rightarrow> nat" where
  "read_nat s = foldl (\<lambda>n c. 10 * n + digit_val c) 0 s"

lemma of_char_digit: "n < 10 \<Longrightarrow> (of_char (digit_char n) :: nat) = 48 + n"
  by (simp add: digit_char_def)

lemma digit_val_char [simp]: "n < 10 \<Longrightarrow> digit_val (digit_char n) = n"
  by (simp add: digit_val_def of_char_digit)

lemma is_digit_char [simp]: "n < 10 \<Longrightarrow> is_digit (digit_char n)"
  by (simp add: is_digit_def of_char_digit)

lemma show_nat_digits: "c \<in> set (show_nat n) \<Longrightarrow> is_digit c"
  by (induction n rule: show_nat.induct) (subst (asm) (2) show_nat.simps, auto split: if_splits)

lemma show_nat_nonempty [simp]: "show_nat n \<noteq> []"
  by (subst show_nat.simps) simp

lemma read_show_nat [simp]: "read_nat (show_nat n) = n"
proof (induction n rule: show_nat.induct)
  case (1 n)
  then show ?case
    by (cases "n < 10") (simp_all add: show_nat.simps [of n] read_nat_def)
qed

lemma hd_show_nat: "0 < n \<Longrightarrow> hd (show_nat n) \<noteq> CHR ''0''"
proof (induction n rule: show_nat.induct)
  case (1 n)
  show ?case
  proof (cases "n < 10")
    case True
    have "(of_char (digit_char n) :: nat) \<noteq> of_char (CHR ''0'')"
      using True "1.prems" by (simp add: of_char_digit)
    then have "digit_char n \<noteq> CHR ''0''" by metis
    with True show ?thesis by (simp add: show_nat.simps [of n])
  next
    case False
    then show ?thesis
      using "1.IH" by (simp add: show_nat.simps [of n] hd_append)
  qed
qed

lemma show_nat_length: "n < 10 ^ k \<Longrightarrow> 0 < k \<Longrightarrow> length (show_nat n) \<le> k"
proof (induction n arbitrary: k rule: show_nat.induct)
  case (1 n)
  show ?case
  proof (cases "n < 10")
    case True
    with 1 show ?thesis by (simp add: show_nat.simps [of n])
  next
    case False
    with 1 obtain j where k: "k = Suc j" by (cases k) auto
    with False 1 have "0 < j" by (cases j) auto
    moreover have "n div 10 < 10 ^ j" using 1 k by (simp add: less_mult_imp_div_less)
    ultimately have "length (show_nat (n div 10)) \<le> j" using 1 False by blast
    with False k show ?thesis by (simp add: show_nat.simps [of n])
  qed
qed

lemma show_nat_length_ge: "10 ^ k \<le> n \<Longrightarrow> k < length (show_nat n)"
proof (induction n arbitrary: k rule: show_nat.induct)
  case (1 n)
  show ?case
  proof (cases k)
    case 0
    then show ?thesis by simp
  next
    case (Suc j)
    with 1 have "\<not> n < 10"
      by (metis le_trans not_le one_le_numeral one_le_power power_Suc mult.right_neutral mult_le_mono2)
    moreover have "10 ^ j \<le> n div 10" using 1 Suc by (simp add: less_eq_div_iff_mult_less_eq mult.commute)
    ultimately show ?thesis using 1 Suc by (simp add: show_nat.simps [of n])
  qed
qed

lemma read_nat_zeros: "read_nat (replicate k (CHR ''0'') @ s) = read_nat s"
  by (induction k) (simp_all add: read_nat_def digit_val_def)

text \<open>An element that belongs last stays last under a stable sort.\<close>

lemma insort_key_snoc: "f a \<le> f x \<Longrightarrow> insort_key f a (l @ [x]) = insort_key f a l @ [x]"
  by (induction l) auto

lemma sort_key_snoc: "(\<And>y. y \<in> set xs \<Longrightarrow> f y \<le> f x) \<Longrightarrow> sort_key f (xs @ [x]) = sort_key f xs @ [x]"
  by (induction xs) (simp_all add: insort_key_snoc)

text \<open>\<open>sep.join(xs)\<close>.\<close>

fun join :: "string \<Rightarrow> string list \<Rightarrow> string" where
  "join sep [] = []"
| "join sep [x] = x"
| "join sep (x # y # xs) = x @ sep @ join sep (y # xs)"

text \<open>
  \<open>s.strip()\<close>, and \<open>int(s)\<close> on text: an optionally signed decimal numeral within white space,
  single underscores allowed between digits.
\<close>

fun numeral_digits :: "string \<Rightarrow> string option" where
  "numeral_digits [] = None"
| "numeral_digits [c] = (if is_digit c then Some [c] else None)"
| "numeral_digits (c # d # s) =
     (if \<not> is_digit c then None
      else map_option ((#) c) (numeral_digits (if d = CHR ''_'' then s else d # s)))"

definition is_space :: "char \<Rightarrow> bool" where
  "is_space c \<longleftrightarrow> (of_char c :: nat) \<in> {9 .. 13} \<union> {28 .. 32} \<union> {133, 160}"

definition strip_ws :: "string \<Rightarrow> string" where
  "strip_ws s = rev (dropWhile is_space (rev (dropWhile is_space s)))"

definition int_of_text :: "string \<Rightarrow> int result" where
  "int_of_text s =
     (let t = strip_ws s;
          neg = (t \<noteq> [] \<and> hd t = CHR ''-'');
          ds = (if t \<noteq> [] \<and> (hd t = CHR ''-'' \<or> hd t = CHR ''+'') then tl t else t)
      in case numeral_digits ds of
           None \<Rightarrow> Inl (ValueError ''invalid literal for int()'')
         | Some ds \<Rightarrow> Inr (if neg then - int (read_nat ds) else int (read_nat ds)))"

text \<open>\<open>s.split(c)\<close> for a separator of one character.\<close>

fun split_on :: "char \<Rightarrow> string \<Rightarrow> string list" where
  "split_on c [] = [[]]"
| "split_on c (x # s) =
     (if x = c then [] # split_on c s
      else case split_on c s of [] \<Rightarrow> [[x]] | w # ws \<Rightarrow> (x # w) # ws)"

lemma split_on_none: "c \<notin> set s \<Longrightarrow> split_on c s = [s]"
  by (induction s) auto

lemma split_on_first: "c \<notin> set s \<Longrightarrow> split_on c (s @ c # t) = s # split_on c t"
  by (induction s) auto

lemma digit_not_space: "is_digit c \<Longrightarrow> \<not> is_space c"
  by (auto simp: is_digit_def is_space_def)

lemma numeral_digits_all: "s \<noteq> [] \<Longrightarrow> list_all is_digit s \<Longrightarrow> numeral_digits s = Some s"
  by (induction s rule: numeral_digits.induct) (auto simp: is_digit_def)

lemma strip_ws_id: "s \<noteq> [] \<Longrightarrow> \<not> is_space (hd s) \<Longrightarrow> \<not> is_space (last s) \<Longrightarrow> strip_ws s = s"
proof -
  assume s: "s \<noteq> []" "\<not> is_space (hd s)" "\<not> is_space (last s)"
  from s(1,2) have "dropWhile is_space s = s" by (cases s) auto
  moreover from s(1,3) have "dropWhile is_space (rev s) = rev s" by (cases s rule: rev_cases) auto
  ultimately show "strip_ws s = s" by (simp add: strip_ws_def)
qed

lemma int_of_text_show_int [simp]: "int_of_text (show_int i) = Inr i"
proof -
  have digits: "list_all is_digit (show_nat n)" for n by (simp add: list_all_iff show_nat_digits)
  have ends: "is_digit (hd (show_nat n))" "is_digit (last (show_nat n))" for n
    using digits [of n] by (simp_all add: list_all_iff)
  have minus: "\<not> is_digit (CHR ''-'')" "\<not> is_digit (CHR ''+'')" "\<not> is_space (CHR ''-'')"
    by (simp_all add: is_digit_def is_space_def)
  have "strip_ws (show_int i) = show_int i"
    by (rule strip_ws_id) (auto simp: show_int_def minus digit_not_space ends)
  moreover have "hd (show_nat n) \<noteq> CHR ''-''" "hd (show_nat n) \<noteq> CHR ''+''" for n
    using ends(1) [of n] minus by metis+
  ultimately show ?thesis
    by (auto simp: int_of_text_def Let_def show_int_def numeral_digits_all digits)
qed

section \<open>Integers of 64 bits\<close>

text \<open>The ints that \<open>sqlite3\<close> can bind to a parameter; any other raises \<open>OverflowError\<close>.\<close>

definition fits64 :: "int \<Rightarrow> bool" where
  "fits64 n \<longleftrightarrow> - (2 ^ 63) \<le> n \<and> n < 2 ^ 63"

end
