(* ===== verification/PyJson.thy ===== *)
theory PyJson
  imports Prelude
begin

text \<open>
  Python's JSON values and the parts of the standard \<open>json\<close> module the program calls:
  \<open>json.dumps\<close> with the separators, \<open>ensure_ascii\<close> and \<open>sort_keys\<close> settings that
  occur in the sources, \<open>json.dumps\<close> with \<open>indent=2\<close>, and \<open>json.loads\<close>.  A \<open>str\<close> is a list of the 256 code points of
  \<open>char\<close>; a \<open>float\<close> is the text \<open>json.dumps\<close> writes for it (its \<open>repr\<close>, or
  \<open>NaN\<close>, \<open>Infinity\<close>, \<open>-Infinity\<close>), which determines the value.
  The main result is the round trip \<open>json_loads_dumps\<close>.
\<close>

section \<open>Values\<close>

datatype json =
    JNull
  | JBool bool
  | JInt int
  | JFloat string
  | JStr string
  | JList "json list"
  | JDict "(string \<times> json) list"

type_synonym payload = "(string, json) dict"

text \<open>Python's truth value.\<close>

fun truthy :: "json \<Rightarrow> bool" where
  "truthy JNull = False"
| "truthy (JBool b) = b"
| "truthy (JInt i) = (i \<noteq> 0)"
| "truthy (JFloat t) = (t \<noteq> ''0.0'' \<and> t \<noteq> ''-0.0'')"
| "truthy (JStr s) = (s \<noteq> [])"
| "truthy (JList vs) = (vs \<noteq> [])"
| "truthy (JDict d) = (d \<noteq> [])"

text \<open>\<open>p.get(k)\<close> and \<open>p.get(k, v)\<close> on a payload.\<close>

abbreviation get_or_none :: "payload \<Rightarrow> string \<Rightarrow> json" where
  "get_or_none p k \<equiv> dict_get p k JNull"

abbreviation get_or :: "payload \<Rightarrow> string \<Rightarrow> json \<Rightarrow> json" where
  "get_or p k v \<equiv> dict_get p k v"

text \<open>\<open>p[k]\<close> on a payload.\<close>

definition dict_item :: "(string, 'v) dict \<Rightarrow> string \<Rightarrow> 'v result" where
  "dict_item p k = (case map_of p k of None \<Rightarrow> Inl (KeyError k) | Some v \<Rightarrow> Inr v)"

text \<open>\<open>v[k]\<close> with a string index on an arbitrary value.\<close>

fun json_item :: "json \<Rightarrow> string \<Rightarrow> json result" where
  "json_item (JDict d) k = dict_item d k"
| "json_item v k = Inl TypeError"

text \<open>\<open>list(v)\<close>: a list is copied, a string gives its characters, a dictionary its keys.\<close>

fun py_list :: "json \<Rightarrow> json list result" where
  "py_list (JList vs) = Inr vs"
| "py_list (JStr s) = Inr (map (\<lambda>c. JStr [c]) s)"
| "py_list (JDict d) = Inr (map (\<lambda>(k, v). JStr k) d)"
| "py_list v = Inl TypeError"

text \<open>
  A value as a dictionary key or a set element: lists and dictionaries are unhashable, and
  \<open>False\<close> and \<open>True\<close> are the keys 0 and 1.  A float, which may equal an int, is left
  outside the model.
\<close>

fun hash_key :: "json \<Rightarrow> json result" where
  "hash_key (JList vs) = Inl TypeError"
| "hash_key (JDict d) = Inl TypeError"
| "hash_key (JBool b) = Inr (JInt (if b then 1 else 0))"
| "hash_key (JFloat t) = Inl (Untyped ''float key'')"
| "hash_key v = Inr v"

section \<open>Encoding\<close>

record json_format =
  item_sep :: string
  key_sep :: string
  ensure_ascii :: bool

definition compact_format :: json_format where
  "compact_format = \<lparr>item_sep = '','', key_sep = '':'', ensure_ascii = False\<rparr>"

definition compact_ascii_format :: json_format where
  "compact_ascii_format = \<lparr>item_sep = '','', key_sep = '':'', ensure_ascii = True\<rparr>"

definition default_format :: json_format where
  "default_format = \<lparr>item_sep = '', '', key_sep = '': '', ensure_ascii = True\<rparr>"

definition esc_char :: "bool \<Rightarrow> char \<Rightarrow> string" where
  "esc_char ascii c =
     (if c = CHR 0x5C then [CHR 0x5C, CHR 0x5C]
      else if c = CHR 0x22 then [CHR 0x5C, CHR 0x22]
      else if c = CHR 0x08 then [CHR 0x5C, CHR ''b'']
      else if c = CHR 0x0C then [CHR 0x5C, CHR ''f'']
      else if c = CHR 0x0A then [CHR 0x5C, CHR ''n'']
      else if c = CHR 0x0D then [CHR 0x5C, CHR ''r'']
      else if c = CHR 0x09 then [CHR 0x5C, CHR ''t'']
      else if (of_char c :: nat) < 32 \<or> (ascii \<and> 126 < (of_char c :: nat))
        then [CHR 0x5C, CHR ''u'', CHR ''0'', CHR ''0'',
              digit_char (of_char c div 16), digit_char (of_char c mod 16)]
      else [c])"

definition enc_str :: "bool \<Rightarrow> string \<Rightarrow> string" where
  "enc_str ascii s = CHR 0x22 # concat (map (esc_char ascii) s) @ [CHR 0x22]"

fun enc :: "json_format \<Rightarrow> json \<Rightarrow> string" and enc_items :: "json_format \<Rightarrow> json list \<Rightarrow> string"
  and enc_pairs :: "json_format \<Rightarrow> (string \<times> json) list \<Rightarrow> string" where
  "enc f JNull = ''null''"
| "enc f (JBool b) = (if b then ''true'' else ''false'')"
| "enc f (JInt i) = show_int i"
| "enc f (JFloat t) = t"
| "enc f (JStr s) = enc_str (ensure_ascii f) s"
| "enc f (JList vs) = CHR ''['' # enc_items f vs @ '']''"
| "enc f (JDict d) = CHR ''{'' # enc_pairs f d @ ''}''"
| "enc_items f [] = []"
| "enc_items f (v # vs) = enc f v @ (if vs = [] then [] else item_sep f @ enc_items f vs)"
| "enc_pairs f [] = []"
| "enc_pairs f ((k, v) # kvs) = enc_str (ensure_ascii f) k @ key_sep f @ enc f v
     @ (if kvs = [] then [] else item_sep f @ enc_pairs f kvs)"

text \<open>\<open>sort_keys=True\<close> orders the items of every dictionary by key.\<close>

fun sort_json :: "json \<Rightarrow> json" and sort_jsons :: "json list \<Rightarrow> json list"
  and sort_pairs :: "(string \<times> json) list \<Rightarrow> (string \<times> json) list" where
  "sort_json (JList vs) = JList (sort_jsons vs)"
| "sort_json (JDict d) = JDict (sort_key fst (sort_pairs d))"
| "sort_json v = v"
| "sort_jsons [] = []"
| "sort_jsons (v # vs) = sort_json v # sort_jsons vs"
| "sort_pairs [] = []"
| "sort_pairs ((k, v) # kvs) = (k, sort_json v) # sort_pairs kvs"

definition json_dumps :: "json_format \<Rightarrow> bool \<Rightarrow> json \<Rightarrow> string" where
  "json_dumps f sort_keys v = enc f (if sort_keys then sort_json v else v)"

section \<open>Decoding\<close>

definition is_ws :: "char \<Rightarrow> bool" where
  "is_ws c \<longleftrightarrow> c \<in> {CHR '' '', CHR 0x09, CHR 0x0A, CHR 0x0D}"

abbreviation skip_ws :: "string \<Rightarrow> string" where
  "skip_ws s \<equiv> dropWhile is_ws s"

text \<open>The rest of a text after a given prefix.\<close>

fun strip :: "string \<Rightarrow> string \<Rightarrow> string option" where
  "strip [] s = Some s"
| "strip (p # ps) [] = None"
| "strip (p # ps) (c # s) = (if p = c then strip ps s else None)"

definition hex_val :: "char \<Rightarrow> nat option" where
  "hex_val c = (let n = (of_char c :: nat) in
     if 48 \<le> n \<and> n \<le> 57 then Some (n - 48)
     else if 97 \<le> n \<and> n \<le> 102 then Some (n - 87)
     else if 65 \<le> n \<and> n \<le> 70 then Some (n - 55) else None)"

definition unescape :: "char \<Rightarrow> char option" where
  "unescape c =
     (if c \<in> {CHR 0x5C, CHR 0x22, CHR ''/''} then Some c
      else if c = CHR ''b'' then Some (CHR 0x08)
      else if c = CHR ''f'' then Some (CHR 0x0C)
      else if c = CHR ''n'' then Some (CHR 0x0A)
      else if c = CHR ''r'' then Some (CHR 0x0D)
      else if c = CHR ''t'' then Some (CHR 0x09) else None)"

text \<open>Code points above 255 are outside the model's strings and refused here.\<close>

definition hex_char :: "char \<Rightarrow> char \<Rightarrow> char \<Rightarrow> char \<Rightarrow> char option" where
  "hex_char a b c d =
     (case (hex_val a, hex_val b, hex_val c, hex_val d) of
        (Some w, Some x, Some y, Some z) \<Rightarrow>
          (if w = 0 \<and> x = 0 then Some (char_of (16 * y + z)) else None)
      | _ \<Rightarrow> None)"

fun scan_string :: "string \<Rightarrow> (string \<times> string) option" where
  "scan_string [] = None"
| "scan_string (c # s) =
     (if c = CHR 0x22 then Some ([], s)
      else if c = CHR 0x5C then
        (case s of
           [] \<Rightarrow> None
         | d # t \<Rightarrow>
             if d = CHR ''u'' then
               (case t of
                  h1 # h2 # h3 # h4 # u \<Rightarrow>
                    (case hex_char h1 h2 h3 h4 of
                       None \<Rightarrow> None
                     | Some x \<Rightarrow> map_option (apfst (Cons x)) (scan_string u))
                | _ \<Rightarrow> None)
             else
               (case unescape d of
                  None \<Rightarrow> None
                | Some x \<Rightarrow> map_option (apfst (Cons x)) (scan_string t)))
      else if (of_char c :: nat) < 32 then None
      else map_option (apfst (Cons c)) (scan_string s))"

text \<open>The number token: an integer part, a fraction and an exponent.\<close>

definition scan_digits :: "string \<Rightarrow> (string \<times> string) option" where
  "scan_digits t =
     (case t of
        [] \<Rightarrow> None
      | c # r \<Rightarrow>
          if c = CHR ''0'' then Some ([c], r)
          else if is_digit c then Some (takeWhile is_digit t, dropWhile is_digit t)
          else None)"

definition scan_int :: "string \<Rightarrow> (string \<times> string) option" where
  "scan_int s =
     (case strip ''-'' s of
        Some t \<Rightarrow> map_option (apfst (Cons (CHR ''-''))) (scan_digits t)
      | None \<Rightarrow> scan_digits s)"

definition scan_frac :: "string \<Rightarrow> string \<times> string" where
  "scan_frac s =
     (case s of
        [] \<Rightarrow> ([], s)
      | d # t \<Rightarrow>
          if d = CHR ''.'' \<and> t \<noteq> [] \<and> is_digit (hd t)
          then (d # takeWhile is_digit t, dropWhile is_digit t)
          else ([], s))"

definition scan_exp :: "string \<Rightarrow> string \<times> string" where
  "scan_exp s =
     (case s of
        [] \<Rightarrow> ([], s)
      | e # r \<Rightarrow>
          if e \<in> {CHR ''e'', CHR ''E''} then
            (case r of
               [] \<Rightarrow> ([], s)
             | d # q \<Rightarrow>
                 if is_digit d then (e # takeWhile is_digit r, dropWhile is_digit r)
                 else if d \<in> {CHR ''+'', CHR ''-''} \<and> q \<noteq> [] \<and> is_digit (hd q)
                   then (e # d # takeWhile is_digit q, dropWhile is_digit q)
                 else ([], s))
          else ([], s))"

definition read_int :: "string \<Rightarrow> int" where
  "read_int s =
     (case strip ''-'' s of Some r \<Rightarrow> - int (read_nat r) | None \<Rightarrow> int (read_nat s))"

definition scan_number :: "string \<Rightarrow> (json \<times> string) option" where
  "scan_number s =
     (case scan_int s of
        Some (i, r) \<Rightarrow>
          (let (fr, r1) = scan_frac r; (ex, r2) = scan_exp r1 in
           if fr = [] \<and> ex = [] then Some (JInt (read_int i), r2)
           else Some (JFloat (i @ fr @ ex), r2))
      | None \<Rightarrow>
          (case strip ''NaN'' s of
             Some r \<Rightarrow> Some (JFloat ''NaN'', r)
           | None \<Rightarrow>
               (case strip ''Infinity'' s of
                  Some r \<Rightarrow> Some (JFloat ''Infinity'', r)
                | None \<Rightarrow>
                    map_option (\<lambda>r. (JFloat ''-Infinity'', r)) (strip ''-Infinity'' s))))"

text \<open>The pairs of an object make a dictionary: a repeated key keeps its first place and takes
  its last value.\<close>

definition dict_of_pairs :: "('k \<times> 'v) list \<Rightarrow> ('k, 'v) dict" where
  "dict_of_pairs kvs = foldl (\<lambda>d (k, v). AList.update k v d) [] kvs"

fun scan_value :: "nat \<Rightarrow> string \<Rightarrow> (json \<times> string) option"
  and scan_items :: "nat \<Rightarrow> string \<Rightarrow> (json list \<times> string) option"
  and scan_pairs :: "nat \<Rightarrow> string \<Rightarrow> ((string \<times> json) list \<times> string) option" where
  "scan_value 0 s = None"
| "scan_value (Suc n) s =
     (case s of
        [] \<Rightarrow> None
      | c # r \<Rightarrow>
          if c = CHR 0x22 then map_option (apfst JStr) (scan_string r)
          else if c = CHR ''['' then
            (case strip '']'' (skip_ws r) of
               Some t \<Rightarrow> Some (JList [], t)
             | None \<Rightarrow> map_option (apfst JList) (scan_items n (skip_ws r)))
          else if c = CHR ''{'' then
            (case strip ''}'' (skip_ws r) of
               Some t \<Rightarrow> Some (JDict [], t)
             | None \<Rightarrow> map_option (apfst (JDict \<circ> dict_of_pairs)) (scan_pairs n (skip_ws r)))
          else if strip ''null'' s \<noteq> None then Some (JNull, drop 4 s)
          else if strip ''true'' s \<noteq> None then Some (JBool True, drop 4 s)
          else if strip ''false'' s \<noteq> None then Some (JBool False, drop 5 s)
          else scan_number s)"
| "scan_items 0 s = None"
| "scan_items (Suc n) s =
     (case scan_value n s of
        None \<Rightarrow> None
      | Some (v, r) \<Rightarrow>
          (case strip '','' (skip_ws r) of
             Some t \<Rightarrow> map_option (apfst (Cons v)) (scan_items n (skip_ws t))
           | None \<Rightarrow> map_option (Pair [v]) (strip '']'' (skip_ws r))))"
| "scan_pairs 0 s = None"
| "scan_pairs (Suc n) s =
     (case Option.bind (strip [CHR 0x22] s) scan_string of
        None \<Rightarrow> None
      | Some (k, r) \<Rightarrow>
          (case strip '':'' (skip_ws r) of
             None \<Rightarrow> None
           | Some t \<Rightarrow>
               (case scan_value n (skip_ws t) of
                  None \<Rightarrow> None
                | Some (v, u) \<Rightarrow>
                    (case strip '','' (skip_ws u) of
                       Some w \<Rightarrow> map_option (apfst (Cons (k, v))) (scan_pairs n (skip_ws w))
                     | None \<Rightarrow> map_option (Pair [(k, v)]) (strip ''}'' (skip_ws u))))))"

text \<open>The fuel \<open>2 * length s + 2\<close> always suffices for the texts \<open>json.dumps\<close> writes
  (\<open>json_loads_dumps\<close>): every level of nesting and every item spends a character.\<close>

definition json_loads :: "string \<Rightarrow> json result" where
  "json_loads s =
     (case scan_value (2 * length s + 2) (skip_ws s) of
        Some (v, r) \<Rightarrow> if skip_ws r = [] then Inr v else Inl JSONDecodeError
      | None \<Rightarrow> Inl JSONDecodeError)"

text \<open>
  The values Python can hold: dictionaries with distinct keys, floats whose text is a float
  literal of JSON.
\<close>

fun wf_json :: "json \<Rightarrow> bool" and wf_jsons :: "json list \<Rightarrow> bool"
  and wf_pairs :: "(string \<times> json) list \<Rightarrow> bool" where
  "wf_json (JList vs) = wf_jsons vs"
| "wf_json (JDict d) = (wf_dict d \<and> wf_pairs d)"
| "wf_json (JFloat t) = (scan_number t = Some (JFloat t, []))"
| "wf_json JNull = True"
| "wf_json (JBool b) = True"
| "wf_json (JInt i) = True"
| "wf_json (JStr s) = True"
| "wf_jsons [] = True"
| "wf_jsons (v # vs) = (wf_json v \<and> wf_jsons vs)"
| "wf_pairs [] = True"
| "wf_pairs ((k, v) # kvs) = (wf_json v \<and> wf_pairs kvs)"

definition wf_format :: "json_format \<Rightarrow> bool" where
  "wf_format f \<longleftrightarrow> item_sep f \<in> {'','', '', ''} \<and> key_sep f \<in> {'':'', '': ''}"

section \<open>The round trip\<close>

subsection \<open>Tokens\<close>

text \<open>A text that cannot continue a number.\<close>

definition stop :: "string \<Rightarrow> bool" where
  "stop r \<longleftrightarrow> r = [] \<or> (\<not> is_digit (hd r) \<and>
     hd r \<notin> {CHR ''.'', CHR ''e'', CHR ''E'', CHR ''+'', CHR ''-''})"

lemma strip_append: "strip p s = Some t \<Longrightarrow> strip p (s @ r) = Some (t @ r)"
  by (induction p s rule: strip.induct) (auto split: if_splits)

lemma strip_self [simp]: "strip p (p @ r) = Some r"
  by (induction p) auto

lemma strip_eq_Some: "strip p s = Some t \<longleftrightarrow> s = p @ t"
  by (induction p s rule: strip.induct) auto

lemma strip_hd: "s \<noteq> [] \<Longrightarrow> hd s \<noteq> c \<Longrightarrow> strip (c # p) s = None"
  by (cases s) auto

lemma stop_digits:
  assumes "stop r"
  shows "takeWhile is_digit (s @ r) = takeWhile is_digit s"
    and "dropWhile is_digit (s @ r) = dropWhile is_digit s @ r"
  using assms by (auto intro!: takeWhile_append_stop simp: stop_def)

lemma scan_digits_append:
  assumes "scan_digits s = Some (i, t)" and "stop r"
  shows "scan_digits (s @ r) = Some (i, t @ r)"
  using assms stop_digits [OF assms(2), of "tl s"]
  by (auto simp: scan_digits_def split: list.splits if_splits)

lemma scan_int_append:
  assumes "scan_int s = Some (i, t)" and "stop r"
  shows "scan_int (s @ r) = Some (i, t @ r)"
proof (cases s)
  case Nil
  with assms show ?thesis by (simp add: scan_int_def scan_digits_def)
next
  case (Cons c q)
  with assms show ?thesis
    by (cases "c = CHR ''-''")
      (auto simp: scan_int_def scan_digits_append dest: scan_digits_append [of "c # q"])
qed

lemma scan_frac_append:
  assumes "stop r"
  shows "scan_frac (s @ r) = (fst (scan_frac s), snd (scan_frac s) @ r)"
proof (cases s)
  case Nil
  with assms show ?thesis by (auto simp: scan_frac_def stop_def split: list.splits)
next
  case (Cons d t)
  show ?thesis
  proof (cases "t = []")
    case True
    with Cons assms show ?thesis by (auto simp: scan_frac_def stop_def split: list.splits)
  next
    case False
    with Cons assms show ?thesis
      using stop_digits [OF assms, of t]
      by (auto simp: scan_frac_def split: list.splits)
  qed
qed

lemma scan_exp_append:
  assumes "stop r"
  shows "scan_exp (s @ r) = (fst (scan_exp s), snd (scan_exp s) @ r)"
proof -
  note st = stop_digits [OF assms]
  consider "s = []" | e where "s = [e]" | e d where "s = [e, d]" | e d c q where "s = e # d # c # q"
    by (cases s rule: list.exhaust) (metis list.exhaust)+
  then show ?thesis
  proof cases
    case 1
    with assms show ?thesis by (auto simp: scan_exp_def stop_def split: list.splits)
  next
    case 2
    with assms show ?thesis by (auto simp: scan_exp_def stop_def split: list.splits)
  next
    case 3
    with assms show ?thesis
      using st [of "[]"] st [of "[d]"] by (auto simp: scan_exp_def stop_def)
  next
    case 4
    with assms show ?thesis
      using st [of "c # q"] st [of "d # c # q"] by (auto simp: scan_exp_def)
  qed
qed

lemma scan_number_append:
  assumes "scan_number s = Some (v, t)" and "stop r"
  shows "scan_number (s @ r) = Some (v, t @ r)"
proof (cases "scan_int s")
  case None
  then have "scan_int (s @ r) = None" if "s = p @ t" "p \<in> {''NaN'', ''Infinity'', ''-Infinity''}" for p
    using that by (auto simp: scan_int_def scan_digits_def is_digit_def)
  with None assms show ?thesis
    by (auto simp: scan_number_def strip_eq_Some split: option.splits)
next
  case (Some a)
  then show ?thesis
    using assms scan_int_append [of s "fst a" "snd a" r] scan_frac_append [OF assms(2), of "snd a"]
      scan_exp_append [OF assms(2), of "snd (scan_frac (snd a))"]
    by (cases a) (auto simp: scan_number_def Let_def split: prod.splits if_splits)
qed

lemma scan_number_hd:
  "scan_number s = Some x \<Longrightarrow> s \<noteq> [] \<and> (is_digit (hd s) \<or> hd s \<in> {CHR ''-'', CHR ''N'', CHR ''I''})"
  by (cases s) (auto simp: scan_number_def scan_int_def scan_digits_def strip_eq_Some is_digit_def
      split: option.splits if_splits)

lemma scan_number_show_int:
  assumes "stop r"
  shows "scan_number (show_int i @ r) = Some (JInt i, r)"
proof -
  have dig: "scan_digits (show_nat n) = Some (show_nat n, [])" for n
  proof (cases "n = 0")
    case True
    have "(of_char (digit_char 0) :: nat) = of_char (CHR ''0'')" by (simp add: of_char_digit)
    then have "digit_char 0 = CHR ''0''" by (metis of_char_eq_iff)
    with True show ?thesis by (simp add: show_nat.simps scan_digits_def)
  next
    case False
    then obtain c q where cq: "show_nat n = c # q" "c \<noteq> CHR ''0''"
      using hd_show_nat [of n] by (cases "show_nat n") auto
    moreover have "\<forall>x \<in> set (show_nat n). is_digit x"
      using show_nat_digits by blast
    ultimately show ?thesis
      by (simp add: scan_digits_def takeWhile_eq_all_conv dropWhile_eq_Nil_conv)
  qed
  have "hd (show_nat n) \<noteq> CHR ''-''" for n
    using show_nat_digits [OF hd_in_set [OF show_nat_nonempty [of n]]] by (auto simp: is_digit_def)
  then have nm: "strip ''-'' (show_nat n) = None" for n
    by (simp add: strip_hd)
  have "scan_number (show_int i) = Some (JInt i, [])"
    by (simp add: scan_number_def show_int_def scan_int_def dig nm scan_frac_def scan_exp_def
        read_int_def)
  then show ?thesis
    using scan_number_append [OF _ assms] by fastforce
qed

subsection \<open>Strings\<close>

lemma of_char_less_256 [simp]: "(of_char c :: nat) < 256"
  using of_char_mod_256 [of c] by (metis mod_less_divisor zero_less_numeral)

lemma hex_val_digit_char: "n < 16 \<Longrightarrow> hex_val (digit_char n) = Some n"
  by (auto simp: hex_val_def digit_char_def Let_def)

lemma hex_char_of_char:
  "hex_char (CHR ''0'') (CHR ''0'') (digit_char (of_char c div 16)) (digit_char (of_char c mod 16)) = Some c"
proof -
  have "(of_char c :: nat) div 16 < 16"
    using of_char_less_256 [of c] by (simp add: less_mult_imp_div_less)
  moreover have "hex_val (CHR ''0'') = Some 0" by (simp add: hex_val_def)
  ultimately show ?thesis
    by (simp add: hex_char_def hex_val_digit_char)
qed

lemma scan_string_esc: "scan_string (esc_char a c @ t) = map_option (apfst (Cons c)) (scan_string t)"
proof -
  consider "c \<in> {CHR 0x5C, CHR 0x22, CHR 0x08, CHR 0x0C, CHR 0x0A, CHR 0x0D, CHR 0x09}"
    | "c \<notin> {CHR 0x5C, CHR 0x22, CHR 0x08, CHR 0x0C, CHR 0x0A, CHR 0x0D, CHR 0x09}"
      "(of_char c :: nat) < 32 \<or> (a \<and> 126 < (of_char c :: nat))"
    | "c \<notin> {CHR 0x5C, CHR 0x22, CHR 0x08, CHR 0x0C, CHR 0x0A, CHR 0x0D, CHR 0x09}"
      "\<not> ((of_char c :: nat) < 32 \<or> (a \<and> 126 < (of_char c :: nat)))"
    by blast
  then show ?thesis
  proof cases
    case 1
    then show ?thesis by (auto simp: esc_char_def unescape_def)
  next
    case 2
    then show ?thesis by (simp add: esc_char_def hex_char_of_char)
  next
    case 3
    then show ?thesis by (auto simp: esc_char_def)
  qed
qed

lemma scan_string_enc:
  "scan_string (concat (map (esc_char a) s) @ CHR 0x22 # r) = Some (s, r)"
  by (induction s) (simp_all add: scan_string_esc)

subsection \<open>Values\<close>

lemma enc_hd:
  assumes "wf_json v"
  shows "enc f v \<noteq> [] \<and> \<not> is_ws (hd (enc f v)) \<and> hd (enc f v) \<notin> {CHR '']'', CHR ''}''}"
proof (cases v)
  case (JInt i)
  have "\<not> is_ws (hd (show_nat n)) \<and> hd (show_nat n) \<notin> {CHR '']'', CHR ''}''}" for n
    using show_nat_digits [OF hd_in_set [OF show_nat_nonempty [of n]]]
    by (auto simp: is_digit_def is_ws_def)
  with JInt show ?thesis by (auto simp: show_int_def is_ws_def)
next
  case (JFloat t)
  with assms show ?thesis
    using scan_number_hd [of t "(JFloat t, [])"] by (auto simp: is_digit_def is_ws_def)
qed (simp_all add: is_ws_def enc_str_def)

lemma skip_ws_enc: "wf_json v \<Longrightarrow> skip_ws (enc f v @ r) = enc f v @ r"
  using enc_hd [of v f] by (cases "enc f v") auto

lemma skip_ws_items: "vs \<noteq> [] \<Longrightarrow> wf_jsons vs \<Longrightarrow> skip_ws (enc_items f vs @ r) = enc_items f vs @ r"
  by (cases vs) (simp_all add: skip_ws_enc)

lemma skip_ws_pairs: "kvs \<noteq> [] \<Longrightarrow> skip_ws (enc_pairs f kvs @ r) = enc_pairs f kvs @ r"
  by (cases kvs) (auto simp: enc_str_def is_ws_def)

lemma skip_ws_sep:
  assumes "wf_format f"
  shows "skip_ws (item_sep f @ t) = item_sep f @ t" "skip_ws (key_sep f @ t) = key_sep f @ t"
    and "\<exists>w. strip '','' (item_sep f @ t) = Some w \<and> skip_ws w = skip_ws t"
    and "\<exists>w. strip '':'' (key_sep f @ t) = Some w \<and> skip_ws w = skip_ws t"
    and "stop (item_sep f @ t)"
  using assms by (auto simp: wf_format_def is_ws_def stop_def is_digit_def)

lemma dict_of_pairs_wf: "wf_dict d \<Longrightarrow> dict_of_pairs d = d"
proof -
  have "distinct (map fst (e @ d)) \<Longrightarrow> foldl (\<lambda>d (k, v). AList.update k v d) e d = e @ d" for e
    by (induction d arbitrary: e) (auto simp: update_new split: prod.splits)
  from this [of "[]"] show "wf_dict d \<Longrightarrow> dict_of_pairs d = d"
    by (simp add: dict_of_pairs_def wf_dict_def)
qed

lemma scan_value_number:
  assumes "scan_number s = Some x" shows "scan_value (Suc n) s = Some x"
proof -
  obtain c r where s: "s = c # r" and c: "is_digit c \<or> c \<in> {CHR ''-'', CHR ''N'', CHR ''I''}"
    using scan_number_hd [OF assms] by (cases s) auto
  have "c \<notin> {CHR 0x22, CHR ''['', CHR ''{'', CHR ''n'', CHR ''t'', CHR ''f''}"
    using c by (auto simp: is_digit_def)
  then have "c \<noteq> CHR 0x22" "c \<noteq> CHR ''[''" "c \<noteq> CHR ''{''" "CHR ''n'' \<noteq> c"
    "CHR ''t'' \<noteq> c" "CHR ''f'' \<noteq> c" by blast+
  with s assms show ?thesis by simp
qed

lemma stop_simps [simp]: "stop []" "stop (CHR '']'' # r)" "stop (CHR ''}'' # r)"
  by (simp_all add: stop_def is_digit_def)

lemma not_ws_simps [simp]:
  "\<not> is_ws (CHR '','')" "\<not> is_ws (CHR '':'')" "\<not> is_ws (CHR '']'')" "\<not> is_ws (CHR ''}'')"
  by (simp_all add: is_ws_def)

text \<open>Reading what was written, with any rest that cannot continue a number.\<close>

lemma scan_enc:
  assumes "wf_format f"
  shows "wf_json v \<Longrightarrow> stop r \<Longrightarrow> 2 * length (enc f v) \<le> n \<Longrightarrow>
      scan_value n (enc f v @ r) = Some (v, r)"
    and "vs \<noteq> [] \<Longrightarrow> wf_jsons vs \<Longrightarrow> 2 * length (enc_items f vs) + 1 \<le> n \<Longrightarrow>
      scan_items n (enc_items f vs @ CHR '']'' # r) = Some (vs, r)"
    and "kvs \<noteq> [] \<Longrightarrow> wf_pairs kvs \<Longrightarrow> 2 * length (enc_pairs f kvs) + 1 \<le> n \<Longrightarrow>
      scan_pairs n (enc_pairs f kvs @ CHR ''}'' # r) = Some (kvs, r)"
proof (induction v and vs and kvs arbitrary: n r and n r and n r rule: wf_json_wf_jsons_wf_pairs.induct)
  case (1 vs)
  then obtain m where n: "n = Suc m" by (cases n) auto
  show ?case
  proof (cases "vs = []")
    case True
    with n show ?thesis by simp
  next
    case False
    have "scan_items m (enc_items f vs @ CHR '']'' # r) = Some (vs, r)"
      using 1 False n by simp
    moreover have "strip '']'' (enc_items f vs @ CHR '']'' # r) = None"
      using False 1 enc_hd [of "hd vs" f] by (cases vs) (auto intro!: strip_hd)
    ultimately show ?thesis
      using False 1 n by (simp add: skip_ws_items)
  qed
next
  case (2 d)
  then obtain m where n: "n = Suc m" by (cases n) auto
  show ?case
  proof (cases "d = []")
    case True
    with n show ?thesis by simp
  next
    case False
    have "scan_pairs m (enc_pairs f d @ CHR ''}'' # r) = Some (d, r)"
      using 2 False n by simp
    moreover have "strip ''}'' (enc_pairs f d @ CHR ''}'' # r) = None"
      using False by (cases d) (auto simp: enc_str_def)
    ultimately show ?thesis
      using False 2 n by (simp add: skip_ws_pairs dict_of_pairs_wf)
  qed
next
  case (3 t)
  then have "scan_number (t @ r) = Some (JFloat t, r)"
    using scan_number_append [of t "JFloat t" "[]" r] by simp
  moreover have "t \<noteq> []" using 3 scan_number_hd by fastforce
  ultimately show ?case using 3 scan_value_number by (cases n) auto
next
  case 4
  then show ?case by (cases n) auto
next
  case (5 b)
  then show ?case by (cases n) (auto split: if_splits)
next
  case (6 i)
  have "show_int i \<noteq> []" by (simp add: show_int_def)
  with 6 show ?case
    using scan_value_number [OF scan_number_show_int] by (cases n) auto
next
  case (7 s)
  then show ?case
    by (cases n) (auto simp: enc_str_def scan_string_enc)
next
  case (9 v vs)
  then obtain m where n: "n = Suc m" by (cases n) auto
  show ?case
  proof (cases "vs = []")
    case True
    then show ?thesis using 9 n by simp
  next
    case False
    let ?t = "enc_items f vs @ CHR '']'' # r"
    obtain w where w: "strip '','' (item_sep f @ ?t) = Some w" "skip_ws w = skip_ws ?t"
      using skip_ws_sep(3) [OF assms] by blast
    have "1 \<le> length (item_sep f)" using assms by (auto simp: wf_format_def)
    then have "scan_items m ?t = Some (vs, r)"
      using 9 False n by simp
    moreover have "scan_value m (enc f v @ item_sep f @ ?t) = Some (v, item_sep f @ ?t)"
      using 9 False n skip_ws_sep(5) [OF assms] by simp
    ultimately show ?thesis
      using 9 False n w by (simp add: skip_ws_sep [OF assms] skip_ws_items)
  qed
next
  case (11 k v kvs)
  then obtain m where n: "n = Suc m" by (cases n) auto
  let ?t = "if kvs = [] then CHR ''}'' # r else item_sep f @ enc_pairs f kvs @ CHR ''}'' # r"
  obtain w where w: "strip '':'' (key_sep f @ enc f v @ ?t) = Some w" "skip_ws w = skip_ws (enc f v @ ?t)"
    using skip_ws_sep(4) [OF assms] by blast
  have val: "scan_value m (enc f v @ ?t) = Some (v, ?t)"
    using 11 n skip_ws_sep(5) [OF assms] by (simp split: if_splits)
  have key: "Option.bind (strip [CHR 0x22] (enc_str (ensure_ascii f) k @ q)) scan_string = Some (k, q)" for q
    by (simp add: enc_str_def scan_string_enc)
  show ?case
  proof (cases "kvs = []")
    case True
    with 11 n w val show ?thesis
      by (simp add: key skip_ws_sep [OF assms] skip_ws_enc)
  next
    case False
    obtain u where u: "strip '','' (item_sep f @ enc_pairs f kvs @ CHR ''}'' # r) = Some u"
      "skip_ws u = skip_ws (enc_pairs f kvs @ CHR ''}'' # r)"
      using skip_ws_sep(3) [OF assms] by blast
    have "1 \<le> length (item_sep f)" using assms by (auto simp: wf_format_def)
    then have "scan_pairs m (enc_pairs f kvs @ CHR ''}'' # r) = Some (kvs, r)"
      using 11 False n by simp
    with 11 n w val u False show ?thesis
      by (simp add: key skip_ws_sep [OF assms] skip_ws_enc skip_ws_pairs)
  qed
qed simp_all

lemma json_loads_enc: "wf_format f \<Longrightarrow> wf_json v \<Longrightarrow> json_loads (enc f v) = Inr v"
  using scan_enc(1) [of f v "[]" "2 * length (enc f v) + 2"] skip_ws_enc [of v f "[]"]
  by (simp add: json_loads_def)

text \<open>The text \<open>json.dumps\<close> writes without \<open>sort_keys\<close> decodes to the value itself.\<close>

lemma json_loads_dumps: "wf_format f \<Longrightarrow> wf_json v \<Longrightarrow> json_loads (json_dumps f False v) = Inr v"
  by (simp add: json_dumps_def json_loads_enc)

lemma sort_pairs_map: "sort_pairs d = map (apsnd sort_json) d"
  by (induction d) auto

lemma wf_sort_json:
  "wf_json v \<Longrightarrow> wf_json (sort_json v)"
  "wf_jsons vs \<Longrightarrow> wf_jsons (sort_jsons vs)"
  "wf_pairs d \<Longrightarrow> wf_pairs (sort_pairs d)"
proof (induction v and vs and d rule: sort_json_sort_jsons_sort_pairs.induct)
  case (1 vs)
  then show ?case by simp
next
  case (2 d)
  moreover have "wf_pairs e \<longleftrightarrow> (\<forall>x \<in> set e. wf_json (snd x))" for e by (induction e) auto
  ultimately show ?case by (simp add: sort_pairs_map)
qed auto

text \<open>JSON text round trip.  Whatever separators are used, and with or without escaping of
  non-ASCII characters, decoding the text of a well-formed value gives the value back; with
  sorted keys it gives the value with the items of every dict in key order.\<close>

theorem json_roundtrip:
  assumes "wf_format f" "wf_json v"
  shows "json_loads (json_dumps f False v) = Inr v \<and> json_loads (json_dumps f True v) = Inr (sort_json v)"
  using assms by (simp add: json_dumps_def json_loads_enc wf_sort_json)

theorem json_roundtrip_witness:
  "json_loads (json_dumps default_format False (JDict [(''b'', JList [JInt (- 7), JNull]), (''a'', JStr ''x'')])) =
     Inr (JDict [(''b'', JList [JInt (- 7), JNull]), (''a'', JStr ''x'')]) \<and>
   json_loads (json_dumps default_format True (JDict [(''b'', JList [JInt (- 7), JNull]), (''a'', JStr ''x'')])) =
     Inr (JDict [(''a'', JStr ''x''), (''b'', JList [JInt (- 7), JNull])])"
  using json_roundtrip [of default_format "JDict [(''b'', JList [JInt (- 7), JNull]), (''a'', JStr ''x'')]"]
  by (simp add: wf_format_def default_format_def wf_dict_def sort_key_def)

section \<open>Indented text\<close>

text \<open>\<open>json.dumps(v, indent=2)\<close>: every item on a line of its own, indented by its depth; empty lists and
  dictionaries stay on one line.\<close>

definition newline :: "nat \<Rightarrow> string" where
  "newline l = CHR 0x0A # replicate (2 * l) (CHR '' '')"

fun pretty :: "nat \<Rightarrow> json \<Rightarrow> string" and pretty_items :: "nat \<Rightarrow> json list \<Rightarrow> string"
  and pretty_pairs :: "nat \<Rightarrow> (string \<times> json) list \<Rightarrow> string" where
  "pretty l (JList vs) = (if vs = [] then ''[]'' else CHR ''['' # newline (Suc l) @ pretty_items (Suc l) vs @ newline l @ '']'')"
| "pretty l (JDict d) = (if d = [] then ''{}'' else CHR ''{'' # newline (Suc l) @ pretty_pairs (Suc l) d @ newline l @ ''}'')"
| "pretty l (JFloat t) = t"
| "pretty l JNull = ''null''"
| "pretty l (JBool b) = (if b then ''true'' else ''false'')"
| "pretty l (JInt i) = show_int i"
| "pretty l (JStr s) = enc_str True s"
| "pretty_items l [] = []"
| "pretty_items l (v # vs) = pretty l v @ (if vs = [] then [] else '','' @ newline l @ pretty_items l vs)"
| "pretty_pairs l [] = []"
| "pretty_pairs l ((k, v) # kvs) = enc_str True k @ '': '' @ pretty l v
     @ (if kvs = [] then [] else '','' @ newline l @ pretty_pairs l kvs)"

definition json_dumps_indent :: "json \<Rightarrow> string" where
  "json_dumps_indent v = pretty 0 v"

lemma newline_simps [simp]:
  "skip_ws (newline l @ t) = skip_ws t" "stop (newline l @ t)" "newline l \<noteq> []"
proof -
  have "skip_ws (replicate k (CHR '' '') @ t) = skip_ws t" for k by (induction k) (simp_all add: is_ws_def)
  then show "skip_ws (newline l @ t) = skip_ws t" by (simp add: newline_def is_ws_def)
qed (simp_all add: newline_def stop_def is_digit_def)

lemma stop_comma [simp]: "stop (CHR '','' # t)"
  by (simp add: stop_def is_digit_def)

lemma pretty_hd:
  assumes "wf_json v"
  shows "pretty l v \<noteq> [] \<and> \<not> is_ws (hd (pretty l v)) \<and> hd (pretty l v) \<notin> {CHR '']'', CHR ''}''}"
proof (cases v)
  case (JList vs)
  then show ?thesis by (simp add: is_ws_def)
next
  case (JDict d)
  then show ?thesis by (simp add: is_ws_def)
qed (use enc_hd [OF assms, of compact_ascii_format] in \<open>simp_all add: compact_ascii_format_def\<close>)

lemma skip_ws_pretty: "wf_json v \<Longrightarrow> skip_ws (pretty l v @ r) = pretty l v @ r"
  using pretty_hd [of v l] by (cases "pretty l v") auto

lemma skip_ws_pretty_items: "vs \<noteq> [] \<Longrightarrow> wf_jsons vs \<Longrightarrow> skip_ws (pretty_items l vs @ r) = pretty_items l vs @ r"
  by (cases vs) (simp_all add: skip_ws_pretty)

lemma skip_ws_pretty_pairs: "kvs \<noteq> [] \<Longrightarrow> skip_ws (pretty_pairs l kvs @ r) = pretty_pairs l kvs @ r"
  by (cases kvs) (auto simp: enc_str_def is_ws_def)

lemma scan_pretty_scalar:
  assumes "\<And>vs. v \<noteq> JList vs" "\<And>d. v \<noteq> JDict d" "wf_json v" "stop r" "2 * length (pretty l v) \<le> n"
  shows "scan_value n (pretty l v @ r) = Some (v, r)"
proof -
  have "pretty l v = enc compact_ascii_format v" using assms(1,2) by (cases v) (auto simp: compact_ascii_format_def)
  moreover have "wf_format compact_ascii_format" by (simp add: compact_ascii_format_def wf_format_def)
  ultimately show ?thesis using scan_enc(1) [of compact_ascii_format v r n] assms(3-5) by simp
qed

lemma scan_pretty:
  shows "wf_json v \<Longrightarrow> stop r \<Longrightarrow> 2 * length (pretty l v) \<le> n \<Longrightarrow>
      scan_value n (pretty l v @ r) = Some (v, r)"
    and "vs \<noteq> [] \<Longrightarrow> wf_jsons vs \<Longrightarrow> 2 * length (pretty_items l vs) + 1 \<le> n \<Longrightarrow>
      scan_items n (pretty_items l vs @ newline m @ CHR '']'' # r) = Some (vs, r)"
    and "kvs \<noteq> [] \<Longrightarrow> wf_pairs kvs \<Longrightarrow> 2 * length (pretty_pairs l kvs) + 1 \<le> n \<Longrightarrow>
      scan_pairs n (pretty_pairs l kvs @ newline m @ CHR ''}'' # r) = Some (kvs, r)"
proof (induction l v and l vs and l kvs arbitrary: n r and n r m and n r m rule: pretty_pretty_items_pretty_pairs.induct)
  case (1 l vs)
  then obtain k where n: "n = Suc k" by (cases n) (auto split: if_splits)
  show ?case
  proof (cases "vs = []")
    case True
    with n show ?thesis by simp
  next
    case False
    let ?t = "pretty_items (Suc l) vs @ newline l @ CHR '']'' # r"
    have "scan_items k ?t = Some (vs, r)" using 1 False n by simp
    moreover have "strip '']'' ?t = None"
      using False 1 pretty_hd [of "hd vs" "Suc l"] by (cases vs) (auto intro!: strip_hd)
    ultimately show ?thesis using False 1 n by (simp add: skip_ws_pretty_items)
  qed
next
  case (2 l d)
  then obtain k where n: "n = Suc k" by (cases n) (auto split: if_splits)
  show ?case
  proof (cases "d = []")
    case True
    with n show ?thesis by simp
  next
    case False
    let ?t = "pretty_pairs (Suc l) d @ newline l @ CHR ''}'' # r"
    have "scan_pairs k ?t = Some (d, r)" using 2 False n by simp
    moreover have "strip ''}'' ?t = None" using False by (cases d) (auto simp: enc_str_def)
    ultimately show ?thesis using False 2 n by (simp add: skip_ws_pretty_pairs dict_of_pairs_wf)
  qed
next
  case (3 l t)
  then show ?case by (intro scan_pretty_scalar) simp_all
next
  case (4 l)
  then show ?case by (intro scan_pretty_scalar) simp_all
next
  case (5 l b)
  then show ?case by (intro scan_pretty_scalar) simp_all
next
  case (6 l i)
  then show ?case by (intro scan_pretty_scalar) simp_all
next
  case (7 l s)
  then show ?case by (intro scan_pretty_scalar) simp_all
next
  case (9 l v vs)
  then obtain k where n: "n = Suc k" by (cases n) auto
  show ?case
  proof (cases "vs = []")
    case True
    then show ?thesis using 9 n by simp
  next
    case False
    let ?t = "pretty_items l vs @ newline m @ CHR '']'' # r"
    have "scan_items k ?t = Some (vs, r)" using 9 False n by simp
    moreover have "scan_value k (pretty l v @ CHR '','' # newline l @ ?t) = Some (v, CHR '','' # newline l @ ?t)"
      using 9 False n by simp
    ultimately show ?thesis using 9 False n by (simp add: skip_ws_pretty_items)
  qed
next
  case (11 l k v kvs)
  then obtain j where n: "n = Suc j" by (cases n) auto
  let ?t = "if kvs = [] then newline m @ CHR ''}'' # r else CHR '','' # newline l @ pretty_pairs l kvs @ newline m @ CHR ''}'' # r"
  have val: "scan_value j (pretty l v @ ?t) = Some (v, ?t)" using 11 n by (simp split: if_splits)
  have key: "Option.bind (strip [CHR 0x22] (enc_str True k @ q)) scan_string = Some (k, q)" for q
    by (simp add: enc_str_def scan_string_enc)
  have blank: "is_ws (CHR '' '')" by (simp add: is_ws_def)
  show ?case
  proof (cases "kvs = []")
    case True
    with 11 n val show ?thesis by (simp add: key blank skip_ws_pretty)
  next
    case False
    have "scan_pairs j (pretty_pairs l kvs @ newline m @ CHR ''}'' # r) = Some (kvs, r)" using 11 False n by simp
    with 11 n val False show ?thesis by (simp add: key blank skip_ws_pretty skip_ws_pretty_pairs)
  qed
qed simp_all

lemma json_loads_indent: "wf_json v \<Longrightarrow> json_loads (json_dumps_indent v) = Inr v"
  using scan_pretty(1) [of v "[]" 0 "2 * length (pretty 0 v) + 2"] skip_ws_pretty [of v 0 "[]"]
  by (simp add: json_loads_def json_dumps_indent_def)

end
