(* ===== verification/Canonical.thy ===== *)
theory Canonical
  imports PyJson
begin

text \<open>
  The canonical representation layer, \<open>rationalevault/canonical\<close>: the one canonicalization
  path, payloads, UTC timestamps and their RFC 3339 text, event envelopes, the serializer to
  canonical bytes and back, content digests and stable ids.

  Two functions of Python's runtime are arguments, collected in a record \<open>host\<close>: Unicode NFC
  normalization and SHA-256 (as hexadecimal text).  Every result holds for all such functions that
  satisfy the hypotheses it names, so for the real ones.
\<close>

section \<open>Runtime functions and specification constants\<close>

record host =
  nfc :: "string \<Rightarrow> string"
  sha256_hex :: "string \<Rightarrow> string"

definition RVCJ_VERSION :: int where "RVCJ_VERSION = 1"
definition EVENT_SCHEMA_VERSION :: int where "EVENT_SCHEMA_VERSION = 1"
definition HASH_ALGORITHM :: string where "HASH_ALGORITHM = ''sha-256''"
definition HASH_DISPLAY_LENGTH :: nat where "HASH_DISPLAY_LENGTH = 12"
definition RESERVED_PAYLOAD_NAMESPACES :: "string list" where
  "RESERVED_PAYLOAD_NAMESPACES = [''meta'', ''internal'', ''experimental'']"

text \<open>What the sources rely on of NFC: it is idempotent and leaves ASCII text alone.\<close>

definition is_ascii :: "string \<Rightarrow> bool" where
  "is_ascii s \<longleftrightarrow> list_all (\<lambda>c. (of_char c :: nat) < 128) s"

definition nfc_spec :: "host \<Rightarrow> bool" where
  "nfc_spec h \<longleftrightarrow> (\<forall>s. nfc h (nfc h s) = nfc h s) \<and> (\<forall>s. is_ascii s \<longrightarrow> nfc h s = s)"

section \<open>Canonicalization (canonicalizer.py)\<close>

text \<open>Dictionary keys are sorted and otherwise left as they are; only string values are normalized.
  (The source sorts the keys and canonicalizes the values in that order; canonicalizing a value
  does not depend on the others, so sorting the result is the same dictionary.)\<close>

fun canonicalize :: "host \<Rightarrow> json \<Rightarrow> json" and canon_list :: "host \<Rightarrow> json list \<Rightarrow> json list"
  and canon_pairs :: "host \<Rightarrow> (string \<times> json) list \<Rightarrow> (string \<times> json) list" where
  "canonicalize h (JDict d) = JDict (sort_key fst (canon_pairs h d))"
| "canonicalize h (JStr s) = JStr (nfc h s)"
| "canonicalize h (JList vs) = JList (canon_list h vs)"
| "canonicalize h v = v"
| "canon_list h [] = []"
| "canon_list h (v # vs) = canonicalize h v # canon_list h vs"
| "canon_pairs h [] = []"
| "canon_pairs h ((k, v) # kvs) = (k, canonicalize h v) # canon_pairs h kvs"

section \<open>Payloads (payload.py)\<close>

record CanonicalPayload =
  pl_data :: payload

definition payload_validate :: "CanonicalPayload \<Rightarrow> string list option \<Rightarrow> unit result" where
  "payload_validate p required =
     (let missing = (case required of None \<Rightarrow> [] | Some rs \<Rightarrow> filter (\<lambda>r. \<not> dict_has (pl_data p) r) rs) in
      if missing \<noteq> [] then Inl (ValueError ''Missing required fields'')
      else case filter (\<lambda>(k, v). k \<in> set RESERVED_PAYLOAD_NAMESPACES) (pl_data p) of
        [] \<Rightarrow> Inr ()
      | _ \<Rightarrow> Inl (ValueError ''Reserved namespace''))"

definition payload_canonicalize :: "host \<Rightarrow> CanonicalPayload \<Rightarrow> CanonicalPayload" where
  "payload_canonicalize h p = \<lparr>pl_data = sort_key fst (canon_pairs h (pl_data p))\<rparr>"

definition payload_to_dict :: "CanonicalPayload \<Rightarrow> payload" where
  "payload_to_dict p = pl_data p"

definition payload_from_dict :: "payload \<Rightarrow> CanonicalPayload" where
  "payload_from_dict d = \<lparr>pl_data = d\<rparr>"

section \<open>Timestamps (timestamp.py)\<close>

text \<open>A \<open>datetime\<close>: its civil fields, and its offset from UTC in minutes (\<open>None\<close> for a
  naive one).  \<open>astimezone(timezone.utc)\<close> on a non-UTC value is an argument.\<close>

record datetime =
  dt_year :: nat
  dt_month :: nat
  dt_day :: nat
  dt_hour :: nat
  dt_minute :: nat
  dt_second :: nat
  dt_microsecond :: nat
  dt_tzinfo :: "int option"

definition leap_year :: "nat \<Rightarrow> bool" where
  "leap_year y \<longleftrightarrow> y mod 4 = 0 \<and> (y mod 100 \<noteq> 0 \<or> y mod 400 = 0)"

definition days_in_month :: "nat \<Rightarrow> nat \<Rightarrow> nat" where
  "days_in_month y m =
     (if m = 2 then (if leap_year y then 29 else 28)
      else if m \<in> {4, 6, 9, 11} then 30 else 31)"

text \<open>The range checks of the \<open>datetime\<close> constructor.\<close>

definition valid_datetime :: "datetime \<Rightarrow> bool" where
  "valid_datetime t \<longleftrightarrow> 1 \<le> dt_year t \<and> dt_year t \<le> 9999 \<and> 1 \<le> dt_month t \<and> dt_month t \<le> 12 \<and>
     1 \<le> dt_day t \<and> dt_day t \<le> days_in_month (dt_year t) (dt_month t) \<and>
     dt_hour t \<le> 23 \<and> dt_minute t \<le> 59 \<and> dt_second t \<le> 59 \<and> dt_microsecond t \<le> 999999"

record CanonicalTimestamp =
  ts_value :: datetime

definition timestamp_post_init :: "(datetime \<Rightarrow> datetime) \<Rightarrow> datetime \<Rightarrow> CanonicalTimestamp result" where
  "timestamp_post_init astimezone_utc dt =
     (case dt_tzinfo dt of
        None \<Rightarrow> Inl (ValueError ''Timestamp must be timezone-aware'')
      | Some off \<Rightarrow> Inr \<lparr>ts_value = (if off \<noteq> 0 then astimezone_utc dt else dt)\<rparr>)"

definition pad :: "nat \<Rightarrow> nat \<Rightarrow> string" where
  "pad w n = replicate (w - length (show_nat n)) (CHR ''0'') @ show_nat n"

text \<open>\<open>strftime\<close> pads every field but \<open>%Y\<close>, which the C library prints unpadded.\<close>

definition to_iso8601 :: "CanonicalTimestamp \<Rightarrow> string" where
  "to_iso8601 ts = (let t = ts_value ts in
     show_nat (dt_year t) @ ''-'' @ pad 2 (dt_month t) @ ''-'' @ pad 2 (dt_day t) @ ''T'' @
     pad 2 (dt_hour t) @ '':'' @ pad 2 (dt_minute t) @ '':'' @ pad 2 (dt_second t) @ ''.'' @
     pad 6 (dt_microsecond t) @ ''Z'')"

text \<open>
  \<open>strptime\<close> with the format \<open>%Y-%m-%dT%H:%M:%S.%f\<close>: the text is cut at the separators (the
  letter in either case), each part has to match the directive's pattern, then the
  \<open>datetime\<close> constructor checks the ranges.
\<close>

definition cut_at :: "(char \<Rightarrow> bool) \<Rightarrow> string \<Rightarrow> (string \<times> string) option" where
  "cut_at P s = (case dropWhile (\<lambda>c. \<not> P c) s of
      [] \<Rightarrow> None | c # r \<Rightarrow> Some (takeWhile (\<lambda>c. \<not> P c) s, r))"

definition two_digits :: "nat \<Rightarrow> nat \<Rightarrow> string \<Rightarrow> nat option" where
  "two_digits lo hi s =
     (if s \<noteq> [] \<and> length s \<le> 2 \<and> list_all is_digit s \<and> lo \<le> read_nat s \<and> read_nat s \<le> hi
      then Some (read_nat s) else None)"

definition day_digits :: "string \<Rightarrow> nat option" where
  "day_digits s = (case s of
      [] \<Rightarrow> None
    | c # r \<Rightarrow> if c = CHR '' '' then (if length r = 1 then two_digits 1 9 r else None)
               else two_digits 1 31 s)"

definition fraction_digits :: "string \<Rightarrow> nat option" where
  "fraction_digits s =
     (if s \<noteq> [] \<and> length s \<le> 6 \<and> list_all is_digit s
      then Some (read_nat (s @ replicate (6 - length s) (CHR ''0''))) else None)"

definition year_digits :: "string \<Rightarrow> nat option" where
  "year_digits s = (if length s = 4 \<and> list_all is_digit s then Some (read_nat s) else None)"

definition strptime :: "string \<Rightarrow> datetime option" where
  "strptime s =
     Option.bind (cut_at ((=) (CHR ''-'')) s) (\<lambda>(ys, s1).
     Option.bind (cut_at ((=) (CHR ''-'')) s1) (\<lambda>(mos, s2).
     Option.bind (cut_at (\<lambda>c. c = CHR ''T'' \<or> c = CHR ''t'') s2) (\<lambda>(ds, s3).
     Option.bind (cut_at ((=) (CHR '':'')) s3) (\<lambda>(hs, s4).
     Option.bind (cut_at ((=) (CHR '':'')) s4) (\<lambda>(mis, s5).
     Option.bind (cut_at ((=) (CHR ''.'')) s5) (\<lambda>(ss, fs).
     Option.bind (year_digits ys) (\<lambda>y.
     Option.bind (two_digits 1 12 mos) (\<lambda>mo.
     Option.bind (day_digits ds) (\<lambda>d.
     Option.bind (two_digits 0 23 hs) (\<lambda>hh.
     Option.bind (two_digits 0 59 mis) (\<lambda>mi.
     Option.bind (two_digits 0 61 ss) (\<lambda>sec.
     Option.bind (fraction_digits fs) (\<lambda>us.
       let t = \<lparr>dt_year = y, dt_month = mo, dt_day = d, dt_hour = hh, dt_minute = mi, dt_second = sec,
                dt_microsecond = us, dt_tzinfo = None\<rparr> in
       if valid_datetime t then Some t else None)))))))))))))"

definition from_iso8601 :: "string \<Rightarrow> CanonicalTimestamp result" where
  "from_iso8601 s =
     (if s = [] \<or> last s \<noteq> CHR ''Z'' then Inl (ValueError ''Timestamp must end with Z'')
      else case strptime (butlast s) of
        None \<Rightarrow> Inl (ValueError ''does not match format'')
      | Some t \<Rightarrow> Inr \<lparr>ts_value = t\<lparr>dt_tzinfo := Some 0\<rparr>\<rparr>)"

section \<open>Event types and envelopes (types.py, envelope.py)\<close>

datatype EventType =
    DECISION_RECORDED
  | EVALUATION_RECORDED
  | KNOWLEDGE_UPDATED
  | EXPERIENCE_RECORDED
  | OUTCOME_OBSERVED

fun event_type_value :: "EventType \<Rightarrow> string" where
  "event_type_value DECISION_RECORDED = ''decision_recorded''"
| "event_type_value EVALUATION_RECORDED = ''evaluation_recorded''"
| "event_type_value KNOWLEDGE_UPDATED = ''knowledge_updated''"
| "event_type_value EXPERIENCE_RECORDED = ''experience_recorded''"
| "event_type_value OUTCOME_OBSERVED = ''outcome_observed''"

definition event_types :: "EventType list" where
  "event_types = [DECISION_RECORDED, EVALUATION_RECORDED, KNOWLEDGE_UPDATED,
     EXPERIENCE_RECORDED, OUTCOME_OBSERVED]"

text \<open>The enum's constructor \<open>EventType(v)\<close>.\<close>

definition event_type_of :: "json \<Rightarrow> EventType result" where
  "event_type_of v = (case find (\<lambda>t. JStr (event_type_value t) = v) event_types of
      None \<Rightarrow> Inl (ValueError ''not a valid EventType'') | Some t \<Rightarrow> Inr t)"

record CanonicalEnvelope =
  env_rvcj_version :: int
  env_event_schema_version :: int
  env_experience_id :: string
  env_event_type :: EventType
  env_stream_id :: string
  env_sequence :: int
  env_timestamp :: CanonicalTimestamp
  env_actor :: string
  env_payload :: CanonicalPayload
  env_correlation_id :: "string option"
  env_causation_id :: "string option"

definition envelope_to_dict :: "CanonicalEnvelope \<Rightarrow> (string, json) dict" where
  "envelope_to_dict e =
     [(''rvcj_version'', JInt (env_rvcj_version e)),
      (''event_schema_version'', JInt (env_event_schema_version e)),
      (''experience_id'', JStr (env_experience_id e)),
      (''event_type'', JStr (event_type_value (env_event_type e))),
      (''stream_id'', JStr (env_stream_id e)),
      (''sequence'', JInt (env_sequence e)),
      (''timestamp'', JStr (to_iso8601 (env_timestamp e))),
      (''actor'', JStr (env_actor e)),
      (''payload'', JDict (payload_to_dict (env_payload e)))]
     @ (case env_correlation_id e of None \<Rightarrow> [] | Some c \<Rightarrow> [(''correlation_id'', JStr c)])
     @ (case env_causation_id e of None \<Rightarrow> [] | Some c \<Rightarrow> [(''causation_id'', JStr c)])"

text \<open>Reading a field at its annotated type.\<close>

fun as_int :: "json \<Rightarrow> int result" where
  "as_int (JInt i) = Inr i"
| "as_int v = Inl (Untyped ''int'')"

fun as_str :: "json \<Rightarrow> string result" where
  "as_str (JStr s) = Inr s"
| "as_str v = Inl (Untyped ''str'')"

fun as_opt_str :: "json \<Rightarrow> string option result" where
  "as_opt_str JNull = Inr None"
| "as_opt_str (JStr s) = Inr (Some s)"
| "as_opt_str v = Inl (Untyped ''str | None'')"

text \<open>\<open>dict(v)\<close>; a non-empty sequence of pairs is not modelled.\<close>

fun py_dict :: "json \<Rightarrow> (string, json) dict result" where
  "py_dict (JDict d) = Inr d"
| "py_dict (JList vs) = (if vs = [] then Inr [] else Inl (Untyped ''dict''))"
| "py_dict (JStr s) = (if s = [] then Inr [] else Inl (ValueError ''dictionary update sequence''))"
| "py_dict v = Inl TypeError"

fun timestamp_field :: "json \<Rightarrow> CanonicalTimestamp result" where
  "timestamp_field (JStr s) = from_iso8601 s"
| "timestamp_field v = Inl (AttributeError ''endswith'')"

definition envelope_from_dict :: "(string, json) dict \<Rightarrow> CanonicalEnvelope result" where
  "envelope_from_dict d =
     rbind (rbind (dict_item d ''rvcj_version'') as_int) (\<lambda>rv.
     rbind (rbind (dict_item d ''event_schema_version'') as_int) (\<lambda>sv.
     rbind (rbind (dict_item d ''experience_id'') as_str) (\<lambda>ex.
     rbind (rbind (dict_item d ''event_type'') event_type_of) (\<lambda>et.
     rbind (rbind (dict_item d ''stream_id'') as_str) (\<lambda>st.
     rbind (rbind (dict_item d ''sequence'') as_int) (\<lambda>sq.
     rbind (rbind (dict_item d ''timestamp'') timestamp_field) (\<lambda>ts.
     rbind (rbind (dict_item d ''actor'') as_str) (\<lambda>ac.
     rbind (rbind (dict_item d ''payload'') py_dict) (\<lambda>pl.
     rbind (as_opt_str (get_or_none d ''correlation_id'')) (\<lambda>co.
     rbind (as_opt_str (get_or_none d ''causation_id'')) (\<lambda>ca.
       Inr \<lparr>env_rvcj_version = rv, env_event_schema_version = sv, env_experience_id = ex, env_event_type = et,
            env_stream_id = st, env_sequence = sq, env_timestamp = ts, env_actor = ac,
            env_payload = payload_from_dict pl, env_correlation_id = co, env_causation_id = ca\<rparr>)))))))))))"

section \<open>The serializer (serializer.py) and stable ids (id_generator.py)\<close>

text \<open>UTF-8 of the code points of \<open>char\<close>; a byte is a \<open>char\<close> too.\<close>

definition utf8_char :: "char \<Rightarrow> string" where
  "utf8_char c = (let n = (of_char c :: nat) in
     if n < 128 then [c] else [char_of (192 + n div 64), char_of (128 + n mod 64)])"

definition utf8_encode :: "string \<Rightarrow> string" where
  "utf8_encode s = concat (map utf8_char s)"

fun utf8_decode :: "string \<Rightarrow> string result" where
  "utf8_decode [] = Inr []"
| "utf8_decode (b # bs) =
     (let n = (of_char b :: nat) in
      if n < 128 then rbind (utf8_decode bs) (\<lambda>s. Inr (b # s))
      else if n = 194 \<or> n = 195 then
        (case bs of
           [] \<Rightarrow> Inl UnicodeDecodeError
         | b2 # bs2 \<Rightarrow>
             (let m = (of_char b2 :: nat) in
              if 128 \<le> m \<and> m < 192
              then rbind (utf8_decode bs2) (\<lambda>s. Inr (char_of (64 * (n - 192) + (m - 128)) # s))
              else Inl UnicodeDecodeError))
      else if 196 \<le> n \<and> n < 245 then Inl (Untyped ''code point above 255'')
      else Inl UnicodeDecodeError)"

definition canonical_bytes :: "host \<Rightarrow> CanonicalEnvelope \<Rightarrow> string" where
  "canonical_bytes h e =
     utf8_encode (json_dumps compact_format False (canonicalize h (JDict (envelope_to_dict e))))"

definition serialize :: "host \<Rightarrow> CanonicalEnvelope \<Rightarrow> string" where
  "serialize h e = canonical_bytes h e"

definition deserialize :: "string \<Rightarrow> CanonicalEnvelope result" where
  "deserialize bytes =
     rbind (utf8_decode bytes) (\<lambda>s. rbind (json_loads s) (\<lambda>v.
       case v of JDict d \<Rightarrow> envelope_from_dict d | _ \<Rightarrow> Inl TypeError))"

definition content_digest :: "host \<Rightarrow> CanonicalEnvelope \<Rightarrow> string" where
  "content_digest h e = sha256_hex h (canonical_bytes h e)"

definition schema_fingerprint :: "host \<Rightarrow> string" where
  "schema_fingerprint h = sha256_hex h (utf8_encode (json_dumps compact_ascii_format True
     (JDict [(''rvcj_version'', JInt RVCJ_VERSION), (''key_ordering'', JStr ''lexicographic''),
             (''unicode_normalization'', JStr ''NFC''), (''hash_algorithm'', JStr HASH_ALGORITHM)])))"

definition generate_event_id :: "host \<Rightarrow> string \<Rightarrow> string \<Rightarrow> int \<Rightarrow> CanonicalTimestamp \<Rightarrow> string" where
  "generate_event_id h exp_id et sq ts =
     ''EVT-'' @ take HASH_DISPLAY_LENGTH (sha256_hex h (utf8_encode
       (exp_id @ '':'' @ et @ '':'' @ show_int sq @ '':'' @ to_iso8601 ts)))"

definition generate_experience_id :: "host \<Rightarrow> string \<Rightarrow> string \<Rightarrow> CanonicalTimestamp \<Rightarrow> string" where
  "generate_experience_id h act st ts =
     ''EXP-'' @ take HASH_DISPLAY_LENGTH (sha256_hex h (utf8_encode
       (act @ '':'' @ st @ '':'' @ to_iso8601 ts)))"

section \<open>Canonical forms\<close>

lemma canon_list_map: "canon_list h vs = map (canonicalize h) vs"
  by (induction vs) auto

lemma canon_pairs_map: "canon_pairs h d = map (apsnd (canonicalize h)) d"
  by (induction d) auto

lemmas canon_maps = canon_list_map canon_pairs_map

lemma wf_jsons_all: "wf_jsons vs \<longleftrightarrow> list_all wf_json vs"
  by (induction vs) auto

lemma wf_pairs_all: "wf_pairs d \<longleftrightarrow> list_all (wf_json \<circ> snd) d"
  by (induction d) auto

lemma canon_pairs_sort: "canon_pairs h (sort_key fst d) = sort_key fst (canon_pairs h d)"
  by (simp only: canon_pairs_map sort_key_apsnd)

lemma canonicalize_idem:
  "nfc_spec h \<Longrightarrow> canonicalize h (canonicalize h v) = canonicalize h v"
  "nfc_spec h \<Longrightarrow> canon_list h (canon_list h vs) = canon_list h vs"
  "nfc_spec h \<Longrightarrow> canon_pairs h (canon_pairs h d) = canon_pairs h d"
proof (induction h v and h vs and h d rule: canonicalize_canon_list_canon_pairs.induct)
  case (1 h d)
  then show ?case
    by (simp add: canon_pairs_sort sort_key_sorted_id)
qed (auto simp: nfc_spec_def)

lemma wf_canonicalize:
  "wf_json v \<Longrightarrow> wf_json (canonicalize h v)"
  "wf_jsons vs \<Longrightarrow> wf_jsons (canon_list h vs)"
  "wf_pairs d \<Longrightarrow> wf_pairs (canon_pairs h d)"
proof (induction h v and h vs and h d rule: canonicalize_canon_list_canon_pairs.induct)
  case (1 h d)
  then show ?case
    by (simp add: canon_pairs_map wf_pairs_all list_all_iff)
qed auto

text \<open>
  Equality of Python values: dictionaries are equal when they have the same keys with equal values,
  in whatever order the items were inserted.
\<close>

inductive json_eq :: "json \<Rightarrow> json \<Rightarrow> bool" where
  json_eq_refl: "json_eq v v"
| json_eq_list: "list_all2 json_eq vs ws \<Longrightarrow> json_eq (JList vs) (JList ws)"
| json_eq_dict: "dom (map_of d) = dom (map_of e) \<Longrightarrow>
    (\<And>k v w. map_of d k = Some v \<Longrightarrow> map_of e k = Some w \<Longrightarrow> json_eq v w) \<Longrightarrow>
    json_eq (JDict d) (JDict e)"

lemma wf_map_of: "wf_pairs d \<Longrightarrow> map_of d k = Some v \<Longrightarrow> wf_json v"
  by (auto simp: wf_pairs_all list_all_iff dest!: map_of_SomeD)

lemma canonicalize_json_eq:
  "json_eq v w \<Longrightarrow> wf_json v \<Longrightarrow> wf_json w \<Longrightarrow> canonicalize h v = canonicalize h w"
proof (induction rule: json_eq.induct)
  case (json_eq_list vs ws)
  then show ?case
    by (auto simp: canon_list_map wf_jsons_all list_all_iff list_all2_conv_all_nth list_eq_iff_nth_eq)
next
  case (json_eq_dict d e)
  have "map_of (canon_pairs h d) = map_of (canon_pairs h e)"
  proof
    fix k
    show "map_of (canon_pairs h d) k = map_of (canon_pairs h e) k"
      using json_eq_dict wf_map_of [of d k] wf_map_of [of e k] domIff [of k "map_of d"] domIff [of k "map_of e"]
      by (cases "map_of d k"; cases "map_of e k") (auto simp: canon_pairs_map map_of_apsnd)
  qed
  with json_eq_dict.prems show ?case
    by (auto intro!: map_of_eq_sort_key simp: canon_pairs_map)
qed simp

section \<open>Text of timestamps\<close>

lemma pad_digits: "list_all is_digit (pad w n)"
  using show_nat_digits by (auto simp: pad_def list_all_iff is_digit_def)

lemma read_nat_pad [simp]: "read_nat (pad w n) = n"
  by (simp add: pad_def read_nat_zeros)

lemma pad_nonempty [simp]: "pad w n \<noteq> []"
  by (simp add: pad_def)

lemma length_pad: "n < 10 ^ w \<Longrightarrow> 0 < w \<Longrightarrow> length (pad w n) = w"
  using show_nat_length [of n w] by (simp add: pad_def)

lemma cut_at_append: "list_all (\<lambda>c. \<not> P c) a \<Longrightarrow> P c \<Longrightarrow> cut_at P (a @ c # r) = Some (a, r)"
  by (simp add: cut_at_def dropWhile_append2 takeWhile_append2 list_all_iff)

lemma list_all_digit_not:
  "list_all is_digit s \<Longrightarrow> (\<And>c. is_digit c \<Longrightarrow> \<not> P c) \<Longrightarrow> list_all (\<lambda>c. \<not> P c) s"
  by (auto simp: list_all_iff)

lemma cut_at_digits:
  assumes "list_all is_digit a"
  shows "cut_at ((=) (CHR ''-'')) (a @ CHR ''-'' # r) = Some (a, r)"
    and "cut_at (\<lambda>c. c = CHR ''T'' \<or> c = CHR ''t'') (a @ CHR ''T'' # r) = Some (a, r)"
    and "cut_at ((=) (CHR '':'')) (a @ CHR '':'' # r) = Some (a, r)"
    and "cut_at ((=) (CHR ''.'')) (a @ CHR ''.'' # r) = Some (a, r)"
  by (rule cut_at_append, rule list_all_digit_not [OF assms], auto simp: is_digit_def)+

lemma two_digits_pad: "lo \<le> n \<Longrightarrow> n \<le> hi \<Longrightarrow> n < 100 \<Longrightarrow> two_digits lo hi (pad 2 n) = Some n"
  by (simp add: two_digits_def pad_digits length_pad)

lemma day_digits_pad:
  assumes "1 \<le> n" "n \<le> 31" shows "day_digits (pad 2 n) = Some n"
proof -
  obtain c r where p: "pad 2 n = c # r" by (cases "pad 2 n") auto
  then have "is_digit c" using pad_digits [of 2 n] by simp
  then have "c \<noteq> CHR '' ''" by (auto simp: is_digit_def)
  with p two_digits_pad [of 1 n 31] assms show ?thesis by (simp add: day_digits_def)
qed

lemma fraction_digits_pad: "n < 1000000 \<Longrightarrow> fraction_digits (pad 6 n) = Some n"
  by (simp add: fraction_digits_def pad_digits length_pad)

lemma year_digits_show: "1000 \<le> n \<Longrightarrow> n \<le> 9999 \<Longrightarrow> year_digits (show_nat n) = Some n"
  using show_nat_length [of n 4] show_nat_length_ge [of 3 n] show_nat_digits
  by (auto simp: year_digits_def list_all_iff)

lemma days_in_month_le: "days_in_month y m \<le> 31"
  by (simp add: days_in_month_def)

text \<open>A timestamp whose text has a four-digit year, as \<open>%Y\<close> reads it.\<close>

definition wf_timestamp :: "CanonicalTimestamp \<Rightarrow> bool" where
  "wf_timestamp ts \<longleftrightarrow> valid_datetime (ts_value ts) \<and> 1000 \<le> dt_year (ts_value ts) \<and>
     dt_tzinfo (ts_value ts) = Some 0"

lemma from_to_iso8601:
  assumes "wf_timestamp ts"
  shows "from_iso8601 (to_iso8601 ts) = Inr ts"
proof -
  let ?t = "ts_value ts"
  have v: "valid_datetime ?t" and y: "1000 \<le> dt_year ?t" and z: "dt_tzinfo ?t = Some 0"
    using assms by (simp_all add: wf_timestamp_def)
  have d: "dt_day ?t \<le> 31"
    using v days_in_month_le [of "dt_year ?t" "dt_month ?t"] by (simp add: valid_datetime_def)
  have yd: "list_all is_digit (show_nat (dt_year ?t))"
    using show_nat_digits by (simp add: list_all_iff)
  have "strptime (butlast (to_iso8601 ts)) = Some (?t\<lparr>dt_tzinfo := None\<rparr>)"
    using v y d
    by (simp add: strptime_def to_iso8601_def Let_def butlast_append cut_at_digits pad_digits yd
        year_digits_show two_digits_pad day_digits_pad fraction_digits_pad valid_datetime_def)
  moreover have "last (to_iso8601 ts) = CHR ''Z''" "to_iso8601 ts \<noteq> []"
    by (simp_all add: to_iso8601_def Let_def)
  ultimately show ?thesis
    using z by (simp add: from_iso8601_def)
qed

lemma is_ascii_iso8601: "is_ascii (to_iso8601 ts)"
proof -
  have "is_ascii (pad w n)" "is_ascii (show_nat n)" for w n
    using pad_digits [of w n] show_nat_digits [of _ n]
    by (fastforce simp: is_ascii_def list_all_iff is_digit_def)+
  then show ?thesis
    by (simp add: to_iso8601_def Let_def is_ascii_def)
qed

section \<open>Canonical bytes\<close>

lemma utf8_split:
  assumes "n < 256" "\<not> n < (128::nat)"
  shows "192 + n div 64 = 194 \<or> 192 + n div 64 = 195" "192 + n div 64 < 256"
    "64 * (192 + n div 64 - 192) + (128 + n mod 64 - 128) = n" "128 + n mod 64 < 192"
proof -
  have "n div 64 < 4" "2 \<le> n div 64"
    using assms by (simp_all add: less_mult_imp_div_less less_eq_div_iff_mult_less_eq)
  then show "192 + n div 64 = 194 \<or> 192 + n div 64 = 195" "192 + n div 64 < 256" by linarith+
qed simp_all

lemma utf8_decode_char:
  "utf8_decode (utf8_char c @ bs) = rbind (utf8_decode bs) (\<lambda>s. Inr (c # s))"
proof (cases "(of_char c :: nat) < 128")
  case True
  then show ?thesis by (simp add: utf8_char_def Let_def)
next
  case False
  let ?n = "of_char c :: nat"
  note n = utf8_split [OF of_char_less_256 False]
  have b1: "(of_char (char_of (192 + ?n div 64) :: char) :: nat) = 192 + ?n div 64"
    using n(2) by (simp only: of_char_of mod_less)
  have b2: "(of_char (char_of (128 + ?n mod 64) :: char) :: nat) = 128 + ?n mod 64"
    using n(4) by (simp only: of_char_of mod_less)
  have "utf8_decode (char_of (192 + ?n div 64) # char_of (128 + ?n mod 64) # bs) =
      rbind (utf8_decode bs) (\<lambda>s. Inr (char_of ?n # s))"
    using n(1) by (simp only: utf8_decode.simps b1 b2 Let_def list.case n(3,4) if_True) simp
  with False show ?thesis by (simp add: utf8_char_def Let_def)
qed

lemma utf8_decode_encode [simp]: "utf8_decode (utf8_encode s) = Inr s"
  by (induction s) (simp_all add: utf8_encode_def utf8_decode_char)

lemma wf_formats [simp]: "wf_format compact_format" "wf_format compact_ascii_format" "wf_format default_format"
  by (simp_all add: wf_format_def compact_format_def compact_ascii_format_def default_format_def)

definition wf_envelope :: "CanonicalEnvelope \<Rightarrow> bool" where
  "wf_envelope e \<longleftrightarrow> wf_timestamp (env_timestamp e) \<and> wf_json (JDict (pl_data (env_payload e)))"

lemma wf_envelope_json: "wf_envelope e \<Longrightarrow> wf_json (JDict (envelope_to_dict e))"
  by (auto simp: wf_envelope_def envelope_to_dict_def wf_dict_def payload_to_dict_def wf_pairs_all
      list_all_iff split: option.splits)

text \<open>The canonical form of an envelope: its text in NFC, its payload canonicalized.\<close>

definition canonical_envelope :: "host \<Rightarrow> CanonicalEnvelope \<Rightarrow> CanonicalEnvelope" where
  "canonical_envelope h e = e\<lparr>
     env_experience_id := nfc h (env_experience_id e),
     env_stream_id := nfc h (env_stream_id e),
     env_actor := nfc h (env_actor e),
     env_payload := payload_canonicalize h (env_payload e),
     env_correlation_id := map_option (nfc h) (env_correlation_id e),
     env_causation_id := map_option (nfc h) (env_causation_id e)\<rparr>"

lemma envelope_from_dict_sort:
  assumes "wf_dict d" shows "envelope_from_dict (sort_key fst d) = envelope_from_dict d"
  using assms by (simp add: envelope_from_dict_def dict_item_def dict_get_def)

lemma event_type_of_value [simp]: "event_type_of (JStr (event_type_value t)) = Inr t"
  by (cases t) (simp_all add: event_type_of_def event_types_def)

lemma is_ascii_event_type: "is_ascii (event_type_value t)"
  by (cases t) (simp_all add: is_ascii_def)

lemma envelope_from_canon_dict:
  assumes "nfc_spec h" "wf_envelope e"
  shows "envelope_from_dict (canon_pairs h (envelope_to_dict e)) = Inr (canonical_envelope h e)"
proof -
  have "nfc h (to_iso8601 (env_timestamp e)) = to_iso8601 (env_timestamp e)"
    "nfc h (event_type_value (env_event_type e)) = event_type_value (env_event_type e)"
    using assms(1) is_ascii_iso8601 is_ascii_event_type by (auto simp: nfc_spec_def)
  then show ?thesis
    using assms(2) from_to_iso8601 [of "env_timestamp e"]
    by (cases "env_correlation_id e"; cases "env_causation_id e")
      (simp_all add: envelope_from_dict_def envelope_to_dict_def canonical_envelope_def dict_item_def
        dict_get_def payload_from_dict_def payload_to_dict_def payload_canonicalize_def wf_envelope_def)
qed

lemma deserialize_serialize:
  assumes "nfc_spec h" "wf_envelope e"
  shows "deserialize (serialize h e) = Inr (canonical_envelope h e)"
proof -
  let ?d = "canon_pairs h (envelope_to_dict e)"
  have w: "wf_json (canonicalize h (JDict (envelope_to_dict e)))"
    by (rule wf_canonicalize(1)) (rule wf_envelope_json [OF assms(2)])
  then have "wf_dict ?d" by simp
  then show ?thesis
    using json_loads_enc [OF wf_formats(1) w] envelope_from_canon_dict [OF assms]
    by (simp add: serialize_def deserialize_def canonical_bytes_def json_dumps_def
        envelope_from_dict_sort)
qed

lemma canonical_envelope_dict:
  assumes "nfc_spec h"
  shows "canonicalize h (JDict (envelope_to_dict (canonical_envelope h e))) =
    canonicalize h (JDict (envelope_to_dict e))"
  using assms
  by (cases "env_correlation_id e"; cases "env_causation_id e")
    (simp_all add: envelope_to_dict_def canonical_envelope_def payload_to_dict_def payload_canonicalize_def
      canon_pairs_sort canonicalize_idem(3) sort_key_sorted_id nfc_spec_def)

section \<open>Properties\<close>

definition sample_host :: host where
  "sample_host = \<lparr>nfc = (\<lambda>s. s), sha256_hex = (\<lambda>s. take 16 (show_nat (foldl (\<lambda>n c. 31 * n + of_char c) 7 s)))\<rparr>"

definition sample_timestamp :: CanonicalTimestamp where
  "sample_timestamp = \<lparr>ts_value = \<lparr>dt_year = 2024, dt_month = 2, dt_day = 29, dt_hour = 23,
     dt_minute = 59, dt_second = 5, dt_microsecond = 42, dt_tzinfo = Some 0\<rparr>\<rparr>"

definition sample_envelope :: "int \<Rightarrow> payload \<Rightarrow> CanonicalEnvelope" where
  "sample_envelope n p = \<lparr>env_rvcj_version = 1, env_event_schema_version = 1, env_experience_id = ''EXP-1'',
     env_event_type = DECISION_RECORDED, env_stream_id = ''s'', env_sequence = n,
     env_timestamp = sample_timestamp, env_actor = ''me'', env_payload = \<lparr>pl_data = p\<rparr>,
     env_correlation_id = Some ''c'', env_causation_id = None\<rparr>"

lemma sample_host_nfc: "nfc_spec sample_host"
  by (simp add: nfc_spec_def sample_host_def)

lemma sample_timestamp_wf: "wf_timestamp sample_timestamp"
  by (simp add: wf_timestamp_def sample_timestamp_def valid_datetime_def days_in_month_def leap_year_def)

text \<open>Canonicalization is idempotent.  A canonical value is its own canonical form, provided
  that NFC normalization is idempotent and leaves ASCII alone.\<close>

theorem canonicalize_idempotent:
  assumes "nfc_spec h"
  shows "canonicalize h (canonicalize h v) = canonicalize h v"
  by (rule canonicalize_idem(1) [OF assms])

theorem canonicalize_idempotent_witness:
  "canonicalize sample_host (canonicalize sample_host (JDict [(''b'', JNull), (''a'', JInt 1)])) =
     JDict [(''a'', JInt 1), (''b'', JNull)]"
  using canonicalize_idempotent [OF sample_host_nfc, of "JDict [(''b'', JNull), (''a'', JInt 1)]"]
  by (simp add: sort_key_def)

text \<open>Content digests do not depend on the order of dict items.  Two envelopes that agree in
  every field and whose payloads are equal as Python values have the same bytes and so the same
  digest.\<close>

theorem content_digest_order:
  assumes "json_eq (JDict p) (JDict q)" "wf_json (JDict p)" "wf_json (JDict q)"
  shows "content_digest h (e\<lparr>env_payload := \<lparr>pl_data = p\<rparr>\<rparr>) = content_digest h (e\<lparr>env_payload := \<lparr>pl_data = q\<rparr>\<rparr>)"
proof -
  have "canonicalize h (JDict p) = canonicalize h (JDict q)"
    by (rule canonicalize_json_eq [OF assms])
  then have "canonicalize h (JDict (envelope_to_dict (e\<lparr>env_payload := \<lparr>pl_data = p\<rparr>\<rparr>))) =
      canonicalize h (JDict (envelope_to_dict (e\<lparr>env_payload := \<lparr>pl_data = q\<rparr>\<rparr>)))"
    by (simp add: envelope_to_dict_def payload_to_dict_def canon_pairs_map)
  then show ?thesis by (simp add: content_digest_def canonical_bytes_def)
qed

theorem content_digest_order_witness:
  "content_digest sample_host (sample_envelope 1 [(''b'', JNull), (''a'', JInt 1)]) =
   content_digest sample_host (sample_envelope 1 [(''a'', JInt 1), (''b'', JNull)])"
proof -
  have "json_eq (JDict [(''b'', JNull), (''a'', JInt 1)]) (JDict [(''a'', JInt 1), (''b'', JNull)])"
    by (rule json_eq_dict) (auto intro: json_eq_refl split: if_splits)
  from content_digest_order [OF this, of sample_host "sample_envelope 1 []"] show ?thesis
    by (simp add: sample_envelope_def wf_dict_def)
qed

text \<open>Property C27: envelopes survive serialization.  Decoding the bytes of a well-formed envelope gives its
  canonical form (text in NFC, payload canonicalized), and this form serializes to the same bytes, so
  its digest is the digest of the original.\<close>

theorem envelope_roundtrip:
  assumes "nfc_spec h" "wf_envelope e"
  shows "deserialize (serialize h e) = Inr (canonical_envelope h e) \<and>
    serialize h (canonical_envelope h e) = serialize h e"
  using deserialize_serialize [OF assms] canonical_envelope_dict [OF assms(1)]
  by (simp add: serialize_def canonical_bytes_def)

theorem envelope_roundtrip_witness:
  "deserialize (serialize sample_host (sample_envelope 3 [(''b'', JNull), (''a'', JInt 1)])) =
     Inr (sample_envelope 3 [(''a'', JInt 1), (''b'', JNull)])"
proof -
  have "wf_envelope (sample_envelope 3 [(''b'', JNull), (''a'', JInt 1)])"
    by (simp add: wf_envelope_def sample_envelope_def sample_timestamp_wf wf_dict_def)
  from envelope_roundtrip [OF sample_host_nfc this] show ?thesis
    by (simp add: canonical_envelope_def sample_envelope_def payload_canonicalize_def sample_host_def sort_key_def)
qed

text \<open>Timestamps survive their ISO 8601 text.  Parsing the text of a valid UTC timestamp of a
  year from 1000 on gives the same timestamp, to the microsecond.\<close>

theorem timestamp_roundtrip:
  assumes "wf_timestamp ts"
  shows "from_iso8601 (to_iso8601 ts) = Inr ts"
  by (rule from_to_iso8601 [OF assms])

theorem timestamp_roundtrip_witness: "from_iso8601 (to_iso8601 sample_timestamp) = Inr sample_timestamp"
  by (rule timestamp_roundtrip [OF sample_timestamp_wf])

end
