(* ===== verification/Ledger.thy ===== *)
theory Ledger
  imports Canonical
begin

text \<open>
  The ledger, \<open>rationalevault/ledger\<close>: commits and receipts (\<open>commit.py\<close>), ledger entries
  (\<open>entry.py\<close>), the abstract ledger (\<open>interface.py\<close>) as a specification over logs of commits
  and a locale of its laws, and the in-memory backend (\<open>storage/memory.py\<close>) with the proof that it
  meets them.
\<close>

section \<open>Commits, receipts and entries\<close>

record Commit =
  c_commit_id :: string
  c_stream_id :: string
  c_events :: "CanonicalEnvelope list"

record CommitReceipt =
  r_commit_id :: string
  r_stream_id :: string
  r_sequence_start :: int
  r_sequence_end :: int
  r_global_order :: int

record LedgerEntry =
  le_stream_id :: string
  le_sequence :: int
  le_commit_id :: string
  le_event_id :: string
  le_rvcj_version :: int
  le_event_schema_version :: int
  le_event_type :: string
  le_timestamp :: string
  le_payload :: payload
  le_global_order :: int

definition compute_commit_id :: "host \<Rightarrow> CanonicalEnvelope list \<Rightarrow> string" where
  "compute_commit_id h events = sha256_hex h (utf8_encode (json_dumps compact_format False
     (canonicalize h (JList (map (\<lambda>e. JDict (envelope_to_dict e)) events)))))"

text \<open>\<open>CommitBuilder.from_events\<close>: the set of experience ids has at most one element.\<close>

definition commit_from_events :: "host \<Rightarrow> string \<Rightarrow> CanonicalEnvelope list \<Rightarrow> Commit result" where
  "commit_from_events h st events =
     (if events = [] then Inl (ValueError ''Commit must contain at least one event'')
      else if 1 < length (remdups (map env_experience_id events))
        then Inl (ValueError ''All events in a Commit must share the same experience_id'')
      else Inr \<lparr>c_commit_id = compute_commit_id h events, c_stream_id = st, c_events = events\<rparr>)"

text \<open>The contiguity check both backends run: the i-th event carries \<open>current_seq + 1 + i\<close>.\<close>

fun check_contiguous :: "string \<Rightarrow> int \<Rightarrow> CanonicalEnvelope list \<Rightarrow> unit result" where
  "check_contiguous st expected [] = Inr ()"
| "check_contiguous st expected (e # es) =
     (if env_sequence e \<noteq> expected then Inl (SequenceGap st expected (env_sequence e))
      else check_contiguous st (expected + 1) es)"

text \<open>The entry stored for an event of a commit with a given global order.\<close>

definition entry_of :: "host \<Rightarrow> Commit \<Rightarrow> int \<Rightarrow> CanonicalEnvelope \<Rightarrow> LedgerEntry" where
  "entry_of h c g e =
     \<lparr>le_stream_id = c_stream_id c, le_sequence = env_sequence e, le_commit_id = c_commit_id c,
      le_event_id = ''EVT-'' @ take 12 (content_digest h e),
      le_rvcj_version = env_rvcj_version e, le_event_schema_version = env_event_schema_version e,
      le_event_type = event_type_value (env_event_type e),
      le_timestamp = to_iso8601 (env_timestamp e), le_payload = pl_data (env_payload e),
      le_global_order = g\<rparr>"

section \<open>The in-memory backend (storage/memory.py)\<close>

record MemoryLedger =
  ml_entries :: "LedgerEntry list"
  ml_commits :: "(string, CommitReceipt) dict"
  ml_stream_sequences :: "(string, int) dict"
  ml_next_global_order :: int

definition memory_init :: MemoryLedger where
  "memory_init = \<lparr>ml_entries = [], ml_commits = [], ml_stream_sequences = [], ml_next_global_order = 0\<rparr>"

definition memory_append :: "host \<Rightarrow> MemoryLedger \<Rightarrow> Commit \<Rightarrow> MemoryLedger \<times> CommitReceipt result" where
  "memory_append h L c =
     (case map_of (ml_commits L) (c_commit_id c) of
        Some r \<Rightarrow> (L, Inr r)
      | None \<Rightarrow>
          (let st = c_stream_id c; current_seq = dict_get (ml_stream_sequences L) st 0 in
           case c_events c of
             [] \<Rightarrow> (L, Inl IndexError)
           | e0 # _ \<Rightarrow>
               (case check_contiguous st (current_seq + 1) (c_events c) of
                  Inl x \<Rightarrow> (L, Inl x)
                | Inr _ \<Rightarrow>
                    (let g = ml_next_global_order L;
                         sequence_start = env_sequence e0;
                         sequence_end = env_sequence e0 + int (length (c_events c)) - 1;
                         receipt = \<lparr>r_commit_id = c_commit_id c, r_stream_id = st,
                            r_sequence_start = sequence_start, r_sequence_end = sequence_end,
                            r_global_order = g\<rparr>
                     in (L\<lparr>ml_next_global_order := g + 1,
                           ml_entries := ml_entries L @ map (entry_of h c g) (c_events c),
                           ml_stream_sequences := AList.update st sequence_end (ml_stream_sequences L),
                           ml_commits := AList.update (c_commit_id c) receipt (ml_commits L)\<rparr>,
                         Inr receipt)))))"

definition memory_read_stream :: "MemoryLedger \<Rightarrow> string \<Rightarrow> LedgerEntry list result" where
  "memory_read_stream L st = Inr (filter (\<lambda>e. le_stream_id e = st) (ml_entries L))"

definition memory_read_from :: "MemoryLedger \<Rightarrow> int \<Rightarrow> LedgerEntry list result" where
  "memory_read_from L g = Inr (filter (\<lambda>e. g \<le> le_global_order e) (ml_entries L))"

definition memory_exists :: "MemoryLedger \<Rightarrow> string \<Rightarrow> bool" where
  "memory_exists L cid \<longleftrightarrow> dict_has (ml_commits L) cid"

definition memory_stream_exists :: "MemoryLedger \<Rightarrow> string \<Rightarrow> bool" where
  "memory_stream_exists L st \<longleftrightarrow> list_ex (\<lambda>e. le_stream_id e = st) (ml_entries L)"

section \<open>The specification: a log of commits\<close>

text \<open>
  What \<open>interface.py\<close> promises, stated over the list of accepted commits: the position of a commit
  is its global order, the number of events of a stream its last sequence number.
\<close>

definition stream_length :: "Commit list \<Rightarrow> string \<Rightarrow> int" where
  "stream_length cs st = (\<Sum>c\<leftarrow>cs. if c_stream_id c = st then int (length (c_events c)) else 0)"

definition receipt_of :: "int \<Rightarrow> Commit \<Rightarrow> CommitReceipt" where
  "receipt_of g c = \<lparr>r_commit_id = c_commit_id c, r_stream_id = c_stream_id c,
     r_sequence_start = env_sequence (hd (c_events c)),
     r_sequence_end = env_sequence (hd (c_events c)) + int (length (c_events c)) - 1,
     r_global_order = g\<rparr>"

definition log_receipts :: "Commit list \<Rightarrow> (string, CommitReceipt) dict" where
  "log_receipts cs = map (\<lambda>(g, c). (c_commit_id c, receipt_of (int g) c)) (enumerate 0 cs)"

definition log_entries :: "host \<Rightarrow> Commit list \<Rightarrow> LedgerEntry list" where
  "log_entries h cs = concat (map (\<lambda>(g, c). map (entry_of h c (int g)) (c_events c)) (enumerate 0 cs))"

definition log_append :: "Commit list \<Rightarrow> Commit \<Rightarrow> Commit list \<times> CommitReceipt result" where
  "log_append cs c =
     (case map_of (log_receipts cs) (c_commit_id c) of
        Some r \<Rightarrow> (cs, Inr r)
      | None \<Rightarrow>
          if c_events c = [] then (cs, Inl IndexError)
          else case check_contiguous (c_stream_id c) (stream_length cs (c_stream_id c) + 1) (c_events c) of
            Inl x \<Rightarrow> (cs, Inl x)
          | Inr _ \<Rightarrow> (cs @ [c], Inr (receipt_of (int (length cs)) c)))"

text \<open>The logs a ledger can hold; \<open>ok\<close> is what a backend asks of the commits it stores.\<close>

inductive valid_log :: "(Commit \<Rightarrow> bool) \<Rightarrow> Commit list \<Rightarrow> bool" for ok where
  valid_nil: "valid_log ok []"
| valid_snoc: "valid_log ok cs \<Longrightarrow> ok c \<Longrightarrow> c_commit_id c \<notin> c_commit_id ` set cs \<Longrightarrow>
    c_events c \<noteq> [] \<Longrightarrow>
    map env_sequence (c_events c) = [stream_length cs (c_stream_id c) + 1 ..
      stream_length cs (c_stream_id c) + int (length (c_events c))] \<Longrightarrow>
    valid_log ok (cs @ [c])"

inductive_cases valid_log_snocE: "valid_log ok (cs @ [c])"

subsection \<open>Facts on logs\<close>

lemma check_contiguous_iff:
  "check_contiguous st k es = Inr () \<longleftrightarrow> map env_sequence es = [k .. k + int (length es) - 1]"
  by (induction es arbitrary: k) (auto simp: upto_rec1 algebra_simps)

lemma check_contiguous_gap:
  "check_contiguous st k es = Inl x \<Longrightarrow> \<exists>i < length es. (\<forall>j < i. env_sequence (es ! j) = k + int j) \<and>
     env_sequence (es ! i) \<noteq> k + int i \<and> x = SequenceGap st (k + int i) (env_sequence (es ! i))"
proof (induction es arbitrary: k)
  case (Cons e es)
  show ?case
  proof (cases "env_sequence e = k")
    case True
    with Cons.prems Cons.IH [of "k + 1"] obtain i where "i < length es"
      "\<forall>j < i. env_sequence (es ! j) = k + 1 + int j" "env_sequence (es ! i) \<noteq> k + 1 + int i"
      "x = SequenceGap st (k + 1 + int i) (env_sequence (es ! i))" by auto
    with True show ?thesis
      by (intro exI [of _ "Suc i"]) (auto simp: less_Suc_eq_0_disj algebra_simps)
  next
    case False
    with Cons.prems show ?thesis by (intro exI [of _ 0]) auto
  qed
qed simp

lemma log_snoc [simp]:
  "stream_length (cs @ [c]) st = stream_length cs st + (if c_stream_id c = st then int (length (c_events c)) else 0)"
  "log_receipts (cs @ [c]) = log_receipts cs @ [(c_commit_id c, receipt_of (int (length cs)) c)]"
  "log_entries h (cs @ [c]) = log_entries h cs @ map (entry_of h c (int (length cs))) (c_events c)"
  by (simp_all add: stream_length_def log_receipts_def log_entries_def enumerate_append_eq)

lemma log_nil [simp]: "stream_length [] st = 0" "log_receipts [] = []" "log_entries h [] = []"
  by (simp_all add: stream_length_def log_receipts_def log_entries_def)

lemma stream_length_nonneg: "0 \<le> stream_length cs st"
  by (induction cs) (auto simp: stream_length_def)

lemma fst_log_receipts [simp]: "fst ` set (log_receipts cs) = c_commit_id ` set cs"
  by (induction cs rule: rev_induct) auto

lemma map_of_log_receipts_None: "map_of (log_receipts cs) cid = None \<longleftrightarrow> cid \<notin> c_commit_id ` set cs"
  by (simp add: map_of_eq_None_iff)

lemma entry_of_simps [simp]:
  "le_stream_id (entry_of h c g e) = c_stream_id c" "le_sequence (entry_of h c g e) = env_sequence e"
  "le_commit_id (entry_of h c g e) = c_commit_id c" "le_global_order (entry_of h c g e) = g"
  by (simp_all add: entry_of_def)

text \<open>The sequence numbers of a stream are 1, 2, 3 and so on, without gap.\<close>

lemma log_entries_contiguous:
  "valid_log ok cs \<Longrightarrow>
     map le_sequence (filter (\<lambda>e. le_stream_id e = st) (log_entries h cs)) = [1 .. stream_length cs st]"
proof (induction rule: valid_log.induct)
  case (valid_snoc cs c)
  then show ?case
    using stream_length_nonneg [of cs st]
    by (auto simp: comp_def filter_map upto_extend)
qed simp

lemma log_entries_global_order:
  "valid_log ok cs \<Longrightarrow> e \<in> set (log_entries h cs) \<Longrightarrow>
     0 \<le> le_global_order e \<and> le_global_order e < int (length cs)"
  by (induction arbitrary: e rule: valid_log.induct) fastforce+

lemma log_entries_sorted: "valid_log ok cs \<Longrightarrow> sorted (map le_global_order (log_entries h cs))"
proof (induction rule: valid_log.induct)
  case (valid_snoc cs c)
  then show ?case
    using log_entries_global_order [OF valid_snoc.hyps(1)]
    by (auto simp: sorted_append comp_def map_replicate_const less_imp_le)
qed simp

lemma log_append_cases:
  obtains (duplicate) r where "map_of (log_receipts cs) (c_commit_id c) = Some r"
      "log_append cs c = (cs, Inr r)"
  | (refused) x where "c_commit_id c \<notin> c_commit_id ` set cs" "log_append cs c = (cs, Inl x)"
      "c_events c = [] \<and> x = IndexError \<or>
         check_contiguous (c_stream_id c) (stream_length cs (c_stream_id c) + 1) (c_events c) = Inl x"
  | (accepted) "c_commit_id c \<notin> c_commit_id ` set cs" "c_events c \<noteq> []"
      "map env_sequence (c_events c) = [stream_length cs (c_stream_id c) + 1 ..
         stream_length cs (c_stream_id c) + int (length (c_events c))]"
      "log_append cs c = (cs @ [c], Inr (receipt_of (int (length cs)) c))"
proof (cases "map_of (log_receipts cs) (c_commit_id c)")
  case (Some r)
  then show ?thesis using duplicate by (simp add: log_append_def)
next
  case None
  then have new: "c_commit_id c \<notin> c_commit_id ` set cs" by (simp add: map_of_log_receipts_None)
  show ?thesis
  proof (cases "check_contiguous (c_stream_id c) (stream_length cs (c_stream_id c) + 1) (c_events c)")
    case (Inl x)
    then have "c_events c \<noteq> []" by auto
    with Inl None new show ?thesis using refused by (simp add: log_append_def)
  next
    case (Inr u)
    then have "map env_sequence (c_events c) = [stream_length cs (c_stream_id c) + 1 ..
        stream_length cs (c_stream_id c) + int (length (c_events c))]"
      using check_contiguous_iff [of "c_stream_id c"] by simp
    with Inr None new show ?thesis
      using refused accepted by (cases "c_events c = []") (simp_all add: log_append_def)
  qed
qed

lemma valid_log_append: "valid_log ok cs \<Longrightarrow> ok c \<Longrightarrow> valid_log ok (fst (log_append cs c))"
  by (cases rule: log_append_cases [of cs c]) (auto intro: valid_log.intros)

section \<open>The contract of a ledger backend\<close>

text \<open>A sequence of appends: the final state and every answer.\<close>

fun run_appends :: "('s \<Rightarrow> Commit \<Rightarrow> 's \<times> CommitReceipt result) \<Rightarrow> 's \<Rightarrow> Commit list \<Rightarrow>
    's \<times> CommitReceipt result list" where
  "run_appends app s [] = (s, [])"
| "run_appends app s (c # cs) =
     (let (s1, r) = app s c; (s2, rs) = run_appends app s1 cs in (s2, r # rs))"

lemma run_appends_append:
  "fst (run_appends app s (xs @ ys)) = fst (run_appends app (fst (run_appends app s xs)) ys)"
  by (induction xs arbitrary: s) (simp_all add: split_def Let_def)

lemma valid_run_log:
  "valid_log ok cs \<Longrightarrow> list_all ok xs \<Longrightarrow> valid_log ok (fst (run_appends log_append cs xs))"
proof (induction xs arbitrary: cs)
  case (Cons c xs)
  then show ?case
    using valid_log_append [of ok cs c] by (auto simp: split_def Let_def)
qed simp

lemma log_append_length: "length (fst (log_append cs c)) \<le> Suc (length cs)"
  by (cases rule: log_append_cases [of cs c]) simp_all

lemma run_log_length: "length (fst (run_appends log_append cs xs)) \<le> length cs + length xs"
proof (induction xs arbitrary: cs)
  case (Cons c xs)
  show ?case
    using log_append_length [of cs c] order_trans [OF Cons.IH [of "fst (log_append cs c)"]]
    by (simp add: split_def Let_def)
qed simp

text \<open>
  A backend answers as the log does.  \<open>ok\<close> is what it asks of a commit, \<open>room\<close> how many commits it
  can number, \<open>rep\<close> its state for a log of accepted commits.
\<close>

locale ledger_backend =
  fixes h :: host
    and ok :: "Commit \<Rightarrow> bool"
    and init :: 's
    and append :: "'s \<Rightarrow> Commit \<Rightarrow> 's \<times> CommitReceipt result"
    and read_stream :: "'s \<Rightarrow> string \<Rightarrow> LedgerEntry list result"
    and read_from :: "'s \<Rightarrow> int \<Rightarrow> LedgerEntry list result"
    and exists_commit :: "'s \<Rightarrow> string \<Rightarrow> bool"
    and stream_exists :: "'s \<Rightarrow> string \<Rightarrow> bool"
    and rep :: "Commit list \<Rightarrow> 's"
    and room :: "nat \<Rightarrow> bool"
  assumes room_mono: "room n \<Longrightarrow> m \<le> n \<Longrightarrow> room m"
    and init_rep: "init = rep []"
    and append_rep: "valid_log ok cs \<Longrightarrow> ok c \<Longrightarrow> room (length (fst (log_append cs c))) \<Longrightarrow>
      append (rep cs) c = (rep (fst (log_append cs c)), snd (log_append cs c))"
    and read_stream_rep: "valid_log ok cs \<Longrightarrow>
      read_stream (rep cs) st = Inr (filter (\<lambda>e. le_stream_id e = st) (log_entries h cs))"
    and read_from_rep: "valid_log ok cs \<Longrightarrow> fits64 g \<Longrightarrow>
      read_from (rep cs) g = Inr (filter (\<lambda>e. g \<le> le_global_order e) (log_entries h cs))"
    and exists_rep: "valid_log ok cs \<Longrightarrow> exists_commit (rep cs) cid \<longleftrightarrow> cid \<in> c_commit_id ` set cs"
    and stream_exists_rep: "valid_log ok cs \<Longrightarrow> stream_exists (rep cs) st \<longleftrightarrow> st \<in> c_stream_id ` set cs"
begin

lemma run_rep:
  "valid_log ok cs \<Longrightarrow> list_all ok xs \<Longrightarrow> room (length cs + length xs) \<Longrightarrow>
     run_appends append (rep cs) xs =
       (rep (fst (run_appends log_append cs xs)), snd (run_appends log_append cs xs))"
proof (induction xs arbitrary: cs)
  case (Cons c xs)
  have "room (length (fst (log_append cs c)))" "room (length (fst (log_append cs c)) + length xs)"
    using room_mono [OF Cons.prems(3)] log_append_length [of cs c] by simp_all
  with Cons show ?case
    using append_rep [of cs c] valid_log_append [of ok cs c] by (simp add: split_def Let_def)
qed simp

lemma reached:
  assumes "list_all ok xs" "room (length xs)"
  obtains cs where "valid_log ok cs" "fst (run_appends append init xs) = rep cs" "room (length cs)"
proof (rule that)
  show "valid_log ok (fst (run_appends log_append [] xs))" by (rule valid_run_log [OF valid_nil assms(1)])
  show "fst (run_appends append init xs) = rep (fst (run_appends log_append [] xs))"
    using run_rep [OF valid_nil assms(1)] assms(2) by (simp add: init_rep)
  show "room (length (fst (run_appends log_append [] xs)))"
    using room_mono [OF assms(2)] run_log_length [of "[]" xs] by simp
qed

lemma reached_append:
  assumes "list_all ok xs" "room (Suc (length xs))"
  obtains cs where "valid_log ok cs" "fst (run_appends append init xs) = rep cs"
    "room (length (fst (log_append cs c)))"
proof (rule that)
  show "valid_log ok (fst (run_appends log_append [] xs))" by (rule valid_run_log [OF valid_nil assms(1)])
  show "fst (run_appends append init xs) = rep (fst (run_appends log_append [] xs))"
    using run_rep [OF valid_nil assms(1)] room_mono [OF assms(2)] by (simp add: init_rep)
  show "room (length (fst (log_append (fst (run_appends log_append [] xs)) c)))"
    using order_trans [OF log_append_length] run_log_length [of "[]" xs]
    by (intro room_mono [OF assms(2)]) (simp add: order_trans [OF log_append_length])
qed

lemma stream_contiguous:
  assumes "list_all ok xs" "room (length xs)"
  shows "\<exists>es. read_stream (fst (run_appends append init xs)) st = Inr es \<and>
     map le_sequence es = [1 .. int (length es)]"
proof -
  obtain cs where cs: "valid_log ok cs" "fst (run_appends append init xs) = rep cs" "room (length cs)"
    by (rule reached [OF assms(1,2)])
  let ?es = "filter (\<lambda>e. le_stream_id e = st) (log_entries h cs)"
  have seqs: "map le_sequence ?es = [1 .. stream_length cs st]"
    by (rule log_entries_contiguous [OF cs(1)])
  moreover have "int (length ?es) = stream_length cs st"
    using arg_cong [OF seqs, of length] stream_length_nonneg [of cs st] by simp
  ultimately show ?thesis using cs by (simp add: read_stream_rep)
qed

lemma replay_order:
  assumes "list_all ok xs" "room (length xs)"
    and "fits64 g"
  shows "\<exists>es. read_from (fst (run_appends append init xs)) g = Inr es \<and>
     sorted (map le_global_order es) \<and> (\<forall>e \<in> set es. g \<le> le_global_order e)"
proof -
  obtain cs where cs: "valid_log ok cs" "fst (run_appends append init xs) = rep cs" "room (length cs)"
    by (rule reached [OF assms(1,2)])
  then show ?thesis
    using sorted_filter [OF log_entries_sorted [OF cs(1)]] assms(3) by (simp add: read_from_rep)
qed

lemma append_again:
  assumes "list_all ok xs" "room (Suc (length xs))" "ok c"
    and "append (fst (run_appends append init xs)) c = (s', Inr r)"
  shows "append s' c = (s', Inr r) \<and> exists_commit s' (c_commit_id c)"
proof -
  obtain cs where cs: "valid_log ok cs" "fst (run_appends append init xs) = rep cs"
      "room (length (fst (log_append cs c)))"
    by (rule reached_append [OF assms(1,2)])
  have v: "valid_log ok (fst (log_append cs c))" by (rule valid_log_append [OF cs(1) assms(3)])
  have s': "s' = rep (fst (log_append cs c))" and r: "snd (log_append cs c) = Inr r"
    using assms(4) cs append_rep [OF cs(1) assms(3) cs(3)] by simp_all
  show ?thesis
  proof (cases rule: log_append_cases [of cs c])
    case (duplicate r')
    then have "c_commit_id c \<in> c_commit_id ` set cs"
      using map_of_log_receipts_None [of cs "c_commit_id c"] by force
    with duplicate r s' cs show ?thesis
      by (simp add: append_rep [OF cs(1) assms(3) cs(3)] exists_rep)
  next
    case (refused x)
    with r show ?thesis by simp
  next
    case accepted
    have "map_of (log_receipts cs) (c_commit_id c) = None"
      using accepted by (simp add: map_of_log_receipts_None)
    then have "map_of (log_receipts (cs @ [c])) (c_commit_id c) = Some r"
      using accepted r by (simp add: map_add_def)
    with accepted s' v show ?thesis
      using append_rep [OF v assms(3)] cs(3) by (simp add: exists_rep log_append_def)
  qed
qed

lemma append_failure:
  assumes "list_all ok xs" "room (Suc (length xs))" "ok c"
    and "append (fst (run_appends append init xs)) c = (s', Inl x)"
  shows "s' = fst (run_appends append init xs) \<and> \<not> exists_commit s' (c_commit_id c) \<and>
    (\<exists>es. read_stream s' (c_stream_id c) = Inr es \<and>
      (c_events c = [] \<and> x = IndexError \<or>
       (\<exists>i < length (c_events c). (\<forall>j < i. env_sequence (c_events c ! j) = int (length es + 1 + j)) \<and>
          env_sequence (c_events c ! i) \<noteq> int (length es + 1 + i) \<and>
          x = SequenceGap (c_stream_id c) (int (length es + 1 + i)) (env_sequence (c_events c ! i)))))"
proof -
  obtain cs where cs: "valid_log ok cs" "fst (run_appends append init xs) = rep cs"
      "room (length (fst (log_append cs c)))"
    by (rule reached_append [OF assms(1,2)])
  let ?es = "filter (\<lambda>e. le_stream_id e = c_stream_id c) (log_entries h cs)"
  have len: "stream_length cs (c_stream_id c) = int (length ?es)"
    using arg_cong [OF log_entries_contiguous [OF cs(1), of "c_stream_id c" h], of length]
      stream_length_nonneg [of cs "c_stream_id c"] by simp
  have ap: "log_append cs c = (fst (log_append cs c), Inl x)" "s' = rep (fst (log_append cs c))"
    using assms(4) cs append_rep [OF cs(1) assms(3) cs(3)] by (simp_all add: prod_eq_iff)
  show ?thesis
  proof (cases rule: log_append_cases [of cs c])
    case (refused y)
    with ap have y: "y = x" "s' = rep cs" by simp_all
    from refused(3) have "c_events c = [] \<and> x = IndexError \<or>
       (\<exists>i < length (c_events c). (\<forall>j < i. env_sequence (c_events c ! j) = int (length ?es + 1 + j)) \<and>
          env_sequence (c_events c ! i) \<noteq> int (length ?es + 1 + i) \<and>
          x = SequenceGap (c_stream_id c) (int (length ?es + 1 + i)) (env_sequence (c_events c ! i)))"
      using check_contiguous_gap [of "c_stream_id c" "int (length ?es) + 1" "c_events c" x] y len
      by (auto simp: algebra_simps)
    with y cs refused(1) show ?thesis by (simp add: exists_rep read_stream_rep)
  qed (use ap in simp_all)
qed

lemma append_extends:
  assumes "list_all ok xs" "room (Suc (length xs))" "ok c"
    and "append (fst (run_appends append init xs)) c = (s', Inr r)"
    and "\<not> exists_commit (fst (run_appends append init xs)) (c_commit_id c)"
  shows "\<exists>es. read_from (fst (run_appends append init xs)) 0 = Inr es \<and>
     read_from s' 0 = Inr (es @ map (entry_of h c (r_global_order r)) (c_events c)) \<and>
     (\<forall>e \<in> set es. le_global_order e < r_global_order r)"
proof -
  obtain cs where cs: "valid_log ok cs" "fst (run_appends append init xs) = rep cs"
      "room (length (fst (log_append cs c)))"
    by (rule reached_append [OF assms(1,2)])
  have v: "valid_log ok (fst (log_append cs c))" by (rule valid_log_append [OF cs(1) assms(3)])
  have new: "c_commit_id c \<notin> c_commit_id ` set cs" using assms(5) cs by (simp add: exists_rep)
  have all: "filter (\<lambda>e. 0 \<le> le_global_order e) (log_entries h cs) = log_entries h cs"
    using log_entries_global_order [OF cs(1)] by (auto intro!: filter_True)
  show ?thesis
  proof (cases rule: log_append_cases [of cs c])
    case (duplicate r')
    with new show ?thesis by (metis map_of_log_receipts_None option.distinct(1))
  next
    case (refused x)
    with assms(4) cs show ?thesis using append_rep [OF cs(1) assms(3) cs(3)] by simp
  next
    case accepted
    then have "s' = rep (cs @ [c])" "r = receipt_of (int (length cs)) c"
      using assms(4) cs append_rep [OF cs(1) assms(3) cs(3)] by simp_all
    moreover have "valid_log ok (cs @ [c])" using v accepted by simp
    ultimately show ?thesis
      using cs all log_entries_global_order [OF cs(1)]
      by (auto simp: read_from_rep fits64_def receipt_of_def filter_True)
  qed
qed

end

section \<open>The in-memory backend meets the contract\<close>

definition mem_of :: "host \<Rightarrow> Commit list \<Rightarrow> MemoryLedger" where
  "mem_of h cs = \<lparr>ml_entries = log_entries h cs, ml_commits = log_receipts cs,
     ml_stream_sequences = foldl (\<lambda>d c. AList.update (c_stream_id c)
        (env_sequence (hd (c_events c)) + int (length (c_events c)) - 1) d) [] cs,
     ml_next_global_order = int (length cs)\<rparr>"

lemma mem_of_sequences:
  "valid_log ok cs \<Longrightarrow>
     map_of (ml_stream_sequences (mem_of h cs)) st =
       (if st \<in> c_stream_id ` set cs then Some (stream_length cs st) else None)"
proof (induction rule: valid_log.induct)
  case (valid_snoc cs c)
  have "env_sequence (hd (c_events c)) = stream_length cs (c_stream_id c) + 1"
    using valid_snoc.hyps by (cases "c_events c") (simp_all add: upto_rec1)
  with valid_snoc show ?case by (auto simp: mem_of_def)
qed (simp add: mem_of_def)

lemma stream_length_absent: "st \<notin> c_stream_id ` set cs \<Longrightarrow> stream_length cs st = 0"
  by (induction cs rule: rev_induct) auto

lemma memory_append_mem_of:
  assumes "valid_log ok cs"
  shows "memory_append h (mem_of h cs) c = (mem_of h (fst (log_append cs c)), snd (log_append cs c))"
proof -
  have seq: "dict_get (ml_stream_sequences (mem_of h cs)) (c_stream_id c) 0 = stream_length cs (c_stream_id c)"
    using mem_of_sequences [OF assms] by (simp add: dict_get_def stream_length_absent)
  have com: "ml_commits (mem_of h cs) = log_receipts cs" by (simp add: mem_of_def)
  show ?thesis
  proof (cases rule: log_append_cases [of cs c])
    case (duplicate r)
    then show ?thesis by (simp add: memory_append_def com)
  next
    case (refused x)
    then show ?thesis
      by (auto simp: memory_append_def log_append_def com seq map_of_log_receipts_None Let_def
          split: option.splits list.splits sum.splits if_splits)
  next
    case accepted
    have upd: "AList.update (c_commit_id c) r (log_receipts cs) = log_receipts cs @ [(c_commit_id c, r)]" for r
      using accepted by (simp add: update_new)
    have chk: "check_contiguous (c_stream_id c) (stream_length cs (c_stream_id c) + 1) (c_events c) = Inr ()"
      using accepted by (simp add: check_contiguous_iff)
    have new: "map_of (log_receipts cs) (c_commit_id c) = None"
      using accepted by (simp add: map_of_log_receipts_None)
    obtain e0 es where ev: "c_events c = e0 # es" using accepted(2) by (cases "c_events c") auto
    show ?thesis
      unfolding memory_append_def com Let_def seq chk new option.case sum.case upd
      using accepted(4) ev by (simp add: mem_of_def receipt_of_def)
  qed
qed

interpretation mem: ledger_backend h "\<lambda>_. True" memory_init "memory_append h" memory_read_stream
    memory_read_from memory_exists memory_stream_exists "mem_of h" "\<lambda>_. True"
  for h
proof
  show "memory_init = mem_of h []" by (simp add: memory_init_def mem_of_def)
next
  fix cs c assume "valid_log (\<lambda>_. True) cs"
  then show "memory_append h (mem_of h cs) c = (mem_of h (fst (log_append cs c)), snd (log_append cs c))"
    by (rule memory_append_mem_of)
next
  fix cs st assume v: "valid_log (\<lambda>_. True) cs"
  show "memory_stream_exists (mem_of h cs) st \<longleftrightarrow> st \<in> c_stream_id ` set cs"
    using v by (induction rule: valid_log.induct)
      (auto simp: memory_stream_exists_def mem_of_def list_ex_iff neq_Nil_conv)
qed (simp_all add: memory_read_stream_def memory_read_from_def memory_exists_def mem_of_def dict_has_def)

section \<open>Properties\<close>

text \<open>Appending a commit again is idempotent.  Whatever commits an in-memory ledger was
  given before, once an append of a commit has answered a receipt, appending it again answers the same
  receipt, leaves the ledger exactly as it is, and the commit is reported to exist.\<close>

theorem memory_append_idempotent:
  assumes "memory_append h (fst (run_appends (memory_append h) memory_init xs)) c = (s, Inr r)"
  shows "memory_append h s c = (s, Inr r) \<and> memory_exists s (c_commit_id c)"
  by (rule mem.append_again [OF _ _ _ assms]) (simp_all add: list_all_iff)

definition sample_commit :: "string \<Rightarrow> int list \<Rightarrow> Commit" where
  "sample_commit cid ns = \<lparr>c_commit_id = cid, c_stream_id = ''s'',
     c_events = map (\<lambda>n. sample_envelope n [(''a'', JInt n)]) ns\<rparr>"

lemma sample_commit_simps [simp]:
  "c_commit_id (sample_commit cid ns) = cid" "c_stream_id (sample_commit cid ns) = ''s''"
  "c_events (sample_commit cid ns) = map (\<lambda>n. sample_envelope n [(''a'', JInt n)]) ns"
  by (simp_all add: sample_commit_def)

lemma sample_sequence [simp]: "env_sequence (sample_envelope n p) = n"
  by (simp add: sample_envelope_def)

theorem memory_append_idempotent_witness:
  "memory_append sample_host (fst (memory_append sample_host memory_init (sample_commit ''c1'' [1, 2])))
      (sample_commit ''c1'' [1, 2]) =
    memory_append sample_host memory_init (sample_commit ''c1'' [1, 2])"
proof -
  have "\<exists>s r. memory_append sample_host memory_init (sample_commit ''c1'' [1, 2]) = (s, Inr r)"
    by (simp add: memory_append_def memory_init_def dict_get_def Let_def)
  then obtain s r where "memory_append sample_host memory_init (sample_commit ''c1'' [1, 2]) = (s, Inr r)"
    by blast
  with memory_append_idempotent [of sample_host "[]" "sample_commit ''c1'' [1, 2]" s r] show ?thesis by simp
qed

end
