(* ===== verification/SqliteLedger.thy ===== *)
theory SqliteLedger
  imports Ledger
begin

text \<open>
  The SQLite backend of the ledger, \<open>rationalevault/ledger/storage/sqlite.py\<close>.  The state is the
  table \<open>ledger_entries\<close>, its rows in rowid order; the payload column holds JSON text.  A
  statement binds its ints as 64-bit integers and the primary key is \<open>(stream_id, sequence)\<close>;
  \<open>ORDER BY\<close> is a stable sort, which is what the two indices of the schema give.
\<close>

section \<open>The table and its statements\<close>

record Row =
  row_stream_id :: string
  row_sequence :: int
  row_commit_id :: string
  row_event_id :: string
  row_rvcj_version :: int
  row_event_schema_version :: int
  row_event_type :: string
  row_timestamp :: string
  row_payload :: string
  row_global_order :: int

type_synonym SQLiteLedger = "Row list"

definition sqlite_init :: SQLiteLedger where
  "sqlite_init = []"

text \<open>\<open>MAX(column)\<close> is \<open>NULL\<close> on no rows.\<close>

definition sql_max :: "int list \<Rightarrow> int option" where
  "sql_max xs = (if xs = [] then None else Some (Max (set xs)))"

definition row_fits :: "Row \<Rightarrow> bool" where
  "row_fits r \<longleftrightarrow> fits64 (row_sequence r) \<and> fits64 (row_rvcj_version r) \<and>
     fits64 (row_event_schema_version r) \<and> fits64 (row_global_order r)"

definition sql_insert :: "Row list \<Rightarrow> Row \<Rightarrow> Row list result" where
  "sql_insert rows r =
     (if \<not> row_fits r then Inl OverflowError
      else if list_ex (\<lambda>q. row_stream_id q = row_stream_id r \<and> row_sequence q = row_sequence r) rows
        then Inl IntegrityError
      else Inr (rows @ [r]))"

definition row_of_event :: "host \<Rightarrow> Commit \<Rightarrow> int \<Rightarrow> CanonicalEnvelope \<Rightarrow> Row" where
  "row_of_event h c g e =
     \<lparr>row_stream_id = c_stream_id c, row_sequence = env_sequence e, row_commit_id = c_commit_id c,
      row_event_id = ''EVT-'' @ take 12 (content_digest h e),
      row_rvcj_version = env_rvcj_version e, row_event_schema_version = env_event_schema_version e,
      row_event_type = event_type_value (env_event_type e),
      row_timestamp = to_iso8601 (env_timestamp e),
      row_payload = json_dumps compact_ascii_format False (JDict (pl_data (env_payload e))),
      row_global_order = g\<rparr>"

text \<open>
  \<open>json.dumps\<close> is only ever given the \<open>data\<close> of a payload, a dict; text that decodes to
  anything else has been put there by another program.
\<close>

definition row_to_entry :: "Row \<Rightarrow> LedgerEntry result" where
  "row_to_entry r = rbind (json_loads (row_payload r)) (\<lambda>v. case v of
      JDict d \<Rightarrow> Inr \<lparr>le_stream_id = row_stream_id r, le_sequence = row_sequence r,
        le_commit_id = row_commit_id r, le_event_id = row_event_id r,
        le_rvcj_version = row_rvcj_version r, le_event_schema_version = row_event_schema_version r,
        le_event_type = row_event_type r, le_timestamp = row_timestamp r, le_payload = d,
        le_global_order = row_global_order r\<rparr>
    | _ \<Rightarrow> Inl (Untyped ''LedgerEntry.payload''))"

section \<open>The operations\<close>

definition sqlite_append :: "host \<Rightarrow> SQLiteLedger \<Rightarrow> Commit \<Rightarrow> SQLiteLedger \<times> CommitReceipt result" where
  "sqlite_append h L c =
     (let same = filter (\<lambda>r. row_commit_id r = c_commit_id c) L in
      case same of
        _ # _ \<Rightarrow>
          (let existing = hd (sort_key row_sequence same);
               lst = hd (sort_key (\<lambda>r. - row_sequence r) same)
           in (L, Inr \<lparr>r_commit_id = c_commit_id c, r_stream_id = row_stream_id existing,
                 r_sequence_start = row_sequence existing, r_sequence_end = row_sequence lst,
                 r_global_order = row_global_order existing\<rparr>))
      | [] \<Rightarrow>
          (let st = c_stream_id c;
               current_seq = (case sql_max (map row_sequence (filter (\<lambda>r. row_stream_id r = st) L)) of
                   None \<Rightarrow> 0 | Some m \<Rightarrow> m)
           in case check_contiguous st (current_seq + 1) (c_events c) of
                Inl x \<Rightarrow> (L, Inl x)
              | Inr _ \<Rightarrow>
                  (let g = (case sql_max (map row_global_order L) of None \<Rightarrow> - 1 | Some m \<Rightarrow> m) + 1
                   in case c_events c of
                        [] \<Rightarrow> (L, Inl IndexError)
                      | e0 # _ \<Rightarrow>
                          (case rfold (\<lambda>L' e. sql_insert L' (row_of_event h c g e)) L (c_events c) of
                             Inl x \<Rightarrow> (L, Inl x)
                           | Inr L' \<Rightarrow> (L', Inr \<lparr>r_commit_id = c_commit_id c, r_stream_id = st,
                               r_sequence_start = env_sequence e0,
                               r_sequence_end = env_sequence e0 + int (length (c_events c)) - 1,
                               r_global_order = g\<rparr>)))))"

definition sqlite_read_stream :: "SQLiteLedger \<Rightarrow> string \<Rightarrow> LedgerEntry list result" where
  "sqlite_read_stream L st =
     rmap row_to_entry (sort_key row_sequence (filter (\<lambda>r. row_stream_id r = st) L))"

definition sqlite_read_from :: "SQLiteLedger \<Rightarrow> int \<Rightarrow> LedgerEntry list result" where
  "sqlite_read_from L g =
     (if \<not> fits64 g then Inl OverflowError
      else rmap row_to_entry (sort_key row_global_order (filter (\<lambda>r. g \<le> row_global_order r) L)))"

definition sqlite_exists :: "SQLiteLedger \<Rightarrow> string \<Rightarrow> bool" where
  "sqlite_exists L cid \<longleftrightarrow> list_ex (\<lambda>r. row_commit_id r = cid) L"

definition sqlite_stream_exists :: "SQLiteLedger \<Rightarrow> string \<Rightarrow> bool" where
  "sqlite_stream_exists L st \<longleftrightarrow> list_ex (\<lambda>r. row_stream_id r = st) L"

section \<open>The backend meets the contract of a ledger\<close>

text \<open>
  What the table can hold: payloads whose keys are distinct and whose floats are spelt as Python
  spells them (every dict is such), and ints of 64 bits.
\<close>

definition sqlite_ok :: "Commit \<Rightarrow> bool" where
  "sqlite_ok c \<longleftrightarrow> list_all (\<lambda>e. wf_json (JDict (pl_data (env_payload e))) \<and>
     fits64 (env_sequence e) \<and> fits64 (env_rvcj_version e) \<and> fits64 (env_event_schema_version e))
     (c_events c)"

definition sqlite_room :: "nat \<Rightarrow> bool" where
  "sqlite_room n \<longleftrightarrow> int n \<le> 2 ^ 63"

definition sql_rows :: "host \<Rightarrow> Commit list \<Rightarrow> SQLiteLedger" where
  "sql_rows h cs = concat (map (\<lambda>(g, c). map (row_of_event h c (int g)) (c_events c)) (enumerate 0 cs))"

lemma sql_rows_simps [simp]:
  "sql_rows h [] = []"
  "sql_rows h (cs @ [c]) = sql_rows h cs @ map (row_of_event h c (int (length cs))) (c_events c)"
  by (simp_all add: sql_rows_def enumerate_append_eq)

lemma row_of_event_simps [simp]:
  "row_stream_id (row_of_event h c g e) = c_stream_id c"
  "row_sequence (row_of_event h c g e) = env_sequence e"
  "row_commit_id (row_of_event h c g e) = c_commit_id c"
  "row_global_order (row_of_event h c g e) = g"
  by (simp_all add: row_of_event_def)

lemma row_to_entry_columns:
  "row_to_entry r = Inr x \<Longrightarrow>
     le_stream_id x = row_stream_id r \<and> le_sequence x = row_sequence r \<and>
     le_commit_id x = row_commit_id r \<and> le_global_order x = row_global_order r"
  by (cases "json_loads (row_payload r)") (auto simp: row_to_entry_def split: json.splits)

lemma row_to_entry_of_event:
  assumes "wf_json (JDict (pl_data (env_payload e)))"
  shows "row_to_entry (row_of_event h c g e) = Inr (entry_of h c g e)"
proof -
  have "json_loads (json_dumps compact_ascii_format False (JDict (pl_data (env_payload e)))) =
      Inr (JDict (pl_data (env_payload e)))"
    using assms by (intro json_loads_dumps) (simp add: wf_format_def compact_ascii_format_def)
  then show ?thesis by (simp add: row_to_entry_def row_of_event_def entry_of_def)
qed

text \<open>Reading the table back gives the entries of the log, column by column.\<close>

lemma sql_rows_entries:
  assumes "valid_log sqlite_ok cs"
  shows "rmap row_to_entry (sql_rows h cs) = Inr (log_entries h cs)"
  using assms
proof (induction rule: valid_log.induct)
  case (valid_snoc cs c)
  then have "row_to_entry (row_of_event h c g e) = Inr (entry_of h c g e)" if "e \<in> set (c_events c)" for g e
    using that by (auto simp: sqlite_ok_def list_all_iff intro!: row_to_entry_of_event simp del: wf_json.simps)
  then have "rmap row_to_entry (map (row_of_event h c g) (c_events c)) = Inr (map (entry_of h c g) (c_events c))" for g
    by (simp add: rmap_map rmap_Inr)
  with valid_snoc.IH show ?case by (simp add: rmap_append)
qed simp

lemma rmap_rows_filter:
  assumes "rmap row_to_entry rows = Inr es"
    and "\<And>r x. row_to_entry r = Inr x \<Longrightarrow> Q x = P r \<and> f x = g r"
  shows "rmap row_to_entry (filter P rows) = Inr (filter Q es)"
    "map g (filter P rows) = map f (filter Q es)"
proof -
  show *: "rmap row_to_entry (filter P rows) = Inr (filter Q es)"
    using assms by (intro rmap_filter) auto
  show "map g (filter P rows) = map f (filter Q es)"
    using assms(2) by (intro rmap_columns [OF *]) auto
qed

text \<open>The columns the statements select, for a log.\<close>

lemma sql_stream_rows:
  assumes "valid_log sqlite_ok cs"
  shows "rmap row_to_entry (filter (\<lambda>r. row_stream_id r = st) (sql_rows h cs)) =
      Inr (filter (\<lambda>e. le_stream_id e = st) (log_entries h cs))"
    and "map row_sequence (filter (\<lambda>r. row_stream_id r = st) (sql_rows h cs)) = [1 .. stream_length cs st]"
  using rmap_rows_filter [OF sql_rows_entries [OF assms], of "\<lambda>e. le_stream_id e = st"
      "\<lambda>r. row_stream_id r = st" le_sequence row_sequence h] row_to_entry_columns
    log_entries_contiguous [OF assms] by simp_all

lemma sql_order_rows:
  assumes "valid_log sqlite_ok cs"
  shows "rmap row_to_entry (filter (\<lambda>r. g \<le> row_global_order r) (sql_rows h cs)) =
      Inr (filter (\<lambda>e. g \<le> le_global_order e) (log_entries h cs))"
    and "sorted (map row_global_order (filter (\<lambda>r. g \<le> row_global_order r) (sql_rows h cs)))"
  using rmap_rows_filter [OF sql_rows_entries [OF assms], of "\<lambda>e. g \<le> le_global_order e"
      "\<lambda>r. g \<le> row_global_order r" le_global_order row_global_order h] row_to_entry_columns
    sorted_filter [OF log_entries_sorted [OF assms]] by simp_all

lemma sql_commit_rows:
  "valid_log ok cs \<Longrightarrow>
     (case map_of (log_receipts cs) cid of
        None \<Rightarrow> filter (\<lambda>r. row_commit_id r = cid) (sql_rows h cs) = []
      | Some r \<Rightarrow> \<exists>c g. filter (\<lambda>r. row_commit_id r = cid) (sql_rows h cs) = map (row_of_event h c g) (c_events c) \<and>
          c_commit_id c = cid \<and> r = receipt_of g c \<and> c_events c \<noteq> [] \<and>
          check_contiguous (c_stream_id c) (env_sequence (hd (c_events c))) (c_events c) = Inr ())"
proof (induction rule: valid_log.induct)
  case (valid_snoc cs c)
  have hd: "env_sequence (hd (c_events c)) = stream_length cs (c_stream_id c) + 1"
    using valid_snoc.hyps by (cases "c_events c") (simp_all add: upto_rec1)
  show ?case
  proof (cases "cid = c_commit_id c")
    case True
    then have "map_of (log_receipts cs) cid = None"
      using valid_snoc.hyps by (simp add: map_of_log_receipts_None)
    with True valid_snoc.IH valid_snoc.hyps hd show ?thesis
      by (auto simp: map_add_def check_contiguous_iff intro!: exI [of _ c] exI [of _ "int (length cs)"])
  next
    case False
    with valid_snoc.IH show ?thesis by (simp add: map_add_def split: option.splits)
  qed
qed simp

lemma sql_max_upto: "0 \<le> n \<Longrightarrow> (case sql_max [1 .. n] of None \<Rightarrow> 0 | Some m \<Rightarrow> m) = n"
  by (cases "n = 0") (auto simp: sql_max_def intro!: Max_eqI)

lemma sql_max_order:
  "valid_log ok cs \<Longrightarrow>
     (case sql_max (map row_global_order (sql_rows h cs)) of None \<Rightarrow> - 1 | Some m \<Rightarrow> m) + 1 = int (length cs)"
proof (induction rule: valid_log.induct)
  case (valid_snoc cs c)
  have "\<forall>r \<in> set (sql_rows h cs). row_global_order r < int (length cs)"
    using valid_snoc.hyps(1) by (induction rule: valid_log.induct) fastforce+
  then have "Max (set (map row_global_order (sql_rows h (cs @ [c])))) = int (length cs)"
    using valid_snoc.hyps(4) by (intro Max_eqI) (auto simp: neq_Nil_conv)
  with valid_snoc.hyps(4) show ?case by (simp add: sql_max_def)
qed (simp add: sql_max_def)

text \<open>The insert loop of a contiguous commit meets no error.\<close>

lemma sql_insert_loop:
  assumes "list_all (\<lambda>e. row_fits (row_of_event h c g e)) es"
    and "distinct (map env_sequence es)"
    and "\<forall>r \<in> set rows. row_stream_id r = c_stream_id c \<longrightarrow> row_sequence r \<notin> env_sequence ` set es"
  shows "rfold (\<lambda>L' e. sql_insert L' (row_of_event h c g e)) rows es = Inr (rows @ map (row_of_event h c g) es)"
  using assms
proof (induction es arbitrary: rows)
  case (Cons e es)
  then have "sql_insert rows (row_of_event h c g e) = Inr (rows @ [row_of_event h c g e])"
    by (auto simp: sql_insert_def list_ex_iff)
  with Cons show ?case by auto
qed simp

lemma sorted_contiguous:
  assumes "check_contiguous st k es = Inr ()" "es \<noteq> []" "k = env_sequence (hd es)"
  shows "hd (sort_key row_sequence (map (row_of_event h c g) es)) = row_of_event h c g (hd es)"
    and "row_sequence (hd (sort_key (\<lambda>r. - row_sequence r) (map (row_of_event h c g) es))) =
      k + int (length es) - 1"
proof -
  have seqs: "map env_sequence es = [k .. k + int (length es) - 1]"
    using assms(1) by (simp add: check_contiguous_iff)
  then have "sorted (map row_sequence (map (row_of_event h c g) es))" by (simp add: comp_def)
  then show "hd (sort_key row_sequence (map (row_of_event h c g) es)) = row_of_event h c g (hd es)"
    using assms(2) by (simp add: sort_key_sorted_id hd_map)
  let ?d = "sort_key (\<lambda>r. - row_sequence r) (map (row_of_event h c g) es)"
  have ne: "?d \<noteq> []" using assms(2) by (metis length_0_conv length_map length_sort)
  have "sorted (map (\<lambda>r. - row_sequence r) ?d)" by simp
  then have least: "row_sequence r \<le> row_sequence (hd ?d)" if "r \<in> set ?d" for r
    using ne that by (cases ?d) auto
  have all: "row_sequence ` set ?d = {k .. k + int (length es) - 1}"
    using arg_cong [OF seqs, of set] by (simp add: image_image)
  have "k + int (length es) - 1 \<in> row_sequence ` set ?d" using assms(2) unfolding all by simp
  then have "k + int (length es) - 1 \<le> row_sequence (hd ?d)"
    by (elim imageE) (simp only: least)
  moreover have "row_sequence (hd ?d) \<in> row_sequence ` set ?d" using ne by (intro imageI hd_in_set)
  then have "row_sequence (hd ?d) \<le> k + int (length es) - 1" unfolding all by simp
  ultimately show "row_sequence (hd ?d) = k + int (length es) - 1" by simp
qed

lemma sqlite_append_rows:
  assumes "valid_log sqlite_ok cs" "sqlite_ok c" "sqlite_room (length (fst (log_append cs c)))"
  shows "sqlite_append h (sql_rows h cs) c = (sql_rows h (fst (log_append cs c)), snd (log_append cs c))"
proof -
  have same: "filter (\<lambda>r. row_commit_id r = c_commit_id c) (sql_rows h cs) = []"
    if "c_commit_id c \<notin> c_commit_id ` set cs"
  proof -
    have "map_of (log_receipts cs) (c_commit_id c) = None" using that by (simp add: map_of_log_receipts_None)
    then show ?thesis using sql_commit_rows [OF assms(1), of "c_commit_id c" h] by simp
  qed
  note seqs = sql_stream_rows(2) [OF assms(1)] sql_max_upto [OF stream_length_nonneg]
  show ?thesis
  proof (cases rule: log_append_cases [of cs c])
    case (duplicate r)
    then obtain c' g where
      "filter (\<lambda>r. row_commit_id r = c_commit_id c) (sql_rows h cs) = map (row_of_event h c' g) (c_events c')"
      "c_commit_id c' = c_commit_id c" "r = receipt_of g c'" "c_events c' \<noteq> []"
      "check_contiguous (c_stream_id c') (env_sequence (hd (c_events c'))) (c_events c') = Inr ()"
      using sql_commit_rows [OF assms(1), of "c_commit_id c" h] by auto
    with duplicate show ?thesis
      using sorted_contiguous [of "c_stream_id c'" _ "c_events c'" h c' g]
      by (auto simp: sqlite_append_def Let_def receipt_of_def split: list.splits)
  next
    case (refused x)
    with same show ?thesis
      by (auto simp: sqlite_append_def log_append_def Let_def seqs map_of_log_receipts_None
          split: option.splits list.splits sum.splits if_splits)
  next
    case accepted
    have chk: "check_contiguous (c_stream_id c) (stream_length cs (c_stream_id c) + 1) (c_events c) = Inr ()"
      using accepted by (simp add: check_contiguous_iff)
    have "list_all (\<lambda>e. row_fits (row_of_event h c (int (length cs)) e)) (c_events c)"
      using assms(2,3) accepted
      by (auto simp: sqlite_ok_def list_all_iff row_fits_def row_of_event_def sqlite_room_def fits64_def)
    moreover have "row_sequence r \<notin> env_sequence ` set (c_events c)"
      if "r \<in> set (sql_rows h cs)" "row_stream_id r = c_stream_id c" for r
    proof -
      have "row_sequence r \<in> set (map row_sequence (filter (\<lambda>r. row_stream_id r = c_stream_id c) (sql_rows h cs)))"
        using that by simp
      then have "row_sequence r \<le> stream_length cs (c_stream_id c)" unfolding seqs(1) by simp
      moreover have "set (map env_sequence (c_events c)) \<subseteq> {stream_length cs (c_stream_id c) + 1 ..}"
        unfolding accepted(3) by auto
      ultimately show ?thesis by fastforce
    qed
    ultimately have loop: "rfold (\<lambda>L' e. sql_insert L' (row_of_event h c (int (length cs)) e)) (sql_rows h cs)
        (c_events c) = Inr (sql_rows h cs @ map (row_of_event h c (int (length cs))) (c_events c))"
      using accepted(3) by (intro sql_insert_loop) auto
    obtain e0 es where ev: "c_events c = e0 # es" using accepted(2) by (cases "c_events c") auto
    show ?thesis
      unfolding sqlite_append_def Let_def same [OF accepted(1)] list.case seqs chk sum.case
        sql_max_order [OF assms(1)] loop
      using accepted(4) ev by (simp add: receipt_of_def)
  qed
qed

interpretation sql: ledger_backend h sqlite_ok sqlite_init "sqlite_append h" sqlite_read_stream
    sqlite_read_from sqlite_exists sqlite_stream_exists "sql_rows h" sqlite_room
  for h
proof
  fix n m assume "sqlite_room n" "m \<le> n"
  then show "sqlite_room m" by (simp add: sqlite_room_def)
next
  show "sqlite_init = sql_rows h []" by (simp add: sqlite_init_def)
next
  fix cs c assume "valid_log sqlite_ok cs" "sqlite_ok c" "sqlite_room (length (fst (log_append cs c)))"
  then show "sqlite_append h (sql_rows h cs) c = (sql_rows h (fst (log_append cs c)), snd (log_append cs c))"
    by (rule sqlite_append_rows)
next
  fix cs st assume "valid_log sqlite_ok cs"
  then show "sqlite_read_stream (sql_rows h cs) st = Inr (filter (\<lambda>e. le_stream_id e = st) (log_entries h cs))"
    by (simp add: sqlite_read_stream_def sort_key_sorted_id sql_stream_rows)
next
  fix cs g assume "valid_log sqlite_ok cs" "fits64 g"
  then show "sqlite_read_from (sql_rows h cs) g = Inr (filter (\<lambda>e. g \<le> le_global_order e) (log_entries h cs))"
    by (simp add: sqlite_read_from_def sort_key_sorted_id sql_order_rows)
next
  fix cs cid assume v: "valid_log sqlite_ok cs"
  show "sqlite_exists (sql_rows h cs) cid \<longleftrightarrow> cid \<in> c_commit_id ` set cs"
    using v by (induction rule: valid_log.induct) (auto simp: sqlite_exists_def list_ex_iff neq_Nil_conv)
  show "sqlite_stream_exists (sql_rows h cs) cid \<longleftrightarrow> cid \<in> c_stream_id ` set cs"
    using v by (induction rule: valid_log.induct) (auto simp: sqlite_stream_exists_def list_ex_iff neq_Nil_conv)
qed

section \<open>Properties\<close>

lemma sample_commit_ok: "list_all fits64 ns \<Longrightarrow> sqlite_ok (sample_commit cid ns)"
  by (auto simp: sqlite_ok_def list_all_iff sample_envelope_def wf_dict_def fits64_def)

lemmas sample_run = sqlite_init_def Let_def sqlite_append_def sql_max_def sql_insert_def row_fits_def
  row_of_event_def sample_envelope_def fits64_def sqlite_room_def sqlite_exists_def

text \<open>Property C1: every stream of the SQLite ledger is gapless.  After any sequence of appends, accepted or
  refused, reading a stream succeeds and gives the sequence numbers 1, 2, 3 and so on in this order.\<close>

theorem sqlite_stream_contiguous:
  assumes "list_all sqlite_ok xs" "sqlite_room (length xs)"
  shows "\<exists>es. sqlite_read_stream (fst (run_appends (sqlite_append h) sqlite_init xs)) st = Inr es \<and>
     map le_sequence es = [1 .. int (length es)]"
  by (rule sql.stream_contiguous [OF assms])

theorem sqlite_stream_contiguous_witness:
  "\<exists>es. sqlite_read_stream (fst (run_appends (sqlite_append sample_host) sqlite_init
       [sample_commit ''c1'' [1, 2], sample_commit ''c2'' [5]])) ''s'' = Inr es \<and>
     map le_sequence es = [1 .. int (length es)]"
  by (rule sqlite_stream_contiguous) (simp_all add: sample_commit_ok fits64_def sqlite_room_def)

text \<open>Property C26: a refused append changes nothing and says why.  If an append to a SQLite ledger raises,
  the table is as before, the commit is not in it, and either the commit had no event (IndexError) or the
  error names the first event whose sequence number is not the next one of its stream; in particular
  the primary key of the table is never violated.\<close>

theorem sqlite_append_failure:
  assumes "list_all sqlite_ok xs" "sqlite_room (Suc (length xs))" "sqlite_ok c"
    and "sqlite_append h (fst (run_appends (sqlite_append h) sqlite_init xs)) c = (s', Inl x)"
  shows "s' = fst (run_appends (sqlite_append h) sqlite_init xs) \<and> \<not> sqlite_exists s' (c_commit_id c) \<and>
    (\<exists>es. sqlite_read_stream s' (c_stream_id c) = Inr es \<and>
      (c_events c = [] \<and> x = IndexError \<or>
       (\<exists>i < length (c_events c). (\<forall>j < i. env_sequence (c_events c ! j) = int (length es + 1 + j)) \<and>
          env_sequence (c_events c ! i) \<noteq> int (length es + 1 + i) \<and>
          x = SequenceGap (c_stream_id c) (int (length es + 1 + i)) (env_sequence (c_events c ! i)))))"
  by (rule sql.append_failure [OF assms])

theorem sqlite_append_failure_witness:
  "sqlite_append sample_host sqlite_init (sample_commit ''c1'' [1, 3]) = (sqlite_init, Inl (SequenceGap ''s'' 2 3)) \<and>
   \<not> sqlite_exists sqlite_init ''c1''"
proof -
  have "sqlite_append sample_host sqlite_init (sample_commit ''c1'' [1, 3]) = (sqlite_init, Inl (SequenceGap ''s'' 2 3))"
    by (simp add: sample_run)
  with sqlite_append_failure [of "[]" "sample_commit ''c1'' [1, 3]" sample_host sqlite_init] show ?thesis
    by (simp add: sample_commit_ok fits64_def sqlite_room_def)
qed

text \<open>The SQLite ledger is append-only.  When a commit that is not yet in the ledger is
  accepted, reading everything gives what it gave before, followed by one entry per event of the commit
  in the order of the commit; all of them carry the global order of the receipt, which is greater than
  every global order present before.\<close>

theorem sqlite_append_extends:
  assumes "list_all sqlite_ok xs" "sqlite_room (Suc (length xs))" "sqlite_ok c"
    and "sqlite_append h (fst (run_appends (sqlite_append h) sqlite_init xs)) c = (s', Inr r)"
    and "\<not> sqlite_exists (fst (run_appends (sqlite_append h) sqlite_init xs)) (c_commit_id c)"
  shows "\<exists>es. sqlite_read_from (fst (run_appends (sqlite_append h) sqlite_init xs)) 0 = Inr es \<and>
     sqlite_read_from s' 0 = Inr (es @ map (entry_of h c (r_global_order r)) (c_events c)) \<and>
     (\<forall>e \<in> set es. le_global_order e < r_global_order r)"
  by (rule sql.append_extends [OF assms])

theorem sqlite_append_extends_witness:
  "\<exists>s' r. sqlite_append sample_host sqlite_init (sample_commit ''c1'' [1]) = (s', Inr r) \<and>
     sqlite_read_from s' 0 = Inr [entry_of sample_host (sample_commit ''c1'' [1]) 0 (sample_envelope 1 [(''a'', JInt 1)])]"
proof -
  obtain s' r where run: "sqlite_append sample_host sqlite_init (sample_commit ''c1'' [1]) = (s', Inr r)"
    "r_global_order r = 0"
    by (simp add: sample_run)
  moreover have "sqlite_read_from sqlite_init 0 = Inr []" "\<not> sqlite_exists sqlite_init ''c1''"
    by (simp_all add: sqlite_read_from_def sqlite_init_def fits64_def sqlite_exists_def)
  ultimately show ?thesis
    using sqlite_append_extends [of "[]" "sample_commit ''c1'' [1]" sample_host s' r]
    by (simp add: sample_commit_ok fits64_def sqlite_room_def)
qed

text \<open>Property C2: the two backends are interchangeable.  Given the same commits, the SQLite ledger and the
  in-memory ledger give the same answers (receipts and errors), and afterwards every read and every
  existence query gives the same result on both.\<close>

theorem sqlite_refines_memory:
  assumes "list_all sqlite_ok xs" "sqlite_room (length xs)"
  shows "let (q, qs) = run_appends (sqlite_append h) sqlite_init xs;
             (m, ms) = run_appends (memory_append h) memory_init xs
         in qs = ms \<and>
            (\<forall>st. sqlite_read_stream q st = memory_read_stream m st) \<and>
            (\<forall>g. fits64 g \<longrightarrow> sqlite_read_from q g = memory_read_from m g) \<and>
            (\<forall>cid. sqlite_exists q cid = memory_exists m cid) \<and>
            (\<forall>st. sqlite_stream_exists q st = memory_stream_exists m st)"
proof -
  let ?cs = "fst (run_appends log_append [] xs)"
  have v: "valid_log sqlite_ok ?cs" "valid_log (\<lambda>_. True) ?cs"
    using valid_run_log [OF valid_nil assms(1)] valid_run_log [OF valid_nil, of "\<lambda>_. True" xs]
    by (simp_all add: list_all_iff)
  show ?thesis
    using sql.run_rep [OF valid_nil assms(1), of h] mem.run_rep [OF valid_nil, of xs h] assms(2) v
    by (simp add: sql.init_rep [of h] mem.init_rep [of h] list_all_iff
        sql.read_stream_rep sql.read_from_rep sql.exists_rep sql.stream_exists_rep
        mem.read_stream_rep mem.read_from_rep mem.exists_rep mem.stream_exists_rep)
qed

theorem sqlite_refines_memory_witness:
  "snd (run_appends (sqlite_append sample_host) sqlite_init [sample_commit ''c1'' [1, 2], sample_commit ''c2'' [4]]) =
   snd (run_appends (memory_append sample_host) memory_init [sample_commit ''c1'' [1, 2], sample_commit ''c2'' [4]])"
  using sqlite_refines_memory [of "[sample_commit ''c1'' [1, 2], sample_commit ''c2'' [4]]" sample_host]
  by (simp add: sample_commit_ok fits64_def sqlite_room_def split_def Let_def del: run_appends.simps)

end
