(* ===== verification/Replay.thy ===== *)
theory Replay
  imports SqliteLedger
begin

text \<open>
  Replay of a ledger into projections, \<open>rationalevault/replay\<close>: the value objects (\<open>types.py\<close>), the
  reducer wrappers (\<open>reducer.py\<close>), the projection registry (\<open>registry.py\<close>) and the reference engine
  (\<open>engine/default.py\<close>).

  A reducer is a Python callable: it may mutate the dicts it is given and depend on state of its own.
  A call is a value holding the world after the call (\<open>'w\<close>, whatever the closures of the program
  keep), the result, and the two arguments as the call left them.  The event dicts of a replay are
  shared by all reducers, so the engine threads them through the calls.
\<close>

section \<open>Value objects (types.py)\<close>

record ReplayBoundary =
  rb_global_order :: int

definition replay_boundary :: "int \<Rightarrow> ReplayBoundary result" where
  "replay_boundary g =
     (if g < 0 then Inl (ValueError ''ReplayBoundary must be non-negative'')
      else Inr \<lparr>rb_global_order = g\<rparr>)"

record ReplayScope =
  rs_kind :: string
  rs_stream_id :: "string option"

definition replay_scope :: "string \<Rightarrow> string option \<Rightarrow> ReplayScope result" where
  "replay_scope k st =
     (if k \<noteq> ''global'' \<and> k \<noteq> ''stream''
        then Inl (ValueError ''ReplayScope kind must be 'global' or 'stream' '')
      else if k = ''global'' \<and> st \<noteq> None
        then Inl (ValueError ''ReplayScope global scope must have stream_id=None'')
      else if k = ''stream'' \<and> st = None
        then Inl (ValueError ''ReplayScope stream scope requires a stream_id'')
      else Inr \<lparr>rs_kind = k, rs_stream_id = st\<rparr>)"

record ReplayMode =
  rm_value :: string

definition valid_modes :: "string list" where
  "valid_modes = [''auto'', ''full'', ''delta'', ''fast_path'']"

definition replay_mode :: "string \<Rightarrow> ReplayMode result" where
  "replay_mode v =
     (if v \<in> set valid_modes then Inr \<lparr>rm_value = v\<rparr>
      else Inl (ValueError ''ReplayMode must be one of''))"

record Understanding =
  un_projections :: "(string, payload) dict"
  un_boundary :: ReplayBoundary

record ReplayReport =
  rp_mode :: string
  rp_events_processed :: nat
  rp_snapshot_used :: bool
  rp_replay_position :: ReplayBoundary
  rp_version :: int

record ReplayResult =
  rr_understanding :: Understanding
  rr_report :: ReplayReport
  rr_version :: int
  rr_replay_boundary :: ReplayBoundary

section \<open>Reducers and their wrappers (reducer.py)\<close>

record 'w call =
  call_world :: 'w
  call_result :: payload
  call_state :: payload
  call_event :: payload

type_synonym 'w ReducerFunc = "'w \<Rightarrow> payload \<Rightarrow> payload \<Rightarrow> 'w call result"

text \<open>
  Python's \<open>==\<close> on JSON values: dicts compare as maps, \<open>True\<close> equals 1, and an integral float
  equals the int (floats below 1e16, whose \<open>repr\<close> has no exponent).
\<close>

fun num_eq :: "int \<Rightarrow> string \<Rightarrow> bool" where
  "num_eq n t \<longleftrightarrow> t = show_int n @ ''.0'' \<or> (n = 0 \<and> t = ''-0.0'')"

fun py_eq :: "json \<Rightarrow> json \<Rightarrow> bool" and py_eqs :: "json list \<Rightarrow> json list \<Rightarrow> bool"
  and py_sub :: "(string \<times> json) list \<Rightarrow> payload \<Rightarrow> bool" where
  "py_eq (JInt m) (JInt n) \<longleftrightarrow> m = n"
| "py_eq (JInt m) (JBool b) \<longleftrightarrow> m = of_bool b"
| "py_eq (JBool b) (JInt m) \<longleftrightarrow> m = of_bool b"
| "py_eq (JBool a) (JBool b) \<longleftrightarrow> a = b"
| "py_eq (JInt m) (JFloat t) \<longleftrightarrow> num_eq m t"
| "py_eq (JFloat t) (JInt m) \<longleftrightarrow> num_eq m t"
| "py_eq (JBool b) (JFloat t) \<longleftrightarrow> num_eq (of_bool b) t"
| "py_eq (JFloat t) (JBool b) \<longleftrightarrow> num_eq (of_bool b) t"
| "py_eq (JFloat t) (JFloat u) \<longleftrightarrow> t \<noteq> ''NaN'' \<and> (t = u \<or> (t \<in> {''0.0'', ''-0.0''} \<and> u \<in> {''0.0'', ''-0.0''}))"
| "py_eq JNull JNull \<longleftrightarrow> True"
| "py_eq (JStr s) (JStr t) \<longleftrightarrow> s = t"
| "py_eq (JList xs) (JList ys) \<longleftrightarrow> py_eqs xs ys"
| "py_eq (JDict d) (JDict e) \<longleftrightarrow> length d = length e \<and> py_sub d e"
| "py_eq _ _ \<longleftrightarrow> False"
| "py_eqs [] [] \<longleftrightarrow> True"
| "py_eqs (x # xs) (y # ys) \<longleftrightarrow> py_eq x y \<and> py_eqs xs ys"
| "py_eqs _ _ \<longleftrightarrow> False"
| "py_sub [] e \<longleftrightarrow> True"
| "py_sub ((k, v) # d) e \<longleftrightarrow> (case map_of e k of None \<Rightarrow> False | Some u \<Rightarrow> py_eq v u) \<and> py_sub d e"

definition verify_purity :: "'w ReducerFunc \<Rightarrow> 'w ReducerFunc" where
  "verify_purity r = (\<lambda>w st ev.
     rbind (r w st ev) (\<lambda>c.
       if \<not> py_eq (JDict (call_state c)) (JDict st)
         then Inl (PurityViolationError ''Reducer mutated input state (I-12 violation)'')
       else if \<not> py_eq (JDict (call_event c)) (JDict ev)
         then Inl (PurityViolationError ''Reducer mutated input event (I-12 violation)'')
       else Inr c))"

text \<open>The reducer runs twice on copies: the caller's dicts stay as they are.\<close>

definition verify_determinism :: "'w ReducerFunc \<Rightarrow> 'w ReducerFunc" where
  "verify_determinism r = (\<lambda>w st ev.
     rbind (r w st ev) (\<lambda>c1. rbind (r (call_world c1) st ev) (\<lambda>c2.
       if \<not> py_eq (JDict (call_result c1)) (JDict (call_result c2)) then Inl AssertionError
       else Inr \<lparr>call_world = call_world c2, call_result = call_result c1, call_state = st, call_event = ev\<rparr>)))"

text \<open>Membership in the set of known types hashes the type: a list or a dict raises.\<close>

definition ignore_unknown_types :: "'w ReducerFunc \<Rightarrow> string list option \<Rightarrow> 'w ReducerFunc" where
  "ignore_unknown_types r known_types =
     (case known_types of None \<Rightarrow> r
      | Some known \<Rightarrow> (\<lambda>w st ev.
          rbind (hash_key (get_or ev ''event_type'' (JStr []))) (\<lambda>t.
          if t \<notin> JStr ` set known
            then Inr \<lparr>call_world = w, call_result = st, call_state = st, call_event = ev\<rparr>
          else r w st ev)))"

section \<open>The projection registry (registry.py)\<close>

record 'w ProjectionRegistry =
  reg_reducers :: "(string, 'w ReducerFunc) dict"
  reg_order :: "string list"

definition registry_init :: "'w ProjectionRegistry" where
  "registry_init = \<lparr>reg_reducers = [], reg_order = []\<rparr>"

definition registry_register ::
    "'w ProjectionRegistry \<Rightarrow> string \<Rightarrow> 'w ReducerFunc \<Rightarrow> 'w ProjectionRegistry result" where
  "registry_register reg name r =
     (if dict_has (reg_reducers reg) name then Inl (ValueError ''Projection already registered'')
      else Inr (reg\<lparr>reg_reducers := AList.update name r (reg_reducers reg),
                    reg_order := reg_order reg @ [name]\<rparr>))"

definition get_reducer :: "'w ProjectionRegistry \<Rightarrow> string \<Rightarrow> 'w ReducerFunc result" where
  "get_reducer reg name =
     (case map_of (reg_reducers reg) name of
        None \<Rightarrow> Inl (KeyError ''Unknown projection'') | Some r \<Rightarrow> Inr r)"

definition list_projections :: "'w ProjectionRegistry \<Rightarrow> string list" where
  "list_projections reg = reg_order reg"

definition registry_has :: "'w ProjectionRegistry \<Rightarrow> string \<Rightarrow> bool" where
  "registry_has reg name \<longleftrightarrow> dict_has (reg_reducers reg) name"

section \<open>The reference engine (engine/default.py)\<close>

text \<open>The two methods of the \<open>Ledger\<close> interface that the engine calls, on a fixed ledger.\<close>

record LedgerReader =
  lr_read_from :: "int \<Rightarrow> LedgerEntry list result"
  lr_read_stream :: "string \<Rightarrow> LedgerEntry list result"

definition entry_to_event :: "LedgerEntry \<Rightarrow> payload" where
  "entry_to_event e =
     [(''event_id'', JStr (le_event_id e)), (''event_type'', JStr (le_event_type e)),
      (''stream_id'', JStr (le_stream_id e)), (''sequence'', JInt (le_sequence e)),
      (''global_order'', JInt (le_global_order e)), (''timestamp'', JStr (le_timestamp e)),
      (''payload'', JDict (le_payload e)), (''rvcj_version'', JInt (le_rvcj_version e)),
      (''event_schema_version'', JInt (le_event_schema_version e)),
      (''commit_id'', JStr (le_commit_id e))]"

text \<open>A stream scope without a stream id does not exist: \<open>replay_scope\<close> refuses it.\<close>

definition read_entries :: "LedgerReader \<Rightarrow> ReplayScope \<Rightarrow> LedgerEntry list result" where
  "read_entries L sc =
     (if rs_kind sc = ''global'' then lr_read_from L 0
      else case rs_stream_id sc of
        Some st \<Rightarrow> lr_read_stream L st
      | None \<Rightarrow> Inl (Untyped ''ReplayScope.stream_id''))"

definition compute_boundary :: "LedgerEntry list \<Rightarrow> ReplayBoundary result" where
  "compute_boundary es =
     (if es = [] then replay_boundary 0 else replay_boundary (Max (set (map le_global_order es))))"

text \<open>The inner loop over the events: the world, the state, and the events as the calls left them.\<close>

fun reduce_events :: "'w ReducerFunc \<Rightarrow> 'w \<Rightarrow> payload \<Rightarrow> payload list \<Rightarrow>
    ('w \<times> payload \<times> payload list) result" where
  "reduce_events r w st [] = Inr (w, st, [])"
| "reduce_events r w st (ev # evs) =
     rbind (r w st ev) (\<lambda>c.
     rbind (reduce_events r (call_world c) (call_result c) evs) (\<lambda>(w', st', evs').
     Inr (w', st', call_event c # evs')))"

definition apply_reducers :: "'w ProjectionRegistry \<Rightarrow> 'w \<Rightarrow> payload list \<Rightarrow>
    ('w \<times> payload list \<times> (string, payload) dict) result" where
  "apply_reducers reg w events =
     rfold (\<lambda>(w, evs, states) name.
        rbind (get_reducer reg name) (\<lambda>r.
        rbind (reduce_events r w [] evs) (\<lambda>(w', st, evs').
        Inr (w', evs', AList.update name st states))))
       (w, events, []) (list_projections reg)"

text \<open>The part \<open>replay\<close> and \<open>replay_to\<close> share, from the entries on.\<close>

definition replay_entries :: "'w ProjectionRegistry \<Rightarrow> ReplayMode \<Rightarrow> 'w \<Rightarrow> LedgerEntry list \<Rightarrow>
    ('w \<times> ReplayResult) result" where
  "replay_entries reg mode w entries =
     rbind (compute_boundary entries) (\<lambda>b.
     rbind (apply_reducers reg w (map entry_to_event entries)) (\<lambda>(w', _, states).
     Inr (w', \<lparr>rr_understanding = \<lparr>un_projections = states, un_boundary = b\<rparr>,
               rr_report = \<lparr>rp_mode = rm_value mode, rp_events_processed = length entries,
                 rp_snapshot_used = False, rp_replay_position = b, rp_version = 1\<rparr>,
               rr_version = 1, rr_replay_boundary = b\<rparr>)))"

definition replay :: "'w ProjectionRegistry \<Rightarrow> LedgerReader \<Rightarrow> ReplayScope \<Rightarrow> ReplayMode \<Rightarrow>
    'w ProjectionRegistry option \<Rightarrow> 'w \<Rightarrow> ('w \<times> ReplayResult) result" where
  "replay own L sc mode projections w =
     rbind (read_entries L sc) (replay_entries (case projections of None \<Rightarrow> own | Some reg \<Rightarrow> reg) mode w)"

definition replay_to :: "'w ProjectionRegistry \<Rightarrow> LedgerReader \<Rightarrow> ReplayBoundary \<Rightarrow> ReplayMode \<Rightarrow>
    'w ProjectionRegistry option \<Rightarrow> 'w \<Rightarrow> ('w \<times> ReplayResult) result" where
  "replay_to own L b mode projections w =
     rbind (lr_read_from L 0) (\<lambda>entries.
       replay_entries (case projections of None \<Rightarrow> own | Some reg \<Rightarrow> reg) mode w
         (filter (\<lambda>e. le_global_order e \<le> rb_global_order b) entries))"

definition replay_stream :: "'w ProjectionRegistry \<Rightarrow> LedgerReader \<Rightarrow> string \<Rightarrow> ReplayMode \<Rightarrow>
    'w ProjectionRegistry option \<Rightarrow> 'w \<Rightarrow> ('w \<times> ReplayResult) result" where
  "replay_stream own L st mode projections w =
     rbind (replay_scope ''stream'' (Some st)) (\<lambda>sc. replay own L sc mode projections w)"

definition global_scope :: ReplayScope where
  "global_scope = \<lparr>rs_kind = ''global'', rs_stream_id = None\<rparr>"

section \<open>Pure reducers\<close>

text \<open>
  Invariant I-12: the reducer computes a function of its two arguments and changes nothing.  For a
  registry of such reducers a replay is one fold per projection.
\<close>

definition pure_reducer :: "'w ReducerFunc \<Rightarrow> (payload \<Rightarrow> payload \<Rightarrow> payload result) \<Rightarrow> bool" where
  "pure_reducer r f \<longleftrightarrow> (\<forall>w st ev. r w st ev =
     rbind (f st ev) (\<lambda>s. Inr \<lparr>call_world = w, call_result = s, call_state = st, call_event = ev\<rparr>))"

definition implements :: "'w ProjectionRegistry \<Rightarrow>
    (string \<times> (payload \<Rightarrow> payload \<Rightarrow> payload result)) list \<Rightarrow> bool" where
  "implements reg fs \<longleftrightarrow> reg_order reg = map fst fs \<and> distinct (map fst fs) \<and>
     (\<forall>(n, f) \<in> set fs. \<exists>r. map_of (reg_reducers reg) n = Some r \<and> pure_reducer r f)"

definition advance :: "(string \<times> (payload \<Rightarrow> payload \<Rightarrow> payload result)) list \<Rightarrow>
    (string, payload) dict \<Rightarrow> payload list \<Rightarrow> (string, payload) dict result" where
  "advance fs d evs = rmap (\<lambda>(n, f). rbind (rfold f (dict_get d n []) evs) (\<lambda>s. Inr (n, s))) fs"

lemma reduce_events_pure:
  assumes "pure_reducer r f"
  shows "reduce_events r w st evs = rbind (rfold f st evs) (\<lambda>s. Inr (w, s, evs))"
proof (induction evs arbitrary: st)
  case (Cons ev evs)
  then show ?case
    using assms by (cases "f st ev") (simp_all add: pure_reducer_def rbind_assoc)
qed simp

lemma apply_loop_pure:
  assumes "\<forall>(n, f) \<in> set fs. \<exists>r. map_of (reg_reducers reg) n = Some r \<and> pure_reducer r f"
    and "distinct (map fst states @ map fst fs)"
  shows "rfold (\<lambda>(w, evs, states) name.
        rbind (get_reducer reg name) (\<lambda>r.
        rbind (reduce_events r w [] evs) (\<lambda>(w', st, evs').
        Inr (w', evs', AList.update name st states)))) (w, evs, states) (map fst fs) =
     rbind (advance fs [] evs) (\<lambda>d. Inr (w, evs, states @ d))"
  using assms
proof (induction fs arbitrary: states)
  case (Cons nf fs)
  obtain n f where nf: "nf = (n, f)" by force
  from Cons.prems(1) nf obtain r where r: "map_of (reg_reducers reg) n = Some r" "pure_reducer r f" by auto
  show ?case
  proof (cases "rfold f [] evs")
    case (Inl x)
    with r nf show ?thesis
      by (simp add: get_reducer_def reduce_events_pure advance_def dict_get_def)
  next
    case (Inr s)
    have "n \<notin> fst ` set states" using Cons.prems(2) nf by auto
    then have "AList.update n s states = states @ [(n, s)]" by (simp add: update_new)
    moreover have "distinct (map fst (states @ [(n, s)]) @ map fst fs)" using Cons.prems(2) nf by auto
    ultimately show ?thesis
      using Inr r nf Cons.IH [of "states @ [(n, s)]"] Cons.prems(1)
      by (simp add: get_reducer_def reduce_events_pure advance_def dict_get_def rbind_assoc)
  qed
qed (simp add: advance_def)

lemma apply_reducers_pure:
  "implements reg fs \<Longrightarrow> apply_reducers reg w evs = rbind (advance fs [] evs) (\<lambda>d. Inr (w, evs, d))"
  using apply_loop_pure [of fs reg "[]" w evs]
  by (simp add: implements_def apply_reducers_def list_projections_def)

lemma advance_states:
  assumes "advance fs d evs = Inr d'" "(n, f) \<in> set fs" "distinct (map fst fs)"
  shows "rfold f (dict_get d n []) evs = Inr (dict_get d' n [])"
  using assms
proof (induction fs arbitrary: d')
  case (Cons nf fs)
  obtain m g where nf: "nf = (m, g)" by force
  from Cons.prems(1) nf obtain s d1 where s: "rfold g (dict_get d m []) evs = Inr s"
    "advance fs d evs = Inr d1" "d' = (m, s) # d1"
    by (auto simp: advance_def)
  show ?case
  proof (cases "n = m")
    case True
    with Cons.prems nf s show ?thesis by (force simp: dict_get_def)
  next
    case False
    with Cons.IH [of d1] Cons.prems nf s show ?thesis by (auto simp: dict_get_def)
  qed
qed simp

lemma advance_append:
  assumes "advance fs d evs = Inr d'" "distinct (map fst fs)"
  shows "advance fs d (evs @ evs') = advance fs d' evs'"
proof -
  have "rbind (rfold f (dict_get d n []) (evs @ evs')) (\<lambda>s. Inr (n, s)) =
      rbind (rfold f (dict_get d' n []) evs') (\<lambda>s. Inr (n, s))" if "(n, f) \<in> set fs" for n f
    using advance_states [OF assms(1) that assms(2)] by (simp add: rfold_append)
  then show ?thesis unfolding advance_def by (intro rmap_cong) auto
qed

section \<open>Replay of a ledger\<close>

definition ledger_reader :: "('s \<Rightarrow> int \<Rightarrow> LedgerEntry list result) \<Rightarrow>
    ('s \<Rightarrow> string \<Rightarrow> LedgerEntry list result) \<Rightarrow> 's \<Rightarrow> LedgerReader" where
  "ledger_reader rf rs s = \<lparr>lr_read_from = rf s, lr_read_stream = rs s\<rparr>"

abbreviation memory_reader :: "MemoryLedger \<Rightarrow> LedgerReader" where
  "memory_reader \<equiv> ledger_reader memory_read_from memory_read_stream"

abbreviation sqlite_reader :: "SQLiteLedger \<Rightarrow> LedgerReader" where
  "sqlite_reader \<equiv> ledger_reader sqlite_read_from sqlite_read_stream"

lemma run_log_prefix: "\<exists>zs. fst (run_appends log_append cs xs) = cs @ zs"
proof (induction xs arbitrary: cs)
  case (Cons c xs)
  obtain zs where "fst (log_append cs c) = cs @ zs"
    by (cases rule: log_append_cases [of cs c]) auto
  moreover obtain us where "fst (run_appends log_append (cs @ zs) xs) = (cs @ zs) @ us"
    using Cons.IH by blast
  ultimately show ?case by (simp add: split_def Let_def)
qed simp

lemma log_entries_prefix:
  "\<exists>rest. log_entries h (cs @ zs) = log_entries h cs @ rest \<and> (\<forall>e \<in> set rest. int (length cs) \<le> le_global_order e)"
proof (induction zs rule: rev_induct)
  case (snoc z zs)
  then obtain rest where "log_entries h (cs @ zs) = log_entries h cs @ rest"
    "\<forall>e \<in> set rest. int (length cs) \<le> le_global_order e" by blast
  then show ?case
    using log_snoc(3) [of h "cs @ zs" z]
    by (intro exI [of _ "rest @ map (entry_of h z (int (length (cs @ zs)))) (c_events z)"]) auto
qed simp

text \<open>The boundary of a non-empty ledger is the order of its last commit.\<close>

lemma compute_boundary_log:
  assumes "valid_log ok cs"
  shows "compute_boundary (log_entries h cs) = Inr \<lparr>rb_global_order = int (length cs - 1)\<rparr>"
proof (cases "cs = []")
  case False
  then obtain cs' c where cs: "cs = cs' @ [c]" by (metis append_butlast_last_id)
  then have ev: "c_events c \<noteq> []" using assms by (auto elim: valid_log_snocE)
  have bound: "le_global_order e \<le> int (length cs')" if "e \<in> set (log_entries h cs)" for e
    using log_entries_global_order [OF assms that] cs by simp
  have "Max (set (map le_global_order (log_entries h cs))) = int (length cs')"
  proof (rule Max_eqI)
    show "int (length cs') \<in> set (map le_global_order (log_entries h cs))"
      using cs ev by (auto simp: image_iff neq_Nil_conv)
  qed (auto dest: bound)
  moreover have "log_entries h cs \<noteq> []" using cs ev by simp
  ultimately show ?thesis using cs ev by (simp add: compute_boundary_def replay_boundary_def)
qed (simp add: compute_boundary_def replay_boundary_def)

lemma log_entries_upto:
  assumes "valid_log ok cs" "cs \<noteq> []"
  shows "filter (\<lambda>e. le_global_order e \<le> int (length cs - 1)) (log_entries h (cs @ zs)) = log_entries h cs"
proof -
  obtain rest where rest: "log_entries h (cs @ zs) = log_entries h cs @ rest"
    "\<forall>e \<in> set rest. int (length cs) \<le> le_global_order e" using log_entries_prefix by blast
  have n: "int (length cs - 1) = int (length cs) - 1" using assms(2) by (cases cs) simp_all
  have "filter (\<lambda>e. le_global_order e \<le> int (length cs) - 1) (log_entries h cs) = log_entries h cs"
    using log_entries_global_order [OF assms(1), of _ h] by (intro filter_True) fastforce
  moreover have "filter (\<lambda>e. le_global_order e \<le> int (length cs) - 1) rest = []"
    using rest(2) by (force simp: filter_empty_conv)
  ultimately show ?thesis unfolding n rest(1) by simp
qed

text \<open>What the engine does on any backend that meets the contract of a ledger.\<close>

context ledger_backend
begin

lemma read_all:
  assumes "valid_log ok cs"
  shows "lr_read_from (ledger_reader read_from read_stream (rep cs)) 0 = Inr (log_entries h cs)"
proof -
  have "filter (\<lambda>e. 0 \<le> le_global_order e) (log_entries h cs) = log_entries h cs"
    using log_entries_global_order [OF assms] by (auto intro!: filter_True)
  then show ?thesis by (simp add: ledger_reader_def read_from_rep [OF assms] fits64_def)
qed

lemma replay_global:
  "valid_log ok cs \<Longrightarrow>
     replay own (ledger_reader read_from read_stream (rep cs)) global_scope mode ps w =
       replay_entries (case ps of None \<Rightarrow> own | Some reg \<Rightarrow> reg) mode w (log_entries h cs)"
  by (simp add: replay_def read_entries_def global_scope_def read_all)

lemma replay_boundary_reached:
  assumes "valid_log ok cs"
    and "replay own (ledger_reader read_from read_stream (rep cs)) global_scope mode ps w = Inr (w', res)"
  shows "rr_replay_boundary res = \<lparr>rb_global_order = int (length cs - 1)\<rparr>"
  using assms(2) by (auto simp: replay_global [OF assms(1)] replay_entries_def compute_boundary_log [OF assms(1)])

lemma replay_to_earlier:
  assumes "list_all ok (xs @ ys)" "room (length (xs @ ys))"
    and "replay own (ledger_reader read_from read_stream (fst (run_appends append init xs)))
      global_scope mode ps w = Inr (w', res)"
    and "rp_events_processed (rr_report res) \<noteq> 0"
  shows "replay_to own (ledger_reader read_from read_stream (fst (run_appends append init (xs @ ys))))
      (rr_replay_boundary res) mode ps w = Inr (w', res)"
proof -
  have okx: "list_all ok xs" "list_all ok ys" and rx: "room (length xs)"
    using assms(1) room_mono [OF assms(2)] by simp_all
  let ?cs = "fst (run_appends log_append [] xs)"
  have cs: "valid_log ok ?cs" by (rule valid_run_log [OF valid_nil okx(1)])
  have s1: "fst (run_appends append init xs) = rep ?cs"
    using run_rep [OF valid_nil okx(1)] rx by (simp add: init_rep)
  obtain zs where zs: "fst (run_appends log_append [] (xs @ ys)) = ?cs @ zs"
    using run_log_prefix [of ?cs ys] by (auto simp: run_appends_append)
  have s2: "fst (run_appends append init (xs @ ys)) = rep (?cs @ zs)" "valid_log ok (?cs @ zs)"
    using run_rep [OF valid_nil assms(1)] assms(2) valid_run_log [OF valid_nil assms(1)] zs
    by (simp_all add: init_rep)
  have b: "rr_replay_boundary res = \<lparr>rb_global_order = int (length ?cs - 1)\<rparr>"
    by (rule replay_boundary_reached [OF cs assms(3) [unfolded s1]])
  have "?cs \<noteq> []"
    using assms(3,4) by (auto simp: s1 replay_global [OF cs] replay_entries_def)
  with assms(3) s1 s2 b show ?thesis
    by (simp add: replay_to_def read_all log_entries_upto [OF cs] replay_global [OF cs] del: One_nat_def)
qed

lemma replay_incremental:
  assumes "list_all ok xs" "room (Suc (length xs))" "ok c"
    and "append (fst (run_appends append init xs)) c = (s', Inr r)"
    and "\<not> exists_commit (fst (run_appends append init xs)) (c_commit_id c)"
    and "implements reg fs"
    and "replay reg (ledger_reader read_from read_stream (fst (run_appends append init xs)))
      global_scope mode None w = Inr (w', res)"
  shows "replay reg (ledger_reader read_from read_stream s') global_scope mode None w =
     rbind (advance fs (un_projections (rr_understanding res))
         (map (\<lambda>e. entry_to_event (entry_of h c (r_global_order r) e)) (c_events c)))
       (\<lambda>d. Inr (w, (let b = \<lparr>rb_global_order = r_global_order r\<rparr> in
          \<lparr>rr_understanding = \<lparr>un_projections = d, un_boundary = b\<rparr>,
           rr_report = \<lparr>rp_mode = rm_value mode,
              rp_events_processed = rp_events_processed (rr_report res) + length (c_events c),
              rp_snapshot_used = False, rp_replay_position = b, rp_version = 1\<rparr>,
           rr_version = 1, rr_replay_boundary = b\<rparr>)))"
proof -
  obtain cs where cs: "valid_log ok cs" "fst (run_appends append init xs) = rep cs"
      "room (length (fst (log_append cs c)))"
    by (rule reached_append [OF assms(1,2)])
  have new: "c_commit_id c \<notin> c_commit_id ` set cs" using assms(5) cs by (simp add: exists_rep)
  have ap: "s' = rep (fst (log_append cs c))" "snd (log_append cs c) = Inr r"
    using assms(4) cs append_rep [OF cs(1) assms(3) cs(3)] by simp_all
  have acc: "fst (log_append cs c) = cs @ [c]" "r = receipt_of (int (length cs)) c"
    using new ap(2) map_of_log_receipts_None [of cs "c_commit_id c"]
    by (cases rule: log_append_cases [of cs c]; simp)+
  have v: "valid_log ok (cs @ [c])"
    using valid_log_append [OF cs(1) assms(3)] acc by simp
  from assms(7) obtain d where d: "advance fs [] (map entry_to_event (log_entries h cs)) = Inr d"
    "d = un_projections (rr_understanding res)" "rp_events_processed (rr_report res) = length (log_entries h cs)"
    by (auto simp: cs(2) replay_global [OF cs(1)] replay_entries_def apply_reducers_pure [OF assms(6)])
  have "distinct (map fst fs)" using assms(6) by (simp add: implements_def)
  have b: "compute_boundary (log_entries h cs @ map (entry_of h c (int (length cs))) (c_events c)) =
      Inr \<lparr>rb_global_order = int (length cs)\<rparr>"
    using compute_boundary_log [OF v, of h] by simp
  from advance_append [OF d(1) \<open>distinct (map fst fs)\<close>] show ?thesis
    using d(2,3) acc ap(1)
    by (simp add: replay_global [OF v] replay_entries_def b
        apply_reducers_pure [OF assms(6)] receipt_of_def rbind_assoc comp_def Let_def add.commute del: log_snoc(2))
qed

end

section \<open>Properties\<close>

text \<open>A reducer that counts events, for the examples.\<close>

definition count_events :: "payload \<Rightarrow> payload \<Rightarrow> payload result" where
  "count_events st ev = Inr [(''n'', (case map_of st ''n'' of Some (JInt n) \<Rightarrow> JInt (n + 1) | _ \<Rightarrow> JInt 1))]"

definition count_reducer :: "unit ReducerFunc" where
  "count_reducer = (\<lambda>w st ev. rbind (count_events st ev)
     (\<lambda>s. Inr \<lparr>call_world = w, call_result = s, call_state = st, call_event = ev\<rparr>))"

definition sample_registry :: "unit ProjectionRegistry" where
  "sample_registry = \<lparr>reg_reducers = [(''count'', count_reducer)], reg_order = [''count'']\<rparr>"

definition sample_registry2 :: "unit ProjectionRegistry" where
  "sample_registry2 = \<lparr>reg_reducers = [(''other'', count_reducer), (''count'', count_reducer)],
     reg_order = [''other'', ''count'']\<rparr>"

lemma sample_implements:
  "implements sample_registry [(''count'', count_events)]"
  "implements sample_registry2 [(''other'', count_events), (''count'', count_events)]"
  by (simp_all add: implements_def sample_registry_def sample_registry2_def pure_reducer_def count_reducer_def)

abbreviation "auto_mode \<equiv> \<lparr>rm_value = ''auto''\<rparr>"

text \<open>Property C14: replay is incremental.  Let a registry hold pure reducers and let a replay of a SQLite
  ledger succeed.  After a new commit is accepted, the full replay is the earlier replay's projections,
  each advanced by its own reducer over the new events only, with the boundary at the new commit;
  if one of these reducers raises, the replay raises that error.\<close>

theorem sqlite_replay_incremental:
  assumes "list_all sqlite_ok xs" "sqlite_room (Suc (length xs))" "sqlite_ok c"
    and "sqlite_append h (fst (run_appends (sqlite_append h) sqlite_init xs)) c = (s', Inr r)"
    and "\<not> sqlite_exists (fst (run_appends (sqlite_append h) sqlite_init xs)) (c_commit_id c)"
    and "implements reg fs"
    and "replay reg (sqlite_reader (fst (run_appends (sqlite_append h) sqlite_init xs)))
      global_scope mode None w = Inr (w', res)"
  shows "replay reg (sqlite_reader s') global_scope mode None w =
     rbind (advance fs (un_projections (rr_understanding res))
         (map (\<lambda>e. entry_to_event (entry_of h c (r_global_order r) e)) (c_events c)))
       (\<lambda>d. Inr (w, (let b = \<lparr>rb_global_order = r_global_order r\<rparr> in
          \<lparr>rr_understanding = \<lparr>un_projections = d, un_boundary = b\<rparr>,
           rr_report = \<lparr>rp_mode = rm_value mode,
              rp_events_processed = rp_events_processed (rr_report res) + length (c_events c),
              rp_snapshot_used = False, rp_replay_position = b, rp_version = 1\<rparr>,
           rr_version = 1, rr_replay_boundary = b\<rparr>)))"
  by (rule sql.replay_incremental [OF assms])

theorem sqlite_replay_incremental_witness:
  "\<exists>s' r res. sqlite_append sample_host sqlite_init (sample_commit ''c1'' [1, 2]) = (s', Inr r) \<and>
     replay sample_registry (sqlite_reader s') global_scope auto_mode None () = Inr ((), res) \<and>
     un_projections (rr_understanding res) = [(''count'', [(''n'', JInt 2)])]"
proof -
  obtain s' r where run: "sqlite_append sample_host sqlite_init (sample_commit ''c1'' [1, 2]) = (s', Inr r)"
    by (simp add: sample_run)
  have before: "replay sample_registry (sqlite_reader sqlite_init) global_scope auto_mode None () =
      Inr ((), \<lparr>rr_understanding = \<lparr>un_projections = [(''count'', [])], un_boundary = \<lparr>rb_global_order = 0\<rparr>\<rparr>,
        rr_report = \<lparr>rp_mode = ''auto'', rp_events_processed = 0, rp_snapshot_used = False,
          rp_replay_position = \<lparr>rb_global_order = 0\<rparr>, rp_version = 1\<rparr>,
        rr_version = 1, rr_replay_boundary = \<lparr>rb_global_order = 0\<rparr>\<rparr>)"
    by (simp add: replay_def read_entries_def global_scope_def ledger_reader_def sqlite_read_from_def sqlite_init_def
        fits64_def replay_entries_def compute_boundary_def replay_boundary_def apply_reducers_def
        list_projections_def sample_registry_def get_reducer_def)
  have "\<not> sqlite_exists sqlite_init ''c1''" by (simp add: sqlite_exists_def sqlite_init_def)
  with run before sqlite_replay_incremental [of "[]" "sample_commit ''c1'' [1, 2]" sample_host s' r sample_registry
      "[(''count'', count_events)]" auto_mode "()"]
  show ?thesis
    by (simp add: sample_commit_ok sample_implements fits64_def sqlite_room_def advance_def dict_get_def
        count_events_def Let_def)
qed

text \<open>Replaying to an earlier boundary restores the earlier understanding.  If a replay of a
  non-empty in-memory ledger gave a result, then after any further appends replaying to the boundary of
  that result gives exactly that result, for any reducers, pure or not, from the same world.\<close>

theorem memory_replay_to_earlier:
  assumes "replay own (memory_reader (fst (run_appends (memory_append h) memory_init xs)))
      global_scope mode ps w = Inr (w', res)"
    and "rp_events_processed (rr_report res) \<noteq> 0"
  shows "replay_to own (memory_reader (fst (run_appends (memory_append h) memory_init (xs @ ys))))
      (rr_replay_boundary res) mode ps w = Inr (w', res)"
  by (rule mem.replay_to_earlier [OF _ _ assms]) (simp_all add: list_all_iff)

theorem memory_replay_to_earlier_witness:
  "\<exists>res. replay sample_registry (memory_reader (fst (run_appends (memory_append sample_host) memory_init
        [sample_commit ''c1'' [1]]))) global_scope auto_mode None () = Inr ((), res) \<and>
     replay_to sample_registry (memory_reader (fst (run_appends (memory_append sample_host) memory_init
        ([sample_commit ''c1'' [1]] @ [sample_commit ''c2'' [2]])))) (rr_replay_boundary res) auto_mode None () = Inr ((), res)"
proof -
  obtain res where res: "replay sample_registry (memory_reader (fst (run_appends (memory_append sample_host) memory_init
        [sample_commit ''c1'' [1]]))) global_scope auto_mode None () = Inr ((), res)"
      "rp_events_processed (rr_report res) = 1"
    by (simp add: replay_def read_entries_def global_scope_def ledger_reader_def memory_read_from_def memory_init_def
        memory_append_def Let_def dict_get_def replay_entries_def compute_boundary_def replay_boundary_def
        apply_reducers_def list_projections_def sample_registry_def get_reducer_def count_reducer_def count_events_def)
  with memory_replay_to_earlier [OF res(1), of "[sample_commit ''c2'' [2]]"] show ?thesis by auto
qed

text \<open>Projections do not influence one another.  If two registries of pure reducers both
  register the same reducer under a name, whatever else they register and in whatever order, then replays
  of the same entries leave that projection in the same state.\<close>

theorem projection_isolation:
  assumes "implements reg1 fs1" "implements reg2 fs2" "(n, f) \<in> set fs1" "(n, f) \<in> set fs2"
    and "replay_entries reg1 mode w1 entries = Inr (w1', res1)"
    and "replay_entries reg2 mode w2 entries = Inr (w2', res2)"
  shows "dict_get (un_projections (rr_understanding res1)) n [] =
    dict_get (un_projections (rr_understanding res2)) n []"
proof -
  have state: "rfold f [] (map entry_to_event entries) = Inr (dict_get (un_projections (rr_understanding res)) n [])"
    if "implements reg fs" "(n, f) \<in> set fs" "replay_entries reg mode w entries = Inr (w', res)"
    for reg fs w w' and res :: ReplayResult and reg' :: "'a ProjectionRegistry"
    using that advance_states [of fs "[]" "map entry_to_event entries" _ n f]
    by (auto simp: replay_entries_def apply_reducers_pure implements_def dict_get_def [of "[]"])
  from state [OF assms(1,3,5)] state [OF assms(2,4,6)] show ?thesis by simp
qed

theorem projection_isolation_witness:
  "\<exists>res1 res2. replay_entries sample_registry auto_mode () [] = Inr ((), res1) \<and>
     replay_entries sample_registry2 auto_mode () [] = Inr ((), res2) \<and>
     dict_get (un_projections (rr_understanding res1)) ''count'' [] =
     dict_get (un_projections (rr_understanding res2)) ''count'' []"
proof -
  obtain res1 res2 where res: "replay_entries sample_registry auto_mode () [] = Inr ((), res1)"
      "replay_entries sample_registry2 auto_mode () [] = Inr ((), res2)"
    by (simp add: replay_entries_def compute_boundary_def replay_boundary_def apply_reducers_def
        list_projections_def sample_registry_def sample_registry2_def get_reducer_def)
  with projection_isolation [OF sample_implements _ _ res, of "''count''" count_events] show ?thesis by auto
qed

text \<open>The wrapper for unknown types hides exactly the unknown events.  Reducing events with a
  wrapped reducer leaves the same state and world, or raises the same error, as reducing with the bare
  reducer only the events whose type is known.\<close>

theorem ignore_unknown_types_filter:
  assumes "\<forall>ev \<in> set evs. \<exists>t. map_of ev ''event_type'' = Some (JStr t)"
  shows "rbind (reduce_events (ignore_unknown_types r (Some known)) w st evs) (\<lambda>(w', s, _). Inr (w', s)) =
    rbind (reduce_events r w st
        (filter (\<lambda>ev. \<exists>t \<in> set known. map_of ev ''event_type'' = Some (JStr t)) evs))
      (\<lambda>(w', s, _). Inr (w', s))"
  using assms
proof (induction evs arbitrary: w st)
  case (Cons ev evs)
  from Cons.prems obtain t where t: "map_of ev ''event_type'' = Some (JStr t)" by auto
  show ?case
  proof (cases "t \<in> set known")
    case True
    with t have "ignore_unknown_types r (Some known) w st ev = r w st ev"
      by (auto simp: ignore_unknown_types_def dict_get_def)
    with Cons t True show ?thesis
      by (cases "r w st ev") (auto simp: rbind_assoc split_def)
  next
    case False
    with t have "ignore_unknown_types r (Some known) w st ev =
        Inr \<lparr>call_world = w, call_result = st, call_state = st, call_event = ev\<rparr>"
      by (auto simp: ignore_unknown_types_def dict_get_def)
    with Cons t False show ?thesis by (auto simp: rbind_assoc split_def)
  qed
qed simp

theorem ignore_unknown_types_filter_witness:
  "reduce_events (ignore_unknown_types count_reducer (Some [''a''])) () []
      [[(''event_type'', JStr ''a'')], [(''event_type'', JStr ''b'')]] =
     Inr ((), [(''n'', JInt 1)], [[(''event_type'', JStr ''a'')], [(''event_type'', JStr ''b'')]])"
  using ignore_unknown_types_filter [of "[[(''event_type'', JStr ''a'')], [(''event_type'', JStr ''b'')]]"
      count_reducer "[''a'']" "()" "[]"]
  by (simp add: ignore_unknown_types_def count_reducer_def count_events_def dict_get_def image_iff)

end
