(* ===== verification/SchemaEvents.thy ===== *)
theory SchemaEvents
  imports PyJson
begin

text \<open>
  Events of the event store, \<open>rationalevault/schema/events.py\<close>: the canonical event types, the
  metadata envelope, hydrated event records and governance records.

  UUIDs and wall-clock times are text: the program compares, hashes and prints them only.  A
  governance record is built from a payload without any check of its values, so its fields are JSON
  values.
\<close>

section \<open>Event types\<close>

datatype (plugins only: code size) EventType =
    PROJECT_CREATED | PROJECT_GOAL_SET | PROJECT_FOCUS_CHANGED | TASK_CREATED | TASK_MUTATED |
    TASK_COMPLETED | DECISION_PROPOSED | DECISION_ACCEPTED | DECISION_SUPERSEDED |
    OPEN_QUESTION_RAISED | OPEN_QUESTION_RESOLVED | FACT_RECORDED | RELATIONSHIP_CREATED |
    RELATIONSHIP_SUPERSEDED | REFLECTION_GENERATED | MEMORY_RECORDED | MEMORY_CONSOLIDATED |
    MEMORY_REFERENCED | MEMORY_SUPERSEDED | MEMORY_ARCHIVED | MEMORY_RANKED |
    CONSOLIDATION_CANDIDATE | RETRIEVAL_AUDITED | RETRIEVAL_EXECUTED | QUESTION_LOSS |
    CONTEXT_DRIFT | DECISION_MUTATION | DECISION_CONTRADICTION | KNOWLEDGE_SYNTHESIZED |
    KNOWLEDGE_SUPERSEDED | KNOWLEDGE_CONTRADICTION | KNOWLEDGE_CREATED | KNOWLEDGE_UPDATED |
    KNOWLEDGE_DELETED | TASK_PROGRESS_NOTED | CONTEXT_SNAPSHOT_RECORDED |
    GOVERNANCE_DECISION_RECORDED | GOVERNANCE_RULE_CREATED | GOVERNANCE_RULE_UPDATED |
    GOVERNANCE_RULE_DELETED | SKILL_EXECUTED | KNOWLEDGE_PROMOTION_CANDIDATE |
    KNOWLEDGE_PROMOTION_ASSESSED | KNOWLEDGE_PROMOTION_GATED | KNOWLEDGE_PROMOTION_APPROVED |
    KNOWLEDGE_PROMOTION_REJECTED

primrec event_type_value :: "EventType \<Rightarrow> string" where
  "event_type_value PROJECT_CREATED = ''PROJECT_CREATED''"
| "event_type_value PROJECT_GOAL_SET = ''PROJECT_GOAL_SET''"
| "event_type_value PROJECT_FOCUS_CHANGED = ''PROJECT_FOCUS_CHANGED''"
| "event_type_value TASK_CREATED = ''TASK_CREATED''"
| "event_type_value TASK_MUTATED = ''TASK_MUTATED''"
| "event_type_value TASK_COMPLETED = ''TASK_COMPLETED''"
| "event_type_value DECISION_PROPOSED = ''DECISION_PROPOSED''"
| "event_type_value DECISION_ACCEPTED = ''DECISION_ACCEPTED''"
| "event_type_value DECISION_SUPERSEDED = ''DECISION_SUPERSEDED''"
| "event_type_value OPEN_QUESTION_RAISED = ''OPEN_QUESTION_RAISED''"
| "event_type_value OPEN_QUESTION_RESOLVED = ''OPEN_QUESTION_RESOLVED''"
| "event_type_value FACT_RECORDED = ''FACT_RECORDED''"
| "event_type_value RELATIONSHIP_CREATED = ''RELATIONSHIP_CREATED''"
| "event_type_value RELATIONSHIP_SUPERSEDED = ''RELATIONSHIP_SUPERSEDED''"
| "event_type_value REFLECTION_GENERATED = ''REFLECTION_GENERATED''"
| "event_type_value MEMORY_RECORDED = ''MEMORY_RECORDED''"
| "event_type_value MEMORY_CONSOLIDATED = ''MEMORY_CONSOLIDATED''"
| "event_type_value MEMORY_REFERENCED = ''MEMORY_REFERENCED''"
| "event_type_value MEMORY_SUPERSEDED = ''MEMORY_SUPERSEDED''"
| "event_type_value MEMORY_ARCHIVED = ''MEMORY_ARCHIVED''"
| "event_type_value MEMORY_RANKED = ''MEMORY_RANKED''"
| "event_type_value CONSOLIDATION_CANDIDATE = ''CONSOLIDATION_CANDIDATE''"
| "event_type_value RETRIEVAL_AUDITED = ''RETRIEVAL_AUDITED''"
| "event_type_value RETRIEVAL_EXECUTED = ''RETRIEVAL_EXECUTED''"
| "event_type_value QUESTION_LOSS = ''QUESTION_LOSS''"
| "event_type_value CONTEXT_DRIFT = ''CONTEXT_DRIFT''"
| "event_type_value DECISION_MUTATION = ''DECISION_MUTATION''"
| "event_type_value DECISION_CONTRADICTION = ''DECISION_CONTRADICTION''"
| "event_type_value KNOWLEDGE_SYNTHESIZED = ''KNOWLEDGE_SYNTHESIZED''"
| "event_type_value KNOWLEDGE_SUPERSEDED = ''KNOWLEDGE_SUPERSEDED''"
| "event_type_value KNOWLEDGE_CONTRADICTION = ''KNOWLEDGE_CONTRADICTION''"
| "event_type_value KNOWLEDGE_CREATED = ''KNOWLEDGE_CREATED''"
| "event_type_value KNOWLEDGE_UPDATED = ''KNOWLEDGE_UPDATED''"
| "event_type_value KNOWLEDGE_DELETED = ''KNOWLEDGE_DELETED''"
| "event_type_value TASK_PROGRESS_NOTED = ''TASK_PROGRESS_NOTED''"
| "event_type_value CONTEXT_SNAPSHOT_RECORDED = ''CONTEXT_SNAPSHOT_RECORDED''"
| "event_type_value GOVERNANCE_DECISION_RECORDED = ''GOVERNANCE_DECISION_RECORDED''"
| "event_type_value GOVERNANCE_RULE_CREATED = ''GOVERNANCE_RULE_CREATED''"
| "event_type_value GOVERNANCE_RULE_UPDATED = ''GOVERNANCE_RULE_UPDATED''"
| "event_type_value GOVERNANCE_RULE_DELETED = ''GOVERNANCE_RULE_DELETED''"
| "event_type_value SKILL_EXECUTED = ''SKILL_EXECUTED''"
| "event_type_value KNOWLEDGE_PROMOTION_CANDIDATE = ''KNOWLEDGE_PROMOTION_CANDIDATE''"
| "event_type_value KNOWLEDGE_PROMOTION_ASSESSED = ''KNOWLEDGE_PROMOTION_ASSESSED''"
| "event_type_value KNOWLEDGE_PROMOTION_GATED = ''KNOWLEDGE_PROMOTION_GATED''"
| "event_type_value KNOWLEDGE_PROMOTION_APPROVED = ''KNOWLEDGE_PROMOTION_APPROVED''"
| "event_type_value KNOWLEDGE_PROMOTION_REJECTED = ''KNOWLEDGE_PROMOTION_REJECTED''"

definition event_types :: "EventType list" where
  "event_types = [
     PROJECT_CREATED, PROJECT_GOAL_SET, PROJECT_FOCUS_CHANGED, TASK_CREATED, TASK_MUTATED,
     TASK_COMPLETED, DECISION_PROPOSED, DECISION_ACCEPTED, DECISION_SUPERSEDED,
     OPEN_QUESTION_RAISED, OPEN_QUESTION_RESOLVED, FACT_RECORDED, RELATIONSHIP_CREATED,
     RELATIONSHIP_SUPERSEDED, REFLECTION_GENERATED, MEMORY_RECORDED, MEMORY_CONSOLIDATED,
     MEMORY_REFERENCED, MEMORY_SUPERSEDED, MEMORY_ARCHIVED, MEMORY_RANKED, CONSOLIDATION_CANDIDATE,
     RETRIEVAL_AUDITED, RETRIEVAL_EXECUTED, QUESTION_LOSS, CONTEXT_DRIFT, DECISION_MUTATION,
     DECISION_CONTRADICTION, KNOWLEDGE_SYNTHESIZED, KNOWLEDGE_SUPERSEDED, KNOWLEDGE_CONTRADICTION,
     KNOWLEDGE_CREATED, KNOWLEDGE_UPDATED, KNOWLEDGE_DELETED, TASK_PROGRESS_NOTED,
     CONTEXT_SNAPSHOT_RECORDED, GOVERNANCE_DECISION_RECORDED, GOVERNANCE_RULE_CREATED,
     GOVERNANCE_RULE_UPDATED, GOVERNANCE_RULE_DELETED, SKILL_EXECUTED,
     KNOWLEDGE_PROMOTION_CANDIDATE, KNOWLEDGE_PROMOTION_ASSESSED, KNOWLEDGE_PROMOTION_GATED,
     KNOWLEDGE_PROMOTION_APPROVED, KNOWLEDGE_PROMOTION_REJECTED]"

text \<open>\<open>EventType(v)\<close>: an enum of strings looked up by value.\<close>

definition event_type_of :: "json \<Rightarrow> EventType result" where
  "event_type_of v = (case find (\<lambda>t. JStr (event_type_value t) = v) event_types of
      None \<Rightarrow> Inl (ValueError ''not a valid EventType'') | Some t \<Rightarrow> Inr t)"

section \<open>Records\<close>

record EventMetadata =
  em_actor :: string
  em_source :: string
  em_correlation_id :: string
  em_session_id :: string

definition metadata_to_dict :: "EventMetadata \<Rightarrow> (string, string) dict" where
  "metadata_to_dict m = [(''actor'', em_actor m), (''source'', em_source m),
     (''correlation_id'', em_correlation_id m), (''session_id'', em_session_id m)]"

text \<open>The two fresh UUIDs are arguments: they are drawn before the lookup, used or not.\<close>

definition metadata_from_dict :: "string \<Rightarrow> string \<Rightarrow> (string, string) dict \<Rightarrow> EventMetadata" where
  "metadata_from_dict uuid1 uuid2 d =
     \<lparr>em_actor = dict_get d ''actor'' ''unknown'', em_source = dict_get d ''source'' ''unknown'',
      em_correlation_id = dict_get d ''correlation_id'' uuid1,
      em_session_id = dict_get d ''session_id'' uuid2\<rparr>"

record EventRecord =
  er_event_sequence :: int
  er_id :: string
  er_project_id :: string
  er_stream_id :: string
  er_version :: int
  er_event_type :: EventType
  er_metadata :: EventMetadata
  er_payload :: payload
  er_parent_id :: "string option"
  er_recorded_at :: "string option"
  er_schema_version :: int

datatype GovernanceDomain = POLICY | PROJECTION | SCHEMA

datatype GovernanceAction = ADJUSTED | TOPOLOGY_CHANGED | MIGRATION_APPLIED | DEPRECATED | DISABLED

fun domain_value :: "GovernanceDomain \<Rightarrow> string" where
  "domain_value POLICY = ''POLICY''"
| "domain_value PROJECTION = ''PROJECTION''"
| "domain_value SCHEMA = ''SCHEMA''"

fun action_value :: "GovernanceAction \<Rightarrow> string" where
  "action_value ADJUSTED = ''ADJUSTED''"
| "action_value TOPOLOGY_CHANGED = ''TOPOLOGY_CHANGED''"
| "action_value MIGRATION_APPLIED = ''MIGRATION_APPLIED''"
| "action_value DEPRECATED = ''DEPRECATED''"
| "action_value DISABLED = ''DISABLED''"

definition domain_of :: "json \<Rightarrow> GovernanceDomain result" where
  "domain_of v = (case find (\<lambda>t. JStr (domain_value t) = v) [POLICY, PROJECTION, SCHEMA] of
      None \<Rightarrow> Inl (ValueError ''not a valid GovernanceDomain'') | Some t \<Rightarrow> Inr t)"

definition action_of :: "json \<Rightarrow> GovernanceAction result" where
  "action_of v = (case find (\<lambda>t. JStr (action_value t) = v)
        [ADJUSTED, TOPOLOGY_CHANGED, MIGRATION_APPLIED, DEPRECATED, DISABLED] of
      None \<Rightarrow> Inl (ValueError ''not a valid GovernanceAction'') | Some t \<Rightarrow> Inr t)"

record GovernanceRecord =
  gr_domain :: GovernanceDomain
  gr_action :: GovernanceAction
  gr_target :: json
  gr_previous_version :: json
  gr_new_version :: json
  gr_rationale :: json
  gr_approved_by :: json
  gr_effective_sequence :: json

definition governance_to_dict :: "GovernanceRecord \<Rightarrow> payload" where
  "governance_to_dict r =
     [(''domain'', JStr (domain_value (gr_domain r))), (''action'', JStr (action_value (gr_action r))),
      (''target'', gr_target r), (''previous_version'', gr_previous_version r),
      (''new_version'', gr_new_version r), (''rationale'', gr_rationale r),
      (''approved_by'', gr_approved_by r), (''effective_sequence'', gr_effective_sequence r)]"

definition governance_from_dict :: "payload \<Rightarrow> GovernanceRecord result" where
  "governance_from_dict d =
     rbind (rbind (dict_item d ''domain'') domain_of) (\<lambda>dom.
     rbind (rbind (dict_item d ''action'') action_of) (\<lambda>act.
     rbind (dict_item d ''target'') (\<lambda>tgt.
     Inr \<lparr>gr_domain = dom, gr_action = act, gr_target = tgt,
       gr_previous_version = get_or_none d ''previous_version'', gr_new_version = get_or_none d ''new_version'',
       gr_rationale = get_or d ''rationale'' (JStr []), gr_approved_by = get_or_none d ''approved_by'',
       gr_effective_sequence = get_or d ''effective_sequence'' (JInt 0)\<rparr>)))"

section \<open>Facts\<close>

lemma event_types_all: "t \<in> set event_types"
  by (cases t) (simp_all add: event_types_def)

lemma event_type_values_distinct: "distinct (map event_type_value event_types)"
  by code_simp

lemma find_unique: "x \<in> set xs \<Longrightarrow> distinct (map f xs) \<Longrightarrow> find (\<lambda>y. g (f y) = g (f x)) xs = Some x"
  if "\<And>a b. g a = g b \<Longrightarrow> a = b"
  by (induction xs) (auto dest: that)

lemma event_type_lookup [simp]: "event_type_of (JStr (event_type_value t)) = Inr t"
  using find_unique [where g = JStr, OF _ event_types_all event_type_values_distinct]
  by (simp add: event_type_of_def)

lemma event_type_value_inj [simp]: "event_type_value s = event_type_value t \<longleftrightarrow> s = t"
  by (metis event_type_lookup sum.inject(2))

lemma governance_roundtrip: "governance_from_dict (governance_to_dict r) = Inr r"
  by (cases "gr_domain r"; cases "gr_action r")
    (simp_all add: governance_from_dict_def governance_to_dict_def dict_item_def dict_get_def domain_of_def action_of_def)

end
