(* ===== verification/Schema.thy ===== *)
theory Schema
  imports SchemaEvents
begin

text \<open>
  Schema evolution: policies (\<open>schema/policy.py\<close>), upcasters (\<open>schema/upcaster.py\<close>), the
  resolver (\<open>schema/resolver.py\<close>), the governance projection (\<open>projections/governance.py\<close>), the
  policy factory (\<open>schema/factory.py\<close>), replay contexts (\<open>projections/context.py\<close>), the replay
  pipeline (\<open>projections/pipeline.py\<close>) and the replay service (\<open>projections/service.py\<close>).
\<close>

section \<open>Policies (policy.py)\<close>

record MigrationStep =
  ms_from_version :: int
  ms_to_version :: int

record MigrationPath =
  mp_steps :: "MigrationStep list"

definition path_exists :: "MigrationPath \<Rightarrow> bool" where
  "path_exists p \<longleftrightarrow> length (mp_steps p) > 0"

record EventSchema =
  es_event_type :: EventType
  es_latest_version :: int
  es_migration_path :: MigrationPath

record SchemaPolicy =
  sp_schemas :: "(EventType, EventSchema) dict"

definition policy_latest_version :: "SchemaPolicy \<Rightarrow> EventType \<Rightarrow> int" where
  "policy_latest_version p t =
     (case map_of (sp_schemas p) t of Some s \<Rightarrow> es_latest_version s | None \<Rightarrow> 1)"

definition policy_schema :: "SchemaPolicy \<Rightarrow> EventType \<Rightarrow> EventSchema" where
  "policy_schema p t =
     (case map_of (sp_schemas p) t of
        Some s \<Rightarrow> s
      | None \<Rightarrow> \<lparr>es_event_type = t, es_latest_version = 1, es_migration_path = \<lparr>mp_steps = []\<rparr>\<rparr>)"

definition policy_migration_path :: "SchemaPolicy \<Rightarrow> EventType \<Rightarrow> MigrationPath" where
  "policy_migration_path p t = es_migration_path (policy_schema p t)"

definition policy_is_current :: "SchemaPolicy \<Rightarrow> EventRecord \<Rightarrow> bool" where
  "policy_is_current p e \<longleftrightarrow> er_schema_version e = policy_latest_version p (er_event_type e)"

text \<open>The loop of \<open>can_resolve\<close>: it stops at the target.\<close>

fun walk_to :: "int \<Rightarrow> int \<Rightarrow> MigrationStep list \<Rightarrow> int" where
  "walk_to target current [] = current"
| "walk_to target current (s # ss) =
     (if current = target then current
      else walk_to target (if ms_from_version s = current then ms_to_version s else current) ss)"

definition policy_can_resolve :: "SchemaPolicy \<Rightarrow> EventRecord \<Rightarrow> bool" where
  "policy_can_resolve p e \<longleftrightarrow>
     policy_is_current p e \<or>
     (let path = policy_migration_path p (er_event_type e); target = policy_latest_version p (er_event_type e)
      in path_exists path \<and> walk_to target (er_schema_version e) (mp_steps path) = target)"

definition policy_event_types :: "SchemaPolicy \<Rightarrow> EventType list" where
  "policy_event_types p = map fst (sp_schemas p)"

section \<open>Upcasters (upcaster.py)\<close>

type_synonym Upcaster = "payload \<Rightarrow> payload result"

definition task_created_v1_to_v2 :: Upcaster where
  "task_created_v1_to_v2 p =
     (let title = get_or p ''title'' (JStr []);
          p1 = AList.delete ''title'' p;
          description = get_or p1 ''description'' (JStr []);
          p2 = AList.delete ''description'' p1
      in Inr (AList.update ''details'' (JDict [(''summary'', title), (''body'', description)]) p2))"

definition decision_proposed_v1_to_v2 :: Upcaster where
  "decision_proposed_v1_to_v2 p =
     Inr (dict_setdefault (dict_setdefault p ''context'' (JStr [])) ''category'' (JStr ''general''))"

record UpcasterRegistry =
  ur_upcasters :: "(string \<times> int, Upcaster) dict"

definition upcaster_registry :: "(string, (int, Upcaster) dict) dict \<Rightarrow> UpcasterRegistry" where
  "upcaster_registry ups =
     \<lparr>ur_upcasters = foldl (\<lambda>d (t, vm). foldl (\<lambda>d (v, u). AList.update (t, v) u d) d vm) [] ups\<rparr>"

definition upcaster_default :: UpcasterRegistry where
  "upcaster_default = upcaster_registry
     [(''TASK_CREATED'', [(1, task_created_v1_to_v2)]), (''DECISION_PROPOSED'', [(1, decision_proposed_v1_to_v2)])]"

definition upcaster_register :: "UpcasterRegistry \<Rightarrow> EventType \<Rightarrow> int \<Rightarrow> Upcaster \<Rightarrow> UpcasterRegistry" where
  "upcaster_register r t v u = r\<lparr>ur_upcasters := AList.update (event_type_value t, v) u (ur_upcasters r)\<rparr>"

definition upcaster_is_registered :: "UpcasterRegistry \<Rightarrow> EventType \<Rightarrow> int \<Rightarrow> bool" where
  "upcaster_is_registered r t v \<longleftrightarrow> dict_has (ur_upcasters r) (event_type_value t, v)"

definition get_upcaster :: "UpcasterRegistry \<Rightarrow> EventType \<Rightarrow> int \<Rightarrow> Upcaster option" where
  "get_upcaster r t v = map_of (ur_upcasters r) (event_type_value t, v)"

section \<open>The resolver (resolver.py)\<close>

definition resolver_can_resolve :: "SchemaPolicy \<Rightarrow> int \<Rightarrow> EventType option \<Rightarrow> bool" where
  "resolver_can_resolve p v t = (case t of None \<Rightarrow> True | Some t \<Rightarrow> v \<le> policy_latest_version p t)"

text \<open>The loop of \<open>resolve\<close>: unlike \<open>can_resolve\<close> it does not stop at the target.\<close>

fun resolve_steps :: "UpcasterRegistry \<Rightarrow> EventType \<Rightarrow> payload \<Rightarrow> int \<Rightarrow> MigrationStep list \<Rightarrow>
    (payload \<times> int) result" where
  "resolve_steps r t pl v [] = Inr (pl, v)"
| "resolve_steps r t pl v (s # ss) =
     (if ms_from_version s = v then
        (case get_upcaster r t (ms_from_version s) of
           None \<Rightarrow> Inl (NoUpcasterError (event_type_value t) (ms_from_version s) (ms_to_version s))
         | Some u \<Rightarrow> rbind (u pl) (\<lambda>pl'. resolve_steps r t pl' (ms_to_version s) ss))
      else resolve_steps r t pl v ss)"

definition resolve :: "SchemaPolicy \<Rightarrow> UpcasterRegistry \<Rightarrow> EventRecord \<Rightarrow> EventRecord result" where
  "resolve p r e =
     (if policy_is_current p e then Inr e
      else if \<not> policy_can_resolve p e then
        Inl (UnknownSchemaError (event_type_value (er_event_type e)) (er_schema_version e)
          (policy_latest_version p (er_event_type e)))
      else rbind (resolve_steps r (er_event_type e) (er_payload e) (er_schema_version e)
            (mp_steps (policy_migration_path p (er_event_type e))))
         (\<lambda>(pl, v). Inr (e\<lparr>er_payload := pl, er_schema_version := v\<rparr>)))"

section \<open>Governance (governance.py)\<close>

record PolicyValue =
  pv_value :: json
  pv_effective_sequence :: json

record GovernanceState =
  gs_policies :: "(json, PolicyValue) dict"
  gs_projection_topology :: json
  gs_topology_effective_sequence :: json
  gs_schema_versions :: "(json, int \<times> json) dict"
  gs_disabled_components :: "(json, json) dict"

definition governance_init :: GovernanceState where
  "governance_init = \<lparr>gs_policies = [], gs_projection_topology = JStr ''default'',
     gs_topology_effective_sequence = JInt 0, gs_schema_versions = [], gs_disabled_components = []\<rparr>"

text \<open>\<open>v > n\<close> for an int \<open>n\<close>; a float would need its numeric value and is outside the model.\<close>

fun py_gt_int :: "json \<Rightarrow> int \<Rightarrow> bool result" where
  "py_gt_int (JInt m) n = Inr (n < m)"
| "py_gt_int (JBool b) n = Inr (n < of_bool b)"
| "py_gt_int (JFloat t) n = Inl (Untyped ''int'')"
| "py_gt_int v n = Inl TypeError"

definition get_effective_policy :: "GovernanceState \<Rightarrow> string \<Rightarrow> int option \<Rightarrow> json result" where
  "get_effective_policy g name sq =
     (case map_of (gs_policies g) (JStr name) of
        None \<Rightarrow> Inr JNull
      | Some p \<Rightarrow>
          (case sq of
             None \<Rightarrow> Inr (pv_value p)
           | Some n \<Rightarrow> rbind (py_gt_int (pv_effective_sequence p) n) (\<lambda>later.
               Inr (if later then JNull else pv_value p))))"

definition get_effective_schema_version :: "GovernanceState \<Rightarrow> string \<Rightarrow> int option \<Rightarrow> int result" where
  "get_effective_schema_version g t sq =
     (case map_of (gs_schema_versions g) (JStr t) of
        None \<Rightarrow> Inr 1
      | Some (ver, eff_seq) \<Rightarrow>
          (case sq of
             None \<Rightarrow> Inr ver
           | Some n \<Rightarrow> rbind (py_gt_int eff_seq n) (\<lambda>later. Inr (if later then 1 else ver))))"

definition is_component_disabled :: "GovernanceState \<Rightarrow> string \<Rightarrow> int option \<Rightarrow> bool result" where
  "is_component_disabled g name sq =
     (case map_of (gs_disabled_components g) (JStr name) of
        None \<Rightarrow> Inr False
      | Some eff \<Rightarrow>
          (if eff = JNull then Inr False
           else case sq of None \<Rightarrow> Inr True | Some n \<Rightarrow> rbind (py_gt_int eff n) (\<lambda>later. Inr (\<not> later))))"

text \<open>
  \<open>int(v)\<close>: ints and bools as they are, text by \<open>int_of_text\<close>.
\<close>

fun py_int :: "json \<Rightarrow> int result" where
  "py_int (JInt n) = Inr n"
| "py_int (JBool b) = Inr (of_bool b)"
| "py_int (JStr s) = int_of_text s"
| "py_int (JFloat t) = Inl (Untyped ''int'')"
| "py_int v = Inl TypeError"

text \<open>\<open>d.pop(k, None)\<close>: an empty dict answers before it hashes the key.\<close>

definition dict_pop :: "(json, 'v) dict \<Rightarrow> json \<Rightarrow> (json, 'v) dict result" where
  "dict_pop d k = (if d = [] then Inr d else rbind (hash_key k) (\<lambda>k. Inr (AList.delete k d)))"

text \<open>One iteration of the loop of \<open>GovernanceProjection.project\<close>.\<close>

definition governance_apply :: "GovernanceState \<Rightarrow> GovernanceRecord \<Rightarrow> json \<Rightarrow> GovernanceState result" where
  "governance_apply g rec eff =
     (case gr_domain rec of
        POLICY \<Rightarrow>
          (case gr_action rec of
             ADJUSTED \<Rightarrow> rbind (hash_key (gr_target rec)) (\<lambda>k.
               Inr (g\<lparr>gs_policies := AList.update k
                 \<lparr>pv_value = gr_new_version rec, pv_effective_sequence = eff\<rparr> (gs_policies g)\<rparr>))
           | DISABLED \<Rightarrow> rbind (dict_pop (gs_policies g) (gr_target rec)) (\<lambda>d.
               Inr (g\<lparr>gs_policies := d\<rparr>))
           | _ \<Rightarrow> Inr g)
      | PROJECTION \<Rightarrow>
          (case gr_action rec of
             TOPOLOGY_CHANGED \<Rightarrow>
               Inr (g\<lparr>gs_projection_topology := gr_target rec, gs_topology_effective_sequence := eff\<rparr>)
           | DISABLED \<Rightarrow> rbind (hash_key (gr_target rec)) (\<lambda>k.
               Inr (g\<lparr>gs_disabled_components := AList.update k eff (gs_disabled_components g)\<rparr>))
           | ADJUSTED \<Rightarrow> rbind (dict_pop (gs_disabled_components g) (gr_target rec)) (\<lambda>d.
               Inr (g\<lparr>gs_disabled_components := d\<rparr>))
           | _ \<Rightarrow> Inr g)
      | SCHEMA \<Rightarrow>
          (case gr_action rec of
             MIGRATION_APPLIED \<Rightarrow>
               (if truthy (gr_new_version rec) then
                  rbind (py_int (gr_new_version rec)) (\<lambda>v.
                  rbind (hash_key (gr_target rec)) (\<lambda>k.
                  Inr (g\<lparr>gs_schema_versions := AList.update k (v, eff) (gs_schema_versions g)\<rparr>)))
                else Inr g)
           | _ \<Rightarrow> Inr g))"

definition governance_step :: "GovernanceState \<Rightarrow> EventRecord \<Rightarrow> GovernanceState result" where
  "governance_step g e =
     (if er_event_type e \<noteq> GOVERNANCE_DECISION_RECORDED then Inr g
      else case governance_from_dict (er_payload e) of
        Inl _ \<Rightarrow> Inr g
      | Inr rec \<Rightarrow> governance_apply g rec
          (if truthy (gr_effective_sequence rec) then gr_effective_sequence rec else JInt (er_event_sequence e)))"

definition governance_project :: "EventRecord list \<Rightarrow> GovernanceState result" where
  "governance_project events = rfold governance_step governance_init (sort_key er_event_sequence events)"

section \<open>The policy factory (factory.py)\<close>

definition factory_add :: "(EventType, EventSchema) dict \<Rightarrow> json \<Rightarrow> int \<Rightarrow> (EventType, EventSchema) dict" where
  "factory_add d k version =
     (case event_type_of k of
        Inl _ \<Rightarrow> d
      | Inr t \<Rightarrow> AList.update t \<lparr>es_event_type = t, es_latest_version = version,
          es_migration_path = \<lparr>mp_steps = []\<rparr>\<rparr> d)"

definition factory_compile :: "GovernanceState \<Rightarrow> SchemaPolicy" where
  "factory_compile g =
     \<lparr>sp_schemas = foldl (\<lambda>d (k, version, _). factory_add d k version) [] (gs_schema_versions g)\<rparr>"

definition compile_at_sequence :: "GovernanceState \<Rightarrow> int \<Rightarrow> SchemaPolicy result" where
  "compile_at_sequence g sq =
     rbind (rfold (\<lambda>d (k, version, eff). rbind (py_gt_int eff sq) (\<lambda>later.
         Inr (if later then d else factory_add d k version))) [] (gs_schema_versions g))
       (\<lambda>d. Inr \<lparr>sp_schemas = d\<rparr>)"

section \<open>Replay contexts (context.py)\<close>

datatype ReplayMode = CURRENT | HISTORICAL | INTERPRETIVE | COUNTERFACTUAL

record ReplayContext =
  rc_max_sequence :: "int option"
  rc_schema_policy :: SchemaPolicy

definition default_context :: ReplayContext where
  "default_context = \<lparr>rc_max_sequence = None, rc_schema_policy = \<lparr>sp_schemas = []\<rparr>\<rparr>"

record ReplayRequest =
  rq_mode :: ReplayMode
  rq_sequence :: "int option"

record InterpretiveContext =
  ic_governance :: GovernanceState
  ic_replay_mode :: ReplayMode
  ic_sequence :: "int option"
  ic_replay_context :: ReplayContext

definition build_context :: "GovernanceState \<Rightarrow> ReplayRequest \<Rightarrow> InterpretiveContext result" where
  "build_context g rq =
     (if rq_mode rq = COUNTERFACTUAL then Inl NotImplementedError
      else
        let max_seq = (if rq_mode rq = CURRENT then None else rq_sequence rq)
        in Inr \<lparr>ic_governance = g, ic_replay_mode = rq_mode rq, ic_sequence = max_seq,
             ic_replay_context = \<lparr>rc_max_sequence = max_seq, rc_schema_policy = factory_compile g\<rparr>\<rparr>)"

section \<open>The replay pipeline and service (pipeline.py, service.py)\<close>

fun process_events :: "ReplayContext \<Rightarrow> UpcasterRegistry \<Rightarrow> EventRecord list \<Rightarrow> EventRecord list result" where
  "process_events ctx r [] = Inr []"
| "process_events ctx r (e # es) =
     (if (case rc_max_sequence ctx of None \<Rightarrow> False | Some m \<Rightarrow> m < er_event_sequence e) then Inr []
      else rbind (resolve (rc_schema_policy ctx) r e) (\<lambda>e'.
           rbind (process_events ctx r es) (\<lambda>es'. Inr (e' # es'))))"

record ReplayPipeline =
  pp_context :: ReplayContext
  pp_registry :: UpcasterRegistry

definition pipeline_init :: "ReplayContext option \<Rightarrow> UpcasterRegistry option \<Rightarrow> ReplayPipeline" where
  "pipeline_init ctx r =
     \<lparr>pp_context = (case ctx of None \<Rightarrow> default_context | Some c \<Rightarrow> c),
      pp_registry = (case r of None \<Rightarrow> upcaster_default | Some r \<Rightarrow> r)\<rparr>"

definition pipeline_process :: "ReplayPipeline \<Rightarrow> EventRecord list \<Rightarrow> EventRecord list result" where
  "pipeline_process pp events = process_events (pp_context pp) (pp_registry pp) events"

definition pipeline_run :: "ReplayPipeline \<Rightarrow> (EventRecord list \<Rightarrow> 'a result) \<Rightarrow> EventRecord list option \<Rightarrow> 'a result" where
  "pipeline_run pp reducer events =
     rbind (process_events (pp_context pp) (pp_registry pp) (case events of None \<Rightarrow> [] | Some es \<Rightarrow> es)) reducer"

text \<open>\<open>get_project_stream\<close> is the method of the store the service was built with.\<close>

definition load_project_events :: "(string \<Rightarrow> EventRecord list result) \<Rightarrow> UpcasterRegistry option \<Rightarrow> string \<Rightarrow>
    (ReplayContext + InterpretiveContext) option \<Rightarrow> EventRecord list result" where
  "load_project_events get_project_stream r project_id ctx =
     (let replay_ctx = (case ctx of
            None \<Rightarrow> None | Some (Inl c) \<Rightarrow> Some c | Some (Inr c) \<Rightarrow> Some (ic_replay_context c));
          pp = pipeline_init replay_ctx r
      in rbind (get_project_stream project_id) (pipeline_process pp))"

section \<open>The governance projection\<close>

lemma governance_project_snoc:
  "(\<And>y. y \<in> set es \<Longrightarrow> er_event_sequence y \<le> er_event_sequence e) \<Longrightarrow>
     governance_project (es @ [e]) = rbind (governance_project es) (\<lambda>g. governance_step g e)"
  by (simp add: governance_project_def sort_key_snoc rfold_append)

lemma governance_step_wf:
  assumes "governance_step g e = Inr g'" "wf_dict (gs_schema_versions g)"
  shows "wf_dict (gs_schema_versions g')"
  using assms
  by (auto simp: governance_step_def governance_apply_def
      split: if_splits sum.splits GovernanceDomain.splits GovernanceAction.splits)

lemma governance_project_wf: "governance_project es = Inr g \<Longrightarrow> wf_dict (gs_schema_versions g)"
  unfolding governance_project_def
  by (rule rfold_invariant [where P = "\<lambda>g. wf_dict (gs_schema_versions g)"])
    (auto simp: governance_init_def wf_dict_def [of "[]"] intro: governance_step_wf)

section \<open>Compiled policies\<close>

lemma map_of_factory_add:
  "map_of (factory_add d k v) t =
     (if k = JStr (event_type_value t)
      then Some \<lparr>es_event_type = t, es_latest_version = v, es_migration_path = \<lparr>mp_steps = []\<rparr>\<rparr>
      else map_of d t)"
proof (cases "event_type_of k")
  case (Inl x)
  then have "k \<noteq> JStr (event_type_value t)" by auto
  with Inl show ?thesis by (simp add: factory_add_def)
next
  case (Inr u)
  then have "k = JStr (event_type_value u)"
    by (auto simp: event_type_of_def find_Some_iff split: option.splits)
  with Inr show ?thesis by (auto simp: factory_add_def)
qed

lemma map_of_factory_fold:
  "map_of (foldl (\<lambda>d (k, version, _). factory_add d k version) d vs) t =
     (case map_of (rev vs) (JStr (event_type_value t)) of
        Some (v, _) \<Rightarrow> Some \<lparr>es_event_type = t, es_latest_version = v, es_migration_path = \<lparr>mp_steps = []\<rparr>\<rparr>
      | None \<Rightarrow> map_of d t)"
  by (induction vs arbitrary: d) (auto simp: map_of_factory_add map_add_def split: option.splits)

lemma factory_compile_no_steps: "mp_steps (policy_migration_path (factory_compile g) t) = []"
  by (auto simp: policy_migration_path_def policy_schema_def factory_compile_def map_of_factory_fold
      split: option.splits)

lemma factory_compile_resolve:
  "resolve (factory_compile g) r e =
     (if policy_is_current (factory_compile g) e then Inr e
      else Inl (UnknownSchemaError (event_type_value (er_event_type e)) (er_schema_version e)
        (policy_latest_version (factory_compile g) (er_event_type e))))"
  by (simp add: resolve_def policy_can_resolve_def path_exists_def factory_compile_no_steps)

lemma map_of_rev_wf: "wf_dict vs \<Longrightarrow> map_of (rev vs) = map_of vs"
  by (rule map_of_inject_set [THEN iffD2]) (simp_all add: wf_dict_def rev_map [symmetric])

lemma policy_latest_version_fold:
  "wf_dict vs \<Longrightarrow>
     policy_latest_version \<lparr>sp_schemas = foldl (\<lambda>d (k, version, _). factory_add d k version) [] vs\<rparr> t =
       (case map_of vs (JStr (event_type_value t)) of Some (v, _) \<Rightarrow> v | None \<Rightarrow> 1)"
  by (auto simp: policy_latest_version_def map_of_factory_fold map_of_rev_wf split: option.splits)

text \<open>Compiling at a sequence number is compiling the entries in force at it.\<close>

lemma compile_loop:
  assumes "rfold (\<lambda>d (k, version, eff). rbind (py_gt_int eff sq) (\<lambda>later.
      Inr (if later then d else factory_add d k version))) d vs = Inr d'"
  shows "d' = foldl (\<lambda>d (k, version, _). factory_add d k version) d
      (filter (\<lambda>(_, _, eff). py_gt_int eff sq = Inr False) vs) \<and>
    (\<forall>(_, _, eff) \<in> set vs. \<exists>b. py_gt_int eff sq = Inr b)"
  using assms
proof (induction vs arbitrary: d)
  case (Cons x vs)
  obtain k v eff where x: "x = (k, v, eff)" by (cases x)
  from Cons.prems x obtain b where b: "py_gt_int eff sq = Inr b" by auto
  with Cons.IH Cons.prems x show ?case by (cases b) auto
qed simp

lemma map_of_filter_values:
  "wf_dict vs \<Longrightarrow> map_of (filter (\<lambda>(k, x). P x) vs) k =
     (case map_of vs k of Some x \<Rightarrow> if P x then Some x else None | None \<Rightarrow> None)"
  by (induction vs) (force simp: wf_dict_def split: option.splits dest: map_of_SomeD)+

section \<open>Resolution\<close>

lemma walk_to_target: "walk_to n n ss = n"
  by (cases ss) simp_all

lemma resolve_steps_version:
  assumes "\<forall>s \<in> set ss. ms_from_version s \<noteq> target"
    and "\<forall>s \<in> set ss. \<exists>u. get_upcaster r t (ms_from_version s) = Some u \<and> (\<forall>pl. \<exists>pl'. u pl = Inr pl')"
  shows "\<exists>pl'. resolve_steps r t pl v ss = Inr (pl', walk_to target v ss)"
  using assms
proof (induction ss arbitrary: pl v)
  case (Cons s ss)
  show ?case
  proof (cases "ms_from_version s = v")
    case True
    from Cons.prems(2) obtain u where u: "get_upcaster r t (ms_from_version s) = Some u"
      "\<forall>pl. \<exists>pl'. u pl = Inr pl'" by auto
    from u(2) obtain pl1 where "u pl = Inr pl1" by blast
    moreover obtain pl2 where "resolve_steps r t pl1 (ms_to_version s) ss = Inr (pl2, walk_to target (ms_to_version s) ss)"
      using Cons.IH [of pl1 "ms_to_version s"] Cons.prems by auto
    ultimately show ?thesis using True u(1) Cons.prems(1) by auto
  next
    case False
    obtain pl2 where "resolve_steps r t pl v ss = Inr (pl2, walk_to target v ss)"
      using Cons.IH [of pl v] Cons.prems by auto
    with False show ?thesis by (auto simp: walk_to_target)
  qed
qed simp

section \<open>Properties\<close>

definition sample_event :: "int \<Rightarrow> EventType \<Rightarrow> payload \<Rightarrow> EventRecord" where
  "sample_event n t pl = \<lparr>er_event_sequence = n, er_id = ''e'', er_project_id = ''p'', er_stream_id = ''main'',
     er_version = n, er_event_type = t,
     er_metadata = \<lparr>em_actor = ''me'', em_source = ''cli'', em_correlation_id = ''c'', em_session_id = ''s''\<rparr>,
     er_payload = pl, er_parent_id = None, er_recorded_at = None, er_schema_version = 1\<rparr>"

definition sample_record :: "GovernanceDomain \<Rightarrow> GovernanceAction \<Rightarrow> string \<Rightarrow> json \<Rightarrow> GovernanceRecord" where
  "sample_record d act tgt v = \<lparr>gr_domain = d, gr_action = act, gr_target = JStr tgt, gr_previous_version = JNull,
     gr_new_version = v, gr_rationale = JStr [], gr_approved_by = JNull, gr_effective_sequence = JInt 0\<rparr>"

text \<open>The governance projection does not depend on the order in which events arrive.  Events
  with distinct sequence numbers give the same governance state, or the same error, in any order.\<close>

theorem governance_order_invariant:
  assumes "mset es = mset fs" "distinct (map er_event_sequence es)"
  shows "governance_project es = governance_project fs"
proof -
  have "sort_key er_event_sequence es = sort_key er_event_sequence fs"
    using assms by (intro sort_key_unique_perm) (simp_all add: distinct_map)
  then show ?thesis by (simp add: governance_project_def)
qed

theorem governance_order_invariant_witness:
  "governance_project [sample_event 2 TASK_CREATED [], sample_event 1 GOVERNANCE_DECISION_RECORDED []] =
   governance_project [sample_event 1 GOVERNANCE_DECISION_RECORDED [], sample_event 2 TASK_CREATED []]"
  by (rule governance_order_invariant) (simp_all add: sample_event_def)

text \<open>The latest policy adjustment wins.  If the last governance event adjusts a policy, the
  projection succeeds, the policy has the new value, and every other policy is as it was.\<close>

theorem governance_latest_wins:
  assumes "governance_project es = Inr g"
    and "\<forall>y \<in> set es. er_event_sequence y \<le> er_event_sequence e"
    and "er_event_type e = GOVERNANCE_DECISION_RECORDED" "er_payload e = governance_to_dict rec"
    and "gr_domain rec = POLICY" "gr_action rec = ADJUSTED" "gr_target rec = JStr name"
  shows "\<exists>g'. governance_project (es @ [e]) = Inr g' \<and>
    (\<forall>n. get_effective_policy g' n None =
       (if n = name then Inr (gr_new_version rec) else get_effective_policy g n None))"
proof -
  have "governance_project (es @ [e]) = governance_step g e"
    using governance_project_snoc [of es e] assms(1,2) by simp
  then show ?thesis
    using assms(3-7)
    by (simp add: governance_step_def governance_roundtrip governance_apply_def get_effective_policy_def)
qed

theorem governance_latest_wins_witness:
  "\<exists>g'. governance_project ([] @ [sample_event 1 GOVERNANCE_DECISION_RECORDED
       (governance_to_dict (sample_record POLICY ADJUSTED ''limit'' (JInt 5)))]) = Inr g' \<and>
     get_effective_policy g' ''limit'' None = Inr (JInt 5)"
  using governance_latest_wins [of "[]" governance_init "sample_event 1 GOVERNANCE_DECISION_RECORDED
       (governance_to_dict (sample_record POLICY ADJUSTED ''limit'' (JInt 5)))"
       "sample_record POLICY ADJUSTED ''limit'' (JInt 5)" "''limit''"]
  by (auto simp: governance_project_def sample_event_def sample_record_def)

text \<open>Compiled policies agree with governance.  For the state of any event stream, the policy
  the factory compiles, now or as of a sequence number, gives every event type the schema version that the
  governance state itself reports, now or at that number.\<close>

theorem compiled_policy_versions:
  assumes "governance_project es = Inr g" "compile_at_sequence g sq = Inr p"
  shows "get_effective_schema_version g (event_type_value t) None = Inr (policy_latest_version (factory_compile g) t) \<and>
    get_effective_schema_version g (event_type_value t) (Some sq) = Inr (policy_latest_version p t)"
proof
  have wf: "wf_dict (gs_schema_versions g)" by (rule governance_project_wf [OF assms(1)])
  then show "get_effective_schema_version g (event_type_value t) None =
      Inr (policy_latest_version (factory_compile g) t)"
    by (auto simp: get_effective_schema_version_def factory_compile_def policy_latest_version_fold
        split: option.splits)
  let ?P = "\<lambda>(v, eff). py_gt_int eff sq = Inr False"
  from assms(2) obtain d where d: "p = \<lparr>sp_schemas = d\<rparr>"
    "d = foldl (\<lambda>d (k, version, _). factory_add d k version) [] (filter (\<lambda>(k, x). ?P x) (gs_schema_versions g))"
    "\<forall>(_, _, eff) \<in> set (gs_schema_versions g). \<exists>b. py_gt_int eff sq = Inr b"
    by (auto simp: compile_at_sequence_def dest!: compile_loop)
  have "wf_dict (filter (\<lambda>(k, x). ?P x) (gs_schema_versions g))"
    using wf by (simp add: wf_dict_def distinct_map_filter)
  note latest = policy_latest_version_fold [OF this, folded d(2), folded d(1), of t, unfolded map_of_filter_values [OF wf]]
  show "get_effective_schema_version g (event_type_value t) (Some sq) = Inr (policy_latest_version p t)"
  proof (cases "map_of (gs_schema_versions g) (JStr (event_type_value t))")
    case None
    with latest show ?thesis by (simp add: get_effective_schema_version_def)
  next
    case (Some x)
    obtain v eff where x: "x = (v, eff)" by (cases x)
    with d(3) map_of_SomeD [OF Some] obtain b where "py_gt_int eff sq = Inr b" by auto
    with Some x latest show ?thesis by (cases b) (simp_all add: get_effective_schema_version_def)
  qed
qed

theorem compiled_policy_versions_witness:
  "\<exists>g p. governance_project [sample_event 4 GOVERNANCE_DECISION_RECORDED
        (governance_to_dict (sample_record SCHEMA MIGRATION_APPLIED ''TASK_CREATED'' (JStr ''2'')))] = Inr g \<and>
      compile_at_sequence g 3 = Inr p \<and>
      get_effective_schema_version g ''TASK_CREATED'' (Some 3) = Inr (policy_latest_version p TASK_CREATED)"
proof -
  let ?e = "sample_event 4 GOVERNANCE_DECISION_RECORDED
        (governance_to_dict (sample_record SCHEMA MIGRATION_APPLIED ''TASK_CREATED'' (JStr ''2'')))"
  let ?g = "governance_init\<lparr>gs_schema_versions := [(JStr ''TASK_CREATED'', (2, JInt 4))]\<rparr>"
  have g: "governance_project [?e] = Inr ?g" by code_simp
  moreover have p: "compile_at_sequence ?g 3 = Inr \<lparr>sp_schemas = []\<rparr>" by code_simp
  ultimately show ?thesis
    using compiled_policy_versions [OF g p, of TASK_CREATED] by auto
qed

text \<open>Property C28: a replay under governance never migrates.  A pipeline built from a governance state keeps
  the events up to the sequence bound exactly as they are if all of them are at the version in force, and
  otherwise raises on the first one that is not, even where an upcaster is registered for it: compiled
  policies hold no migration path.\<close>

theorem governed_replay:
  assumes "build_context g rq = Inr ic"
  shows "pipeline_process (pipeline_init (Some (ic_replay_context ic)) r) es =
    (let ws = takeWhile (\<lambda>e. case ic_sequence ic of None \<Rightarrow> True | Some m \<Rightarrow> er_event_sequence e \<le> m) es
     in case find (\<lambda>e. er_schema_version e \<noteq> policy_latest_version (factory_compile g) (er_event_type e)) ws of
          None \<Rightarrow> Inr ws
        | Some e \<Rightarrow> Inl (UnknownSchemaError (event_type_value (er_event_type e)) (er_schema_version e)
            (policy_latest_version (factory_compile g) (er_event_type e))))"
proof -
  have ic: "ic_replay_context ic = \<lparr>rc_max_sequence = ic_sequence ic, rc_schema_policy = factory_compile g\<rparr>"
    using assms by (auto simp: build_context_def Let_def split: if_splits)
  show ?thesis
    unfolding pipeline_process_def pipeline_init_def ic
    by (induction es)
      (auto simp: factory_compile_resolve policy_is_current_def not_less split: option.splits)
qed

theorem governed_replay_witness:
  "\<exists>ic. build_context governance_init \<lparr>rq_mode = HISTORICAL, rq_sequence = Some 1\<rparr> = Inr ic \<and>
     pipeline_process (pipeline_init (Some (ic_replay_context ic)) None)
       [sample_event 1 TASK_CREATED [], sample_event 2 TASK_CREATED []] = Inr [sample_event 1 TASK_CREATED []]"
proof -
  obtain ic where ic: "build_context governance_init \<lparr>rq_mode = HISTORICAL, rq_sequence = Some 1\<rparr> = Inr ic"
    "ic_sequence ic = Some 1" by (simp add: build_context_def Let_def)
  then show ?thesis
    using governed_replay [OF ic(1), of None "[sample_event 1 TASK_CREATED [], sample_event 2 TASK_CREATED []]"]
    by (auto simp: sample_event_def policy_latest_version_def factory_compile_def governance_init_def)
qed

text \<open>Resolution reaches the canonical version.  If the policy says an event can be resolved, no
  migration step starts at the canonical version, and every step has an upcaster that does not raise, then
  resolving succeeds and gives the event at the canonical version with only its payload changed.\<close>

theorem resolve_reaches_canonical:
  assumes "policy_can_resolve p e"
    and "\<forall>s \<in> set (mp_steps (policy_migration_path p (er_event_type e))).
      ms_from_version s \<noteq> policy_latest_version p (er_event_type e) \<and>
      (\<exists>u. get_upcaster r (er_event_type e) (ms_from_version s) = Some u \<and> (\<forall>pl. \<exists>pl'. u pl = Inr pl'))"
  shows "\<exists>pl. resolve p r e =
    Inr (e\<lparr>er_payload := pl, er_schema_version := policy_latest_version p (er_event_type e)\<rparr>)"
proof (cases "policy_is_current p e")
  case True
  then show ?thesis by (intro exI [of _ "er_payload e"]) (simp add: resolve_def policy_is_current_def)
next
  case False
  with assms(1) have walk: "walk_to (policy_latest_version p (er_event_type e)) (er_schema_version e)
      (mp_steps (policy_migration_path p (er_event_type e))) = policy_latest_version p (er_event_type e)"
    by (simp add: policy_can_resolve_def Let_def)
  obtain pl where "resolve_steps r (er_event_type e) (er_payload e) (er_schema_version e)
      (mp_steps (policy_migration_path p (er_event_type e))) = Inr (pl, policy_latest_version p (er_event_type e))"
    using resolve_steps_version [of "mp_steps (policy_migration_path p (er_event_type e))"
        "policy_latest_version p (er_event_type e)" r "er_event_type e"] assms(2) walk by metis
  with False assms(1) show ?thesis by (auto simp: resolve_def)
qed

definition sample_policy :: "int \<Rightarrow> MigrationStep list \<Rightarrow> SchemaPolicy" where
  "sample_policy v ss = \<lparr>sp_schemas = [(TASK_CREATED,
     \<lparr>es_event_type = TASK_CREATED, es_latest_version = v, es_migration_path = \<lparr>mp_steps = ss\<rparr>\<rparr>)]\<rparr>"

theorem resolve_reaches_canonical_witness:
  "\<exists>pl. resolve (sample_policy 2 [\<lparr>ms_from_version = 1, ms_to_version = 2\<rparr>]) upcaster_default
      (sample_event 1 TASK_CREATED [(''title'', JStr ''t'')]) =
    Inr ((sample_event 1 TASK_CREATED [])\<lparr>er_payload := pl, er_schema_version := 2\<rparr>)"
  using resolve_reaches_canonical [of "sample_policy 2 [\<lparr>ms_from_version = 1, ms_to_version = 2\<rparr>]"
      "sample_event 1 TASK_CREATED [(''title'', JStr ''t'')]" upcaster_default]
  by (simp add: sample_policy_def sample_event_def policy_can_resolve_def path_exists_def policy_latest_version_def
      policy_migration_path_def policy_schema_def get_upcaster_def upcaster_default_def upcaster_registry_def
      task_created_v1_to_v2_def Let_def policy_is_current_def)

text \<open>
  Without the condition on the steps it may overshoot: a policy that knows a later step than its
  canonical version takes the event past the canonical version.
\<close>

lemma resolve_overshoots:
  "\<exists>p r e e'. policy_can_resolve p e \<and> resolve p r e = Inr e' \<and>
     er_schema_version e' \<noteq> policy_latest_version p (er_event_type e')"
proof -
  let ?p = "sample_policy 2 [\<lparr>ms_from_version = 1, ms_to_version = 2\<rparr>, \<lparr>ms_from_version = 2, ms_to_version = 3\<rparr>]"
  let ?r = "upcaster_registry [(''TASK_CREATED'', [(1, Inr), (2, Inr)])]"
  have "policy_can_resolve ?p (sample_event 1 TASK_CREATED [])"
    "resolve ?p ?r (sample_event 1 TASK_CREATED []) = Inr ((sample_event 1 TASK_CREATED [])\<lparr>er_schema_version := 3\<rparr>)"
    "policy_latest_version ?p TASK_CREATED = 2"
    by (simp_all add: sample_policy_def sample_event_def policy_can_resolve_def path_exists_def
        policy_latest_version_def policy_migration_path_def policy_schema_def get_upcaster_def
        upcaster_registry_def resolve_def Let_def policy_is_current_def)
  then show ?thesis by (intro exI [of _ ?p] exI [of _ ?r]) (auto simp: sample_event_def)
qed

end
