(* ===== verification/ProjectionGraph.thy ===== *)
theory ProjectionGraph
  imports Canonical "HOL-Library.Product_Lexorder"
begin

text \<open>
  The projection graph, \<open>rationalevault/projections\<close>: kinds and versions (\<open>base.py\<close>), the registry
  with its validation and build order (\<open>registry.py\<close>), the cache (\<open>cache.py\<close>), composite
  fingerprints (\<open>fingerprint.py\<close>) and the rebuild planner (\<open>planner.py\<close>).

  A projection class is an object with identity: it is named by an identifier, and a function gives the
  class attributes of every identifier.  The set of registered classes is a list without duplicates in
  the order Python iterates it, which is arbitrary.
\<close>

section \<open>Projection classes (base.py)\<close>

datatype ProjectionKind = BASE | DERIVED | COMPOSITE

record SemVer =
  sv_major :: int
  sv_minor :: int
  sv_patch :: int

definition semver_str :: "SemVer \<Rightarrow> string" where
  "semver_str v = show_int (sv_major v) @ ''.'' @ show_int (sv_minor v) @ ''.'' @ show_int (sv_patch v)"

type_synonym cls_id = string

record ProjectionClass =
  pc_projection_name :: string
  pc_version :: SemVer
  pc_projection_kind :: ProjectionKind
  pc_dependencies :: "cls_id list"
  pc_build_priority :: int

type_synonym classes = "cls_id \<Rightarrow> ProjectionClass"

section \<open>The registry (registry.py)\<close>

record ProjectionRegistry =
  pr_projections :: "(string, cls_id) dict"
  pr_classes :: "cls_id list"

definition registry_init :: ProjectionRegistry where
  "registry_init = \<lparr>pr_projections = [], pr_classes = []\<rparr>"

definition register_projection :: "classes \<Rightarrow> ProjectionRegistry \<Rightarrow> cls_id \<Rightarrow> ProjectionRegistry result" where
  "register_projection cl R c =
     (let name = pc_projection_name (cl c) in
      if name = [] then Inl (ValueError ''Projection must declare a non-empty projection_name'')
      else if c \<in> set (pr_classes R) then Inl (DuplicateProjectionError c)
      else if dict_has (pr_projections R) name then Inl (DuplicateProjectionError name)
      else Inr \<lparr>pr_projections = AList.update name c (pr_projections R), pr_classes = pr_classes R @ [c]\<rparr>)"

definition get_projection_by_name :: "ProjectionRegistry \<Rightarrow> string \<Rightarrow> cls_id result" where
  "get_projection_by_name R n = dict_item (pr_projections R) n"

definition get_projection_by_class :: "ProjectionRegistry \<Rightarrow> cls_id \<Rightarrow> cls_id result" where
  "get_projection_by_class R c = (if c \<in> set (pr_classes R) then Inr c else Inl (KeyError c))"

definition validate_names_and_classes :: "classes \<Rightarrow> ProjectionRegistry \<Rightarrow> unit result" where
  "validate_names_and_classes cl R =
     (let names = map (\<lambda>c. pc_projection_name (cl c)) (pr_classes R) in
      if length names \<noteq> length (remdups names) then Inl (DuplicateProjectionError []) else Inr ())"

definition validate_dependencies :: "classes \<Rightarrow> ProjectionRegistry \<Rightarrow> unit result" where
  "validate_dependencies cl R =
     rfold (\<lambda>_ c. rfold (\<lambda>_ d. if d \<in> set (pr_classes R) then Inr ()
         else Inl (MissingDependencyError c d)) () (pc_dependencies (cl c))) () (pr_classes R)"

definition validate_kinds :: "classes \<Rightarrow> ProjectionRegistry \<Rightarrow> unit result" where
  "validate_kinds cl R =
     rfold (\<lambda>_ c. case pc_projection_kind (cl c) of
        BASE \<Rightarrow> if pc_dependencies (cl c) \<noteq> [] then Inl (InvalidDependencyKindError c) else Inr ()
      | DERIVED \<Rightarrow> rfold (\<lambda>_ d. if pc_projection_kind (cl d) = COMPOSITE
          then Inl (InvalidDependencyKindError c) else Inr ()) () (pc_dependencies (cl c))
      | COMPOSITE \<Rightarrow> Inr ()) () (pr_classes R)"

text \<open>
  The loop over the stack, its top first; 0 is unvisited, 1 visiting, 2 visited.  It ends because
  every step either visits an unvisited class or consumes the stack.
\<close>

definition unvisited :: "(cls_id, nat) dict \<Rightarrow> nat" where
  "unvisited vis = length (filter (\<lambda>(_, v). v = 0) vis)"

lemma unvisited_update_le: "v \<noteq> 0 \<Longrightarrow> unvisited (AList.update k v d) \<le> unvisited d"
  by (induction d) (auto simp: unvisited_def)

lemma unvisited_update_less: "v \<noteq> 0 \<Longrightarrow> map_of d k = Some 0 \<Longrightarrow> unvisited (AList.update k v d) < unvisited d"
  by (induction d) (auto simp: unvisited_def)

function cycle_loop :: "classes \<Rightarrow> (cls_id, nat) dict \<Rightarrow> (cls_id \<times> cls_id list) list \<Rightarrow>
    (cls_id, nat) dict result" where
  "cycle_loop cl vis [] = Inr vis"
| "cycle_loop cl vis ((cur, []) # stack) = cycle_loop cl (AList.update cur 2 vis) stack"
| "cycle_loop cl vis ((cur, c # cs) # stack) =
     (let next_child = last (c # cs); children = butlast (c # cs) in
      case map_of vis next_child of
        None \<Rightarrow> Inl (KeyError next_child)
      | Some v \<Rightarrow>
          if v = 1 then Inl (CircularDependencyError cur next_child)
          else if v = 0 then cycle_loop cl (AList.update next_child 1 vis)
            ((next_child, pc_dependencies (cl next_child)) # (cur, children) # stack)
          else cycle_loop cl vis ((cur, children) # stack))"
  by pat_completeness auto
termination
  by (relation "measures [\<lambda>(_, vis, _). unvisited vis, \<lambda>(_, _, st). \<Sum>(_, ch) \<leftarrow> st. Suc (length ch)]")
    (auto simp: unvisited_update_less le_imp_less_or_eq unvisited_update_le)

definition validate_cycles :: "classes \<Rightarrow> ProjectionRegistry \<Rightarrow> unit result" where
  "validate_cycles cl R =
     rbind (rfold (\<lambda>vis root. case map_of vis root of
          None \<Rightarrow> Inl (KeyError root)
        | Some v \<Rightarrow> if v \<noteq> 0 then Inr vis
            else cycle_loop cl (AList.update root 1 vis) [(root, pc_dependencies (cl root))])
       (map (\<lambda>c. (c, 0)) (pr_classes R)) (pr_classes R)) (\<lambda>_. Inr ())"

definition validate :: "classes \<Rightarrow> ProjectionRegistry \<Rightarrow> unit result" where
  "validate cl R =
     rbind (validate_names_and_classes cl R) (\<lambda>_.
     rbind (validate_dependencies cl R) (\<lambda>_.
     rbind (validate_kinds cl R) (\<lambda>_.
     validate_cycles cl R)))"

subsection \<open>The build order\<close>

definition adjacency :: "classes \<Rightarrow> cls_id list \<Rightarrow> (cls_id, cls_id list) dict result" where
  "adjacency cl cs =
     rfold (\<lambda>adj c. rfold (\<lambda>adj d. case map_of adj d of
          None \<Rightarrow> Inl (KeyError d)
        | Some l \<Rightarrow> Inr (AList.update d (l @ [c]) adj)) adj (pc_dependencies (cl c)))
       (map (\<lambda>c. (c, [])) cs) cs"

text \<open>The inner loop: decrement the in-degrees of the children, append those that become ready.\<close>

fun relax :: "(cls_id, int) dict \<Rightarrow> cls_id list \<Rightarrow> cls_id list \<Rightarrow> ((cls_id, int) dict \<times> cls_id list) result" where
  "relax deg ready [] = Inr (deg, ready)"
| "relax deg ready (c # cs) =
     (case map_of deg c of
        None \<Rightarrow> Inl (KeyError c)
      | Some n \<Rightarrow> relax (AList.update c (n - 1) deg) (if n - 1 = 0 then ready @ [c] else ready) cs)"

definition order_key :: "classes \<Rightarrow> cls_id \<Rightarrow> int \<times> string" where
  "order_key cl c = (pc_build_priority (cl c), pc_projection_name (cl c))"

definition pending :: "(cls_id, int) dict \<Rightarrow> nat" where
  "pending deg = length (filter (\<lambda>(_, n). 0 < n) deg)"

lemma pending_update:
  "map_of d k = Some n \<Longrightarrow>
     pending (AList.update k (n - 1) d) = (if n = 1 then pending d - 1 else pending d) \<and> (n = 1 \<longrightarrow> 0 < pending d)"
  by (induction d) (auto simp: pending_def)

lemma relax_measure:
  "relax deg ready cs = Inr (deg', ready') \<Longrightarrow> pending deg' + length ready' \<le> pending deg + length ready"
proof (induction deg ready cs rule: relax.induct)
  case (2 deg ready c cs)
  then obtain n where n: "map_of deg c = Some n" by (cases "map_of deg c") auto
  have "pending deg' + length ready' \<le>
      pending (AList.update c (n - 1) deg) + length (if n - 1 = 0 then ready @ [c] else ready)"
    using 2 n by simp
  also have "\<dots> \<le> pending deg + length ready" using pending_update [OF n] by auto
  finally show ?case .
qed simp

function kahn :: "classes \<Rightarrow> (cls_id, cls_id list) dict \<Rightarrow> (cls_id, int) dict \<Rightarrow> cls_id list \<Rightarrow>
    cls_id list \<Rightarrow> cls_id list result" where
  "kahn cl adj deg ready order =
     (case sort_key (order_key cl) ready of
        [] \<Rightarrow> Inr order
      | c # rest \<Rightarrow>
          (case map_of adj c of
             None \<Rightarrow> Inl (KeyError c)
           | Some children \<Rightarrow>
               (case relax deg rest children of
                  Inl x \<Rightarrow> Inl x
                | Inr (deg', ready') \<Rightarrow> kahn cl adj deg' ready' (order @ [c]))))"
  by pat_completeness auto
termination
proof (relation "measure (\<lambda>(_, _, deg, ready, _). pending deg + length ready)")
  fix cl adj deg ready order c rest children z deg' ready'
  assume sorted: "sort_key (order_key cl) ready = c # rest"
    and step: "relax deg rest children = Inr z" "(deg', ready') = z"
  have "length ready = Suc (length rest)" using sorted by (metis length_Cons length_sort)
  then show "((cl, adj, deg', ready', order @ [c]), (cl, adj, deg, ready, order)) \<in>
      measure (\<lambda>(_, _, deg, ready, _). pending deg + length ready)"
    using relax_measure [of deg rest children deg' ready'] step by simp
qed simp

declare kahn.simps [simp del]

definition compute_order :: "classes \<Rightarrow> cls_id list \<Rightarrow> cls_id list result" where
  "compute_order cl cs =
     (let deg = map (\<lambda>c. (c, int (length (pc_dependencies (cl c))))) cs in
      rbind (adjacency cl cs) (\<lambda>adj. kahn cl adj deg (map fst (filter (\<lambda>(c, n). n = 0) deg)) []))"

definition topological_sort :: "classes \<Rightarrow> ProjectionRegistry \<Rightarrow> cls_id list result" where
  "topological_sort cl R = rbind (validate cl R) (\<lambda>_. compute_order cl (pr_classes R))"

section \<open>The cache and the fingerprints (cache.py, fingerprint.py)\<close>

record CacheKey =
  ck_project_id :: string
  ck_projection_name :: string
  ck_projection_version :: SemVer

record 'a CacheEntry =
  ce_compiled_projection :: 'a
  ce_fingerprint :: string
  ce_version :: SemVer
  ce_build_time :: string
  ce_build_duration_ms :: string

type_synonym 'a ProjectionCache = "(CacheKey, 'a CacheEntry) dict"

definition cache_get :: "'a ProjectionCache \<Rightarrow> CacheKey \<Rightarrow> 'a CacheEntry option" where
  "cache_get C k = map_of C k"

definition cache_set :: "'a ProjectionCache \<Rightarrow> CacheKey \<Rightarrow> 'a CacheEntry \<Rightarrow> 'a ProjectionCache" where
  "cache_set C k e = AList.update k e C"

definition cache_invalidate :: "'a ProjectionCache \<Rightarrow> string \<Rightarrow> string \<Rightarrow> SemVer \<Rightarrow> 'a ProjectionCache" where
  "cache_invalidate C project_id name v =
     (let k = \<lparr>ck_project_id = project_id, ck_projection_name = name, ck_projection_version = v\<rparr>
      in if dict_has C k then AList.delete k C else C)"

definition cache_clear :: "'a ProjectionCache \<Rightarrow> 'a ProjectionCache" where
  "cache_clear C = []"

text \<open>The items are pairs of texts: Python sorts them lexicographically.\<close>

definition compute_composite_fingerprint :: "host \<Rightarrow> SemVer \<Rightarrow> (string, string) dict \<Rightarrow> string option \<Rightarrow> string" where
  "compute_composite_fingerprint h v dep_fps raw =
     (let dep_str = join '','' (map (\<lambda>(name, fp). name @ '':'' @ fp) (sort_key (\<lambda>p. p) dep_fps))
      in sha256_hex h (utf8_encode (''composite|'' @ semver_str v @ ''|'' @ dep_str @ ''|'' @
           (case raw of None \<Rightarrow> [] | Some r \<Rightarrow> r))))"

section \<open>The rebuild planner (planner.py)\<close>

record RebuildMetrics =
  rm_cache_hits :: nat
  rm_cache_misses :: nat
  rm_dirty_count :: nat
  rm_scheduled_count :: nat

text \<open>The plan, and the local variables of the loop: the set of dirty nodes is a list of its elements.\<close>

record PlanState =
  pl_dirty_nodes :: "string list"
  pl_ordered_nodes :: "string list"
  pl_unchanged_nodes :: "string list"
  pl_reasons :: "(string, string) dict"
  pl_resolved_fingerprints :: "(string, string) dict"

record RebuildPlan = PlanState +
  pl_metrics :: RebuildMetrics

definition plan_init :: PlanState where
  "plan_init = \<lparr>pl_dirty_nodes = [], pl_ordered_nodes = [], pl_unchanged_nodes = [], pl_reasons = [],
     pl_resolved_fingerprints = []\<rparr>"

definition node_fingerprint :: "host \<Rightarrow> classes \<Rightarrow> (string, string) dict \<Rightarrow> (string, string) dict \<Rightarrow> cls_id \<Rightarrow>
    string result" where
  "node_fingerprint h cl current resolved c =
     (let name = pc_projection_name (cl c) in
      if pc_projection_kind (cl c) = BASE then
        (case map_of current name of
           None \<Rightarrow> Inl (ValueError ''Missing input fingerprint for Base projection'')
         | Some fp \<Rightarrow> if fp = [] then Inl (ValueError ''Missing input fingerprint for Base projection'') else Inr fp)
      else
        rbind (rmap (\<lambda>d. rbind (dict_item resolved (pc_projection_name (cl d)))
                 (\<lambda>fp. Inr (pc_projection_name (cl d), fp))) (pc_dependencies (cl c))) (\<lambda>items.
        Inr (compute_composite_fingerprint h (pc_version (cl c)) (dict_of_pairs items)
          (if pc_dependencies (cl c) = [] then map_of current name else None))))"

definition plan_reason :: "classes \<Rightarrow> string list \<Rightarrow> 'a CacheEntry option \<Rightarrow> string \<Rightarrow> cls_id \<Rightarrow> string option" where
  "plan_reason cl dirty entry fp c =
     (let dirty_deps = filter (\<lambda>n. n \<in> set dirty) (map (\<lambda>d. pc_projection_name (cl d)) (pc_dependencies (cl c))) in
      if dirty_deps \<noteq> [] then Some (''Dependency changed: '' @ join '', '' dirty_deps)
      else case entry of
        None \<Rightarrow> Some ''Missing cache entry''
      | Some e \<Rightarrow>
          if ce_fingerprint e \<noteq> fp then
            Some (''Fingerprint mismatch: cached='' @ take 8 (ce_fingerprint e) @ ''... current='' @ take 8 fp @ ''...'')
          else if ce_version e \<noteq> pc_version (cl c) then
            Some (''Version mismatch: cached='' @ semver_str (ce_version e) @ '' current='' @ semver_str (pc_version (cl c)))
          else None)"

definition plan_step :: "host \<Rightarrow> classes \<Rightarrow> string \<Rightarrow> (string, string) dict \<Rightarrow> 'a ProjectionCache \<Rightarrow>
    PlanState \<Rightarrow> cls_id \<Rightarrow> PlanState result" where
  "plan_step h cl project_id current C s c =
     (let name = pc_projection_name (cl c) in
      rbind (node_fingerprint h cl current (pl_resolved_fingerprints s) c) (\<lambda>fp.
      let entry = cache_get C \<lparr>ck_project_id = project_id, ck_projection_name = name,
            ck_projection_version = pc_version (cl c)\<rparr>;
          s1 = s\<lparr>pl_resolved_fingerprints := AList.update name fp (pl_resolved_fingerprints s)\<rparr>
      in Inr (case plan_reason cl (pl_dirty_nodes s) entry fp c of
           Some reason \<Rightarrow> s1\<lparr>pl_dirty_nodes := List.insert name (pl_dirty_nodes s),
             pl_reasons := AList.update name reason (pl_reasons s),
             pl_ordered_nodes := pl_ordered_nodes s @ [name]\<rparr>
         | None \<Rightarrow> s1\<lparr>pl_unchanged_nodes := pl_unchanged_nodes s @ [name]\<rparr>)))"

definition rebuild_plan :: "host \<Rightarrow> classes \<Rightarrow> string \<Rightarrow> (string, string) dict \<Rightarrow> 'a ProjectionCache \<Rightarrow>
    ProjectionRegistry \<Rightarrow> RebuildPlan result" where
  "rebuild_plan h cl project_id current C R =
     rbind (topological_sort cl R) (\<lambda>topo_order.
     rbind (rfold (plan_step h cl project_id current C) plan_init topo_order) (\<lambda>s.
     Inr (PlanState.extend s (RebuildPlan.fields
       \<lparr>rm_cache_hits = length (pl_unchanged_nodes s), rm_cache_misses = length (pl_ordered_nodes s),
        rm_dirty_count = length (pl_dirty_nodes s), rm_scheduled_count = length (pl_ordered_nodes s)\<rparr>))))"

section \<open>Cycle detection is correct\<close>

definition depends :: "classes \<Rightarrow> cls_id set \<Rightarrow> (cls_id \<times> cls_id) set" where
  "depends cl V = {(c, d). c \<in> V \<and> d \<in> set (pc_dependencies (cl c))}"

text \<open>
  The stack of the search: of every class on it, the dependencies still to visit are listed with it,
  the others are visited, but for the one being visited, which is the class above.
\<close>

fun covered :: "classes \<Rightarrow> cls_id set \<Rightarrow> cls_id set \<Rightarrow> (cls_id \<times> cls_id list) list \<Rightarrow> bool" where
  "covered cl B ex [] = True"
| "covered cl B ex ((c, ch) # st) \<longleftrightarrow>
     set ch \<subseteq> set (pc_dependencies (cl c)) \<and> ex \<subseteq> set (pc_dependencies (cl c)) \<and>
     set (pc_dependencies (cl c)) \<subseteq> set ch \<union> B \<union> ex \<and> covered cl B {c} st"

definition visited :: "(cls_id, nat) dict \<Rightarrow> cls_id set" where
  "visited vis = {c. map_of vis c = Some 2}"

definition search_inv :: "classes \<Rightarrow> cls_id set \<Rightarrow> (cls_id, nat) dict \<Rightarrow> (cls_id \<times> cls_id list) list \<Rightarrow> bool" where
  "search_inv cl V vis st \<longleftrightarrow>
     dom (map_of vis) = V \<and> (\<forall>c \<in> V. set (pc_dependencies (cl c)) \<subseteq> V) \<and>
     (\<forall>c v. map_of vis c = Some v \<longrightarrow> v \<le> 2) \<and>
     (\<forall>c. map_of vis c = Some 1 \<longleftrightarrow> c \<in> fst ` set st) \<and> distinct (map fst st) \<and>
     (\<forall>c \<in> visited vis. set (pc_dependencies (cl c)) \<subseteq> visited vis) \<and>
     acyclic (depends cl (visited vis)) \<and> covered cl (visited vis) {} st"

lemma search_invD:
  assumes "search_inv cl V vis st"
  shows "dom (map_of vis) = V" "\<And>c. c \<in> V \<Longrightarrow> set (pc_dependencies (cl c)) \<subseteq> V"
    "\<And>c v. map_of vis c = Some v \<Longrightarrow> v \<le> 2" "\<And>c. map_of vis c = Some 1 \<longleftrightarrow> c \<in> fst ` set st"
    "distinct (map fst st)" "\<And>c. c \<in> visited vis \<Longrightarrow> set (pc_dependencies (cl c)) \<subseteq> visited vis"
    "acyclic (depends cl (visited vis))" "covered cl (visited vis) {} st" "\<And>c. c \<in> fst ` set st \<Longrightarrow> c \<in> V"
  using assms unfolding search_inv_def by blast+

lemma search_invI:
  assumes "dom (map_of vis) = V" "\<And>c. c \<in> V \<Longrightarrow> set (pc_dependencies (cl c)) \<subseteq> V"
    "\<And>c v. map_of vis c = Some v \<Longrightarrow> v \<le> 2" "\<And>c. map_of vis c = Some 1 \<longleftrightarrow> c \<in> fst ` set st"
    "distinct (map fst st)" "\<And>c. c \<in> visited vis \<Longrightarrow> set (pc_dependencies (cl c)) \<subseteq> visited vis"
    "acyclic (depends cl (visited vis))" "covered cl (visited vis) {} st"
  shows "search_inv cl V vis st"
  using assms unfolding search_inv_def by blast

lemma covered_mono: "covered cl B ex st \<Longrightarrow> B \<subseteq> B' \<Longrightarrow> covered cl B' ex st"
  by (induction cl B ex st rule: covered.induct) auto

lemma covered_visited: "covered cl B {c} st \<Longrightarrow> covered cl (insert c B) {} st"
  by (cases st) (auto intro: covered_mono)

lemma covered_path:
  assumes "covered cl B ex st" "fst ` set st \<subseteq> V" "c \<in> fst ` set st" "d \<in> ex"
  shows "(c, d) \<in> (depends cl V)\<^sup>+"
  using assms
proof (induction cl B ex st arbitrary: d rule: covered.induct)
  case (2 cl B ex a ch st)
  have ad: "(a, d) \<in> depends cl V" using 2 by (auto simp: depends_def)
  show ?case
  proof (cases "c = a")
    case True
    with ad show ?thesis by auto
  next
    case False
    with 2 have "(c, a) \<in> (depends cl V)\<^sup>+" by auto
    then show ?thesis using ad by (rule trancl_into_trancl)
  qed
qed simp

lemma acyclic_new_source:
  assumes "acyclic R" "c \<notin> Range R" "c \<notin> D"
  shows "acyclic (R \<union> {c} \<times> D)"
proof -
  have path: "(x, y) \<in> R\<^sup>+" if "(x, y) \<in> (R \<union> {c} \<times> D)\<^sup>+" "x \<noteq> c" for x y
    using that
  proof (induction rule: trancl_induct)
    case (step y z)
    have "y \<noteq> c" using step.IH [OF step.prems] assms(2) by (auto dest: tranclD2)
    with step show ?case by (auto intro: trancl_into_trancl)
  qed auto
  have "(x, x) \<notin> (R \<union> {c} \<times> D)\<^sup>+" for x
  proof
    assume cyc: "(x, x) \<in> (R \<union> {c} \<times> D)\<^sup>+"
    then have "x \<noteq> c" using assms(2,3) by (auto dest: tranclD2)
    with path [OF cyc] assms(1) show False by (auto simp: acyclic_def)
  qed
  then show ?thesis by (simp add: acyclic_def)
qed

lemma visited_update:
  "visited (AList.update c 2 vis) = insert c (visited vis)"
  "map_of vis c = Some 0 \<Longrightarrow> visited (AList.update c 1 vis) = visited vis"
  by (auto simp: visited_def)

lemma search_inv_pop:
  assumes "search_inv cl V vis ((cur, []) # st)"
  shows "search_inv cl V (AList.update cur 2 vis) st"
proof (rule search_invI)
  note inv = search_invD [OF assms]
  let ?B = "visited vis"
  have cur: "map_of vis cur = Some 1" using inv(4) [of cur] by simp
  then have new: "cur \<notin> ?B" by (simp add: visited_def)
  have deps: "set (pc_dependencies (cl cur)) \<subseteq> ?B" and st: "covered cl ?B {cur} st"
    using inv(8) by auto
  show "dom (map_of (AList.update cur 2 vis)) = V" using inv(1) cur by (auto simp: dom_def)
  show "set (pc_dependencies (cl c)) \<subseteq> V" if "c \<in> V" for c by (rule inv(2) [OF that])
  show "v \<le> 2" if "map_of (AList.update cur 2 vis) c = Some v" for c v
    using that inv(3) [of c v] by (simp split: if_splits)
  show "map_of (AList.update cur 2 vis) c = Some 1 \<longleftrightarrow> c \<in> fst ` set st" for c
    using inv(4) [of c] inv(5) by auto
  show "distinct (map fst st)" using inv(5) by simp
  show "set (pc_dependencies (cl c)) \<subseteq> visited (AList.update cur 2 vis)"
    if "c \<in> visited (AList.update cur 2 vis)" for c
    using that inv(6) [of c] deps by (auto simp: visited_update)
  have "depends cl (insert cur ?B) = depends cl ?B \<union> {cur} \<times> set (pc_dependencies (cl cur))"
    by (auto simp: depends_def)
  moreover have "cur \<notin> Range (depends cl ?B)" using inv(6) new by (auto simp: depends_def)
  ultimately show "acyclic (depends cl (visited (AList.update cur 2 vis)))"
    using inv(7) deps new acyclic_new_source [of "depends cl ?B" cur] by (auto simp: visited_update)
  show "covered cl (visited (AList.update cur 2 vis)) {} st"
    using covered_visited [OF st] by (simp add: visited_update)
qed

lemma search_inv_skip:
  assumes "search_inv cl V vis ((cur, ch @ [d]) # st)" "map_of vis d = Some 2"
  shows "search_inv cl V vis ((cur, ch) # st)"
proof -
  note inv = search_invD [OF assms(1)]
  have "d \<in> visited vis" using assms(2) by (simp add: visited_def)
  with inv(8) have "covered cl (visited vis) {} ((cur, ch) # st)" by auto
  with inv show ?thesis by (intro search_invI) auto
qed

lemma search_inv_push:
  assumes "search_inv cl V vis ((cur, ch @ [d]) # st)" "map_of vis d = Some 0"
  shows "search_inv cl V (AList.update d 1 vis) ((d, pc_dependencies (cl d)) # (cur, ch) # st)"
proof (rule search_invI)
  note inv = search_invD [OF assms(1)]
  have vis: "visited (AList.update d 1 vis) = visited vis" by (rule visited_update(2) [OF assms(2)])
  have new: "d \<notin> fst ` set ((cur, ch @ [d]) # st)" using inv(4) [of d] assms(2) by simp
  show "dom (map_of (AList.update d 1 vis)) = V" using inv(1) assms(2) by (auto simp: dom_def)
  show "set (pc_dependencies (cl c)) \<subseteq> V" if "c \<in> V" for c by (rule inv(2) [OF that])
  show "v \<le> 2" if "map_of (AList.update d 1 vis) c = Some v" for c v
    using that inv(3) [of c v] by (simp split: if_splits)
  show "map_of (AList.update d 1 vis) c = Some 1 \<longleftrightarrow> c \<in> fst ` set ((d, pc_dependencies (cl d)) # (cur, ch) # st)" for c
    using inv(4) [of c] by auto
  show "distinct (map fst ((d, pc_dependencies (cl d)) # (cur, ch) # st))" using inv(5) new by simp
  show "set (pc_dependencies (cl c)) \<subseteq> visited (AList.update d 1 vis)"
    if "c \<in> visited (AList.update d 1 vis)" for c
    using that unfolding vis by (rule inv(6))
  show "acyclic (depends cl (visited (AList.update d 1 vis)))" using inv(7) unfolding vis .
  show "covered cl (visited (AList.update d 1 vis)) {} ((d, pc_dependencies (cl d)) # (cur, ch) # st)"
    using inv(8) unfolding vis by auto
qed

lemma cycle_loop_result:
  assumes "search_inv cl V vis st"
  shows "case cycle_loop cl vis st of
      Inr vis' \<Rightarrow> search_inv cl V vis' [] \<and> (\<forall>c. map_of vis c \<noteq> Some 0 \<longrightarrow> map_of vis' c \<noteq> Some 0)
    | Inl x \<Rightarrow> \<not> acyclic (depends cl V) \<and> (\<exists>a b. x = CircularDependencyError a b)"
  using assms
proof (induction cl vis st rule: cycle_loop.induct)
  case (1 cl vis)
  then show ?case by simp
next
  case (2 cl vis cur st)
  from 2(1) [OF search_inv_pop [OF 2(2)]] show ?case by (auto split: sum.splits)
next
  case (3 cl vis cur c cs st)
  define d where "d = last (c # cs)"
  define ch where "ch = butlast (c # cs)"
  have split: "c # cs = ch @ [d]" unfolding d_def ch_def by (rule append_butlast_last_id [symmetric]) simp
  have inv: "search_inv cl V vis ((cur, ch @ [d]) # st)" using 3(3) split by simp
  note D = search_invD [OF inv]
  have cur: "cur \<in> V" and cd: "d \<in> set (pc_dependencies (cl cur))" using D(8,9) by auto
  then have "d \<in> V" using D(2) by blast
  then obtain v where v: "map_of vis d = Some v" using D(1) by blast
  have loop: "cycle_loop cl vis ((cur, c # cs) # st) =
      (if v = 1 then Inl (CircularDependencyError cur d)
       else if v = 0 then cycle_loop cl (AList.update d 1 vis) ((d, pc_dependencies (cl d)) # (cur, ch) # st)
       else cycle_loop cl vis ((cur, ch) # st))"
    by (simp only: cycle_loop.simps d_def [symmetric] ch_def [symmetric] Let_def v option.case)
  from v have "v \<le> 2" by (rule D(3))
  then consider "v = 0" | "v = 1" | "v = 2" by linarith
  then show ?case
  proof cases
    case 1
    from v 1 have "map_of vis d = Some 0" by simp
    from 3(1) [OF d_def ch_def v _ 1 search_inv_push [OF inv this]] 1 show ?thesis
      unfolding loop by (auto split: sum.splits)
  next
    case 2
    have mem: "d \<in> fst ` set ((cur, ch @ [d]) # st)" using D(4) [of d] v 2 by simp
    have edge: "(cur, d) \<in> depends cl V" using cur cd by (simp add: depends_def)
    have "(d, d) \<in> (depends cl V)\<^sup>+"
    proof (cases "d = cur")
      case False
      then have "(d, cur) \<in> (depends cl V)\<^sup>+"
        using covered_path [of cl "visited vis" "{cur}" st V d cur] D(8,9) mem by auto
      then show ?thesis using edge by (rule trancl_into_trancl)
    qed (use edge in auto)
    then show ?thesis unfolding loop using 2 by (auto simp: acyclic_def)
  next
    case three: 3
    from v three have "map_of vis d = Some 2" by simp
    from 3(2) [OF d_def ch_def v _ _ search_inv_skip [OF inv this]] three show ?thesis
      unfolding loop by (auto split: sum.splits)
  qed
qed

text \<open>The loop over the roots: every class is visited in the end.\<close>

lemma validate_cycles_loop:
  assumes "search_inv cl V vis []" "set roots \<subseteq> V"
  shows "case rfold (\<lambda>vis root. case map_of vis root of
          None \<Rightarrow> Inl (KeyError root)
        | Some v \<Rightarrow> if v \<noteq> 0 then Inr vis
            else cycle_loop cl (AList.update root 1 vis) [(root, pc_dependencies (cl root))]) vis roots of
      Inr vis' \<Rightarrow> search_inv cl V vis' [] \<and> (\<forall>c. map_of vis c \<noteq> Some 0 \<or> c \<in> set roots \<longrightarrow> map_of vis' c \<noteq> Some 0)
    | Inl x \<Rightarrow> \<not> acyclic (depends cl V) \<and> (\<exists>a b. x = CircularDependencyError a b)"
  using assms
proof (induction roots arbitrary: vis)
  case (Cons root roots)
  note D = search_invD [OF Cons.prems(1)]
  obtain v where v: "map_of vis root = Some v" using D(1) Cons.prems(2) by auto
  show ?case
  proof (cases "v = 0")
    case False
    with v Cons.IH [OF Cons.prems(1)] Cons.prems(2) show ?thesis by (auto split: sum.splits)
  next
    case True
    have "search_inv cl V (AList.update root 1 vis) [(root, pc_dependencies (cl root))]"
    proof (rule search_invI)
      have vis: "visited (AList.update root 1 vis) = visited vis" using v True visited_update(2) [of vis root] by simp
      show "dom (map_of (AList.update root 1 vis)) = V" using D(1) v by (auto simp: dom_def)
      show "v \<le> 2" if "map_of (AList.update root 1 vis) c = Some v" for c v
        using that D(3) [of c v] by (simp split: if_splits)
      show "map_of (AList.update root 1 vis) c = Some 1 \<longleftrightarrow> c \<in> fst ` set [(root, pc_dependencies (cl root))]" for c
        using D(4) [of c] by auto
      show "set (pc_dependencies (cl c)) \<subseteq> visited (AList.update root 1 vis)"
        if "c \<in> visited (AList.update root 1 vis)" for c
        using that unfolding vis by (rule D(6))
      show "acyclic (depends cl (visited (AList.update root 1 vis)))" using D(7) unfolding vis .
    qed (use D in auto)
    note loop = cycle_loop_result [OF this]
    show ?thesis
    proof (cases "cycle_loop cl (AList.update root 1 vis) [(root, pc_dependencies (cl root))]")
      case (Inl x)
      with loop v True show ?thesis by simp
    next
      case (Inr vis')
      with loop have vis': "search_inv cl V vis' []" "\<forall>c. map_of (AList.update root 1 vis) c \<noteq> Some 0 \<longrightarrow> map_of vis' c \<noteq> Some 0"
        by simp_all
      with Inr v True Cons.IH [OF vis'(1)] Cons.prems(2) show ?thesis by (auto split: sum.splits)
    qed
  qed
qed simp

lemma validate_cycles_iff:
  assumes "\<forall>c \<in> set (pr_classes R). set (pc_dependencies (cl c)) \<subseteq> set (pr_classes R)"
  shows "validate_cycles cl R = Inr () \<longleftrightarrow> acyclic (depends cl (set (pr_classes R)))"
    and "validate_cycles cl R = Inl x \<Longrightarrow> \<exists>a b. x = CircularDependencyError a b"
proof -
  let ?V = "set (pr_classes R)"
  let ?vis = "map (\<lambda>c. (c, 0)) (pr_classes R) :: (cls_id, nat) dict"
  have m: "map_of ?vis c = (if c \<in> ?V then Some 0 else None)" for c
    by (simp add: map_of_map_restrict restrict_map_def)
  have none: "visited ?vis = {}" by (auto simp: m visited_def split: if_splits)
  have "search_inv cl ?V ?vis []"
    using assms by (intro search_invI) (auto simp: m none depends_def acyclic_def dom_def split: if_splits)
  note loop = validate_cycles_loop [OF this order_refl]
  show "validate_cycles cl R = Inr () \<longleftrightarrow> acyclic (depends cl ?V)"
  proof
    assume "validate_cycles cl R = Inr ()"
    then obtain vis' where vis': "search_inv cl ?V vis' []" "\<forall>c \<in> ?V. map_of vis' c \<noteq> Some 0"
      using loop by (auto simp: validate_cycles_def)
    note D = search_invD [OF vis'(1)]
    have "visited vis' = ?V"
    proof (rule set_eqI)
      fix c
      show "c \<in> visited vis' \<longleftrightarrow> c \<in> ?V"
      proof
        assume "c \<in> visited vis'"
        then show "c \<in> ?V" using D(1) by (auto simp: visited_def)
      next
        assume c: "c \<in> ?V"
        then obtain v where v: "map_of vis' c = Some v" using D(1) by blast
        then have "v \<le> 2" "v \<noteq> 0" "v \<noteq> 1" using D(3,4) [of c] vis'(2) c by auto
        then have "v = 2" by linarith
        with v show "c \<in> visited vis'" by (simp add: visited_def)
      qed
    qed
    with D(7) show "acyclic (depends cl ?V)" by simp
  next
    assume "acyclic (depends cl ?V)"
    with loop show "validate_cycles cl R = Inr ()"
      by (auto simp: validate_cycles_def split: sum.splits)
  qed
  assume "validate_cycles cl R = Inl x"
  with loop show "\<exists>a b. x = CircularDependencyError a b"
    by (auto simp: validate_cycles_def rbind_eq_Inl)
qed

section \<open>The build order is correct\<close>

definition available :: "classes \<Rightarrow> cls_id set \<Rightarrow> cls_id set \<Rightarrow> cls_id set" where
  "available cl V B = {c \<in> V. c \<notin> B \<and> set (pc_dependencies (cl c)) \<subseteq> B}"

definition missing_deps :: "classes \<Rightarrow> cls_id set \<Rightarrow> cls_id \<Rightarrow> nat" where
  "missing_deps cl B c = length (filter (\<lambda>d. d \<notin> B) (pc_dependencies (cl c)))"

text \<open>Every class comes after its dependencies.\<close>

definition in_order :: "classes \<Rightarrow> cls_id list \<Rightarrow> bool" where
  "in_order cl order \<longleftrightarrow>
     distinct order \<and> (\<forall>i < length order. set (pc_dependencies (cl (order ! i))) \<subseteq> set (take i order))"

definition kahn_inv :: "classes \<Rightarrow> cls_id set \<Rightarrow> (cls_id, int) dict \<Rightarrow> cls_id list \<Rightarrow> cls_id list \<Rightarrow> bool" where
  "kahn_inv cl V deg ready order \<longleftrightarrow>
     (\<forall>c. map_of deg c = (if c \<in> V then Some (int (missing_deps cl (set order) c)) else None)) \<and>
     distinct ready \<and> set ready = available cl V (set order) \<and> set order \<subseteq> V \<and> in_order cl order"

definition adjacent :: "classes \<Rightarrow> cls_id set \<Rightarrow> (cls_id, cls_id list) dict \<Rightarrow> bool" where
  "adjacent cl V adj \<longleftrightarrow> (\<forall>d \<in> V. \<exists>l. map_of adj d = Some l \<and>
     (\<forall>x. count (mset l) x = (if x \<in> V then count (mset (pc_dependencies (cl x))) d else 0)))"

lemma relax_result:
  assumes "\<forall>c \<in> set cs. map_of deg c \<noteq> None"
  shows "\<exists>deg' l. relax deg ready cs = Inr (deg', ready @ l) \<and>
    (\<forall>x. map_of deg' x = map_option (\<lambda>n. n - int (count (mset cs) x)) (map_of deg x)) \<and>
    distinct l \<and> set l = {x. \<exists>n. map_of deg x = Some n \<and> 0 < n \<and> n \<le> int (count (mset cs) x)}"
  using assms
proof (induction cs arbitrary: deg ready)
  case Nil
  then show ?case by (auto simp: option.map_id [unfolded id_def] intro!: option.map_ident [symmetric])
next
  case (Cons c cs)
  then obtain n where n: "map_of deg c = Some n" by auto
  let ?deg = "AList.update c (n - 1) deg" and ?ready = "if n - 1 = 0 then ready @ [c] else ready"
  obtain deg' l where IH: "relax ?deg ?ready cs = Inr (deg', ?ready @ l)"
    "\<forall>x. map_of deg' x = map_option (\<lambda>n. n - int (count (mset cs) x)) (map_of ?deg x)"
    "distinct l" "set l = {x. \<exists>n. map_of ?deg x = Some n \<and> 0 < n \<and> n \<le> int (count (mset cs) x)}"
  proof -
    have "\<forall>x \<in> set cs. map_of ?deg x \<noteq> None" using Cons.prems by auto
    from Cons.IH [OF this, of ?ready] show thesis using that by blast
  qed
  let ?l = "(if n - 1 = 0 then [c] else []) @ l"
  have "relax deg ready (c # cs) = Inr (deg', ready @ ?l)" using n IH(1) by simp
  moreover have "\<forall>x. map_of deg' x = map_option (\<lambda>n. n - int (count (mset (c # cs)) x)) (map_of deg x)"
    using IH(2) n by auto
  moreover have "distinct ?l" using IH(3,4) by auto
  moreover have "set ?l = {x. \<exists>n. map_of deg x = Some n \<and> 0 < n \<and> n \<le> int (count (mset (c # cs)) x)}"
    using IH(4) n by auto
  ultimately show ?case by blast
qed

lemma missing_deps_insert:
  assumes "c \<notin> B"
  shows "int (missing_deps cl (insert c B) x) =
    int (missing_deps cl B x) - int (count (mset (pc_dependencies (cl x))) c)"
proof -
  have "length (filter (\<lambda>d. d \<notin> B) l) = length (filter (\<lambda>d. d \<notin> insert c B) l) + count (mset l) c" for l
    using assms by (induction l) auto
  from this [of "pc_dependencies (cl x)"] show ?thesis by (simp add: missing_deps_def)
qed

lemma missing_deps_zero: "missing_deps cl B c = 0 \<longleftrightarrow> set (pc_dependencies (cl c)) \<subseteq> B"
  by (auto simp: missing_deps_def filter_empty_conv)

lemma in_order_snoc:
  "in_order cl order \<Longrightarrow> c \<notin> set order \<Longrightarrow> set (pc_dependencies (cl c)) \<subseteq> set order \<Longrightarrow> in_order cl (order @ [c])"
  by (auto simp: in_order_def nth_append less_Suc_eq)

lemma in_order_deps: "in_order cl order \<Longrightarrow> c \<in> set order \<Longrightarrow> set (pc_dependencies (cl c)) \<subseteq> set order"
  by (auto simp: in_order_def in_set_conv_nth dest!: spec dest: in_set_takeD)

lemma kahn_inv_step:
  assumes "kahn_inv cl V deg ready order" "adjacent cl V adj" "sort_key (order_key cl) ready = c # rest"
  shows "\<exists>children deg' ready'. map_of adj c = Some children \<and> relax deg rest children = Inr (deg', ready') \<and>
    kahn_inv cl V deg' ready' (order @ [c])"
proof -
  let ?O = "set order"
  have deg: "map_of deg x = (if x \<in> V then Some (int (missing_deps cl ?O x)) else None)" for x
    using assms(1) by (auto simp: kahn_inv_def)
  have ready: "distinct ready" "set ready = available cl V ?O" and order: "?O \<subseteq> V" "in_order cl order"
    using assms(1) by (auto simp: kahn_inv_def)
  have perm: "set ready = insert c (set rest)" "distinct (c # rest)"
    using assms(3) ready(1) by (metis list.simps(15) set_sort, metis distinct_sort)
  have c: "c \<in> V" "c \<notin> ?O" "set (pc_dependencies (cl c)) \<subseteq> ?O"
    using perm(1) ready(2) by (auto simp: available_def)
  obtain children where ch: "map_of adj c = Some children"
    "\<forall>x. count (mset children) x = (if x \<in> V then count (mset (pc_dependencies (cl x))) c else 0)"
    using assms(2) c(1) by (auto simp: adjacent_def)
  have "set children \<subseteq> V" using ch(2) by (metis count_eq_zero_iff set_mset_mset subsetI)
  then have in_deg: "\<forall>x \<in> set children. map_of deg x \<noteq> None" using deg by auto
  obtain deg' l where relax: "relax deg rest children = Inr (deg', rest @ l)"
    "\<forall>x. map_of deg' x = map_option (\<lambda>n. n - int (count (mset children) x)) (map_of deg x)"
    "distinct l" "set l = {x. \<exists>n. map_of deg x = Some n \<and> 0 < n \<and> n \<le> int (count (mset children) x)}"
    using relax_result [OF in_deg, of rest] by blast
  have deg': "map_of deg' x = (if x \<in> V then Some (int (missing_deps cl (insert c ?O) x)) else None)" for x
    using relax(2) deg [of x] ch(2) missing_deps_insert [OF c(2), of cl x] by auto
  have l: "x \<in> set l \<longleftrightarrow> x \<in> V \<and> missing_deps cl ?O x \<noteq> 0 \<and> missing_deps cl (insert c ?O) x = 0" for x
    using relax(4) deg [of x] ch(2) missing_deps_insert [OF c(2), of cl x] by (auto split: if_splits)
  have done_deps: "missing_deps cl ?O x = 0" if "x \<in> ?O" for x
    using in_order_deps [OF order(2) that] by (simp add: missing_deps_zero)
  have rest: "x \<in> set rest \<longleftrightarrow> x \<in> V \<and> x \<notin> ?O \<and> x \<noteq> c \<and> missing_deps cl ?O x = 0" for x
    using perm ready(2) by (auto simp: available_def missing_deps_zero)
  have mono: "missing_deps cl ?O x = 0 \<Longrightarrow> missing_deps cl (insert c ?O) x = 0" for x
    by (auto simp: missing_deps_zero)
  have "set (rest @ l) = available cl V (insert c ?O)"
  proof (rule set_eqI)
    fix x
    have "x \<in> available cl V (insert c ?O) \<longleftrightarrow> x \<in> V \<and> x \<notin> ?O \<and> x \<noteq> c \<and> missing_deps cl (insert c ?O) x = 0"
      by (auto simp: available_def missing_deps_zero)
    moreover have "missing_deps cl ?O c = 0" using c(3) by (simp add: missing_deps_zero)
    ultimately show "x \<in> set (rest @ l) \<longleftrightarrow> x \<in> available cl V (insert c ?O)"
      using l [of x] rest [of x] mono [of x] done_deps [of x] by auto
  qed
  moreover have "distinct (rest @ l)" using perm(2) relax(3) l rest by auto
  ultimately have "kahn_inv cl V deg' (rest @ l) (order @ [c])"
    using deg' order c in_order_snoc [OF order(2) c(2,3)] by (simp add: kahn_inv_def)
  with ch(1) relax(1) show ?thesis by blast
qed

lemma kahn_result:
  assumes "kahn_inv cl V deg ready order" "adjacent cl V adj"
  shows "\<exists>order'. kahn cl adj deg ready order = Inr order' \<and> set order' \<subseteq> V \<and> in_order cl order' \<and>
    available cl V (set order') = {}"
  using assms
proof (induction cl adj deg ready order rule: kahn.induct)
  case (1 cl adj deg ready order)
  show ?case
  proof (cases "sort_key (order_key cl) ready")
    case Nil
    then have "ready = []" by (metis length_0_conv length_sort)
    with Nil 1(2) show ?thesis by (simp add: kahn.simps [of cl adj deg "[]" order] kahn_inv_def)
  next
    case (Cons c rest)
    obtain children deg' ready' where step: "map_of adj c = Some children"
      "relax deg rest children = Inr (deg', ready')" "kahn_inv cl V deg' ready' (order @ [c])"
      using kahn_inv_step [OF 1(2,3) Cons] by blast
    from 1(1) [OF Cons step(1,2) refl step(3) 1(3)] show ?thesis
      by (simp add: kahn.simps [of cl adj deg ready order] Cons step)
  qed
qed

text \<open>The order does not depend on how the ready list and the adjacency lists are ordered.\<close>

lemma kahn_deterministic:
  assumes "kahn_inv cl V deg ready order" "adjacent cl V adj" "kahn_inv cl V deg2 ready2 order"
    "adjacent cl V adj2" "inj_on (order_key cl) V"
  shows "kahn cl adj deg ready order = kahn cl adj2 deg2 ready2 order"
  using assms
proof (induction cl adj deg ready order arbitrary: deg2 ready2 rule: kahn.induct)
  case (1 cl adj deg ready order)
  have "mset ready = mset ready2" using 1(2,4) by (intro set_eq_iff_mset_eq_distinct [THEN iffD1]) (auto simp: kahn_inv_def)
  moreover have "inj_on (order_key cl) (set ready)" "distinct ready"
    using 1(2,6) by (auto simp: kahn_inv_def available_def intro: inj_on_subset)
  ultimately have same: "sort_key (order_key cl) ready = sort_key (order_key cl) ready2"
    by (rule sort_key_unique_perm)
  show ?case
  proof (cases "sort_key (order_key cl) ready")
    case Nil
    then show ?thesis
      using same by (simp add: kahn.simps [of cl adj deg ready order] kahn.simps [of cl adj2 deg2 ready2 order])
  next
    case (Cons c rest)
    obtain children deg' ready' where step: "map_of adj c = Some children"
      "relax deg rest children = Inr (deg', ready')" "kahn_inv cl V deg' ready' (order @ [c])"
      using kahn_inv_step [OF 1(2,3) Cons] by blast
    obtain children2 deg2' ready2' where step2: "map_of adj2 c = Some children2"
      "relax deg2 rest children2 = Inr (deg2', ready2')" "kahn_inv cl V deg2' ready2' (order @ [c])"
      using kahn_inv_step [OF 1(4,5) Cons [unfolded same]] by blast
    from 1(1) [OF Cons step(1,2) refl step(3) 1(3) step2(3) 1(5,6)] show ?thesis
      by (simp add: kahn.simps [of cl adj deg ready order] kahn.simps [of cl adj2 deg2 ready2 order]
          Cons Cons [unfolded same] step step2)
  qed
qed

lemma adjacency_inner:
  assumes "\<forall>d \<in> set ds. map_of adj d \<noteq> None"
  shows "\<exists>adj'. rfold (\<lambda>adj d. case map_of adj d of
          None \<Rightarrow> Inl (KeyError d) | Some l \<Rightarrow> Inr (AList.update d (l @ [c]) adj)) adj ds = Inr adj' \<and>
    (\<forall>d. map_of adj' d = map_option (\<lambda>l. l @ replicate (count (mset ds) d) c) (map_of adj d))"
  using assms
proof (induction ds arbitrary: adj)
  case Nil
  then show ?case by (auto simp: option.map_ident)
next
  case (Cons d ds)
  then obtain l where l: "map_of adj d = Some l" by auto
  let ?adj = "AList.update d (l @ [c]) adj"
  have "\<forall>x \<in> set ds. map_of ?adj x \<noteq> None" using Cons.prems by auto
  from Cons.IH [OF this] l show ?case by (auto simp: replicate_app_Cons_same)
qed

lemma adjacency_outer:
  assumes "\<forall>c \<in> set cs. \<forall>d \<in> set (pc_dependencies (cl c)). map_of adj d \<noteq> None"
  shows "\<exists>adj'. rfold (\<lambda>adj c. rfold (\<lambda>adj d. case map_of adj d of
          None \<Rightarrow> Inl (KeyError d) | Some l \<Rightarrow> Inr (AList.update d (l @ [c]) adj)) adj (pc_dependencies (cl c)))
        adj cs = Inr adj' \<and>
    (\<forall>d. map_of adj' d = map_option (\<lambda>l. l @ concat (map (\<lambda>c. replicate (count (mset (pc_dependencies (cl c))) d) c) cs))
      (map_of adj d))"
  using assms
proof (induction cs arbitrary: adj)
  case Nil
  then show ?case by (auto simp: option.map_ident)
next
  case (Cons c cs)
  then have "\<forall>d \<in> set (pc_dependencies (cl c)). map_of adj d \<noteq> None" by auto
  from adjacency_inner [OF this, of c] obtain adj1 where
    adj1: "rfold (\<lambda>adj d. case map_of adj d of
        None \<Rightarrow> Inl (KeyError d) | Some l \<Rightarrow> Inr (AList.update d (l @ [c]) adj)) adj (pc_dependencies (cl c)) = Inr adj1"
      "\<forall>d. map_of adj1 d = map_option (\<lambda>l. l @ replicate (count (mset (pc_dependencies (cl c))) d) c) (map_of adj d)"
    by blast
  then have "\<forall>c \<in> set cs. \<forall>d \<in> set (pc_dependencies (cl c)). map_of adj1 d \<noteq> None" using Cons.prems by auto
  from Cons.IH [OF this] adj1 show ?case by (auto simp: option.map_comp comp_def)
qed

lemma count_concat_replicate:
  "distinct cs \<Longrightarrow> count (mset (concat (map (\<lambda>c. replicate (f c) c) cs))) x = (if x \<in> set cs then f x else 0)"
  by (induction cs) (auto simp: not_in_iff)

lemma adjacency_result:
  assumes "distinct cs" "\<forall>c \<in> set cs. set (pc_dependencies (cl c)) \<subseteq> set cs"
  shows "\<exists>adj. adjacency cl cs = Inr adj \<and> adjacent cl (set cs) adj"
proof -
  have m: "map_of (map (\<lambda>c. (c, [] :: cls_id list)) cs) d = (if d \<in> set cs then Some [] else None)" for d
    by (simp add: map_of_map_restrict restrict_map_def)
  then have "\<forall>c \<in> set cs. \<forall>d \<in> set (pc_dependencies (cl c)). map_of (map (\<lambda>c. (c, [] :: cls_id list)) cs) d \<noteq> None"
    using assms(2) by auto
  from adjacency_outer [OF this] show ?thesis
    by (auto simp: adjacency_def adjacent_def m count_concat_replicate [OF assms(1)])
qed

lemma kahn_inv_init:
  assumes "distinct cs"
  shows "kahn_inv cl (set cs) (map (\<lambda>c. (c, int (length (pc_dependencies (cl c))))) cs)
    (map fst (filter (\<lambda>(c, n). n = 0) (map (\<lambda>c. (c, int (length (pc_dependencies (cl c))))) cs))) []"
proof -
  have "map fst (filter (\<lambda>(c, n). n = 0) (map (\<lambda>c. (c, int (length (pc_dependencies (cl c))))) cs)) =
      filter (\<lambda>c. pc_dependencies (cl c) = []) cs"
    by (induction cs) auto
  then show ?thesis
    using assms
    by (auto simp: kahn_inv_def missing_deps_def available_def in_order_def map_of_map_restrict restrict_map_def)
qed

lemma acyclic_exhausts:
  assumes "finite V" "\<forall>c \<in> V. set (pc_dependencies (cl c)) \<subseteq> V" "acyclic (depends cl V)"
    "B \<subseteq> V" "available cl V B = {}"
  shows "B = V"
proof (rule ccontr)
  assume "B \<noteq> V"
  have "depends cl V \<subseteq> V \<times> V" using assms(2) by (auto simp: depends_def)
  then have "finite (depends cl V)" using assms(1) by (meson finite_SigmaI finite_subset)
  then have wf: "wf ((depends cl V)\<inverse>)" using assms(3) by (rule finite_acyclic_wf_converse)
  obtain x where "x \<in> V - B" using \<open>B \<noteq> V\<close> assms(4) by blast
  with wf obtain z where z: "z \<in> V - B" "\<And>y. (y, z) \<in> (depends cl V)\<inverse> \<Longrightarrow> y \<notin> V - B"
    by (rule wfE_min) blast
  then have "z \<in> available cl V B" using assms(2) by (auto simp: available_def depends_def)
  with assms(5) show False by simp
qed

section \<open>Validation\<close>

text \<open>What a registry must satisfy for a build order to exist.\<close>

definition well_formed :: "classes \<Rightarrow> cls_id set \<Rightarrow> bool" where
  "well_formed cl V \<longleftrightarrow>
     inj_on (\<lambda>c. pc_projection_name (cl c)) V \<and>
     (\<forall>c \<in> V. set (pc_dependencies (cl c)) \<subseteq> V) \<and>
     (\<forall>c \<in> V. pc_projection_kind (cl c) = BASE \<longrightarrow> pc_dependencies (cl c) = []) \<and>
     (\<forall>c \<in> V. pc_projection_kind (cl c) = DERIVED \<longrightarrow>
        (\<forall>d \<in> set (pc_dependencies (cl c)). pc_projection_kind (cl d) \<noteq> COMPOSITE)) \<and>
     acyclic (depends cl V)"

lemma validate_iff:
  assumes "distinct (pr_classes R)"
  shows "validate cl R = Inr () \<longleftrightarrow> well_formed cl (set (pr_classes R))"
proof -
  let ?V = "set (pr_classes R)"
  have names: "validate_names_and_classes cl R = Inr () \<longleftrightarrow> inj_on (\<lambda>c. pc_projection_name (cl c)) ?V"
    using assms length_remdups_eq [of "map (\<lambda>c. pc_projection_name (cl c)) (pr_classes R)"]
      remdups_id_iff_distinct [of "map (\<lambda>c. pc_projection_name (cl c)) (pr_classes R)"]
    by (auto simp: validate_names_and_classes_def Let_def distinct_map)
  have deps: "validate_dependencies cl R = Inr () \<longleftrightarrow> (\<forall>c \<in> ?V. set (pc_dependencies (cl c)) \<subseteq> ?V)"
    by (auto simp: validate_dependencies_def rfold_unit subset_iff)
  have kinds: "validate_kinds cl R = Inr () \<longleftrightarrow>
      (\<forall>c \<in> ?V. pc_projection_kind (cl c) = BASE \<longrightarrow> pc_dependencies (cl c) = []) \<and>
      (\<forall>c \<in> ?V. pc_projection_kind (cl c) = DERIVED \<longrightarrow>
        (\<forall>d \<in> set (pc_dependencies (cl c)). pc_projection_kind (cl d) \<noteq> COMPOSITE))"
    by (auto simp: validate_kinds_def rfold_unit split: ProjectionKind.splits)
  show ?thesis
    using validate_cycles_iff(1) [of R cl]
    by (auto simp: validate_def well_formed_def names deps kinds)
qed

lemma well_formed_key: "well_formed cl V \<Longrightarrow> inj_on (order_key cl) V"
  by (auto simp: well_formed_def inj_on_def order_key_def)

lemma compute_order_result:
  assumes "distinct cs" "well_formed cl (set cs)"
  shows "\<exists>order. compute_order cl cs = Inr order \<and> mset order = mset cs \<and> in_order cl order"
proof -
  have closed: "\<forall>c \<in> set cs. set (pc_dependencies (cl c)) \<subseteq> set cs" and acyc: "acyclic (depends cl (set cs))"
    using assms(2) by (simp_all add: well_formed_def)
  obtain adj where adj: "adjacency cl cs = Inr adj" "adjacent cl (set cs) adj"
    using adjacency_result [OF assms(1) closed] by blast
  obtain order where order: "compute_order cl cs = Inr order" "set order \<subseteq> set cs" "in_order cl order"
    "available cl (set cs) (set order) = {}"
    using kahn_result [OF kahn_inv_init [OF assms(1)] adj(2)] adj(1) by (auto simp: compute_order_def Let_def)
  have "set order = set cs" by (rule acyclic_exhausts [OF _ closed acyc order(2,4)]) simp
  then have "mset order = mset cs"
    using order(3) assms(1) by (intro set_eq_iff_mset_eq_distinct [THEN iffD1]) (auto simp: in_order_def)
  with order show ?thesis by blast
qed

lemma compute_order_perm:
  assumes "distinct cs" "mset cs = mset cs'" "well_formed cl (set cs)"
  shows "compute_order cl cs = compute_order cl cs'"
proof -
  have set: "set cs' = set cs" and d: "distinct cs'"
    using assms(1,2) mset_eq_setD mset_eq_imp_distinct_iff by (metis, blast)
  have closed: "\<forall>c \<in> set cs. set (pc_dependencies (cl c)) \<subseteq> set cs" using assms(3) by (simp add: well_formed_def)
  obtain adj where adj: "adjacency cl cs = Inr adj" "adjacent cl (set cs) adj"
    using adjacency_result [OF assms(1) closed] by blast
  obtain adj' where adj': "adjacency cl cs' = Inr adj'" "adjacent cl (set cs) adj'"
    using adjacency_result [OF d] closed set by force
  show ?thesis
    using kahn_deterministic [OF kahn_inv_init [OF assms(1)] adj(2) kahn_inv_init [OF d, of cl, unfolded set] adj'(2)
        well_formed_key [OF assms(3)]] adj(1) adj'(1)
    by (simp add: compute_order_def Let_def)
qed

text \<open>Registration keeps the classes of a registry distinct and its names in step with them.\<close>

definition registry_inv :: "classes \<Rightarrow> ProjectionRegistry \<Rightarrow> bool" where
  "registry_inv cl R \<longleftrightarrow> distinct (pr_classes R) \<and> wf_dict (pr_projections R) \<and>
     pr_projections R = map (\<lambda>c. (pc_projection_name (cl c), c)) (pr_classes R)"

lemma registry_inv_init: "registry_inv cl registry_init"
  by (simp add: registry_inv_def registry_init_def)

lemma registry_inv_register:
  assumes "registry_inv cl R" "register_projection cl R c = Inr R'"
  shows "registry_inv cl R'"
proof -
  let ?n = "pc_projection_name (cl c)"
  have new: "?n \<notin> fst ` set (pr_projections R)" "c \<notin> set (pr_classes R)"
    and R': "R' = \<lparr>pr_projections = AList.update ?n c (pr_projections R), pr_classes = pr_classes R @ [c]\<rparr>"
    using assms(2) by (auto simp: register_projection_def Let_def dict_has_def split: if_splits)
  have "AList.update ?n c (pr_projections R) = pr_projections R @ [(?n, c)]" using new(1) by (rule update_new)
  moreover have "wf_dict (AList.update ?n c (pr_projections R))"
    using assms(1) unfolding registry_inv_def by blast
  ultimately show ?thesis using assms(1) new(2) by (simp add: registry_inv_def R')
qed

section \<open>The plan is right\<close>

abbreviation cls_name :: "classes \<Rightarrow> cls_id \<Rightarrow> string" where
  "cls_name cl c \<equiv> pc_projection_name (cl c)"

text \<open>The cache holds a projection of the current version built from the given fingerprint.\<close>

definition fresh :: "classes \<Rightarrow> string \<Rightarrow> 'a ProjectionCache \<Rightarrow> string \<Rightarrow> cls_id \<Rightarrow> bool" where
  "fresh cl project_id C fp c \<longleftrightarrow>
     (case cache_get C \<lparr>ck_project_id = project_id, ck_projection_name = cls_name cl c,
        ck_projection_version = pc_version (cl c)\<rparr> of
        None \<Rightarrow> False
      | Some e \<Rightarrow> ce_fingerprint e = fp \<and> ce_version e = pc_version (cl c))"

definition plan_inv :: "classes \<Rightarrow> string \<Rightarrow> 'a ProjectionCache \<Rightarrow> cls_id list \<Rightarrow> ('b PlanState_scheme) \<Rightarrow> bool" where
  "plan_inv cl project_id C ds s \<longleftrightarrow>
     dom (map_of (pl_resolved_fingerprints s)) = cls_name cl ` set ds \<and>
     set (pl_dirty_nodes s) \<subseteq> cls_name cl ` set ds \<and>
     pl_ordered_nodes s = filter (\<lambda>n. n \<in> set (pl_dirty_nodes s)) (map (cls_name cl) ds) \<and>
     pl_unchanged_nodes s = filter (\<lambda>n. n \<notin> set (pl_dirty_nodes s)) (map (cls_name cl) ds) \<and>
     (\<forall>c \<in> set ds. cls_name cl c \<in> set (pl_dirty_nodes s) \<longleftrightarrow>
        (\<exists>d \<in> set (pc_dependencies (cl c)). cls_name cl d \<in> set (pl_dirty_nodes s)) \<or>
        \<not> fresh cl project_id C (dict_get (pl_resolved_fingerprints s) (cls_name cl c) []) c)"

lemma node_fingerprint_defined:
  assumes "pc_projection_kind (cl c) = BASE \<longrightarrow> (\<exists>fp. map_of current (cls_name cl c) = Some fp \<and> fp \<noteq> [])"
    and "cls_name cl ` set (pc_dependencies (cl c)) \<subseteq> dom (map_of resolved)"
  shows "\<exists>fp. node_fingerprint h cl current resolved c = Inr fp"
proof (cases "pc_projection_kind (cl c) = BASE")
  case True
  with assms(1) show ?thesis by (auto simp: node_fingerprint_def Let_def)
next
  case False
  have "rmap (\<lambda>d. rbind (dict_item resolved (cls_name cl d)) (\<lambda>fp. Inr (cls_name cl d, fp))) (pc_dependencies (cl c)) =
      Inr (map (\<lambda>d. (cls_name cl d, the (map_of resolved (cls_name cl d)))) (pc_dependencies (cl c)))"
  proof (rule rmap_Inr)
    fix d assume "d \<in> set (pc_dependencies (cl c))"
    then obtain fp where "map_of resolved (cls_name cl d) = Some fp" using assms(2) by blast
    then show "rbind (dict_item resolved (cls_name cl d)) (\<lambda>fp. Inr (cls_name cl d, fp)) =
        Inr (cls_name cl d, the (map_of resolved (cls_name cl d)))" by (simp add: dict_item_def)
  qed
  with False show ?thesis by (simp add: node_fingerprint_def Let_def)
qed

lemma plan_reason_iff:
  "plan_reason cl dirty (cache_get C \<lparr>ck_project_id = project_id, ck_projection_name = cls_name cl c,
        ck_projection_version = pc_version (cl c)\<rparr>) fp c = None \<longleftrightarrow>
     (\<forall>d \<in> set (pc_dependencies (cl c)). cls_name cl d \<notin> set dirty) \<and> fresh cl project_id C fp c"
  by (auto simp: plan_reason_def fresh_def Let_def filter_empty_conv split: option.splits)

lemma plan_step_inv:
  assumes "plan_inv cl project_id C ds s" "set (pc_dependencies (cl c)) \<subseteq> set ds"
    and "cls_name cl c \<notin> cls_name cl ` set ds"
    and "\<forall>x \<in> set ds. set (pc_dependencies (cl x)) \<subseteq> set ds"
    and "pc_projection_kind (cl c) = BASE \<longrightarrow> (\<exists>fp. map_of current (cls_name cl c) = Some fp \<and> fp \<noteq> [])"
  shows "\<exists>s'. plan_step h cl project_id current C s c = Inr s' \<and> plan_inv cl project_id C (ds @ [c]) s'"
proof -
  let ?n = "cls_name cl c"
  have dom: "dom (map_of (pl_resolved_fingerprints s)) = cls_name cl ` set ds"
    and dirty: "set (pl_dirty_nodes s) \<subseteq> cls_name cl ` set ds"
    using assms(1) by (simp_all add: plan_inv_def)
  have "cls_name cl ` set (pc_dependencies (cl c)) \<subseteq> dom (map_of (pl_resolved_fingerprints s))"
    using assms(2) dom by blast
  then obtain fp where fp: "node_fingerprint h cl current (pl_resolved_fingerprints s) c = Inr fp"
    using node_fingerprint_defined [of cl c current "pl_resolved_fingerprints s" h] assms(5) by blast
  let ?entry = "cache_get C \<lparr>ck_project_id = project_id, ck_projection_name = ?n, ck_projection_version = pc_version (cl c)\<rparr>"
  let ?res = "AList.update ?n fp (pl_resolved_fingerprints s)"
  have nd: "?n \<notin> set (pl_dirty_nodes s)" using dirty assms(3) by blast
  have differ: "cls_name cl x \<noteq> ?n" if "x \<in> set ds" for x
    using assms(3) imageI [OF that, of "cls_name cl"] by metis
  have old: "dict_get ?res (cls_name cl x) [] = dict_get (pl_resolved_fingerprints s) (cls_name cl x) []"
    if "x \<in> set ds" for x
    using differ [OF that] by (simp add: dict_get_def)
  have new: "dict_get ?res ?n [] = fp" by (simp add: dict_get_def)
  have deps: "cls_name cl d \<noteq> ?n" if "d \<in> set (pc_dependencies (cl x))" "x \<in> set (ds @ [c])" for d x
    using that assms(2,4) by (intro differ) auto
  define D where "D = (if plan_reason cl (pl_dirty_nodes s) ?entry fp c = None then pl_dirty_nodes s
    else List.insert ?n (pl_dirty_nodes s))"
  have D: "x \<in> set D \<longleftrightarrow> x \<in> set (pl_dirty_nodes s) \<or> (x = ?n \<and> plan_reason cl (pl_dirty_nodes s) ?entry fp c \<noteq> None)" for x
    by (auto simp: D_def)
  obtain s' where s': "plan_step h cl project_id current C s c = Inr s'" "pl_resolved_fingerprints s' = ?res"
    "pl_dirty_nodes s' = D"
    "pl_ordered_nodes s' = pl_ordered_nodes s @ (if ?n \<in> set D then [?n] else [])"
    "pl_unchanged_nodes s' = pl_unchanged_nodes s @ (if ?n \<in> set D then [] else [?n])"
    using fp nd by (cases "plan_reason cl (pl_dirty_nodes s) ?entry fp c") (simp_all add: plan_step_def Let_def D_def)
  have same: "n \<in> set D \<longleftrightarrow> n \<in> set (pl_dirty_nodes s)" if "n \<noteq> ?n" for n using that D by simp
  have "filter (\<lambda>n. n \<in> set D) (map (cls_name cl) ds) = filter (\<lambda>n. n \<in> set (pl_dirty_nodes s)) (map (cls_name cl) ds)"
    "filter (\<lambda>n. n \<notin> set D) (map (cls_name cl) ds) = filter (\<lambda>n. n \<notin> set (pl_dirty_nodes s)) (map (cls_name cl) ds)"
    using same differ by (auto intro!: filter_cong)
  moreover have "?n \<in> set D \<longleftrightarrow> (\<exists>d \<in> set (pc_dependencies (cl c)). cls_name cl d \<in> set D) \<or> \<not> fresh cl project_id C fp c"
    using D [of ?n] nd plan_reason_iff [of cl "pl_dirty_nodes s" C project_id c fp] same deps [of _ c] by auto
  moreover have "cls_name cl x \<in> set D \<longleftrightarrow> (\<exists>d \<in> set (pc_dependencies (cl x)). cls_name cl d \<in> set D) \<or>
      \<not> fresh cl project_id C (dict_get ?res (cls_name cl x) []) x" if "x \<in> set ds" for x
    using assms(1) that old [OF that] same differ [OF that] deps [of _ x] by (auto simp: plan_inv_def)
  moreover have "dom (map_of ?res) = cls_name cl ` set (ds @ [c])" using dom by (auto simp: dom_def)
  moreover have "set D \<subseteq> cls_name cl ` set (ds @ [c])" using dirty D by auto
  moreover have "pl_ordered_nodes s = filter (\<lambda>n. n \<in> set (pl_dirty_nodes s)) (map (cls_name cl) ds)"
    "pl_unchanged_nodes s = filter (\<lambda>n. n \<notin> set (pl_dirty_nodes s)) (map (cls_name cl) ds)"
    using assms(1) by (simp_all add: plan_inv_def)
  ultimately have "plan_inv cl project_id C (ds @ [c]) s'"
    unfolding plan_inv_def s'(2-5) by (simp add: new)
  with s'(1) show ?thesis by blast
qed

lemma in_order_prefix:
  assumes "in_order cl (ds @ c # es)"
  shows "set (pc_dependencies (cl c)) \<subseteq> set ds" "c \<notin> set ds" "\<forall>x \<in> set ds. set (pc_dependencies (cl x)) \<subseteq> set ds"
proof -
  have nth: "set (pc_dependencies (cl ((ds @ c # es) ! i))) \<subseteq> set (take i (ds @ c # es))" if "i \<le> length ds" for i
  proof -
    have "i < length (ds @ c # es)" using that by simp
    then show ?thesis using assms unfolding in_order_def by blast
  qed
  from nth [of "length ds"] show "set (pc_dependencies (cl c)) \<subseteq> set ds" by simp
  from assms show "c \<notin> set ds" by (simp add: in_order_def)
  show "\<forall>x \<in> set ds. set (pc_dependencies (cl x)) \<subseteq> set ds"
  proof
    fix x assume "x \<in> set ds"
    then obtain i where i: "i < length ds" "x = ds ! i" by (auto simp: in_set_conv_nth)
    with nth [of i] have "set (pc_dependencies (cl x)) \<subseteq> set (take i ds)" by (simp add: nth_append)
    then show "set (pc_dependencies (cl x)) \<subseteq> set ds" by (meson set_take_subset subset_trans)
  qed
qed

lemma plan_loop:
  assumes "in_order cl (ds @ es)" "inj_on (cls_name cl) (set (ds @ es))"
    and "\<forall>c \<in> set (ds @ es). pc_projection_kind (cl c) = BASE \<longrightarrow> (\<exists>fp. map_of current (cls_name cl c) = Some fp \<and> fp \<noteq> [])"
  shows "\<exists>s. rfold (plan_step h cl project_id current C) plan_init ds = Inr s \<and> plan_inv cl project_id C ds s"
  using assms
proof (induction ds arbitrary: es rule: rev_induct)
  case Nil
  then show ?case by (simp add: plan_inv_def plan_init_def)
next
  case (snoc c ds)
  obtain s where s: "rfold (plan_step h cl project_id current C) plan_init ds = Inr s" "plan_inv cl project_id C ds s"
    using snoc.IH [of "c # es"] snoc.prems by auto
  note order = in_order_prefix [of cl ds c es]
  have "cls_name cl c \<notin> cls_name cl ` set ds"
    using snoc.prems(1,2) order(2) by (auto simp: inj_on_def)
  then obtain s' where "plan_step h cl project_id current C s c = Inr s'" "plan_inv cl project_id C (ds @ [c]) s'"
    using plan_step_inv [OF s(2), of c current h] order snoc.prems by auto
  with s(1) show ?case by (simp add: rfold_append)
qed

text \<open>The fingerprints do not depend on the cache.\<close>

lemma plan_loop_fingerprints:
  "rfold (plan_step h cl project_id current C) s cs = Inr s1 \<Longrightarrow>
   rfold (plan_step h cl project_id current C') s' cs = Inr s2 \<Longrightarrow>
   pl_resolved_fingerprints s = pl_resolved_fingerprints s' \<Longrightarrow>
   pl_resolved_fingerprints s1 = pl_resolved_fingerprints s2"
proof (induction cs arbitrary: s s')
  case (Cons c cs)
  have step: "pl_resolved_fingerprints t = AList.update (cls_name cl c) fp (pl_resolved_fingerprints u)"
    if "plan_step h cl project_id current K u c = Inr t"
      "node_fingerprint h cl current (pl_resolved_fingerprints u) c = Inr fp" for K :: "'z ProjectionCache" and u t fp
    using that by (auto simp: plan_step_def Let_def split: option.splits)
  from Cons.prems obtain t t' where t: "plan_step h cl project_id current C s c = Inr t"
    "rfold (plan_step h cl project_id current C) t cs = Inr s1"
    "plan_step h cl project_id current C' s' c = Inr t'" "rfold (plan_step h cl project_id current C') t' cs = Inr s2"
    by auto
  then obtain fp where fp: "node_fingerprint h cl current (pl_resolved_fingerprints s) c = Inr fp"
    by (auto simp: plan_step_def Let_def)
  have "pl_resolved_fingerprints t = pl_resolved_fingerprints t'"
    using step [OF t(1) fp] step [OF t(3), of fp] fp Cons.prems(3) by simp
  from Cons.IH [OF t(2,4) this] show ?case .
qed simp

lemma topological_sorted:
  assumes "registry_inv cl R" "topological_sort cl R = Inr order"
  shows "mset order = mset (pr_classes R)" "in_order cl order" "well_formed cl (set (pr_classes R))"
    "compute_order cl (pr_classes R) = Inr order" "set order = set (pr_classes R)"
proof -
  have d: "distinct (pr_classes R)" using assms(1) by (simp add: registry_inv_def)
  show wf: "well_formed cl (set (pr_classes R))" and c: "compute_order cl (pr_classes R) = Inr order"
    using assms(2) validate_iff [OF d] by (auto simp: topological_sort_def)
  show "mset order = mset (pr_classes R)" "in_order cl order"
    using compute_order_result [OF d wf] c by auto
  then show "set order = set (pr_classes R)" using mset_eq_setD by blast
qed

lemma plan_inv_extend:
  "plan_inv cl project_id C ds (PlanState.extend s m) = plan_inv cl project_id C ds (s :: PlanState)"
  by (simp add: plan_inv_def PlanState.defs)

lemma rebuild_plan_result:
  assumes "registry_inv cl R" "topological_sort cl R = Inr order"
    and "\<forall>c \<in> set (pr_classes R). pc_projection_kind (cl c) = BASE \<longrightarrow>
      (\<exists>fp. map_of current (cls_name cl c) = Some fp \<and> fp \<noteq> [])"
  obtains p s where "rebuild_plan h cl project_id current C R = Inr p"
    "rfold (plan_step h cl project_id current C) plan_init order = Inr s"
    "plan_inv cl project_id C order p" "pl_resolved_fingerprints p = pl_resolved_fingerprints s"
proof -
  note order = topological_sorted [OF assms(1,2)]
  have "inj_on (cls_name cl) (set order)" using order(3,5) by (simp add: well_formed_def)
  then obtain s where "rfold (plan_step h cl project_id current C) plan_init order = Inr s"
    "plan_inv cl project_id C order s"
    using plan_loop [of cl order "[]" current h project_id C] order(2,5) assms(3) by auto
  then show ?thesis
    using assms(2) by (intro that [of "PlanState.extend s (RebuildPlan.fields
        \<lparr>rm_cache_hits = length (pl_unchanged_nodes s), rm_cache_misses = length (pl_ordered_nodes s),
         rm_dirty_count = length (pl_dirty_nodes s), rm_scheduled_count = length (pl_ordered_nodes s)\<rparr>)" s])
      (simp_all add: rebuild_plan_def plan_inv_extend, simp add: PlanState.defs)
qed

section \<open>Properties\<close>

definition sample_classes :: classes where
  "sample_classes c =
     (let v = \<lparr>sv_major = 1, sv_minor = 0, sv_patch = 0\<rparr> in
      if c = ''A'' then \<lparr>pc_projection_name = ''a'', pc_version = v, pc_projection_kind = BASE, pc_dependencies = [],
        pc_build_priority = 1\<rparr>
      else if c = ''B'' then \<lparr>pc_projection_name = ''b'', pc_version = v, pc_projection_kind = DERIVED,
        pc_dependencies = [''A''], pc_build_priority = 1\<rparr>
      else \<lparr>pc_projection_name = ''c'', pc_version = v, pc_projection_kind = COMPOSITE,
        pc_dependencies = [''A'', ''B''], pc_build_priority = 1\<rparr>)"

definition sample_registry :: "cls_id list \<Rightarrow> ProjectionRegistry" where
  "sample_registry cs = \<lparr>pr_projections = map (\<lambda>c. (cls_name sample_classes c, c)) cs, pr_classes = cs\<rparr>"

lemma sample_registry_inv: "registry_inv sample_classes (sample_registry [''C'', ''A'', ''B''])"
  by (simp add: registry_inv_def sample_registry_def sample_classes_def wf_dict_def)

lemma sample_sorted: "topological_sort sample_classes (sample_registry [''C'', ''A'', ''B'']) = Inr [''A'', ''B'', ''C'']"
  by code_simp

text \<open>The registry finds a build order exactly when there is one.  For a registry filled by
  registration, sorting succeeds if and only if names are unique, every dependency is registered, the
  kinds respect their boundaries and the dependency relation has no cycle.\<close>

theorem topological_sort_exists:
  assumes "registry_inv cl R"
  shows "(\<exists>order. topological_sort cl R = Inr order) \<longleftrightarrow> well_formed cl (set (pr_classes R))"
proof -
  have d: "distinct (pr_classes R)" using assms by (simp add: registry_inv_def)
  show ?thesis
    using validate_iff [OF d, of cl] compute_order_result [OF d, of cl]
    by (auto simp: topological_sort_def)
qed

theorem topological_sort_exists_witness:
  "well_formed sample_classes {''C'', ''A'', ''B''}"
  using topological_sort_exists [OF sample_registry_inv] sample_sorted by (simp add: sample_registry_def)

text \<open>Property C16: the build order is topological.  If sorting a registry succeeds, the order holds every
  registered class exactly once, and each class after all of its dependencies.\<close>

theorem topological_sort_correct:
  assumes "registry_inv cl R" "topological_sort cl R = Inr order"
  shows "mset order = mset (pr_classes R) \<and>
    (\<forall>i < length order. set (pc_dependencies (cl (order ! i))) \<subseteq> set (take i order))"
  using topological_sorted(1,2) [OF assms] by (simp add: in_order_def)

theorem topological_sort_correct_witness:
  "mset [''A'', ''B'', ''C''] = mset [''C'', ''A'', ''B''] \<and>
   set (pc_dependencies (sample_classes ''C'')) \<subseteq> {''A'', ''B''}"
  using topological_sort_correct [OF sample_registry_inv sample_sorted]
    topological_sort_correct [OF sample_registry_inv sample_sorted, THEN conjunct2, rule_format, of 2]
  by (simp add: sample_registry_def numeral_2_eq_2)

text \<open>The build order is deterministic.  It depends on the registered classes only: whatever the
  order in which Python iterates over the set of classes, sorting gives the same list.\<close>

theorem topological_sort_deterministic:
  assumes "registry_inv cl R" "topological_sort cl R = Inr order" "mset (pr_classes R') = mset (pr_classes R)"
  shows "topological_sort cl R' = Inr order"
proof -
  have d: "distinct (pr_classes R)" using assms(1) by (simp add: registry_inv_def)
  have d': "distinct (pr_classes R')" and set: "set (pr_classes R') = set (pr_classes R)"
    using d assms(3) mset_eq_imp_distinct_iff mset_eq_setD by (blast, blast)
  have wf: "well_formed cl (set (pr_classes R))" and order: "compute_order cl (pr_classes R) = Inr order"
    using assms(2) validate_iff [OF d] by (auto simp: topological_sort_def)
  have "validate cl R' = Inr ()" using validate_iff [OF d', of cl] wf set by simp
  with compute_order_perm [OF d assms(3) [symmetric] wf] order show ?thesis by (simp add: topological_sort_def)
qed

theorem topological_sort_deterministic_witness:
  "topological_sort sample_classes (sample_registry [''B'', ''C'', ''A'']) = Inr [''A'', ''B'', ''C'']"
  by (rule topological_sort_deterministic [OF sample_registry_inv sample_sorted]) (simp add: sample_registry_def)


definition sample_cache :: "unit ProjectionCache" where
  "sample_cache = [(\<lparr>ck_project_id = ''p'', ck_projection_name = ''a'', ck_projection_version = pc_version (sample_classes ''A'')\<rparr>,
     \<lparr>ce_compiled_projection = (), ce_fingerprint = ''f'', ce_version = pc_version (sample_classes ''A''),
      ce_build_time = [], ce_build_duration_ms = []\<rparr>)]"




text \<open>Nothing is rebuilt twice.  If after executing a plan the cache has, for every projection,
  an entry with the fingerprint and version of the plan, then planning again with the same inputs
  schedules nothing.\<close>

theorem rebuild_plan_idle:
  assumes "registry_inv cl R" "rebuild_plan h cl project_id current C R = Inr p"
    and "\<forall>c \<in> set (pr_classes R). pc_projection_kind (cl c) = BASE \<longrightarrow>
      (\<exists>fp. map_of current (cls_name cl c) = Some fp \<and> fp \<noteq> [])"
    and "\<forall>c \<in> set (pr_classes R). fresh cl project_id C' (dict_get (pl_resolved_fingerprints p) (cls_name cl c) []) c"
  shows "\<exists>p'. rebuild_plan h cl project_id current C' R = Inr p' \<and> pl_ordered_nodes p' = []"
proof -
  obtain order where order: "topological_sort cl R = Inr order" using assms(2) by (auto simp: rebuild_plan_def)
  note sorted = topological_sorted [OF assms(1) order]
  obtain p' s' where p': "rebuild_plan h cl project_id current C' R = Inr p'"
    "rfold (plan_step h cl project_id current C') plan_init order = Inr s'"
    "plan_inv cl project_id C' order p'" "pl_resolved_fingerprints p' = pl_resolved_fingerprints s'"
    by (rule rebuild_plan_result [OF assms(1) order assms(3)])
  have "pl_resolved_fingerprints p = pl_resolved_fingerprints s'"
    using assms(2) plan_loop_fingerprints [of h cl project_id current C plan_init order _ C' plan_init s'] p'(2)
    by (auto simp: rebuild_plan_def order PlanState.defs)
  then have stale: "cls_name cl c \<in> set (pl_dirty_nodes p') \<longleftrightarrow>
      (\<exists>d \<in> set (pc_dependencies (cl c)). cls_name cl d \<in> set (pl_dirty_nodes p'))" if "c \<in> set order" for c
    using p'(3,4) assms(4) that sorted(5) by (auto simp: plan_inv_def)
  have clean: "cls_name cl (order ! i) \<notin> set (pl_dirty_nodes p')" if "i < length order" for i
    using that
  proof (induction i rule: less_induct)
    case (less i)
    have "cls_name cl d \<notin> set (pl_dirty_nodes p')" if "d \<in> set (pc_dependencies (cl (order ! i)))" for d
    proof -
      have "d \<in> set (take i order)" using sorted(2) less.prems that by (auto simp: in_order_def)
      then obtain j where "j < i" "d = order ! j" using less.prems by (auto simp: in_set_conv_nth)
      with less show ?thesis by simp
    qed
    with stale [of "order ! i"] less.prems show ?case by simp
  qed
  have "filter (\<lambda>n. n \<in> set (pl_dirty_nodes p')) (map (cls_name cl) order) = []"
    using clean by (auto simp: filter_empty_conv in_set_conv_nth)
  with p' show ?thesis by (auto simp: plan_inv_def)
qed

theorem rebuild_plan_idle_witness:
  "\<exists>p'. rebuild_plan sample_host sample_classes ''p'' [(''a'', ''f'')] sample_cache (sample_registry [''A'']) = Inr p' \<and>
     pl_ordered_nodes p' = []"
proof -
  have inv: "registry_inv sample_classes (sample_registry [''A''])"
    by (simp add: registry_inv_def sample_registry_def sample_classes_def wf_dict_def)
  have sorted: "topological_sort sample_classes (sample_registry [''A'']) = Inr [''A'']" by code_simp
  obtain p where p: "rebuild_plan sample_host sample_classes ''p'' [(''a'', ''f'')] ([] :: unit ProjectionCache)
      (sample_registry [''A'']) = Inr p" "pl_resolved_fingerprints p = [(''a'', ''f'')]"
    by (simp add: rebuild_plan_def sorted plan_step_def node_fingerprint_def plan_reason_def plan_init_def
        cache_get_def sample_classes_def Let_def PlanState.defs RebuildPlan.defs)
  show ?thesis
    by (rule rebuild_plan_idle [OF inv p(1)])
      (simp_all add: p(2) sample_registry_def sample_classes_def fresh_def cache_get_def sample_cache_def dict_get_def)
qed

end
