(* ===== verification/EventStore.thy ===== *)
theory EventStore
  imports SchemaEvents
begin

text \<open>
  The event store on SQLite, \<open>rationalevault/db/sqlite_store.py\<close>: the table of events with its
  autoincrement key and its two uniqueness constraints, and the table of snapshots.  Metadata and
  payload columns hold JSON text.

  What a call draws from the outside, the fresh UUID and the clock, are arguments.  Times are the text
  \<open>isoformat\<close> writes, which \<open>fromisoformat\<close> reads back.  The autoincrement counter and the
  versions stay below the 64-bit limit of SQLite.
\<close>

section \<open>Tables\<close>

record EventRow =
  ev_event_sequence :: int
  ev_id :: string
  ev_project_id :: string
  ev_stream_id :: string
  ev_version :: int
  ev_event_type :: string
  ev_metadata :: string
  ev_payload :: string
  ev_parent_id :: "string option"
  ev_recorded_at :: string

record SnapshotRow =
  sr_id :: string
  sr_project_id :: string
  sr_projection_name :: string
  sr_sequence :: int
  sr_payload :: string
  sr_schema_version :: int
  sr_projection_version :: int
  sr_snapshot_hash :: string

text \<open>\<open>st_autoincrement\<close> is the entry of the table in \<open>sqlite_sequence\<close>.\<close>

record SQLiteEventStore =
  st_events :: "EventRow list"
  st_autoincrement :: int
  st_snapshots :: "SnapshotRow list"

definition store_init :: SQLiteEventStore where
  "store_init = \<lparr>st_events = [], st_autoincrement = 0, st_snapshots = []\<rparr>"

definition coalesce_max :: "int list \<Rightarrow> int" where
  "coalesce_max xs = (if xs = [] then 0 else Max (set xs))"

section \<open>Appending\<close>

text \<open>The arguments of \<open>append_event\<close>, with the UUID and the time the call draws.\<close>

record EventRequest =
  rq_project_id :: string
  rq_stream_id :: string
  rq_event_type :: EventType
  rq_payload :: payload
  rq_metadata :: EventMetadata
  rq_parent_id :: "string option"
  rq_uuid :: string
  rq_now :: string

definition metadata_json :: "EventMetadata \<Rightarrow> json" where
  "metadata_json m = JDict (map (\<lambda>(k, v). (k, JStr v)) (metadata_to_dict m))"

text \<open>The schema version of a record is whatever the payload says; a record holds an int.\<close>

definition payload_schema_version :: "payload \<Rightarrow> int result" where
  "payload_schema_version p =
     (case map_of p ''schema_version'' of
        None \<Rightarrow> Inr 1
      | Some (JInt n) \<Rightarrow> Inr n
      | Some _ \<Rightarrow> Inl (Untyped ''EventRecord.schema_version''))"

definition next_version :: "SQLiteEventStore \<Rightarrow> string \<Rightarrow> int" where
  "next_version st pid = coalesce_max (map ev_version (filter (\<lambda>r. ev_project_id r = pid) (st_events st))) + 1"

definition row_of_request :: "SQLiteEventStore \<Rightarrow> EventRequest \<Rightarrow> EventRow" where
  "row_of_request st q =
     \<lparr>ev_event_sequence = st_autoincrement st + 1, ev_id = rq_uuid q, ev_project_id = rq_project_id q,
      ev_stream_id = rq_stream_id q, ev_version = next_version st (rq_project_id q),
      ev_event_type = event_type_value (rq_event_type q),
      ev_metadata = json_dumps default_format False (metadata_json (rq_metadata q)),
      ev_payload = json_dumps default_format False (JDict (rq_payload q)),
      ev_parent_id = rq_parent_id q, ev_recorded_at = rq_now q\<rparr>"

definition append_event :: "SQLiteEventStore \<Rightarrow> EventRequest \<Rightarrow> SQLiteEventStore \<times> EventRecord result" where
  "append_event st q =
     (let r = row_of_request st q in
      if list_ex (\<lambda>x. ev_id x = ev_id r \<or> (ev_project_id x = ev_project_id r \<and> ev_version x = ev_version r))
           (st_events st)
        then (st, Inl IntegrityError)
      else
        (st\<lparr>st_events := st_events st @ [r], st_autoincrement := st_autoincrement st + 1\<rparr>,
         rbind (payload_schema_version (rq_payload q)) (\<lambda>sv.
           Inr \<lparr>er_event_sequence = ev_event_sequence r, er_id = ev_id r, er_project_id = ev_project_id r,
                er_stream_id = ev_stream_id r, er_version = ev_version r, er_event_type = rq_event_type q,
                er_metadata = rq_metadata q, er_payload = rq_payload q, er_parent_id = rq_parent_id q,
                er_recorded_at = Some (rq_now q), er_schema_version = sv\<rparr>)))"

section \<open>Reading\<close>

text \<open>Metadata read back: the values are texts, as \<open>to_dict\<close> writes them.\<close>

definition metadata_of_json :: "json \<Rightarrow> EventMetadata result" where
  "metadata_of_json v =
     (case v of
        JDict d \<Rightarrow> rbind (rmap (\<lambda>(k, w). case w of JStr s \<Rightarrow> Inr (k, s) | _ \<Rightarrow> Inl (Untyped ''EventMetadata'')) d)
          (\<lambda>ss. if map_of ss ''correlation_id'' = None \<or> map_of ss ''session_id'' = None
             then Inl (Untyped ''fresh UUID'') else Inr (metadata_from_dict [] [] ss))
      | _ \<Rightarrow> Inl (AttributeError ''get''))"

definition row_to_record :: "EventRow \<Rightarrow> EventRecord result" where
  "row_to_record r =
     rbind (json_loads (ev_metadata r)) (\<lambda>raw_metadata.
     rbind (json_loads (ev_payload r)) (\<lambda>raw_payload.
     case raw_payload of
       JDict p \<Rightarrow>
         rbind (payload_schema_version p) (\<lambda>sv.
         rbind (event_type_of (JStr (ev_event_type r))) (\<lambda>t.
         rbind (metadata_of_json raw_metadata) (\<lambda>m.
         Inr \<lparr>er_event_sequence = ev_event_sequence r, er_id = ev_id r, er_project_id = ev_project_id r,
              er_stream_id = ev_stream_id r, er_version = ev_version r, er_event_type = t, er_metadata = m,
              er_payload = p, er_parent_id = (if ev_parent_id r = Some [] then None else ev_parent_id r),
              er_recorded_at = Some (ev_recorded_at r),
              er_schema_version = sv\<rparr>)))
     | _ \<Rightarrow> Inl (Untyped ''EventRecord.payload'')))"

text \<open>The shared statement: rows that satisfy a condition in the order of the key.\<close>

definition select_events :: "SQLiteEventStore \<Rightarrow> (EventRow \<Rightarrow> bool) \<Rightarrow> EventRow list" where
  "select_events st P = sort_key ev_event_sequence (filter P (st_events st))"

definition get_project_stream :: "SQLiteEventStore \<Rightarrow> string \<Rightarrow> int \<Rightarrow> EventRecord list result" where
  "get_project_stream st pid since =
     (if \<not> fits64 since then Inl OverflowError
      else rmap row_to_record (select_events st (\<lambda>r. ev_project_id r = pid \<and> since < ev_event_sequence r)))"

text \<open>The iterator of the same rows: what each step yields or raises, a raise being the last step.\<close>

fun until_raise :: "'a result list \<Rightarrow> 'a result list" where
  "until_raise [] = []"
| "until_raise (Inl e # rs) = [Inl e]"
| "until_raise (Inr x # rs) = Inr x # until_raise rs"

definition iterate_stream :: "SQLiteEventStore \<Rightarrow> string \<Rightarrow> int \<Rightarrow> EventRecord result list" where
  "iterate_stream st pid since =
     (if \<not> fits64 since then [Inl OverflowError]
      else until_raise (map row_to_record
        (select_events st (\<lambda>r. ev_project_id r = pid \<and> since < ev_event_sequence r))))"

lemma rmap_until_raise: "rmap f xs = Inr ys \<longleftrightarrow> until_raise (map f xs) = map Inr ys"
proof (induction xs arbitrary: ys)
  case (Cons x xs)
  show ?case
  proof (cases "f x")
    case (Inl e)
    then show ?thesis by (cases ys) auto
  next
    case (Inr y)
    then show ?thesis using Cons.IH by (cases ys) auto
  qed
qed auto

lemma iterate_stream_all: "get_project_stream st pid since = Inr es \<Longrightarrow> iterate_stream st pid since = map Inr es"
  by (simp add: get_project_stream_def iterate_stream_def rmap_until_raise split: if_splits)

definition get_stream :: "SQLiteEventStore \<Rightarrow> string \<Rightarrow> string \<Rightarrow> int \<Rightarrow> EventRecord list result" where
  "get_stream st pid sid since =
     (if \<not> fits64 since then Inl OverflowError
      else rmap row_to_record (select_events st
        (\<lambda>r. ev_project_id r = pid \<and> ev_stream_id r = sid \<and> since < ev_event_sequence r)))"

definition get_event_count :: "SQLiteEventStore \<Rightarrow> string \<Rightarrow> nat" where
  "get_event_count st pid = length (filter (\<lambda>r. ev_project_id r = pid) (st_events st))"

definition get_latest_sequence :: "SQLiteEventStore \<Rightarrow> string \<Rightarrow> int" where
  "get_latest_sequence st pid =
     coalesce_max (map ev_event_sequence (filter (\<lambda>r. ev_project_id r = pid) (st_events st)))"

text \<open>A negative limit is no limit.\<close>

definition get_recent_events :: "SQLiteEventStore \<Rightarrow> string \<Rightarrow> int \<Rightarrow> EventRecord list result" where
  "get_recent_events st pid lim =
     (if \<not> fits64 lim then Inl OverflowError
      else
        let rows = sort_key (\<lambda>r. - ev_event_sequence r) (filter (\<lambda>r. ev_project_id r = pid) (st_events st))
        in rmap row_to_record (if lim < 0 then rows else take (nat lim) rows))"

text \<open>\<open>json_extract(metadata, '$.session_id')\<close>: NULL where there is no such text.\<close>

definition session_of :: "EventRow \<Rightarrow> string option result" where
  "session_of r =
     (case json_loads (ev_metadata r) of
        Inl _ \<Rightarrow> Inl (RuntimeError ''malformed JSON'')
      | Inr (JDict d) \<Rightarrow> Inr (case map_of d ''session_id'' of Some (JStr s) \<Rightarrow> Some s | _ \<Rightarrow> None)
      | Inr _ \<Rightarrow> Inr None)"

definition get_session_events :: "SQLiteEventStore \<Rightarrow> string \<Rightarrow> string \<Rightarrow> EventRecord list result" where
  "get_session_events st pid sid =
     (let rows = select_events st (\<lambda>r. ev_project_id r = pid) in
      rbind (rmap session_of rows) (\<lambda>ss.
      rmap row_to_record (map fst (filter (\<lambda>(r, s). s = Some sid) (zip rows ss)))))"

definition get_last_session_id :: "SQLiteEventStore \<Rightarrow> string \<Rightarrow> string option result" where
  "get_last_session_id st pid =
     (case sort_key (\<lambda>r. - ev_event_sequence r) (filter (\<lambda>r. ev_project_id r = pid) (st_events st)) of
        [] \<Rightarrow> Inr None | r # _ \<Rightarrow> session_of r)"

section \<open>Snapshots\<close>

record RawSnapshot =
  raw_payload :: json
  raw_schema_version :: int
  raw_projection_version :: int
  raw_sequence :: int
  raw_snapshot_hash :: string

definition latest_snapshot_row :: "SQLiteEventStore \<Rightarrow> string \<Rightarrow> string \<Rightarrow> SnapshotRow option" where
  "latest_snapshot_row st pid name =
     (case sort_key (\<lambda>r. - sr_sequence r)
        (filter (\<lambda>r. sr_project_id r = pid \<and> sr_projection_name r = name) (st_snapshots st)) of
        [] \<Rightarrow> None | r # _ \<Rightarrow> Some r)"

definition load_latest_raw :: "SQLiteEventStore \<Rightarrow> string \<Rightarrow> string \<Rightarrow> RawSnapshot option result" where
  "load_latest_raw st pid name =
     (case latest_snapshot_row st pid name of
        None \<Rightarrow> Inr None
      | Some r \<Rightarrow> rbind (json_loads (sr_payload r)) (\<lambda>v.
          Inr (Some \<lparr>raw_payload = v, raw_schema_version = sr_schema_version r,
            raw_projection_version = sr_projection_version r, raw_sequence = sr_sequence r,
            raw_snapshot_hash = sr_snapshot_hash r\<rparr>)))"

text \<open>
  The payload object is given by its four columns and its \<open>to_dict(exclude_hash=True)\<close>; the
  identifier is the fresh UUID of the call.
\<close>

definition insert_snapshot :: "SQLiteEventStore \<Rightarrow> SnapshotRow \<Rightarrow> SQLiteEventStore result" where
  "insert_snapshot st r =
     (if \<not> (fits64 (sr_sequence r) \<and> fits64 (sr_schema_version r) \<and> fits64 (sr_projection_version r))
        then Inl OverflowError
      else if list_ex (\<lambda>x. sr_id x = sr_id r) (st_snapshots st) then Inl IntegrityError
      else Inr (st\<lparr>st_snapshots := st_snapshots st @ [r]\<rparr>))"

definition delete_snapshots_before :: "SQLiteEventStore \<Rightarrow> string \<Rightarrow> string \<Rightarrow> int \<Rightarrow>
    (SQLiteEventStore \<times> nat) result" where
  "delete_snapshots_before st pid name sq =
     (if \<not> fits64 sq then Inl OverflowError
      else
        let old = (\<lambda>r. sr_project_id r = pid \<and> sr_projection_name r = name \<and> sr_sequence r < sq)
        in Inr (st\<lparr>st_snapshots := filter (\<lambda>r. \<not> old r) (st_snapshots st)\<rparr>,
                length (filter old (st_snapshots st))))"

definition get_latest_snapshot_sequence :: "SQLiteEventStore \<Rightarrow> string \<Rightarrow> string \<Rightarrow> int option" where
  "get_latest_snapshot_sequence st pid name = map_option sr_sequence (latest_snapshot_row st pid name)"

section \<open>The log behind the table\<close>

text \<open>
  What the store promises: its table reads back as the list of the records the appends returned,
  numbered without gap, globally by sequence and per project by version.
\<close>

definition store_inv :: "SQLiteEventStore \<Rightarrow> EventRecord list \<Rightarrow> bool" where
  "store_inv st es \<longleftrightarrow>
     rmap row_to_record (st_events st) = Inr es \<and> st_autoincrement st = int (length es) \<and>
     map er_event_sequence es = [1 .. int (length es)] \<and>
     (\<forall>pid. map er_version (filter (\<lambda>e. er_project_id e = pid) es) =
        [1 .. int (length (filter (\<lambda>e. er_project_id e = pid) es))])"

definition request_ok :: "EventRequest \<Rightarrow> bool" where
  "request_ok q \<longleftrightarrow> wf_json (JDict (rq_payload q)) \<and> rq_parent_id q \<noteq> Some [] \<and>
     (case map_of (rq_payload q) ''schema_version'' of None \<Rightarrow> True | Some (JInt _) \<Rightarrow> True | _ \<Rightarrow> False)"

lemma row_to_record_columns:
  "row_to_record r = Inr e \<Longrightarrow>
     er_event_sequence e = ev_event_sequence r \<and> er_id e = ev_id r \<and> er_project_id e = ev_project_id r \<and>
     er_stream_id e = ev_stream_id r \<and> er_version e = ev_version r"
  by (cases "json_loads (ev_metadata r)"; cases "json_loads (ev_payload r)")
    (auto simp: row_to_record_def split: json.splits)

lemma coalesce_max_upto: "0 \<le> n \<Longrightarrow> coalesce_max [1 .. n] = n"
  by (cases "n = 0") (auto simp: coalesce_max_def intro!: Max_eqI)

lemma store_inv_columns:
  assumes "store_inv st es"
  shows "map ev_event_sequence (filter (\<lambda>r. ev_project_id r = pid) (st_events st)) =
      map er_event_sequence (filter (\<lambda>e. er_project_id e = pid) es)"
    and "map ev_version (filter (\<lambda>r. ev_project_id r = pid) (st_events st)) =
      [1 .. int (length (filter (\<lambda>e. er_project_id e = pid) es))]"
    and "map ev_id (st_events st) = map er_id es"
proof -
  have rows: "rmap row_to_record (st_events st) = Inr es" using assms by (simp add: store_inv_def)
  have sel: "rmap row_to_record (filter (\<lambda>r. ev_project_id r = pid) (st_events st)) =
      Inr (filter (\<lambda>e. er_project_id e = pid) es)"
    by (rule rmap_filter [OF rows]) (simp add: row_to_record_columns)
  show "map ev_event_sequence (filter (\<lambda>r. ev_project_id r = pid) (st_events st)) =
      map er_event_sequence (filter (\<lambda>e. er_project_id e = pid) es)"
    by (rule rmap_columns [OF sel]) (simp add: row_to_record_columns)
  have "map ev_version (filter (\<lambda>r. ev_project_id r = pid) (st_events st)) =
      map er_version (filter (\<lambda>e. er_project_id e = pid) es)"
    by (rule rmap_columns [OF sel]) (simp add: row_to_record_columns)
  with assms show "map ev_version (filter (\<lambda>r. ev_project_id r = pid) (st_events st)) =
      [1 .. int (length (filter (\<lambda>e. er_project_id e = pid) es))]" by (simp add: store_inv_def)
  show "map ev_id (st_events st) = map er_id es"
    by (rule rmap_columns [OF rows]) (simp add: row_to_record_columns)
qed

lemma next_version_inv:
  "store_inv st es \<Longrightarrow> next_version st pid = int (length (filter (\<lambda>e. er_project_id e = pid) es)) + 1"
  by (simp add: next_version_def store_inv_columns coalesce_max_upto)

lemma metadata_roundtrip:
  "json_loads (json_dumps default_format False (metadata_json m)) = Inr (metadata_json m)"
  "metadata_of_json (metadata_json m) = Inr m"
proof -
  have "wf_json (metadata_json m)" by (simp add: metadata_json_def metadata_to_dict_def wf_dict_def)
  then show "json_loads (json_dumps default_format False (metadata_json m)) = Inr (metadata_json m)"
    by (intro json_loads_dumps) (simp_all add: wf_format_def default_format_def)
qed (simp add: metadata_of_json_def metadata_json_def metadata_to_dict_def metadata_from_dict_def dict_get_def)

text \<open>The record a request becomes.\<close>

definition record_of :: "int \<Rightarrow> int \<Rightarrow> EventRequest \<Rightarrow> EventRecord" where
  "record_of sq v q =
     \<lparr>er_event_sequence = sq, er_id = rq_uuid q, er_project_id = rq_project_id q, er_stream_id = rq_stream_id q,
      er_version = v, er_event_type = rq_event_type q, er_metadata = rq_metadata q, er_payload = rq_payload q,
      er_parent_id = rq_parent_id q, er_recorded_at = Some (rq_now q),
      er_schema_version = (case map_of (rq_payload q) ''schema_version'' of Some (JInt n) \<Rightarrow> n | _ \<Rightarrow> 1)\<rparr>"

lemma record_of_simps [simp]:
  "er_event_sequence (record_of sq v q) = sq" "er_id (record_of sq v q) = rq_uuid q"
  "er_project_id (record_of sq v q) = rq_project_id q" "er_version (record_of sq v q) = v"
  by (simp_all add: record_of_def)

lemma row_to_record_request:
  assumes "request_ok q"
  shows "row_to_record (row_of_request st q) =
    Inr (record_of (st_autoincrement st + 1) (next_version st (rq_project_id q)) q)"
proof -
  have "json_loads (json_dumps default_format False (JDict (rq_payload q))) = Inr (JDict (rq_payload q))"
    using assms by (intro json_loads_dumps) (simp_all add: request_ok_def wf_format_def default_format_def)
  moreover have "payload_schema_version (rq_payload q) =
      Inr (case map_of (rq_payload q) ''schema_version'' of Some (JInt n) \<Rightarrow> n | _ \<Rightarrow> 1)"
    using assms by (auto simp: request_ok_def payload_schema_version_def split: option.splits json.splits)
  ultimately show ?thesis
    using assms by (simp add: row_to_record_def row_of_request_def metadata_roundtrip record_of_def request_ok_def)
qed

lemma append_event_inv:
  assumes "store_inv st es" "request_ok q" "rq_uuid q \<notin> er_id ` set es"
  defines "e \<equiv> record_of (int (length es) + 1)
      (int (length (filter (\<lambda>e. er_project_id e = rq_project_id q) es)) + 1) q"
  shows "\<exists>st'. append_event st q = (st', Inr e) \<and> store_inv st' (es @ [e])"
proof -
  note col = store_inv_columns [OF assms(1)]
  have ver: "next_version st (rq_project_id q) = int (length (filter (\<lambda>e. er_project_id e = rq_project_id q) es)) + 1"
    by (rule next_version_inv [OF assms(1)])
  have auto: "st_autoincrement st = int (length es)" using assms(1) by (simp add: store_inv_def)
  have rec: "row_to_record (row_of_request st q) = Inr e"
    using row_to_record_request [OF assms(2)] by (simp add: auto ver e_def)
  have "\<not> list_ex (\<lambda>x. ev_id x = ev_id (row_of_request st q) \<or>
      (ev_project_id x = ev_project_id (row_of_request st q) \<and> ev_version x = ev_version (row_of_request st q)))
      (st_events st)"
  proof -
    have "ev_id x \<noteq> rq_uuid q" if "x \<in> set (st_events st)" for x
      using assms(3) arg_cong [OF col(3), of set] that by (metis image_set imageI)
    moreover have "ev_version x \<noteq> next_version st (rq_project_id q)"
      if "x \<in> set (st_events st)" "ev_project_id x = rq_project_id q" for x
    proof -
      have "ev_version x \<in> set (map ev_version (filter (\<lambda>r. ev_project_id r = rq_project_id q) (st_events st)))"
        using that by simp
      then show ?thesis unfolding col(2) ver by simp
    qed
    ultimately show ?thesis by (auto simp: list_ex_iff row_of_request_def)
  qed
  moreover have "payload_schema_version (rq_payload q) = Inr (er_schema_version e)"
    using assms(2) by (auto simp: request_ok_def payload_schema_version_def e_def record_of_def
        split: option.splits json.splits)
  ultimately have "append_event st q =
      (st\<lparr>st_events := st_events st @ [row_of_request st q], st_autoincrement := st_autoincrement st + 1\<rparr>, Inr e)"
    by (simp add: append_event_def Let_def e_def record_of_def row_of_request_def auto ver)
  moreover have "store_inv (st\<lparr>st_events := st_events st @ [row_of_request st q],
      st_autoincrement := st_autoincrement st + 1\<rparr>) (es @ [e])"
    using assms(1) rec by (auto simp: store_inv_def rmap_append e_def upto_snoc add.commute)
  ultimately show ?thesis by blast
qed

text \<open>A sequence of appends: the final store and every answer.\<close>

fun run_events :: "SQLiteEventStore \<Rightarrow> EventRequest list \<Rightarrow> SQLiteEventStore \<times> EventRecord result list" where
  "run_events st [] = (st, [])"
| "run_events st (q # qs) =
     (let (st1, r) = append_event st q; (st2, rs) = run_events st1 qs in (st2, r # rs))"

text \<open>The content of a record as the caller gave it.\<close>

definition content_of :: "EventRecord \<Rightarrow> string \<times> string \<times> EventType \<times> payload \<times> EventMetadata" where
  "content_of e = (er_project_id e, er_stream_id e, er_event_type e, er_payload e, er_metadata e)"

definition content_of_request :: "EventRequest \<Rightarrow> string \<times> string \<times> EventType \<times> payload \<times> EventMetadata" where
  "content_of_request q = (rq_project_id q, rq_stream_id q, rq_event_type q, rq_payload q, rq_metadata q)"

lemma run_events_inv:
  assumes "store_inv st es" "list_all request_ok qs" "distinct (map rq_uuid qs)"
    "er_id ` set es \<inter> rq_uuid ` set qs = {}"
  shows "\<exists>st' fs. run_events st qs = (st', map Inr fs) \<and> store_inv st' (es @ fs) \<and>
    map content_of fs = map content_of_request qs \<and> map er_id fs = map rq_uuid qs"
  using assms
proof (induction qs arbitrary: st es)
  case (Cons q qs)
  obtain st1 e where st1: "append_event st q = (st1, Inr e)" "store_inv st1 (es @ [e])"
    "content_of e = content_of_request q" "er_id e = rq_uuid q"
    using append_event_inv [of st es q] Cons.prems
    by (auto simp: content_of_def content_of_request_def record_of_def)
  have "er_id ` set (es @ [e]) \<inter> rq_uuid ` set qs = {}" using Cons.prems(3,4) st1(4) by auto
  from Cons.IH [OF st1(2) _ _ this] Cons.prems(2,3) obtain st2 fs where
    st2: "run_events st1 qs = (st2, map Inr fs)" "store_inv st2 (es @ e # fs)"
      "map content_of fs = map content_of_request qs" "map er_id fs = map rq_uuid qs"
    by auto
  have "run_events st (q # qs) = (st2, map Inr (e # fs))" using st1(1) st2(1) by (simp add: Let_def)
  with st1 st2 show ?case by (intro exI [of _ st2] exI [of _ "e # fs"]) simp
qed (auto intro!: exI [of _ "[]"])

lemma store_inv_init: "store_inv store_init []"
  by (simp add: store_inv_def store_init_def)

text \<open>The log a sequence of requests leaves, computed without the store.\<close>

fun log_of :: "EventRecord list \<Rightarrow> EventRequest list \<Rightarrow> EventRecord list" where
  "log_of es [] = es"
| "log_of es (q # qs) = log_of (es @ [record_of (int (length es) + 1)
     (int (length (filter (\<lambda>e. er_project_id e = rq_project_id q) es)) + 1) q]) qs"

lemma log_of_stored:
  assumes "store_inv st es" "list_all request_ok qs" "distinct (map rq_uuid qs)"
    "er_id ` set es \<inter> rq_uuid ` set qs = {}"
  shows "\<exists>st'. store_inv st' (log_of es qs)"
  using assms
proof (induction qs arbitrary: st es)
  case (Cons q qs)
  let ?e = "record_of (int (length es) + 1) (int (length (filter (\<lambda>e. er_project_id e = rq_project_id q) es)) + 1) q"
  have "rq_uuid q \<notin> er_id ` set es" "request_ok q" using Cons.prems by auto
  from append_event_inv [OF Cons.prems(1) this(2,1)] obtain st1 where st1: "store_inv st1 (es @ [?e])" by blast
  have "er_id ` set (es @ [?e]) \<inter> rq_uuid ` set qs = {}" using Cons.prems(3,4) by auto
  from Cons.IH [OF st1 _ _ this] Cons.prems(2,3) show ?case by simp
qed auto

section \<open>The interface replay relies on\<close>

text \<open>
  A source of events: \<open>inv\<close> relates a state to the log it holds.  Replay reads a project's events
  after a sequence number, in order, and the number of the last one.
\<close>

locale event_source =
  fixes inv :: "'s \<Rightarrow> EventRecord list \<Rightarrow> bool"
    and stream :: "'s \<Rightarrow> string \<Rightarrow> int \<Rightarrow> EventRecord list result"
    and latest :: "'s \<Rightarrow> string \<Rightarrow> int"
  assumes log_sorted: "inv st es \<Longrightarrow> sorted (map er_event_sequence es)"
    and log_positive: "inv st es \<Longrightarrow> e \<in> set es \<Longrightarrow> 0 < er_event_sequence e"
    and stream_law: "inv st es \<Longrightarrow> fits64 n \<Longrightarrow>
      stream st pid n = Inr (filter (\<lambda>e. er_project_id e = pid \<and> n < er_event_sequence e) es)"
    and latest_law: "inv st es \<Longrightarrow>
      latest st pid = coalesce_max (map er_event_sequence (filter (\<lambda>e. er_project_id e = pid) es))"
begin

lemma full_stream:
  assumes "inv st es"
  shows "stream st pid 0 = Inr (filter (\<lambda>e. er_project_id e = pid) es)"
proof -
  have "filter (\<lambda>e. er_project_id e = pid \<and> 0 < er_event_sequence e) es = filter (\<lambda>e. er_project_id e = pid) es"
    using log_positive [OF assms] by (auto intro!: filter_cong)
  then show ?thesis by (simp add: stream_law [OF assms] fits64_def)
qed

text \<open>Events after a sequence number are a suffix of the stream.\<close>

lemma stream_suffix:
  assumes "inv st es" "fits64 n"
  shows "\<exists>old new. stream st pid 0 = Inr (old @ new) \<and> stream st pid n = Inr new \<and>
    (\<forall>e \<in> set old. er_event_sequence e \<le> n) \<and> (\<forall>e \<in> set new. n < er_event_sequence e)"
proof -
  let ?p = "filter (\<lambda>e. er_project_id e = pid) es"
  have split: "sorted (map er_event_sequence xs) \<Longrightarrow>
      xs = filter (\<lambda>e. er_event_sequence e \<le> n) xs @ filter (\<lambda>e. n < er_event_sequence e) xs" for xs
  proof (induction xs)
    case (Cons x xs)
    show ?case
    proof (cases "er_event_sequence x \<le> n")
      case False
      then have "\<forall>e \<in> set xs. n < er_event_sequence e" using Cons.prems by fastforce
      then have "filter (\<lambda>e. er_event_sequence e \<le> n) xs = []" "filter (\<lambda>e. n < er_event_sequence e) xs = xs"
        by (auto simp: filter_empty_conv filter_id_conv)
      with False show ?thesis by simp
    qed (use Cons in auto)
  qed simp
  have "sorted (map er_event_sequence ?p)" using log_sorted [OF assms(1)] by (rule sorted_filter)
  from split [OF this] have "stream st pid 0 = Inr (filter (\<lambda>e. er_event_sequence e \<le> n) ?p @
      filter (\<lambda>e. n < er_event_sequence e) ?p)"
    using full_stream [OF assms(1), of pid] by simp
  moreover have "stream st pid n = Inr (filter (\<lambda>e. n < er_event_sequence e) ?p)"
    by (simp add: stream_law [OF assms] conj_commute)
  ultimately show ?thesis by (intro exI conjI) auto
qed

end

lemma store_inv_sequences:
  assumes "store_inv st es"
  shows "map ev_event_sequence (st_events st) = [1 .. int (length es)]"
proof -
  have "map ev_event_sequence (st_events st) = map er_event_sequence es"
    using assms by (intro rmap_columns [of row_to_record]) (auto simp: store_inv_def row_to_record_columns)
  with assms show ?thesis by (simp add: store_inv_def)
qed

lemma select_events_inv:
  assumes "store_inv st es"
  shows "select_events st P = filter P (st_events st)"
proof -
  have "sorted (map ev_event_sequence (st_events st))" by (simp add: store_inv_sequences [OF assms])
  then show ?thesis unfolding select_events_def by (intro sort_key_sorted_id sorted_filter)
qed

interpretation sqlite_events: event_source store_inv get_project_stream get_latest_sequence
proof
  fix st es assume inv: "store_inv st es"
  then show "sorted (map er_event_sequence es)" by (simp add: store_inv_def)
  show "0 < er_event_sequence e" if "e \<in> set es" for e
  proof -
    have "er_event_sequence e \<in> set (map er_event_sequence es)" using that by simp
    with inv show ?thesis by (simp only: store_inv_def) simp
  qed
  show "get_latest_sequence st pid =
      coalesce_max (map er_event_sequence (filter (\<lambda>e. er_project_id e = pid) es))" for pid
    by (simp add: get_latest_sequence_def store_inv_columns [OF inv])
  show "get_project_stream st pid n =
      Inr (filter (\<lambda>e. er_project_id e = pid \<and> n < er_event_sequence e) es)" if "fits64 n" for n pid
  proof -
    have rows: "rmap row_to_record (st_events st) = Inr es" using inv by (simp add: store_inv_def)
    have "rmap row_to_record (filter (\<lambda>r. ev_project_id r = pid \<and> n < ev_event_sequence r) (st_events st)) =
        Inr (filter (\<lambda>e. er_project_id e = pid \<and> n < er_event_sequence e) es)"
      by (rule rmap_filter [OF rows]) (simp add: row_to_record_columns)
    with that show ?thesis by (simp add: get_project_stream_def select_events_inv [OF inv])
  qed
qed

section \<open>Properties\<close>

text \<open>Property C13: the event store returns what was appended, in order and numbered without gap.  Appending any
  events with fresh UUIDs succeeds; afterwards reading a project gives exactly the records the appends
  returned for it, with the caller's content, sequence numbers count the whole store from 1, and the versions
  of each project count that project from 1.\<close>

theorem event_store_roundtrip:
  assumes "list_all request_ok qs" "distinct (map rq_uuid qs)"
  shows "\<exists>st es. run_events store_init qs = (st, map Inr es) \<and>
    map content_of es = map content_of_request qs \<and>
    map er_event_sequence es = [1 .. int (length qs)] \<and>
    (\<forall>pid. get_project_stream st pid 0 = Inr (filter (\<lambda>e. er_project_id e = pid) es) \<and>
       map er_version (filter (\<lambda>e. er_project_id e = pid) es) =
         [1 .. int (length (filter (\<lambda>e. er_project_id e = pid) es))])"
proof -
  obtain st es where run: "run_events store_init qs = (st, map Inr es)" "store_inv st es"
    "map content_of es = map content_of_request qs"
    using run_events_inv [OF store_inv_init assms] by auto
  moreover have "length es = length qs" using run(3) by (metis length_map)
  ultimately show ?thesis
    using sqlite_events.full_stream [OF run(2)] by (intro exI [of _ st] exI [of _ es]) (auto simp: store_inv_def)
qed

definition sample_request :: "string \<Rightarrow> string \<Rightarrow> EventType \<Rightarrow> payload \<Rightarrow> EventRequest" where
  "sample_request pid u t p = \<lparr>rq_project_id = pid, rq_stream_id = ''main'', rq_event_type = t, rq_payload = p,
     rq_metadata = \<lparr>em_actor = ''me'', em_source = ''cli'', em_correlation_id = ''c'', em_session_id = ''s''\<rparr>,
     rq_parent_id = None, rq_uuid = u, rq_now = ''2024-01-01T00:00:00+00:00''\<rparr>"

theorem event_store_roundtrip_witness:
  "\<exists>st es. run_events store_init
      [sample_request ''p'' ''u1'' TASK_CREATED [(''a'', JInt 1)], sample_request ''q'' ''u2'' TASK_COMPLETED []] =
        (st, map Inr es) \<and> map er_event_sequence es = [1 .. 2]"
proof -
  let ?qs = "[sample_request ''p'' ''u1'' TASK_CREATED [(''a'', JInt 1)], sample_request ''q'' ''u2'' TASK_COMPLETED []]"
  have "list_all request_ok ?qs" "distinct (map rq_uuid ?qs)"
    by (simp_all add: sample_request_def request_ok_def wf_dict_def)
  from event_store_roundtrip [OF this] obtain st es where
    "run_events store_init ?qs = (st, map Inr es)" "map er_event_sequence es = [1 .. int (length ?qs)]"
    by blast
  moreover have "int (length ?qs) = 2" by simp
  ultimately show ?thesis by metis
qed

text \<open>A colliding UUID is refused without effect.  Appending an event whose UUID is already in
  the store raises IntegrityError and leaves the store, its counter included, exactly as it was.\<close>

theorem append_event_collision:
  assumes "list_all request_ok qs" "distinct (map rq_uuid qs)" "rq_uuid q \<in> rq_uuid ` set qs"
  shows "append_event (fst (run_events store_init qs)) q = (fst (run_events store_init qs), Inl IntegrityError)"
proof -
  obtain st es where run: "run_events store_init qs = (st, map Inr es)" "store_inv st es"
    "map er_id es = map rq_uuid qs"
    using run_events_inv [OF store_inv_init assms(1,2)] by auto
  have "rq_uuid q \<in> set (map ev_id (st_events st))"
    using assms(3) by (simp only: store_inv_columns(3) [OF run(2)] run(3)) simp
  then show ?thesis
    using run(1) by (auto simp: append_event_def Let_def list_ex_iff row_of_request_def)
qed

theorem append_event_collision_witness:
  "append_event (fst (run_events store_init [sample_request ''p'' ''u'' TASK_CREATED []])) (sample_request ''q'' ''u'' TASK_CREATED []) =
     (fst (run_events store_init [sample_request ''p'' ''u'' TASK_CREATED []]), Inl IntegrityError)"
  by (rule append_event_collision) (simp_all add: sample_request_def request_ok_def wf_dict_def)

end
