(* ===== verification/Reducers.thy ===== *)
theory Reducers
  imports EventStore
begin

text \<open>
  The reducers of the cognitive head, \<open>rationalevault/cognitive_head/reducers.py\<close>: folds of a
  project's events into the project, its tasks, decisions and open questions.

  Payload values reach the states unchecked, so every field is a JSON value; an id is a dictionary
  key, and keys are compared after \<open>hash_key\<close>.  States are values: a list that a mutation event
  stores in a task is shared with the event's payload in the program, where a later progress note
  also grows the payload; that effect on the events is not modelled.
\<close>

section \<open>States\<close>

record ProjectState =
  ps_name :: json
  ps_goal :: json
  ps_current_focus :: json
  ps_created_at :: json
  ps_created_by :: json

record TaskState =
  ts_task_id :: json
  ts_title :: json
  ts_description :: json
  ts_status :: json
  ts_assignee :: json
  ts_priority :: json
  ts_tags :: json
  ts_blocked_by :: json
  ts_created_at :: json
  ts_updated_at :: json
  ts_completed_at :: json
  ts_created_by :: json
  ts_progress_notes :: json
  ts_related_knowledge_ids :: json

record DecisionState =
  ds_decision_id :: json
  ds_title :: json
  ds_description :: json
  ds_status :: json
  ds_rationale :: json
  ds_context :: json
  ds_category :: json
  ds_superseded_by :: json
  ds_created_at :: json
  ds_accepted_at :: json
  ds_created_by :: json

record QuestionState =
  qs_question_id :: json
  qs_title :: json
  qs_description :: json
  qs_status :: json
  qs_priority :: json
  qs_resolution :: json
  qs_blocks_task_ids :: json
  qs_raised_at :: json
  qs_resolved_at :: json
  qs_raised_by :: json

type_synonym tasks = "(json, TaskState) dict"
type_synonym decisions = "(json, DecisionState) dict"
type_synonym questions = "(json, QuestionState) dict"

definition default_project :: ProjectState where
  "default_project = \<lparr>ps_name = JStr [], ps_goal = JStr [], ps_current_focus = JStr [],
     ps_created_at = JNull, ps_created_by = JStr []\<rparr>"

text \<open>\<open>event.recorded_at.isoformat() if event.recorded_at else None\<close>.\<close>

definition recorded :: "EventRecord \<Rightarrow> json" where
  "recorded e = (case er_recorded_at e of None \<Rightarrow> JNull | Some t \<Rightarrow> JStr t)"

abbreviation actor :: "EventRecord \<Rightarrow> json" where
  "actor e \<equiv> JStr (em_actor (er_metadata e))"

section \<open>Project\<close>

definition project_step :: "ProjectState \<Rightarrow> EventRecord \<Rightarrow> ProjectState" where
  "project_step s e =
     (let p = er_payload e in
      case er_event_type e of
        PROJECT_CREATED \<Rightarrow> s\<lparr>ps_name := get_or p ''name'' (JStr []), ps_created_at := recorded e,
          ps_created_by := actor e\<rparr>
      | PROJECT_GOAL_SET \<Rightarrow> s\<lparr>ps_goal := get_or p ''goal'' (JStr [])\<rparr>
      | PROJECT_FOCUS_CHANGED \<Rightarrow> s\<lparr>ps_current_focus := get_or p ''focus'' (JStr [])\<rparr>
      | _ \<Rightarrow> s)"

definition project_reduce :: "ProjectState option \<Rightarrow> EventRecord list \<Rightarrow> ProjectState" where
  "project_reduce init es = foldl project_step (case init of None \<Rightarrow> default_project | Some s \<Rightarrow> s) es"

section \<open>Tasks\<close>

text \<open>
  \<open>if not id or id not in d: continue\<close>, then an update of \<open>d[id]\<close>; the test hashes the id.
\<close>

definition update_existing :: "(json, 's) dict \<Rightarrow> json \<Rightarrow> ('s \<Rightarrow> 's result) \<Rightarrow> (json, 's) dict result" where
  "update_existing d i f =
     (if \<not> truthy i then Inr d
      else rbind (hash_key i) (\<lambda>k.
        case map_of d k of
          None \<Rightarrow> Inr d
        | Some s \<Rightarrow> rbind (f s) (\<lambda>s'. Inr (AList.update k s' d))))"

text \<open>\<open>d[id] = s\<close>: the state is built before the id is hashed.\<close>

definition insert_new :: "(json, 's) dict \<Rightarrow> json \<Rightarrow> 's result \<Rightarrow> (json, 's) dict result" where
  "insert_new d i r =
     (if \<not> truthy i then Inr d
      else rbind r (\<lambda>s. rbind (hash_key i) (\<lambda>k. Inr (AList.update k s d))))"

text \<open>The list display, \<open>list(p.get(k, []))\<close>.\<close>

definition get_list :: "payload \<Rightarrow> string \<Rightarrow> json result" where
  "get_list p k = rbind (py_list (get_or p k (JList []))) (\<lambda>vs. Inr (JList vs))"

definition task_of_event :: "EventRecord \<Rightarrow> TaskState result" where
  "task_of_event e =
     (let p = er_payload e in
      rbind (dict_item p ''details'') (\<lambda>details.
      rbind (json_item details ''summary'') (\<lambda>title.
      rbind (json_item details ''body'') (\<lambda>description.
      rbind (get_list p ''tags'') (\<lambda>tags.
      rbind (get_list p ''blocked_by'') (\<lambda>blocked_by.
      Inr \<lparr>ts_task_id = get_or_none p ''task_id'', ts_title = title, ts_description = description,
           ts_status = JStr ''open'', ts_assignee = get_or_none p ''assignee'',
           ts_priority = get_or p ''priority'' (JStr ''normal''), ts_tags = tags, ts_blocked_by = blocked_by,
           ts_created_at = recorded e, ts_updated_at = JNull, ts_completed_at = JNull,
           ts_created_by = actor e, ts_progress_notes = JList [], ts_related_knowledge_ids = JList []\<rparr>))))))"

text \<open>
  \<open>if hasattr(t, k): setattr(t, k, v)\<close>.  Besides its fields a task has only attributes whose names
  begin with two underscores; a payload that names one leaves the model.
\<close>

definition task_setattr :: "TaskState \<Rightarrow> string \<times> json \<Rightarrow> TaskState result" where
  "task_setattr t kv =
     (case kv of (k, v) \<Rightarrow>
      if k = ''task_id'' then Inr t
      else if k = ''title'' then Inr (t\<lparr>ts_title := v\<rparr>)
      else if k = ''description'' then Inr (t\<lparr>ts_description := v\<rparr>)
      else if k = ''status'' then Inr (t\<lparr>ts_status := v\<rparr>)
      else if k = ''assignee'' then Inr (t\<lparr>ts_assignee := v\<rparr>)
      else if k = ''priority'' then Inr (t\<lparr>ts_priority := v\<rparr>)
      else if k = ''tags'' then Inr (t\<lparr>ts_tags := v\<rparr>)
      else if k = ''blocked_by'' then Inr (t\<lparr>ts_blocked_by := v\<rparr>)
      else if k = ''created_at'' then Inr (t\<lparr>ts_created_at := v\<rparr>)
      else if k = ''updated_at'' then Inr (t\<lparr>ts_updated_at := v\<rparr>)
      else if k = ''completed_at'' then Inr (t\<lparr>ts_completed_at := v\<rparr>)
      else if k = ''created_by'' then Inr (t\<lparr>ts_created_by := v\<rparr>)
      else if k = ''progress_notes'' then Inr (t\<lparr>ts_progress_notes := v\<rparr>)
      else if k = ''related_knowledge_ids'' then Inr (t\<lparr>ts_related_knowledge_ids := v\<rparr>)
      else if take 2 k = ''__'' then Inl (Untyped k)
      else Inr t)"

definition task_mutate :: "EventRecord \<Rightarrow> TaskState \<Rightarrow> TaskState result" where
  "task_mutate e t =
     rbind (rfold task_setattr t (er_payload e)) (\<lambda>t'. Inr (t'\<lparr>ts_updated_at := recorded e\<rparr>))"

text \<open>The list of notes may have been replaced by any value; only a list has \<open>append\<close>.\<close>

definition task_note :: "EventRecord \<Rightarrow> TaskState \<Rightarrow> TaskState result" where
  "task_note e t =
     (case ts_progress_notes t of
        JList ns \<Rightarrow> Inr (t\<lparr>ts_progress_notes := JList (ns @ [JDict
          [(''note'', get_or (er_payload e) ''note'' (JStr [])), (''timestamp'', recorded e),
           (''actor'', actor e), (''source_event_seq'', JInt (er_event_sequence e))]])\<rparr>)
      | _ \<Rightarrow> Inl (AttributeError ''append''))"

definition task_step :: "tasks \<Rightarrow> EventRecord \<Rightarrow> tasks result" where
  "task_step d e =
     (let task_id = get_or_none (er_payload e) ''task_id'' in
      case er_event_type e of
        TASK_CREATED \<Rightarrow> insert_new d task_id (task_of_event e)
      | TASK_MUTATED \<Rightarrow> update_existing d task_id (task_mutate e)
      | TASK_COMPLETED \<Rightarrow> update_existing d task_id
          (\<lambda>t. Inr (t\<lparr>ts_status := JStr ''completed'', ts_completed_at := recorded e\<rparr>))
      | TASK_PROGRESS_NOTED \<Rightarrow> update_existing d task_id (task_note e)
      | _ \<Rightarrow> Inr d)"

definition task_reduce :: "tasks option \<Rightarrow> EventRecord list \<Rightarrow> tasks result" where
  "task_reduce init es = rfold task_step (case init of None \<Rightarrow> [] | Some d \<Rightarrow> d) es"

section \<open>Decisions\<close>

definition decision_of_event :: "EventRecord \<Rightarrow> DecisionState" where
  "decision_of_event e =
     (let p = er_payload e in
      \<lparr>ds_decision_id = get_or_none p ''decision_id'', ds_title = get_or p ''title'' (JStr []),
       ds_description = get_or p ''description'' (JStr []), ds_status = JStr ''proposed'',
       ds_rationale = get_or p ''rationale'' (JStr []), ds_context = get_or p ''context'' (JStr []),
       ds_category = get_or p ''category'' (JStr ''general''), ds_superseded_by = JNull,
       ds_created_at = recorded e, ds_accepted_at = JNull, ds_created_by = actor e\<rparr>)"

definition decision_step :: "decisions \<Rightarrow> EventRecord \<Rightarrow> decisions result" where
  "decision_step d e =
     (let decision_id = get_or_none (er_payload e) ''decision_id'' in
      case er_event_type e of
        DECISION_PROPOSED \<Rightarrow> insert_new d decision_id (Inr (decision_of_event e))
      | DECISION_ACCEPTED \<Rightarrow> update_existing d decision_id
          (\<lambda>s. Inr (s\<lparr>ds_status := JStr ''accepted'', ds_accepted_at := recorded e\<rparr>))
      | DECISION_SUPERSEDED \<Rightarrow> update_existing d decision_id
          (\<lambda>s. Inr (s\<lparr>ds_status := JStr ''superseded'',
             ds_superseded_by := get_or_none (er_payload e) ''superseded_by''\<rparr>))
      | _ \<Rightarrow> Inr d)"

definition decision_reduce :: "decisions option \<Rightarrow> EventRecord list \<Rightarrow> decisions result" where
  "decision_reduce init es = rfold decision_step (case init of None \<Rightarrow> [] | Some d \<Rightarrow> d) es"

section \<open>Questions\<close>

definition question_of_event :: "EventRecord \<Rightarrow> QuestionState result" where
  "question_of_event e =
     (let p = er_payload e in
      rbind (get_list p ''blocks_task_ids'') (\<lambda>blocks_task_ids.
      Inr \<lparr>qs_question_id = get_or_none p ''question_id'', qs_title = get_or p ''title'' (JStr []),
           qs_description = get_or p ''description'' (JStr []), qs_status = JStr ''open'',
           qs_priority = get_or p ''priority'' (JStr ''normal''), qs_resolution = JNull,
           qs_blocks_task_ids = blocks_task_ids, qs_raised_at = recorded e, qs_resolved_at = JNull,
           qs_raised_by = actor e\<rparr>))"

definition question_step :: "questions \<Rightarrow> EventRecord \<Rightarrow> questions result" where
  "question_step d e =
     (let question_id = get_or_none (er_payload e) ''question_id'' in
      case er_event_type e of
        OPEN_QUESTION_RAISED \<Rightarrow> insert_new d question_id (question_of_event e)
      | OPEN_QUESTION_RESOLVED \<Rightarrow> update_existing d question_id
          (\<lambda>s. Inr (s\<lparr>qs_status := JStr ''resolved'',
             qs_resolution := get_or (er_payload e) ''resolution'' (JStr []), qs_resolved_at := recorded e\<rparr>))
      | _ \<Rightarrow> Inr d)"

definition question_reduce :: "questions option \<Rightarrow> EventRecord list \<Rightarrow> questions result" where
  "question_reduce init es = rfold question_step (case init of None \<Rightarrow> [] | Some d \<Rightarrow> d) es"

section \<open>Folds keyed by an id\<close>

text \<open>
  The shape the three reducers share: an event concerns at most one id, and what it does to that id
  depends on the state of that id only.  \<open>creates\<close> tells the events that bring an id into being.
\<close>

locale keyed_fold =
  fixes step :: "('k, 's) dict \<Rightarrow> 'e \<Rightarrow> ('k, 's) dict result"
    and key :: "'e \<Rightarrow> 'k option"
    and creates :: "'e \<Rightarrow> bool"
  assumes other: "step d e = Inr d' \<Longrightarrow> key e \<noteq> Some k \<Longrightarrow> map_of d' k = map_of d k"
    and own: "step d e = Inr d' \<Longrightarrow> key e = Some k \<Longrightarrow> map_of d2 k = map_of d k \<Longrightarrow>
      \<exists>d2'. step d2 e = Inr d2' \<and> map_of d2' k = map_of d' k"
    and creation: "step d e = Inr d' \<Longrightarrow> key e = Some k \<Longrightarrow>
      map_of d' k \<noteq> None \<longleftrightarrow> creates e \<or> map_of d k \<noteq> None"
    and keeps_wf: "step d e = Inr d' \<Longrightarrow> wf_dict d \<Longrightarrow> wf_dict d'"
begin

lemma isolation:
  assumes "rfold step d es = Inr d'" "map_of d2 k = map_of d k"
  shows "\<exists>d2'. rfold step d2 (filter (\<lambda>e. key e = Some k) es) = Inr d2' \<and> map_of d2' k = map_of d' k"
  using assms
proof (induction es arbitrary: d d2)
  case (Cons e es)
  from Cons.prems(1) obtain d1 where d1: "step d e = Inr d1" "rfold step d1 es = Inr d'" by auto
  show ?case
  proof (cases "key e = Some k")
    case True
    from own [OF d1(1) True Cons.prems(2)] obtain d3 where "step d2 e = Inr d3" "map_of d3 k = map_of d1 k" by blast
    with Cons.IH [OF d1(2), of d3] True show ?thesis by simp
  next
    case False
    with other [OF d1(1)] Cons.prems(2) have "map_of d2 k = map_of d1 k" by simp
    with Cons.IH [OF d1(2), of d2] False show ?thesis by simp
  qed
qed simp

lemma existence:
  assumes "rfold step d es = Inr d'"
  shows "map_of d' k \<noteq> None \<longleftrightarrow> map_of d k \<noteq> None \<or> (\<exists>e \<in> set es. key e = Some k \<and> creates e)"
  using assms
proof (induction es arbitrary: d)
  case (Cons e es)
  from Cons.prems obtain d1 where d1: "step d e = Inr d1" "rfold step d1 es = Inr d'" by auto
  have "map_of d1 k \<noteq> None \<longleftrightarrow> map_of d k \<noteq> None \<or> (key e = Some k \<and> creates e)"
    using other [OF d1(1), of k] creation [OF d1(1), of k] by (cases "key e = Some k") auto
  with Cons.IH [OF d1(2)] show ?case by auto
qed simp

lemma fold_wf: "rfold step d es = Inr d' \<Longrightarrow> wf_dict d \<Longrightarrow> wf_dict d'"
  by (erule rfold_invariant) (auto intro: keeps_wf)

end

text \<open>Where every event also determines a status.\<close>

locale keyed_status = keyed_fold +
  fixes status :: "'b \<Rightarrow> json" and status_of :: "'c \<Rightarrow> json"
  assumes sets_status: "step d e = Inr d' \<Longrightarrow> key e = Some k \<Longrightarrow> map_of d' k = Some s \<Longrightarrow> status s = status_of e"
begin

lemma latest_status:
  assumes "rfold step d es = Inr d'" "map_of d' k = Some s" "map_of d k = None"
  shows "status s = status_of (last (filter (\<lambda>e. key e = Some k) es))"
  using assms(1,2)
proof (induction es arbitrary: d' s rule: rev_induct)
  case Nil
  then show ?case using assms(3) by simp
next
  case (snoc e es)
  from snoc.prems(1) obtain d1 where d1: "rfold step d es = Inr d1" "step d1 e = Inr d'"
    by (auto simp: rfold_append)
  show ?case
  proof (cases "key e = Some k")
    case True
    with sets_status [OF d1(2) True snoc.prems(2)] show ?thesis by simp
  next
    case False
    with other [OF d1(2)] snoc.prems(2) have "map_of d1 k = Some s" by simp
    with snoc.IH [OF d1(1)] False show ?thesis by simp
  qed
qed

end

section \<open>The reducers as keyed folds\<close>

definition id_key :: "json \<Rightarrow> json option" where
  "id_key i = (if truthy i then case hash_key i of Inl _ \<Rightarrow> None | Inr k \<Rightarrow> Some k else None)"

lemma insert_new_keyed:
  "id_key i = Some k \<Longrightarrow> insert_new d i r = rbind r (\<lambda>s. Inr (AList.update k s d))"
  by (auto simp: id_key_def insert_new_def split: if_splits sum.splits)

lemma insert_new_unkeyed: "insert_new d i r = Inr d' \<Longrightarrow> id_key i = None \<Longrightarrow> d' = d"
  by (auto simp: id_key_def insert_new_def split: if_splits sum.splits)

lemma update_existing_keyed:
  "id_key i = Some k \<Longrightarrow> update_existing d i f =
     (case map_of d k of None \<Rightarrow> Inr d | Some s \<Rightarrow> rbind (f s) (\<lambda>s'. Inr (AList.update k s' d)))"
  by (auto simp: id_key_def update_existing_def split: if_splits sum.splits)

lemma update_existing_unkeyed: "update_existing d i f = Inr d' \<Longrightarrow> id_key i = None \<Longrightarrow> d' = d"
  by (auto simp: id_key_def update_existing_def split: if_splits sum.splits)

lemma insert_new_local:
  assumes "insert_new d i r = Inr d'"
  shows "id_key i \<noteq> Some k \<Longrightarrow> map_of d' k = map_of d k"
    and "id_key i = Some k \<Longrightarrow> \<exists>s. r = Inr s \<and> map_of d' k = Some s"
    and "id_key i = Some k \<Longrightarrow> \<exists>d2'. insert_new d2 i r = Inr d2' \<and> map_of d2' k = map_of d' k"
    and "wf_dict d \<Longrightarrow> wf_dict d'"
  using assms by (cases "id_key i"; auto simp: insert_new_keyed dest: insert_new_unkeyed)+

lemma update_existing_local:
  assumes "update_existing d i f = Inr d'"
  shows "id_key i \<noteq> Some k \<Longrightarrow> map_of d' k = map_of d k"
    and "id_key i = Some k \<Longrightarrow> map_of d' k \<noteq> None \<longleftrightarrow> map_of d k \<noteq> None"
    and "id_key i = Some k \<Longrightarrow> map_of d' k = Some s' \<Longrightarrow> \<exists>s. map_of d k = Some s \<and> f s = Inr s'"
    and "id_key i = Some k \<Longrightarrow> map_of d2 k = map_of d k \<Longrightarrow>
      \<exists>d2'. update_existing d2 i f = Inr d2' \<and> map_of d2' k = map_of d' k"
    and "wf_dict d \<Longrightarrow> wf_dict d'"
  using assms
  by (cases "id_key i"; auto simp: update_existing_keyed split: option.splits dest: update_existing_unkeyed)+

lemmas keyed_laws = insert_new_local update_existing_local

text \<open>Invariants of every state of a dictionary.\<close>

definition all_states :: "('k \<Rightarrow> 's \<Rightarrow> bool) \<Rightarrow> ('k, 's) dict \<Rightarrow> bool" where
  "all_states P d \<longleftrightarrow> (\<forall>k s. map_of d k = Some s \<longrightarrow> P k s)"

lemma all_states_Nil [simp]: "all_states P []"
  by (simp add: all_states_def)

lemma all_states_insert:
  "insert_new d i r = Inr d' \<Longrightarrow> all_states P d \<Longrightarrow> (\<And>s k. r = Inr s \<Longrightarrow> hash_key i = Inr k \<Longrightarrow> P k s) \<Longrightarrow> all_states P d'"
  by (auto simp: all_states_def insert_new_def split: if_splits)

lemma all_states_update:
  "update_existing d i f = Inr d' \<Longrightarrow> all_states P d \<Longrightarrow> (\<And>k s s'. P k s \<Longrightarrow> f s = Inr s' \<Longrightarrow> P k s') \<Longrightarrow> all_states P d'"
  by (fastforce simp: all_states_def update_existing_def split: if_splits option.splits)

text \<open>The id an event concerns, as the dictionary sees it.\<close>

definition task_key :: "EventRecord \<Rightarrow> json option" where
  "task_key e = (if er_event_type e \<in> {TASK_CREATED, TASK_MUTATED, TASK_COMPLETED, TASK_PROGRESS_NOTED}
     then id_key (get_or_none (er_payload e) ''task_id'') else None)"

definition decision_key :: "EventRecord \<Rightarrow> json option" where
  "decision_key e = (if er_event_type e \<in> {DECISION_PROPOSED, DECISION_ACCEPTED, DECISION_SUPERSEDED}
     then id_key (get_or_none (er_payload e) ''decision_id'') else None)"

definition question_key :: "EventRecord \<Rightarrow> json option" where
  "question_key e = (if er_event_type e \<in> {OPEN_QUESTION_RAISED, OPEN_QUESTION_RESOLVED}
     then id_key (get_or_none (er_payload e) ''question_id'') else None)"

lemma task_step_eqs:
  "er_event_type e = TASK_CREATED \<Longrightarrow>
     task_step d e = insert_new d (get_or_none (er_payload e) ''task_id'') (task_of_event e)"
  "er_event_type e = TASK_MUTATED \<Longrightarrow>
     task_step d e = update_existing d (get_or_none (er_payload e) ''task_id'') (task_mutate e)"
  "er_event_type e = TASK_COMPLETED \<Longrightarrow>
     task_step d e = update_existing d (get_or_none (er_payload e) ''task_id'')
       (\<lambda>t. Inr (t\<lparr>ts_status := JStr ''completed'', ts_completed_at := recorded e\<rparr>))"
  "er_event_type e = TASK_PROGRESS_NOTED \<Longrightarrow>
     task_step d e = update_existing d (get_or_none (er_payload e) ''task_id'') (task_note e)"
  by (simp_all add: task_step_def)

lemma task_step_foreign:
  "er_event_type e \<notin> {TASK_CREATED, TASK_MUTATED, TASK_COMPLETED, TASK_PROGRESS_NOTED} \<Longrightarrow> task_step d e = Inr d"
  by (cases "er_event_type e") (simp_all add: task_step_def)

lemma decision_step_foreign:
  "er_event_type e \<notin> {DECISION_PROPOSED, DECISION_ACCEPTED, DECISION_SUPERSEDED} \<Longrightarrow> decision_step d e = Inr d"
  by (cases "er_event_type e") (simp_all add: decision_step_def)

lemma question_step_foreign:
  "er_event_type e \<notin> {OPEN_QUESTION_RAISED, OPEN_QUESTION_RESOLVED} \<Longrightarrow> question_step d e = Inr d"
  by (cases "er_event_type e") (simp_all add: question_step_def)

lemma project_step_foreign:
  "er_event_type e \<notin> {PROJECT_CREATED, PROJECT_GOAL_SET, PROJECT_FOCUS_CHANGED} \<Longrightarrow> project_step s e = s"
  by (cases "er_event_type e") (simp_all add: project_step_def)

text \<open>Every such step inserts a new state, changes an existing one or does nothing.\<close>

lemma keyed_fold_shape:
  fixes step :: "(json, 's) dict \<Rightarrow> EventRecord \<Rightarrow> (json, 's) dict result"
  assumes "\<And>e. (creates e \<and> key e = id_key (i e) \<and> (\<exists>r. \<forall>d. step d e = insert_new d (i e) r)) \<or>
      (\<not> creates e \<and> key e = id_key (i e) \<and> (\<exists>f. \<forall>d. step d e = update_existing d (i e) f)) \<or>
      (\<not> creates e \<and> key e = None \<and> (\<forall>d. step d e = Inr d))"
  shows "keyed_fold step key creates"
proof
  fix d d' :: "(json, 's) dict" and e k assume step: "step d e = Inr d'"
  consider (new) r where "creates e" "key e = id_key (i e)" "\<forall>d. step d e = insert_new d (i e) r"
    | (change) f where "\<not> creates e" "key e = id_key (i e)" "\<forall>d. step d e = update_existing d (i e) f"
    | (foreign) "\<not> creates e" "key e = None" "\<forall>d. step d e = Inr d"
    using assms [of e] by (elim disjE conjE exE) metis+
  note cases = this
  show "map_of d' k = map_of d k" if "key e \<noteq> Some k"
    by (rule cases) (use step that in \<open>auto dest: keyed_laws(1,5)\<close>)
  show "\<exists>d2'. step d2 e = Inr d2' \<and> map_of d2' k = map_of d' k"
    if "key e = Some k" "map_of d2 k = map_of d k" for d2
    by (rule cases) (use step that in \<open>metis keyed_laws(3) keyed_laws(8) option.distinct(1)\<close>)+
  show "map_of d' k \<noteq> None \<longleftrightarrow> creates e \<or> map_of d k \<noteq> None" if "key e = Some k"
    by (rule cases) (use step that in \<open>metis keyed_laws(2) keyed_laws(6) option.distinct(1)\<close>)+
  show "wf_dict d'" if "wf_dict d"
    by (rule cases) (use step that in \<open>auto dest: keyed_laws(4,9)\<close>)
qed

lemma task_step_shape:
  "(er_event_type e = TASK_CREATED \<and> task_key e = id_key (get_or_none (er_payload e) ''task_id'') \<and>
        (\<exists>r. \<forall>d. task_step d e = insert_new d (get_or_none (er_payload e) ''task_id'') r)) \<or>
      (er_event_type e \<noteq> TASK_CREATED \<and> task_key e = id_key (get_or_none (er_payload e) ''task_id'') \<and>
        (\<exists>f. \<forall>d. task_step d e = update_existing d (get_or_none (er_payload e) ''task_id'') f)) \<or>
      (er_event_type e \<noteq> TASK_CREATED \<and> task_key e = None \<and> (\<forall>d. task_step d e = Inr d))"
proof (cases "er_event_type e \<in> {TASK_CREATED, TASK_MUTATED, TASK_COMPLETED, TASK_PROGRESS_NOTED}")
  case True
  then show ?thesis by (auto simp: task_key_def task_step_def)
next
  case False
  then show ?thesis by (auto simp: task_key_def task_step_foreign)
qed

interpretation task_fold: keyed_fold task_step task_key "\<lambda>e. er_event_type e = TASK_CREATED"
  by (rule keyed_fold_shape, rule task_step_shape)

lemma decision_step_shape:
  "(er_event_type e = DECISION_PROPOSED \<and> decision_key e = id_key (get_or_none (er_payload e) ''decision_id'') \<and>
        (\<exists>r. \<forall>d. decision_step d e = insert_new d (get_or_none (er_payload e) ''decision_id'') r)) \<or>
      (er_event_type e \<noteq> DECISION_PROPOSED \<and> decision_key e = id_key (get_or_none (er_payload e) ''decision_id'') \<and>
        (\<exists>f. \<forall>d. decision_step d e = update_existing d (get_or_none (er_payload e) ''decision_id'') f)) \<or>
      (er_event_type e \<noteq> DECISION_PROPOSED \<and> decision_key e = None \<and> (\<forall>d. decision_step d e = Inr d))"
proof (cases "er_event_type e \<in> {DECISION_PROPOSED, DECISION_ACCEPTED, DECISION_SUPERSEDED}")
  case True
  then show ?thesis by (auto simp: decision_key_def decision_step_def)
next
  case False
  then show ?thesis by (auto simp: decision_key_def decision_step_foreign)
qed

interpretation decision_fold: keyed_fold decision_step decision_key "\<lambda>e. er_event_type e = DECISION_PROPOSED"
  by (rule keyed_fold_shape, rule decision_step_shape)

lemma question_step_shape:
  "(er_event_type e = OPEN_QUESTION_RAISED \<and> question_key e = id_key (get_or_none (er_payload e) ''question_id'') \<and>
        (\<exists>r. \<forall>d. question_step d e = insert_new d (get_or_none (er_payload e) ''question_id'') r)) \<or>
      (er_event_type e \<noteq> OPEN_QUESTION_RAISED \<and> question_key e = id_key (get_or_none (er_payload e) ''question_id'') \<and>
        (\<exists>f. \<forall>d. question_step d e = update_existing d (get_or_none (er_payload e) ''question_id'') f)) \<or>
      (er_event_type e \<noteq> OPEN_QUESTION_RAISED \<and> question_key e = None \<and> (\<forall>d. question_step d e = Inr d))"
proof (cases "er_event_type e \<in> {OPEN_QUESTION_RAISED, OPEN_QUESTION_RESOLVED}")
  case True
  then show ?thesis by (auto simp: question_key_def question_step_def)
next
  case False
  then show ?thesis by (auto simp: question_key_def question_step_foreign)
qed

interpretation question_fold: keyed_fold question_step question_key "\<lambda>e. er_event_type e = OPEN_QUESTION_RAISED"
  by (rule keyed_fold_shape, rule question_step_shape)

definition decision_status_of :: "EventRecord \<Rightarrow> json" where
  "decision_status_of e =
     (if er_event_type e = DECISION_PROPOSED then JStr ''proposed''
      else if er_event_type e = DECISION_ACCEPTED then JStr ''accepted'' else JStr ''superseded'')"

definition question_status_of :: "EventRecord \<Rightarrow> json" where
  "question_status_of e =
     (if er_event_type e = OPEN_QUESTION_RAISED then JStr ''open'' else JStr ''resolved'')"

interpretation decision_fold: keyed_status decision_step decision_key
  "\<lambda>e. er_event_type e = DECISION_PROPOSED" ds_status decision_status_of
proof
  fix d e d' k s
  assume "decision_step d e = Inr d'" "decision_key e = Some k" "map_of d' k = Some s"
  then show "ds_status s = decision_status_of e"
    by (auto simp: decision_key_def decision_step_def decision_status_of_def decision_of_event_def Let_def
        insert_new_keyed update_existing_keyed split: if_splits option.splits)
qed

interpretation question_fold: keyed_status question_step question_key
  "\<lambda>e. er_event_type e = OPEN_QUESTION_RAISED" qs_status question_status_of
proof
  fix d e d' k s
  assume "question_step d e = Inr d'" "question_key e = Some k" "map_of d' k = Some s"
  then show "qs_status s = question_status_of e"
    by (auto simp: question_key_def question_step_def question_status_of_def question_of_event_def Let_def
        insert_new_keyed update_existing_keyed split: if_splits option.splits)
qed

lemma reduce_continues:
  "task_reduce None (es @ fs) = rbind (task_reduce None es) (\<lambda>d. task_reduce (Some d) fs)"
  "decision_reduce None (es @ fs) = rbind (decision_reduce None es) (\<lambda>d. decision_reduce (Some d) fs)"
  "question_reduce None (es @ fs) = rbind (question_reduce None es) (\<lambda>d. question_reduce (Some d) fs)"
  "project_reduce None (es @ fs) = project_reduce (Some (project_reduce None es)) fs"
  by (simp_all add: task_reduce_def decision_reduce_def question_reduce_def project_reduce_def rfold_append)

lemma reduce_wf:
  "task_reduce None es = Inr ts \<Longrightarrow> wf_dict ts"
  "decision_reduce None es = Inr ds \<Longrightarrow> wf_dict ds"
  "question_reduce None es = Inr qs \<Longrightarrow> wf_dict qs"
  unfolding task_reduce_def decision_reduce_def question_reduce_def
  by (auto dest: task_fold.fold_wf decision_fold.fold_wf question_fold.fold_wf)

lemma task_step_all:
  assumes "task_step d e = Inr d'" "all_states P d"
    and new: "\<And>k t. er_event_type e = TASK_CREATED \<Longrightarrow> task_of_event e = Inr t \<Longrightarrow>
      hash_key (get_or_none (er_payload e) ''task_id'') = Inr k \<Longrightarrow> P k t"
    and mutated: "\<And>k t t'. er_event_type e = TASK_MUTATED \<Longrightarrow> P k t \<Longrightarrow> task_mutate e t = Inr t' \<Longrightarrow> P k t'"
    and completed: "\<And>k t. er_event_type e = TASK_COMPLETED \<Longrightarrow> P k t \<Longrightarrow>
      P k (t\<lparr>ts_status := JStr ''completed'', ts_completed_at := recorded e\<rparr>)"
    and noted: "\<And>k t t'. er_event_type e = TASK_PROGRESS_NOTED \<Longrightarrow> P k t \<Longrightarrow> task_note e t = Inr t' \<Longrightarrow> P k t'"
  shows "all_states P d'"
proof -
  consider "er_event_type e = TASK_CREATED" | "er_event_type e = TASK_MUTATED" | "er_event_type e = TASK_COMPLETED"
    | "er_event_type e = TASK_PROGRESS_NOTED"
    | "er_event_type e \<notin> {TASK_CREATED, TASK_MUTATED, TASK_COMPLETED, TASK_PROGRESS_NOTED}" by blast
  then show ?thesis
  proof cases
    case 1
    from assms(1) [unfolded task_step_eqs(1) [OF 1]] assms(2) show ?thesis
      by (rule all_states_insert) (rule new [OF 1])
  next
    case 2
    from assms(1) [unfolded task_step_eqs(2) [OF 2]] assms(2) show ?thesis
      by (rule all_states_update) (rule mutated [OF 2])
  next
    case 3
    from assms(1) [unfolded task_step_eqs(3) [OF 3]] assms(2) show ?thesis
      by (rule all_states_update) (use completed [OF 3] in auto)
  next
    case 4
    from assms(1) [unfolded task_step_eqs(4) [OF 4]] assms(2) show ?thesis
      by (rule all_states_update) (rule noted [OF 4])
  next
    case 5
    with assms(1,2) show ?thesis by (simp add: task_step_foreign)
  qed
qed

section \<open>Properties\<close>

text \<open>One task is independent of the others.  If the task reducer accepts a stream, it accepts the
  events of any one task id alone and gives that id the same state (or none); and a task exists exactly if the
  stream holds a creation event for its id.\<close>

theorem task_isolation:
  assumes "task_reduce None es = Inr ts"
  shows "\<exists>ts'. task_reduce None (filter (\<lambda>e. task_key e = Some k) es) = Inr ts' \<and> map_of ts' k = map_of ts k \<and>
    (map_of ts k \<noteq> None \<longleftrightarrow> (\<exists>e \<in> set es. task_key e = Some k \<and> er_event_type e = TASK_CREATED))"
proof -
  have run: "rfold task_step [] es = Inr ts" using assms by (simp add: task_reduce_def)
  show ?thesis
    using task_fold.isolation [OF run, of "[]" k] task_fold.existence [OF run, of k]
    by (simp add: task_reduce_def)
qed

definition sample_project :: string where
  "sample_project = ''00000000-0000-0000-0000-00000000000a''"

definition sample_reducer_event :: "int \<Rightarrow> EventType \<Rightarrow> payload \<Rightarrow> EventRecord" where
  "sample_reducer_event n t p = record_of n n (sample_request sample_project (show_int n) t p)"

definition sample_task_events :: "EventRecord list" where
  "sample_task_events =
     [sample_reducer_event 1 TASK_CREATED [(''task_id'', JStr ''a''),
        (''details'', JDict [(''summary'', JStr ''s''), (''body'', JStr ''b'')])],
      sample_reducer_event 2 TASK_CREATED [(''task_id'', JStr ''b''),
        (''details'', JDict [(''summary'', JStr ''s''), (''body'', JStr ''b'')])],
      sample_reducer_event 3 TASK_MUTATED [(''task_id'', JStr ''b''), (''status'', JStr ''blocked'')],
      sample_reducer_event 4 TASK_COMPLETED [(''task_id'', JStr ''a'')]]"

lemma sample_reducer_event_simps [simp]:
  "er_event_type (sample_reducer_event n t p) = t" "er_payload (sample_reducer_event n t p) = p"
  "er_event_sequence (sample_reducer_event n t p) = n" "er_version (sample_reducer_event n t p) = n"
  "er_project_id (sample_reducer_event n t p) = sample_project"
  by (simp_all add: sample_reducer_event_def record_of_def sample_request_def)

theorem task_isolation_witness:
  "\<exists>ts'. task_reduce None (filter (\<lambda>e. task_key e = Some (JStr ''b'')) sample_task_events) = Inr ts' \<and>
     map_of ts' (JStr ''b'') \<noteq> None"
proof -
  have "\<exists>ts. task_reduce None sample_task_events = Inr ts"
    by (simp add: task_reduce_def sample_task_events_def task_step_def insert_new_def update_existing_def
        task_of_event_def task_mutate_def task_setattr_def get_list_def dict_get_def dict_item_def Let_def)
  then obtain ts where "task_reduce None sample_task_events = Inr ts" ..
  from task_isolation [OF this, of "JStr ''b''"] show ?thesis
    by (auto simp: sample_task_events_def task_key_def id_key_def dict_get_def)
qed

text \<open>Property C19: decisions and questions are state machines driven by their last event.  In an accepted stream
  a decision exists exactly if it was proposed, and its status is the one of the last event that names it:
  proposed, accepted or superseded; an event before the proposal has no effect.  Likewise a question exists
  exactly if it was raised and is open or resolved by its last event.\<close>

theorem status_of_last_event:
  assumes "decision_reduce None es = Inr ds" "question_reduce None es = Inr qs"
  shows "(map_of ds k \<noteq> None \<longleftrightarrow> (\<exists>e \<in> set es. decision_key e = Some k \<and> er_event_type e = DECISION_PROPOSED)) \<and>
    (\<forall>s. map_of ds k = Some s \<longrightarrow>
       ds_status s = decision_status_of (last (filter (\<lambda>e. decision_key e = Some k) es))) \<and>
    (map_of qs k \<noteq> None \<longleftrightarrow> (\<exists>e \<in> set es. question_key e = Some k \<and> er_event_type e = OPEN_QUESTION_RAISED)) \<and>
    (\<forall>s. map_of qs k = Some s \<longrightarrow>
       qs_status s = question_status_of (last (filter (\<lambda>e. question_key e = Some k) es)))"
proof -
  have d: "rfold decision_step [] es = Inr ds" and q: "rfold question_step [] es = Inr qs"
    using assms by (simp_all add: decision_reduce_def question_reduce_def)
  show ?thesis
    using decision_fold.existence [OF d, of k] decision_fold.latest_status [OF d]
      question_fold.existence [OF q, of k] question_fold.latest_status [OF q]
    by simp
qed

definition sample_decision_events :: "EventRecord list" where
  "sample_decision_events =
     [sample_reducer_event 1 DECISION_ACCEPTED [(''decision_id'', JStr ''x'')],
      sample_reducer_event 2 DECISION_PROPOSED [(''decision_id'', JStr ''x'')],
      sample_reducer_event 3 OPEN_QUESTION_RAISED [(''question_id'', JStr ''x'')],
      sample_reducer_event 4 DECISION_ACCEPTED [(''decision_id'', JStr ''x'')],
      sample_reducer_event 5 OPEN_QUESTION_RESOLVED [(''question_id'', JStr ''x'')],
      sample_reducer_event 6 DECISION_SUPERSEDED [(''decision_id'', JStr ''x'')]]"

theorem status_of_last_event_witness:
  "\<exists>ds qs. decision_reduce None sample_decision_events = Inr ds \<and> question_reduce None sample_decision_events = Inr qs \<and>
     map_of ds (JStr ''x'') \<noteq> None \<and> map_of qs (JStr ''x'') \<noteq> None \<and>
     (\<forall>s. map_of ds (JStr ''x'') \<noteq> Some s \<or> ds_status s = JStr ''superseded'') \<and>
     (\<forall>s. map_of qs (JStr ''x'') \<noteq> Some s \<or> qs_status s = JStr ''resolved'')"
proof -
  have "\<exists>ds. decision_reduce None sample_decision_events = Inr ds"
    by (simp add: decision_reduce_def sample_decision_events_def decision_step_def insert_new_def
        update_existing_def dict_get_def Let_def)
  moreover have "\<exists>qs. question_reduce None sample_decision_events = Inr qs"
    by (simp add: question_reduce_def sample_decision_events_def question_step_def question_of_event_def
        insert_new_def update_existing_def get_list_def dict_get_def Let_def)
  ultimately obtain ds qs where run: "decision_reduce None sample_decision_events = Inr ds"
    "question_reduce None sample_decision_events = Inr qs" by blast
  from status_of_last_event [OF this, of "JStr ''x''"]
  have "map_of ds (JStr ''x'') \<noteq> None \<and> map_of qs (JStr ''x'') \<noteq> None \<and>
     (\<forall>s. map_of ds (JStr ''x'') \<noteq> Some s \<or> ds_status s = JStr ''superseded'') \<and>
     (\<forall>s. map_of qs (JStr ''x'') \<noteq> Some s \<or> qs_status s = JStr ''resolved'')"
    by (auto simp: sample_decision_events_def decision_key_def question_key_def id_key_def dict_get_def
        decision_status_of_def question_status_of_def)
  with run show ?thesis by blast
qed

end
