(* ===== verification/HeadState.thy ===== *)
theory HeadState
  imports Reducers
begin

text \<open>
  The cognitive head of \<open>rationalevault/cognitive_head/compiler.py\<close> and the code that derives it
  from the reducer states: \<open>_build_head\<close> of \<open>replay_engine.py\<close>, which \<open>build_projection\<close>
  repeats in line and \<open>cognitive_head_projection.py\<close> repeats as \<open>_build_cognitive_head\<close>.
  Also the dictionaries that states are written to and read from.
\<close>

section \<open>The head\<close>

record CognitiveHead =
  ch_project_id :: string
  ch_project_name :: json
  ch_project_goal :: json
  ch_current_focus :: json
  ch_ledger_version :: json
  ch_compiled_at :: json
  ch_active_tasks :: "TaskState list"
  ch_active_decisions :: "DecisionState list"
  ch_open_questions :: "QuestionState list"
  ch_blockers :: json

definition PRIORITY_ORDER :: "(string, nat) dict" where
  "PRIORITY_ORDER = [(''critical'', 0), (''high'', 1), (''normal'', 2), (''low'', 3)]"

text \<open>\<open>_PRIORITY_ORDER.get(v, 2)\<close>, which hashes the value.\<close>

definition priority_rank :: "json \<Rightarrow> nat result" where
  "priority_rank v = rbind (hash_key v) (\<lambda>k.
     Inr (case k of JStr s \<Rightarrow> dict_get PRIORITY_ORDER s 2 | _ \<Rightarrow> 2))"

text \<open>\<open>xs.sort(key=...)\<close>: all keys are computed first, and the sort is stable.\<close>

definition sort_by_priority :: "('a \<Rightarrow> json) \<Rightarrow> 'a list \<Rightarrow> 'a list result" where
  "sort_by_priority f xs =
     rbind (rmap (\<lambda>x. rbind (priority_rank (f x)) (\<lambda>r. Inr (r, x))) xs) (\<lambda>ps. Inr (map snd (sort_key fst ps)))"

section \<open>Blockers\<close>

text \<open>A set of ids is a list without repetition, its elements as keys.\<close>

type_synonym blocker_map = "(json, json list) dict"

definition set_add :: "'a list \<Rightarrow> 'a \<Rightarrow> 'a list" where
  "set_add xs x = (if x \<in> set xs then xs else xs @ [x])"

text \<open>\<open>blocker_map.setdefault(tid, set()).add(qid)\<close>.\<close>

definition blocker_add :: "blocker_map \<Rightarrow> json \<Rightarrow> json \<Rightarrow> blocker_map result" where
  "blocker_add m tid qid =
     rbind (hash_key tid) (\<lambda>t. rbind (hash_key qid) (\<lambda>q. Inr (AList.update t (set_add (dict_get m t []) q) m)))"

definition block_by_task :: "json list \<Rightarrow> blocker_map \<Rightarrow> TaskState \<Rightarrow> blocker_map result" where
  "block_by_task open_question_ids m task =
     rbind (py_list (ts_blocked_by task)) (\<lambda>qids.
     rfold (\<lambda>m qid. rbind (hash_key qid) (\<lambda>q.
       if q \<in> set open_question_ids then blocker_add m (ts_task_id task) qid else Inr m)) m qids)"

definition block_by_question :: "tasks \<Rightarrow> blocker_map \<Rightarrow> QuestionState \<Rightarrow> blocker_map result" where
  "block_by_question all_tasks m q =
     rbind (py_list (qs_blocks_task_ids q)) (\<lambda>tids.
     rfold (\<lambda>m tid. rbind (hash_key tid) (\<lambda>t.
       if dict_has all_tasks t then blocker_add m tid (qs_question_id q) else Inr m)) m tids)"

text \<open>\<open>sorted(qids)\<close> on distinct keys: texts among themselves or ints among themselves.\<close>

fun json_text :: "json \<Rightarrow> string" where
  "json_text (JStr s) = s"
| "json_text _ = []"

fun json_int :: "json \<Rightarrow> int" where
  "json_int (JInt i) = i"
| "json_int _ = 0"

definition is_jstr :: "json \<Rightarrow> bool" where
  "is_jstr v = (case v of JStr _ \<Rightarrow> True | _ \<Rightarrow> False)"

definition is_jint :: "json \<Rightarrow> bool" where
  "is_jint v = (case v of JInt _ \<Rightarrow> True | _ \<Rightarrow> False)"

definition sorted_ids :: "json list \<Rightarrow> json list result" where
  "sorted_ids qs =
     (if list_all is_jstr qs then Inr (sort_key json_text qs)
      else if list_all is_jint qs then Inr (sort_key json_int qs)
      else if length qs \<le> 1 then Inr qs
      else Inl TypeError)"

definition blocker_entry :: "tasks \<Rightarrow> json \<times> json list \<Rightarrow> json list result" where
  "blocker_entry all_tasks b =
     (case map_of all_tasks (fst b) of
        None \<Rightarrow> Inr []
      | Some t \<Rightarrow> rbind (sorted_ids (snd b)) (\<lambda>qids. Inr [JDict
          [(''task_id'', fst b), (''task_title'', ts_title t), (''blocked_by_questions'', JList qids)]]))"

definition blockers_of :: "tasks \<Rightarrow> TaskState list \<Rightarrow> QuestionState list \<Rightarrow> json result" where
  "blockers_of all_tasks active_tasks open_questions =
     rbind (rmap (\<lambda>q. hash_key (qs_question_id q)) open_questions) (\<lambda>open_question_ids.
     rbind (rfold (block_by_task open_question_ids) [] active_tasks) (\<lambda>m.
     rbind (rfold (block_by_question all_tasks) m open_questions) (\<lambda>m'.
     rbind (rmap (blocker_entry all_tasks) m') (\<lambda>bs. Inr (JList (concat bs))))))"

definition build_head :: "string \<Rightarrow> ProjectState \<Rightarrow> tasks \<Rightarrow> decisions \<Rightarrow> questions \<Rightarrow> EventRecord list \<Rightarrow> tasks \<Rightarrow>
    CognitiveHead result" where
  "build_head pid ps tasks decisions questions events all_tasks =
     (let active_tasks = filter (\<lambda>t. ts_status t \<noteq> JStr ''completed'') (map snd tasks);
          active_decisions = filter (\<lambda>d. ds_status d = JStr ''accepted'') (map snd decisions);
          open_questions = filter (\<lambda>q. qs_status q = JStr ''open'') (map snd questions)
      in rbind (sort_by_priority qs_priority open_questions) (\<lambda>open_questions.
         rbind (sort_by_priority ts_priority active_tasks) (\<lambda>active_tasks.
         rbind (blockers_of all_tasks active_tasks open_questions) (\<lambda>blockers.
         Inr \<lparr>ch_project_id = pid, ch_project_name = ps_name ps, ch_project_goal = ps_goal ps,
              ch_current_focus = ps_current_focus ps,
              ch_ledger_version = JInt (coalesce_max (map er_version events)), ch_compiled_at = JStr [],
              ch_active_tasks = active_tasks, ch_active_decisions = active_decisions,
              ch_open_questions = open_questions, ch_blockers = blockers\<rparr>))))"

section \<open>Required events\<close>

definition BOOTSTRAP :: "EventType list" where
  "BOOTSTRAP = [PROJECT_CREATED, PROJECT_GOAL_SET, PROJECT_FOCUS_CHANGED]"

definition check_bootstrap :: "EventRecord list \<Rightarrow> unit result" where
  "check_bootstrap events =
     (if events = [] then Inl (MissingProjectBootstrapError ''no events'')
      else case find (\<lambda>t. t \<notin> er_event_type ` set events) BOOTSTRAP of
             None \<Rightarrow> Inr ()
           | Some t \<Rightarrow> Inl (MissingProjectBootstrapError (event_type_value t)))"

section \<open>States as dictionaries\<close>

definition task_to_dict :: "TaskState \<Rightarrow> json" where
  "task_to_dict t = JDict
     [(''task_id'', ts_task_id t), (''title'', ts_title t), (''description'', ts_description t),
      (''status'', ts_status t), (''assignee'', ts_assignee t), (''priority'', ts_priority t),
      (''tags'', ts_tags t), (''blocked_by'', ts_blocked_by t), (''created_at'', ts_created_at t),
      (''updated_at'', ts_updated_at t), (''completed_at'', ts_completed_at t),
      (''created_by'', ts_created_by t), (''progress_notes'', ts_progress_notes t),
      (''related_knowledge_ids'', ts_related_knowledge_ids t)]"

definition decision_to_dict :: "DecisionState \<Rightarrow> json" where
  "decision_to_dict d = JDict
     [(''decision_id'', ds_decision_id d), (''title'', ds_title d), (''description'', ds_description d),
      (''status'', ds_status d), (''rationale'', ds_rationale d), (''context'', ds_context d),
      (''category'', ds_category d), (''superseded_by'', ds_superseded_by d),
      (''created_at'', ds_created_at d), (''accepted_at'', ds_accepted_at d), (''created_by'', ds_created_by d)]"

definition question_to_dict :: "QuestionState \<Rightarrow> json" where
  "question_to_dict q = JDict
     [(''question_id'', qs_question_id q), (''title'', qs_title q), (''description'', qs_description q),
      (''status'', qs_status q), (''priority'', qs_priority q), (''resolution'', qs_resolution q),
      (''blocks_task_ids'', qs_blocks_task_ids q), (''raised_at'', qs_raised_at q),
      (''resolved_at'', qs_resolved_at q), (''raised_by'', qs_raised_by q)]"

text \<open>The receiver of \<open>.get\<close>, \<open>.items\<close> and \<open>.values\<close>.\<close>

fun as_dict :: "json \<Rightarrow> payload result" where
  "as_dict (JDict d) = Inr d"
| "as_dict _ = Inl (AttributeError ''get'')"

text \<open>The argument is the value of a missing id.\<close>

definition dict_to_task_state :: "json \<Rightarrow> json \<Rightarrow> TaskState result" where
  "dict_to_task_state dflt v =
     rbind (as_dict v) (\<lambda>d.
     rbind (get_list d ''tags'') (\<lambda>tags.
     rbind (get_list d ''blocked_by'') (\<lambda>blocked_by.
     rbind (get_list d ''progress_notes'') (\<lambda>progress_notes.
     rbind (get_list d ''related_knowledge_ids'') (\<lambda>related.
     Inr \<lparr>ts_task_id = get_or d ''task_id'' dflt, ts_title = get_or d ''title'' (JStr []),
          ts_description = get_or d ''description'' (JStr []), ts_status = get_or d ''status'' (JStr ''open''),
          ts_assignee = get_or_none d ''assignee'', ts_priority = get_or d ''priority'' (JStr ''normal''),
          ts_tags = tags, ts_blocked_by = blocked_by, ts_created_at = get_or_none d ''created_at'',
          ts_updated_at = get_or_none d ''updated_at'', ts_completed_at = get_or_none d ''completed_at'',
          ts_created_by = get_or d ''created_by'' (JStr []), ts_progress_notes = progress_notes,
          ts_related_knowledge_ids = related\<rparr>)))))"

definition dict_to_decision_state :: "json \<Rightarrow> json \<Rightarrow> DecisionState result" where
  "dict_to_decision_state dflt v =
     rbind (as_dict v) (\<lambda>d.
     Inr \<lparr>ds_decision_id = get_or d ''decision_id'' dflt, ds_title = get_or d ''title'' (JStr []),
          ds_description = get_or d ''description'' (JStr []), ds_status = get_or d ''status'' (JStr ''proposed''),
          ds_rationale = get_or d ''rationale'' (JStr []), ds_context = get_or d ''context'' (JStr []),
          ds_category = get_or d ''category'' (JStr ''general''), ds_superseded_by = get_or_none d ''superseded_by'',
          ds_created_at = get_or_none d ''created_at'', ds_accepted_at = get_or_none d ''accepted_at'',
          ds_created_by = get_or d ''created_by'' (JStr [])\<rparr>)"

definition dict_to_question_state :: "json \<Rightarrow> json \<Rightarrow> QuestionState result" where
  "dict_to_question_state dflt v =
     rbind (as_dict v) (\<lambda>d.
     rbind (get_list d ''blocks_task_ids'') (\<lambda>blocks_task_ids.
     Inr \<lparr>qs_question_id = get_or d ''question_id'' dflt, qs_title = get_or d ''title'' (JStr []),
          qs_description = get_or d ''description'' (JStr []), qs_status = get_or d ''status'' (JStr ''open''),
          qs_priority = get_or d ''priority'' (JStr ''normal''), qs_resolution = get_or_none d ''resolution'',
          qs_blocks_task_ids = blocks_task_ids, qs_raised_at = get_or_none d ''raised_at'',
          qs_resolved_at = get_or_none d ''resolved_at'', qs_raised_by = get_or d ''raised_by'' (JStr [])\<rparr>))"

section \<open>Writing a head\<close>

definition head_to_dict :: "CognitiveHead \<Rightarrow> json" where
  "head_to_dict h = JDict
     [(''project_id'', JStr (ch_project_id h)), (''project_name'', ch_project_name h),
      (''project_goal'', ch_project_goal h), (''current_focus'', ch_current_focus h),
      (''ledger_version'', ch_ledger_version h), (''compiled_at'', ch_compiled_at h),
      (''active_tasks'', JList (map (\<lambda>t. JDict
         [(''task_id'', ts_task_id t), (''title'', ts_title t), (''description'', ts_description t),
          (''status'', ts_status t), (''priority'', ts_priority t), (''assignee'', ts_assignee t),
          (''tags'', ts_tags t), (''blocked_by'', ts_blocked_by t), (''created_by'', ts_created_by t),
          (''progress_notes'', ts_progress_notes t)]) (ch_active_tasks h))),
      (''active_decisions'', JList (map (\<lambda>d. JDict
         [(''decision_id'', ds_decision_id d), (''title'', ds_title d), (''description'', ds_description d),
          (''rationale'', ds_rationale d), (''status'', ds_status d), (''created_by'', ds_created_by d)])
         (ch_active_decisions h))),
      (''open_questions'', JList (map (\<lambda>q. JDict
         [(''question_id'', qs_question_id q), (''title'', qs_title q), (''description'', qs_description q),
          (''priority'', qs_priority q), (''blocks_task_ids'', qs_blocks_task_ids q),
          (''raised_by'', qs_raised_by q)]) (ch_open_questions h))),
      (''blockers'', ch_blockers h)]"

section \<open>Sorting\<close>

definition rank_of :: "json \<Rightarrow> nat" where
  "rank_of v = (case v of JStr s \<Rightarrow> dict_get PRIORITY_ORDER s 2 | _ \<Rightarrow> 2)"

lemma priority_rank_of: "priority_rank v = Inr n \<Longrightarrow> n = rank_of v"
  by (cases v) (auto simp: priority_rank_def rank_of_def)

lemma sort_by_priority_Inr:
  assumes "sort_by_priority f xs = Inr ys"
  shows "ys = sort_key (\<lambda>x. rank_of (f x)) xs"
proof -
  obtain ps where ps: "rmap (\<lambda>x. rbind (priority_rank (f x)) (\<lambda>r. Inr (r, x))) xs = Inr ps" "ys = map snd (sort_key fst ps)"
    using assms by (auto simp: sort_by_priority_def)
  have "ps = map (\<lambda>x. (rank_of (f x), x)) xs"
    using ps(1)
  proof (induction xs arbitrary: ps)
    case (Cons x xs)
    then show ?case by (fastforce dest: priority_rank_of)
  qed simp
  then show ?thesis using ps(2) by (simp add: sort_key_map comp_def)
qed

section \<open>What the blockers say\<close>

definition items_of :: "json \<Rightarrow> json set" where
  "items_of v = {k. \<exists>xs. py_list v = Inr xs \<and> (\<exists>x \<in> set xs. hash_key x = Inr k)}"

definition blocker_pairs :: "blocker_map \<Rightarrow> (json \<times> json) set" where
  "blocker_pairs m = {(t, q). \<exists>qs. map_of m t = Some qs \<and> q \<in> set qs}"

lemma blocker_add_pairs:
  assumes "blocker_add m tid qid = Inr m'"
  shows "blocker_pairs m' = blocker_pairs m \<union> {(t, q). hash_key tid = Inr t \<and> hash_key qid = Inr q}"
  using assms by (auto simp: blocker_add_def blocker_pairs_def set_add_def dict_get_def split: if_splits option.splits)

lemma block_by_task_pairs:
  assumes "block_by_task ids m task = Inr m'"
  shows "blocker_pairs m' = blocker_pairs m \<union>
    {(t, q). hash_key (ts_task_id task) = Inr t \<and> q \<in> set ids \<and> q \<in> items_of (ts_blocked_by task)}"
proof -
  obtain xs where xs: "py_list (ts_blocked_by task) = Inr xs"
    "rfold (\<lambda>m qid. rbind (hash_key qid) (\<lambda>q. if q \<in> set ids then blocker_add m (ts_task_id task) qid else Inr m)) m xs = Inr m'"
    using assms by (auto simp: block_by_task_def)
  have "blocker_pairs m' = blocker_pairs m \<union>
      (\<Union>x \<in> set xs. {(t, q). hash_key (ts_task_id task) = Inr t \<and> hash_key x = Inr q \<and> q \<in> set ids})"
    by (rule rfold_union [OF xs(2)]) (auto dest: blocker_add_pairs split: if_splits)
  then show ?thesis by (auto simp: items_of_def xs(1))
qed

lemma block_by_question_pairs:
  assumes "block_by_question all_tasks m q = Inr m'"
  shows "blocker_pairs m' = blocker_pairs m \<union>
    {(t, k). hash_key (qs_question_id q) = Inr k \<and> dict_has all_tasks t \<and> t \<in> items_of (qs_blocks_task_ids q)}"
proof -
  obtain xs where xs: "py_list (qs_blocks_task_ids q) = Inr xs"
    "rfold (\<lambda>m tid. rbind (hash_key tid) (\<lambda>t. if dict_has all_tasks t then blocker_add m tid (qs_question_id q) else Inr m)) m xs = Inr m'"
    using assms by (auto simp: block_by_question_def)
  have "blocker_pairs m' = blocker_pairs m \<union>
      (\<Union>x \<in> set xs. {(t, k). hash_key x = Inr t \<and> hash_key (qs_question_id q) = Inr k \<and> dict_has all_tasks t})"
    by (rule rfold_union [OF xs(2)]) (auto dest: blocker_add_pairs split: if_splits)
  then show ?thesis by (auto simp: items_of_def xs(1))
qed

lemma blocker_add_wf: "blocker_add m t q = Inr m' \<Longrightarrow> wf_dict m \<Longrightarrow> wf_dict m'"
  by (auto simp: blocker_add_def)

lemma block_wf:
  "block_by_task ids m task = Inr m' \<Longrightarrow> wf_dict m \<Longrightarrow> wf_dict m'"
  "block_by_question all_tasks m q = Inr m' \<Longrightarrow> wf_dict m \<Longrightarrow> wf_dict m'"
  unfolding block_by_task_def block_by_question_def
  by (auto elim!: rfold_invariant split: if_splits intro: blocker_add_wf)

lemma sorted_ids_set: "sorted_ids qs = Inr ks \<Longrightarrow> set ks = set qs"
  by (auto simp: sorted_ids_def split: if_splits)

text \<open>An entry of the list of blockers.\<close>

definition is_blocked :: "json \<Rightarrow> json \<Rightarrow> json \<Rightarrow> bool" where
  "is_blocked blockers tid qid \<longleftrightarrow>
     (\<exists>bs title qids. blockers = JList bs \<and> qid \<in> set qids \<and>
        JDict [(''task_id'', tid), (''task_title'', title), (''blocked_by_questions'', JList qids)] \<in> set bs)"

lemma blocker_entries:
  assumes "rmap (blocker_entry all_tasks) m = Inr bs" "wf_dict m"
  shows "is_blocked (JList (concat bs)) tid qid \<longleftrightarrow> dict_has all_tasks tid \<and> (tid, qid) \<in> blocker_pairs m"
proof -
  have "(\<exists>title qids. qid \<in> set qids \<and>
      JDict [(''task_id'', tid), (''task_title'', title), (''blocked_by_questions'', JList qids)] \<in> set (concat bs)) \<longleftrightarrow>
      dict_has all_tasks tid \<and> (\<exists>qs. (tid, qs) \<in> set m \<and> qid \<in> set qs)"
    using assms(1)
  proof (induction m arbitrary: bs)
    case (Cons b m)
    from Cons.prems obtain x xs where x: "blocker_entry all_tasks b = Inr x" "rmap (blocker_entry all_tasks) m = Inr xs"
      "bs = x # xs" by auto
    have "(\<exists>title qids. qid \<in> set qids \<and>
        JDict [(''task_id'', tid), (''task_title'', title), (''blocked_by_questions'', JList qids)] \<in> set x) \<longleftrightarrow>
        dict_has all_tasks tid \<and> tid = fst b \<and> qid \<in> set (snd b)"
      using x(1) by (auto simp: blocker_entry_def dict_has_map_of dest: sorted_ids_set split: option.splits)
    with Cons.IH [OF x(2)] x(3) show ?case by (cases b) auto
  qed simp
  with assms(2) show ?thesis by (auto simp: is_blocked_def blocker_pairs_def wf_dict_def)
qed

lemma blockers_of_Inr:
  assumes "blockers_of all_tasks active qs = Inr b"
  shows "is_blocked b tid qid \<longleftrightarrow> dict_has all_tasks tid \<and>
    (\<exists>q \<in> set qs. hash_key (qs_question_id q) = Inr qid \<and>
      (tid \<in> items_of (qs_blocks_task_ids q) \<or>
       (\<exists>t \<in> set active. hash_key (ts_task_id t) = Inr tid \<and> qid \<in> items_of (ts_blocked_by t))))"
proof -
  obtain ids m m' bs where run: "rmap (\<lambda>q. hash_key (qs_question_id q)) qs = Inr ids"
    "rfold (block_by_task ids) [] active = Inr m" "rfold (block_by_question all_tasks) m qs = Inr m'"
    "rmap (blocker_entry all_tasks) m' = Inr bs" "b = JList (concat bs)"
    using assms by (auto simp: blockers_of_def)
  have ids: "k \<in> set ids \<longleftrightarrow> (\<exists>q \<in> set qs. hash_key (qs_question_id q) = Inr k)" for k
    using run(1) by (induction qs arbitrary: ids) auto
  have "blocker_pairs m = blocker_pairs [] \<union> (\<Union>t \<in> set active.
      {(u, q). hash_key (ts_task_id t) = Inr u \<and> q \<in> set ids \<and> q \<in> items_of (ts_blocked_by t)})"
    by (rule rfold_union [OF run(2)]) (rule block_by_task_pairs)
  moreover have "blocker_pairs m' = blocker_pairs m \<union> (\<Union>q \<in> set qs.
      {(t, k). hash_key (qs_question_id q) = Inr k \<and> dict_has all_tasks t \<and> t \<in> items_of (qs_blocks_task_ids q)})"
    by (rule rfold_union [OF run(3)]) (rule block_by_question_pairs)
  moreover have "blocker_pairs [] = {}" by (simp add: blocker_pairs_def)
  ultimately have pairs: "(tid, qid) \<in> blocker_pairs m' \<longleftrightarrow>
      (\<exists>t \<in> set active. hash_key (ts_task_id t) = Inr tid \<and> qid \<in> set ids \<and> qid \<in> items_of (ts_blocked_by t)) \<or>
      (\<exists>q \<in> set qs. hash_key (qs_question_id q) = Inr qid \<and> dict_has all_tasks tid \<and> tid \<in> items_of (qs_blocks_task_ids q))"
    by simp
  have "wf_dict m" by (rule rfold_invariant [OF run(2)]) (auto intro: block_wf)
  then have "wf_dict m'" by (rule rfold_invariant [OF run(3)]) (auto intro: block_wf)
  from blocker_entries [OF run(4) this, of tid qid] show ?thesis unfolding run(5) pairs ids by blast
qed

section \<open>Invariants of reduced tasks\<close>

text \<open>A task is stored under its own id.\<close>

definition keys_match :: "tasks \<Rightarrow> bool" where
  "keys_match = all_states (\<lambda>k t. hash_key (ts_task_id t) = Inr k)"

lemma keys_match_Nil [simp]: "keys_match []"
  by (simp add: keys_match_def)

lemma task_setattr_id: "task_setattr t kv = Inr t' \<Longrightarrow> ts_task_id t' = ts_task_id t"
  by (cases kv) (auto simp: task_setattr_def split: if_splits)

lemma task_mutate_id:
  assumes "task_mutate e t = Inr t'"
  shows "ts_task_id t' = ts_task_id t"
proof -
  obtain u where u: "rfold task_setattr t (er_payload e) = Inr u" "t' = u\<lparr>ts_updated_at := recorded e\<rparr>"
    using assms by (auto simp: task_mutate_def)
  have "ts_task_id u = ts_task_id t"
    by (rule rfold_invariant [OF u(1), of "\<lambda>v. ts_task_id v = ts_task_id t"]) (auto dest: task_setattr_id)
  with u(2) show ?thesis by simp
qed

lemma task_note_id: "task_note e t = Inr t' \<Longrightarrow> ts_task_id t' = ts_task_id t"
  by (auto simp: task_note_def split: json.splits)

lemma task_step_keys_match:
  "task_step d e = Inr d' \<Longrightarrow> keys_match d \<Longrightarrow> keys_match d'"
  unfolding keys_match_def
  by (erule task_step_all) (auto simp: task_of_event_def Let_def dest: task_mutate_id task_note_id)

lemma task_reduce_keys_match: "task_reduce None es = Inr ts \<Longrightarrow> keys_match ts"
  unfolding task_reduce_def
  by (erule rfold_invariant [where P = keys_match]) (simp_all add: keys_match_Nil task_step_keys_match)

section \<open>Properties\<close>

text \<open>The head shows exactly the live items in order of priority.  The active tasks are the tasks that are
  not completed, the open questions those still open, each sorted by priority (critical, high, normal or unknown,
  low) with ties in the order of creation; the active decisions are the accepted ones.\<close>

theorem build_head_selects:
  assumes "build_head pid ps ts ds qs es ats = Inr h"
  shows "ch_active_tasks h = sort_key (\<lambda>t. rank_of (ts_priority t)) (filter (\<lambda>t. ts_status t \<noteq> JStr ''completed'') (map snd ts)) \<and>
    ch_open_questions h = sort_key (\<lambda>q. rank_of (qs_priority q)) (filter (\<lambda>q. qs_status q = JStr ''open'') (map snd qs)) \<and>
    ch_active_decisions h = filter (\<lambda>d. ds_status d = JStr ''accepted'') (map snd ds)"
  using assms by (auto simp: build_head_def Let_def dest: sort_by_priority_Inr)

definition sample_head_events :: "EventRecord list" where
  "sample_head_events =
     [sample_reducer_event 1 PROJECT_CREATED [(''name'', JStr ''n'')],
      sample_reducer_event 2 PROJECT_GOAL_SET [(''goal'', JStr ''g'')],
      sample_reducer_event 3 PROJECT_FOCUS_CHANGED [(''focus'', JStr ''f'')],
      sample_reducer_event 4 TASK_CREATED [(''task_id'', JStr ''a''), (''blocked_by'', JList [JStr ''q'']),
        (''details'', JDict [(''summary'', JStr ''s''), (''body'', JStr ''b'')])],
      sample_reducer_event 5 OPEN_QUESTION_RAISED [(''question_id'', JStr ''q'')],
      sample_reducer_event 6 TASK_CREATED [(''task_id'', JStr ''b''), (''priority'', JStr ''high''),
        (''details'', JDict [(''summary'', JStr ''s''), (''body'', JStr ''b'')])]]"

definition sample_head :: "CognitiveHead result" where
  "sample_head =
     rbind (task_reduce None sample_head_events) (\<lambda>ts.
     rbind (decision_reduce None sample_head_events) (\<lambda>ds.
     rbind (question_reduce None sample_head_events) (\<lambda>qs.
     build_head sample_project (project_reduce None sample_head_events) ts ds qs sample_head_events ts)))"

lemma sample_head_ok:
  "\<exists>ts ds qs h. task_reduce None sample_head_events = Inr ts \<and> decision_reduce None sample_head_events = Inr ds \<and>
     question_reduce None sample_head_events = Inr qs \<and>
     build_head sample_project (project_reduce None sample_head_events) ts ds qs sample_head_events ts = Inr h"
proof -
  have "\<not> isl sample_head" by code_simp
  then obtain h where "sample_head = Inr h" by (metis isl_def sum.exhaust)
  then show ?thesis unfolding sample_head_def by auto
qed

theorem build_head_selects_witness:
  "\<exists>ts ds qs h. task_reduce None sample_head_events = Inr ts \<and>
     build_head sample_project (project_reduce None sample_head_events) ts ds qs sample_head_events ts = Inr h \<and>
     ch_active_tasks h = sort_key (\<lambda>t. rank_of (ts_priority t)) (filter (\<lambda>t. ts_status t \<noteq> JStr ''completed'') (map snd ts))"
  using sample_head_ok build_head_selects by metis

text \<open>Property C18: blockers are sound and complete.  In the head of any reduced stream, a task is listed as blocked by
  a question exactly if both exist, the question is open, and the question names the task or the task, not being
  completed, names the question.\<close>

theorem blockers_correct:
  assumes "task_reduce None es = Inr ts" "question_reduce None es = Inr qs" "build_head pid ps ts ds qs es ts = Inr h"
  shows "is_blocked (ch_blockers h) tid qid \<longleftrightarrow>
    (\<exists>t q. map_of ts tid = Some t \<and> q \<in> snd ` set qs \<and> hash_key (qs_question_id q) = Inr qid \<and> qs_status q = JStr ''open'' \<and>
      (tid \<in> items_of (qs_blocks_task_ids q) \<or>
       (ts_status t \<noteq> JStr ''completed'' \<and> qid \<in> items_of (ts_blocked_by t))))"
proof -
  let ?active = "sort_key (\<lambda>t. rank_of (ts_priority t)) (filter (\<lambda>t. ts_status t \<noteq> JStr ''completed'') (map snd ts))"
  let ?open = "sort_key (\<lambda>q. rank_of (qs_priority q)) (filter (\<lambda>q. qs_status q = JStr ''open'') (map snd qs))"
  have "blockers_of ts ?active ?open = Inr (ch_blockers h)"
    using assms(3) by (auto simp: build_head_def Let_def dest!: sort_by_priority_Inr)
  note eq = blockers_of_Inr [OF this, of tid qid]
  have wf: "wf_dict ts" using assms(1) by (rule reduce_wf)
  have own: "(\<exists>t \<in> set ?active. hash_key (ts_task_id t) = Inr tid \<and> P t) \<longleftrightarrow>
      (\<exists>t. map_of ts tid = Some t \<and> ts_status t \<noteq> JStr ''completed'' \<and> P t)" for P
  proof
    assume "\<exists>t \<in> set ?active. hash_key (ts_task_id t) = Inr tid \<and> P t"
    then obtain k t where t: "(k, t) \<in> set ts" "ts_status t \<noteq> JStr ''completed''" "hash_key (ts_task_id t) = Inr tid" "P t"
      by auto
    then have "map_of ts k = Some t" using wf by (simp add: wf_dict_def)
    with t task_reduce_keys_match [OF assms(1)] show "\<exists>t. map_of ts tid = Some t \<and> ts_status t \<noteq> JStr ''completed'' \<and> P t"
      by (auto simp: keys_match_def all_states_def)
  next
    assume "\<exists>t. map_of ts tid = Some t \<and> ts_status t \<noteq> JStr ''completed'' \<and> P t"
    then obtain t where t: "map_of ts tid = Some t" "ts_status t \<noteq> JStr ''completed''" "P t" by blast
    moreover have "hash_key (ts_task_id t) = Inr tid"
      using t(1) task_reduce_keys_match [OF assms(1)] by (simp add: keys_match_def all_states_def)
    moreover have "t \<in> set (map snd ts)" using map_of_SomeD [OF t(1)] by force
    ultimately show "\<exists>t \<in> set ?active. hash_key (ts_task_id t) = Inr tid \<and> P t" by auto
  qed
  have "dict_has ts tid \<longleftrightarrow> (\<exists>t. map_of ts tid = Some t)" by (auto simp: dict_has_map_of)
  then show ?thesis unfolding eq own [of "\<lambda>t. qid \<in> items_of (ts_blocked_by t)"] by auto
qed

theorem blockers_correct_witness:
  "\<exists>ts ds qs h. build_head sample_project (project_reduce None sample_head_events) ts ds qs sample_head_events ts = Inr h \<and>
     is_blocked (ch_blockers h) (JStr ''a'') (JStr ''q'') \<and> \<not> is_blocked (ch_blockers h) (JStr ''b'') (JStr ''q'')"
proof -
  obtain ts ds qs h where h: "task_reduce None sample_head_events = Inr ts"
    "question_reduce None sample_head_events = Inr qs"
    "build_head sample_project (project_reduce None sample_head_events) ts ds qs sample_head_events ts = Inr h"
    using sample_head_ok by blast
  note run = task_reduce_def question_reduce_def sample_head_events_def task_step_def question_step_def
    insert_new_def task_of_event_def question_of_event_def get_list_def dict_get_def dict_item_def Let_def
  have "is_blocked (ch_blockers h) (JStr ''a'') (JStr ''q'')" "\<not> is_blocked (ch_blockers h) (JStr ''b'') (JStr ''q'')"
    unfolding blockers_correct [OF h] using h(1,2) by (auto simp: run items_of_def)
  with h(3) show ?thesis by blast
qed

end
