(* ===== verification/Snapshot.thy ===== *)
theory Snapshot
  imports HeadState Canonical
begin

text \<open>
  Snapshots of the cognitive head: the payload of \<open>snapshot_payload.py\<close>, the manager of
  \<open>snapshot.py\<close> and the policy of \<open>snapshot_policy.py\<close>, all under
  \<open>rationalevault/cognitive_head\<close>, on the snapshot table of the SQLite event store.

  A payload read from storage is not checked, so its fields are JSON values.  A dictionary of states
  becomes an object of JSON; ids that are no texts, which JSON would turn into texts, leave the model.
  Warnings on standard error are not modelled.
\<close>

section \<open>Payload\<close>

record CognitiveHeadSnapshotPayload =
  sp_sequence :: json
  sp_schema_version :: json
  sp_projection_version :: json
  sp_snapshot_hash :: json
  sp_project_id :: json
  sp_project_name :: json
  sp_project_goal :: json
  sp_current_focus :: json
  sp_ledger_version :: json
  sp_compiled_at :: json
  sp_tasks :: json
  sp_decisions :: json
  sp_questions :: json
  sp_blockers :: json

definition SCHEMA_VERSION :: int where "SCHEMA_VERSION = 1"
definition PROJECTION_VERSION :: int where "PROJECTION_VERSION = 1"

definition base_to_dict :: "bool \<Rightarrow> CognitiveHeadSnapshotPayload \<Rightarrow> payload" where
  "base_to_dict exclude_hash p =
     [(''sequence'', sp_sequence p), (''schema_version'', sp_schema_version p),
      (''projection_version'', sp_projection_version p)] @
     (if exclude_hash then [] else [(''snapshot_hash'', sp_snapshot_hash p)])"

definition snapshot_to_dict :: "bool \<Rightarrow> CognitiveHeadSnapshotPayload \<Rightarrow> payload" where
  "snapshot_to_dict exclude_hash p = base_to_dict exclude_hash p @
     [(''project_id'', sp_project_id p), (''project_name'', sp_project_name p),
      (''project_goal'', sp_project_goal p), (''current_focus'', sp_current_focus p),
      (''ledger_version'', sp_ledger_version p), (''compiled_at'', sp_compiled_at p),
      (''tasks'', sp_tasks p), (''decisions'', sp_decisions p), (''questions'', sp_questions p),
      (''blockers'', sp_blockers p)]"

definition snapshot_from_dict :: "json \<Rightarrow> CognitiveHeadSnapshotPayload result" where
  "snapshot_from_dict v = rbind (as_dict v) (\<lambda>d.
     Inr \<lparr>sp_sequence = get_or d ''sequence'' (JInt 0), sp_schema_version = get_or d ''schema_version'' (JInt 1),
          sp_projection_version = get_or d ''projection_version'' (JInt 1),
          sp_snapshot_hash = get_or d ''snapshot_hash'' (JStr []), sp_project_id = get_or d ''project_id'' (JStr []),
          sp_project_name = get_or d ''project_name'' (JStr []), sp_project_goal = get_or d ''project_goal'' (JStr []),
          sp_current_focus = get_or d ''current_focus'' (JStr []), sp_ledger_version = get_or d ''ledger_version'' (JInt 0),
          sp_compiled_at = get_or d ''compiled_at'' (JStr []), sp_tasks = get_or d ''tasks'' (JDict []),
          sp_decisions = get_or d ''decisions'' (JDict []), sp_questions = get_or d ''questions'' (JDict []),
          sp_blockers = get_or d ''blockers'' (JList [])\<rparr>)"

definition snapshot_digest :: "host \<Rightarrow> payload \<Rightarrow> string" where
  "snapshot_digest h data = sha256_hex h (utf8_encode (json_dumps default_format True (JDict data)))"

definition compute_hash :: "host \<Rightarrow> CognitiveHeadSnapshotPayload \<Rightarrow> string" where
  "compute_hash h p = snapshot_digest h (snapshot_to_dict True p)"

definition validate_hash :: "host \<Rightarrow> CognitiveHeadSnapshotPayload \<Rightarrow> bool" where
  "validate_hash h p \<longleftrightarrow> sp_snapshot_hash p = JStr (compute_hash h p)"

definition with_hash :: "host \<Rightarrow> CognitiveHeadSnapshotPayload \<Rightarrow> CognitiveHeadSnapshotPayload" where
  "with_hash h p = p\<lparr>sp_snapshot_hash := JStr (compute_hash h p)\<rparr>"

text \<open>An object with the given texts as names, in order.\<close>

fun text_key :: "json \<Rightarrow> string result" where
  "text_key (JStr s) = Inr s"
| "text_key v = Inl (Untyped ''object name'')"

definition states_to_json :: "('s \<Rightarrow> json) \<Rightarrow> (json, 's) dict \<Rightarrow> json result" where
  "states_to_json f d = rbind (rmap (\<lambda>(k, s). rbind (text_key k) (\<lambda>k. Inr (k, f s))) d) (\<lambda>d. Inr (JDict d))"

text \<open>\<open>{t.id: {...} for t in items}\<close>, for a snapshot built from a head alone.\<close>

definition items_to_json :: "('s \<Rightarrow> json) \<Rightarrow> ('s \<Rightarrow> json) \<Rightarrow> 's list \<Rightarrow> json result" where
  "items_to_json i f xs =
     rbind (rfold (\<lambda>d s. rbind (hash_key (i s)) (\<lambda>k. Inr (AList.update k s d))) [] xs) (states_to_json f)"

definition from_cognitive_head :: "host \<Rightarrow> CognitiveHead \<Rightarrow> int \<Rightarrow> json option \<Rightarrow> json option \<Rightarrow> json option \<Rightarrow>
    CognitiveHeadSnapshotPayload result" where
  "from_cognitive_head h head sequence all_tasks all_decisions all_questions =
     rbind (case all_tasks of Some v \<Rightarrow> Inr v
              | None \<Rightarrow> items_to_json ts_task_id task_to_dict (ch_active_tasks head)) (\<lambda>tasks.
     rbind (case all_decisions of Some v \<Rightarrow> Inr v
              | None \<Rightarrow> items_to_json ds_decision_id decision_to_dict (ch_active_decisions head)) (\<lambda>decisions.
     rbind (case all_questions of Some v \<Rightarrow> Inr v
              | None \<Rightarrow> items_to_json qs_question_id question_to_dict (ch_open_questions head)) (\<lambda>questions.
     Inr (with_hash h
       \<lparr>sp_sequence = JInt sequence, sp_schema_version = JInt SCHEMA_VERSION,
        sp_projection_version = JInt PROJECTION_VERSION, sp_snapshot_hash = JStr [],
        sp_project_id = JStr (ch_project_id head), sp_project_name = ch_project_name head,
        sp_project_goal = ch_project_goal head, sp_current_focus = ch_current_focus head,
        sp_ledger_version = ch_ledger_version head, sp_compiled_at = ch_compiled_at head,
        sp_tasks = tasks, sp_decisions = decisions, sp_questions = questions, sp_blockers = ch_blockers head\<rparr>))))"

section \<open>Back to a head\<close>

text \<open>UUID texts in the form \<open>str\<close> writes; other spellings that \<open>UUID\<close> accepts leave the model.\<close>

definition is_hex :: "char \<Rightarrow> bool" where
  "is_hex c \<longleftrightarrow> is_digit c \<or> (97 \<le> (of_char c :: nat) \<and> (of_char c :: nat) \<le> 102)"

definition is_uuid_text :: "string \<Rightarrow> bool" where
  "is_uuid_text s \<longleftrightarrow> length s = 36 \<and>
     list_all (\<lambda>(i, c). if i \<in> {8, 13, 18, 23} then c = CHR ''-'' else is_hex c) (zip [0..<36] s)"

definition ZERO_UUID :: string where
  "ZERO_UUID = ''00000000-0000-0000-0000-000000000000''"

definition uuid_of :: "json \<Rightarrow> string result" where
  "uuid_of v = (case v of JStr s \<Rightarrow> if is_uuid_text s then Inr s else Inl (Untyped ''UUID'')
     | _ \<Rightarrow> Inl (AttributeError ''replace''))"

definition task_from_data :: "json \<Rightarrow> TaskState result" where
  "task_from_data v =
     rbind (json_item v ''task_id'') (\<lambda>task_id.
     rbind (json_item v ''title'') (\<lambda>title.
     rbind (as_dict v) (\<lambda>d.
     Inr \<lparr>ts_task_id = task_id, ts_title = title, ts_description = get_or d ''description'' (JStr []),
          ts_status = get_or d ''status'' (JStr ''open''), ts_assignee = get_or_none d ''assignee'',
          ts_priority = get_or d ''priority'' (JStr ''normal''), ts_tags = get_or d ''tags'' (JList []),
          ts_blocked_by = get_or d ''blocked_by'' (JList []), ts_created_at = get_or_none d ''created_at'',
          ts_updated_at = get_or_none d ''updated_at'', ts_completed_at = get_or_none d ''completed_at'',
          ts_created_by = get_or d ''created_by'' (JStr []), ts_progress_notes = get_or d ''progress_notes'' (JList []),
          ts_related_knowledge_ids = get_or d ''related_knowledge_ids'' (JList [])\<rparr>)))"

definition decision_from_data :: "json \<Rightarrow> DecisionState result" where
  "decision_from_data v =
     rbind (json_item v ''decision_id'') (\<lambda>decision_id.
     rbind (json_item v ''title'') (\<lambda>title.
     rbind (as_dict v) (\<lambda>d.
     Inr \<lparr>ds_decision_id = decision_id, ds_title = title, ds_description = get_or d ''description'' (JStr []),
          ds_status = get_or d ''status'' (JStr ''proposed''), ds_rationale = get_or d ''rationale'' (JStr []),
          ds_context = get_or d ''context'' (JStr []), ds_category = get_or d ''category'' (JStr ''general''),
          ds_superseded_by = get_or_none d ''superseded_by'', ds_created_at = get_or_none d ''created_at'',
          ds_accepted_at = get_or_none d ''accepted_at'', ds_created_by = get_or d ''created_by'' (JStr [])\<rparr>)))"

definition question_from_data :: "json \<Rightarrow> QuestionState result" where
  "question_from_data v =
     rbind (json_item v ''question_id'') (\<lambda>question_id.
     rbind (json_item v ''title'') (\<lambda>title.
     rbind (as_dict v) (\<lambda>d.
     Inr \<lparr>qs_question_id = question_id, qs_title = title, qs_description = get_or d ''description'' (JStr []),
          qs_status = get_or d ''status'' (JStr ''open''), qs_priority = get_or d ''priority'' (JStr ''normal''),
          qs_resolution = get_or_none d ''resolution'', qs_blocks_task_ids = get_or d ''blocks_task_ids'' (JList []),
          qs_raised_at = get_or_none d ''raised_at'', qs_resolved_at = get_or_none d ''resolved_at'',
          qs_raised_by = get_or d ''raised_by'' (JStr [])\<rparr>)))"

definition to_cognitive_head :: "CognitiveHeadSnapshotPayload \<Rightarrow> CognitiveHead result" where
  "to_cognitive_head p =
     rbind (as_dict (sp_tasks p)) (\<lambda>td. rbind (rmap task_from_data (map snd td)) (\<lambda>tasks.
     rbind (as_dict (sp_decisions p)) (\<lambda>dd. rbind (rmap decision_from_data (map snd dd)) (\<lambda>decisions.
     rbind (as_dict (sp_questions p)) (\<lambda>qd. rbind (rmap question_from_data (map snd qd)) (\<lambda>questions.
     rbind (if truthy (sp_project_id p) then uuid_of (sp_project_id p) else Inr ZERO_UUID) (\<lambda>pid.
     Inr \<lparr>ch_project_id = pid, ch_project_name = sp_project_name p, ch_project_goal = sp_project_goal p,
          ch_current_focus = sp_current_focus p, ch_ledger_version = sp_ledger_version p,
          ch_compiled_at = sp_compiled_at p, ch_active_tasks = tasks, ch_active_decisions = decisions,
          ch_open_questions = questions, ch_blockers = sp_blockers p\<rparr>)))))))"

section \<open>Storage\<close>

text \<open>A value bound to an integer column.\<close>

fun int_column :: "json \<Rightarrow> int result" where
  "int_column (JInt i) = Inr i"
| "int_column (JBool b) = Inr (if b then 1 else 0)"
| "int_column JNull = Inl IntegrityError"
| "int_column _ = Inl (Untyped ''integer column'')"

fun text_column :: "json \<Rightarrow> string result" where
  "text_column (JStr s) = Inr s"
| "text_column JNull = Inl IntegrityError"
| "text_column _ = Inl (Untyped ''text column'')"

definition save_snapshot :: "SQLiteEventStore \<Rightarrow> string \<Rightarrow> string \<Rightarrow> string \<Rightarrow> CognitiveHeadSnapshotPayload \<Rightarrow>
    SQLiteEventStore result" where
  "save_snapshot st uuid pid name p =
     rbind (int_column (sp_sequence p)) (\<lambda>sq.
     rbind (int_column (sp_schema_version p)) (\<lambda>sv.
     rbind (int_column (sp_projection_version p)) (\<lambda>pv.
     rbind (text_column (sp_snapshot_hash p)) (\<lambda>hash.
     insert_snapshot st \<lparr>sr_id = uuid, sr_project_id = pid, sr_projection_name = name, sr_sequence = sq,
       sr_payload = json_dumps default_format False (JDict (snapshot_to_dict True p)),
       sr_schema_version = sv, sr_projection_version = pv, sr_snapshot_hash = hash\<rparr>))))"

section \<open>Manager\<close>

datatype SnapshotValidationReason =
    NOT_FOUND | HASH_MISMATCH | SCHEMA_VERSION_MISMATCH | PROJECTION_VERSION_MISMATCH |
    FUTURE_SEQUENCE | DESERIALIZATION

record SnapshotValidationResult =
  sv_valid :: bool
  sv_payload :: "CognitiveHeadSnapshotPayload option"
  sv_reason :: "SnapshotValidationReason option"

definition rejected :: "SnapshotValidationReason \<Rightarrow> SnapshotValidationResult" where
  "rejected r = \<lparr>sv_valid = False, sv_payload = None, sv_reason = Some r\<rparr>"

definition accepted :: "CognitiveHeadSnapshotPayload \<Rightarrow> SnapshotValidationResult" where
  "accepted p = \<lparr>sv_valid = True, sv_payload = Some p, sv_reason = None\<rparr>"

definition SNAPSHOT_SERIALIZERS :: "string list" where
  "SNAPSHOT_SERIALIZERS = [''cognitive_head'']"

text \<open>Numbers as comparisons see them; a float may equal an int and is left outside the model.\<close>

fun number_of :: "json \<Rightarrow> int option result" where
  "number_of (JInt i) = Inr (Some i)"
| "number_of (JBool b) = Inr (Some (if b then 1 else 0))"
| "number_of (JFloat t) = Inl (Untyped ''float'')"
| "number_of _ = Inr None"

definition int_value :: "json \<Rightarrow> int result" where
  "int_value v = rbind (number_of v) (\<lambda>n. case n of None \<Rightarrow> Inl TypeError | Some i \<Rightarrow> Inr i)"

text \<open>\<open>raw\<close> is the answer of the store and \<open>latest_seq\<close> the last sequence number of the project.\<close>

definition load_valid_snapshot :: "host \<Rightarrow> RawSnapshot option result \<Rightarrow> string \<Rightarrow> int \<Rightarrow> SnapshotValidationResult result" where
  "load_valid_snapshot h raw name latest_seq =
     rbind raw (\<lambda>raw.
     case raw of
       None \<Rightarrow> Inr (rejected NOT_FOUND)
     | Some r \<Rightarrow>
         if name \<notin> set SNAPSHOT_SERIALIZERS then Inr (rejected DESERIALIZATION)
         else case snapshot_from_dict (raw_payload r) of
           Inl e \<Rightarrow> if exc_class e \<in> {''KeyError'', ''TypeError'', ''ValueError'', ''AttributeError''}
                    then Inr (rejected DESERIALIZATION) else Inl e
         | Inr p \<Rightarrow>
             if \<not> validate_hash h p then Inr (rejected HASH_MISMATCH)
             else rbind (number_of (sp_schema_version p)) (\<lambda>sv.
               if sv \<noteq> Some SCHEMA_VERSION then Inr (rejected SCHEMA_VERSION_MISMATCH)
               else rbind (number_of (sp_projection_version p)) (\<lambda>pv.
                 if pv \<noteq> Some PROJECTION_VERSION then Inr (rejected PROJECTION_VERSION_MISMATCH)
                 else rbind (int_value (sp_sequence p)) (\<lambda>sq.
                   if latest_seq < sq then Inr (rejected FUTURE_SEQUENCE) else Inr (accepted p)))))"

definition should_snapshot :: "int \<Rightarrow> int \<Rightarrow> int option \<Rightarrow> bool" where
  "should_snapshot threshold cur lst = (case lst of None \<Rightarrow> True | Some l \<Rightarrow> threshold \<le> cur - l)"

definition DEFAULT_POLICY :: int where "DEFAULT_POLICY = 100"

text \<open>Every exception of a save is caught.\<close>

definition refresh_snapshot :: "host \<Rightarrow> int \<Rightarrow> SQLiteEventStore \<Rightarrow> string \<Rightarrow> string \<Rightarrow> string \<Rightarrow>
    CognitiveHeadSnapshotPayload \<Rightarrow> int \<Rightarrow> SQLiteEventStore result" where
  "refresh_snapshot h threshold st uuid pid name p cur =
     (if \<not> should_snapshot threshold cur (get_latest_snapshot_sequence st pid name) then Inr st
      else case save_snapshot st uuid pid name (with_hash h p) of
             Inl e \<Rightarrow> if exc_class e = [] then Inl e else Inr st
           | Inr st' \<Rightarrow> Inr st')"

section \<open>Hashes\<close>

lemma snapshot_to_dict_hash [simp]: "snapshot_to_dict True (p\<lparr>sp_snapshot_hash := v\<rparr>) = snapshot_to_dict True p"
  by (simp add: snapshot_to_dict_def base_to_dict_def)

lemma validate_with_hash [simp]: "validate_hash h (with_hash h p)"
  by (simp add: validate_hash_def with_hash_def compute_hash_def)

lemma payload_from_to_dict: "snapshot_from_dict (JDict (snapshot_to_dict False p)) = Inr p"
  by (simp add: snapshot_from_dict_def snapshot_to_dict_def base_to_dict_def dict_get_def)

lemma payload_from_unhashed:
  "snapshot_from_dict (JDict (snapshot_to_dict True p)) = Inr (p\<lparr>sp_snapshot_hash := JStr []\<rparr>)"
  by (simp add: snapshot_from_dict_def snapshot_to_dict_def base_to_dict_def dict_get_def)

section \<open>Stores the program can reach\<close>

text \<open>
  The operations that change the store.  Payloads hold JSON values with distinct names, as dictionaries
  built by the program do.
\<close>

inductive reachable :: "host \<Rightarrow> SQLiteEventStore \<Rightarrow> bool" for h where
  init: "reachable h store_init"
| append: "reachable h st \<Longrightarrow> append_event st q = (st', r) \<Longrightarrow> reachable h st'"
| refresh: "reachable h st \<Longrightarrow> wf_json (JDict (snapshot_to_dict True p)) \<Longrightarrow>
    refresh_snapshot h threshold st uuid pid name p cur = Inr st' \<Longrightarrow> reachable h st'"
| delete: "reachable h st \<Longrightarrow> delete_snapshots_before st pid name sq = Inr (st', n) \<Longrightarrow> reachable h st'"

definition unhashed_row :: "SnapshotRow \<Rightarrow> bool" where
  "unhashed_row r \<longleftrightarrow> (\<exists>p. json_loads (sr_payload r) = Inr (JDict (snapshot_to_dict True p)))"

lemma append_event_snapshots: "append_event st q = (st', r) \<Longrightarrow> st_snapshots st' = st_snapshots st"
  by (auto simp: append_event_def Let_def split: if_splits)

lemma save_snapshot_rows:
  assumes "save_snapshot st uuid pid name p = Inr st'" "wf_json (JDict (snapshot_to_dict True p))"
  shows "\<exists>r. st_snapshots st' = st_snapshots st @ [r] \<and> unhashed_row r"
proof -
  have "json_loads (json_dumps default_format False (JDict (snapshot_to_dict True p))) = Inr (JDict (snapshot_to_dict True p))"
    using assms(2) by (intro json_loads_dumps) (simp_all add: wf_format_def default_format_def)
  with assms(1) show ?thesis
    by (auto simp: save_snapshot_def insert_snapshot_def unhashed_row_def split: if_splits)
qed

lemma reachable_unhashed: "reachable h st \<Longrightarrow> list_all unhashed_row (st_snapshots st)"
proof (induction rule: reachable.induct)
  case (refresh st p threshold uuid pid name cur st')
  have "wf_json (JDict (snapshot_to_dict True (with_hash h p)))" using refresh.hyps by (simp add: with_hash_def)
  with refresh show ?case
    by (auto simp: refresh_snapshot_def dest!: save_snapshot_rows split: if_splits sum.splits)
next
  case (delete st pid name sq st' n)
  then show ?case by (auto simp: delete_snapshots_before_def Let_def list_all_iff split: if_splits)
qed (simp_all add: store_init_def append_event_snapshots)

lemma latest_snapshot_row_in:
  assumes "latest_snapshot_row st pid name = Some r"
  shows "r \<in> set (st_snapshots st)"
proof -
  let ?rows = "sort_key (\<lambda>r. - sr_sequence r) (filter (\<lambda>r. sr_project_id r = pid \<and> sr_projection_name r = name) (st_snapshots st))"
  have "r \<in> set ?rows" using assms by (cases ?rows) (auto simp: latest_snapshot_row_def)
  then show ?thesis by simp
qed

section \<open>Properties\<close>

text \<open>A snapshot kept whole is accepted and its content is returned.  For a payload of the current versions
  whose sequence number is an int not beyond the last event, storing the dictionary of the payload with its hash
  makes the manager load exactly that payload.\<close>

theorem snapshot_roundtrip:
  assumes "sp_schema_version p = JInt SCHEMA_VERSION" "sp_projection_version p = JInt PROJECTION_VERSION"
    "sp_sequence p = JInt n" "n \<le> latest"
    and "raw_payload r = JDict (snapshot_to_dict False (with_hash h p))"
  shows "load_valid_snapshot h (Inr (Some r)) ''cognitive_head'' latest = Inr (accepted (with_hash h p))"
  using assms
  by (simp add: load_valid_snapshot_def SNAPSHOT_SERIALIZERS_def payload_from_to_dict int_value_def with_hash_def
      validate_with_hash [unfolded with_hash_def])

definition sample_payload :: CognitiveHeadSnapshotPayload where
  "sample_payload = \<lparr>sp_sequence = JInt 3, sp_schema_version = JInt 1, sp_projection_version = JInt 1,
     sp_snapshot_hash = JStr [], sp_project_id = JStr ZERO_UUID, sp_project_name = JStr ''n'', sp_project_goal = JStr ''g'',
     sp_current_focus = JStr ''f'', sp_ledger_version = JInt 3, sp_compiled_at = JStr [], sp_tasks = JDict [],
     sp_decisions = JDict [], sp_questions = JDict [], sp_blockers = JList []\<rparr>"

theorem snapshot_roundtrip_witness:
  "load_valid_snapshot sample_host (Inr (Some \<lparr>raw_payload = JDict (snapshot_to_dict False (with_hash sample_host sample_payload)),
      raw_schema_version = 1, raw_projection_version = 1, raw_sequence = 3, raw_snapshot_hash = []\<rparr>)) ''cognitive_head'' 5 =
     Inr (accepted (with_hash sample_host sample_payload))"
  by (rule snapshot_roundtrip [where n = 3]) (simp_all add: sample_payload_def SCHEMA_VERSION_def PROJECTION_VERSION_def)

lemma sqlite_load_latest:
  assumes "reachable h st" "\<forall>s. sha256_hex h s \<noteq> []"
  shows "load_valid_snapshot h (load_latest_raw st pid ''cognitive_head'') ''cognitive_head'' latest =
    Inr (rejected (if latest_snapshot_row st pid ''cognitive_head'' = None then NOT_FOUND else HASH_MISMATCH))"
proof (cases "latest_snapshot_row st pid ''cognitive_head''")
  case None
  then show ?thesis by (simp add: load_valid_snapshot_def load_latest_raw_def)
next
  case (Some r)
  then obtain p where p: "json_loads (sr_payload r) = Inr (JDict (snapshot_to_dict True p))"
    using reachable_unhashed [OF assms(1)] latest_snapshot_row_in by (fastforce simp: list_all_iff unhashed_row_def)
  have "[] \<noteq> snapshot_digest h d" for d using assms(2) by (metis snapshot_digest_def)
  then have "\<not> validate_hash h (p\<lparr>sp_snapshot_hash := JStr []\<rparr>)"
    by (simp add: validate_hash_def compute_hash_def)
  with Some p show ?thesis
    by (simp add: load_valid_snapshot_def load_latest_raw_def SNAPSHOT_SERIALIZERS_def payload_from_unhashed)
qed

lemma sqlite_load_rejected:
  "reachable h st \<Longrightarrow> \<forall>s. sha256_hex h s \<noteq> [] \<Longrightarrow>
     \<exists>r. load_valid_snapshot h (load_latest_raw st pid ''cognitive_head'') ''cognitive_head'' latest = Inr (rejected r)"
  using sqlite_load_latest by blast

text \<open>Property C15: snapshots in SQLite are never used.  The row is written without the hash that validation asks for,
  so in every store the program can reach, loading the latest snapshot of the head answers NOT_FOUND when there is
  none and HASH_MISMATCH when there is one; no stored snapshot is ever accepted.\<close>

theorem sqlite_snapshots_rejected:
  assumes "reachable h st" "\<forall>s. sha256_hex h s \<noteq> []"
  shows "load_valid_snapshot h (load_latest_raw st pid ''cognitive_head'') ''cognitive_head'' latest =
    Inr (rejected (if latest_snapshot_row st pid ''cognitive_head'' = None then NOT_FOUND else HASH_MISMATCH))"
  using assms by (rule sqlite_load_latest)

lemma sample_host_digest: "sha256_hex sample_host s \<noteq> []"
  by (simp add: sample_host_def)

definition sample_saved :: "SQLiteEventStore result" where
  "sample_saved = refresh_snapshot sample_host DEFAULT_POLICY store_init ''u'' ''p'' ''cognitive_head'' sample_payload 3"

theorem sqlite_snapshots_rejected_witness:
  "\<exists>st. sample_saved = Inr st \<and> load_valid_snapshot sample_host (load_latest_raw st ''p'' ''cognitive_head'') ''cognitive_head'' 3 =
     Inr (rejected HASH_MISMATCH)"
proof -
  have "\<exists>st. sample_saved = Inr st \<and> latest_snapshot_row st ''p'' ''cognitive_head'' \<noteq> None"
    by (simp add: sample_saved_def refresh_snapshot_def store_init_def get_latest_snapshot_sequence_def
        latest_snapshot_row_def should_snapshot_def save_snapshot_def with_hash_def sample_payload_def
        insert_snapshot_def fits64_def)
  then obtain st where st: "sample_saved = Inr st" "latest_snapshot_row st ''p'' ''cognitive_head'' \<noteq> None" by blast
  have "wf_json (JDict (snapshot_to_dict True sample_payload))"
    by (simp add: snapshot_to_dict_def base_to_dict_def sample_payload_def wf_dict_def)
  then have "reachable sample_host st"
    using st(1) reachable.refresh [OF reachable.init] unfolding sample_saved_def by metis
  from sqlite_snapshots_rejected [OF this, of "''p''" 3] st sample_host_digest show ?thesis by auto
qed

end
