(* ===== verification/ReplayEngine.thy ===== *)
theory ReplayEngine
  imports Snapshot
begin

text \<open>
  The replay engine of \<open>rationalevault/cognitive_head/replay_engine.py\<close> and the entry point
  \<open>compile_cognitive_head\<close> of \<open>compiler.py\<close>, on the SQLite event store: full replay, delta
  replay from a snapshot and the fast path.

  The engine sees its snapshot manager through \<open>load_valid_snapshot\<close> only, so its answer is an
  argument.  The current time and the fresh UUID of a saved snapshot are arguments too.
\<close>

section \<open>Results\<close>

datatype ReplayMode = FULL | DELTA | FAST_PATH

record ReplayResult =
  rr_head :: CognitiveHead
  rr_mode :: ReplayMode
  rr_events_replayed :: nat
  rr_events_reused :: int
  rr_snapshot_valid :: bool
  rr_snapshot_used :: bool
  rr_snapshot_sequence :: int
  rr_latest_sequence :: int

type_synonym reducer_states = "ProjectState \<times> tasks \<times> decisions \<times> questions"

section \<open>Building the projection\<close>

text \<open>\<open>{k: f(v) for k, v in d.items()}\<close>.\<close>

definition read_states :: "(json \<Rightarrow> 's result) \<Rightarrow> json \<Rightarrow> (json, 's) dict result" where
  "read_states f v = rbind (as_dict v) (rmap (\<lambda>(k, v). rbind (f v) (\<lambda>s. Inr (JStr k, s))))"

definition delta_states :: "CognitiveHeadSnapshotPayload \<Rightarrow> EventRecord list \<Rightarrow> reducer_states result" where
  "delta_states p events =
     (let proj_state = project_reduce (Some (default_project\<lparr>ps_name := sp_project_name p, ps_goal := sp_project_goal p,
            ps_current_focus := sp_current_focus p\<rparr>)) []
      in rbind (rbind (read_states (dict_to_task_state (JStr [])) (sp_tasks p)) (\<lambda>d. task_reduce (Some d) [])) (\<lambda>all_tasks.
         rbind (rbind (read_states (dict_to_decision_state (JStr [])) (sp_decisions p)) (\<lambda>d. decision_reduce (Some d) [])) (\<lambda>all_decisions.
         rbind (rbind (read_states (dict_to_question_state (JStr [])) (sp_questions p)) (\<lambda>d. question_reduce (Some d) [])) (\<lambda>all_questions.
         rbind (task_reduce (Some all_tasks) events) (\<lambda>all_tasks.
         rbind (decision_reduce (Some all_decisions) events) (\<lambda>all_decisions.
         rbind (question_reduce (Some all_questions) events) (\<lambda>all_questions.
         Inr (project_reduce (Some proj_state) events, all_tasks, all_decisions, all_questions))))))))"

definition full_states :: "EventRecord list \<Rightarrow> reducer_states result" where
  "full_states events =
     rbind (check_bootstrap events) (\<lambda>_.
     rbind (task_reduce None events) (\<lambda>all_tasks.
     rbind (decision_reduce None events) (\<lambda>all_decisions.
     rbind (question_reduce None events) (\<lambda>all_questions.
     Inr (project_reduce None events, all_tasks, all_decisions, all_questions)))))"

definition head_of_states :: "string \<Rightarrow> string \<Rightarrow> reducer_states \<Rightarrow> EventRecord list \<Rightarrow> CognitiveHead result" where
  "head_of_states pid now s events =
     (case s of (ps, ts, ds, qs) \<Rightarrow>
        rbind (build_head pid ps ts ds qs events ts) (\<lambda>h. Inr (h\<lparr>ch_compiled_at := JStr now\<rparr>)))"

definition build_projection :: "SnapshotValidationResult result \<Rightarrow> SQLiteEventStore \<Rightarrow> string \<Rightarrow> string \<Rightarrow> ReplayResult result" where
  "build_projection loaded st pid now =
     rbind loaded (\<lambda>result.
     let payload = (if sv_valid result then sv_payload result else None);
         latest_seq = get_latest_sequence st pid
     in rbind (case payload of None \<Rightarrow> Inr 0 | Some p \<Rightarrow> int_value (sp_sequence p)) (\<lambda>snapshot_sequence.
        case payload of
          Some p \<Rightarrow>
            if latest_seq \<le> snapshot_sequence then
              rbind (to_cognitive_head p) (\<lambda>head.
              Inr \<lparr>rr_head = head, rr_mode = FAST_PATH, rr_events_replayed = 0, rr_events_reused = snapshot_sequence,
                   rr_snapshot_valid = sv_valid result, rr_snapshot_used = True,
                   rr_snapshot_sequence = snapshot_sequence, rr_latest_sequence = latest_seq\<rparr>)
            else if 0 < snapshot_sequence then
              rbind (get_project_stream st pid snapshot_sequence) (\<lambda>events.
              rbind (delta_states p events) (\<lambda>s.
              rbind (head_of_states pid now s events) (\<lambda>head.
              Inr \<lparr>rr_head = head, rr_mode = DELTA, rr_events_replayed = length events,
                   rr_events_reused = snapshot_sequence, rr_snapshot_valid = sv_valid result, rr_snapshot_used = True,
                   rr_snapshot_sequence = snapshot_sequence, rr_latest_sequence = latest_seq\<rparr>)))
            else
              rbind (get_project_stream st pid 0) (\<lambda>events.
              rbind (full_states events) (\<lambda>s.
              rbind (head_of_states pid now s events) (\<lambda>head.
              Inr \<lparr>rr_head = head, rr_mode = FULL, rr_events_replayed = length events, rr_events_reused = 0,
                   rr_snapshot_valid = sv_valid result, rr_snapshot_used = False,
                   rr_snapshot_sequence = snapshot_sequence, rr_latest_sequence = latest_seq\<rparr>)))
        | None \<Rightarrow>
            rbind (get_project_stream st pid 0) (\<lambda>events.
            rbind (full_states events) (\<lambda>s.
            rbind (head_of_states pid now s events) (\<lambda>head.
            Inr \<lparr>rr_head = head, rr_mode = FULL, rr_events_replayed = length events, rr_events_reused = 0,
                 rr_snapshot_valid = sv_valid result, rr_snapshot_used = False,
                 rr_snapshot_sequence = snapshot_sequence, rr_latest_sequence = latest_seq\<rparr>)))))"

section \<open>Compiling\<close>

text \<open>The payload offered to the snapshot manager: the head and the full reducer states.\<close>

definition compile_payload :: "host \<Rightarrow> SQLiteEventStore \<Rightarrow> string \<Rightarrow> CognitiveHead \<Rightarrow>
    CognitiveHeadSnapshotPayload result" where
  "compile_payload h st pid head =
     rbind (get_project_stream st pid 0) (\<lambda>events.
     rbind (task_reduce None events) (\<lambda>all_tasks.
     rbind (decision_reduce None events) (\<lambda>all_decisions.
     rbind (question_reduce None events) (\<lambda>all_questions.
     rbind (states_to_json task_to_dict all_tasks) (\<lambda>all_tasks_dict.
     rbind (states_to_json decision_to_dict all_decisions) (\<lambda>all_decisions_dict.
     rbind (states_to_json question_to_dict all_questions) (\<lambda>all_questions_dict.
     from_cognitive_head h head (get_latest_sequence st pid)
       (Some all_tasks_dict) (Some all_decisions_dict) (Some all_questions_dict))))))))"

text \<open>
  \<open>manager\<close> is the threshold of the policy of a snapshot manager on the same store, or none for the
  null manager, which is still asked.
\<close>

definition compile_cognitive_head :: "host \<Rightarrow> int option \<Rightarrow> SQLiteEventStore \<Rightarrow> string \<Rightarrow> string \<Rightarrow> string \<Rightarrow>
    (SQLiteEventStore \<times> CognitiveHead) result" where
  "compile_cognitive_head h manager st pid uuid now =
     (let loaded = (case manager of
            None \<Rightarrow> Inr (rejected NOT_FOUND)
          | Some _ \<Rightarrow> load_valid_snapshot h (load_latest_raw st pid ''cognitive_head'') ''cognitive_head''
              (get_latest_sequence st pid))
      in rbind (build_projection loaded st pid now) (\<lambda>result.
         rbind (compile_payload h st pid (rr_head result)) (\<lambda>payload.
         rbind (case manager of
            None \<Rightarrow> Inr st
          | Some threshold \<Rightarrow> refresh_snapshot h threshold st uuid pid ''cognitive_head'' payload
              (get_latest_sequence st pid)) (\<lambda>st'.
         Inr (st', rr_head result)))))"

section \<open>Reading back written states\<close>

definition is_list :: "json \<Rightarrow> bool" where
  "is_list v = (case v of JList _ \<Rightarrow> True | _ \<Rightarrow> False)"

definition list_typed :: "TaskState \<Rightarrow> bool" where
  "list_typed t \<longleftrightarrow> is_list (ts_tags t) \<and> is_list (ts_blocked_by t) \<and> is_list (ts_progress_notes t) \<and>
     is_list (ts_related_knowledge_ids t)"

definition LIST_FIELDS :: "string list" where
  "LIST_FIELDS = [''tags'', ''blocked_by'', ''progress_notes'', ''related_knowledge_ids'']"

text \<open>Mutations give list fields lists.\<close>

definition typed_event :: "EventRecord \<Rightarrow> bool" where
  "typed_event e \<longleftrightarrow> er_event_type e \<noteq> TASK_MUTATED \<or>
     list_all (\<lambda>(k, v). k \<in> set LIST_FIELDS \<longrightarrow> is_list v) (er_payload e)"

lemma task_dict_roundtrip: "list_typed t \<Longrightarrow> dict_to_task_state i (task_to_dict t) = Inr t"
  by (auto simp: dict_to_task_state_def task_to_dict_def list_typed_def is_list_def get_list_def dict_get_def
      split: json.splits)

lemma decision_dict_roundtrip: "dict_to_decision_state i (decision_to_dict d) = Inr d"
  by (simp add: dict_to_decision_state_def decision_to_dict_def dict_get_def)

lemma question_dict_roundtrip: "is_list (qs_blocks_task_ids q) \<Longrightarrow> dict_to_question_state i (question_to_dict q) = Inr q"
  by (auto simp: dict_to_question_state_def question_to_dict_def is_list_def get_list_def dict_get_def
      split: json.splits)

lemma get_list_is_list: "get_list p k = Inr v \<Longrightarrow> is_list v"
  by (auto simp: get_list_def is_list_def)

lemma task_setattr_typed:
  "task_setattr t kv = Inr t' \<Longrightarrow> (fst kv \<in> set LIST_FIELDS \<longrightarrow> is_list (snd kv)) \<Longrightarrow> list_typed t \<Longrightarrow> list_typed t'"
  by (cases kv) (auto simp: task_setattr_def list_typed_def LIST_FIELDS_def split: if_splits)

lemma task_mutate_typed:
  assumes "task_mutate e t = Inr t'" "typed_event e" "er_event_type e = TASK_MUTATED" "list_typed t"
  shows "list_typed t'"
proof -
  obtain u where u: "rfold task_setattr t (er_payload e) = Inr u" "t' = u\<lparr>ts_updated_at := recorded e\<rparr>"
    using assms(1) by (auto simp: task_mutate_def)
  have "list_typed u"
    by (rule rfold_invariant [OF u(1), of list_typed])
      (use assms(2-4) in \<open>auto simp: typed_event_def list_all_iff elim!: task_setattr_typed\<close>)
  with u(2) show ?thesis by (simp add: list_typed_def)
qed

lemma task_step_typed:
  "task_step d e = Inr d' \<Longrightarrow> typed_event e \<Longrightarrow> all_states (\<lambda>_. list_typed) d \<Longrightarrow> all_states (\<lambda>_. list_typed) d'"
  by (erule task_step_all)
    (auto simp: task_of_event_def Let_def list_typed_def task_note_def is_list_def [of "JList _"]
      dest: get_list_is_list task_mutate_typed [unfolded list_typed_def] split: json.splits)

lemma task_reduce_typed:
  assumes "task_reduce None es = Inr ts" "list_all typed_event es"
  shows "all_states (\<lambda>_. list_typed) ts"
  using assms(1) unfolding task_reduce_def
  by (rule rfold_invariant [where P = "all_states (\<lambda>_. list_typed)"])
    (use assms(2) in \<open>auto simp: list_all_iff intro: task_step_typed\<close>)

lemma question_step_typed:
  assumes "question_step d e = Inr d'" "all_states (\<lambda>_ q. is_list (qs_blocks_task_ids q)) d"
  shows "all_states (\<lambda>_ q. is_list (qs_blocks_task_ids q)) d'"
proof -
  consider "er_event_type e = OPEN_QUESTION_RAISED" | "er_event_type e = OPEN_QUESTION_RESOLVED"
    | "er_event_type e \<notin> {OPEN_QUESTION_RAISED, OPEN_QUESTION_RESOLVED}" by blast
  then show ?thesis
  proof cases
    case 1
    with assms(1) have "insert_new d (get_or_none (er_payload e) ''question_id'') (question_of_event e) = Inr d'"
      by (simp add: question_step_def)
    then show ?thesis using assms(2)
      by (rule all_states_insert) (auto simp: question_of_event_def Let_def dest: get_list_is_list)
  next
    case 2
    with assms(1) have "update_existing d (get_or_none (er_payload e) ''question_id'')
        (\<lambda>s. Inr (s\<lparr>qs_status := JStr ''resolved'',
           qs_resolution := get_or (er_payload e) ''resolution'' (JStr []), qs_resolved_at := recorded e\<rparr>)) = Inr d'"
      by (simp add: question_step_def)
    then show ?thesis using assms(2) by (rule all_states_update) auto
  qed (use assms in \<open>simp add: question_step_foreign\<close>)
qed

lemma question_reduce_typed:
  "question_reduce None es = Inr qs \<Longrightarrow> all_states (\<lambda>_ q. is_list (qs_blocks_task_ids q)) qs"
  unfolding question_reduce_def
  by (erule rfold_invariant [where P = "all_states (\<lambda>_ q. is_list (qs_blocks_task_ids q))"])
    (auto intro: question_step_typed)

lemma read_states_written:
  assumes "states_to_json f d = Inr v" "all_states P d" "wf_dict d" "\<And>k s. P k s \<Longrightarrow> g (f s) = Inr s"
  shows "read_states g v = Inr d"
proof -
  have all: "\<forall>(k, s) \<in> set d. g (f s) = Inr s"
    using assms(2-4) by (auto simp: all_states_def wf_dict_def)
  obtain d' where d': "rmap (\<lambda>(k, s). rbind (text_key k) (\<lambda>k. Inr (k, f s))) d = Inr d'" "v = JDict d'"
    using assms(1) by (auto simp: states_to_json_def)
  have "rmap (\<lambda>(k, v). rbind (g v) (\<lambda>s. Inr (JStr k, s))) d' = Inr d"
    using d'(1) all
  proof (induction d arbitrary: d')
    case (Cons x d)
    then show ?case by (cases x) (auto elim!: text_key.elims)
  qed simp
  with d'(2) show ?thesis by (simp add: read_states_def)
qed

lemma written_states_read:
  "task_reduce None es = Inr ts \<Longrightarrow> list_all typed_event es \<Longrightarrow> states_to_json task_to_dict ts = Inr v \<Longrightarrow>
     read_states (dict_to_task_state i) v = Inr ts"
  "decision_reduce None es = Inr ds \<Longrightarrow> states_to_json decision_to_dict ds = Inr v \<Longrightarrow>
     read_states (dict_to_decision_state i) v = Inr ds"
  "question_reduce None es = Inr qs \<Longrightarrow> states_to_json question_to_dict qs = Inr v \<Longrightarrow>
     read_states (dict_to_question_state i) v = Inr qs"
    apply (erule read_states_written [OF _ task_reduce_typed])
       apply (auto intro: task_dict_roundtrip reduce_wf)
   apply (erule read_states_written [where P = "\<lambda>_ _. True"])
     apply (auto simp: all_states_def intro: decision_dict_roundtrip reduce_wf)
  apply (erule read_states_written [OF _ question_reduce_typed])
    apply (auto intro: question_dict_roundtrip reduce_wf)
  done

text \<open>Reading without conversion, for the fast path.\<close>

lemma task_from_data_dict: "task_from_data (task_to_dict t) = Inr t"
  by (simp add: task_from_data_def task_to_dict_def dict_get_def dict_item_def)

lemma decision_from_data_dict: "decision_from_data (decision_to_dict d) = Inr d"
  by (simp add: decision_from_data_def decision_to_dict_def dict_get_def dict_item_def)

lemma question_from_data_dict: "question_from_data (question_to_dict q) = Inr q"
  by (simp add: question_from_data_def question_to_dict_def dict_get_def dict_item_def)

lemma written_values_read:
  assumes "states_to_json f d = Inr (JDict j)" "\<And>s. g (f s) = Inr s"
  shows "rmap g (map snd j) = Inr (map snd d)"
proof -
  have "rmap (\<lambda>(k, s). rbind (text_key k) (\<lambda>k. Inr (k, f s))) d = Inr j" using assms(1) by (simp add: states_to_json_def)
  then show ?thesis
  proof (induction d arbitrary: j)
    case (Cons x d)
    then show ?case by (cases x) (auto simp: assms(2))
  qed simp
qed

section \<open>Parts of the delta argument\<close>

definition same_project :: "ProjectState \<Rightarrow> ProjectState \<Rightarrow> bool" where
  "same_project s t \<longleftrightarrow> ps_name s = ps_name t \<and> ps_goal s = ps_goal t \<and> ps_current_focus s = ps_current_focus t"

lemma project_step_agree:
  assumes "same_project s t"
  shows "same_project (project_step s e) (project_step t e)"
proof (cases "er_event_type e \<in> {PROJECT_CREATED, PROJECT_GOAL_SET, PROJECT_FOCUS_CHANGED}")
  case True
  with assms show ?thesis by (auto simp: same_project_def project_step_def)
next
  case False
  with assms show ?thesis by (simp add: project_step_foreign)
qed

lemma project_reduce_agree:
  "same_project s t \<Longrightarrow> same_project (project_reduce (Some s) es) (project_reduce (Some t) es)"
  by (induction es arbitrary: s t) (simp_all add: project_reduce_def project_step_agree)

lemma coalesce_max_sorted:
  fixes xs :: "int list"
  assumes "sorted xs" "xs \<noteq> []"
  shows "coalesce_max xs = last xs"
proof -
  have "\<forall>x \<in> set xs. x \<le> last xs" using assms by (induction xs) auto
  then show ?thesis using assms(2) by (auto simp: coalesce_max_def intro!: Max_eqI)
qed

lemma coalesce_max_suffix:
  fixes xs ys :: "int list"
  assumes "sorted (xs @ ys)" "ys \<noteq> []"
  shows "coalesce_max (xs @ ys) = coalesce_max ys"
  using assms by (simp add: coalesce_max_sorted sorted_append)

lemma build_head_agree:
  "same_project s t \<Longrightarrow> coalesce_max (map er_version es) = coalesce_max (map er_version fs) \<Longrightarrow>
   build_head pid s ts ds qs es ats = build_head pid t ts ds qs fs ats"
  by (simp add: build_head_def same_project_def)

text \<open>The events of a project after the last one of an earlier log are the new ones.\<close>

lemma new_events:
  fixes pid :: string
  assumes "store_inv st1 es1" "store_inv st2 (es1 @ es2)" "fits64 (int (length es1))"
  defines "old \<equiv> filter (\<lambda>e. er_project_id e = pid) es1" and "new \<equiv> filter (\<lambda>e. er_project_id e = pid) es2"
  assumes "old \<noteq> []"
  shows "get_project_stream st2 pid 0 = Inr (old @ new)"
    and "get_project_stream st2 pid (get_latest_sequence st1 pid) = Inr new"
    and "0 < get_latest_sequence st1 pid"
    and "new \<noteq> [] \<Longrightarrow> get_latest_sequence st1 pid < get_latest_sequence st2 pid"
    and "new \<noteq> [] \<Longrightarrow> coalesce_max (map er_version (old @ new)) = coalesce_max (map er_version new)"
proof -
  let ?n = "get_latest_sequence st1 pid"
  have seq1: "map er_event_sequence es1 = [1 .. int (length es1)]" using assms(1) by (simp add: store_inv_def)
  have "map er_event_sequence es1 @ map er_event_sequence es2 = [1 .. int (length es1) + int (length es2)]"
    using assms(2) by (simp add: store_inv_def)
  also have "\<dots> = [1 .. int (length es1)] @ [int (length es1) + 1 .. int (length es1) + int (length es2)]"
    by (rule upto_extend [symmetric]) simp_all
  finally have seq2: "map er_event_sequence es2 = [int (length es1) + 1 .. int (length es1) + int (length es2)]"
    using seq1 by simp
  have range1: "1 \<le> er_event_sequence e \<and> er_event_sequence e \<le> int (length es1)" if "e \<in> set es1" for e
  proof -
    have "er_event_sequence e \<in> set (map er_event_sequence es1)" using that by simp
    then show ?thesis unfolding seq1 by simp
  qed
  have range2: "int (length es1) < er_event_sequence e" if "e \<in> set es2" for e
  proof -
    have "er_event_sequence e \<in> set (map er_event_sequence es2)" using that by simp
    then show ?thesis unfolding seq2 by simp
  qed
  show "get_project_stream st2 pid 0 = Inr (old @ new)"
    using sqlite_events.full_stream [OF assms(2), of pid] by (simp add: old_def new_def)
  have "?n = Max (er_event_sequence ` set old)"
    using sqlite_events.latest_law [OF assms(1), of pid] assms(6) by (simp add: coalesce_max_def old_def)
  then have n: "\<forall>e \<in> set old. er_event_sequence e \<le> ?n" "?n \<in> er_event_sequence ` set old"
    using assms(6) by simp_all
  then show "0 < ?n" using range1 by (fastforce simp: old_def)
  have n1: "?n \<le> int (length es1)" using n(2) range1 by (auto simp: old_def)
  have "fits64 ?n" using \<open>0 < ?n\<close> n1 assms(3) by (simp add: fits64_def)
  then have "get_project_stream st2 pid ?n =
      Inr (filter (\<lambda>e. er_project_id e = pid \<and> ?n < er_event_sequence e) (es1 @ es2))"
    by (rule sqlite_events.stream_law [OF assms(2)])
  moreover have "filter (\<lambda>e. er_project_id e = pid \<and> ?n < er_event_sequence e) es1 = []"
    using n(1) by (auto simp: old_def filter_empty_conv)
  moreover have "filter (\<lambda>e. er_project_id e = pid \<and> ?n < er_event_sequence e) es2 = new"
    unfolding new_def using n1 range2 by (intro filter_cong) fastforce+
  ultimately show "get_project_stream st2 pid ?n = Inr new" by simp
  have latest2: "get_latest_sequence st2 pid = coalesce_max (map er_event_sequence (old @ new))"
    using sqlite_events.latest_law [OF assms(2), of pid] by (simp add: old_def new_def)
  show "?n < get_latest_sequence st2 pid" if "new \<noteq> []"
  proof -
    obtain e where e: "e \<in> set new" using \<open>new \<noteq> []\<close> by (cases new) auto
    then have "?n < er_event_sequence e" using n1 range2 by (fastforce simp: new_def)
    also have "\<dots> \<le> get_latest_sequence st2 pid" unfolding latest2 coalesce_max_def using e by auto
    finally show ?thesis .
  qed
  have "map er_version (old @ new) = [1 .. int (length (old @ new))]"
    using assms(2) by (simp add: store_inv_def old_def new_def)
  then have "sorted (map er_version old @ map er_version new)" by (metis map_append sorted_upto)
  then show "coalesce_max (map er_version (old @ new)) = coalesce_max (map er_version new)" if "new \<noteq> []"
    using coalesce_max_suffix that by simp
qed

lemma full_build:
  assumes "get_project_stream st pid 0 = Inr events"
  shows "build_projection (Inr (rejected r)) st pid now =
    rbind (full_states events) (\<lambda>s. rbind (head_of_states pid now s events) (\<lambda>head.
    Inr \<lparr>rr_head = head, rr_mode = FULL, rr_events_replayed = length events, rr_events_reused = 0,
         rr_snapshot_valid = False, rr_snapshot_used = False, rr_snapshot_sequence = 0,
         rr_latest_sequence = get_latest_sequence st pid\<rparr>))"
  by (simp add: build_projection_def rejected_def assms)

lemma check_bootstrap_append: "check_bootstrap es = Inr () \<Longrightarrow> check_bootstrap (es @ fs) = Inr ()"
  by (auto simp: check_bootstrap_def BOOTSTRAP_def split: if_splits)

text \<open>What a payload built after a replay of \<open>old\<close> holds.\<close>

lemma compile_payload_states:
  assumes "get_project_stream st pid 0 = Inr old" "list_all typed_event old" "compile_payload h st pid head = Inr p"
  obtains ts ds qs where "task_reduce None old = Inr ts" "decision_reduce None old = Inr ds" "question_reduce None old = Inr qs"
    "read_states (dict_to_task_state (JStr [])) (sp_tasks p) = Inr ts"
    "read_states (dict_to_decision_state (JStr [])) (sp_decisions p) = Inr ds"
    "read_states (dict_to_question_state (JStr [])) (sp_questions p) = Inr qs"
    "sp_sequence p = JInt (get_latest_sequence st pid)" "sp_project_name p = ch_project_name head"
    "sp_project_goal p = ch_project_goal head" "sp_current_focus p = ch_current_focus head"
proof -
  obtain ts ds qs tj dj qj where r: "task_reduce None old = Inr ts" "decision_reduce None old = Inr ds"
    "question_reduce None old = Inr qs" "states_to_json task_to_dict ts = Inr tj"
    "states_to_json decision_to_dict ds = Inr dj" "states_to_json question_to_dict qs = Inr qj"
    "from_cognitive_head h head (get_latest_sequence st pid) (Some tj) (Some dj) (Some qj) = Inr p"
    using assms(1,3) by (auto simp: compile_payload_def)
  have p: "sp_tasks p = tj" "sp_decisions p = dj" "sp_questions p = qj" "sp_sequence p = JInt (get_latest_sequence st pid)"
    "sp_project_name p = ch_project_name head" "sp_project_goal p = ch_project_goal head"
    "sp_current_focus p = ch_current_focus head"
    using r(7) by (auto simp: from_cognitive_head_def with_hash_def)
  from that [OF r(1-3)] written_states_read(1) [OF r(1) assms(2) r(4)] written_states_read(2) [OF r(2,5)]
    written_states_read(3) [OF r(3,6)] p show ?thesis by metis
qed

lemma delta_states_full:
  assumes "full_states old = Inr (ps, ts, ds, qs)"
    and "read_states (dict_to_task_state (JStr [])) (sp_tasks p) = Inr ts"
    "read_states (dict_to_decision_state (JStr [])) (sp_decisions p) = Inr ds"
    "read_states (dict_to_question_state (JStr [])) (sp_questions p) = Inr qs"
    and "sp_project_name p = ps_name ps" "sp_project_goal p = ps_goal ps" "sp_current_focus p = ps_current_focus ps"
    and "coalesce_max (map er_version (old @ new)) = coalesce_max (map er_version new)"
  shows "rbind (delta_states p new) (\<lambda>s. head_of_states pid now s new) =
    rbind (full_states (old @ new)) (\<lambda>s. head_of_states pid now s (old @ new))"
proof -
  let ?ps = "default_project\<lparr>ps_name := sp_project_name p, ps_goal := sp_project_goal p, ps_current_focus := sp_current_focus p\<rparr>"
  have old: "check_bootstrap old = Inr ()" "ps = project_reduce None old" "task_reduce None old = Inr ts"
    "decision_reduce None old = Inr ds" "question_reduce None old = Inr qs"
    using assms(1) by (auto simp: full_states_def)
  have "same_project ?ps ps" using assms(5-7) by (simp add: same_project_def)
  then have "same_project (project_reduce (Some ?ps) new) (project_reduce (Some ps) new)" by (rule project_reduce_agree)
  note head = build_head_agree [OF this assms(8) [symmetric], of pid]
  have nil: "task_reduce (Some ts) [] = Inr ts" "decision_reduce (Some ds) [] = Inr ds"
    "question_reduce (Some qs) [] = Inr qs" "project_reduce (Some ?ps) [] = ?ps"
    by (simp_all add: task_reduce_def decision_reduce_def question_reduce_def project_reduce_def)
  show ?thesis
    unfolding delta_states_def full_states_def assms(2-4) Let_def rbind_simps nil check_bootstrap_append [OF old(1)]
      reduce_continues old(3-5) old(2) [symmetric]
    by (simp add: rbind_assoc head_of_states_def head)
qed

lemma head_of_states_fields:
  "head_of_states pid now (ps, ts, ds, qs) events = Inr h \<Longrightarrow>
     ch_project_name h = ps_name ps \<and> ch_project_goal h = ps_goal ps \<and> ch_current_focus h = ps_current_focus ps \<and>
     ch_project_id h = pid"
  by (auto simp: head_of_states_def build_head_def Let_def)

lemma full_build_Inr:
  assumes "get_project_stream st pid 0 = Inr events" "build_projection (Inr (rejected r)) st pid now = Inr res"
  obtains ps ts ds qs where "full_states events = Inr (ps, ts, ds, qs)"
    "head_of_states pid now (ps, ts, ds, qs) events = Inr (rr_head res)" "events \<noteq> []"
    "ch_project_name (rr_head res) = ps_name ps" "ch_project_goal (rr_head res) = ps_goal ps"
    "ch_current_focus (rr_head res) = ps_current_focus ps" "ch_project_id (rr_head res) = pid"
proof -
  obtain s where s: "full_states events = Inr s" "head_of_states pid now s events = Inr (rr_head res)"
    using assms(2) by (auto simp: full_build [OF assms(1)])
  obtain ps ts ds qs where q: "s = (ps, ts, ds, qs)" by (metis prod_cases4)
  have "events \<noteq> []" using s(1) by (auto simp: full_states_def check_bootstrap_def)
  then show ?thesis using that [of ps ts ds qs] s(1) s(2) [unfolded q] head_of_states_fields by (simp add: q)
qed

section \<open>Properties\<close>

text \<open>Property C7: replaying from a snapshot gives what replaying everything gives.  Take the payload that compilation
  builds after a full replay of a log, with mutation events giving list fields lists.  When the log has grown by
  events of the project, the engine given that payload replays in delta mode, and its answer, head or exception, is
  the one of a full replay at that time.\<close>

theorem delta_replay_equals_full:
  assumes "store_inv st1 es1" "store_inv st2 (es1 @ es2)" "fits64 (int (length es1))" "list_all typed_event es1"
    and "filter (\<lambda>e. er_project_id e = pid) es2 \<noteq> []"
    and "build_projection (Inr (rejected NOT_FOUND)) st1 pid t1 = Inr r1" "compile_payload h st1 pid (rr_head r1) = Inr p"
  shows "rbind (build_projection (Inr (accepted p)) st2 pid now) (\<lambda>r. Inr (rr_mode r, rr_head r)) =
    rbind (build_projection (Inr (rejected NOT_FOUND)) st2 pid now) (\<lambda>r. Inr (DELTA, rr_head r))"
proof -
  let ?old = "filter (\<lambda>e. er_project_id e = pid) es1" and ?new = "filter (\<lambda>e. er_project_id e = pid) es2"
  have stream1: "get_project_stream st1 pid 0 = Inr ?old" by (rule sqlite_events.full_stream [OF assms(1)])
  obtain ps ts ds qs where full: "full_states ?old = Inr (ps, ts, ds, qs)" "?old \<noteq> []"
    "ch_project_name (rr_head r1) = ps_name ps" "ch_project_goal (rr_head r1) = ps_goal ps"
    "ch_current_focus (rr_head r1) = ps_current_focus ps"
    using full_build_Inr [OF stream1 assms(6)] by metis
  have typed: "list_all typed_event ?old" using assms(4) by (auto simp: list_all_iff)
  obtain ts' ds' qs' where p: "task_reduce None ?old = Inr ts'" "decision_reduce None ?old = Inr ds'"
    "question_reduce None ?old = Inr qs'"
    "read_states (dict_to_task_state (JStr [])) (sp_tasks p) = Inr ts'"
    "read_states (dict_to_decision_state (JStr [])) (sp_decisions p) = Inr ds'"
    "read_states (dict_to_question_state (JStr [])) (sp_questions p) = Inr qs'"
    "sp_sequence p = JInt (get_latest_sequence st1 pid)" "sp_project_name p = ch_project_name (rr_head r1)"
    "sp_project_goal p = ch_project_goal (rr_head r1)" "sp_current_focus p = ch_current_focus (rr_head r1)"
    by (rule compile_payload_states [OF stream1 typed assms(7)])
  have same: "ts' = ts" "ds' = ds" "qs' = qs" using full(1) p(1-3) by (auto simp: full_states_def)
  note new = new_events [OF assms(1-3) full(2)]
  have delta: "rbind (delta_states p ?new) (\<lambda>s. head_of_states pid now s ?new) =
      rbind (full_states (?old @ ?new)) (\<lambda>s. head_of_states pid now s (?old @ ?new))"
    by (rule delta_states_full [OF full(1)]) (use p full same new(5) assms(5) in simp_all)
  have "rbind (build_projection (Inr (accepted p)) st2 pid now) (\<lambda>r. Inr (rr_mode r, rr_head r)) =
      rbind (rbind (delta_states p ?new) (\<lambda>s. head_of_states pid now s ?new)) (\<lambda>h. Inr (DELTA, h))"
    using new(2,3) new(4) [OF assms(5)] by (simp add: build_projection_def accepted_def p(7) int_value_def rbind_assoc)
  also have "\<dots> = rbind (build_projection (Inr (rejected NOT_FOUND)) st2 pid now) (\<lambda>r. Inr (DELTA, rr_head r))"
    unfolding delta by (simp add: full_build [OF new(1)] rbind_assoc)
  finally show ?thesis .
qed

text \<open>The fast path lists finished items as live.  With a current snapshot, as compilation builds it, the
  engine answers at once with a head whose active tasks, active decisions and open questions are all tasks,
  decisions and questions of the log in the order of creation, completed, merely proposed or resolved ones included;
  the project fields are those of the full replay.\<close>

theorem fast_path_lists_everything:
  assumes "store_inv st es" "is_uuid_text pid"
    and "build_projection (Inr (rejected NOT_FOUND)) st pid t1 = Inr r1" "compile_payload h st pid (rr_head r1) = Inr p"
  shows "\<exists>r ts ds qs. build_projection (Inr (accepted p)) st pid now = Inr r \<and> rr_mode r = FAST_PATH \<and>
    full_states (filter (\<lambda>e. er_project_id e = pid) es) =
      Inr (project_reduce None (filter (\<lambda>e. er_project_id e = pid) es), ts, ds, qs) \<and>
    rr_head r = (rr_head r1)\<lparr>ch_active_tasks := map snd ts, ch_active_decisions := map snd ds,
      ch_open_questions := map snd qs\<rparr>"
proof -
  let ?old = "filter (\<lambda>e. er_project_id e = pid) es"
  have stream: "get_project_stream st pid 0 = Inr ?old" by (rule sqlite_events.full_stream [OF assms(1)])
  obtain ps ts ds qs where full: "full_states ?old = Inr (ps, ts, ds, qs)" "ch_project_id (rr_head r1) = pid"
    using full_build_Inr [OF stream assms(3)] by metis
  have red: "ps = project_reduce None ?old" "task_reduce None ?old = Inr ts" "decision_reduce None ?old = Inr ds"
    "question_reduce None ?old = Inr qs"
    using full(1) by (auto simp: full_states_def)
  obtain tj dj qj where j: "states_to_json task_to_dict ts = Inr (JDict tj)"
    "states_to_json decision_to_dict ds = Inr (JDict dj)" "states_to_json question_to_dict qs = Inr (JDict qj)"
    "from_cognitive_head h (rr_head r1) (get_latest_sequence st pid) (Some (JDict tj)) (Some (JDict dj)) (Some (JDict qj)) = Inr p"
    using assms(4) red by (auto simp: compile_payload_def stream states_to_json_def)
  have "rmap task_from_data (map snd tj) = Inr (map snd ts)" "rmap decision_from_data (map snd dj) = Inr (map snd ds)"
    "rmap question_from_data (map snd qj) = Inr (map snd qs)"
    using j(1-3) by (auto intro!: written_values_read simp: task_from_data_dict decision_from_data_dict question_from_data_dict)
  moreover have "uuid_of (JStr pid) = Inr pid" "pid \<noteq> []" using assms(2) by (auto simp: uuid_of_def is_uuid_text_def)
  ultimately have "to_cognitive_head p = Inr ((rr_head r1)\<lparr>ch_active_tasks := map snd ts,
      ch_active_decisions := map snd ds, ch_open_questions := map snd qs\<rparr>)"
    using j(4) full(2) by (auto simp: to_cognitive_head_def from_cognitive_head_def with_hash_def)
  moreover have "sp_sequence p = JInt (get_latest_sequence st pid)"
    using j(4) by (auto simp: from_cognitive_head_def with_hash_def)
  ultimately show ?thesis
    using full(1) red(1) by (simp add: build_projection_def accepted_def int_value_def Let_def)
qed

section \<open>Where the bootstrap error comes from\<close>

text \<open>Computations that never raise it.\<close>

definition calm :: "'a result \<Rightarrow> bool" where
  "calm r \<longleftrightarrow> (\<forall>m. r \<noteq> Inl (MissingProjectBootstrapError m))"

named_theorems calm_intros \<open>computations that do not raise the bootstrap error\<close>

lemma calm_basic [simp, intro]: "calm (Inr x)" "calm (Inl TypeError)" "calm (Inl (KeyError k))"
    "calm (Inl (AttributeError k))" "calm (Inl (Untyped k))"
  by (simp_all add: calm_def)

lemma calm_rbind [calm_intros]: "calm m \<Longrightarrow> (\<And>x. calm (f x)) \<Longrightarrow> calm (rbind m f)"
  by (cases m) (auto simp: calm_def)

lemma calm_rmap [calm_intros]: "(\<And>x. calm (f x)) \<Longrightarrow> calm (rmap f xs)"
  by (induction xs) (auto intro!: calm_rbind)

lemma calm_rfold [calm_intros]: "(\<And>s x. calm (f s x)) \<Longrightarrow> calm (rfold f s xs)"
  by (induction xs arbitrary: s) (auto intro!: calm_rbind)

lemma calm_json [calm_intros]: "calm (hash_key v)" "calm (py_list v)" "calm (json_item v k)" "calm (dict_item d k)"
  by (cases v; simp add: dict_item_def split: option.splits)+

lemma calm_states [calm_intros]:
  "(\<And>s. calm (f s)) \<Longrightarrow> calm (update_existing d i f)" "calm r \<Longrightarrow> calm (insert_new d i r)"
  by (auto simp: update_existing_def insert_new_def intro!: calm_intros split: option.splits)

lemma calm_steps: "calm (task_step ts e)" "calm (decision_step ds e)" "calm (question_step qs e)"
proof -
  show "calm (task_step ts e)"
    by (cases "er_event_type e \<in> {TASK_CREATED, TASK_MUTATED, TASK_COMPLETED, TASK_PROGRESS_NOTED}")
      (auto simp: task_step_eqs task_step_foreign task_of_event_def get_list_def task_mutate_def task_setattr_def
        task_note_def Let_def intro!: calm_intros split: json.splits prod.splits)
  show "calm (decision_step ds e)"
  proof (cases "er_event_type e \<in> {DECISION_PROPOSED, DECISION_ACCEPTED, DECISION_SUPERSEDED}")
    case True
    then show ?thesis by (auto simp: decision_step_def Let_def intro!: calm_intros)
  qed (simp add: decision_step_foreign)
  show "calm (question_step qs e)"
  proof (cases "er_event_type e \<in> {OPEN_QUESTION_RAISED, OPEN_QUESTION_RESOLVED}")
    case True
    then show ?thesis by (auto simp: question_step_def question_of_event_def get_list_def Let_def intro!: calm_intros)
  qed (simp add: question_step_foreign)
qed

lemma calm_reducers: "calm (task_reduce ts es)" "calm (decision_reduce ds es)" "calm (question_reduce qs es)"
  by (simp_all add: task_reduce_def decision_reduce_def question_reduce_def calm_rfold calm_steps)

lemma calm_head: "calm (head_of_states pid now s events)"
  by (auto simp: head_of_states_def build_head_def Let_def sort_by_priority_def priority_rank_def blockers_of_def
      block_by_task_def block_by_question_def blocker_add_def blocker_entry_def sorted_ids_def
      intro!: calm_intros split: prod.splits option.splits)

lemma check_bootstrap_iff:
  "(\<exists>m. check_bootstrap es = Inl (MissingProjectBootstrapError m)) \<longleftrightarrow> \<not> set BOOTSTRAP \<subseteq> er_event_type ` set es"
  "check_bootstrap es = Inl x \<Longrightarrow> \<exists>m. x = MissingProjectBootstrapError m"
  by (auto simp: check_bootstrap_def BOOTSTRAP_def split: if_splits option.splits)

text \<open>A project without its founding events is refused, and only then.  Without a snapshot the engine raises
  MissingProjectBootstrapError exactly if the project has no PROJECT_CREATED, no PROJECT_GOAL_SET or no
  PROJECT_FOCUS_CHANGED event, wherever in the stream those stand.\<close>

theorem bootstrap_required:
  assumes "store_inv st es"
  shows "(\<exists>m. build_projection (Inr (rejected r)) st pid now = Inl (MissingProjectBootstrapError m)) \<longleftrightarrow>
    \<not> set BOOTSTRAP \<subseteq> er_event_type ` {e \<in> set es. er_project_id e = pid}"
proof -
  let ?es = "filter (\<lambda>e. er_project_id e = pid) es"
  note eq = full_build [OF sqlite_events.full_stream [OF assms], of r pid now]
  have types: "set ?es = {e \<in> set es. er_project_id e = pid}" by auto
  show ?thesis
  proof (cases "check_bootstrap ?es")
    case (Inl x)
    then have "\<exists>m. check_bootstrap ?es = Inl (MissingProjectBootstrapError m)" using check_bootstrap_iff(2) by blast
    moreover from this have "\<exists>m. build_projection (Inr (rejected r)) st pid now = Inl (MissingProjectBootstrapError m)"
      by (auto simp: eq full_states_def)
    ultimately show ?thesis unfolding check_bootstrap_iff(1) types by blast
  next
    case (Inr u)
    then have "set BOOTSTRAP \<subseteq> er_event_type ` set ?es" using check_bootstrap_iff(1) [of ?es] by auto
    moreover have "calm (build_projection (Inr (rejected r)) st pid now)"
      unfolding eq full_states_def Inr rbind_simps by (intro calm_intros calm_reducers calm_head calm_basic)
    ultimately show ?thesis unfolding types by (simp add: calm_def)
  qed
qed

section \<open>Witnesses\<close>

definition sample_more :: "EventRecord list" where
  "sample_more = [sample_reducer_event 7 TASK_COMPLETED [(''task_id'', JStr ''a'')]]"

definition sample_requests :: "EventRequest list" where
  "sample_requests = map (\<lambda>e. sample_request sample_project (show_int (er_event_sequence e)) (er_event_type e) (er_payload e))
     (sample_head_events @ sample_more)"

lemma sample_stores:
  "\<exists>st1 st2. store_inv st1 sample_head_events \<and> store_inv st2 (sample_head_events @ sample_more)"
proof -
  have stored: "\<exists>st. store_inv st (log_of [] (take n sample_requests))" for n
  proof (rule log_of_stored [OF store_inv_init])
    have "list_all request_ok sample_requests"
      by (simp add: sample_requests_def sample_head_events_def sample_more_def sample_request_def request_ok_def wf_dict_def)
    then show "list_all request_ok (take n sample_requests)" by (auto simp: list_all_iff dest: in_set_takeD)
    have "distinct (map rq_uuid sample_requests)" by code_simp
    then show "distinct (map rq_uuid (take n sample_requests))" by (simp add: take_map [symmetric])
  qed simp
  have "log_of [] (take 6 sample_requests) = sample_head_events" "log_of [] (take 7 sample_requests) = sample_head_events @ sample_more"
    by (simp_all add: sample_requests_def sample_head_events_def sample_more_def sample_reducer_event_def record_of_def
        sample_request_def)
  with stored [of 6] stored [of 7] show ?thesis by metis
qed

lemma sample_all_mine: "filter (\<lambda>e. er_project_id e = sample_project) sample_head_events = sample_head_events"
  "filter (\<lambda>e. er_project_id e = sample_project) sample_more = sample_more"
  by (simp_all add: sample_head_events_def sample_more_def)

text \<open>A full replay of the sample log succeeds and gives a payload.\<close>

lemma sample_full_replay:
  assumes "store_inv st sample_head_events"
  shows "\<exists>r p. build_projection (Inr (rejected NOT_FOUND)) st sample_project ''now'' = Inr r \<and>
    compile_payload h st sample_project (rr_head r) = Inr p"
proof -
  have stream: "get_project_stream st sample_project 0 = Inr sample_head_events"
    using sqlite_events.full_stream [OF assms, of sample_project] by (simp add: sample_all_mine)
  have "\<not> isl (rbind (full_states sample_head_events) (\<lambda>s. head_of_states sample_project ''now'' s sample_head_events))"
    by code_simp
  then obtain hd where "rbind (full_states sample_head_events)
      (\<lambda>s. head_of_states sample_project ''now'' s sample_head_events) = Inr hd"
    by (metis isl_def sum.exhaust)
  then have "\<exists>r. build_projection (Inr (rejected NOT_FOUND)) st sample_project ''now'' = Inr r"
    by (auto simp: full_build [OF stream])
  moreover have "\<not> isl (rbind (task_reduce None sample_head_events) (states_to_json task_to_dict))"
    "\<not> isl (rbind (decision_reduce None sample_head_events) (states_to_json decision_to_dict))"
    "\<not> isl (rbind (question_reduce None sample_head_events) (states_to_json question_to_dict))"
    by code_simp+
  then have "\<exists>p. compile_payload h st sample_project head = Inr p" for head
    by (cases "task_reduce None sample_head_events"; cases "decision_reduce None sample_head_events";
        cases "question_reduce None sample_head_events")
      (auto simp: compile_payload_def stream from_cognitive_head_def rbind_def split: sum.splits)
  ultimately show ?thesis by blast
qed

theorem delta_replay_equals_full_witness:
  "\<exists>st2 p. store_inv st2 (sample_head_events @ sample_more) \<and>
     rbind (build_projection (Inr (accepted p)) st2 sample_project ''later'') (\<lambda>r. Inr (rr_mode r, rr_head r)) =
     rbind (build_projection (Inr (rejected NOT_FOUND)) st2 sample_project ''later'') (\<lambda>r. Inr (DELTA, rr_head r))"
proof -
  obtain st1 st2 where st: "store_inv st1 sample_head_events" "store_inv st2 (sample_head_events @ sample_more)"
    using sample_stores by blast
  obtain r p where r: "build_projection (Inr (rejected NOT_FOUND)) st1 sample_project ''now'' = Inr r"
    "compile_payload sample_host st1 sample_project (rr_head r) = Inr p"
    using sample_full_replay [OF st(1)] by blast
  have side: "fits64 (int (length sample_head_events))" "list_all typed_event sample_head_events"
    "filter (\<lambda>e. er_project_id e = sample_project) sample_more \<noteq> []"
    by (simp_all add: sample_head_events_def sample_more_def fits64_def typed_event_def)
  from delta_replay_equals_full [OF st side r, of "''later''"] st(2) show ?thesis by blast
qed

theorem fast_path_lists_everything_witness:
  "\<exists>st p r ts ds qs. store_inv st sample_head_events \<and> build_projection (Inr (accepted p)) st sample_project ''later'' = Inr r \<and>
     full_states sample_head_events = Inr (project_reduce None sample_head_events, ts, ds, qs) \<and>
     ch_active_tasks (rr_head r) = map snd ts"
proof -
  obtain st where st: "store_inv st sample_head_events" using sample_stores by blast
  obtain r p where r: "build_projection (Inr (rejected NOT_FOUND)) st sample_project ''now'' = Inr r"
    "compile_payload sample_host st sample_project (rr_head r) = Inr p"
    using sample_full_replay [OF st] by blast
  have "is_uuid_text sample_project" by code_simp
  from fast_path_lists_everything [OF st this r, of "''later''"] obtain r' ts ds qs where
    "build_projection (Inr (accepted p)) st sample_project ''later'' = Inr r'"
    "full_states sample_head_events = Inr (project_reduce None sample_head_events, ts, ds, qs)"
    "rr_head r' = (rr_head r)\<lparr>ch_active_tasks := map snd ts, ch_active_decisions := map snd ds, ch_open_questions := map snd qs\<rparr>"
    unfolding sample_all_mine by blast
  moreover from arg_cong [OF this(3), of ch_active_tasks] have "ch_active_tasks (rr_head r') = map snd ts" by simp
  ultimately show ?thesis using st by blast
qed

theorem bootstrap_required_witness:
  "\<exists>m. build_projection (Inr (rejected NOT_FOUND)) store_init ''p'' ''now'' = Inl (MissingProjectBootstrapError m)"
  using bootstrap_required [OF store_inv_init, of NOT_FOUND "''p''" "''now''"] by (simp add: BOOTSTRAP_def)

end
