(* ===== verification/Platform.thy ===== *)
theory Platform
  imports Snapshot
begin

text \<open>
  The projection platform, \<open>rationalevault/projection_platform\<close>: projection metadata, the registry
  with its dependency check, the compiler and the manager service.

  A projection is its metadata and its three functions; all projections of a registry share a type of
  states here, where Python has \<open>Any\<close>.  The compiler works on the SQLite event store, whose
  snapshot table its snapshot manager uses; \<open>manager\<close> is the threshold of that manager's policy, or
  none for the null manager.  The recursion of the compiler over dependencies has fuel, and \<open>None\<close> is the
  outcome of a recursion that is still going when the fuel is used up; the number of registered projections plus
  two is enough, by \<open>compile_fuel_enough\<close> below.
\<close>

section \<open>Metadata\<close>

datatype DependencyKind = STATE | SEARCH | EVENT_STREAM | QUERY | EXPORT

record ProjectionDependency =
  pd_projection_id :: string
  pd_kind :: DependencyKind
  pd_optional :: bool

record EventSelector =
  es_types :: "SchemaEvents.EventType list"
  es_namespace :: string
  es_tags :: "string list"

record ProjectionCapabilities =
  pc_searchable :: bool
  pc_snapshotable :: bool
  pc_observable :: bool
  pc_exportable :: bool
  pc_mutable :: bool

datatype ProjectionHealth =
    UNKNOWN | INITIALIZING | BUILDING | READY | STALE | FAILED | DEGRADED | SHUTDOWN

record ProjectionMetadata =
  pm_id :: string
  pm_version :: int
  pm_schema_version :: int
  pm_consumed_events :: EventSelector
  pm_capabilities :: ProjectionCapabilities
  pm_dependencies :: "ProjectionDependency list"
  pm_description :: string

record 's Projection =
  pj_metadata :: ProjectionMetadata
  pj_reduce :: "EventRecord list \<Rightarrow> 's option \<Rightarrow> 's result"
  pj_serialize :: "'s \<Rightarrow> payload"
  pj_deserialize :: "payload \<Rightarrow> 's result"

section \<open>Registry\<close>

record 's PlatformRegistry =
  pr_projections :: "(string, 's Projection) dict"
  pr_frozen :: bool

definition platform_registry :: "'s PlatformRegistry" where
  "platform_registry = \<lparr>pr_projections = [], pr_frozen = False\<rparr>"

definition platform_register :: "'s PlatformRegistry \<Rightarrow> 's Projection \<Rightarrow> 's PlatformRegistry result" where
  "platform_register R p =
     (if pr_frozen R then Inl (RuntimeError ''Registry is frozen'')
      else let i = pm_id (pj_metadata p) in
        if dict_has (pr_projections R) i then Inl (ValueError ''already registered'')
        else Inr (R\<lparr>pr_projections := AList.update i p (pr_projections R)\<rparr>))"

definition platform_get :: "'s PlatformRegistry \<Rightarrow> string \<Rightarrow> 's Projection result" where
  "platform_get R i =
     (case map_of (pr_projections R) i of None \<Rightarrow> Inl (ProjectionNotFoundError i) | Some p \<Rightarrow> Inr p)"

definition platform_all :: "'s PlatformRegistry \<Rightarrow> 's Projection list" where
  "platform_all R = map snd (pr_projections R)"

definition platform_metadata :: "'s PlatformRegistry \<Rightarrow> string \<Rightarrow> ProjectionMetadata result" where
  "platform_metadata R i = rbind (platform_get R i) (\<lambda>p. Inr (pj_metadata p))"

text \<open>The dependencies that are registered, in the order of the metadata.\<close>

definition dep_ids :: "'s PlatformRegistry \<Rightarrow> string \<Rightarrow> string list" where
  "dep_ids R i =
     (case map_of (pr_projections R) i of
        None \<Rightarrow> []
      | Some p \<Rightarrow> filter (dict_has (pr_projections R)) (map pd_projection_id (pm_dependencies (pj_metadata p))))"

text \<open>
  The depth-first search: the sets \<open>visited\<close> and \<open>path\<close> are threaded through the calls.  Every
  nested call is on a registered projection that is not on the path, so the number of registered
  projections bounds the depth.
\<close>

fun dfs :: "nat \<Rightarrow> (string \<Rightarrow> string list) \<Rightarrow> string list \<times> string list \<Rightarrow> string \<Rightarrow> (string list \<times> string list) result" where
  "dfs 0 deps s i = Inl (Untyped ''fuel'')"
| "dfs (Suc n) deps (visited, path) i =
     (if i \<in> set path then Inl (CyclicDependencyError i)
      else if i \<in> set visited then Inr (visited, path)
      else rbind (rfold (dfs n deps) (i # visited, i # path) (deps i)) (\<lambda>(visited, path).
        Inr (visited, removeAll i path)))"

definition check_required :: "'s PlatformRegistry \<Rightarrow> unit result" where
  "check_required R =
     rfold (\<lambda>_ p. rfold (\<lambda>_ d.
         if \<not> dict_has (pr_projections R) (pd_projection_id d) \<and> \<not> pd_optional d
         then Inl (ProjectionNotFoundError (pd_projection_id d)) else Inr ()) () (pm_dependencies (pj_metadata p)))
       () (platform_all R)"

text \<open>\<open>order\<close> is the order in which the set of ids is iterated.\<close>

definition platform_validate :: "'s PlatformRegistry \<Rightarrow> string list \<Rightarrow> unit result" where
  "platform_validate R order =
     rbind (check_required R) (\<lambda>_.
     rbind (rfold (dfs (Suc (length (pr_projections R))) (dep_ids R)) ([], []) order) (\<lambda>_. Inr ()))"

definition platform_freeze :: "'s PlatformRegistry \<Rightarrow> string list \<Rightarrow> 's PlatformRegistry result" where
  "platform_freeze R order = rbind (platform_validate R order) (\<lambda>_. Inr (R\<lparr>pr_frozen := True\<rparr>))"

section \<open>Compiler\<close>

text \<open>The state: the store, the recorded health, and the number of UUIDs drawn.\<close>

record CompilerState =
  cp_store :: SQLiteEventStore
  cp_health :: "(string, ProjectionHealth) dict"
  cp_drawn :: nat

definition set_health :: "CompilerState \<Rightarrow> string \<Rightarrow> ProjectionHealth \<Rightarrow> CompilerState" where
  "set_health c i v = c\<lparr>cp_health := AList.update i v (cp_health c)\<rparr>"

definition health_of :: "CompilerState \<Rightarrow> string \<Rightarrow> ProjectionHealth" where
  "health_of c i = dict_get (cp_health c) i UNKNOWN"

text \<open>What the compiler is given: hash function, manager, registry, source of UUIDs.\<close>

record 's CompilerConfig =
  cc_host :: host
  cc_manager :: "int option"
  cc_registry :: "'s PlatformRegistry"
  cc_uuid :: "nat \<Rightarrow> string"

definition manager_load :: "'s CompilerConfig \<Rightarrow> SQLiteEventStore \<Rightarrow> string \<Rightarrow> string \<Rightarrow> SnapshotValidationResult result" where
  "manager_load cfg st pid i =
     (case cc_manager cfg of
        None \<Rightarrow> Inr (rejected NOT_FOUND)
      | Some _ \<Rightarrow> load_valid_snapshot (cc_host cfg) (load_latest_raw st pid i) i (get_latest_sequence st pid))"

text \<open>
  Saving is best effort: every exception is dropped.  A store is changed only by a save that succeeds.
\<close>

definition platform_save_snapshot :: "'s CompilerConfig \<Rightarrow> CompilerState \<Rightarrow> string \<Rightarrow> string \<Rightarrow> 's Projection \<Rightarrow> 's \<Rightarrow> int \<Rightarrow>
    CompilerState result" where
  "platform_save_snapshot cfg c pid i p s cur =
     (if i \<notin> set SNAPSHOT_SERIALIZERS then Inr c
      else case cc_manager cfg of
        None \<Rightarrow> Inr c
      | Some threshold \<Rightarrow>
          (case rbind (snapshot_from_dict (JDict (pj_serialize p s))) (\<lambda>payload.
             refresh_snapshot (cc_host cfg) threshold (cp_store c) (cc_uuid cfg (cp_drawn c)) pid i payload cur) of
             Inl e \<Rightarrow> if exc_class e = [] then Inl e else Inr c
           | Inr st \<Rightarrow> Inr (c\<lparr>cp_store := st, cp_drawn := Suc (cp_drawn c)\<rparr>)))"

text \<open>The body of \<open>compile\<close> after the dependencies.  The store has no \<open>get_events_since\<close>.\<close>

definition compile_body :: "'s CompilerConfig \<Rightarrow> CompilerState \<Rightarrow> string \<Rightarrow> string \<Rightarrow> 's Projection \<Rightarrow> (CompilerState \<times> 's) result" where
  "compile_body cfg c pid i p =
     rbind (manager_load cfg (cp_store c) pid i) (\<lambda>result.
     let payload = (if sv_valid result then sv_payload result else None);
         latest_seq = get_latest_sequence (cp_store c) pid
     in rbind (case payload of None \<Rightarrow> Inr 0 | Some q \<Rightarrow> int_value (sp_sequence q)) (\<lambda>snapshot_seq.
        if latest_seq \<le> snapshot_seq \<and> payload \<noteq> None then
          rbind (pj_deserialize p (snapshot_to_dict False (the payload))) (\<lambda>s. Inr (set_health c i READY, s))
        else
          rbind (if 0 < snapshot_seq then Inl (AttributeError ''get_events_since'')
                 else get_project_stream (cp_store c) pid 0) (\<lambda>events.
          rbind (case payload of
                   None \<Rightarrow> Inr None
                 | Some q \<Rightarrow> rbind (pj_deserialize p (snapshot_to_dict False q)) (\<lambda>s. Inr (Some s))) (\<lambda>initial_state.
          rbind (pj_reduce p events initial_state) (\<lambda>s.
          rbind (if pc_snapshotable (pm_capabilities (pj_metadata p))
                 then platform_save_snapshot cfg c pid i p s latest_seq else Inr c) (\<lambda>c.
          Inr (set_health c i READY, s)))))))"

text \<open>The loop over dependencies, with the nested compilation as an argument.\<close>

fun compile_deps :: "(CompilerState \<Rightarrow> string \<Rightarrow> (CompilerState \<times> 's result) option) \<Rightarrow> CompilerState \<Rightarrow> string list \<Rightarrow>
    (CompilerState \<times> unit result) option" where
  "compile_deps f c [] = Some (c, Inr ())"
| "compile_deps f c (d # ds) =
     (if dict_has (cp_health c) d then compile_deps f c ds
      else case f c d of
          None \<Rightarrow> None
        | Some (c', Inl e) \<Rightarrow> Some (c', Inl e)
        | Some (c', Inr _) \<Rightarrow> compile_deps f c' ds)"

fun platform_compile :: "nat \<Rightarrow> 's CompilerConfig \<Rightarrow> string \<Rightarrow> CompilerState \<Rightarrow> string \<Rightarrow> (CompilerState \<times> 's result) option" where
  "platform_compile 0 cfg pid c i = None"
| "platform_compile (Suc n) cfg pid c i =
     (case platform_get (cc_registry cfg) i of
        Inl e \<Rightarrow> Some (c, Inl e)
      | Inr p \<Rightarrow>
          (case compile_deps (platform_compile n cfg pid) (set_health c i BUILDING)
                  (map pd_projection_id (pm_dependencies (pj_metadata p))) of
             None \<Rightarrow> None
           | Some (c', Inl e) \<Rightarrow> Some (set_health c' i FAILED, Inl e)
           | Some (c', Inr _) \<Rightarrow>
               (case compile_body cfg c' pid i p of
                  Inl e \<Rightarrow> Some (set_health c' i FAILED, Inl e)
                | Inr (c'', s) \<Rightarrow> Some (c'', Inr s))))"

definition compile_fuel :: "'s CompilerConfig \<Rightarrow> nat" where
  "compile_fuel cfg = length (pr_projections (cc_registry cfg)) + 2"

text \<open>The exhausted case is never taken (\<open>compile_fuel_enough\<close>).\<close>

definition compile_one :: "'s CompilerConfig \<Rightarrow> string \<Rightarrow> CompilerState \<Rightarrow> string \<Rightarrow> CompilerState \<times> 's result" where
  "compile_one cfg pid c i =
     (case platform_compile (compile_fuel cfg) cfg pid c i of None \<Rightarrow> (c, Inl (Untyped ''fuel'')) | Some r \<Rightarrow> r)"

fun compile_all_loop :: "'s CompilerConfig \<Rightarrow> string \<Rightarrow> CompilerState \<Rightarrow> (string, 's) dict \<Rightarrow> 's Projection list \<Rightarrow>
    CompilerState \<times> (string, 's) dict result" where
  "compile_all_loop cfg pid c results [] = (c, Inr results)"
| "compile_all_loop cfg pid c results (p # ps) =
     (let i = pm_id (pj_metadata p) in
      case compile_one cfg pid c i of
        (c, Inl e) \<Rightarrow> (c, Inl e)
      | (c, Inr s) \<Rightarrow> compile_all_loop cfg pid c (AList.update i s results) ps)"

definition compile_all :: "'s CompilerConfig \<Rightarrow> string \<Rightarrow> CompilerState \<Rightarrow> CompilerState \<times> (string, 's) dict result" where
  "compile_all cfg pid c = compile_all_loop cfg pid c [] (platform_all (cc_registry cfg))"

text \<open>The manager service.\<close>

definition get_projection_state :: "'s CompilerConfig \<Rightarrow> string \<Rightarrow> CompilerState \<Rightarrow> string \<Rightarrow> CompilerState \<times> 's result" where
  "get_projection_state cfg pid c i =
     (case platform_get (cc_registry cfg) i of Inl e \<Rightarrow> (c, Inl e) | Inr _ \<Rightarrow> compile_one cfg pid c i)"

section \<open>The search finds exactly the cycles\<close>

definition edges :: "(string \<Rightarrow> string list) \<Rightarrow> (string \<times> string) set" where
  "edges deps = {(i, j). j \<in> set (deps i)}"

text \<open>A path lists its nodes from the current one back to the start.\<close>

fun chain :: "(string \<Rightarrow> string list) \<Rightarrow> string list \<Rightarrow> bool" where
  "chain deps [] = True"
| "chain deps (i # p) = (chain deps p \<and> (p = [] \<or> i \<in> set (deps (hd p))))"

text \<open>Visited nodes off the path are finished: closed under dependencies and on no cycle.\<close>

definition dfs_inv :: "string set \<Rightarrow> (string \<Rightarrow> string list) \<Rightarrow> string list \<Rightarrow> string list \<Rightarrow> bool" where
  "dfs_inv U deps v p \<longleftrightarrow> set p \<subseteq> set v \<and> set v \<subseteq> U \<and> distinct p \<and> chain deps p \<and>
     (\<forall>x \<in> set v - set p. set (deps x) \<subseteq> set v - set p \<and> (x, x) \<notin> (edges deps)\<^sup>+)"

lemma chain_reach: "chain deps p \<Longrightarrow> i \<in> set p \<Longrightarrow> (i, hd p) \<in> (edges deps)\<^sup>*"
proof (induction p)
  case (Cons x p)
  show ?case
  proof (cases "i = x")
    case False
    with Cons have "(i, hd p) \<in> (edges deps)\<^sup>*" "p \<noteq> []" by auto
    moreover from this Cons.prems have "(hd p, x) \<in> edges deps" by (simp add: edges_def)
    ultimately show ?thesis by (simp add: rtrancl.rtrancl_into_rtrancl)
  qed simp
qed simp

lemma chain_cycle:
  assumes "chain deps p" "i \<in> set p" "i \<in> set (deps (hd p))"
  shows "(i, i) \<in> (edges deps)\<^sup>+"
proof -
  have "(hd p, i) \<in> edges deps" using assms(3) by (simp add: edges_def)
  with chain_reach [OF assms(1,2)] show ?thesis by (rule rtrancl_into_trancl1)
qed

lemma closed_reach:
  assumes "(x, y) \<in> (edges deps)\<^sup>*" "x \<in> D" "\<And>z. z \<in> D \<Longrightarrow> set (deps z) \<subseteq> D"
  shows "y \<in> D"
  using assms(1,2) by (induction rule: rtrancl_induct) (use assms(3) in \<open>auto simp: edges_def\<close>)

lemma dfs_enter:
  assumes "dfs_inv U deps v p" "i \<notin> set v" "i \<in> U" "p = [] \<or> i \<in> set (deps (hd p))"
  shows "dfs_inv U deps (i # v) (i # p)"
proof -
  have "set (i # v) - set (i # p) = set v - set p" using assms(1,2) by (auto simp: dfs_inv_def)
  with assms show ?thesis by (auto simp: dfs_inv_def)
qed

lemma dfs_leave:
  assumes "dfs_inv U deps v (i # p)" "set (deps i) \<subseteq> set v - insert i (set p)"
  shows "dfs_inv U deps v p"
proof -
  let ?D = "set v - set (i # p)"
  have i: "i \<in> set v" "i \<notin> set p" using assms(1) by (auto simp: dfs_inv_def)
  have D: "set v - set p = insert i ?D" using i by auto
  have closed: "set (deps z) \<subseteq> ?D" if "z \<in> ?D" for z using assms(1) that unfolding dfs_inv_def by blast
  have "(i, i) \<notin> (edges deps)\<^sup>+"
  proof
    assume "(i, i) \<in> (edges deps)\<^sup>+"
    then obtain j where "(i, j) \<in> edges deps" "(j, i) \<in> (edges deps)\<^sup>*" by (meson tranclD)
    then have "i \<in> ?D" using closed_reach [of j i deps ?D] closed assms(2) by (auto simp: edges_def)
    then show False by simp
  qed
  with assms closed D show ?thesis unfolding dfs_inv_def D by auto
qed

text \<open>The outcome of a search that has enough fuel.\<close>

definition dfs_result :: "string set \<Rightarrow> (string \<Rightarrow> string list) \<Rightarrow> string list \<Rightarrow> string list \<Rightarrow> string set \<Rightarrow>
    (string list \<times> string list) result \<Rightarrow> bool" where
  "dfs_result U deps v p is r \<longleftrightarrow>
     (case r of
        Inl e \<Rightarrow> \<exists>x. e = CyclicDependencyError x \<and> (x, x) \<in> (edges deps)\<^sup>+
      | Inr (v', p') \<Rightarrow> p' = p \<and> set v \<subseteq> set v' \<and> is \<subseteq> set v' - set p \<and> dfs_inv U deps v' p)"

lemma dfs_fold:
  assumes "dfs_inv U deps v p" "set js \<subseteq> U" "p \<noteq> [] \<longrightarrow> set js \<subseteq> set (deps (hd p))"
    and step: "\<And>v j. dfs_inv U deps v p \<Longrightarrow> j \<in> set js \<Longrightarrow> dfs_result U deps v p {j} (dfs n deps (v, p) j)"
  shows "dfs_result U deps v p (set js) (rfold (dfs n deps) (v, p) js)"
  using assms
proof (induction js arbitrary: v)
  case Nil
  then show ?case by (simp add: dfs_result_def)
next
  case (Cons j js)
  have j: "dfs_result U deps v p {j} (dfs n deps (v, p) j)" using Cons.prems by simp
  show ?case
  proof (cases "dfs n deps (v, p) j")
    case (Inl e)
    with j show ?thesis by (simp add: dfs_result_def)
  next
    case (Inr s)
    then obtain v' where v': "dfs n deps (v, p) j = Inr (v', p)" "set v \<subseteq> set v'" "j \<in> set v' - set p" "dfs_inv U deps v' p"
      using j by (cases s) (auto simp: dfs_result_def)
    have "dfs_result U deps v' p (set js) (rfold (dfs n deps) (v', p) js)"
      by (rule Cons.IH) (use Cons.prems v'(4) in auto)
    with v' show ?thesis by (auto simp: dfs_result_def split: sum.splits)
  qed
qed

lemma dfs_correct:
  assumes "finite U" "\<And>x. x \<in> U \<Longrightarrow> set (deps x) \<subseteq> U"
    and "dfs_inv U deps v p" "i \<in> U" "p = [] \<or> i \<in> set (deps (hd p))" "card U < length p + n"
  shows "dfs_result U deps v p {i} (dfs n deps (v, p) i)"
  using assms(3-6)
proof (induction n arbitrary: v p i)
  case 0
  have "length p = card (set p)" using 0 by (simp add: dfs_inv_def distinct_card)
  also have "\<dots> \<le> card U" using 0 assms(1) by (intro card_mono) (auto simp: dfs_inv_def)
  finally show ?case using 0 by simp
next
  case (Suc n)
  consider "i \<in> set p" | "i \<notin> set p" "i \<in> set v" | "i \<notin> set p" "i \<notin> set v" by blast
  then show ?case
  proof cases
    case 1
    with Suc.prems(3) have "i \<in> set (deps (hd p))" by auto
    moreover have "chain deps p" using Suc.prems(1) by (simp add: dfs_inv_def)
    ultimately have "(i, i) \<in> (edges deps)\<^sup>+" using 1 chain_cycle by blast
    with 1 show ?thesis by (simp add: dfs_result_def)
  next
    case 2
    with Suc.prems(1) show ?thesis by (simp add: dfs_result_def)
  next
    case 3
    have inv: "dfs_inv U deps (i # v) (i # p)" using Suc.prems 3 by (intro dfs_enter) auto
    have "dfs_result U deps (i # v) (i # p) (set (deps i)) (rfold (dfs n deps) (i # v, i # p) (deps i))"
    proof (rule dfs_fold [OF inv])
      show "set (deps i) \<subseteq> U" using assms(2) Suc.prems(2) by blast
      show "dfs_result U deps w (i # p) {j} (dfs n deps (w, i # p) j)"
        if "dfs_inv U deps w (i # p)" "j \<in> set (deps i)" for w j
        using that assms(2) Suc.prems(2,4) by (intro Suc.IH) auto
    qed simp
    then show ?thesis using 3
      by (auto simp: dfs_result_def intro: dfs_leave [of U deps _ i p] split: sum.splits)
  qed
qed

lemma check_required_iff:
  "check_required R = Inr () \<longleftrightarrow>
     (\<forall>p \<in> set (platform_all R). \<forall>d \<in> set (pm_dependencies (pj_metadata p)).
        pd_optional d \<or> dict_has (pr_projections R) (pd_projection_id d))"
  unfolding check_required_def rfold_unit by auto

lemma dep_ids_registered: "set (dep_ids R i) \<subseteq> fst ` set (pr_projections R)"
  by (auto simp: dep_ids_def dict_has_def split: option.splits)

lemma search_correct:
  assumes "set order = fst ` set (pr_projections R)"
  shows "(\<exists>s. rfold (dfs (Suc (length (pr_projections R))) (dep_ids R)) ([], []) order = Inr s) \<longleftrightarrow>
    acyclic (edges (dep_ids R))"
proof -
  let ?U = "fst ` set (pr_projections R)" and ?n = "Suc (length (pr_projections R))"
  have U: "card ?U < ?n" by (metis card_length le_imp_less_Suc length_map set_map)
  have "dfs_result ?U (dep_ids R) [] [] (set order) (rfold (dfs ?n (dep_ids R)) ([], []) order)"
  proof (rule dfs_fold)
    show "dfs_result ?U (dep_ids R) v [] {j} (dfs ?n (dep_ids R) (v, []) j)"
      if "dfs_inv ?U (dep_ids R) v []" "j \<in> set order" for v j
      by (rule dfs_correct) (use that U assms dep_ids_registered [of R] in auto)
  qed (simp_all add: dfs_inv_def assms)
  note res = this
  show ?thesis
  proof
    assume "\<exists>s. rfold (dfs ?n (dep_ids R)) ([], []) order = Inr s"
    then obtain v where v: "?U \<subseteq> set v" "dfs_inv ?U (dep_ids R) v []"
      using res assms by (auto simp: dfs_result_def)
    have "(x, x) \<notin> (edges (dep_ids R))\<^sup>+" for x
    proof
      assume cyc: "(x, x) \<in> (edges (dep_ids R))\<^sup>+"
      then obtain y where "(y, x) \<in> edges (dep_ids R)" by (meson tranclE)
      then have "x \<in> ?U" using dep_ids_registered [of R y] by (auto simp: edges_def)
      with v cyc show False by (auto simp: dfs_inv_def)
    qed
    then show "acyclic (edges (dep_ids R))" by (simp add: acyclic_def)
  next
    assume "acyclic (edges (dep_ids R))"
    then show "\<exists>s. rfold (dfs ?n (dep_ids R)) ([], []) order = Inr s"
      using res by (cases "rfold (dfs ?n (dep_ids R)) ([], []) order") (auto simp: dfs_result_def acyclic_def)
  qed
qed

section \<open>Properties of the registry\<close>

text \<open>A registry freezes exactly if its dependencies are sound.  Whatever the order in which the ids are
  visited, freezing succeeds if and only if every required dependency is registered and the dependencies among
  registered projections have no cycle; the projections stay as they were and the frozen registry refuses
  registrations.\<close>

theorem platform_freeze_iff:
  assumes "set order = fst ` set (pr_projections R)"
  shows "((\<exists>R'. platform_freeze R order = Inr R') \<longleftrightarrow>
      (\<forall>p \<in> set (platform_all R). \<forall>d \<in> set (pm_dependencies (pj_metadata p)).
         pd_optional d \<or> dict_has (pr_projections R) (pd_projection_id d)) \<and> acyclic (edges (dep_ids R))) \<and>
    (\<forall>R' p. platform_freeze R order = Inr R' \<longrightarrow> platform_all R' = platform_all R \<and>
      platform_register R' p = Inl (RuntimeError ''Registry is frozen''))"
proof -
  have "(\<exists>R'. platform_freeze R order = Inr R') \<longleftrightarrow> check_required R = Inr () \<and>
      (\<exists>s. rfold (dfs (Suc (length (pr_projections R))) (dep_ids R)) ([], []) order = Inr s)"
    by (auto simp: platform_freeze_def platform_validate_def)
  then have "(\<exists>R'. platform_freeze R order = Inr R') \<longleftrightarrow> check_required R = Inr () \<and> acyclic (edges (dep_ids R))"
    unfolding search_correct [OF assms] .
  moreover have "platform_all R' = platform_all R \<and> platform_register R' p = Inl (RuntimeError ''Registry is frozen'')"
    if "platform_freeze R order = Inr R'" for R' p
    using that by (auto simp: platform_freeze_def platform_all_def platform_register_def)
  ultimately show ?thesis unfolding check_required_iff by blast
qed

section \<open>Health and fuel of the compiler\<close>

definition health_ids :: "CompilerState \<Rightarrow> string set" where
  "health_ids c = fst ` set (cp_health c)"

definition registered_ids :: "'s CompilerConfig \<Rightarrow> string set" where
  "registered_ids cfg = fst ` set (pr_projections (cc_registry cfg))"

lemma health_ids_set [simp]: "health_ids (set_health c i v) = insert i (health_ids c)"
  by (simp add: health_ids_def set_health_def dom_update)

lemma health_ids_has: "dict_has (cp_health c) d \<longleftrightarrow> d \<in> health_ids c"
  by (simp add: dict_has_def health_ids_def)

lemma platform_get_registered: "(\<exists>p. platform_get (cc_registry cfg) i = Inr p) \<longleftrightarrow> i \<in> registered_ids cfg"
proof -
  have "i \<in> registered_ids cfg \<longleftrightarrow> map_of (pr_projections (cc_registry cfg)) i \<noteq> None"
    by (simp add: registered_ids_def map_of_eq_None_iff)
  then show ?thesis by (auto simp: platform_get_def split: option.splits)
qed

lemma save_keeps_health: "platform_save_snapshot cfg c pid i p s n = Inr c' \<Longrightarrow> cp_health c' = cp_health c"
  by (auto simp: platform_save_snapshot_def split: if_splits option.splits sum.splits)

lemma compile_body_health:
  assumes "compile_body cfg c pid i p = Inr (c', s)"
  shows "cp_health c' = AList.update i READY (cp_health c)"
  using assms
  by (auto simp: compile_body_def Let_def set_health_def dest: save_keeps_health split: if_splits)

lemma compile_body_ids: "compile_body cfg c pid i p = Inr (c', s) \<Longrightarrow> health_ids c' = insert i (health_ids c)"
  by (simp add: health_ids_def compile_body_health dom_update)

lemma compile_deps_grows:
  assumes "\<And>c d c' r. f c d = Some (c', r) \<Longrightarrow> health_ids c \<subseteq> health_ids c' \<and> health_ids c' \<subseteq> health_ids c \<union> A"
  shows "compile_deps f c ds = Some (c', r) \<Longrightarrow> health_ids c \<subseteq> health_ids c' \<and> health_ids c' \<subseteq> health_ids c \<union> A"
proof (induction ds arbitrary: c)
  case (Cons d ds)
  show ?case
  proof (cases "d \<in> health_ids c")
    case True
    with Cons show ?thesis by (simp add: health_ids_has)
  next
    case False
    with Cons.prems obtain c1 x where x: "f c d = Some (c1, x)" by (auto simp: health_ids_has split: option.splits)
    from assms [OF x] x False Cons show ?thesis by (cases x) (fastforce simp: health_ids_has)+
  qed
qed simp

lemma platform_compile_grows:
  "platform_compile n cfg pid c i = Some (c', r) \<Longrightarrow> health_ids c \<subseteq> health_ids c' \<and> health_ids c' \<subseteq> health_ids c \<union> registered_ids cfg"
proof (induction n arbitrary: c i c' r)
  case (Suc n)
  show ?case
  proof (cases "platform_get (cc_registry cfg) i")
    case (Inl e)
    with Suc.prems show ?thesis by simp
  next
    case (Inr p)
    then have i: "i \<in> registered_ids cfg" using platform_get_registered by blast
    let ?ds = "map pd_projection_id (pm_dependencies (pj_metadata p))"
    obtain c1 r1 where c1: "compile_deps (platform_compile n cfg pid) (set_health c i BUILDING) ?ds = Some (c1, r1)"
      using Suc.prems Inr by (auto split: option.splits)
    have grow: "insert i (health_ids c) \<subseteq> health_ids c1" "health_ids c1 \<subseteq> health_ids c \<union> registered_ids cfg"
      using compile_deps_grows [of "platform_compile n cfg pid" "registered_ids cfg" "set_health c i BUILDING" ?ds c1 r1, OF _ c1] Suc.IH i
      by auto
    show ?thesis using Suc.prems Inr c1 grow i
      by (cases r1) (auto split: sum.splits dest!: compile_body_ids)
  qed
qed simp

text \<open>How deep nested calls can still go from a state.\<close>

definition pending_ids :: "'s CompilerConfig \<Rightarrow> CompilerState \<Rightarrow> nat" where
  "pending_ids cfg c = card (registered_ids cfg - health_ids c)"

lemma pending_mono: "health_ids c \<subseteq> health_ids c' \<Longrightarrow> pending_ids cfg c' \<le> pending_ids cfg c"
  unfolding pending_ids_def by (intro card_mono) (auto simp: registered_ids_def)

lemma pending_enter:
  assumes "i \<in> registered_ids cfg" "i \<notin> health_ids c"
  shows "Suc (pending_ids cfg (set_health c i v)) = pending_ids cfg c"
proof -
  let ?A = "registered_ids cfg - health_ids (set_health c i v)"
  have "registered_ids cfg - health_ids c = insert i ?A" "i \<notin> ?A" using assms by auto
  moreover have "finite ?A" by (simp add: registered_ids_def)
  ultimately show ?thesis unfolding pending_ids_def by (metis card_insert_disjoint)
qed

lemma compile_deps_total:
  assumes "\<And>c d. pending_ids cfg c \<le> k \<Longrightarrow> d \<notin> health_ids c \<Longrightarrow> \<exists>c' r. f c d = Some (c', r)"
    and "\<And>c d c' r. f c d = Some (c', r) \<Longrightarrow> health_ids c \<subseteq> health_ids c'" and "pending_ids cfg c \<le> k"
  shows "\<exists>c' r. compile_deps f c ds = Some (c', r)"
  using assms(3)
proof (induction ds arbitrary: c)
  case (Cons d ds)
  show ?case
  proof (cases "d \<in> health_ids c")
    case True
    then show ?thesis using Cons by (simp add: health_ids_has)
  next
    case False
    then obtain c1 x where x: "f c d = Some (c1, x)" using assms(1) Cons.prems by blast
    have "pending_ids cfg c1 \<le> k" using pending_mono [OF assms(2) [OF x], of cfg] Cons.prems by simp
    from Cons.IH [OF this] False x show ?thesis by (cases x) (auto simp: health_ids_has)
  qed
qed simp

lemma compile_deps_mono:
  assumes "\<And>c d x. f c d = Some x \<Longrightarrow> g c d = Some x"
  shows "compile_deps f c ds = Some y \<Longrightarrow> compile_deps g c ds = Some y"
  by (induction ds arbitrary: c) (auto dest: assms split: if_splits option.splits sum.splits)

lemma platform_compile_mono: "platform_compile n cfg pid c i = Some x \<Longrightarrow> n \<le> m \<Longrightarrow> platform_compile m cfg pid c i = Some x"
proof (induction n arbitrary: m c i x)
  case (Suc n)
  then obtain k where m: "m = Suc k" "n \<le> k" by (cases m) auto
  show ?case
  proof (cases "platform_get (cc_registry cfg) i")
    case (Inl e)
    with Suc.prems show ?thesis by (simp add: m)
  next
    case (Inr p)
    let ?ds = "map pd_projection_id (pm_dependencies (pj_metadata p))"
    obtain y where "compile_deps (platform_compile n cfg pid) (set_health c i BUILDING) ?ds = Some y"
      using Suc.prems Inr by (auto split: option.splits)
    moreover from this have "compile_deps (platform_compile k cfg pid) (set_health c i BUILDING) ?ds = Some y"
      by (rule compile_deps_mono [rotated]) (use Suc.IH m(2) in blast)
    ultimately show ?thesis using Suc.prems(1) Inr by (simp add: m)
  qed
qed simp

text \<open>Every nested call is on a projection without health, so a call with more fuel than pending projections returns.\<close>

lemma platform_compile_total:
  assumes "d \<notin> health_ids c" "pending_ids cfg c < n"
  shows "\<exists>c' r. platform_compile n cfg pid c d = Some (c', r)"
  using assms
proof (induction n arbitrary: c d)
  case (Suc n)
  show ?case
  proof (cases "platform_get (cc_registry cfg) d")
    case (Inr p)
    let ?c = "set_health c d BUILDING" and ?ds = "map pd_projection_id (pm_dependencies (pj_metadata p))"
    have "d \<in> registered_ids cfg" using Inr platform_get_registered by blast
    then have p: "Suc (pending_ids cfg ?c) = pending_ids cfg c" using Suc.prems(1) by (rule pending_enter)
    have "\<exists>c' r. compile_deps (platform_compile n cfg pid) ?c ?ds = Some (c', r)"
    proof (rule compile_deps_total [where k = "pending_ids cfg ?c" and cfg = cfg])
      show "\<exists>c'' r. platform_compile n cfg pid c' d' = Some (c'', r)"
        if "pending_ids cfg c' \<le> pending_ids cfg ?c" "d' \<notin> health_ids c'" for c' d'
        using that p Suc.prems by (intro Suc.IH) auto
    qed (use platform_compile_grows in blast)+
    then obtain c' r where "compile_deps (platform_compile n cfg pid) ?c ?ds = Some (c', r)" by blast
    then show ?thesis using Inr by (cases r) (auto split: sum.splits)
  qed simp
qed simp

lemma pending_bound: "pending_ids cfg c \<le> length (pr_projections (cc_registry cfg))"
proof -
  have "pending_ids cfg c \<le> card (registered_ids cfg)"
    unfolding pending_ids_def by (intro card_mono) (auto simp: registered_ids_def)
  also have "\<dots> \<le> length (pr_projections (cc_registry cfg))"
    unfolding registered_ids_def by (metis card_length length_map set_map)
  finally show ?thesis .
qed

lemma compile_deps_enough:
  "\<exists>c' r. compile_deps (platform_compile (Suc (length (pr_projections (cc_registry cfg)))) cfg pid) c ds = Some (c', r)"
proof (rule compile_deps_total [where k = "length (pr_projections (cc_registry cfg))" and cfg = cfg])
  show "\<exists>c'' r. platform_compile (Suc (length (pr_projections (cc_registry cfg)))) cfg pid c' d = Some (c'', r)"
    if "d \<notin> health_ids c'" for c' d
    by (rule platform_compile_total [OF that]) (simp add: pending_bound le_imp_less_Suc)
qed (use platform_compile_grows pending_bound in blast)+

lemma platform_compile_returns: "\<exists>r. platform_compile (compile_fuel cfg) cfg pid c i = Some r"
proof (cases "platform_get (cc_registry cfg) i")
  case (Inr p)
  obtain c' r where "compile_deps (platform_compile (Suc (length (pr_projections (cc_registry cfg)))) cfg pid) (set_health c i BUILDING)
      (map pd_projection_id (pm_dependencies (pj_metadata p))) = Some (c', r)"
    using compile_deps_enough by blast
  then show ?thesis unfolding compile_fuel_def add_2_eq_Suc' platform_compile.simps(2) [of "Suc _"] Inr sum.case
    by (cases r) (auto split: sum.splits)
qed (simp add: compile_fuel_def)

lemma compile_fuel_enough:
  assumes "compile_fuel cfg \<le> n"
  shows "platform_compile n cfg pid c i = Some (compile_one cfg pid c i)"
proof -
  obtain r where r: "platform_compile (compile_fuel cfg) cfg pid c i = Some r" using platform_compile_returns by blast
  then have "compile_one cfg pid c i = r" by (simp add: compile_one_def)
  with platform_compile_mono [OF r assms] show ?thesis by simp
qed

lemma compile_deps_all:
  assumes "compile_deps f c ds = Some (c', Inr ())" "\<And>c d c' r. f c d = Some (c', r) \<Longrightarrow> health_ids c \<subseteq> health_ids c'"
    "\<And>c c' d s. f c d = Some (c', Inr s) \<Longrightarrow> d \<in> health_ids c'"
  shows "set ds \<subseteq> health_ids c' \<and> health_ids c \<subseteq> health_ids c'"
  using assms(1)
proof (induction ds arbitrary: c)
  case (Cons d ds)
  show ?case
  proof (cases "d \<in> health_ids c")
    case True
    with Cons show ?thesis by (auto simp: health_ids_has)
  next
    case False
    with Cons.prems obtain c1 s where c1: "f c d = Some (c1, Inr s)" "compile_deps f c1 ds = Some (c', Inr ())"
      by (auto simp: health_ids_has split: option.splits prod.splits sum.splits)
    with Cons.IH [OF c1(2)] assms(2) [OF c1(1)] assms(3) [OF c1(1)] show ?thesis by auto
  qed
qed simp

lemma platform_compile_done: "platform_compile n cfg pid c i = Some (c', Inr s) \<Longrightarrow> i \<in> health_ids c'"
  by (cases n) (auto split: sum.splits option.splits prod.splits dest: compile_body_ids)

lemma compiled_all: "compile_deps (platform_compile n cfg pid) c ds = Some (c', Inr ()) \<Longrightarrow> set ds \<subseteq> health_ids c'"
  by (rule compile_deps_all [THEN conjunct1]) (auto dest: platform_compile_grows platform_compile_done)

lemma health_of_set: "health_of (set_health c i v) i = v"
  by (simp add: health_of_def set_health_def dict_get_def)

lemma compile_body_ready: "compile_body cfg c pid i p = Inr (c', s) \<Longrightarrow> health_of c' i = READY"
  by (simp add: health_of_def compile_body_health dict_get_def)

text \<open>An unregistered dependency that has no health stops the loop, whatever comes before it.\<close>

lemma compile_deps_missing:
  assumes "d \<in> set ds" "d \<notin> health_ids c" "d \<notin> registered_ids cfg"
  shows "\<exists>c' e. compile_deps (platform_compile (Suc (length (pr_projections (cc_registry cfg)))) cfg pid) c ds = Some (c', Inl e)"
proof -
  let ?f = "platform_compile (Suc (length (pr_projections (cc_registry cfg)))) cfg pid"
  obtain c' r where r: "compile_deps ?f c ds = Some (c', r)" using compile_deps_enough by blast
  have "health_ids c' \<subseteq> health_ids c \<union> registered_ids cfg"
    using compile_deps_grows [of ?f "registered_ids cfg" c ds c' r, OF _ r] platform_compile_grows [of _ cfg pid] by blast
  moreover have "set ds \<subseteq> health_ids c'" if "r = Inr ()" using compiled_all r [unfolded that] by blast
  ultimately show ?thesis using r assms by (cases r) auto
qed

lemma compile_one_step:
  assumes "platform_get (cc_registry cfg) i = Inr p"
    and "compile_deps (platform_compile (Suc (length (pr_projections (cc_registry cfg)))) cfg pid) (set_health c i BUILDING)
      (map pd_projection_id (pm_dependencies (pj_metadata p))) = Some (c1, r)"
  shows "compile_one cfg pid c i =
    (case r of
       Inl e \<Rightarrow> (set_health c1 i FAILED, Inl e)
     | Inr _ \<Rightarrow> (case compile_body cfg c1 pid i p of Inl e \<Rightarrow> (set_health c1 i FAILED, Inl e) | Inr (c', s) \<Rightarrow> (c', Inr s)))"
  unfolding compile_one_def compile_fuel_def add_2_eq_Suc' platform_compile.simps(2) [of "Suc _"] assms(1) sum.case assms(2)
  by (simp split: sum.split)

section \<open>Properties of the compiler\<close>

text \<open>Property C24: compilation terminates for every dependency graph, cyclic ones included.  No nesting of calls is deeper
  than the number of registered projections plus two: with at least this depth the recursion always comes to an end
  with an answer, and the depth allowed changes neither the answer nor the resulting state.\<close>

theorem compile_terminates:
  assumes "length (pr_projections (cc_registry cfg)) + 2 \<le> n"
  shows "platform_compile n cfg pid c i = Some (compile_one cfg pid c i)"
  using assms by (intro compile_fuel_enough) (simp add: compile_fuel_def)

text \<open>The recorded health tells the outcome.  Compiling a registered projection leaves it READY exactly if a
  state is returned and FAILED otherwise, and after a success all its dependencies have been compiled or attempted;
  an unregistered one raises ProjectionNotFoundError and changes nothing.\<close>

theorem compile_health:
  "(case map_of (pr_projections (cc_registry cfg)) i of
      None \<Rightarrow> compile_one cfg pid c i = (c, Inl (ProjectionNotFoundError i))
    | Some p \<Rightarrow>
        (case compile_one cfg pid c i of
           (c', Inl e) \<Rightarrow> health_of c' i = FAILED
         | (c', Inr s) \<Rightarrow> health_of c' i = READY \<and>
             pd_projection_id ` set (pm_dependencies (pj_metadata p)) \<subseteq> health_ids c'))"
proof (cases "map_of (pr_projections (cc_registry cfg)) i")
  case None
  then show ?thesis by (simp add: compile_one_def compile_fuel_def platform_get_def)
next
  case (Some p)
  let ?n = "Suc (length (pr_projections (cc_registry cfg)))"
  let ?ds = "map pd_projection_id (pm_dependencies (pj_metadata p))"
  obtain c1 r where c1: "compile_deps (platform_compile ?n cfg pid) (set_health c i BUILDING) ?ds = Some (c1, r)"
    using compile_deps_enough by blast
  have get: "platform_get (cc_registry cfg) i = Inr p" using Some by (simp add: platform_get_def)
  note one = compile_one_step [OF get c1]
  show ?thesis
  proof (cases r)
    case (Inl e)
    with Some show ?thesis unfolding one by (simp add: health_of_set)
  next
    case (Inr u)
    have deps: "set ?ds \<subseteq> health_ids c1"
    proof -
      have "compile_deps (platform_compile ?n cfg pid) (set_health c i BUILDING) ?ds = Some (c1, Inr ())" using c1 Inr by simp
      then show ?thesis by (rule compiled_all)
    qed
    show ?thesis
    proof (cases "compile_body cfg c1 pid i p")
      case (Inl e)
      with Some Inr show ?thesis unfolding one by (simp add: health_of_set)
    next
      case (Inr q)
      then obtain c' s where q: "compile_body cfg c1 pid i p = Inr (c', s)" by (cases q) auto
      with \<open>r = Inr u\<close> have "compile_one cfg pid c i = (c', Inr s)" unfolding one by simp
      moreover have "pd_projection_id ` set (pm_dependencies (pj_metadata p)) \<subseteq> health_ids c'"
        using deps compile_body_ids [OF q] by auto
      ultimately show ?thesis using Some compile_body_ready [OF q] by simp
    qed
  qed
qed

text \<open>An optional dependency is not optional for the compiler.  If a registered projection depends, optionally
  or not, on one that is not registered and has no health recorded, compiling it always raises, although freezing
  such a registry succeeds when the dependency is optional.\<close>

theorem optional_dependency_needed:
  assumes "map_of (pr_projections (cc_registry cfg)) i = Some p" "d \<in> set (pm_dependencies (pj_metadata p))"
    and "pd_projection_id d \<notin> fst ` set (pr_projections (cc_registry cfg))" "pd_projection_id d \<notin> fst ` set (cp_health c)"
  shows "\<exists>c' e. compile_one cfg pid c i = (c', Inl e) \<and> health_of c' i = FAILED"
proof -
  let ?n = "length (pr_projections (cc_registry cfg))"
  have "i \<in> registered_ids cfg" using map_of_SomeD [OF assms(1)] by (force simp: registered_ids_def)
  then have "pd_projection_id d \<notin> health_ids (set_health c i BUILDING)" "pd_projection_id d \<notin> registered_ids cfg"
    using assms(3,4) unfolding health_ids_set by (auto simp: health_ids_def registered_ids_def)
  then obtain c1 e where c1: "compile_deps (platform_compile (Suc ?n) cfg pid) (set_health c i BUILDING)
      (map pd_projection_id (pm_dependencies (pj_metadata p))) = Some (c1, Inl e)"
    using compile_deps_missing [of "pd_projection_id d" "map pd_projection_id (pm_dependencies (pj_metadata p))"] assms(2)
    by fastforce
  have get: "platform_get (cc_registry cfg) i = Inr p" using assms(1) by (simp add: platform_get_def)
  have "compile_one cfg pid c i = (set_health c1 i FAILED, Inl e)" unfolding compile_one_step [OF get c1] by simp
  then show ?thesis by (simp add: health_of_set)
qed

section \<open>Witnesses\<close>

definition sample_projection :: "string \<Rightarrow> (string \<times> bool) list \<Rightarrow> nat Projection" where
  "sample_projection i ds = \<lparr>pj_metadata = \<lparr>pm_id = i, pm_version = 1, pm_schema_version = 1,
       pm_consumed_events = \<lparr>es_types = [], es_namespace = [], es_tags = []\<rparr>,
       pm_capabilities = \<lparr>pc_searchable = False, pc_snapshotable = True, pc_observable = True, pc_exportable = False,
         pc_mutable = False\<rparr>,
       pm_dependencies = map (\<lambda>(d, opt). \<lparr>pd_projection_id = d, pd_kind = STATE, pd_optional = opt\<rparr>) ds,
       pm_description = []\<rparr>,
     pj_reduce = (\<lambda>es s. Inr (length es)), pj_serialize = (\<lambda>s. []), pj_deserialize = (\<lambda>d. Inr 0)\<rparr>"

definition sample_platform :: "nat PlatformRegistry" where
  "sample_platform = \<lparr>pr_projections = [(''a'', sample_projection ''a'' [(''b'', False)]),
     (''b'', sample_projection ''b'' [(''c'', True)])], pr_frozen = False\<rparr>"

definition sample_config :: "nat CompilerConfig" where
  "sample_config = \<lparr>cc_host = sample_host, cc_manager = None, cc_registry = sample_platform, cc_uuid = (\<lambda>n. show_nat n)\<rparr>"

definition sample_state :: CompilerState where
  "sample_state = \<lparr>cp_store = store_init, cp_health = [], cp_drawn = 0\<rparr>"

theorem platform_freeze_iff_witness: "\<exists>R'. platform_freeze sample_platform [''b'', ''a''] = Inr R'"
proof -
  have "edges (dep_ids sample_platform) = {(''a'', ''b'')}"
    by (auto simp: edges_def dep_ids_def sample_platform_def sample_projection_def dict_has_def split: if_splits)
  moreover have "acyclic ({} :: (string \<times> string) set)" by (simp add: acyclic_def)
  ultimately have "acyclic (edges (dep_ids sample_platform))" by simp
  moreover have "set [''b'', ''a''] = fst ` set (pr_projections sample_platform)" by (auto simp: sample_platform_def)
  ultimately show ?thesis
    using platform_freeze_iff [of "[''b'', ''a'']" sample_platform]
    by (simp add: sample_platform_def platform_all_def sample_projection_def dict_has_def)
qed

theorem compile_terminates_witness:
  "platform_compile 9 sample_config ''p'' sample_state ''a'' = Some (compile_one sample_config ''p'' sample_state ''a'')"
  by (rule compile_terminates) (simp add: sample_config_def sample_platform_def)

theorem optional_dependency_needed_witness:
  "\<exists>c' e. compile_one sample_config ''p'' sample_state ''b'' = (c', Inl e) \<and> health_of c' ''b'' = FAILED"
  by (rule optional_dependency_needed [where p = "sample_projection ''b'' [(''c'', True)]" and
        d = "\<lparr>pd_projection_id = ''c'', pd_kind = STATE, pd_optional = True\<rparr>"])
    (simp_all add: sample_config_def sample_platform_def sample_projection_def sample_state_def)

end
