(* ===== verification/HeadProjection.thy ===== *)
theory HeadProjection
  imports ReplayEngine Platform
begin

text \<open>
  The cognitive head as a projection of the platform,
  \<open>rationalevault/cognitive_head/cognitive_head_projection.py\<close>, and \<open>compile_cognitive_head_v2\<close>
  of \<open>compiler.py\<close>, which compiles it through the platform.  The health that the projection object
  keeps for itself follows the calls of \<open>initialize\<close>, \<open>reduce\<close> and \<open>shutdown\<close>.
\<close>

section \<open>States from a head\<close>

definition head_to_project_state :: "CognitiveHead \<Rightarrow> ProjectState" where
  "head_to_project_state h =
     default_project\<lparr>ps_name := ch_project_name h, ps_goal := ch_project_goal h, ps_current_focus := ch_current_focus h\<rparr>"

definition by_id :: "('s \<Rightarrow> json) \<Rightarrow> 's list \<Rightarrow> (json, 's) dict result" where
  "by_id i xs = rfold (\<lambda>d s. rbind (hash_key (i s)) (\<lambda>k. Inr (AList.update k s d))) [] xs"

definition head_to_tasks_dict :: "CognitiveHead \<Rightarrow> tasks result" where
  "head_to_tasks_dict h = by_id ts_task_id (ch_active_tasks h)"

definition head_to_decisions_dict :: "CognitiveHead \<Rightarrow> decisions result" where
  "head_to_decisions_dict h = by_id ds_decision_id (ch_active_decisions h)"

definition head_to_questions_dict :: "CognitiveHead \<Rightarrow> questions result" where
  "head_to_questions_dict h = by_id qs_question_id (ch_open_questions h)"

section \<open>Reducing\<close>

definition build_cognitive_head :: "string \<Rightarrow> ProjectState \<Rightarrow> tasks \<Rightarrow> decisions \<Rightarrow> questions \<Rightarrow> EventRecord list \<Rightarrow>
    CognitiveHead result" where
  "build_cognitive_head pid ps all_tasks all_decisions all_questions events =
     build_head pid ps all_tasks all_decisions all_questions events all_tasks"

definition head_delta_states :: "CognitiveHead \<Rightarrow> EventRecord list \<Rightarrow> reducer_states result" where
  "head_delta_states h events =
     (let proj_state = project_reduce (Some (head_to_project_state h)) []
      in rbind (rbind (head_to_tasks_dict h) (\<lambda>d. task_reduce (Some d) [])) (\<lambda>all_tasks.
         rbind (rbind (head_to_decisions_dict h) (\<lambda>d. decision_reduce (Some d) [])) (\<lambda>all_decisions.
         rbind (rbind (head_to_questions_dict h) (\<lambda>d. question_reduce (Some d) [])) (\<lambda>all_questions.
         rbind (task_reduce (Some all_tasks) events) (\<lambda>all_tasks.
         rbind (decision_reduce (Some all_decisions) events) (\<lambda>all_decisions.
         rbind (question_reduce (Some all_questions) events) (\<lambda>all_questions.
         Inr (project_reduce (Some proj_state) events, all_tasks, all_decisions, all_questions))))))))"

definition head_reduce :: "EventRecord list \<Rightarrow> CognitiveHead option \<Rightarrow> CognitiveHead result" where
  "head_reduce events initial_state =
     (case initial_state of
        Some h \<Rightarrow>
          if events = [] then Inr h
          else rbind (head_delta_states h events) (\<lambda>(ps, ts, ds, qs).
            build_cognitive_head (er_project_id (hd events)) ps ts ds qs events)
      | None \<Rightarrow>
          rbind (full_states events) (\<lambda>(ps, ts, ds, qs).
            build_cognitive_head (if events = [] then ZERO_UUID else er_project_id (hd events)) ps ts ds qs events))"

text \<open>The health the projection object keeps.\<close>

datatype projection_call = Initialize | Reduce "EventRecord list" "CognitiveHead option" | Shutdown

definition own_health :: "ProjectionHealth \<Rightarrow> projection_call \<Rightarrow> ProjectionHealth" where
  "own_health s call =
     (case call of
        Initialize \<Rightarrow> INITIALIZING
      | Reduce es init \<Rightarrow> (case head_reduce es init of Inl _ \<Rightarrow> BUILDING | Inr _ \<Rightarrow> READY)
      | Shutdown \<Rightarrow> SHUTDOWN)"

section \<open>Serialization\<close>

definition head_serialize :: "CognitiveHead \<Rightarrow> payload" where
  "head_serialize h =
     [(''project_id'', JStr (ch_project_id h)), (''project_name'', ch_project_name h),
      (''project_goal'', ch_project_goal h), (''current_focus'', ch_current_focus h),
      (''ledger_version'', ch_ledger_version h), (''compiled_at'', ch_compiled_at h),
      (''active_tasks'', JList (map task_to_dict (ch_active_tasks h))),
      (''active_decisions'', JList (map decision_to_dict (ch_active_decisions h))),
      (''open_questions'', JList (map question_to_dict (ch_open_questions h))),
      (''blockers'', ch_blockers h)]"

text \<open>\<open>d.get(k, {}).items()\<close> and iteration over \<open>d.get(k, [])\<close>.\<close>

definition dict_items :: "payload \<Rightarrow> string \<Rightarrow> payload result" where
  "dict_items d k = as_dict (get_or d k (JDict []))"

definition list_items :: "payload \<Rightarrow> string \<Rightarrow> json list result" where
  "list_items d k = py_list (get_or d k (JList []))"

definition head_with :: "payload \<Rightarrow> TaskState list \<Rightarrow> DecisionState list \<Rightarrow> QuestionState list \<Rightarrow> CognitiveHead result" where
  "head_with d tasks decisions questions =
     rbind (uuid_of (get_or d ''project_id'' (JStr ZERO_UUID))) (\<lambda>pid.
     Inr \<lparr>ch_project_id = pid, ch_project_name = get_or d ''project_name'' (JStr []),
          ch_project_goal = get_or d ''project_goal'' (JStr []), ch_current_focus = get_or d ''current_focus'' (JStr []),
          ch_ledger_version = get_or d ''ledger_version'' (JInt 0), ch_compiled_at = get_or d ''compiled_at'' (JStr []),
          ch_active_tasks = tasks, ch_active_decisions = decisions, ch_open_questions = questions,
          ch_blockers = get_or d ''blockers'' (JList [])\<rparr>)"

definition payload_dict_to_head :: "payload \<Rightarrow> CognitiveHead result" where
  "payload_dict_to_head d =
     rbind (dict_items d ''tasks'') (\<lambda>td. rbind (rmap (\<lambda>(k, v). dict_to_task_state (JStr k) v) td) (\<lambda>tasks.
     rbind (dict_items d ''decisions'') (\<lambda>dd. rbind (rmap (\<lambda>(k, v). dict_to_decision_state (JStr k) v) dd) (\<lambda>decisions.
     rbind (dict_items d ''questions'') (\<lambda>qd. rbind (rmap (\<lambda>(k, v). dict_to_question_state (JStr k) v) qd) (\<lambda>questions.
     head_with d tasks decisions questions))))))"

definition serialized_dict_to_head :: "payload \<Rightarrow> CognitiveHead result" where
  "serialized_dict_to_head d =
     rbind (list_items d ''active_tasks'') (\<lambda>td. rbind (rmap (dict_to_task_state (JStr [])) td) (\<lambda>tasks.
     rbind (list_items d ''active_decisions'') (\<lambda>dd. rbind (rmap (dict_to_decision_state (JStr [])) dd) (\<lambda>decisions.
     rbind (list_items d ''open_questions'') (\<lambda>qd. rbind (rmap (dict_to_question_state (JStr [])) qd) (\<lambda>questions.
     head_with d tasks decisions questions))))))"

definition head_deserialize :: "payload \<Rightarrow> CognitiveHead result" where
  "head_deserialize d =
     (case map_of d ''tasks'' of
        Some (JDict _) \<Rightarrow> payload_dict_to_head d
      | _ \<Rightarrow> serialized_dict_to_head d)"

section \<open>The projection and the second compiler\<close>

definition head_metadata :: ProjectionMetadata where
  "head_metadata = \<lparr>pm_id = ''cognitive_head'', pm_version = 1, pm_schema_version = SCHEMA_VERSION,
     pm_consumed_events = \<lparr>es_types =
         [PROJECT_CREATED, PROJECT_GOAL_SET, PROJECT_FOCUS_CHANGED, TASK_CREATED, TASK_MUTATED, TASK_COMPLETED,
          TASK_PROGRESS_NOTED, DECISION_PROPOSED, DECISION_ACCEPTED, DECISION_SUPERSEDED, OPEN_QUESTION_RAISED,
          OPEN_QUESTION_RESOLVED, FACT_RECORDED], es_namespace = [], es_tags = []\<rparr>,
     pm_capabilities = \<lparr>pc_searchable = False, pc_snapshotable = True, pc_observable = True, pc_exportable = False,
       pc_mutable = False\<rparr>,
     pm_dependencies = [],
     pm_description = ''Append-only projection of agent task/decision/question state from the event stream.''\<rparr>"

definition head_projection :: "CognitiveHead Projection" where
  "head_projection = \<lparr>pj_metadata = head_metadata, pj_reduce = head_reduce, pj_serialize = head_serialize,
     pj_deserialize = head_deserialize\<rparr>"

definition compile_cognitive_head_v2 :: "host \<Rightarrow> int option \<Rightarrow> (nat \<Rightarrow> string) \<Rightarrow> SQLiteEventStore \<Rightarrow> string \<Rightarrow>
    SQLiteEventStore \<times> CognitiveHead result" where
  "compile_cognitive_head_v2 h manager uuid st pid =
     (case rbind (platform_register platform_registry head_projection) (\<lambda>R. platform_freeze R [''cognitive_head'']) of
        Inl e \<Rightarrow> (st, Inl e)
      | Inr R \<Rightarrow>
          (case compile_one \<lparr>cc_host = h, cc_manager = manager, cc_registry = R, cc_uuid = uuid\<rparr> pid
                  \<lparr>cp_store = st, cp_health = [], cp_drawn = 0\<rparr> ''cognitive_head'' of
             (c, r) \<Rightarrow> (cp_store c, r)))"

section \<open>Properties\<close>

lemma rmap_inverse: "(\<And>x. x \<in> set xs \<Longrightarrow> f (g x) = Inr x) \<Longrightarrow> rmap f (map g xs) = Inr xs"
  by (induction xs) auto

text \<open>A head survives serialization.  Deserializing the serialized form of a head with a UUID project id
  and list-valued list fields gives the head back.\<close>

theorem head_serialize_roundtrip:
  assumes "is_uuid_text (ch_project_id h)" "list_all list_typed (ch_active_tasks h)"
    and "list_all (\<lambda>q. is_list (qs_blocks_task_ids q)) (ch_open_questions h)"
  shows "head_deserialize (head_serialize h) = Inr h"
proof -
  have "rmap (dict_to_task_state (JStr [])) (map task_to_dict (ch_active_tasks h)) = Inr (ch_active_tasks h)"
    "rmap (dict_to_decision_state (JStr [])) (map decision_to_dict (ch_active_decisions h)) = Inr (ch_active_decisions h)"
    "rmap (dict_to_question_state (JStr [])) (map question_to_dict (ch_open_questions h)) = Inr (ch_open_questions h)"
    using assms(2,3) by (auto intro!: rmap_inverse task_dict_roundtrip decision_dict_roundtrip question_dict_roundtrip
        simp: list_all_iff)
  then show ?thesis using assms(1)
    by (simp add: head_deserialize_def head_serialize_def serialized_dict_to_head_def list_items_def head_with_def
        dict_get_def uuid_of_def)
qed

theorem head_serialize_roundtrip_witness:
  "\<exists>h. head_reduce sample_head_events None = Inr h \<and> head_deserialize (head_serialize h) = Inr h"
proof -
  have "rbind (head_reduce sample_head_events None) (\<lambda>h. Inr (is_uuid_text (ch_project_id h) \<and>
      list_all list_typed (ch_active_tasks h) \<and> list_all (\<lambda>q. is_list (qs_blocks_task_ids q)) (ch_open_questions h))) =
      (Inr True :: bool result)" by code_simp
  then obtain h where "head_reduce sample_head_events None = Inr h" "is_uuid_text (ch_project_id h)"
    "list_all list_typed (ch_active_tasks h)" "list_all (\<lambda>q. is_list (qs_blocks_task_ids q)) (ch_open_questions h)" by auto
  with head_serialize_roundtrip [of h] show ?thesis by blast
qed

text \<open>A project's stream begins with an event of the project.\<close>

lemma head_reduce_full:
  assumes "full_states events = Inr (ps, ts, ds, qs)" "\<forall>e \<in> set events. er_project_id e = pid"
  shows "head_reduce events None = build_cognitive_head pid ps ts ds qs events"
proof -
  have "events \<noteq> []" using assms(1) by (auto simp: full_states_def check_bootstrap_def)
  with assms show ?thesis by (simp add: head_reduce_def)
qed

lemma head_reduce_engine:
  assumes "\<forall>e \<in> set events. er_project_id e = pid"
  shows "head_reduce events None =
    rbind (full_states events) (\<lambda>s. rbind (head_of_states pid now s events) (\<lambda>h. Inr (h\<lparr>ch_compiled_at := JStr []\<rparr>)))"
proof (cases "full_states events")
  case (Inl e)
  then show ?thesis by (simp add: head_reduce_def)
next
  case (Inr s)
  obtain ps ts ds qs where s: "s = (ps, ts, ds, qs)" by (metis prod_cases4)
  have "ch_compiled_at h = JStr []" if "build_head pid ps ts ds qs events ts = Inr h" for h
    using that by (auto simp: build_head_def Let_def)
  then have "build_head pid ps ts ds qs events ts =
      rbind (build_head pid ps ts ds qs events ts) (\<lambda>h. Inr (h\<lparr>ch_compiled_at := JStr []\<rparr>))"
    by (cases "build_head pid ps ts ds qs events ts") auto
  then show ?thesis using Inr head_reduce_full [OF Inr [unfolded s] assms]
    by (simp add: s head_of_states_def rbind_assoc build_cognitive_head_def)
qed

lemma head_registry:
  "rbind (platform_register platform_registry head_projection) (\<lambda>R. platform_freeze R [''cognitive_head'']) =
     Inr \<lparr>pr_projections = [(''cognitive_head'', head_projection)], pr_frozen = True\<rparr>"
  by (simp add: platform_register_def platform_registry_def platform_freeze_def platform_validate_def
      check_required_def platform_all_def dep_ids_def head_projection_def head_metadata_def dict_has_def)

text \<open>The payload of a serialized head has the default sequence and versions, so saving it cannot leave the model.\<close>

lemma save_head_total:
  "\<exists>c'. platform_save_snapshot cfg c pid i head_projection s n = Inr c'"
proof -
  let ?p = "snapshot_from_dict (JDict (head_serialize s))"
  obtain p where p: "?p = Inr p" "sp_sequence p = JInt 0" "sp_schema_version p = JInt 1" "sp_projection_version p = JInt 1"
    by (auto simp: snapshot_from_dict_def head_serialize_def dict_get_def)
  have "\<exists>st'. refresh_snapshot (cc_host cfg) threshold (cp_store c) u pid i p n = Inr st'" for threshold u
    using p(2-4)
    by (auto simp: refresh_snapshot_def save_snapshot_def with_hash_def insert_snapshot_def fits64_def split: sum.splits if_splits)
  then show ?thesis using p(1)
    by (auto simp: platform_save_snapshot_def head_projection_def split: option.splits sum.splits) (metis Inl_Inr_False)
qed

lemma compile_body_head:
  assumes "manager_load cfg (cp_store c) pid i = Inr (rejected r)" "get_project_stream (cp_store c) pid 0 = Inr events"
  shows "rbind (compile_body cfg c pid i head_projection) (\<lambda>(_, s). Inr s) = head_reduce events None"
proof (cases "head_reduce events None")
  case (Inl e)
  then show ?thesis using assms by (simp add: compile_body_def rejected_def Let_def head_projection_def)
next
  case (Inr s)
  obtain c' where "platform_save_snapshot cfg c pid i head_projection s (get_latest_sequence (cp_store c) pid) = Inr c'"
    using save_head_total by blast
  then show ?thesis using assms Inr by (simp add: compile_body_def rejected_def Let_def head_projection_def)
qed

text \<open>The platform compiles the same head.  On every store the program can reach, with or without a snapshot
  manager, the compiler that goes through the projection platform answers what the replay engine answers on a full
  replay, exceptions included, except that the time of compilation is empty.\<close>

theorem v2_matches_engine:
  assumes "reachable h st" "\<forall>s. sha256_hex h s \<noteq> []" "store_inv st es"
  shows "snd (compile_cognitive_head_v2 h manager uuid st pid) =
    rbind (build_projection (Inr (rejected NOT_FOUND)) st pid now) (\<lambda>r. Inr ((rr_head r)\<lparr>ch_compiled_at := JStr []\<rparr>))"
proof -
  let ?events = "filter (\<lambda>e. er_project_id e = pid) es"
  let ?R = "\<lparr>pr_projections = [(''cognitive_head'', head_projection)], pr_frozen = True\<rparr>"
  let ?cfg = "\<lparr>cc_host = h, cc_manager = manager, cc_registry = ?R, cc_uuid = uuid\<rparr>"
  let ?c = "\<lparr>cp_store = st, cp_health = [], cp_drawn = 0\<rparr>"
  let ?c1 = "set_health ?c ''cognitive_head'' BUILDING"
  have stream: "get_project_stream st pid 0 = Inr ?events" by (rule sqlite_events.full_stream [OF assms(3)])
  have get: "platform_get (cc_registry ?cfg) ''cognitive_head'' = Inr head_projection" by (simp add: platform_get_def)
  have deps: "compile_deps (platform_compile (Suc (length (pr_projections (cc_registry ?cfg)))) ?cfg pid) ?c1
      (map pd_projection_id (pm_dependencies (pj_metadata head_projection))) = Some (?c1, Inr ())"
    by (simp add: head_projection_def head_metadata_def)
  have store: "cp_store ?c1 = st" by (simp add: set_health_def)
  have "\<exists>r. manager_load ?cfg st pid ''cognitive_head'' = Inr (rejected r)"
    using sqlite_load_rejected [OF assms(1,2)] by (auto simp: manager_load_def split: option.splits)
  then obtain r where "manager_load ?cfg (cp_store ?c1) pid ''cognitive_head'' = Inr (rejected r)" unfolding store by blast
  from compile_body_head [OF this] stream
  have "rbind (compile_body ?cfg ?c1 pid ''cognitive_head'' head_projection) (\<lambda>(_, s). Inr s) = head_reduce ?events None"
    unfolding store by blast
  then have "snd (compile_one ?cfg pid ?c ''cognitive_head'') = head_reduce ?events None"
    unfolding compile_one_step [OF get deps]
    by (cases "compile_body ?cfg ?c1 pid ''cognitive_head'' head_projection") auto
  then have "snd (compile_cognitive_head_v2 h manager uuid st pid) = head_reduce ?events None"
    unfolding compile_cognitive_head_v2_def head_registry by (auto split: prod.splits)
  also have "\<dots> = rbind (full_states ?events) (\<lambda>s. rbind (head_of_states pid now s ?events) (\<lambda>h. Inr (h\<lparr>ch_compiled_at := JStr []\<rparr>)))"
    by (rule head_reduce_engine) simp
  finally show ?thesis by (simp add: full_build [OF stream] rbind_assoc)
qed

theorem v2_matches_engine_witness:
  "snd (compile_cognitive_head_v2 sample_host (Some DEFAULT_POLICY) show_nat store_init ''p'') =
     rbind (build_projection (Inr (rejected NOT_FOUND)) store_init ''p'' ''now'') (\<lambda>r. Inr ((rr_head r)\<lparr>ch_compiled_at := JStr []\<rparr>))"
  by (rule v2_matches_engine [OF reachable.init _ store_inv_init]) (simp add: sample_host_digest)

text \<open>The projection breaks the platform's law of incrementality.  Replaying a prefix and then the rest from
  the resulting head is not replaying everything: a decision proposed in the prefix and accepted in the rest is
  missing from the head, which has lost the proposal.\<close>

theorem head_projection_not_incremental:
  "\<exists>A B. \<exists>full h delta. head_reduce (A @ B) None = Inr full \<and> head_reduce A None = Inr h \<and> head_reduce B (Some h) = Inr delta \<and>
     length (ch_active_decisions full) = 1 \<and> ch_active_decisions delta = []"
proof -
  let ?A = "sample_head_events @ [sample_reducer_event 7 DECISION_PROPOSED [(''decision_id'', JStr ''d'')]]"
  let ?B = "[sample_reducer_event 8 DECISION_ACCEPTED [(''decision_id'', JStr ''d'')]]"
  have "rbind (head_reduce (?A @ ?B) None) (\<lambda>h. Inr (length (ch_active_decisions h))) = (Inr 1 :: nat result)" by code_simp
  moreover have "rbind (rbind (head_reduce ?A None) (\<lambda>h. head_reduce ?B (Some h))) (\<lambda>h. Inr (length (ch_active_decisions h))) =
      (Inr 0 :: nat result)" by code_simp
  ultimately show ?thesis by (intro exI [of _ ?A] exI [of _ ?B]) auto
qed

end
