(* ===== verification/WorkspaceModels.thy ===== *)
theory WorkspaceModels
  imports Canonical
begin

text \<open>
  The contracts of workspaces: the models of \<open>rationalevault/workspace/models.py\<close> and the event
  payloads of \<open>rationalevault/workspace/events.py\<close>, with their dictionaries.  A dictionary whose
  values are not of the annotated types leaves the model (\<open>Untyped\<close>).
\<close>

section \<open>Fields of dictionaries\<close>

fun as_str_option :: "json \<Rightarrow> string option result" where
  "as_str_option JNull = Inr None"
| "as_str_option (JStr s) = Inr (Some s)"
| "as_str_option v = Inl (Untyped ''str or None'')"

fun as_strs :: "json \<Rightarrow> string list result" where
  "as_strs (JList vs) = rmap as_str vs"
| "as_strs v = Inl (Untyped ''list'')"

definition json_of_option :: "string option \<Rightarrow> json" where
  "json_of_option x = (case x of None \<Rightarrow> JNull | Some s \<Rightarrow> JStr s)"

lemma as_simps [simp]:
  "as_str_option (json_of_option x) = Inr x"
  "rmap as_str (map JStr xs) = Inr xs"
  by (cases x) (simp_all add: json_of_option_def rmap_map rmap_Inr [where g = id])

section \<open>Identifiers\<close>

text \<open>
  \<open>PREFIX-\<close> and the first eight hexadecimal digits of a SHA-256, in upper case.  \<open>upper\<close> acts
  on ASCII letters, the only letters of a hexadecimal text.
\<close>

definition ascii_upper :: "string \<Rightarrow> string" where
  "ascii_upper s = map (\<lambda>c. if CHR ''a'' \<le> c \<and> c \<le> CHR ''z'' then char_of (of_char c - 32 :: nat) else c) s"

definition short_id :: "host \<Rightarrow> string \<Rightarrow> string list \<Rightarrow> string" where
  "short_id h prefix parts = prefix @ ascii_upper (take 8 (sha256_hex h (utf8_encode (join '':'' parts))))"

section \<open>Enums (models.py)\<close>

datatype WorkspaceStatus = ACTIVE | PAUSED | ARCHIVED

fun workspace_status_value :: "WorkspaceStatus \<Rightarrow> string" where
  "workspace_status_value ACTIVE = ''ACTIVE''"
| "workspace_status_value PAUSED = ''PAUSED''"
| "workspace_status_value ARCHIVED = ''ARCHIVED''"

definition workspace_status_of :: "json \<Rightarrow> WorkspaceStatus result" where
  "workspace_status_of v = (case find (\<lambda>t. JStr (workspace_status_value t) = v) [ACTIVE, PAUSED, ARCHIVED] of
      None \<Rightarrow> Inl (ValueError ''not a valid WorkspaceStatus'') | Some t \<Rightarrow> Inr t)"

datatype AgentRole = PRIMARY | ADVISOR | OBSERVER

fun role_value :: "AgentRole \<Rightarrow> string" where
  "role_value PRIMARY = ''PRIMARY''"
| "role_value ADVISOR = ''ADVISOR''"
| "role_value OBSERVER = ''OBSERVER''"

definition role_of :: "json \<Rightarrow> AgentRole result" where
  "role_of v = (case find (\<lambda>t. JStr (role_value t) = v) [PRIMARY, ADVISOR, OBSERVER] of
      None \<Rightarrow> Inl (ValueError ''not a valid AgentRole'') | Some t \<Rightarrow> Inr t)"

datatype SessionStatus = OPEN | CLOSED | SUSPENDED

fun session_status_value :: "SessionStatus \<Rightarrow> string" where
  "session_status_value OPEN = ''OPEN''"
| "session_status_value CLOSED = ''CLOSED''"
| "session_status_value SUSPENDED = ''SUSPENDED''"

definition session_status_of :: "json \<Rightarrow> SessionStatus result" where
  "session_status_of v = (case find (\<lambda>t. JStr (session_status_value t) = v) [OPEN, CLOSED, SUSPENDED] of
      None \<Rightarrow> Inl (ValueError ''not a valid SessionStatus'') | Some t \<Rightarrow> Inr t)"

section \<open>Models (models.py)\<close>

record Workspace =
  w_workspace_id :: string
  w_name :: string
  w_description :: string
  w_status :: WorkspaceStatus
  w_agent_ids :: "string list"
  w_project_ids :: "string list"
  w_created_at :: string
  w_updated_at :: string

definition workspace_to_dict :: "Workspace \<Rightarrow> payload" where
  "workspace_to_dict x = [
     (''workspace_id'', JStr (w_workspace_id x)), (''name'', JStr (w_name x)),
     (''description'', JStr (w_description x)),
     (''status'', JStr (workspace_status_value (w_status x))),
     (''agent_ids'', JList (map JStr (w_agent_ids x))),
     (''project_ids'', JList (map JStr (w_project_ids x))), (''created_at'', JStr (w_created_at x)),
     (''updated_at'', JStr (w_updated_at x))]"

definition workspace_from_dict :: "payload \<Rightarrow> Workspace result" where
  "workspace_from_dict d =
     rbind (rbind (dict_item d ''workspace_id'') as_str) (\<lambda>workspace_id.
     rbind (rbind (dict_item d ''name'') as_str) (\<lambda>name.
     rbind (as_str (get_or d ''description'' (JStr []))) (\<lambda>description.
     rbind (rbind (dict_item d ''status'') workspace_status_of) (\<lambda>status.
     rbind (as_strs (get_or d ''agent_ids'' (JList []))) (\<lambda>agent_ids.
     rbind (as_strs (get_or d ''project_ids'' (JList []))) (\<lambda>project_ids.
     rbind (rbind (dict_item d ''created_at'') as_str) (\<lambda>created_at.
     rbind (rbind (dict_item d ''updated_at'') as_str) (\<lambda>updated_at.
     Inr \<lparr>w_workspace_id = workspace_id, w_name = name, w_description = description, w_status = status,
       w_agent_ids = agent_ids, w_project_ids = project_ids, w_created_at = created_at,
       w_updated_at = updated_at\<rparr>))))))))"

record WorkspaceSnapshot =
  wn_snapshot_id :: string
  wn_workspace_id :: string
  wn_version :: int
  wn_active_decisions :: "string list"
  wn_running_executions :: "string list"
  wn_pending_reflections :: "string list"
  wn_active_knowledge :: "string list"
  wn_open_promotions :: "string list"
  wn_planner_policy_id :: "string option"
  wn_scheduler_jobs :: "string list"
  wn_created_at :: string

definition workspace_snapshot_to_dict :: "WorkspaceSnapshot \<Rightarrow> payload" where
  "workspace_snapshot_to_dict x = [
     (''snapshot_id'', JStr (wn_snapshot_id x)), (''workspace_id'', JStr (wn_workspace_id x)),
     (''version'', JInt (wn_version x)),
     (''active_decisions'', JList (map JStr (wn_active_decisions x))),
     (''running_executions'', JList (map JStr (wn_running_executions x))),
     (''pending_reflections'', JList (map JStr (wn_pending_reflections x))),
     (''active_knowledge'', JList (map JStr (wn_active_knowledge x))),
     (''open_promotions'', JList (map JStr (wn_open_promotions x))),
     (''planner_policy_id'', json_of_option (wn_planner_policy_id x)),
     (''scheduler_jobs'', JList (map JStr (wn_scheduler_jobs x))),
     (''created_at'', JStr (wn_created_at x))]"

definition workspace_snapshot_from_dict :: "payload \<Rightarrow> WorkspaceSnapshot result" where
  "workspace_snapshot_from_dict d =
     rbind (rbind (dict_item d ''snapshot_id'') as_str) (\<lambda>snapshot_id.
     rbind (rbind (dict_item d ''workspace_id'') as_str) (\<lambda>workspace_id.
     rbind (as_int (get_or d ''version'' (JInt 1))) (\<lambda>version.
     rbind (as_strs (get_or d ''active_decisions'' (JList []))) (\<lambda>active_decisions.
     rbind (as_strs (get_or d ''running_executions'' (JList []))) (\<lambda>running_executions.
     rbind (as_strs (get_or d ''pending_reflections'' (JList []))) (\<lambda>pending_reflections.
     rbind (as_strs (get_or d ''active_knowledge'' (JList []))) (\<lambda>active_knowledge.
     rbind (as_strs (get_or d ''open_promotions'' (JList []))) (\<lambda>open_promotions.
     rbind (as_str_option (get_or_none d ''planner_policy_id'')) (\<lambda>planner_policy_id.
     rbind (as_strs (get_or d ''scheduler_jobs'' (JList []))) (\<lambda>scheduler_jobs.
     rbind (rbind (dict_item d ''created_at'') as_str) (\<lambda>created_at.
     Inr \<lparr>wn_snapshot_id = snapshot_id, wn_workspace_id = workspace_id, wn_version = version,
       wn_active_decisions = active_decisions, wn_running_executions = running_executions,
       wn_pending_reflections = pending_reflections, wn_active_knowledge = active_knowledge,
       wn_open_promotions = open_promotions, wn_planner_policy_id = planner_policy_id,
       wn_scheduler_jobs = scheduler_jobs, wn_created_at = created_at\<rparr>)))))))))))"

record WorkspaceSession =
  wse_session_id :: string
  wse_workspace_id :: string
  wse_agent_id :: string
  wse_agent_role :: AgentRole
  wse_status :: SessionStatus
  wse_started_at :: string
  wse_ended_at :: "string option"
  wse_snapshot_id :: "string option"

definition session_to_dict :: "WorkspaceSession \<Rightarrow> payload" where
  "session_to_dict x = [
     (''session_id'', JStr (wse_session_id x)), (''workspace_id'', JStr (wse_workspace_id x)),
     (''agent_id'', JStr (wse_agent_id x)), (''agent_role'', JStr (role_value (wse_agent_role x))),
     (''status'', JStr (session_status_value (wse_status x))),
     (''started_at'', JStr (wse_started_at x)), (''ended_at'', json_of_option (wse_ended_at x)),
     (''snapshot_id'', json_of_option (wse_snapshot_id x))]"

definition session_from_dict :: "payload \<Rightarrow> WorkspaceSession result" where
  "session_from_dict d =
     rbind (rbind (dict_item d ''session_id'') as_str) (\<lambda>session_id.
     rbind (rbind (dict_item d ''workspace_id'') as_str) (\<lambda>workspace_id.
     rbind (rbind (dict_item d ''agent_id'') as_str) (\<lambda>agent_id.
     rbind (rbind (dict_item d ''agent_role'') role_of) (\<lambda>agent_role.
     rbind (rbind (dict_item d ''status'') session_status_of) (\<lambda>status.
     rbind (rbind (dict_item d ''started_at'') as_str) (\<lambda>started_at.
     rbind (as_str_option (get_or_none d ''ended_at'')) (\<lambda>ended_at.
     rbind (as_str_option (get_or_none d ''snapshot_id'')) (\<lambda>snapshot_id.
     Inr \<lparr>wse_session_id = session_id, wse_workspace_id = workspace_id, wse_agent_id = agent_id,
       wse_agent_role = agent_role, wse_status = status, wse_started_at = started_at,
       wse_ended_at = ended_at, wse_snapshot_id = snapshot_id\<rparr>))))))))"

record WorkspaceContext =
  wc_context_id :: string
  wc_session_id :: string
  wc_snapshot_id :: string
  wc_agent_id :: string
  wc_goals :: "string list"
  wc_open_decisions :: "string list"
  wc_running_executions :: "string list"
  wc_pending_reflections :: "string list"
  wc_recent_knowledge :: "string list"
  wc_planner_policy_summary :: string
  wc_memory_focus :: "string list"
  wc_lineage_summary :: "string list"
  wc_created_at :: string

definition context_to_dict :: "WorkspaceContext \<Rightarrow> payload" where
  "context_to_dict x = [
     (''context_id'', JStr (wc_context_id x)), (''session_id'', JStr (wc_session_id x)),
     (''snapshot_id'', JStr (wc_snapshot_id x)), (''agent_id'', JStr (wc_agent_id x)),
     (''goals'', JList (map JStr (wc_goals x))),
     (''open_decisions'', JList (map JStr (wc_open_decisions x))),
     (''running_executions'', JList (map JStr (wc_running_executions x))),
     (''pending_reflections'', JList (map JStr (wc_pending_reflections x))),
     (''recent_knowledge'', JList (map JStr (wc_recent_knowledge x))),
     (''planner_policy_summary'', JStr (wc_planner_policy_summary x)),
     (''memory_focus'', JList (map JStr (wc_memory_focus x))),
     (''lineage_summary'', JList (map JStr (wc_lineage_summary x))),
     (''created_at'', JStr (wc_created_at x))]"

definition context_from_dict :: "payload \<Rightarrow> WorkspaceContext result" where
  "context_from_dict d =
     rbind (rbind (dict_item d ''context_id'') as_str) (\<lambda>context_id.
     rbind (rbind (dict_item d ''session_id'') as_str) (\<lambda>session_id.
     rbind (rbind (dict_item d ''snapshot_id'') as_str) (\<lambda>snapshot_id.
     rbind (rbind (dict_item d ''agent_id'') as_str) (\<lambda>agent_id.
     rbind (as_strs (get_or d ''goals'' (JList []))) (\<lambda>goals.
     rbind (as_strs (get_or d ''open_decisions'' (JList []))) (\<lambda>open_decisions.
     rbind (as_strs (get_or d ''running_executions'' (JList []))) (\<lambda>running_executions.
     rbind (as_strs (get_or d ''pending_reflections'' (JList []))) (\<lambda>pending_reflections.
     rbind (as_strs (get_or d ''recent_knowledge'' (JList []))) (\<lambda>recent_knowledge.
     rbind (as_str (get_or d ''planner_policy_summary'' (JStr []))) (\<lambda>planner_policy_summary.
     rbind (as_strs (get_or d ''memory_focus'' (JList []))) (\<lambda>memory_focus.
     rbind (as_strs (get_or d ''lineage_summary'' (JList []))) (\<lambda>lineage_summary.
     rbind (rbind (dict_item d ''created_at'') as_str) (\<lambda>created_at.
     Inr \<lparr>wc_context_id = context_id, wc_session_id = session_id, wc_snapshot_id = snapshot_id,
       wc_agent_id = agent_id, wc_goals = goals, wc_open_decisions = open_decisions,
       wc_running_executions = running_executions, wc_pending_reflections = pending_reflections,
       wc_recent_knowledge = recent_knowledge, wc_planner_policy_summary = planner_policy_summary,
       wc_memory_focus = memory_focus, wc_lineage_summary = lineage_summary, wc_created_at = created_at\<rparr>)))))))))))))"

record WorkspacePackage =
  wp_package_id :: string
  wp_workspace_id :: string
  wp_context_id :: string
  wp_snapshot_id :: string
  wp_agent_id :: string
  wp_goals :: "string list"
  wp_open_decisions :: "string list"
  wp_running_executions :: "string list"
  wp_pending_reflections :: "string list"
  wp_planner_policy_summary :: string
  wp_recent_knowledge :: "string list"
  wp_memory_focus :: "string list"
  wp_lineage_paths :: "string list"
  wp_exported_at :: string

definition package_to_dict :: "WorkspacePackage \<Rightarrow> payload" where
  "package_to_dict x = [
     (''package_id'', JStr (wp_package_id x)), (''workspace_id'', JStr (wp_workspace_id x)),
     (''context_id'', JStr (wp_context_id x)), (''snapshot_id'', JStr (wp_snapshot_id x)),
     (''agent_id'', JStr (wp_agent_id x)), (''goals'', JList (map JStr (wp_goals x))),
     (''open_decisions'', JList (map JStr (wp_open_decisions x))),
     (''running_executions'', JList (map JStr (wp_running_executions x))),
     (''pending_reflections'', JList (map JStr (wp_pending_reflections x))),
     (''planner_policy_summary'', JStr (wp_planner_policy_summary x)),
     (''recent_knowledge'', JList (map JStr (wp_recent_knowledge x))),
     (''memory_focus'', JList (map JStr (wp_memory_focus x))),
     (''lineage_paths'', JList (map JStr (wp_lineage_paths x))),
     (''exported_at'', JStr (wp_exported_at x))]"

definition package_from_dict :: "payload \<Rightarrow> WorkspacePackage result" where
  "package_from_dict d =
     rbind (rbind (dict_item d ''package_id'') as_str) (\<lambda>package_id.
     rbind (rbind (dict_item d ''workspace_id'') as_str) (\<lambda>workspace_id.
     rbind (rbind (dict_item d ''context_id'') as_str) (\<lambda>context_id.
     rbind (rbind (dict_item d ''snapshot_id'') as_str) (\<lambda>snapshot_id.
     rbind (rbind (dict_item d ''agent_id'') as_str) (\<lambda>agent_id.
     rbind (as_strs (get_or d ''goals'' (JList []))) (\<lambda>goals.
     rbind (as_strs (get_or d ''open_decisions'' (JList []))) (\<lambda>open_decisions.
     rbind (as_strs (get_or d ''running_executions'' (JList []))) (\<lambda>running_executions.
     rbind (as_strs (get_or d ''pending_reflections'' (JList []))) (\<lambda>pending_reflections.
     rbind (as_str (get_or d ''planner_policy_summary'' (JStr []))) (\<lambda>planner_policy_summary.
     rbind (as_strs (get_or d ''recent_knowledge'' (JList []))) (\<lambda>recent_knowledge.
     rbind (as_strs (get_or d ''memory_focus'' (JList []))) (\<lambda>memory_focus.
     rbind (as_strs (get_or d ''lineage_paths'' (JList []))) (\<lambda>lineage_paths.
     rbind (rbind (dict_item d ''exported_at'') as_str) (\<lambda>exported_at.
     Inr \<lparr>wp_package_id = package_id, wp_workspace_id = workspace_id, wp_context_id = context_id,
       wp_snapshot_id = snapshot_id, wp_agent_id = agent_id, wp_goals = goals,
       wp_open_decisions = open_decisions, wp_running_executions = running_executions,
       wp_pending_reflections = pending_reflections,
       wp_planner_policy_summary = planner_policy_summary, wp_recent_knowledge = recent_knowledge,
       wp_memory_focus = memory_focus, wp_lineage_paths = lineage_paths, wp_exported_at = exported_at\<rparr>))))))))))))))"

section \<open>Generated identifiers (models.py)\<close>

definition generate_workspace_id :: "host \<Rightarrow> string \<Rightarrow> string \<Rightarrow> string" where
  "generate_workspace_id h name created_at = short_id h ''WS-'' [''workspace'', name, created_at]"

definition generate_snapshot_id :: "host \<Rightarrow> string \<Rightarrow> string \<Rightarrow> string" where
  "generate_snapshot_id h workspace_id created_at = short_id h ''WSSNP-'' [''workspace_snapshot'', workspace_id, created_at]"

definition generate_session_id :: "host \<Rightarrow> string \<Rightarrow> string \<Rightarrow> string \<Rightarrow> string" where
  "generate_session_id h workspace_id agent_id created_at =
     short_id h ''WSSSN-'' [''workspace_session'', workspace_id, agent_id, created_at]"

definition generate_context_id :: "host \<Rightarrow> string \<Rightarrow> string \<Rightarrow> string" where
  "generate_context_id h session_id created_at = short_id h ''WSCTX-'' [''workspace_context'', session_id, created_at]"

definition generate_package_id :: "host \<Rightarrow> string \<Rightarrow> string \<Rightarrow> string \<Rightarrow> string" where
  "generate_package_id h workspace_id agent_id created_at =
     short_id h ''WSPKG-'' [''workspace_package'', workspace_id, agent_id, created_at]"

section \<open>Event payloads (events.py)\<close>

definition SCHEMA_VERSION :: string where "SCHEMA_VERSION = ''1.0''"

record WorkspaceCreatedPayload =
  wcp_schema_version :: string
  wcp_workspace_id :: string
  wcp_name :: string
  wcp_description :: string
  wcp_agent_ids :: "string list"
  wcp_project_ids :: "string list"
  wcp_created_at :: string

definition created_payload_to_dict :: "WorkspaceCreatedPayload \<Rightarrow> payload" where
  "created_payload_to_dict x = [
     (''schema_version'', JStr (wcp_schema_version x)), (''workspace_id'', JStr (wcp_workspace_id x)),
     (''name'', JStr (wcp_name x)), (''description'', JStr (wcp_description x)),
     (''agent_ids'', JList (map JStr (wcp_agent_ids x))),
     (''project_ids'', JList (map JStr (wcp_project_ids x))), (''created_at'', JStr (wcp_created_at x))]"

definition created_payload_from_dict :: "payload \<Rightarrow> WorkspaceCreatedPayload result" where
  "created_payload_from_dict d =
     rbind (as_str (get_or d ''schema_version'' (JStr SCHEMA_VERSION))) (\<lambda>schema_version.
     rbind (rbind (dict_item d ''workspace_id'') as_str) (\<lambda>workspace_id.
     rbind (rbind (dict_item d ''name'') as_str) (\<lambda>name.
     rbind (as_str (get_or d ''description'' (JStr []))) (\<lambda>description.
     rbind (as_strs (get_or d ''agent_ids'' (JList []))) (\<lambda>agent_ids.
     rbind (as_strs (get_or d ''project_ids'' (JList []))) (\<lambda>project_ids.
     rbind (rbind (dict_item d ''created_at'') as_str) (\<lambda>created_at.
     Inr \<lparr>wcp_schema_version = schema_version, wcp_workspace_id = workspace_id, wcp_name = name,
       wcp_description = description, wcp_agent_ids = agent_ids, wcp_project_ids = project_ids,
       wcp_created_at = created_at\<rparr>)))))))"

record WorkspaceSnapshotTakenPayload =
  wtp_schema_version :: string
  wtp_snapshot_id :: string
  wtp_workspace_id :: string
  wtp_version :: int
  wtp_active_decisions :: "string list"
  wtp_running_executions :: "string list"
  wtp_pending_reflections :: "string list"
  wtp_active_knowledge :: "string list"
  wtp_open_promotions :: "string list"
  wtp_planner_policy_id :: "string option"
  wtp_scheduler_jobs :: "string list"
  wtp_created_at :: string

definition snapshot_payload_to_dict :: "WorkspaceSnapshotTakenPayload \<Rightarrow> payload" where
  "snapshot_payload_to_dict x = [
     (''schema_version'', JStr (wtp_schema_version x)), (''snapshot_id'', JStr (wtp_snapshot_id x)),
     (''workspace_id'', JStr (wtp_workspace_id x)), (''version'', JInt (wtp_version x)),
     (''active_decisions'', JList (map JStr (wtp_active_decisions x))),
     (''running_executions'', JList (map JStr (wtp_running_executions x))),
     (''pending_reflections'', JList (map JStr (wtp_pending_reflections x))),
     (''active_knowledge'', JList (map JStr (wtp_active_knowledge x))),
     (''open_promotions'', JList (map JStr (wtp_open_promotions x))),
     (''planner_policy_id'', json_of_option (wtp_planner_policy_id x)),
     (''scheduler_jobs'', JList (map JStr (wtp_scheduler_jobs x))),
     (''created_at'', JStr (wtp_created_at x))]"

definition snapshot_payload_from_dict :: "payload \<Rightarrow> WorkspaceSnapshotTakenPayload result" where
  "snapshot_payload_from_dict d =
     rbind (as_str (get_or d ''schema_version'' (JStr SCHEMA_VERSION))) (\<lambda>schema_version.
     rbind (rbind (dict_item d ''snapshot_id'') as_str) (\<lambda>snapshot_id.
     rbind (rbind (dict_item d ''workspace_id'') as_str) (\<lambda>workspace_id.
     rbind (as_int (get_or d ''version'' (JInt 1))) (\<lambda>version.
     rbind (as_strs (get_or d ''active_decisions'' (JList []))) (\<lambda>active_decisions.
     rbind (as_strs (get_or d ''running_executions'' (JList []))) (\<lambda>running_executions.
     rbind (as_strs (get_or d ''pending_reflections'' (JList []))) (\<lambda>pending_reflections.
     rbind (as_strs (get_or d ''active_knowledge'' (JList []))) (\<lambda>active_knowledge.
     rbind (as_strs (get_or d ''open_promotions'' (JList []))) (\<lambda>open_promotions.
     rbind (as_str_option (get_or_none d ''planner_policy_id'')) (\<lambda>planner_policy_id.
     rbind (as_strs (get_or d ''scheduler_jobs'' (JList []))) (\<lambda>scheduler_jobs.
     rbind (rbind (dict_item d ''created_at'') as_str) (\<lambda>created_at.
     Inr \<lparr>wtp_schema_version = schema_version, wtp_snapshot_id = snapshot_id,
       wtp_workspace_id = workspace_id, wtp_version = version, wtp_active_decisions = active_decisions,
       wtp_running_executions = running_executions, wtp_pending_reflections = pending_reflections,
       wtp_active_knowledge = active_knowledge, wtp_open_promotions = open_promotions,
       wtp_planner_policy_id = planner_policy_id, wtp_scheduler_jobs = scheduler_jobs,
       wtp_created_at = created_at\<rparr>))))))))))))"

record WorkspaceSessionOpenedPayload =
  wop_schema_version :: string
  wop_session_id :: string
  wop_workspace_id :: string
  wop_agent_id :: string
  wop_agent_role :: string
  wop_snapshot_id :: "string option"
  wop_created_at :: string

definition session_payload_to_dict :: "WorkspaceSessionOpenedPayload \<Rightarrow> payload" where
  "session_payload_to_dict x = [
     (''schema_version'', JStr (wop_schema_version x)), (''session_id'', JStr (wop_session_id x)),
     (''workspace_id'', JStr (wop_workspace_id x)), (''agent_id'', JStr (wop_agent_id x)),
     (''agent_role'', JStr (wop_agent_role x)), (''snapshot_id'', json_of_option (wop_snapshot_id x)),
     (''created_at'', JStr (wop_created_at x))]"

definition session_payload_from_dict :: "payload \<Rightarrow> WorkspaceSessionOpenedPayload result" where
  "session_payload_from_dict d =
     rbind (as_str (get_or d ''schema_version'' (JStr SCHEMA_VERSION))) (\<lambda>schema_version.
     rbind (rbind (dict_item d ''session_id'') as_str) (\<lambda>session_id.
     rbind (rbind (dict_item d ''workspace_id'') as_str) (\<lambda>workspace_id.
     rbind (rbind (dict_item d ''agent_id'') as_str) (\<lambda>agent_id.
     rbind (rbind (dict_item d ''agent_role'') as_str) (\<lambda>agent_role.
     rbind (as_str_option (get_or_none d ''snapshot_id'')) (\<lambda>snapshot_id.
     rbind (rbind (dict_item d ''created_at'') as_str) (\<lambda>created_at.
     Inr \<lparr>wop_schema_version = schema_version, wop_session_id = session_id,
       wop_workspace_id = workspace_id, wop_agent_id = agent_id, wop_agent_role = agent_role,
       wop_snapshot_id = snapshot_id, wop_created_at = created_at\<rparr>)))))))"

record WorkspaceContextCompiledPayload =
  wxp_schema_version :: string
  wxp_context_id :: string
  wxp_session_id :: string
  wxp_snapshot_id :: string
  wxp_agent_id :: string
  wxp_goals :: "string list"
  wxp_open_decisions :: "string list"
  wxp_running_executions :: "string list"
  wxp_pending_reflections :: "string list"
  wxp_recent_knowledge :: "string list"
  wxp_planner_policy_summary :: string
  wxp_memory_focus :: "string list"
  wxp_lineage_summary :: "string list"
  wxp_created_at :: string

definition context_payload_to_dict :: "WorkspaceContextCompiledPayload \<Rightarrow> payload" where
  "context_payload_to_dict x = [
     (''schema_version'', JStr (wxp_schema_version x)), (''context_id'', JStr (wxp_context_id x)),
     (''session_id'', JStr (wxp_session_id x)), (''snapshot_id'', JStr (wxp_snapshot_id x)),
     (''agent_id'', JStr (wxp_agent_id x)), (''goals'', JList (map JStr (wxp_goals x))),
     (''open_decisions'', JList (map JStr (wxp_open_decisions x))),
     (''running_executions'', JList (map JStr (wxp_running_executions x))),
     (''pending_reflections'', JList (map JStr (wxp_pending_reflections x))),
     (''recent_knowledge'', JList (map JStr (wxp_recent_knowledge x))),
     (''planner_policy_summary'', JStr (wxp_planner_policy_summary x)),
     (''memory_focus'', JList (map JStr (wxp_memory_focus x))),
     (''lineage_summary'', JList (map JStr (wxp_lineage_summary x))),
     (''created_at'', JStr (wxp_created_at x))]"

definition context_payload_from_dict :: "payload \<Rightarrow> WorkspaceContextCompiledPayload result" where
  "context_payload_from_dict d =
     rbind (as_str (get_or d ''schema_version'' (JStr SCHEMA_VERSION))) (\<lambda>schema_version.
     rbind (rbind (dict_item d ''context_id'') as_str) (\<lambda>context_id.
     rbind (rbind (dict_item d ''session_id'') as_str) (\<lambda>session_id.
     rbind (rbind (dict_item d ''snapshot_id'') as_str) (\<lambda>snapshot_id.
     rbind (rbind (dict_item d ''agent_id'') as_str) (\<lambda>agent_id.
     rbind (as_strs (get_or d ''goals'' (JList []))) (\<lambda>goals.
     rbind (as_strs (get_or d ''open_decisions'' (JList []))) (\<lambda>open_decisions.
     rbind (as_strs (get_or d ''running_executions'' (JList []))) (\<lambda>running_executions.
     rbind (as_strs (get_or d ''pending_reflections'' (JList []))) (\<lambda>pending_reflections.
     rbind (as_strs (get_or d ''recent_knowledge'' (JList []))) (\<lambda>recent_knowledge.
     rbind (as_str (get_or d ''planner_policy_summary'' (JStr []))) (\<lambda>planner_policy_summary.
     rbind (as_strs (get_or d ''memory_focus'' (JList []))) (\<lambda>memory_focus.
     rbind (as_strs (get_or d ''lineage_summary'' (JList []))) (\<lambda>lineage_summary.
     rbind (rbind (dict_item d ''created_at'') as_str) (\<lambda>created_at.
     Inr \<lparr>wxp_schema_version = schema_version, wxp_context_id = context_id, wxp_session_id = session_id,
       wxp_snapshot_id = snapshot_id, wxp_agent_id = agent_id, wxp_goals = goals,
       wxp_open_decisions = open_decisions, wxp_running_executions = running_executions,
       wxp_pending_reflections = pending_reflections, wxp_recent_knowledge = recent_knowledge,
       wxp_planner_policy_summary = planner_policy_summary, wxp_memory_focus = memory_focus,
       wxp_lineage_summary = lineage_summary, wxp_created_at = created_at\<rparr>))))))))))))))"

record WorkspacePackageExportedPayload =
  wep_schema_version :: string
  wep_package_id :: string
  wep_workspace_id :: string
  wep_context_id :: string
  wep_snapshot_id :: string
  wep_agent_id :: string
  wep_lineage_paths :: "string list"
  wep_exported_at :: string

definition package_payload_to_dict :: "WorkspacePackageExportedPayload \<Rightarrow> payload" where
  "package_payload_to_dict x = [
     (''schema_version'', JStr (wep_schema_version x)), (''package_id'', JStr (wep_package_id x)),
     (''workspace_id'', JStr (wep_workspace_id x)), (''context_id'', JStr (wep_context_id x)),
     (''snapshot_id'', JStr (wep_snapshot_id x)), (''agent_id'', JStr (wep_agent_id x)),
     (''lineage_paths'', JList (map JStr (wep_lineage_paths x))),
     (''exported_at'', JStr (wep_exported_at x))]"

definition package_payload_from_dict :: "payload \<Rightarrow> WorkspacePackageExportedPayload result" where
  "package_payload_from_dict d =
     rbind (as_str (get_or d ''schema_version'' (JStr SCHEMA_VERSION))) (\<lambda>schema_version.
     rbind (rbind (dict_item d ''package_id'') as_str) (\<lambda>package_id.
     rbind (rbind (dict_item d ''workspace_id'') as_str) (\<lambda>workspace_id.
     rbind (rbind (dict_item d ''context_id'') as_str) (\<lambda>context_id.
     rbind (rbind (dict_item d ''snapshot_id'') as_str) (\<lambda>snapshot_id.
     rbind (rbind (dict_item d ''agent_id'') as_str) (\<lambda>agent_id.
     rbind (as_strs (get_or d ''lineage_paths'' (JList []))) (\<lambda>lineage_paths.
     rbind (rbind (dict_item d ''exported_at'') as_str) (\<lambda>exported_at.
     Inr \<lparr>wep_schema_version = schema_version, wep_package_id = package_id,
       wep_workspace_id = workspace_id, wep_context_id = context_id, wep_snapshot_id = snapshot_id,
       wep_agent_id = agent_id, wep_lineage_paths = lineage_paths, wep_exported_at = exported_at\<rparr>))))))))"

section \<open>Round trips\<close>

lemma enum_lookups [simp]:
  "workspace_status_of (JStr (workspace_status_value s)) = Inr s"
  "role_of (JStr (role_value r)) = Inr r"
  "session_status_of (JStr (session_status_value t)) = Inr t"
proof -
  show "workspace_status_of (JStr (workspace_status_value s)) = Inr s"
    by (cases s) (simp_all add: workspace_status_of_def)
  show "role_of (JStr (role_value r)) = Inr r"
    by (cases r) (simp_all add: role_of_def)
  show "session_status_of (JStr (session_status_value t)) = Inr t"
    by (cases t) (simp_all add: session_status_of_def)
qed

text \<open>Looking a key up in a dictionary that is written out.\<close>

lemma dict_item_Cons [simp]: "dict_item ((k, v) # d) x = (if x = k then Inr v else dict_item d x)"
  by (simp add: dict_item_def)

lemma dict_get_Cons [simp]: "dict_get ((k, v) # d) x y = (if x = k then v else dict_get d x y)"
  by (simp add: dict_get_def)

lemma workspace_roundtrip: "workspace_from_dict (workspace_to_dict x) = Inr x"
  by (simp add: workspace_from_dict_def workspace_to_dict_def)

lemma workspace_snapshot_roundtrip: "workspace_snapshot_from_dict (workspace_snapshot_to_dict x) = Inr x"
  by (simp add: workspace_snapshot_from_dict_def workspace_snapshot_to_dict_def)

lemma session_roundtrip: "session_from_dict (session_to_dict x) = Inr x"
  by (simp add: session_from_dict_def session_to_dict_def)

lemma context_roundtrip: "context_from_dict (context_to_dict x) = Inr x"
  by (simp add: context_from_dict_def context_to_dict_def)

lemma package_roundtrip: "package_from_dict (package_to_dict x) = Inr x"
  by (simp add: package_from_dict_def package_to_dict_def)

lemma created_payload_roundtrip: "created_payload_from_dict (created_payload_to_dict x) = Inr x"
  by (simp add: created_payload_from_dict_def created_payload_to_dict_def)

lemma snapshot_payload_roundtrip: "snapshot_payload_from_dict (snapshot_payload_to_dict x) = Inr x"
  by (simp add: snapshot_payload_from_dict_def snapshot_payload_to_dict_def)

lemma session_payload_roundtrip: "session_payload_from_dict (session_payload_to_dict x) = Inr x"
  by (simp add: session_payload_from_dict_def session_payload_to_dict_def)

lemma context_payload_roundtrip: "context_payload_from_dict (context_payload_to_dict x) = Inr x"
  by (simp add: context_payload_from_dict_def context_payload_to_dict_def)

lemma package_payload_roundtrip: "package_payload_from_dict (package_payload_to_dict x) = Inr x"
  by (simp add: package_payload_from_dict_def package_payload_to_dict_def)

end
