(* ===== verification/Workspaces.thy ===== *)
theory Workspaces
  imports WorkspaceModels
begin

text \<open>
  Workspaces: the service of \<open>rationalevault/workspace/service.py\<close>, the state projection of
  \<open>rationalevault/projections/workspace.py\<close>, the context compiler, the continuation engine and the
  sessions of several agents (\<open>workspace/context_compiler.py\<close>, \<open>continuation.py\<close>,
  \<open>multi_agent.py\<close>).

  Every operation is a function of its arguments and of the time \<open>now\<close>, the text of the reference
  time or of the clock.  An argument that may be \<open>None\<close> in place of an empty list is a list: the
  code replaces the one by the other.
\<close>

section \<open>Outcomes\<close>

text \<open>The union of a value and an \<open>Error\<close> with its reason.\<close>

datatype 'a outcome = Error string | Done 'a

section \<open>Workspace service (service.py)\<close>

definition created_payload :: "string \<Rightarrow> Workspace \<Rightarrow> WorkspaceCreatedPayload" where
  "created_payload now w =
     \<lparr>wcp_schema_version = SCHEMA_VERSION, wcp_workspace_id = w_workspace_id w, wcp_name = w_name w,
      wcp_description = w_description w, wcp_agent_ids = w_agent_ids w, wcp_project_ids = w_project_ids w,
      wcp_created_at = now\<rparr>"

definition workspace_open ::
  "host \<Rightarrow> string \<Rightarrow> string \<Rightarrow> string \<Rightarrow> string list \<Rightarrow> string list \<Rightarrow> Workspace \<times> WorkspaceCreatedPayload" where
  "workspace_open h now name description agent_ids project_ids =
     (let w = \<lparr>w_workspace_id = generate_workspace_id h name now, w_name = name,
                w_description = description, w_status = ACTIVE, w_agent_ids = sort agent_ids,
                w_project_ids = sort project_ids, w_created_at = now, w_updated_at = now\<rparr>
      in (w, created_payload now w))"

definition workspace_resume :: "string \<Rightarrow> Workspace \<Rightarrow> (Workspace \<times> WorkspaceCreatedPayload) outcome" where
  "workspace_resume now w =
     (if w_status w \<noteq> PAUSED
      then Error (''Cannot resume workspace in '' @ workspace_status_value (w_status w) @ '' status (must be PAUSED)'')
      else let w' = w\<lparr>w_status := ACTIVE, w_updated_at := now\<rparr> in Done (w', created_payload now w'))"

definition workspace_pause :: "string \<Rightarrow> Workspace \<Rightarrow> (Workspace \<times> WorkspaceCreatedPayload) outcome" where
  "workspace_pause now w =
     (if w_status w \<noteq> ACTIVE
      then Error (''Cannot pause workspace in '' @ workspace_status_value (w_status w) @ '' status (must be ACTIVE)'')
      else let w' = w\<lparr>w_status := PAUSED, w_updated_at := now\<rparr> in Done (w', created_payload now w'))"

text \<open>The ids of the subsystems that a snapshot, a projection or a continuation is given.\<close>

record Subsystems =
  sub_decisions :: "string list"
  sub_executions :: "string list"
  sub_reflections :: "string list"
  sub_knowledge :: "string list"
  sub_promotions :: "string list"
  sub_planner_policy_id :: "string option"
  sub_jobs :: "string list"

definition workspace_snapshot ::
  "host \<Rightarrow> string \<Rightarrow> Workspace \<Rightarrow> int \<Rightarrow> Subsystems \<Rightarrow> WorkspaceSnapshot \<times> WorkspaceSnapshotTakenPayload" where
  "workspace_snapshot h now w version sub =
     (let snap_id = generate_snapshot_id h (w_workspace_id w) now;
          decisions = sort (sub_decisions sub); executions = sort (sub_executions sub);
          reflections = sort (sub_reflections sub); knowledge = sort (sub_knowledge sub);
          promotions = sort (sub_promotions sub); jobs = sort (sub_jobs sub)
      in (\<lparr>wn_snapshot_id = snap_id, wn_workspace_id = w_workspace_id w, wn_version = version,
            wn_active_decisions = decisions, wn_running_executions = executions,
            wn_pending_reflections = reflections, wn_active_knowledge = knowledge,
            wn_open_promotions = promotions, wn_planner_policy_id = sub_planner_policy_id sub,
            wn_scheduler_jobs = jobs, wn_created_at = now\<rparr>,
          \<lparr>wtp_schema_version = SCHEMA_VERSION, wtp_snapshot_id = snap_id, wtp_workspace_id = w_workspace_id w,
            wtp_version = version, wtp_active_decisions = decisions, wtp_running_executions = executions,
            wtp_pending_reflections = reflections, wtp_active_knowledge = knowledge,
            wtp_open_promotions = promotions, wtp_planner_policy_id = sub_planner_policy_id sub,
            wtp_scheduler_jobs = jobs, wtp_created_at = now\<rparr>))"

record WorkspaceDiff =
  df_snapshot_a_id :: string
  df_snapshot_b_id :: string
  df_added_decisions :: "string list"
  df_removed_decisions :: "string list"
  df_added_executions :: "string list"
  df_removed_executions :: "string list"
  df_added_reflections :: "string list"
  df_removed_reflections :: "string list"
  df_added_knowledge :: "string list"
  df_removed_knowledge :: "string list"
  df_added_promotions :: "string list"
  df_removed_promotions :: "string list"
  df_added_jobs :: "string list"
  df_removed_jobs :: "string list"
  df_planner_changed :: bool

definition has_changes :: "WorkspaceDiff \<Rightarrow> bool" where
  "has_changes d \<longleftrightarrow>
     df_added_decisions d \<noteq> [] \<or> df_removed_decisions d \<noteq> [] \<or>
     df_added_executions d \<noteq> [] \<or> df_removed_executions d \<noteq> [] \<or>
     df_added_reflections d \<noteq> [] \<or> df_removed_reflections d \<noteq> [] \<or>
     df_added_knowledge d \<noteq> [] \<or> df_removed_knowledge d \<noteq> [] \<or>
     df_added_promotions d \<noteq> [] \<or> df_removed_promotions d \<noteq> [] \<or>
     df_added_jobs d \<noteq> [] \<or> df_removed_jobs d \<noteq> [] \<or> df_planner_changed d"

definition total_changes :: "WorkspaceDiff \<Rightarrow> nat" where
  "total_changes d =
     length (df_added_decisions d) + length (df_removed_decisions d) +
     length (df_added_executions d) + length (df_removed_executions d) +
     length (df_added_reflections d) + length (df_removed_reflections d) +
     length (df_added_knowledge d) + length (df_removed_knowledge d) +
     length (df_added_promotions d) + length (df_removed_promotions d) +
     length (df_added_jobs d) + length (df_removed_jobs d) + (if df_planner_changed d then 1 else 0)"

text \<open>\<open>sorted(set(xs) - set(ys))\<close>.\<close>

definition sorted_difference :: "string list \<Rightarrow> string list \<Rightarrow> string list" where
  "sorted_difference xs ys = sorted_list_of_set (set xs - set ys)"

definition workspace_diff :: "WorkspaceSnapshot \<Rightarrow> WorkspaceSnapshot \<Rightarrow> WorkspaceDiff" where
  "workspace_diff a b =
     \<lparr>df_snapshot_a_id = wn_snapshot_id a, df_snapshot_b_id = wn_snapshot_id b,
      df_added_decisions = sorted_difference (wn_active_decisions b) (wn_active_decisions a),
      df_removed_decisions = sorted_difference (wn_active_decisions a) (wn_active_decisions b),
      df_added_executions = sorted_difference (wn_running_executions b) (wn_running_executions a),
      df_removed_executions = sorted_difference (wn_running_executions a) (wn_running_executions b),
      df_added_reflections = sorted_difference (wn_pending_reflections b) (wn_pending_reflections a),
      df_removed_reflections = sorted_difference (wn_pending_reflections a) (wn_pending_reflections b),
      df_added_knowledge = sorted_difference (wn_active_knowledge b) (wn_active_knowledge a),
      df_removed_knowledge = sorted_difference (wn_active_knowledge a) (wn_active_knowledge b),
      df_added_promotions = sorted_difference (wn_open_promotions b) (wn_open_promotions a),
      df_removed_promotions = sorted_difference (wn_open_promotions a) (wn_open_promotions b),
      df_added_jobs = sorted_difference (wn_scheduler_jobs b) (wn_scheduler_jobs a),
      df_removed_jobs = sorted_difference (wn_scheduler_jobs a) (wn_scheduler_jobs b),
      df_planner_changed = (wn_planner_policy_id a \<noteq> wn_planner_policy_id b)\<rparr>"

definition workspace_export ::
  "host \<Rightarrow> string \<Rightarrow> Workspace \<Rightarrow> WorkspaceContext \<Rightarrow> WorkspaceSnapshot \<Rightarrow> string \<Rightarrow> string list
    \<Rightarrow> WorkspacePackage \<times> WorkspacePackageExportedPayload" where
  "workspace_export h now w ctx snap agent_id lineage_paths =
     (let pkg_id = generate_package_id h (w_workspace_id w) agent_id now
      in (\<lparr>wp_package_id = pkg_id, wp_workspace_id = w_workspace_id w, wp_context_id = wc_context_id ctx,
            wp_snapshot_id = wn_snapshot_id snap, wp_agent_id = agent_id, wp_goals = wc_goals ctx,
            wp_open_decisions = wn_active_decisions snap, wp_running_executions = wn_running_executions snap,
            wp_pending_reflections = wn_pending_reflections snap,
            wp_planner_policy_summary = wc_planner_policy_summary ctx,
            wp_recent_knowledge = wc_recent_knowledge ctx, wp_memory_focus = wc_memory_focus ctx,
            wp_lineage_paths = sort lineage_paths, wp_exported_at = now\<rparr>,
          \<lparr>wep_schema_version = SCHEMA_VERSION, wep_package_id = pkg_id, wep_workspace_id = w_workspace_id w,
            wep_context_id = wc_context_id ctx, wep_snapshot_id = wn_snapshot_id snap, wep_agent_id = agent_id,
            wep_lineage_paths = sort lineage_paths, wep_exported_at = now\<rparr>))"

text \<open>\<open>s or t\<close> for an optional text: the empty text counts as absent.\<close>

definition str_or :: "string option \<Rightarrow> string \<Rightarrow> string" where
  "str_or x t = (case x of None \<Rightarrow> t | Some s \<Rightarrow> if s = [] then t else s)"

definition workspace_merge ::
  "host \<Rightarrow> string \<Rightarrow> Workspace \<Rightarrow> Workspace \<Rightarrow> string option \<Rightarrow> Workspace \<times> WorkspaceCreatedPayload" where
  "workspace_merge h now a b name =
     (let merged_name = str_or name (w_name a @ '' + '' @ w_name b);
          w = \<lparr>w_workspace_id = generate_workspace_id h merged_name now, w_name = merged_name,
               w_description = ''Merged from '' @ w_name a @ '' and '' @ w_name b, w_status = ACTIVE,
               w_agent_ids = sorted_list_of_set (set (w_agent_ids a) \<union> set (w_agent_ids b)),
               w_project_ids = sorted_list_of_set (set (w_project_ids a) \<union> set (w_project_ids b)),
               w_created_at = now, w_updated_at = now\<rparr>
      in (w, created_payload now w))"

section \<open>State projection (projections/workspace.py)\<close>

record WorkspaceState =
  st_workspace_id :: string
  st_workspace_name :: string
  st_workspace_status :: string
  st_compiled_at :: string
  st_projection_version :: string
  st_active_decisions :: "string list"
  st_running_executions :: "string list"
  st_pending_reflections :: "string list"
  st_active_knowledge :: "string list"
  st_open_promotions :: "string list"
  st_planner_policy_id :: "string option"
  st_scheduler_jobs :: "string list"
  st_decision_count :: nat
  st_execution_count :: nat
  st_reflection_count :: nat
  st_knowledge_count :: nat
  st_promotion_count :: nat
  st_job_count :: nat
  st_last_activity_at :: "string option"
  st_activity_summary :: string
  st_total_active_items :: nat

definition counted :: "nat \<Rightarrow> string \<Rightarrow> string \<Rightarrow> string list" where
  "counted n one many = (if 0 < n then [show_nat n @ '' '' @ (if n \<noteq> 1 then many else one)] else [])"

definition summary_parts :: "nat \<Rightarrow> nat \<Rightarrow> nat \<Rightarrow> nat \<Rightarrow> nat \<Rightarrow> string option \<Rightarrow> nat \<Rightarrow> string list" where
  "summary_parts d e r k p policy j =
     counted d ''open decision'' ''open decisions'' @
     counted e ''running execution'' ''running executions'' @
     counted r ''pending reflection'' ''pending reflections'' @
     counted k ''active knowledge item'' ''active knowledge items'' @
     counted p ''open promotion'' ''open promotions'' @
     (if str_or policy [] \<noteq> [] then [''planner active''] else []) @
     counted j ''scheduled job'' ''scheduled jobs''"

text \<open>The dash of the quiet summary, the character U+2014, is written as its three bytes in UTF-8.\<close>

definition activity_summary :: "string list \<Rightarrow> string" where
  "activity_summary parts =
     (if parts = [] then ''Workspace is quiet '' @ [CHR 0xE2, CHR 0x80, CHR 0x94] @ '' no active items''
      else ''Workspace active: '' @ join '', '' parts)"

definition workspace_project :: "string \<Rightarrow> Workspace \<Rightarrow> Subsystems \<Rightarrow> WorkspaceState" where
  "workspace_project now w sub =
     (let decisions = sort (sub_decisions sub); executions = sort (sub_executions sub);
          reflections = sort (sub_reflections sub); knowledge = sort (sub_knowledge sub);
          promotions = sort (sub_promotions sub); jobs = sort (sub_jobs sub)
      in \<lparr>st_workspace_id = w_workspace_id w, st_workspace_name = w_name w,
          st_workspace_status = workspace_status_value (w_status w), st_compiled_at = now,
          st_projection_version = ''1.0'', st_active_decisions = decisions,
          st_running_executions = executions, st_pending_reflections = reflections,
          st_active_knowledge = knowledge, st_open_promotions = promotions,
          st_planner_policy_id = sub_planner_policy_id sub, st_scheduler_jobs = jobs,
          st_decision_count = length decisions, st_execution_count = length executions,
          st_reflection_count = length reflections, st_knowledge_count = length knowledge,
          st_promotion_count = length promotions, st_job_count = length jobs,
          st_last_activity_at = Some (w_updated_at w),
          st_activity_summary = activity_summary (summary_parts (length decisions) (length executions)
            (length reflections) (length knowledge) (length promotions) (sub_planner_policy_id sub) (length jobs)),
          st_total_active_items = length decisions + length executions + length reflections
            + length knowledge + length promotions + length jobs\<rparr>)"

section \<open>Contexts and continuation (context\_compiler.py, continuation.py)\<close>

definition summarize_planner :: "WorkspaceState \<Rightarrow> string" where
  "summarize_planner st =
     (if str_or (st_planner_policy_id st) [] \<noteq> []
      then ''Active policy: '' @ str_or (st_planner_policy_id st) [] else ''No active planner policy'')"

definition compile_context ::
  "host \<Rightarrow> string \<Rightarrow> WorkspaceState \<Rightarrow> string \<Rightarrow> string list \<Rightarrow> string option \<Rightarrow> string option
    \<Rightarrow> WorkspaceContext \<times> WorkspaceContextCompiledPayload" where
  "compile_context h now st agent_id goals session_id snapshot_id =
     (let ctx_id = generate_context_id h (str_or session_id (''none-'' @ agent_id)) now
      in (\<lparr>wc_context_id = ctx_id, wc_session_id = str_or session_id [], wc_snapshot_id = str_or snapshot_id [],
            wc_agent_id = agent_id, wc_goals = sort goals, wc_open_decisions = st_active_decisions st,
            wc_running_executions = st_running_executions st,
            wc_pending_reflections = st_pending_reflections st, wc_recent_knowledge = st_active_knowledge st,
            wc_planner_policy_summary = summarize_planner st, wc_memory_focus = [], wc_lineage_summary = [],
            wc_created_at = now\<rparr>,
          \<lparr>wxp_schema_version = SCHEMA_VERSION, wxp_context_id = ctx_id, wxp_session_id = str_or session_id [],
            wxp_snapshot_id = str_or snapshot_id [], wxp_agent_id = agent_id, wxp_goals = sort goals,
            wxp_open_decisions = st_active_decisions st, wxp_running_executions = st_running_executions st,
            wxp_pending_reflections = st_pending_reflections st, wxp_recent_knowledge = st_active_knowledge st,
            wxp_planner_policy_summary = summarize_planner st, wxp_memory_focus = [], wxp_lineage_summary = [],
            wxp_created_at = now\<rparr>))"

definition continuation_resume ::
  "host \<Rightarrow> string \<Rightarrow> Workspace \<Rightarrow> string \<Rightarrow> string list \<Rightarrow> Subsystems \<Rightarrow> string list
    \<Rightarrow> WorkspacePackage \<times> WorkspacePackageExportedPayload" where
  "continuation_resume h now w agent_id goals sub lineage_paths =
     (let st = workspace_project now w sub;
          snap = fst (workspace_snapshot h now w 1 sub);
          ctx = fst (compile_context h now st agent_id goals None (Some (wn_snapshot_id snap)))
      in workspace_export h now w ctx snap agent_id lineage_paths)"

section \<open>Sessions of several agents (multi\_agent.py)\<close>

record AgentRosterEntry =
  re_agent_id :: string
  re_role :: string
  re_session_id :: string
  re_status :: string
  re_joined_at :: string

record WorkspaceRoster =
  ro_workspace_id :: string
  ro_compiled_at :: string
  ro_agents :: "AgentRosterEntry list"

definition active_agents :: "WorkspaceRoster \<Rightarrow> AgentRosterEntry list" where
  "active_agents r = filter (\<lambda>a. re_status a = session_status_value OPEN) (ro_agents r)"

definition has_agent :: "WorkspaceRoster \<Rightarrow> string \<Rightarrow> bool" where
  "has_agent r agent_id \<longleftrightarrow> list_ex (\<lambda>a. re_agent_id a = agent_id) (ro_agents r)"

definition has_role :: "WorkspaceRoster \<Rightarrow> string \<Rightarrow> AgentRole \<Rightarrow> bool" where
  "has_role r agent_id role \<longleftrightarrow>
     list_ex (\<lambda>a. re_agent_id a = agent_id \<and> re_role a = role_value role) (ro_agents r)"

definition workspace_join ::
  "host \<Rightarrow> string \<Rightarrow> Workspace \<Rightarrow> string \<Rightarrow> AgentRole \<Rightarrow> WorkspaceSession list
    \<Rightarrow> (WorkspaceSession \<times> WorkspaceSessionOpenedPayload) outcome" where
  "workspace_join h now w agent_id role sessions =
     (if list_ex (\<lambda>s. wse_agent_id s = agent_id \<and> wse_status s = OPEN) sessions
      then Error (''Agent '' @ agent_id @ '' already has an open session'')
      else if agent_id \<notin> set (w_agent_ids w)
      then Error (''Agent '' @ agent_id @ '' is not in workspace agent list'')
      else let sid = generate_session_id h (w_workspace_id w) agent_id now
        in Done (\<lparr>wse_session_id = sid, wse_workspace_id = w_workspace_id w, wse_agent_id = agent_id,
                  wse_agent_role = role, wse_status = OPEN, wse_started_at = now, wse_ended_at = None,
                  wse_snapshot_id = None\<rparr>,
                 \<lparr>wop_schema_version = SCHEMA_VERSION, wop_session_id = sid, wop_workspace_id = w_workspace_id w,
                  wop_agent_id = agent_id, wop_agent_role = role_value role, wop_snapshot_id = None,
                  wop_created_at = now\<rparr>))"

definition workspace_leave :: "string \<Rightarrow> WorkspaceSession \<Rightarrow> WorkspaceSession" where
  "workspace_leave now s = s\<lparr>wse_status := CLOSED, wse_ended_at := Some now\<rparr>"

definition workspace_roster :: "string \<Rightarrow> Workspace \<Rightarrow> WorkspaceSession list \<Rightarrow> WorkspaceRoster" where
  "workspace_roster now w sessions =
     \<lparr>ro_workspace_id = w_workspace_id w, ro_compiled_at = now,
      ro_agents = sort_key re_joined_at (map (\<lambda>s.
        \<lparr>re_agent_id = wse_agent_id s, re_role = role_value (wse_agent_role s),
         re_session_id = wse_session_id s, re_status = session_status_value (wse_status s),
         re_joined_at = wse_started_at s\<rparr>) sessions)\<rparr>"

definition check_permission :: "WorkspaceSession \<Rightarrow> string \<Rightarrow> bool" where
  "check_permission s action =
     (if action = ''read'' then True
      else if action = ''suggest'' then wse_agent_role s \<in> {PRIMARY, ADVISOR}
      else if action = ''write'' then wse_agent_role s = PRIMARY
      else False)"

section \<open>Lifecycle of a workspace\<close>

text \<open>The workspaces that the service can produce.\<close>

inductive ws_reachable :: "host \<Rightarrow> Workspace \<Rightarrow> bool" for h where
  opened: "ws_reachable h (fst (workspace_open h now name description agent_ids project_ids))"
| paused: "ws_reachable h w \<Longrightarrow> workspace_pause now w = Done (w', p) \<Longrightarrow> ws_reachable h w'"
| resumed: "ws_reachable h w \<Longrightarrow> workspace_resume now w = Done (w', p) \<Longrightarrow> ws_reachable h w'"
| merged: "ws_reachable h a \<Longrightarrow> ws_reachable h b \<Longrightarrow> ws_reachable h (fst (workspace_merge h now a b name))"

lemmas workspace_ops = workspace_open_def workspace_pause_def workspace_resume_def workspace_merge_def

definition workspace_inv :: "host \<Rightarrow> Workspace \<Rightarrow> bool" where
  "workspace_inv h w \<longleftrightarrow> w_status w \<noteq> ARCHIVED \<and> sorted (w_agent_ids w) \<and> sorted (w_project_ids w) \<and>
     w_workspace_id w = generate_workspace_id h (w_name w) (w_created_at w)"

lemma workspace_inv_reachable: "ws_reachable h w \<Longrightarrow> workspace_inv h w"
  by (induction rule: ws_reachable.induct)
    (auto simp: workspace_inv_def workspace_ops Let_def split: if_splits)

lemma pause_resume:
  "workspace_pause now w = Done (w', p) \<Longrightarrow>
     w_status w = ACTIVE \<and> w' = w\<lparr>w_status := PAUSED, w_updated_at := now\<rparr> \<and> p = created_payload now w'"
  "workspace_resume now w = Done (w', p) \<Longrightarrow>
     w_status w = PAUSED \<and> w' = w\<lparr>w_status := ACTIVE, w_updated_at := now\<rparr> \<and> p = created_payload now w'"
  by (auto simp: workspace_ops Let_def split: if_splits)

lemma workspace_lifecycle_parts:
  assumes "ws_reachable h w"
  shows "workspace_inv h w"
    and "(\<exists>w' p. workspace_pause now w = Done (w', p)) \<noteq> (\<exists>w' p. workspace_resume now w = Done (w', p))"
    and "workspace_pause now w = Done (w', p) \<Longrightarrow>
           \<exists>p'. workspace_resume later w' = Done (w\<lparr>w_updated_at := later\<rparr>, p')"
proof -
  show inv: "workspace_inv h w" using assms by (rule workspace_inv_reachable)
  then show "(\<exists>w' p. workspace_pause now w = Done (w', p)) \<noteq> (\<exists>w' p. workspace_resume now w = Done (w', p))"
    by (cases "w_status w") (auto simp: workspace_inv_def workspace_pause_def workspace_resume_def Let_def)
  assume "workspace_pause now w = Done (w', p)"
  then have "w_status w = ACTIVE" "w' = w\<lparr>w_status := PAUSED, w_updated_at := now\<rparr>"
    by (auto dest: pause_resume)
  then show "\<exists>p'. workspace_resume later w' = Done (w\<lparr>w_updated_at := later\<rparr>, p')"
    by (simp add: workspace_resume_def Let_def)
qed

text \<open>Property C30: a workspace that the service has produced is active or paused, never archived; its
  lists of agents and projects are sorted and its id is the one of its name and creation time; exactly
  one of pause and resume is possible, and resuming a paused workspace gives the workspace back with a
  new update time.\<close>

theorem workspace_lifecycle:
  assumes "ws_reachable h w"
  shows "(workspace_inv h w) \<and>
         ((\<exists>w' p. workspace_pause now w = Done (w', p)) \<noteq> (\<exists>w' p. workspace_resume now w = Done (w', p))) \<and>
         (workspace_pause now w = Done (w', p) \<longrightarrow>
          (\<exists>p'. workspace_resume later w' = Done (w\<lparr>w_updated_at := later\<rparr>, p')))"
  by (rule conjI, rule workspace_lifecycle_parts(1) [OF assms], rule conjI,
      rule workspace_lifecycle_parts(2) [OF assms], rule impI,
      rule workspace_lifecycle_parts(3) [OF assms], assumption)

definition sample_workspace :: Workspace where
  "sample_workspace = fst (workspace_open sample_host ''t0'' ''demo'' [] [''b'', ''a''] [''p''])"

theorem workspace_lifecycle_witness:
  "workspace_inv sample_host sample_workspace \<and>
   w_status (sample_workspace\<lparr>w_status := PAUSED, w_updated_at := ''t1''\<rparr>) = PAUSED \<and>
   (\<exists>p'. workspace_resume ''t2'' (sample_workspace\<lparr>w_status := PAUSED, w_updated_at := ''t1''\<rparr>)
       = Done (sample_workspace\<lparr>w_updated_at := ''t2''\<rparr>, p'))"
proof -
  have r: "ws_reachable sample_host sample_workspace"
    unfolding sample_workspace_def by (rule opened)
  have "workspace_pause ''t1'' sample_workspace = Done (sample_workspace\<lparr>w_status := PAUSED, w_updated_at := ''t1''\<rparr>,
      created_payload ''t1'' (sample_workspace\<lparr>w_status := PAUSED, w_updated_at := ''t1''\<rparr>))"
    by (simp add: sample_workspace_def workspace_ops Let_def)
  from workspace_lifecycle [OF r, THEN conjunct1]
    workspace_lifecycle [OF r, THEN conjunct2, THEN conjunct2, THEN mp, OF this] show ?thesis by simp
qed

text \<open>The events of pause and resume do not say what happened: at the same time and for
  workspaces that differ in status only, both emit the same payload, the one of a created workspace.\<close>

theorem pause_resume_same_event:
  assumes "workspace_pause now w = Done (w1, p1)"
    and "workspace_resume now (w\<lparr>w_status := PAUSED\<rparr>) = Done (w2, p2)"
  shows "p1 = p2 \<and> created_payload_to_dict p1 = created_payload_to_dict (created_payload now w)"
    and "w_status w1 \<noteq> w_status w2"
  using assms by (auto dest!: pause_resume simp: created_payload_def)

theorem pause_resume_same_event_witness:
  "\<exists>w1 p1 w2 p2. workspace_pause ''t'' sample_workspace = Done (w1, p1) \<and>
     workspace_resume ''t'' (sample_workspace\<lparr>w_status := PAUSED\<rparr>) = Done (w2, p2) \<and> p1 = p2"
proof -
  obtain w1 p1 where 1: "workspace_pause ''t'' sample_workspace = Done (w1, p1)"
    by (simp add: sample_workspace_def workspace_ops Let_def)
  obtain w2 p2 where 2: "workspace_resume ''t'' (sample_workspace\<lparr>w_status := PAUSED\<rparr>) = Done (w2, p2)"
    by (simp add: sample_workspace_def workspace_ops Let_def)
  from pause_resume_same_event(1) [OF 1 2] 1 2 show ?thesis by blast
qed

section \<open>Differences of snapshots\<close>

text \<open>The six lists of a snapshot with the two lists of a difference that belong to each.\<close>

definition diff_fields ::
  "((WorkspaceSnapshot \<Rightarrow> string list) \<times> (WorkspaceDiff \<Rightarrow> string list) \<times> (WorkspaceDiff \<Rightarrow> string list)) list" where
  "diff_fields =
     [(wn_active_decisions, df_added_decisions, df_removed_decisions),
      (wn_running_executions, df_added_executions, df_removed_executions),
      (wn_pending_reflections, df_added_reflections, df_removed_reflections),
      (wn_active_knowledge, df_added_knowledge, df_removed_knowledge),
      (wn_open_promotions, df_added_promotions, df_removed_promotions),
      (wn_scheduler_jobs, df_added_jobs, df_removed_jobs)]"

lemma sorted_difference [simp]:
  "set (sorted_difference xs ys) = set xs - set ys"
  "length (sorted_difference xs ys) = card (set xs - set ys)"
  "sorted (sorted_difference xs ys)" "distinct (sorted_difference xs ys)"
  "sorted_difference xs ys = [] \<longleftrightarrow> set xs \<subseteq> set ys"
  by (simp_all add: sorted_difference_def)

lemma diff_fields_diff:
  "(f, added, removed) \<in> set diff_fields \<Longrightarrow>
     added (workspace_diff a b) = sorted_difference (f b) (f a) \<and>
     removed (workspace_diff a b) = sorted_difference (f a) (f b)"
  by (auto simp: diff_fields_def workspace_diff_def)

lemma total_changes_diff:
  "total_changes (workspace_diff a b) =
     (\<Sum>(f, _) \<leftarrow> diff_fields. card (set (f b) - set (f a)) + card (set (f a) - set (f b)))
     + (if wn_planner_policy_id a \<noteq> wn_planner_policy_id b then 1 else 0)"
  by (simp add: total_changes_def workspace_diff_def diff_fields_def)

lemma has_changes_total: "has_changes d \<longleftrightarrow> 0 < total_changes d"
  by (auto simp: has_changes_def total_changes_def)

lemma diff_is_patch_parts:
  shows "\<forall>(f, added, removed) \<in> set diff_fields. let d = workspace_diff a b in
           set (f b) = (set (f a) - set (removed d)) \<union> set (added d) \<and>
           set (added d) \<inter> set (f a) = {} \<and> set (removed d) \<subseteq> set (f a) \<and>
           sorted (added d) \<and> distinct (added d) \<and> sorted (removed d) \<and> distinct (removed d)"
    and "total_changes (workspace_diff a b) =
           (\<Sum>(f, _) \<leftarrow> diff_fields. card (sym_diff (set (f a)) (set (f b))))
           + (if wn_planner_policy_id a \<noteq> wn_planner_policy_id b then 1 else 0)"
    and "has_changes (workspace_diff a b) \<longleftrightarrow>
           (\<exists>(f, _) \<in> set diff_fields. set (f a) \<noteq> set (f b)) \<or> wn_planner_policy_id a \<noteq> wn_planner_policy_id b"
proof -
  show "\<forall>(f, added, removed) \<in> set diff_fields. let d = workspace_diff a b in
           set (f b) = (set (f a) - set (removed d)) \<union> set (added d) \<and>
           set (added d) \<inter> set (f a) = {} \<and> set (removed d) \<subseteq> set (f a) \<and>
           sorted (added d) \<and> distinct (added d) \<and> sorted (removed d) \<and> distinct (removed d)"
    by (auto simp: diff_fields_diff Let_def)
  have "card (sym_diff (set xs) (set ys)) = card (set ys - set xs) + card (set xs - set ys)" for xs ys :: "string list"
    by (subst card_Un_disjoint) auto
  then show "total_changes (workspace_diff a b) =
           (\<Sum>(f, _) \<leftarrow> diff_fields. card (sym_diff (set (f a)) (set (f b))))
           + (if wn_planner_policy_id a \<noteq> wn_planner_policy_id b then 1 else 0)"
    by (simp add: total_changes_diff)
  show "has_changes (workspace_diff a b) \<longleftrightarrow>
           (\<exists>(f, _) \<in> set diff_fields. set (f a) \<noteq> set (f b)) \<or> wn_planner_policy_id a \<noteq> wn_planner_policy_id b"
    by (auto simp: has_changes_def workspace_diff_def diff_fields_def)
qed

text \<open>A difference is a correct patch.  For each of the six lists, the added and the
  removed ids are sorted and free of repetitions, were absent before and after respectively, and turn
  the first snapshot's set of ids into the second's; the total counts them all; there are changes
  exactly if some set or the planner policy differs.\<close>

theorem diff_is_patch:
  shows "(\<forall>(f, added, removed) \<in> set diff_fields. let d = workspace_diff a b in
           set (f b) = (set (f a) - set (removed d)) \<union> set (added d) \<and>
           set (added d) \<inter> set (f a) = {} \<and> set (removed d) \<subseteq> set (f a) \<and>
           sorted (added d) \<and> distinct (added d) \<and> sorted (removed d) \<and> distinct (removed d)) \<and>
         (total_changes (workspace_diff a b) =
           (\<Sum>(f, _) \<leftarrow> diff_fields. card (sym_diff (set (f a)) (set (f b))))
           + (if wn_planner_policy_id a \<noteq> wn_planner_policy_id b then 1 else 0)) \<and>
         (has_changes (workspace_diff a b) \<longleftrightarrow>
           (\<exists>(f, _) \<in> set diff_fields. set (f a) \<noteq> set (f b)) \<or> wn_planner_policy_id a \<noteq> wn_planner_policy_id b)"
  by (rule conjI, rule diff_is_patch_parts(1), rule conjI, rule diff_is_patch_parts(2),
      rule diff_is_patch_parts(3))

definition sample_subsystems :: Subsystems where
  "sample_subsystems = \<lparr>sub_decisions = [''d2'', ''d1''], sub_executions = [], sub_reflections = [''r''],
     sub_knowledge = [''k''], sub_promotions = [], sub_planner_policy_id = Some ''pol'', sub_jobs = [''j'']\<rparr>"

definition sample_snapshot :: "string list \<Rightarrow> WorkspaceSnapshot" where
  "sample_snapshot decisions =
     fst (workspace_snapshot sample_host ''t'' sample_workspace 1 (sample_subsystems\<lparr>sub_decisions := decisions\<rparr>))"

lemma sample_snapshot_simps [simp]:
  "wn_active_decisions (sample_snapshot ds) = sort ds" "wn_running_executions (sample_snapshot ds) = []"
  "wn_pending_reflections (sample_snapshot ds) = [''r'']" "wn_active_knowledge (sample_snapshot ds) = [''k'']"
  "wn_open_promotions (sample_snapshot ds) = []" "wn_scheduler_jobs (sample_snapshot ds) = [''j'']"
  "wn_planner_policy_id (sample_snapshot ds) = Some ''pol''"
  by (simp_all add: sample_snapshot_def workspace_snapshot_def Let_def sample_subsystems_def)

theorem diff_is_patch_witness:
  "let a = sample_snapshot [''d2'', ''d1'']; b = sample_snapshot [''d3'', ''d1'']; d = workspace_diff a b
   in {''d3'', ''d1''} = ({''d2'', ''d1''} - set (df_removed_decisions d)) \<union> set (df_added_decisions d) \<and>
      total_changes d = 2 \<and> has_changes d"
proof -
  let ?a = "sample_snapshot [''d2'', ''d1'']" and ?b = "sample_snapshot [''d3'', ''d1'']"
  have m: "(wn_active_decisions, df_added_decisions, df_removed_decisions) \<in> set diff_fields"
    by (simp add: diff_fields_def)
  have "{''d3'', ''d1''} = ({''d2'', ''d1''} - set (df_removed_decisions (workspace_diff ?a ?b)))
      \<union> set (df_added_decisions (workspace_diff ?a ?b))"
    using bspec [OF diff_is_patch [where a = ?a and b = ?b, THEN conjunct1] m] by (simp add: Let_def insert_commute)
  moreover have "total_changes (workspace_diff ?a ?b) = 2"
    unfolding diff_is_patch [THEN conjunct2, THEN conjunct1] by (simp add: diff_fields_def)
  moreover have "has_changes (workspace_diff ?a ?b)"
    unfolding diff_is_patch [THEN conjunct2, THEN conjunct2] by (rule disjI1, rule bexI [OF _ m]) (simp add: doubleton_eq_iff)
  ultimately show ?thesis by (simp add: Let_def)
qed

section \<open>Sessions\<close>

text \<open>The lists of sessions that agents produce by joining a workspace and leaving it, in any order.\<close>

inductive roster_reachable :: "host \<Rightarrow> Workspace \<Rightarrow> WorkspaceSession list \<Rightarrow> bool" for h w where
  nobody: "roster_reachable h w []"
| joins: "roster_reachable h w ss \<Longrightarrow> workspace_join h now w agent_id role ss = Done (s, p)
    \<Longrightarrow> roster_reachable h w (ss @ [s])"
| leaves: "roster_reachable h w ss \<Longrightarrow> i < length ss \<Longrightarrow> roster_reachable h w (ss[i := workspace_leave now (ss ! i)])"

definition open_sessions :: "string \<Rightarrow> WorkspaceSession list \<Rightarrow> WorkspaceSession list" where
  "open_sessions agent_id ss = filter (\<lambda>s. wse_agent_id s = agent_id \<and> wse_status s = OPEN) ss"

lemma open_sessions_update:
  "\<not> (wse_agent_id s = a \<and> wse_status s = OPEN) \<Longrightarrow> length (open_sessions a (ss[i := s])) \<le> length (open_sessions a ss)"
  by (induction ss arbitrary: i) (auto simp: open_sessions_def split: nat.split)

lemma join_Done:
  assumes "workspace_join h now w agent_id role ss = Done (s, p)"
  shows "open_sessions agent_id ss = [] \<and> agent_id \<in> set (w_agent_ids w) \<and> wse_agent_id s = agent_id \<and>
    wse_status s = OPEN \<and> wse_ended_at s = None \<and> wse_workspace_id s = w_workspace_id w \<and> wse_agent_role s = role"
  using assms by (auto simp: workspace_join_def open_sessions_def Let_def list_ex_iff filter_empty_conv split: if_splits)

definition session_ok :: "Workspace \<Rightarrow> WorkspaceSession \<Rightarrow> bool" where
  "session_ok w s \<longleftrightarrow> wse_agent_id s \<in> set (w_agent_ids w) \<and> wse_workspace_id s = w_workspace_id w \<and>
     wse_status s \<noteq> SUSPENDED \<and> (wse_ended_at s = None \<longleftrightarrow> wse_status s = OPEN)"

lemma roster_inv:
  "roster_reachable h w ss \<Longrightarrow> (\<forall>a. length (open_sessions a ss) \<le> 1) \<and> list_all (session_ok w) ss"
proof (induction rule: roster_reachable.induct)
  case (joins ss now agent_id role s p)
  then show ?case using join_Done [OF joins(2)] by (auto simp: open_sessions_def session_ok_def)
next
  case (leaves ss i now)
  have "length (open_sessions a (ss[i := workspace_leave now (ss ! i)])) \<le> 1" for a
    using leaves.IH open_sessions_update [of "workspace_leave now (ss ! i)" a ss i]
    by (fastforce simp: workspace_leave_def intro: order_trans)
  moreover have "list_all (session_ok w) (ss[i := workspace_leave now (ss ! i)])"
    using leaves by (auto simp: list_all_length nth_list_update session_ok_def workspace_leave_def)
  ultimately show ?case by blast
qed (simp add: open_sessions_def)

lemma one_open_session_parts:
  assumes "roster_reachable h w ss"
  shows "length (open_sessions a ss) \<le> 1"
    and "list_all (session_ok w) ss"
    and "(\<exists>s p. workspace_join h now w a role ss = Done (s, p)) \<longleftrightarrow>
           a \<in> set (w_agent_ids w) \<and> open_sessions a ss = []"
proof -
  show "length (open_sessions a ss) \<le> 1" "list_all (session_ok w) ss" using roster_inv [OF assms] by simp_all
  show "(\<exists>s p. workspace_join h now w a role ss = Done (s, p)) \<longleftrightarrow>
           a \<in> set (w_agent_ids w) \<and> open_sessions a ss = []"
    by (auto simp: workspace_join_def open_sessions_def Let_def list_ex_iff filter_empty_conv)
qed

text \<open>Property C25: however agents join a workspace and leave it, no agent ever has two open sessions;
  every session belongs to an agent of the workspace's list, and it has an end time exactly if it is no
  longer open.  An agent of the list can join exactly if it has no open session, so one that has left
  can join again.\<close>

theorem one_open_session:
  assumes "roster_reachable h w ss"
  shows "(length (open_sessions a ss) \<le> 1) \<and>
         (list_all (session_ok w) ss) \<and>
         ((\<exists>s p. workspace_join h now w a role ss = Done (s, p)) \<longleftrightarrow>
           a \<in> set (w_agent_ids w) \<and> open_sessions a ss = [])"
  by (rule conjI, rule one_open_session_parts(1) [OF assms], rule conjI,
      rule one_open_session_parts(2) [OF assms], rule one_open_session_parts(3) [OF assms])

definition sample_session :: "string \<Rightarrow> WorkspaceSession" where
  "sample_session a = \<lparr>wse_session_id = generate_session_id sample_host (w_workspace_id sample_workspace) a ''t'',
     wse_workspace_id = w_workspace_id sample_workspace, wse_agent_id = a, wse_agent_role = PRIMARY,
     wse_status = OPEN, wse_started_at = ''t'', wse_ended_at = None, wse_snapshot_id = None\<rparr>"

theorem one_open_session_witness:
  "length (open_sessions ''a'' [sample_session ''a'']) \<le> 1 \<and>
   \<not> (\<exists>s p. workspace_join sample_host ''t2'' sample_workspace ''a'' ADVISOR [sample_session ''a''] = Done (s, p)) \<and>
   (\<exists>s p. workspace_join sample_host ''t2'' sample_workspace ''b'' ADVISOR [sample_session ''a''] = Done (s, p))"
proof -
  have agents: "set (w_agent_ids sample_workspace) = {''a'', ''b''}"
    by (auto simp: sample_workspace_def workspace_open_def Let_def)
  have "\<exists>p. workspace_join sample_host ''t'' sample_workspace ''a'' PRIMARY [] = Done (sample_session ''a'', p)"
    by (simp add: workspace_join_def agents Let_def sample_session_def)
  then obtain p where "workspace_join sample_host ''t'' sample_workspace ''a'' PRIMARY [] = Done (sample_session ''a'', p)" ..
  from joins [OF nobody this] have r: "roster_reachable sample_host sample_workspace [sample_session ''a'']" by simp
  have "open_sessions ''a'' [sample_session ''a''] \<noteq> []" "open_sessions ''b'' [sample_session ''a''] = []"
    by (simp_all add: open_sessions_def sample_session_def)
  with one_open_session [OF r, of "''a''", THEN conjunct1]
    one_open_session [OF r, THEN conjunct2, THEN conjunct2] agents show ?thesis by auto
qed

section \<open>Continuation\<close>

text \<open>A continuation package carries exactly what it was asked to resume: its ids are the
  sorted ids of the subsystems, its context and its snapshot are the ones compiled for the same
  workspace, agent and time, and its dictionary can be read back.\<close>

theorem continuation_package:
  assumes "continuation_resume h now w agent_id goals sub lineage_paths = (p, e)"
  shows "wp_open_decisions p = sort (sub_decisions sub) \<and> wp_running_executions p = sort (sub_executions sub) \<and>
           wp_pending_reflections p = sort (sub_reflections sub) \<and> wp_recent_knowledge p = sort (sub_knowledge sub) \<and>
           wp_goals p = sort goals \<and> wp_lineage_paths p = sort lineage_paths"
    and "wp_snapshot_id p = wn_snapshot_id (fst (workspace_snapshot h now w 1 sub)) \<and>
           wp_context_id p = generate_context_id h (''none-'' @ agent_id) now \<and>
           wep_package_id e = wp_package_id p \<and> wep_context_id e = wp_context_id p \<and>
           wep_snapshot_id e = wp_snapshot_id p"
    and "package_from_dict (package_to_dict p) = Inr p"
  using assms
  by (auto simp: continuation_resume_def workspace_export_def workspace_snapshot_def compile_context_def
      workspace_project_def str_or_def Let_def package_roundtrip)

theorem continuation_package_witness:
  "wp_open_decisions (fst (continuation_resume sample_host ''t'' sample_workspace ''a'' [''g''] sample_subsystems [])) = [''d1'', ''d2'']"
  using continuation_package(1) [OF surjective_pairing, of sample_host "''t''" sample_workspace "''a''" "[''g'']" sample_subsystems "[]"]
  by (simp add: sample_subsystems_def)

end
