(* ===== verification/SessionTable.thy ===== *)
theory SessionTable
  imports Prelude
begin

text \<open>
  What the two registries of sessions have in common, the one of agent sessions
  (\<open>runtime/session_registry.py\<close>) and the one of transport sessions
  (\<open>transport/session_manager.py\<close>): a tuple of sessions that is searched by id, extended at its end
  and updated by id.  The locale states it once; both theories interpret it.
\<close>

definition update_by_id :: "('s \<Rightarrow> string) \<Rightarrow> 's \<Rightarrow> 's list \<Rightarrow> 's list" where
  "update_by_id ident s ss = map (\<lambda>t. if ident t = ident s then s else t) ss"

lemma ids_update_by_id [simp]: "map ident (update_by_id ident s ss) = map ident ss"
  by (induction ss) (auto simp: update_by_id_def)

lemma find_update_by_id:
  "find (\<lambda>t. ident t = i) (update_by_id ident s ss) =
     (case find (\<lambda>t. ident t = i) ss of None \<Rightarrow> None | Some t \<Rightarrow> Some (if i = ident s then s else t))"
  by (induction ss) (auto simp: update_by_id_def)

lemma find_append: "find P (xs @ ys) = (case find P xs of None \<Rightarrow> find P ys | Some x \<Rightarrow> Some x)"
  by (induction xs) auto

locale session_table =
  fixes sessions :: "'r \<Rightarrow> 's list"
    and ident :: "'s \<Rightarrow> string"
    and lookup :: "'r \<Rightarrow> string \<Rightarrow> 's option"
    and add :: "'r \<Rightarrow> 's \<Rightarrow> 'r"
    and update :: "'r \<Rightarrow> 's \<Rightarrow> 'r"
  assumes lookup_sessions: "lookup r i = find (\<lambda>s. ident s = i) (sessions r)"
    and sessions_add: "sessions (add r s) = sessions r @ [s]"
    and sessions_update: "sessions (update r s) = update_by_id ident s (sessions r)"
begin

lemma lookup_add:
  "lookup (add r s) i = (case lookup r i of Some t \<Rightarrow> Some t | None \<Rightarrow> if ident s = i then Some s else None)"
  by (auto simp: lookup_sessions sessions_add find_append split: option.splits)

lemma lookup_update:
  "lookup (update r s) i = (case lookup r i of None \<Rightarrow> None | Some t \<Rightarrow> Some (if i = ident s then s else t))"
  by (simp add: lookup_sessions sessions_update find_update_by_id)

lemma ids_add: "map ident (sessions (add r s)) = map ident (sessions r) @ [ident s]"
  by (simp add: sessions_add)

lemma ids_update: "map ident (sessions (update r s)) = map ident (sessions r)"
  by (simp add: sessions_update)

lemma lookup_None: "lookup r i = None \<longleftrightarrow> i \<notin> set (map ident (sessions r))"
  by (auto simp: lookup_sessions find_None_iff)

lemma lookup_ident: "lookup r i = Some s \<Longrightarrow> s \<in> set (sessions r) \<and> ident s = i"
  by (auto simp: lookup_sessions find_Some_iff)

text \<open>A registry that was filled with sessions of different ids is the map from ids to sessions.\<close>

lemma lookup_distinct:
  "distinct (map ident (sessions r)) \<Longrightarrow> s \<in> set (sessions r) \<Longrightarrow> lookup r (ident s) = Some s"
proof -
  assume d: "distinct (map ident (sessions r))" "s \<in> set (sessions r)"
  have "distinct (map ident ss) \<Longrightarrow> s \<in> set ss \<Longrightarrow> find (\<lambda>t. ident t = ident s) ss = Some s" for ss
    by (induction ss) (auto simp: image_iff)
  with d show ?thesis by (simp add: lookup_sessions)
qed

lemma lookup_after_update:
  "lookup r (ident s) \<noteq> None \<Longrightarrow> lookup (update r s) (ident s) = Some s"
  by (auto simp: lookup_update)

end

end
