(* ===== verification/Transport.thy ===== *)
theory Transport
  imports Workspaces SessionTable
begin

text \<open>
  The transport SDK, \<open>rationalevault/transport\<close>: capabilities, manifests, negotiations and sessions
  (\<open>models.py\<close>, \<open>events.py\<close>), the negotiation engine, the serialization pipeline, the session
  manager and the transport runtime.

  Serializers are written by vendors: one is a function from the dictionary of a package to bytes or to
  an exception, where a \<open>ValueError\<close> is given by its text, which the runtime reports.
\<close>

section \<open>Models (models.py)\<close>

datatype TransportType = MCP | REST | WEBSOCKET | CLI | IPC | FILESYSTEM | GRPC

fun transport_type_value :: "TransportType \<Rightarrow> string" where
  "transport_type_value MCP = ''MCP''"
| "transport_type_value REST = ''REST''"
| "transport_type_value WEBSOCKET = ''WEBSOCKET''"
| "transport_type_value CLI = ''CLI''"
| "transport_type_value IPC = ''IPC''"
| "transport_type_value FILESYSTEM = ''FILESYSTEM''"
| "transport_type_value GRPC = ''GRPC''"

datatype TransportStatus = CREATED | NEGOTIATING | READY | STREAMING | PAUSED | DISCONNECTED | CLOSED

fun transport_status_value :: "TransportStatus \<Rightarrow> string" where
  "transport_status_value CREATED = ''CREATED''"
| "transport_status_value NEGOTIATING = ''NEGOTIATING''"
| "transport_status_value READY = ''READY''"
| "transport_status_value STREAMING = ''STREAMING''"
| "transport_status_value PAUSED = ''PAUSED''"
| "transport_status_value DISCONNECTED = ''DISCONNECTED''"
| "transport_status_value CLOSED = ''CLOSED''"

datatype NegotiationOutcome = COMPATIBLE | INCOMPATIBLE | REQUIRES_MIGRATION | REJECTED

fun outcome_value :: "NegotiationOutcome \<Rightarrow> string" where
  "outcome_value COMPATIBLE = ''COMPATIBLE''"
| "outcome_value INCOMPATIBLE = ''INCOMPATIBLE''"
| "outcome_value REQUIRES_MIGRATION = ''REQUIRES_MIGRATION''"
| "outcome_value REJECTED = ''REJECTED''"

record TransportCapabilities =
  supports_streaming :: bool
  supports_bidirectional :: bool
  supports_binary :: bool
  supports_incremental_updates :: bool
  supports_resume :: bool
  supports_tool_calls :: bool
  supports_large_context :: bool
  max_payload_size_bytes :: int
  max_concurrent_sessions :: int

definition default_capabilities :: TransportCapabilities where
  "default_capabilities = \<lparr>supports_streaming = False, supports_bidirectional = False, supports_binary = False,
     supports_incremental_updates = False, supports_resume = False, supports_tool_calls = False,
     supports_large_context = False, max_payload_size_bytes = 0, max_concurrent_sessions = 1\<rparr>"

definition satisfies :: "TransportCapabilities \<Rightarrow> TransportCapabilities \<Rightarrow> bool" where
  "satisfies c required =
     (if supports_streaming required \<and> \<not> supports_streaming c then False
      else if supports_bidirectional required \<and> \<not> supports_bidirectional c then False
      else if supports_binary required \<and> \<not> supports_binary c then False
      else if supports_incremental_updates required \<and> \<not> supports_incremental_updates c then False
      else if supports_resume required \<and> \<not> supports_resume c then False
      else if supports_tool_calls required \<and> \<not> supports_tool_calls c then False
      else if supports_large_context required \<and> \<not> supports_large_context c then False
      else if max_payload_size_bytes required > 0 \<and> max_payload_size_bytes c < max_payload_size_bytes required then False
      else if max_concurrent_sessions required > 0 \<and> max_concurrent_sessions c < max_concurrent_sessions required then False
      else True)"

record TransportManifest =
  tm_manifest_id :: string
  tm_name :: string
  tm_transport_type :: TransportType
  tm_version :: string
  tm_capabilities :: TransportCapabilities
  tm_supported_runtime_versions :: "string list"
  tm_supported_workspace_versions :: "string list"
  tm_metadata :: "(string, string) dict"

definition generate_manifest_id :: "host \<Rightarrow> string \<Rightarrow> TransportType \<Rightarrow> string \<Rightarrow> string" where
  "generate_manifest_id h name t version =
     short_id h ''TMNF-'' [''transport_manifest'', name, transport_type_value t, version]"

record TransportNegotiation =
  tn_negotiation_id :: string
  tn_transport_manifest_id :: string
  tn_runtime_version :: string
  tn_workspace_version :: string
  tn_transport_version :: string
  tn_outcome :: NegotiationOutcome
  tn_matched_capabilities :: "string list"
  tn_missing_capabilities :: "string list"
  tn_warnings :: "string list"
  tn_required_migrations :: "string list"
  tn_negotiated_at :: string

definition generate_negotiation_id :: "host \<Rightarrow> string \<Rightarrow> string \<Rightarrow> string \<Rightarrow> string" where
  "generate_negotiation_id h manifest_id runtime_version negotiated_at =
     short_id h ''TNAG-'' [''transport_negotiation'', manifest_id, runtime_version, negotiated_at]"

definition negotiation_is_compatible :: "TransportNegotiation \<Rightarrow> bool" where
  "negotiation_is_compatible n \<longleftrightarrow> tn_outcome n = COMPATIBLE"

record TransportSession =
  ts_session_id :: string
  ts_transport_manifest_id :: string
  ts_negotiation_id :: string
  ts_agent_session_id :: string
  ts_workspace_id :: string
  ts_status :: TransportStatus
  ts_packages_sent :: int
  ts_bytes_transferred :: int
  ts_created_at :: string
  ts_last_active_at :: string
  ts_closed_at :: "string option"

definition generate_transport_session_id :: "host \<Rightarrow> string \<Rightarrow> string \<Rightarrow> string \<Rightarrow> string" where
  "generate_transport_session_id h manifest_id agent_session_id created_at =
     short_id h ''TSSN-'' [''transport_session'', manifest_id, agent_session_id, created_at]"

record RuntimeCompatibility =
  rco_runtime_version :: string
  rco_workspace_version :: string
  rco_sdk_version :: string
  rco_transport_version :: string
  rco_compatible :: bool
  rco_warnings :: "string list"
  rco_required_migrations :: "string list"

section \<open>Event payloads (events.py)\<close>

record ConnectorRegisteredPayload =
  crp_schema_version :: string
  crp_manifest_id :: string
  crp_transport_type :: string
  crp_name :: string
  crp_version :: string
  crp_registered_at :: string

record ConnectorNegotiatedPayload =
  cnp_schema_version :: string
  cnp_negotiation_id :: string
  cnp_manifest_id :: string
  cnp_outcome :: string
  cnp_matched_capabilities :: "string list"
  cnp_missing_capabilities :: "string list"
  cnp_negotiated_at :: string

record ConnectorAttachedPayload =
  cap_schema_version :: string
  cap_session_id :: string
  cap_transport_manifest_id :: string
  cap_agent_session_id :: string
  cap_workspace_id :: string
  cap_attached_at :: string

record TransportPackageStreamedPayload =
  tsp_schema_version :: string
  tsp_session_id :: string
  tsp_package_id :: json
  tsp_bytes_transferred :: int
  tsp_serialization_format :: string
  tsp_streamed_at :: string

record ConnectorDetachedPayload =
  cdp_schema_version :: string
  cdp_session_id :: string
  cdp_workspace_id :: string
  cdp_packages_sent :: int
  cdp_bytes_transferred :: int
  cdp_detached_at :: string

record ConnectorUnregisteredPayload =
  cup_schema_version :: string
  cup_manifest_id :: string
  cup_reason :: string
  cup_unregistered_at :: string

section \<open>Negotiation (negotiation\_engine.py)\<close>

definition RUNTIME_VERSION :: string where "RUNTIME_VERSION = ''2.3.0''"
definition WORKSPACE_VERSION :: string where "WORKSPACE_VERSION = ''2.1.0''"
definition SDK_VERSION :: string where "SDK_VERSION = ''1.0.0''"

text \<open>\<open>repr\<close> of a text and of a list of texts, as an f-string prints them.\<close>

definition repr_char :: "char \<Rightarrow> char \<Rightarrow> string" where
  "repr_char q c =
     (let n = of_char c :: nat in
      if c = q \<or> c = CHR 0x5C then [CHR 0x5C, c]
      else if n = 9 then [CHR 0x5C, CHR ''t''] else if n = 10 then [CHR 0x5C, CHR ''n'']
      else if n = 13 then [CHR 0x5C, CHR ''r'']
      else if n < 32 \<or> (127 \<le> n \<and> n \<le> 160) \<or> n = 173
      then [CHR 0x5C, CHR ''x'', digit_char (n div 16), digit_char (n mod 16)]
      else [c])"

definition repr_str :: "string \<Rightarrow> string" where
  "repr_str s =
     (let q = (if CHR 0x27 \<in> set s \<and> CHR 0x22 \<notin> set s then CHR 0x22 else CHR 0x27)
      in q # concat (map (repr_char q) s) @ [q])"

definition repr_strs :: "string list \<Rightarrow> string" where
  "repr_strs xs = CHR ''['' # join '', '' (map repr_str xs) @ '']''"

definition cap_fields :: "(string \<times> (TransportCapabilities \<Rightarrow> bool)) list" where
  "cap_fields =
     [(''supports_streaming'', supports_streaming), (''supports_bidirectional'', supports_bidirectional),
      (''supports_binary'', supports_binary), (''supports_incremental_updates'', supports_incremental_updates),
      (''supports_resume'', supports_resume), (''supports_tool_calls'', supports_tool_calls),
      (''supports_large_context'', supports_large_context)]"

definition engine_negotiate ::
  "host \<Rightarrow> string \<Rightarrow> TransportManifest \<Rightarrow> TransportCapabilities option \<Rightarrow> TransportNegotiation" where
  "engine_negotiate h now m required_capabilities =
     (let required = (case required_capabilities of None \<Rightarrow> default_capabilities | Some r \<Rightarrow> r);
          caps = tm_capabilities m;
          runtime_compatible = RUNTIME_VERSION \<in> set (tm_supported_runtime_versions m);
          workspace_compatible = WORKSPACE_VERSION \<in> set (tm_supported_workspace_versions m);
          warnings =
            (if \<not> runtime_compatible \<and> tm_supported_runtime_versions m \<noteq> []
             then [''Runtime '' @ RUNTIME_VERSION @ '' not in supported versions: ''
                   @ repr_strs (tm_supported_runtime_versions m)] else []) @
            (if \<not> workspace_compatible \<and> tm_supported_workspace_versions m \<noteq> []
             then [''Workspace '' @ WORKSPACE_VERSION @ '' not in supported versions: ''
                   @ repr_strs (tm_supported_workspace_versions m)] else []);
          matched = map fst (filter (\<lambda>(n, f). f required \<and> f caps) cap_fields);
          missing = map fst (filter (\<lambda>(n, f). f required \<and> \<not> f caps) cap_fields) @
            (if max_payload_size_bytes required > 0 \<and> max_payload_size_bytes caps < max_payload_size_bytes required
             then [''max_payload_size_bytes''] else []) @
            (if max_concurrent_sessions required > 0 \<and> max_concurrent_sessions caps < max_concurrent_sessions required
             then [''max_concurrent_sessions''] else [])
      in \<lparr>tn_negotiation_id = generate_negotiation_id h (tm_manifest_id m) RUNTIME_VERSION now,
          tn_transport_manifest_id = tm_manifest_id m, tn_runtime_version = RUNTIME_VERSION,
          tn_workspace_version = WORKSPACE_VERSION, tn_transport_version = tm_version m,
          tn_outcome =
            (if missing \<noteq> [] then INCOMPATIBLE
             else if warnings \<noteq> [] then COMPATIBLE
             else if \<not> runtime_compatible \<or> \<not> workspace_compatible then REQUIRES_MIGRATION
             else COMPATIBLE),
          tn_matched_capabilities = matched, tn_missing_capabilities = missing, tn_warnings = warnings,
          tn_required_migrations = [], tn_negotiated_at = now\<rparr>)"

definition check_compatibility :: "TransportManifest \<Rightarrow> RuntimeCompatibility" where
  "check_compatibility m =
     (let runtime_ok = RUNTIME_VERSION \<in> set (tm_supported_runtime_versions m);
          workspace_ok = WORKSPACE_VERSION \<in> set (tm_supported_workspace_versions m)
      in \<lparr>rco_runtime_version = RUNTIME_VERSION, rco_workspace_version = WORKSPACE_VERSION,
          rco_sdk_version = SDK_VERSION, rco_transport_version = tm_version m,
          rco_compatible = (runtime_ok \<and> workspace_ok),
          rco_warnings =
            (if \<not> runtime_ok then [''Runtime '' @ RUNTIME_VERSION @ '' not in supported list''] else []) @
            (if \<not> workspace_ok then [''Workspace '' @ WORKSPACE_VERSION @ '' not in supported list''] else []),
          rco_required_migrations =
            (if \<not> runtime_ok then [''Transport must support runtime '' @ RUNTIME_VERSION] else []) @
            (if \<not> workspace_ok then [''Transport must support workspace '' @ WORKSPACE_VERSION] else [])\<rparr>)"

section \<open>Serialization (serialization\_pipeline.py)\<close>

datatype serializer_error = SerializerValueError string | SerializerError py_error

record Serializer =
  sz_serialize :: "payload \<Rightarrow> serializer_error + string"
  sz_content_type :: string

type_synonym pipeline = "(string, Serializer) dict"

definition pipeline_register :: "pipeline \<Rightarrow> string \<Rightarrow> Serializer \<Rightarrow> pipeline" where
  "pipeline_register p name z = AList.update name z p"

definition pipeline_get :: "pipeline \<Rightarrow> string \<Rightarrow> Serializer option" where
  "pipeline_get p name = map_of p name"

definition list_serializers :: "pipeline \<Rightarrow> string list" where
  "list_serializers p = sort (map fst p)"

definition pipeline_serialize :: "pipeline \<Rightarrow> payload \<Rightarrow> string \<Rightarrow> serializer_error + (string \<times> string)" where
  "pipeline_serialize p package_dict format_name =
     (case map_of p format_name of
        None \<Rightarrow> Inl (SerializerValueError (''Unknown serialization format: '' @ format_name @ ''. Registered: ''
                  @ repr_strs (list_serializers p)))
      | Some z \<Rightarrow> rbind (sz_serialize z package_dict) (\<lambda>bytes. Inr (bytes, sz_content_type z)))"

definition pipeline_clear :: "pipeline \<Rightarrow> pipeline" where
  "pipeline_clear p = []"

section \<open>Sessions (session\_manager.py)\<close>

record TransportSessionManager =
  sm_sessions :: "TransportSession list"
  sm_compiled_at :: string

definition manager_active_sessions :: "TransportSessionManager \<Rightarrow> TransportSession list" where
  "manager_active_sessions m = filter (\<lambda>s. ts_status s \<noteq> CLOSED) (sm_sessions m)"

definition manager_get_session :: "TransportSessionManager \<Rightarrow> string \<Rightarrow> TransportSession option" where
  "manager_get_session m session_id = find (\<lambda>s. ts_session_id s = session_id) (sm_sessions m)"

definition get_by_agent_session :: "TransportSessionManager \<Rightarrow> string \<Rightarrow> TransportSession option" where
  "get_by_agent_session m agent_session_id = find (\<lambda>s. ts_agent_session_id s = agent_session_id) (sm_sessions m)"

definition get_by_workspace :: "TransportSessionManager \<Rightarrow> string \<Rightarrow> TransportSession list" where
  "get_by_workspace m workspace_id = filter (\<lambda>s. ts_workspace_id s = workspace_id) (sm_sessions m)"

definition get_by_transport :: "TransportSessionManager \<Rightarrow> string \<Rightarrow> TransportSession list" where
  "get_by_transport m manifest_id = filter (\<lambda>s. ts_transport_manifest_id s = manifest_id) (sm_sessions m)"

definition has_active_session :: "TransportSessionManager \<Rightarrow> string \<Rightarrow> bool" where
  "has_active_session m agent_session_id \<longleftrightarrow>
     list_ex (\<lambda>s. ts_agent_session_id s = agent_session_id \<and> ts_status s \<noteq> CLOSED) (sm_sessions m)"

definition manager_add_session :: "TransportSessionManager \<Rightarrow> TransportSession \<Rightarrow> TransportSessionManager" where
  "manager_add_session m s = \<lparr>sm_sessions = sm_sessions m @ [s], sm_compiled_at = sm_compiled_at m\<rparr>"

definition manager_update_session :: "TransportSessionManager \<Rightarrow> TransportSession \<Rightarrow> TransportSessionManager" where
  "manager_update_session m s =
     \<lparr>sm_sessions = map (\<lambda>t. if ts_session_id t = ts_session_id s then s else t) (sm_sessions m),
      sm_compiled_at = sm_compiled_at m\<rparr>"

interpretation transports: session_table sm_sessions ts_session_id manager_get_session manager_add_session manager_update_session
  by unfold_locales (simp_all add: manager_get_session_def manager_add_session_def manager_update_session_def update_by_id_def)

section \<open>The runtime (runtime.py)\<close>

definition register_transport :: "string \<Rightarrow> TransportManifest \<Rightarrow> TransportManifest \<times> ConnectorRegisteredPayload" where
  "register_transport now m =
     (m, \<lparr>crp_schema_version = SCHEMA_VERSION, crp_manifest_id = tm_manifest_id m,
          crp_transport_type = transport_type_value (tm_transport_type m), crp_name = tm_name m,
          crp_version = tm_version m, crp_registered_at = now\<rparr>)"

definition transport_negotiate ::
  "host \<Rightarrow> string \<Rightarrow> TransportManifest \<Rightarrow> (TransportNegotiation \<times> ConnectorNegotiatedPayload) outcome" where
  "transport_negotiate h now m =
     (let n = engine_negotiate h now m None
      in if tn_outcome n = REJECTED
         then Error (''Transport '' @ tm_name m @ '' rejected: '' @ repr_strs (tn_warnings n))
         else Done (n, \<lparr>cnp_schema_version = SCHEMA_VERSION, cnp_negotiation_id = tn_negotiation_id n,
                cnp_manifest_id = tm_manifest_id m, cnp_outcome = outcome_value (tn_outcome n),
                cnp_matched_capabilities = tn_matched_capabilities n,
                cnp_missing_capabilities = tn_missing_capabilities n, cnp_negotiated_at = tn_negotiated_at n\<rparr>))"

definition transport_attach ::
  "host \<Rightarrow> string \<Rightarrow> TransportManifest \<Rightarrow> TransportNegotiation \<Rightarrow> string \<Rightarrow> string
    \<Rightarrow> (TransportSession \<times> ConnectorAttachedPayload) outcome" where
  "transport_attach h now m n agent_session_id workspace_id =
     (if tn_outcome n \<noteq> COMPATIBLE
      then Error (''Cannot attach: negotiation outcome is '' @ outcome_value (tn_outcome n))
      else let sid = generate_transport_session_id h (tm_manifest_id m) agent_session_id now
        in Done (\<lparr>ts_session_id = sid, ts_transport_manifest_id = tm_manifest_id m,
                  ts_negotiation_id = tn_negotiation_id n, ts_agent_session_id = agent_session_id,
                  ts_workspace_id = workspace_id, ts_status = CREATED, ts_packages_sent = 0,
                  ts_bytes_transferred = 0, ts_created_at = now, ts_last_active_at = now, ts_closed_at = None\<rparr>,
                 \<lparr>cap_schema_version = SCHEMA_VERSION, cap_session_id = sid,
                  cap_transport_manifest_id = tm_manifest_id m, cap_agent_session_id = agent_session_id,
                  cap_workspace_id = workspace_id, cap_attached_at = now\<rparr>))"

definition transport_stream_package ::
  "string \<Rightarrow> pipeline \<Rightarrow> TransportSession \<Rightarrow> payload \<Rightarrow> string
    \<Rightarrow> (TransportSession \<times> TransportPackageStreamedPayload \<times> string) outcome result" where
  "transport_stream_package now p s package_dict format_name =
     (if ts_status s = CLOSED \<or> ts_status s = DISCONNECTED
      then Inr (Error (''Cannot stream: session is '' @ transport_status_value (ts_status s)))
      else case pipeline_serialize p package_dict format_name of
        Inl (SerializerValueError t) \<Rightarrow> Inr (Error t)
      | Inl (SerializerError e) \<Rightarrow> Inl e
      | Inr (serialized, content_type) \<Rightarrow> Inr (Done
          (s\<lparr>ts_status := STREAMING, ts_packages_sent := ts_packages_sent s + 1,
             ts_bytes_transferred := ts_bytes_transferred s + int (length serialized), ts_last_active_at := now\<rparr>,
           \<lparr>tsp_schema_version = SCHEMA_VERSION, tsp_session_id = ts_session_id s,
            tsp_package_id = get_or package_dict ''package_id'' (JStr []),
            tsp_bytes_transferred = int (length serialized), tsp_serialization_format = format_name,
            tsp_streamed_at = now\<rparr>,
           serialized)))"

definition transport_detach :: "string \<Rightarrow> TransportSession \<Rightarrow> (TransportSession \<times> ConnectorDetachedPayload) outcome" where
  "transport_detach now s =
     (if ts_status s = CLOSED then Error ''Session is already closed''
      else Done (s\<lparr>ts_status := CLOSED, ts_last_active_at := now, ts_closed_at := Some now\<rparr>,
             \<lparr>cdp_schema_version = SCHEMA_VERSION, cdp_session_id = ts_session_id s,
              cdp_workspace_id = ts_workspace_id s, cdp_packages_sent = ts_packages_sent s,
              cdp_bytes_transferred = ts_bytes_transferred s, cdp_detached_at = now\<rparr>))"

definition unregister_transport :: "string \<Rightarrow> TransportManifest \<Rightarrow> string \<Rightarrow> ConnectorUnregisteredPayload" where
  "unregister_transport now m reason =
     \<lparr>cup_schema_version = SCHEMA_VERSION, cup_manifest_id = tm_manifest_id m, cup_reason = reason,
      cup_unregistered_at = now\<rparr>"

section \<open>Negotiation\<close>

abbreviation required_of :: "TransportCapabilities option \<Rightarrow> TransportCapabilities" where
  "required_of r \<equiv> (case r of None \<Rightarrow> default_capabilities | Some c \<Rightarrow> c)"

lemma missing_satisfies: "tn_missing_capabilities (engine_negotiate h now m r) = [] \<longleftrightarrow> satisfies (tm_capabilities m) (required_of r)"
  by (simp add: engine_negotiate_def Let_def satisfies_def cap_fields_def)

lemma outcome_cases:
  "tn_outcome (engine_negotiate h now m r) =
     (if \<not> satisfies (tm_capabilities m) (required_of r) then INCOMPATIBLE
      else if rco_compatible (check_compatibility m) \<or>
        (RUNTIME_VERSION \<notin> set (tm_supported_runtime_versions m) \<and> tm_supported_runtime_versions m \<noteq> []) \<or>
        (WORKSPACE_VERSION \<notin> set (tm_supported_workspace_versions m) \<and> tm_supported_workspace_versions m \<noteq> [])
      then COMPATIBLE else REQUIRES_MIGRATION)"
proof -
  have "tn_outcome (engine_negotiate h now m r) =
     (if tn_missing_capabilities (engine_negotiate h now m r) \<noteq> [] then INCOMPATIBLE
      else if tn_warnings (engine_negotiate h now m r) \<noteq> [] then COMPATIBLE
      else if \<not> rco_compatible (check_compatibility m) then REQUIRES_MIGRATION else COMPATIBLE)"
    by (simp add: engine_negotiate_def check_compatibility_def Let_def)
  moreover have "tn_warnings (engine_negotiate h now m r) \<noteq> [] \<longleftrightarrow>
      (RUNTIME_VERSION \<notin> set (tm_supported_runtime_versions m) \<and> tm_supported_runtime_versions m \<noteq> []) \<or>
      (WORKSPACE_VERSION \<notin> set (tm_supported_workspace_versions m) \<and> tm_supported_workspace_versions m \<noteq> [])"
    by (simp add: engine_negotiate_def Let_def)
  ultimately show ?thesis by (simp add: missing_satisfies)
qed

lemma negotiate_lists:
  "tn_matched_capabilities (engine_negotiate h now m r) =
     map fst (filter (\<lambda>(n, f). f (required_of r) \<and> f (tm_capabilities m)) cap_fields)"
  "\<exists>rest. tn_missing_capabilities (engine_negotiate h now m r) =
     map fst (filter (\<lambda>(n, f). f (required_of r) \<and> \<not> f (tm_capabilities m)) cap_fields) @ rest"
  by (simp_all add: engine_negotiate_def Let_def)

lemma negotiation_agrees_parts:
  shows "tn_missing_capabilities (engine_negotiate h now m r) = [] \<longleftrightarrow> satisfies (tm_capabilities m) (required_of r)"
    and "tn_outcome (engine_negotiate h now m r) = INCOMPATIBLE \<longleftrightarrow> \<not> satisfies (tm_capabilities m) (required_of r)"
    and "set (tn_matched_capabilities (engine_negotiate h now m r)) \<union> set (tn_missing_capabilities (engine_negotiate h now m r))
           \<supseteq> {n. \<exists>f. (n, f) \<in> set cap_fields \<and> f (required_of r)}"
    and "tn_outcome (engine_negotiate h now m r) \<noteq> REJECTED"
    and "\<exists>e. transport_negotiate h now m = Done (engine_negotiate h now m None, e)"
proof -
  show "tn_missing_capabilities (engine_negotiate h now m r) = [] \<longleftrightarrow> satisfies (tm_capabilities m) (required_of r)"
    by (rule missing_satisfies)
  show no: "tn_outcome (engine_negotiate h now m r) \<noteq> REJECTED" for r by (simp add: outcome_cases)
  then show "\<exists>e. transport_negotiate h now m = Done (engine_negotiate h now m None, e)"
    by (simp add: transport_negotiate_def Let_def)
  show "set (tn_matched_capabilities (engine_negotiate h now m r)) \<union> set (tn_missing_capabilities (engine_negotiate h now m r))
           \<supseteq> {n. \<exists>f. (n, f) \<in> set cap_fields \<and> f (required_of r)}"
  proof
    fix n assume "n \<in> {n. \<exists>f. (n, f) \<in> set cap_fields \<and> f (required_of r)}"
    then obtain f where f: "(n, f) \<in> set cap_fields" "f (required_of r)" by blast
    obtain rest where "tn_missing_capabilities (engine_negotiate h now m r) =
        map fst (filter (\<lambda>(n, f). f (required_of r) \<and> \<not> f (tm_capabilities m)) cap_fields) @ rest"
      using negotiate_lists(2) by blast
    with f show "n \<in> set (tn_matched_capabilities (engine_negotiate h now m r))
        \<union> set (tn_missing_capabilities (engine_negotiate h now m r))"
      by (cases "f (tm_capabilities m)") (force simp: negotiate_lists(1))+
  qed
qed (simp add: outcome_cases)

text \<open>Negotiation and the capability check agree: no capability is reported missing exactly if the
  transport satisfies what is required, and every required flag is reported as matched or missing.  A
  transport that does not satisfy them is incompatible, no negotiation ends as rejected, and so
  negotiating never returns an error.\<close>

theorem negotiation_agrees:
  shows "(tn_missing_capabilities (engine_negotiate h now m r) = [] \<longleftrightarrow> satisfies (tm_capabilities m) (required_of r)) \<and>
         (tn_outcome (engine_negotiate h now m r) = INCOMPATIBLE \<longleftrightarrow> \<not> satisfies (tm_capabilities m) (required_of r)) \<and>
         (set (tn_matched_capabilities (engine_negotiate h now m r)) \<union> set (tn_missing_capabilities (engine_negotiate h now m r))
           \<supseteq> {n. \<exists>f. (n, f) \<in> set cap_fields \<and> f (required_of r)}) \<and>
         (tn_outcome (engine_negotiate h now m r) \<noteq> REJECTED) \<and>
         (\<exists>e. transport_negotiate h now m = Done (engine_negotiate h now m None, e))"
  by (rule conjI, rule negotiation_agrees_parts(1), rule conjI, rule negotiation_agrees_parts(2),
      rule conjI, rule negotiation_agrees_parts(3), rule conjI, rule negotiation_agrees_parts(4),
      rule negotiation_agrees_parts(5))

lemma mismatch_is_compatible_parts:
  assumes "satisfies (tm_capabilities m) default_capabilities"
    and "RUNTIME_VERSION \<notin> set (tm_supported_runtime_versions m)"
  shows "tm_supported_runtime_versions m \<noteq> [] \<Longrightarrow>
           (\<exists>x. transport_attach h now m (engine_negotiate h now m None) a w = Done x) \<and>
           \<not> rco_compatible (check_compatibility m) \<and> rco_required_migrations (check_compatibility m) \<noteq> []"
    and "tm_supported_runtime_versions m = [] \<Longrightarrow> tm_supported_workspace_versions m = [] \<Longrightarrow>
           tn_outcome (engine_negotiate h now m None) = REQUIRES_MIGRATION \<and>
           transport_attach h now m (engine_negotiate h now m None) a w
             = Error ''Cannot attach: negotiation outcome is REQUIRES_MIGRATION''"
proof -
  assume "tm_supported_runtime_versions m \<noteq> []"
  with assms have "tn_outcome (engine_negotiate h now m None) = COMPATIBLE" by (simp add: outcome_cases)
  with assms(2) show "(\<exists>x. transport_attach h now m (engine_negotiate h now m None) a w = Done x) \<and>
           \<not> rco_compatible (check_compatibility m) \<and> rco_required_migrations (check_compatibility m) \<noteq> []"
    by (simp add: transport_attach_def check_compatibility_def Let_def)
next
  assume "tm_supported_runtime_versions m = []" "tm_supported_workspace_versions m = []"
  then have "tn_outcome (engine_negotiate h now m None) = REQUIRES_MIGRATION"
    using assms(1) by (simp add: outcome_cases check_compatibility_def Let_def)
  then show "tn_outcome (engine_negotiate h now m None) = REQUIRES_MIGRATION \<and>
           transport_attach h now m (engine_negotiate h now m None) a w
             = Error ''Cannot attach: negotiation outcome is REQUIRES_MIGRATION''"
    by (simp add: transport_attach_def)
qed

text \<open>A declared version mismatch does not stop a transport.  A transport that satisfies the
  requirements and lists supported runtime versions without the current one is compatible and can be
  attached, although the compatibility check calls it incompatible and asks for a migration; one that
  lists no versions at all needs a migration and cannot be attached.\<close>

theorem mismatch_is_compatible:
  assumes "satisfies (tm_capabilities m) default_capabilities"
    and "RUNTIME_VERSION \<notin> set (tm_supported_runtime_versions m)"
  shows "(tm_supported_runtime_versions m \<noteq> [] \<longrightarrow>
          ((\<exists>x. transport_attach h now m (engine_negotiate h now m None) a w = Done x) \<and>
           \<not> rco_compatible (check_compatibility m) \<and> rco_required_migrations (check_compatibility m) \<noteq> [])) \<and>
         (tm_supported_runtime_versions m = [] \<longrightarrow>
          tm_supported_workspace_versions m = [] \<longrightarrow>
          (tn_outcome (engine_negotiate h now m None) = REQUIRES_MIGRATION \<and>
           transport_attach h now m (engine_negotiate h now m None) a w
             = Error ''Cannot attach: negotiation outcome is REQUIRES_MIGRATION''))"
  by (rule conjI, rule impI, rule mismatch_is_compatible_parts(1) [OF assms(1) assms(2)], assumption, rule impI, rule impI, rule mismatch_is_compatible_parts(2) [OF assms(1) assms(2)], assumption, assumption)

definition sample_manifest :: "string list \<Rightarrow> TransportManifest" where
  "sample_manifest versions = \<lparr>tm_manifest_id = ''TMNF-1'', tm_name = ''cli'', tm_transport_type = CLI,
     tm_version = ''1.0.0'', tm_capabilities = default_capabilities\<lparr>supports_streaming := True\<rparr>,
     tm_supported_runtime_versions = versions, tm_supported_workspace_versions = versions, tm_metadata = []\<rparr>"

theorem mismatch_is_compatible_witness:
  "(\<exists>x. transport_attach sample_host ''t'' (sample_manifest [''2.2.0''])
      (engine_negotiate sample_host ''t'' (sample_manifest [''2.2.0'']) None) ''a'' ''w'' = Done x) \<and>
   tn_outcome (engine_negotiate sample_host ''t'' (sample_manifest []) None) = REQUIRES_MIGRATION"
proof -
  have s: "satisfies (tm_capabilities (sample_manifest vs)) default_capabilities" for vs
    by (simp add: sample_manifest_def satisfies_def default_capabilities_def)
  have v: "RUNTIME_VERSION \<notin> set (tm_supported_runtime_versions (sample_manifest [''2.2.0'']))"
    "RUNTIME_VERSION \<notin> set (tm_supported_runtime_versions (sample_manifest []))"
    by (simp_all add: sample_manifest_def RUNTIME_VERSION_def)
  show ?thesis
    using mismatch_is_compatible [OF s v(1), THEN conjunct1] mismatch_is_compatible [OF s v(2), THEN conjunct2]
    by (simp add: sample_manifest_def)
qed

section \<open>Accounting\<close>

text \<open>The sessions that the transport runtime can produce, with the bytes of every package sent.\<close>

inductive transport_reachable :: "host \<Rightarrow> TransportSession \<Rightarrow> string list \<Rightarrow> bool" for h where
  attached: "transport_attach h now m n agent_session_id workspace_id = Done (s, e) \<Longrightarrow> transport_reachable h s []"
| streamed: "transport_reachable h s sent \<Longrightarrow>
    transport_stream_package now p s package_dict format_name = Inr (Done (s', e, bytes)) \<Longrightarrow>
    transport_reachable h s' (sent @ [bytes])"
| detached: "transport_reachable h s sent \<Longrightarrow> transport_detach now s = Done (s', e) \<Longrightarrow> transport_reachable h s' sent"

lemma stream_Done:
  assumes "transport_stream_package now p s d f = Inr (Done (s', e, bytes))"
  shows "ts_status s \<notin> {CLOSED, DISCONNECTED} \<and> (\<exists>ct. pipeline_serialize p d f = Inr (bytes, ct)) \<and>
    s' = s\<lparr>ts_status := STREAMING, ts_packages_sent := ts_packages_sent s + 1,
      ts_bytes_transferred := ts_bytes_transferred s + int (length bytes), ts_last_active_at := now\<rparr>"
  using assms by (auto simp: transport_stream_package_def split: if_splits sum.splits serializer_error.splits prod.splits)

lemma detach_Done:
  "transport_detach now s = Done (s', e) \<Longrightarrow> ts_status s \<noteq> CLOSED \<and>
     s' = s\<lparr>ts_status := CLOSED, ts_last_active_at := now, ts_closed_at := Some now\<rparr> \<and>
     cdp_packages_sent e = ts_packages_sent s \<and> cdp_bytes_transferred e = ts_bytes_transferred s"
  by (auto simp: transport_detach_def split: if_splits)

definition transport_inv :: "TransportSession \<Rightarrow> string list \<Rightarrow> bool" where
  "transport_inv s sent \<longleftrightarrow>
     ts_packages_sent s = int (length sent) \<and> ts_bytes_transferred s = int (sum_list (map length sent)) \<and>
     ts_status s \<in> {CREATED, STREAMING, CLOSED} \<and> (ts_closed_at s \<noteq> None \<longleftrightarrow> ts_status s = CLOSED) \<and>
     (ts_status s = CREATED \<longrightarrow> sent = [])"

lemma transport_reachable_inv: "transport_reachable h s sent \<Longrightarrow> transport_inv s sent"
proof (induction rule: transport_reachable.induct)
  case (attached now m n agent_session_id workspace_id s e)
  then show ?case by (auto simp: transport_inv_def transport_attach_def Let_def split: if_splits)
next
  case (streamed s sent now p package_dict format_name s' e bytes)
  then show ?case using stream_Done [OF streamed(2)] by (auto simp: transport_inv_def)
next
  case (detached s sent now s' e)
  then show ?case using detach_Done [OF detached(2)] by (auto simp: transport_inv_def)
qed

lemma transport_accounting_parts:
  assumes "transport_reachable h s sent"
  shows "transport_inv s sent"
    and "transport_detach now s = Done (s', e) \<Longrightarrow>
           cdp_packages_sent e = int (length sent) \<and> cdp_bytes_transferred e = int (sum_list (map length sent))"
    and "ts_status s = CLOSED \<Longrightarrow> transport_detach now s = Error ''Session is already closed'' \<and>
           transport_stream_package now p s d f = Inr (Error ''Cannot stream: session is CLOSED'')"
proof -
  show inv: "transport_inv s sent" by (rule transport_reachable_inv [OF assms])
  show "transport_detach now s = Done (s', e) \<Longrightarrow>
           cdp_packages_sent e = int (length sent) \<and> cdp_bytes_transferred e = int (sum_list (map length sent))"
    using inv by (simp add: detach_Done transport_inv_def)
qed (simp add: transport_detach_def transport_stream_package_def)

text \<open>Property C22: a transport session counts what it sends.  Its counters are the number of packages
  streamed and the sum of their sizes, whatever formats were used and wherever failures occurred in
  between; it has a closing time exactly if it is closed, and the event of a detach reports the totals.\<close>

theorem transport_accounting:
  assumes "transport_reachable h s sent"
  shows "(transport_inv s sent) \<and>
         (transport_detach now s = Done (s', e) \<longrightarrow>
          (cdp_packages_sent e = int (length sent) \<and> cdp_bytes_transferred e = int (sum_list (map length sent)))) \<and>
         (ts_status s = CLOSED \<longrightarrow>
          (transport_detach now s = Error ''Session is already closed'' \<and>
           transport_stream_package now p s d f = Inr (Error ''Cannot stream: session is CLOSED'')))"
  by (rule conjI, rule transport_accounting_parts(1) [OF assms], rule conjI, rule impI,
      rule transport_accounting_parts(2) [OF assms], assumption, rule impI,
      rule transport_accounting_parts(3) [OF assms], assumption)

text \<open>The bytes transferred are bounded by the number of packages times the size of the largest
  package, so a limit on every package is a limit on the session.\<close>

theorem transport_bytes_bound:
  assumes "transport_reachable h s sent" and "list_all (\<lambda>b. length b \<le> limit) sent"
  shows "0 \<le> ts_bytes_transferred s \<and> ts_bytes_transferred s \<le> ts_packages_sent s * int limit"
proof -
  have "sum_list (map length sent) \<le> length sent * limit"
    using assms(2) by (induction sent) (auto simp: algebra_simps)
  then have "int (sum_list (map length sent)) \<le> int (length sent) * int limit"
    by (metis of_nat_mono of_nat_mult)
  with transport_reachable_inv [OF assms(1)] show ?thesis by (simp add: transport_inv_def)
qed

definition sample_pipeline :: pipeline where
  "sample_pipeline = pipeline_register [] ''JSON''
     \<lparr>sz_serialize = (\<lambda>d. Inr (json_dumps default_format False (JDict d))), sz_content_type = ''application/json''\<rparr>"

definition sample_transport_session :: TransportSession where
  "sample_transport_session = \<lparr>ts_session_id = generate_transport_session_id sample_host ''TMNF-1'' ''AGS-1'' ''t'',
     ts_transport_manifest_id = ''TMNF-1'',
     ts_negotiation_id = tn_negotiation_id (engine_negotiate sample_host ''t'' (sample_manifest [''2.2.0'']) None),
     ts_agent_session_id = ''AGS-1'', ts_workspace_id = ''WS-1'', ts_status = CREATED, ts_packages_sent = 0,
     ts_bytes_transferred = 0, ts_created_at = ''t'', ts_last_active_at = ''t'', ts_closed_at = None\<rparr>"

lemma sample_transport_reachable: "transport_reachable sample_host sample_transport_session []"
proof -
  have "tn_outcome (engine_negotiate sample_host ''t'' (sample_manifest [''2.2.0'']) None) = COMPATIBLE"
    by (simp add: outcome_cases sample_manifest_def satisfies_def default_capabilities_def RUNTIME_VERSION_def)
  then have "\<exists>e. transport_attach sample_host ''t'' (sample_manifest [''2.2.0''])
      (engine_negotiate sample_host ''t'' (sample_manifest [''2.2.0'']) None) ''AGS-1'' ''WS-1'' = Done (sample_transport_session, e)"
    by (simp add: transport_attach_def sample_transport_session_def sample_manifest_def Let_def)
  then show ?thesis by (blast intro: attached)
qed

lemma sample_transport_streamed:
  "\<exists>s'. transport_reachable sample_host s' [''{}'']"
proof -
  have "\<exists>s' e. transport_stream_package ''u'' sample_pipeline sample_transport_session [] ''JSON'' = Inr (Done (s', e, ''{}''))"
    by (simp add: transport_stream_package_def sample_transport_session_def pipeline_serialize_def sample_pipeline_def
        pipeline_register_def json_dumps_def)
  then show ?thesis using streamed [OF sample_transport_reachable] by fastforce
qed

theorem transport_accounting_witness:
  "\<exists>s'. transport_reachable sample_host s' [''{}''] \<and> ts_packages_sent s' = 1 \<and> ts_bytes_transferred s' = 2"
proof -
  obtain s' where r: "transport_reachable sample_host s' [''{}'']" using sample_transport_streamed ..
  from transport_accounting [OF r, THEN conjunct1] r show ?thesis by (auto simp: transport_inv_def)
qed

theorem transport_bytes_bound_witness:
  "\<exists>s'. transport_reachable sample_host s' [''{}''] \<and> ts_bytes_transferred s' \<le> ts_packages_sent s' * 5"
proof -
  obtain s' where r: "transport_reachable sample_host s' [''{}'']" using sample_transport_streamed ..
  from transport_bytes_bound [OF r, of 5] r show ?thesis by auto
qed

end
