(* ===== verification/AgentRuntime.thy ===== *)
theory AgentRuntime
  imports Workspaces SessionTable
begin

text \<open>
  The agent runtime, \<open>rationalevault/runtime\<close>: profiles, capabilities and sessions of agents
  (\<open>models.py\<close>, \<open>events.py\<close>), the capability resolver, the workspace binder, the session registry,
  the package streamer and the runtime that puts them together (\<open>agent_runtime.py\<close>).

  The time \<open>now\<close> is an argument, as for workspaces.  Identifiers are hashes: two different sessions
  may have the same id in the model unless a hypothesis excludes it.
\<close>

section \<open>Models (models.py)\<close>

datatype AgentVendor = ANTHROPIC | OPENAI | GOOGLE | AZURE | LOCAL | CUSTOM

datatype AgentStatus = ACTIVE | INACTIVE | DEPRECATED

datatype SessionStatus = CREATED | ATTACHED | STREAMING | PAUSED | RESUMED | DETACHED | CLOSED

datatype Capability =
    READ_WORKSPACE | READ_MEMORY | READ_LINEAGE | READ_KNOWLEDGE | SUGGEST | EXECUTE_SKILLS
  | REQUEST_PROMOTION | CREATE_REFLECTION | VIEW_SYSTEM | EXPORT_PACKAGE | CAN_HOST_REMOTE
  | CAN_MIGRATE | CAN_AGGREGATE_TELEMETRY | CAN_SIMULATE | CAN_VIEW_POLICY

datatype CapabilityProfile = OBSERVER | PLANNER | RESEARCHER | EXECUTOR | ADMINISTRATOR

fun vendor_value :: "AgentVendor \<Rightarrow> string" where
  "vendor_value ANTHROPIC = ''ANTHROPIC''"
| "vendor_value OPENAI = ''OPENAI''"
| "vendor_value GOOGLE = ''GOOGLE''"
| "vendor_value AZURE = ''AZURE''"
| "vendor_value LOCAL = ''LOCAL''"
| "vendor_value CUSTOM = ''CUSTOM''"

fun status_value :: "SessionStatus \<Rightarrow> string" where
  "status_value CREATED = ''CREATED''"
| "status_value ATTACHED = ''ATTACHED''"
| "status_value STREAMING = ''STREAMING''"
| "status_value PAUSED = ''PAUSED''"
| "status_value RESUMED = ''RESUMED''"
| "status_value DETACHED = ''DETACHED''"
| "status_value CLOSED = ''CLOSED''"

fun capability_value :: "Capability \<Rightarrow> string" where
  "capability_value READ_WORKSPACE = ''READ_WORKSPACE''"
| "capability_value READ_MEMORY = ''READ_MEMORY''"
| "capability_value READ_LINEAGE = ''READ_LINEAGE''"
| "capability_value READ_KNOWLEDGE = ''READ_KNOWLEDGE''"
| "capability_value SUGGEST = ''SUGGEST''"
| "capability_value EXECUTE_SKILLS = ''EXECUTE_SKILLS''"
| "capability_value REQUEST_PROMOTION = ''REQUEST_PROMOTION''"
| "capability_value CREATE_REFLECTION = ''CREATE_REFLECTION''"
| "capability_value VIEW_SYSTEM = ''VIEW_SYSTEM''"
| "capability_value EXPORT_PACKAGE = ''EXPORT_PACKAGE''"
| "capability_value CAN_HOST_REMOTE = ''CAN_HOST_REMOTE''"
| "capability_value CAN_MIGRATE = ''CAN_MIGRATE''"
| "capability_value CAN_AGGREGATE_TELEMETRY = ''CAN_AGGREGATE_TELEMETRY''"
| "capability_value CAN_SIMULATE = ''CAN_SIMULATE''"
| "capability_value CAN_VIEW_POLICY = ''CAN_VIEW_POLICY''"

definition all_capabilities :: "Capability list" where
  "all_capabilities =
     [READ_WORKSPACE, READ_MEMORY, READ_LINEAGE, READ_KNOWLEDGE, SUGGEST, EXECUTE_SKILLS,
      REQUEST_PROMOTION, CREATE_REFLECTION, VIEW_SYSTEM, EXPORT_PACKAGE, CAN_HOST_REMOTE, CAN_MIGRATE,
      CAN_AGGREGATE_TELEMETRY, CAN_SIMULATE, CAN_VIEW_POLICY]"

fun CAPABILITY_PROFILES :: "CapabilityProfile \<Rightarrow> Capability set" where
  "CAPABILITY_PROFILES OBSERVER =
     {READ_WORKSPACE, READ_MEMORY, READ_LINEAGE, READ_KNOWLEDGE, VIEW_SYSTEM}"
| "CAPABILITY_PROFILES PLANNER =
     {READ_WORKSPACE, READ_MEMORY, READ_LINEAGE, READ_KNOWLEDGE, VIEW_SYSTEM, SUGGEST, REQUEST_PROMOTION}"
| "CAPABILITY_PROFILES RESEARCHER =
     {READ_WORKSPACE, READ_MEMORY, READ_LINEAGE, READ_KNOWLEDGE, VIEW_SYSTEM, SUGGEST, CREATE_REFLECTION,
      EXPORT_PACKAGE}"
| "CAPABILITY_PROFILES EXECUTOR =
     {READ_WORKSPACE, READ_MEMORY, READ_LINEAGE, READ_KNOWLEDGE, VIEW_SYSTEM, SUGGEST, EXECUTE_SKILLS,
      REQUEST_PROMOTION, CREATE_REFLECTION, EXPORT_PACKAGE}"
| "CAPABILITY_PROFILES ADMINISTRATOR = set all_capabilities"

record AgentProfile =
  ap_profile_id :: string
  ap_name :: string
  ap_vendor :: AgentVendor
  ap_model_id :: string
  ap_capabilities :: "Capability set"
  ap_status :: AgentStatus
  ap_metadata :: "(string, string) dict"
  ap_created_at :: string
  ap_updated_at :: string

definition generate_profile_id :: "host \<Rightarrow> string \<Rightarrow> AgentVendor \<Rightarrow> string \<Rightarrow> string" where
  "generate_profile_id h name vendor created_at =
     short_id h ''AGNT-'' [''agent_profile'', name, vendor_value vendor, created_at]"

record AgentCapabilities =
  ac_profile_id :: string
  ac_granted :: "Capability set"
  ac_denied :: "Capability set"
  ac_resolved_at :: string

definition effective :: "AgentCapabilities \<Rightarrow> Capability set" where
  "effective c = ac_granted c - ac_denied c"

definition has_capability :: "AgentCapabilities \<Rightarrow> Capability \<Rightarrow> bool" where
  "has_capability c capability \<longleftrightarrow> capability \<in> effective c"

text \<open>\<open>sorted(c.value for c in s)\<close>.\<close>

definition capability_values :: "Capability set \<Rightarrow> string list" where
  "capability_values s = sort (map capability_value (filter (\<lambda>c. c \<in> s) all_capabilities))"

record WorkspaceBinding =
  wb_binding_id :: string
  wb_session_id :: string
  wb_workspace_id :: string
  wb_role :: string
  wb_attached_at :: string
  wb_detached_at :: "string option"

definition generate_binding_id :: "host \<Rightarrow> string \<Rightarrow> string \<Rightarrow> string" where
  "generate_binding_id h session_id workspace_id =
     short_id h ''WSB-'' [''workspace_binding'', session_id, workspace_id]"

record RuntimeContext =
  rc_context_id :: string
  rc_session_id :: string
  rc_binding_id :: string
  rc_workspace_id :: string
  rc_agent_id :: string
  rc_goals :: "string list"
  rc_open_decisions :: "string list"
  rc_running_executions :: "string list"
  rc_pending_reflections :: "string list"
  rc_recent_knowledge :: "string list"
  rc_planner_policy_summary :: string
  rc_memory_focus :: "string list"
  rc_lineage_summary :: "string list"
  rc_capabilities :: "Capability set"
  rc_created_at :: string

record SessionSnapshot =
  sn_snapshot_id :: string
  sn_session_id :: string
  sn_workspace_id :: string
  sn_agent_id :: string
  sn_status :: string
  sn_capabilities :: "Capability set"
  sn_packages_streamed :: int
  sn_events_emitted :: int
  sn_created_at :: string

definition generate_session_snapshot_id :: "host \<Rightarrow> string \<Rightarrow> string \<Rightarrow> string" where
  "generate_session_snapshot_id h session_id created_at =
     short_id h ''SSSN-'' [''session_snapshot'', session_id, created_at]"

record AgentSession =
  ags_session_id :: string
  ags_profile_id :: string
  ags_workspace_id :: string
  ags_status :: SessionStatus
  ags_binding_id :: string
  ags_context_id :: "string option"
  ags_snapshot_id :: "string option"
  ags_protocol_version :: string
  ags_started_at :: string
  ags_last_active_at :: string
  ags_ended_at :: "string option"

definition generate_agent_session_id :: "host \<Rightarrow> string \<Rightarrow> string \<Rightarrow> string \<Rightarrow> string" where
  "generate_agent_session_id h profile_id workspace_id created_at =
     short_id h ''AGS-'' [''agent_session'', profile_id, workspace_id, created_at]"

record ProtocolVersion =
  pv_major :: int
  pv_minor :: int
  pv_patch :: int

definition protocol_parse :: "string \<Rightarrow> ProtocolVersion result" where
  "protocol_parse s =
     (let parts = split_on (CHR ''.'') (strip_ws s)
      in if length parts \<noteq> 3 then Inl (ValueError ''Invalid protocol version'')
         else rbind (int_of_text (parts ! 0)) (\<lambda>a.
              rbind (int_of_text (parts ! 1)) (\<lambda>b.
              rbind (int_of_text (parts ! 2)) (\<lambda>c. Inr \<lparr>pv_major = a, pv_minor = b, pv_patch = c\<rparr>))))"

definition protocol_is_compatible :: "ProtocolVersion \<Rightarrow> ProtocolVersion \<Rightarrow> bool" where
  "protocol_is_compatible v w \<longleftrightarrow> pv_major v = pv_major w"

definition protocol_str :: "ProtocolVersion \<Rightarrow> string" where
  "protocol_str v = show_int (pv_major v) @ ''.'' @ show_int (pv_minor v) @ ''.'' @ show_int (pv_patch v)"

section \<open>Event payloads (events.py)\<close>

record SessionCreatedPayload =
  scp_schema_version :: string
  scp_session_id :: string
  scp_profile_id :: string
  scp_workspace_id :: string
  scp_binding_id :: string
  scp_protocol_version :: string
  scp_created_at :: string

record SessionAttachedPayload =
  sap_schema_version :: string
  sap_session_id :: string
  sap_workspace_id :: string
  sap_binding_id :: string
  sap_capabilities :: "string list"
  sap_attached_at :: string

record PackageStreamedPayload =
  psp_schema_version :: string
  psp_session_id :: string
  psp_package_id :: string
  psp_context_id :: string
  psp_agent_id :: string
  psp_streamed_at :: string

record SessionPausedPayload =
  spp_schema_version :: string
  spp_session_id :: string
  spp_workspace_id :: string
  spp_paused_at :: string

record SessionResumedPayload =
  srp_schema_version :: string
  srp_session_id :: string
  srp_workspace_id :: string
  srp_resumed_at :: string

record SessionDetachedPayload =
  sdp_schema_version :: string
  sdp_session_id :: string
  sdp_workspace_id :: string
  sdp_binding_id :: string
  sdp_detached_at :: string

record SessionClosedPayload =
  slp_schema_version :: string
  slp_session_id :: string
  slp_workspace_id :: string
  slp_profile_id :: string
  slp_packages_streamed :: int
  slp_events_emitted :: int
  slp_closed_at :: string

section \<open>Capability resolver (capability\_resolver.py)\<close>

definition resolve_capabilities :: "string \<Rightarrow> AgentProfile \<Rightarrow> Capability set \<Rightarrow> AgentCapabilities" where
  "resolve_capabilities now profile denied =
     \<lparr>ac_profile_id = ap_profile_id profile, ac_granted = ap_capabilities profile, ac_denied = denied,
      ac_resolved_at = now\<rparr>"

text \<open>
  \<open>CapabilityProfile(name.upper())\<close>.  Upper-casing letters outside ASCII gives no letter of a
  profile's name, so \<open>ascii_upper\<close> finds the same profiles.
\<close>

definition profile_of_name :: "string \<Rightarrow> CapabilityProfile option" where
  "profile_of_name name = map_of
     [(''OBSERVER'', OBSERVER), (''PLANNER'', PLANNER), (''RESEARCHER'', RESEARCHER), (''EXECUTOR'', EXECUTOR),
      (''ADMINISTRATOR'', ADMINISTRATOR)] (ascii_upper name)"

definition resolve_from_profile_name :: "string \<Rightarrow> string \<Rightarrow> Capability set \<Rightarrow> AgentCapabilities" where
  "resolve_from_profile_name now profile_name denied =
     \<lparr>ac_profile_id = ''profile:'' @ profile_name,
      ac_granted = (case profile_of_name profile_name of None \<Rightarrow> {} | Some p \<Rightarrow> CAPABILITY_PROFILES p),
      ac_denied = denied, ac_resolved_at = now\<rparr>"

definition merge_capabilities :: "AgentCapabilities \<Rightarrow> AgentCapabilities \<Rightarrow> AgentCapabilities" where
  "merge_capabilities a b =
     \<lparr>ac_profile_id = ac_profile_id a, ac_granted = ac_granted a \<union> ac_granted b,
      ac_denied = ac_denied a \<inter> ac_denied b, ac_resolved_at = ac_resolved_at a\<rparr>"

section \<open>Workspace binder (workspace\_binder.py)\<close>

definition binder_attach ::
  "host \<Rightarrow> string \<Rightarrow> AgentSession \<Rightarrow> string \<Rightarrow> AgentRole \<Rightarrow> AgentSession \<times> WorkspaceBinding" where
  "binder_attach h now s workspace_id role =
     (let b = \<lparr>wb_binding_id = generate_binding_id h (ags_session_id s) workspace_id,
               wb_session_id = ags_session_id s, wb_workspace_id = workspace_id, wb_role = role_value role,
               wb_attached_at = now, wb_detached_at = None\<rparr>
      in (s\<lparr>ags_workspace_id := workspace_id, ags_status := ATTACHED, ags_binding_id := wb_binding_id b,
            ags_last_active_at := now\<rparr>, b))"

definition binder_detach :: "string \<Rightarrow> AgentSession \<Rightarrow> WorkspaceBinding \<Rightarrow> AgentSession \<times> WorkspaceBinding" where
  "binder_detach now s b =
     (s\<lparr>ags_status := DETACHED, ags_last_active_at := now\<rparr>, b\<lparr>wb_detached_at := Some now\<rparr>)"

definition binder_create_session ::
  "host \<Rightarrow> string \<Rightarrow> string \<Rightarrow> string \<Rightarrow> WorkspaceBinding \<Rightarrow> string \<Rightarrow> AgentSession" where
  "binder_create_session h now profile_id workspace_id b protocol_version =
     \<lparr>ags_session_id = generate_agent_session_id h profile_id workspace_id now, ags_profile_id = profile_id,
      ags_workspace_id = workspace_id, ags_status = CREATED, ags_binding_id = wb_binding_id b,
      ags_context_id = None, ags_snapshot_id = None, ags_protocol_version = protocol_version,
      ags_started_at = now, ags_last_active_at = now, ags_ended_at = None\<rparr>"

definition binder_close_session :: "string \<Rightarrow> AgentSession \<Rightarrow> AgentSession" where
  "binder_close_session now s = s\<lparr>ags_status := CLOSED, ags_last_active_at := now, ags_ended_at := Some now\<rparr>"

section \<open>Package streamer (package\_streamer.py)\<close>

definition subsystems_of :: "WorkspaceState \<Rightarrow> Subsystems" where
  "subsystems_of st =
     \<lparr>sub_decisions = st_active_decisions st, sub_executions = st_running_executions st,
      sub_reflections = st_pending_reflections st, sub_knowledge = st_active_knowledge st,
      sub_promotions = st_open_promotions st, sub_planner_policy_id = st_planner_policy_id st,
      sub_jobs = st_scheduler_jobs st\<rparr>"

definition streamer_stream ::
  "host \<Rightarrow> string \<Rightarrow> AgentSession \<Rightarrow> Workspace \<Rightarrow> WorkspaceState
    \<Rightarrow> WorkspaceContext \<times> WorkspacePackage \<times> PackageStreamedPayload" where
  "streamer_stream h now s w st =
     (let ctx = fst (compile_context h now st (ags_profile_id s) [] None (ags_snapshot_id s));
          snap = fst (workspace_snapshot h now w 1 (subsystems_of st));
          package = fst (workspace_export h now w ctx snap (ags_profile_id s) [])
      in (ctx, package,
          \<lparr>psp_schema_version = SCHEMA_VERSION, psp_session_id = ags_session_id s,
           psp_package_id = wp_package_id package, psp_context_id = wc_context_id ctx,
           psp_agent_id = ags_profile_id s, psp_streamed_at = now\<rparr>))"

definition build_runtime_context :: "host \<Rightarrow> string \<Rightarrow> AgentSession \<Rightarrow> WorkspaceState \<Rightarrow> RuntimeContext" where
  "build_runtime_context h now s st =
     (let ctx = fst (compile_context h now st (ags_profile_id s) [] None (ags_snapshot_id s))
      in \<lparr>rc_context_id = wc_context_id ctx, rc_session_id = ags_session_id s, rc_binding_id = ags_binding_id s,
          rc_workspace_id = ags_workspace_id s, rc_agent_id = ags_profile_id s, rc_goals = wc_goals ctx,
          rc_open_decisions = wc_open_decisions ctx, rc_running_executions = wc_running_executions ctx,
          rc_pending_reflections = wc_pending_reflections ctx, rc_recent_knowledge = wc_recent_knowledge ctx,
          rc_planner_policy_summary = wc_planner_policy_summary ctx, rc_memory_focus = wc_memory_focus ctx,
          rc_lineage_summary = wc_lineage_summary ctx, rc_capabilities = {}, rc_created_at = wc_created_at ctx\<rparr>)"

section \<open>The runtime (agent\_runtime.py)\<close>

definition runtime_create_session ::
  "host \<Rightarrow> string \<Rightarrow> AgentProfile \<Rightarrow> Workspace \<Rightarrow> string \<Rightarrow> Capability set
    \<Rightarrow> (AgentSession \<times> WorkspaceBinding \<times> AgentCapabilities \<times> SessionCreatedPayload) outcome result" where
  "runtime_create_session h now profile w protocol_version denied =
     rbind (protocol_parse ''1.0.0'') (\<lambda>runtime_version.
     rbind (protocol_parse protocol_version) (\<lambda>agent_version. Inr
       (if \<not> protocol_is_compatible runtime_version agent_version
        then Error (''Protocol version mismatch: runtime='' @ protocol_str runtime_version @ '', agent=''
               @ protocol_str agent_version)
        else if ap_status profile \<noteq> ACTIVE
        then Error (''Agent profile '' @ ap_profile_id profile @ '' is not active'')
        else let pending = \<lparr>wb_binding_id = generate_binding_id h (''pending-'' @ ap_profile_id profile) (w_workspace_id w),
                   wb_session_id = ''pending'', wb_workspace_id = w_workspace_id w, wb_role = ''PRIMARY'',
                   wb_attached_at = now, wb_detached_at = None\<rparr>;
                 s = binder_create_session h now (ap_profile_id profile) (w_workspace_id w) pending protocol_version;
                 caps = resolve_capabilities now profile denied;
                 b = pending\<lparr>wb_session_id := ags_session_id s\<rparr>
          in Done (s, b, caps,
               \<lparr>scp_schema_version = SCHEMA_VERSION, scp_session_id = ags_session_id s,
                scp_profile_id = ap_profile_id profile, scp_workspace_id = w_workspace_id w,
                scp_binding_id = wb_binding_id b, scp_protocol_version = protocol_version, scp_created_at = now\<rparr>))))"

definition runtime_attach ::
  "host \<Rightarrow> string \<Rightarrow> AgentSession \<Rightarrow> Workspace \<Rightarrow> AgentCapabilities
    \<Rightarrow> (AgentSession \<times> WorkspaceBinding \<times> SessionAttachedPayload) outcome" where
  "runtime_attach h now s w caps =
     (if ags_status s \<noteq> CREATED
      then Error (''Cannot attach session in '' @ status_value (ags_status s) @ '' status (must be CREATED)'')
      else let (s', b) = binder_attach h now s (w_workspace_id w) PRIMARY
        in Done (s', b, \<lparr>sap_schema_version = SCHEMA_VERSION, sap_session_id = ags_session_id s',
             sap_workspace_id = w_workspace_id w, sap_binding_id = wb_binding_id b,
             sap_capabilities = capability_values (effective caps), sap_attached_at = wb_attached_at b\<rparr>))"

definition runtime_pause :: "string \<Rightarrow> AgentSession \<Rightarrow> (AgentSession \<times> SessionPausedPayload) outcome" where
  "runtime_pause now s =
     (if ags_status s \<notin> {ATTACHED, STREAMING, RESUMED}
      then Error (''Cannot pause session in '' @ status_value (ags_status s) @ '' status'')
      else Done (s\<lparr>ags_status := PAUSED, ags_last_active_at := now\<rparr>,
             \<lparr>spp_schema_version = SCHEMA_VERSION, spp_session_id = ags_session_id s,
              spp_workspace_id = ags_workspace_id s, spp_paused_at = now\<rparr>))"

definition runtime_resume :: "string \<Rightarrow> AgentSession \<Rightarrow> (AgentSession \<times> SessionResumedPayload) outcome" where
  "runtime_resume now s =
     (if ags_status s \<noteq> PAUSED
      then Error (''Cannot resume session in '' @ status_value (ags_status s) @ '' status (must be PAUSED)'')
      else Done (s\<lparr>ags_status := RESUMED, ags_last_active_at := now\<rparr>,
             \<lparr>srp_schema_version = SCHEMA_VERSION, srp_session_id = ags_session_id s,
              srp_workspace_id = ags_workspace_id s, srp_resumed_at = now\<rparr>))"

definition runtime_detach ::
  "string \<Rightarrow> AgentSession \<Rightarrow> WorkspaceBinding \<Rightarrow> (AgentSession \<times> WorkspaceBinding \<times> SessionDetachedPayload) outcome" where
  "runtime_detach now s b =
     (if ags_status s \<in> {CLOSED, DETACHED}
      then Error (''Cannot detach session in '' @ status_value (ags_status s) @ '' status'')
      else let (s', b') = binder_detach now s b
        in Done (s', b', \<lparr>sdp_schema_version = SCHEMA_VERSION, sdp_session_id = ags_session_id s,
             sdp_workspace_id = ags_workspace_id s, sdp_binding_id = wb_binding_id b,
             sdp_detached_at = str_or (wb_detached_at b') []\<rparr>))"

definition runtime_close ::
  "string \<Rightarrow> AgentSession \<Rightarrow> int \<Rightarrow> int \<Rightarrow> (AgentSession \<times> SessionClosedPayload) outcome" where
  "runtime_close now s packages_streamed events_emitted =
     (if ags_status s = CLOSED then Error ''Session is already closed''
      else let s' = binder_close_session now s
        in Done (s', \<lparr>slp_schema_version = SCHEMA_VERSION, slp_session_id = ags_session_id s',
             slp_workspace_id = ags_workspace_id s', slp_profile_id = ags_profile_id s',
             slp_packages_streamed = packages_streamed, slp_events_emitted = events_emitted,
             slp_closed_at = str_or (ags_ended_at s') []\<rparr>))"

definition runtime_snapshot ::
  "host \<Rightarrow> string \<Rightarrow> AgentSession \<Rightarrow> AgentCapabilities \<Rightarrow> int \<Rightarrow> int \<Rightarrow> SessionSnapshot" where
  "runtime_snapshot h now s caps packages_streamed events_emitted =
     \<lparr>sn_snapshot_id = generate_session_snapshot_id h (ags_session_id s) now, sn_session_id = ags_session_id s,
      sn_workspace_id = ags_workspace_id s, sn_agent_id = ags_profile_id s,
      sn_status = status_value (ags_status s), sn_capabilities = effective caps,
      sn_packages_streamed = packages_streamed, sn_events_emitted = events_emitted, sn_created_at = now\<rparr>"

definition runtime_stream_package ::
  "host \<Rightarrow> string \<Rightarrow> AgentSession \<Rightarrow> Workspace \<Rightarrow> WorkspaceState
    \<Rightarrow> (AgentSession \<times> WorkspacePackage \<times> WorkspaceContext) outcome" where
  "runtime_stream_package h now s w st =
     (if ags_status s \<notin> {ATTACHED, RESUMED, STREAMING}
      then Error (''Cannot stream to session in '' @ status_value (ags_status s) @ '' status'')
      else let (ctx, package, payload) = streamer_stream h now s w st
        in Done (s\<lparr>ags_status := STREAMING, ags_context_id := Some (wc_context_id ctx), ags_last_active_at := now\<rparr>,
             package, ctx))"

section \<open>Session registry (session\_registry.py)\<close>

record SessionRegistry =
  sr_sessions :: "AgentSession list"
  sr_compiled_at :: string

definition active_sessions :: "SessionRegistry \<Rightarrow> AgentSession list" where
  "active_sessions r = filter (\<lambda>s. ags_status s \<noteq> CLOSED) (sr_sessions r)"

definition get_session :: "SessionRegistry \<Rightarrow> string \<Rightarrow> AgentSession option" where
  "get_session r session_id = find (\<lambda>s. ags_session_id s = session_id) (sr_sessions r)"

definition get_agent_sessions :: "SessionRegistry \<Rightarrow> string \<Rightarrow> string option \<Rightarrow> AgentSession list" where
  "get_agent_sessions r agent_id workspace_id =
     filter (\<lambda>s. ags_profile_id s = agent_id \<and> (workspace_id = None \<or> workspace_id = Some (ags_workspace_id s)))
       (sr_sessions r)"

definition has_open_session :: "SessionRegistry \<Rightarrow> string \<Rightarrow> string \<Rightarrow> bool" where
  "has_open_session r agent_id workspace_id \<longleftrightarrow>
     list_ex (\<lambda>s. ags_profile_id s = agent_id \<and> ags_workspace_id s = workspace_id \<and>
       ags_status s \<in> {CREATED, ATTACHED, STREAMING, RESUMED}) (sr_sessions r)"

definition get_workspace_sessions :: "SessionRegistry \<Rightarrow> string \<Rightarrow> AgentSession list" where
  "get_workspace_sessions r workspace_id = filter (\<lambda>s. ags_workspace_id s = workspace_id) (sr_sessions r)"

definition add_session :: "SessionRegistry \<Rightarrow> AgentSession \<Rightarrow> SessionRegistry" where
  "add_session r s = \<lparr>sr_sessions = sr_sessions r @ [s], sr_compiled_at = sr_compiled_at r\<rparr>"

definition update_session :: "SessionRegistry \<Rightarrow> AgentSession \<Rightarrow> SessionRegistry" where
  "update_session r s =
     \<lparr>sr_sessions = map (\<lambda>t. if ags_session_id t = ags_session_id s then s else t) (sr_sessions r),
      sr_compiled_at = sr_compiled_at r\<rparr>"

interpretation agents: session_table sr_sessions ags_session_id get_session add_session update_session
  by unfold_locales (simp_all add: get_session_def add_session_def update_session_def update_by_id_def)

section \<open>Protocol versions\<close>

lemma show_int_no_dot: "CHR ''.'' \<notin> set (show_int i)"
proof -
  have "CHR ''.'' \<notin> set (show_nat n)" for n
    using show_nat_digits [of "CHR ''.''" n] by (auto simp: is_digit_def)
  then show ?thesis by (simp add: show_int_def)
qed

lemma protocol_str_ends: "protocol_str v \<noteq> []" "\<not> is_space (hd (protocol_str v))" "\<not> is_space (last (protocol_str v))"
proof -
  have ends: "is_digit (hd (show_nat n))" "is_digit (last (show_nat n))" for n
    by (simp_all add: show_nat_digits [of _ n])
  have ne: "show_int i \<noteq> []" for i by (simp add: show_int_def)
  have "\<not> is_space (CHR ''-'')" by (simp add: is_space_def)
  then have "\<not> is_space (hd (show_int i))" "\<not> is_space (last (show_int i))" for i
    by (auto simp: show_int_def ends digit_not_space)
  with ne show "protocol_str v \<noteq> []" "\<not> is_space (hd (protocol_str v))" "\<not> is_space (last (protocol_str v))"
    by (simp_all add: protocol_str_def hd_append)
qed

lemma protocol_parse_str [simp]: "protocol_parse (protocol_str v) = Inr v"
proof -
  have "split_on (CHR ''.'') (protocol_str v) = [show_int (pv_major v), show_int (pv_minor v), show_int (pv_patch v)]"
    by (simp add: protocol_str_def split_on_first split_on_none show_int_no_dot)
  with protocol_str_ends [of v] show ?thesis
    by (simp add: protocol_parse_def strip_ws_id)
qed

lemma runtime_version [simp]: "protocol_parse ''1.0.0'' = Inr \<lparr>pv_major = 1, pv_minor = 0, pv_patch = 0\<rparr>"
proof -
  have "protocol_str \<lparr>pv_major = 1, pv_minor = 0, pv_patch = 0\<rparr> = ''1.0.0''" by code_simp
  then show ?thesis using protocol_parse_str by metis
qed

section \<open>The lifecycle of a session\<close>

text \<open>One step of a session: some operation of the runtime succeeds and returns the next session.\<close>

inductive agent_step :: "host \<Rightarrow> AgentSession \<Rightarrow> AgentSession \<Rightarrow> bool" for h where
  attach: "runtime_attach h now s w caps = Done (s', b, e) \<Longrightarrow> agent_step h s s'"
| pause: "runtime_pause now s = Done (s', e) \<Longrightarrow> agent_step h s s'"
| resume: "runtime_resume now s = Done (s', e) \<Longrightarrow> agent_step h s s'"
| detach: "runtime_detach now s b = Done (s', b', e) \<Longrightarrow> agent_step h s s'"
| close: "runtime_close now s n m = Done (s', e) \<Longrightarrow> agent_step h s s'"
| stream: "runtime_stream_package h now s w st = Done (s', p, ctx) \<Longrightarrow> agent_step h s s'"

inductive agent_reachable :: "host \<Rightarrow> AgentSession \<Rightarrow> bool" for h where
  created: "runtime_create_session h now profile w protocol_version denied = Inr (Done (s, b, caps, e))
    \<Longrightarrow> agent_reachable h s"
| stepped: "agent_reachable h s \<Longrightarrow> agent_step h s s' \<Longrightarrow> agent_reachable h s'"

text \<open>The specification: the statuses that may follow a status.\<close>

fun next_statuses :: "SessionStatus \<Rightarrow> SessionStatus set" where
  "next_statuses CREATED = {ATTACHED, DETACHED, CLOSED}"
| "next_statuses ATTACHED = {STREAMING, PAUSED, DETACHED, CLOSED}"
| "next_statuses STREAMING = {STREAMING, PAUSED, DETACHED, CLOSED}"
| "next_statuses PAUSED = {RESUMED, DETACHED, CLOSED}"
| "next_statuses RESUMED = {STREAMING, PAUSED, DETACHED, CLOSED}"
| "next_statuses DETACHED = {CLOSED}"
| "next_statuses CLOSED = {}"

text \<open>When each operation succeeds, and with which session.\<close>

lemma runtime_Done:
  "(\<exists>b e. runtime_attach h now s w caps = Done (s', b, e)) \<longleftrightarrow> ags_status s = CREATED \<and>
     s' = s\<lparr>ags_workspace_id := w_workspace_id w, ags_status := ATTACHED,
            ags_binding_id := generate_binding_id h (ags_session_id s) (w_workspace_id w), ags_last_active_at := now\<rparr>"
  "(\<exists>e. runtime_pause now s = Done (s', e)) \<longleftrightarrow> ags_status s \<in> {ATTACHED, STREAMING, RESUMED} \<and>
     s' = s\<lparr>ags_status := PAUSED, ags_last_active_at := now\<rparr>"
  "(\<exists>e. runtime_resume now s = Done (s', e)) \<longleftrightarrow> ags_status s = PAUSED \<and>
     s' = s\<lparr>ags_status := RESUMED, ags_last_active_at := now\<rparr>"
  "(\<exists>b' e. runtime_detach now s b = Done (s', b', e)) \<longleftrightarrow> ags_status s \<notin> {CLOSED, DETACHED} \<and>
     s' = s\<lparr>ags_status := DETACHED, ags_last_active_at := now\<rparr>"
  "(\<exists>e. runtime_close now s n m = Done (s', e)) \<longleftrightarrow> ags_status s \<noteq> CLOSED \<and>
     s' = s\<lparr>ags_status := CLOSED, ags_last_active_at := now, ags_ended_at := Some now\<rparr>"
  "(\<exists>p ctx. runtime_stream_package h now s w st = Done (s', p, ctx)) \<longleftrightarrow>
     ags_status s \<in> {ATTACHED, RESUMED, STREAMING} \<and>
     s' = s\<lparr>ags_status := STREAMING, ags_last_active_at := now,
            ags_context_id := Some (generate_context_id h (''none-'' @ ags_profile_id s) now)\<rparr>"
proof -
  show "(\<exists>b e. runtime_attach h now s w caps = Done (s', b, e)) \<longleftrightarrow> ags_status s = CREATED \<and>
     s' = s\<lparr>ags_workspace_id := w_workspace_id w, ags_status := ATTACHED,
            ags_binding_id := generate_binding_id h (ags_session_id s) (w_workspace_id w), ags_last_active_at := now\<rparr>"
    by (auto simp: runtime_attach_def binder_attach_def Let_def)
  show "(\<exists>p ctx. runtime_stream_package h now s w st = Done (s', p, ctx)) \<longleftrightarrow>
     ags_status s \<in> {ATTACHED, RESUMED, STREAMING} \<and>
     s' = s\<lparr>ags_status := STREAMING, ags_last_active_at := now,
            ags_context_id := Some (generate_context_id h (''none-'' @ ags_profile_id s) now)\<rparr>"
    by (auto simp: runtime_stream_package_def streamer_stream_def compile_context_def str_or_def Let_def)
qed (auto simp: runtime_pause_def runtime_resume_def runtime_detach_def runtime_close_def
    binder_detach_def binder_close_session_def Let_def)

inductive_simps agent_step_cases: "agent_step h s s'"

lemmas agent_step_iff = agent_step_cases [unfolded runtime_Done]

lemma agent_step_status: "agent_step h s s' \<Longrightarrow> ags_status s' \<in> next_statuses (ags_status s)"
  by (cases "ags_status s") (auto simp: agent_step_iff)

lemma agent_step_exists:
  assumes "u \<in> next_statuses (ags_status s)"
  shows "\<exists>s'. agent_step h s s' \<and> ags_status s' = u"
proof (cases "u = ATTACHED")
  case True
  with assms have "ags_status s = CREATED" by (cases "ags_status s") auto
  then obtain s' b e where "runtime_attach h [] s (undefined :: Workspace) undefined = Done (s', b, e)" "ags_status s' = ATTACHED"
    using runtime_Done(1) [of h "[]" s undefined undefined] by fastforce
  with True show ?thesis by (blast intro: agent_step.attach)
next
  case False
  with assms show ?thesis by (cases u; cases "ags_status s") (auto simp: agent_step_iff)
qed

lemma agent_lifecycle_refines_parts:
  shows "u \<in> next_statuses (ags_status s) \<longleftrightarrow> (\<exists>s'. agent_step h s s' \<and> ags_status s' = u)"
    and "(\<exists>s' e. runtime_close now s n m = Done (s', e)) \<longleftrightarrow> (\<exists>s'. agent_step h s s')"
proof -
  show "u \<in> next_statuses (ags_status s) \<longleftrightarrow> (\<exists>s'. agent_step h s s' \<and> ags_status s' = u)"
    using agent_step_status agent_step_exists by blast
  have "(\<exists>s' e. runtime_close now s n m = Done (s', e)) \<longleftrightarrow> ags_status s \<noteq> CLOSED"
    by (simp add: runtime_Done)
  also have "\<dots> \<longleftrightarrow> next_statuses (ags_status s) \<noteq> {}"
    by (cases "ags_status s") auto
  also have "\<dots> \<longleftrightarrow> (\<exists>s'. agent_step h s s')"
    using agent_step_status agent_step_exists by blast
  finally show "(\<exists>s' e. runtime_close now s n m = Done (s', e)) \<longleftrightarrow> (\<exists>s'. agent_step h s s')" .
qed

text \<open>The lifecycle that \<open>docs/v2.2_agent_runtime_freeze.md\<close> fixes as an invariant of the design, an arrow in both directions
  read as two edges.\<close>

definition documented_lifecycle :: "(SessionStatus \<times> SessionStatus) set" where
  "documented_lifecycle =
     {(CREATED, ATTACHED), (ATTACHED, STREAMING), (STREAMING, PAUSED), (PAUSED, STREAMING), (PAUSED, RESUMED), (RESUMED, PAUSED),
      (RESUMED, DETACHED), (DETACHED, CLOSED)}"

lemma documented_missing: "{e \<in> documented_lifecycle. snd e \<notin> next_statuses (fst e)} = {(PAUSED, STREAMING)}"
  by (auto simp: documented_lifecycle_def)

lemma documented_not_taken:
  "{(a, b) \<in> documented_lifecycle. \<not> (\<exists>s s'. agent_step h s s' \<and> ags_status s = a \<and> ags_status s' = b)} = {(PAUSED, STREAMING)}"
proof -
  have "(\<exists>s s'. agent_step h s s' \<and> ags_status s = a \<and> ags_status s' = b) \<longleftrightarrow> b \<in> next_statuses a" for a b
  proof
    assume "b \<in> next_statuses a"
    moreover have "ags_status ((undefined :: AgentSession)\<lparr>ags_status := a\<rparr>) = a" by simp
    ultimately show "\<exists>s s'. agent_step h s s' \<and> ags_status s = a \<and> ags_status s' = b"
      using agent_lifecycle_refines_parts(1) by metis
  qed (use agent_step_status in blast)
  then show ?thesis using documented_missing by (auto simp: case_prod_beta)
qed

text \<open>Property C20: the runtime implements this session state machine exactly.  Every operation that
  succeeds moves a session along an edge of the graph of statuses that the guards of the code make, and for every edge some operation
  succeeds; so a closed session is final, a detached one can only be closed, and a session that is not
  closed can always be closed.  Of the edges that the documented lifecycle fixes, the runtime takes all but one: it never streams
  from a paused session, which has to be resumed first.\<close>

theorem agent_lifecycle_refines:
  shows "(u \<in> next_statuses (ags_status s) \<longleftrightarrow> (\<exists>s'. agent_step h s s' \<and> ags_status s' = u)) \<and>
         ((\<exists>s' e. runtime_close now s n m = Done (s', e)) \<longleftrightarrow> (\<exists>s'. agent_step h s s')) \<and>
         {(a, b) \<in> documented_lifecycle. \<not> (\<exists>s s'. agent_step h s s' \<and> ags_status s = a \<and> ags_status s' = b)} = {(PAUSED, STREAMING)}"
  by (intro conjI agent_lifecycle_refines_parts documented_not_taken)

definition speaks_version_1 :: "string \<Rightarrow> bool" where
  "speaks_version_1 s \<longleftrightarrow> (\<exists>v. protocol_parse s = Inr v \<and> pv_major v = 1)"

definition agent_session_inv :: "host \<Rightarrow> AgentSession \<Rightarrow> bool" where
  "agent_session_inv h s \<longleftrightarrow>
     (ags_ended_at s \<noteq> None \<longleftrightarrow> ags_status s = CLOSED) \<and>
     (ags_status s \<in> {ATTACHED, STREAMING, PAUSED, RESUMED} \<longrightarrow>
        ags_binding_id s = generate_binding_id h (ags_session_id s) (ags_workspace_id s)) \<and>
     (ags_status s = STREAMING \<longrightarrow> ags_context_id s \<noteq> None) \<and>
     speaks_version_1 (ags_protocol_version s)"

lemma create_session_Done:
  assumes "runtime_create_session h now profile w protocol_version denied = Inr (Done (s, b, caps, e))"
  shows "ags_status s = CREATED \<and> ags_ended_at s = None \<and> ags_protocol_version s = protocol_version \<and>
    ags_profile_id s = ap_profile_id profile \<and> ags_workspace_id s = w_workspace_id w \<and>
    ap_status profile = ACTIVE \<and> speaks_version_1 protocol_version \<and>
    caps = resolve_capabilities now profile denied \<and> wb_session_id b = ags_session_id s"
  using assms
  by (auto simp: runtime_create_session_def protocol_is_compatible_def binder_create_session_def speaks_version_1_def
      Let_def split: if_splits)

lemma agent_step_inv: "agent_step h s s' \<Longrightarrow> agent_session_inv h s \<Longrightarrow> agent_session_inv h s'"
  by (unfold agent_step_iff, elim disjE exE conjE) (auto simp: agent_session_inv_def)

lemma agent_step_identity:
  "agent_step h s s' \<Longrightarrow> ags_session_id s' = ags_session_id s \<and> ags_profile_id s' = ags_profile_id s \<and>
     ags_started_at s' = ags_started_at s \<and> ags_protocol_version s' = ags_protocol_version s"
  by (auto simp: agent_step_iff)

lemma agent_reachable_inv: "agent_reachable h s \<Longrightarrow> agent_session_inv h s"
proof (induction rule: agent_reachable.induct)
  case (created now profile w protocol_version denied s b caps e)
  then show ?case using create_session_Done [OF created] by (auto simp: agent_session_inv_def)
qed (rule agent_step_inv)

lemma agent_session_invariant_parts:
  assumes "agent_reachable h s" and "agent_step h s s'"
  shows "agent_session_inv h s \<and> agent_session_inv h s'"
    and "ags_session_id s' = ags_session_id s \<and> ags_profile_id s' = ags_profile_id s \<and>
         ags_started_at s' = ags_started_at s \<and> ags_protocol_version s' = ags_protocol_version s"
  using agent_reachable_inv [OF assms(1)] agent_step_inv [OF assms(2)] agent_step_identity [OF assms(2)] by simp_all

text \<open>Property C23: a session that the runtime has produced has an end time exactly if it is closed; while
  it is attached its binding is the one of its own id and workspace; when it streams it has a context;
  and it speaks protocol version 1.\<close>

theorem agent_session_invariant:
  assumes "agent_reachable h s" and "agent_step h s s'"
  shows "(agent_session_inv h s \<and> agent_session_inv h s') \<and>
         (ags_session_id s' = ags_session_id s \<and> ags_profile_id s' = ags_profile_id s \<and>
         ags_started_at s' = ags_started_at s \<and> ags_protocol_version s' = ags_protocol_version s)"
  by (rule conjI, rule agent_session_invariant_parts(1) [OF assms(1) assms(2)],
      rule agent_session_invariant_parts(2) [OF assms(1) assms(2)])

definition sample_profile :: AgentProfile where
  "sample_profile = \<lparr>ap_profile_id = ''AGNT-1'', ap_name = ''agent'', ap_vendor = LOCAL, ap_model_id = ''m'',
     ap_capabilities = CAPABILITY_PROFILES PLANNER, ap_status = ACTIVE, ap_metadata = [], ap_created_at = ''t'',
     ap_updated_at = ''t''\<rparr>"

definition sample_agent_session :: "string \<Rightarrow> AgentSession" where
  "sample_agent_session now = binder_create_session sample_host now ''AGNT-1'' (w_workspace_id sample_workspace)
     \<lparr>wb_binding_id = generate_binding_id sample_host ''pending-AGNT-1'' (w_workspace_id sample_workspace),
      wb_session_id = ''pending'', wb_workspace_id = w_workspace_id sample_workspace, wb_role = ''PRIMARY'',
      wb_attached_at = now, wb_detached_at = None\<rparr> ''1.0.0''"

lemma sample_agent_session:
  "\<exists>b caps e. runtime_create_session sample_host now sample_profile sample_workspace ''1.0.0'' {} =
     Inr (Done (sample_agent_session now, b, caps, e))"
  by (simp add: runtime_create_session_def protocol_is_compatible_def sample_profile_def sample_agent_session_def Let_def)

lemma sample_agent_session_reachable: "agent_reachable sample_host (sample_agent_session now)"
  using sample_agent_session created by blast

lemma sample_agent_session_simps [simp]:
  "ags_status (sample_agent_session now) = CREATED" "ags_profile_id (sample_agent_session now) = ''AGNT-1''"
  "ags_workspace_id (sample_agent_session now) = w_workspace_id sample_workspace"
  by (simp_all add: sample_agent_session_def binder_create_session_def)

theorem agent_session_invariant_witness:
  "agent_step sample_host (sample_agent_session ''t'') (binder_close_session ''u'' (sample_agent_session ''t'')) \<and>
   agent_session_inv sample_host (binder_close_session ''u'' (sample_agent_session ''t''))"
proof -
  have "agent_step sample_host (sample_agent_session ''t'') (binder_close_session ''u'' (sample_agent_session ''t''))"
    by (auto simp: agent_step_iff binder_close_session_def)
  with agent_session_invariant [OF sample_agent_session_reachable this] show ?thesis by simp
qed

section \<open>Capabilities\<close>

lemma capabilities_effective_parts:
  shows "has_capability (resolve_capabilities now p denied) c \<longleftrightarrow> c \<in> ap_capabilities p \<and> c \<notin> denied"
    and "has_capability (merge_capabilities a b) c \<longleftrightarrow>
           has_capability a c \<or> has_capability b c \<or>
           (c \<in> ac_granted a \<inter> ac_denied a \<and> c \<notin> ac_granted b \<union> ac_denied b) \<or>
           (c \<in> ac_granted b \<inter> ac_denied b \<and> c \<notin> ac_granted a \<union> ac_denied a)"
  by (auto simp: has_capability_def effective_def resolve_capabilities_def merge_capabilities_def)

text \<open>What an agent may do is what its profile grants and the workspace does not deny.
  Merging two capability sets grants what either set had, but can also grant more: a capability that one
  side grants and denies, while the other side neither grants nor denies it, is effective in the merge
  and in neither of the two.\<close>

theorem capabilities_effective:
  shows "(has_capability (resolve_capabilities now p denied) c \<longleftrightarrow> c \<in> ap_capabilities p \<and> c \<notin> denied) \<and>
         (has_capability (merge_capabilities a b) c \<longleftrightarrow>
           has_capability a c \<or> has_capability b c \<or>
           (c \<in> ac_granted a \<inter> ac_denied a \<and> c \<notin> ac_granted b \<union> ac_denied b) \<or>
           (c \<in> ac_granted b \<inter> ac_denied b \<and> c \<notin> ac_granted a \<union> ac_denied a))"
  by (rule conjI, rule capabilities_effective_parts(1), rule capabilities_effective_parts(2))

lemma all_capabilities_all: "c \<in> set all_capabilities"
  by (cases c) (simp_all add: all_capabilities_def)

lemma capability_value_inj: "inj capability_value"
proof -
  have "distinct (map capability_value all_capabilities)" by code_simp
  moreover have "set all_capabilities = UNIV" using all_capabilities_all by blast
  ultimately show ?thesis by (metis distinct_map)
qed

text \<open>The predefined profiles form a hierarchy, unknown names get no capability, names are
  found whatever their case, and the list of capabilities that an attached session reports is sorted,
  without repetition, and contains exactly the values of the effective capabilities.\<close>

theorem capability_profiles:
  shows "CAPABILITY_PROFILES OBSERVER \<subset> CAPABILITY_PROFILES PLANNER"
    and "CAPABILITY_PROFILES OBSERVER \<subset> CAPABILITY_PROFILES RESEARCHER"
    and "CAPABILITY_PROFILES PLANNER \<union> CAPABILITY_PROFILES RESEARCHER \<subset> CAPABILITY_PROFILES EXECUTOR"
    and "CAPABILITY_PROFILES ADMINISTRATOR = UNIV"
    and "profile_of_name name = None \<Longrightarrow> effective (resolve_from_profile_name now name denied) = {}"
    and "profile_of_name (ascii_upper name) = profile_of_name name"
    and "set (capability_values s) = capability_value ` s \<and> sorted (capability_values s) \<and> distinct (capability_values s)"
proof -
  show "CAPABILITY_PROFILES ADMINISTRATOR = UNIV" using all_capabilities_all by auto
  show "profile_of_name name = None \<Longrightarrow> effective (resolve_from_profile_name now name denied) = {}"
    by (simp add: resolve_from_profile_name_def effective_def)
  have "(of_char c - 32) mod 256 = (of_char c - 32 :: nat)" for c :: char
    by (simp add: less_imp_diff_less)
  then have "ascii_upper (ascii_upper name) = ascii_upper name"
    by (auto simp: ascii_upper_def less_eq_char_def)
  then show "profile_of_name (ascii_upper name) = profile_of_name name" by (simp add: profile_of_name_def)
  have "inj_on capability_value A" for A using capability_value_inj inj_on_subset by blast
  moreover have "distinct all_capabilities" by code_simp
  ultimately show "set (capability_values s) = capability_value ` s \<and> sorted (capability_values s) \<and> distinct (capability_values s)"
    by (auto simp: capability_values_def distinct_map all_capabilities_all)
qed auto

theorem capability_profiles_witness:
  "effective (resolve_from_profile_name ''t'' ''nobody'' {}) = {} \<and>
   effective (resolve_from_profile_name ''t'' ''Planner'' {SUGGEST}) = CAPABILITY_PROFILES PLANNER - {SUGGEST}"
proof -
  have "profile_of_name ''nobody'' = None" "profile_of_name ''Planner'' = Some PLANNER" by code_simp+
  with capability_profiles(5) [of "''nobody''" "''t''" "{}"] show ?thesis
    by (simp add: resolve_from_profile_name_def effective_def)
qed

section \<open>Streaming\<close>

lemma str_or_None: "str_or None t = t"
  by (simp add: str_or_def)

lemma stream_equals_continuation_parts:
  assumes "runtime_stream_package h now s w (workspace_project t w sub) = Done (s', p, ctx)"
  shows "p = fst (continuation_resume h now w (ags_profile_id s) [] sub [])"
    and "ags_context_id s' = Some (wp_context_id p)"
  using assms
  by (auto simp: runtime_stream_package_def streamer_stream_def continuation_resume_def workspace_export_def
      workspace_snapshot_def compile_context_def workspace_project_def subsystems_of_def summarize_planner_def
      str_or_None sorted_sort_id Let_def split: if_splits)

text \<open>Streaming to a session delivers the same package as resuming the workspace.  For the
  state projected from the workspace's subsystems, the package that the runtime streams to an agent is
  the one that the continuation engine builds for it without goals and lineage, at the same time.\<close>

theorem stream_equals_continuation:
  assumes "runtime_stream_package h now s w (workspace_project t w sub) = Done (s', p, ctx)"
  shows "(p = fst (continuation_resume h now w (ags_profile_id s) [] sub [])) \<and>
         (ags_context_id s' = Some (wp_context_id p))"
  by (rule conjI, rule stream_equals_continuation_parts(1) [OF assms],
      rule stream_equals_continuation_parts(2) [OF assms])

theorem stream_equals_continuation_witness:
  "\<exists>s' p ctx. runtime_stream_package sample_host ''u'' ((sample_agent_session ''t'')\<lparr>ags_status := ATTACHED\<rparr>)
     sample_workspace (workspace_project ''u'' sample_workspace sample_subsystems) = Done (s', p, ctx) \<and>
     p = fst (continuation_resume sample_host ''u'' sample_workspace ''AGNT-1'' [] sample_subsystems [])"
proof -
  obtain s' p ctx where d: "runtime_stream_package sample_host ''u'' ((sample_agent_session ''t'')\<lparr>ags_status := ATTACHED\<rparr>)
     sample_workspace (workspace_project ''u'' sample_workspace sample_subsystems) = Done (s', p, ctx)"
    using runtime_Done(6) by fastforce
  with stream_equals_continuation [OF d] show ?thesis by simp
qed

section \<open>The registry\<close>

text \<open>A registry maps ids to sessions.  After an update of a registered session the lookup of
  its id gives the new session and every other lookup is unchanged; adding a session never changes what
  an id that is already registered gives; ids stay what they were.\<close>

theorem registry_lookup:
  shows "get_session r (ags_session_id s) \<noteq> None \<Longrightarrow> get_session (update_session r s) (ags_session_id s) = Some s"
    and "i \<noteq> ags_session_id s \<Longrightarrow> get_session (update_session r s) i = get_session r i"
    and "get_session r i = Some t \<Longrightarrow> get_session (add_session r s) i = Some t"
    and "get_session r (ags_session_id s) = None \<Longrightarrow> get_session (add_session r s) (ags_session_id s) = Some s"
    and "map ags_session_id (sr_sessions (update_session r s)) = map ags_session_id (sr_sessions r)"
  by (simp_all add: agents.lookup_after_update agents.lookup_update agents.lookup_add agents.ids_update split: option.split)

theorem registry_lookup_witness:
  "get_session (update_session \<lparr>sr_sessions = [sample_agent_session ''t''], sr_compiled_at = []\<rparr>
     (binder_close_session ''u'' (sample_agent_session ''t''))) (ags_session_id (sample_agent_session ''t''))
   = Some (binder_close_session ''u'' (sample_agent_session ''t''))"
  using registry_lookup(1) [of "\<lparr>sr_sessions = [sample_agent_session ''t''], sr_compiled_at = []\<rparr>"
    "binder_close_session ''u'' (sample_agent_session ''t'')"]
  by (simp add: get_session_def binder_close_session_def)

lemma registry_two_open_sessions_parts:
  assumes "ags_status s = PAUSED" and "runtime_resume now s = Done (s', e)"
    and "ags_status t = CREATED" and "ags_session_id t \<noteq> ags_session_id s"
    and "ags_profile_id t = ags_profile_id s" and "ags_workspace_id t = ags_workspace_id s"
    and "r = \<lparr>sr_sessions = [s], sr_compiled_at = c\<rparr>"
  shows "\<not> has_open_session r (ags_profile_id s) (ags_workspace_id s)"
    and "let r' = update_session (add_session r t) s' in
           sr_sessions r' = [s', t] \<and>
           (\<forall>u \<in> set (sr_sessions r'). has_open_session (r'\<lparr>sr_sessions := [u]\<rparr>) (ags_profile_id s) (ags_workspace_id s))"
proof -
  from assms(1,7) show "\<not> has_open_session r (ags_profile_id s) (ags_workspace_id s)"
    by (simp add: has_open_session_def)
  from assms(2) have s': "s' = s\<lparr>ags_status := RESUMED, ags_last_active_at := now\<rparr>"
    using runtime_Done(3) by blast
  have "sr_sessions (update_session (add_session r t) s') = [s', t]"
    using assms(4,7) by (simp add: s' add_session_def update_session_def)
  moreover have "has_open_session (x\<lparr>sr_sessions := [u]\<rparr>) (ags_profile_id s) (ags_workspace_id s)"
    if "u = s' \<or> u = t" for u and x :: SessionRegistry
    using that assms(3,5,6) by (auto simp: has_open_session_def s')
  ultimately show "let r' = update_session (add_session r t) s' in
           sr_sessions r' = [s', t] \<and>
           (\<forall>u \<in> set (sr_sessions r'). has_open_session (r'\<lparr>sr_sessions := [u]\<rparr>) (ags_profile_id s) (ags_workspace_id s))"
    by (simp add: Let_def)
qed

text \<open>The registry does not keep an agent to one open session per workspace, even for a
  caller that asks for an open session before it adds one: a paused session does not count as open, so a
  second session is added, and resuming the first leaves the agent with two open sessions.\<close>

theorem registry_two_open_sessions:
  assumes "ags_status s = PAUSED" and "runtime_resume now s = Done (s', e)"
    and "ags_status t = CREATED" and "ags_session_id t \<noteq> ags_session_id s"
    and "ags_profile_id t = ags_profile_id s" and "ags_workspace_id t = ags_workspace_id s"
    and "r = \<lparr>sr_sessions = [s], sr_compiled_at = c\<rparr>"
  shows "(\<not> has_open_session r (ags_profile_id s) (ags_workspace_id s)) \<and>
         (let r' = update_session (add_session r t) s' in
           sr_sessions r' = [s', t] \<and>
           (\<forall>u \<in> set (sr_sessions r'). has_open_session (r'\<lparr>sr_sessions := [u]\<rparr>) (ags_profile_id s) (ags_workspace_id s)))"
  by (rule conjI,
      rule registry_two_open_sessions_parts(1) [OF assms(1) assms(2) assms(3) assms(4) assms(5) assms(6) assms(7)],
      rule registry_two_open_sessions_parts(2) [OF assms(1) assms(2) assms(3) assms(4) assms(5) assms(6) assms(7)])

theorem registry_two_open_sessions_witness:
  "let s = (sample_agent_session ''t1'')\<lparr>ags_status := PAUSED, ags_session_id := ''AGS-1''\<rparr>;
       r = \<lparr>sr_sessions = [s], sr_compiled_at = []\<rparr>
   in \<not> has_open_session r ''AGNT-1'' (w_workspace_id sample_workspace)"
proof -
  let ?s = "(sample_agent_session ''t1'')\<lparr>ags_status := PAUSED, ags_session_id := ''AGS-1''\<rparr>"
  obtain s' e where "runtime_resume ''u'' ?s = Done (s', e)" by (simp add: runtime_resume_def)
  from registry_two_open_sessions [OF _ this, of "(sample_agent_session ''t2'')\<lparr>ags_session_id := ''AGS-2''\<rparr>", THEN conjunct1]
  show ?thesis by (simp add: Let_def)
qed

lemma create_session_iff_parts:
  shows "protocol_parse (protocol_str v) = Inr v"
    and "(\<exists>x. runtime_create_session h now profile w (protocol_str v) denied = Inr (Done x)) \<longleftrightarrow>
           pv_major v = 1 \<and> ap_status profile = ACTIVE"
    and "(\<exists>err. runtime_create_session h now profile w text denied = Inl err) \<longleftrightarrow> (\<exists>err. protocol_parse text = Inl err)"
proof -
  show "(\<exists>err. runtime_create_session h now profile w text denied = Inl err) \<longleftrightarrow> (\<exists>err. protocol_parse text = Inl err)"
    by (cases "protocol_parse text") (simp_all add: runtime_create_session_def)
qed (auto simp: runtime_create_session_def protocol_is_compatible_def Let_def)

text \<open>Printing a protocol version and parsing it gives it back; a session is created exactly if
  the version can be parsed, has major number 1 and the agent is active, and a text that cannot be parsed
  raises an exception instead of returning an error.\<close>

theorem create_session_iff:
  shows "(protocol_parse (protocol_str v) = Inr v) \<and>
         ((\<exists>x. runtime_create_session h now profile w (protocol_str v) denied = Inr (Done x)) \<longleftrightarrow>
           pv_major v = 1 \<and> ap_status profile = ACTIVE) \<and>
         ((\<exists>err. runtime_create_session h now profile w text denied = Inl err) \<longleftrightarrow> (\<exists>err. protocol_parse text = Inl err))"
  by (rule conjI, rule create_session_iff_parts(1), rule conjI, rule create_session_iff_parts(2),
      rule create_session_iff_parts(3))

end
