(* ===== verification/Vendor.thy ===== *)
theory Vendor
  imports Transport AgentRuntime
begin

text \<open>
  The vendor SDK and its native connectors, \<open>rationalevault/vendor\<close>: manifests, the mapping between the names a
  vendor gives to capabilities and those of the runtime (\<open>models.py\<close>), and the adapters for Claude, Codex,
  Cursor, Gemini and OpenCode (\<open>connectors\<close>).  An adapter is the record of what its methods return; it has the
  methods of a serializer of the transport and can be registered as one.  The main results are that
  capability names translate back and forth and that what an adapter serializes decodes to the package.
\<close>

section \<open>Models (models.py)\<close>

datatype VendorStatus = ACTIVE | DEPRECATED | EXPERIMENTAL

fun vendor_status_value :: "VendorStatus \<Rightarrow> string" where
  "vendor_status_value ACTIVE = ''ACTIVE''"
| "vendor_status_value DEPRECATED = ''DEPRECATED''"
| "vendor_status_value EXPERIMENTAL = ''EXPERIMENTAL''"

record VendorManifest =
  vm_manifest_id :: string
  vm_name :: string
  vm_vendor_id :: string
  vm_version :: string
  vm_supported_transports :: "TransportType list"
  vm_supported_capabilities :: "Capability set"
  vm_default_serializer :: string
  vm_status :: VendorStatus
  vm_metadata :: "(string, string) dict"

definition generate_vendor_manifest_id :: "host \<Rightarrow> string \<Rightarrow> string \<Rightarrow> string \<Rightarrow> string" where
  "generate_vendor_manifest_id h name vendor_id version = short_id h ''VMNF-'' [''vendor_manifest'', name, vendor_id, version]"

definition vendor_manifest_to_dict :: "VendorManifest \<Rightarrow> payload" where
  "vendor_manifest_to_dict m =
     [(''manifest_id'', JStr (vm_manifest_id m)), (''name'', JStr (vm_name m)), (''vendor_id'', JStr (vm_vendor_id m)),
      (''version'', JStr (vm_version m)),
      (''supported_transports'', JList (map (JStr \<circ> transport_type_value) (vm_supported_transports m))),
      (''supported_capabilities'', JList (map JStr (capability_values (vm_supported_capabilities m)))),
      (''default_serializer'', JStr (vm_default_serializer m)), (''status'', JStr (vendor_status_value (vm_status m))),
      (''metadata'', JDict (map (\<lambda>(k, v). (k, JStr v)) (vm_metadata m)))]"

record CapabilityMapping =
  cm_vendor_id :: string
  cm_vendor_to_runtime :: "(string, Capability) dict"
  cm_runtime_to_vendor :: "(Capability, string) dict"

text \<open>The constructor with \<open>__post_init__\<close>: an empty reverse map is built from the map.\<close>

definition capability_mapping :: "string \<Rightarrow> (string, Capability) dict \<Rightarrow> (Capability, string) dict \<Rightarrow> CapabilityMapping" where
  "capability_mapping vendor_id vendor_to_runtime runtime_to_vendor =
     \<lparr>cm_vendor_id = vendor_id, cm_vendor_to_runtime = vendor_to_runtime,
      cm_runtime_to_vendor =
        (if vendor_to_runtime \<noteq> [] \<and> runtime_to_vendor = [] then dict_of_pairs (map (\<lambda>(k, v). (v, k)) vendor_to_runtime)
         else runtime_to_vendor)\<rparr>"

definition vendor_to_runtime_cap :: "CapabilityMapping \<Rightarrow> string \<Rightarrow> Capability option" where
  "vendor_to_runtime_cap m vendor_cap = map_of (cm_vendor_to_runtime m) vendor_cap"

definition runtime_to_vendor_cap :: "CapabilityMapping \<Rightarrow> Capability \<Rightarrow> string option" where
  "runtime_to_vendor_cap m runtime_cap = map_of (cm_runtime_to_vendor m) runtime_cap"

definition capability_mapping_to_dict :: "CapabilityMapping \<Rightarrow> payload" where
  "capability_mapping_to_dict m =
     [(''vendor_id'', JStr (cm_vendor_id m)),
      (''vendor_to_runtime'', JDict (map (\<lambda>(k, v). (k, JStr (capability_value v))) (cm_vendor_to_runtime m))),
      (''runtime_to_vendor'', JDict (dict_of_pairs (map (\<lambda>(k, v). (capability_value v, JStr k)) (cm_vendor_to_runtime m))))]"

record VendorAdapter =
  va_manifest :: VendorManifest
  va_capability_mapping :: CapabilityMapping
  va_serialize :: "payload \<Rightarrow> string"
  va_content_type :: string
  va_format_name :: string

text \<open>\<open>list(TransportType)\<close>; no adapter overrides the method.\<close>

definition vendor_supported_transports :: "VendorAdapter \<Rightarrow> TransportType list" where
  "vendor_supported_transports a = [MCP, REST, WEBSOCKET, CLI, IPC, FILESYSTEM, GRPC]"

definition vendor_is_compatible :: "VendorAdapter \<Rightarrow> TransportType \<Rightarrow> bool" where
  "vendor_is_compatible a t \<longleftrightarrow> t \<in> set (vendor_supported_transports a)"

section \<open>Connectors\<close>

definition native_manifest :: "host \<Rightarrow> string \<Rightarrow> string \<Rightarrow> TransportType list \<Rightarrow> Capability set \<Rightarrow> string \<Rightarrow> string \<Rightarrow> VendorManifest" where
  "native_manifest h name vendor_id transports capabilities serializer family =
     \<lparr>vm_manifest_id = generate_vendor_manifest_id h name vendor_id ''1.0.0'', vm_name = name, vm_vendor_id = vendor_id,
      vm_version = ''1.0.0'', vm_supported_transports = transports, vm_supported_capabilities = capabilities,
      vm_default_serializer = serializer, vm_status = ACTIVE,
      vm_metadata = [(''api_version'', ''2024-01-01''), (''model_family'', family)]\<rparr>"

definition native_serialize :: "string \<Rightarrow> payload \<Rightarrow> string" where
  "native_serialize fmt package_dict =
     utf8_encode (json_dumps_indent (JDict [(''type'', JStr ''workspace_package''), (''data'', JDict package_dict), (''format'', JStr fmt)]))"

definition claude_adapter :: "host \<Rightarrow> VendorAdapter" where
  "claude_adapter h = \<lparr>
     va_manifest = native_manifest h ''Claude'' ''anthropic'' [MCP, CLI]
       {READ_WORKSPACE, READ_MEMORY, SUGGEST, EXECUTE_SKILLS, READ_KNOWLEDGE, READ_LINEAGE} ''ClaudeJSON'' ''claude-3'',
     va_capability_mapping = capability_mapping ''anthropic''
       [(''read:workspace'', READ_WORKSPACE), (''read:memory'', READ_MEMORY), (''read:knowledge'', READ_KNOWLEDGE),
        (''read:lineage'', READ_LINEAGE), (''suggest'', SUGGEST), (''execute:skills'', EXECUTE_SKILLS)] [],
     va_serialize = native_serialize ''claude_json'', va_content_type = ''application/vnd.rationalevault.claude+json'',
     va_format_name = ''ClaudeJSON''\<rparr>"

definition codex_adapter :: "host \<Rightarrow> VendorAdapter" where
  "codex_adapter h = \<lparr>
     va_manifest = native_manifest h ''Codex'' ''openai'' [CLI, REST]
       {READ_WORKSPACE, READ_MEMORY, SUGGEST, READ_KNOWLEDGE, READ_LINEAGE} ''CodexJSON'' ''codex'',
     va_capability_mapping = capability_mapping ''openai''
       [(''read:workspace'', READ_WORKSPACE), (''read:memory'', READ_MEMORY), (''read:knowledge'', READ_KNOWLEDGE),
        (''read:lineage'', READ_LINEAGE), (''suggest'', SUGGEST)] [],
     va_serialize = native_serialize ''codex_json'', va_content_type = ''application/vnd.rationalevault.codex+json'',
     va_format_name = ''CodexJSON''\<rparr>"

definition cursor_adapter :: "host \<Rightarrow> VendorAdapter" where
  "cursor_adapter h = \<lparr>
     va_manifest = native_manifest h ''Cursor'' ''cursor'' [WEBSOCKET]
       {READ_WORKSPACE, READ_MEMORY, SUGGEST, READ_KNOWLEDGE} ''CursorJSON'' ''cursor'',
     va_capability_mapping = capability_mapping ''cursor''
       [(''read:workspace'', READ_WORKSPACE), (''read:memory'', READ_MEMORY), (''read:knowledge'', READ_KNOWLEDGE),
        (''suggest'', SUGGEST)] [],
     va_serialize = native_serialize ''cursor_json'', va_content_type = ''application/vnd.rationalevault.cursor+json'',
     va_format_name = ''CursorJSON''\<rparr>"

definition gemini_adapter :: "host \<Rightarrow> VendorAdapter" where
  "gemini_adapter h = \<lparr>
     va_manifest = native_manifest h ''Gemini'' ''google'' [REST]
       {READ_WORKSPACE, READ_MEMORY, SUGGEST, READ_KNOWLEDGE, READ_LINEAGE} ''GeminiJSON'' ''gemini'',
     va_capability_mapping = capability_mapping ''google''
       [(''read:workspace'', READ_WORKSPACE), (''read:memory'', READ_MEMORY), (''read:knowledge'', READ_KNOWLEDGE),
        (''read:lineage'', READ_LINEAGE), (''suggest'', SUGGEST)] [],
     va_serialize = native_serialize ''gemini_json'', va_content_type = ''application/vnd.rationalevault.gemini+json'',
     va_format_name = ''GeminiJSON''\<rparr>"

definition opencode_adapter :: "host \<Rightarrow> VendorAdapter" where
  "opencode_adapter h = \<lparr>
     va_manifest = native_manifest h ''OpenCode'' ''opencode'' [MCP, CLI]
       {READ_WORKSPACE, READ_MEMORY, SUGGEST, EXECUTE_SKILLS, READ_KNOWLEDGE} ''OpenCodeJSON'' ''open-code'',
     va_capability_mapping = capability_mapping ''opencode''
       [(''read:workspace'', READ_WORKSPACE), (''read:memory'', READ_MEMORY), (''read:knowledge'', READ_KNOWLEDGE),
        (''suggest'', SUGGEST), (''execute:skills'', EXECUTE_SKILLS)] [],
     va_serialize = native_serialize ''opencode_json'', va_content_type = ''application/vnd.rationalevault.opencode+json'',
     va_format_name = ''OpenCodeJSON''\<rparr>"

definition vendor_adapters :: "host \<Rightarrow> VendorAdapter list" where
  "vendor_adapters h = [claude_adapter h, codex_adapter h, cursor_adapter h, gemini_adapter h, opencode_adapter h]"

text \<open>An adapter in the pipeline of the transport, which calls \<open>serialize\<close> and \<open>content_type\<close>.\<close>

definition adapter_serializer :: "VendorAdapter \<Rightarrow> Serializer" where
  "adapter_serializer a = \<lparr>sz_serialize = (\<lambda>d. Inr (va_serialize a d)), sz_content_type = va_content_type a\<rparr>"

section \<open>Properties\<close>

lemmas adapter_defs = claude_adapter_def codex_adapter_def cursor_adapter_def gemini_adapter_def opencode_adapter_def

lemma native_decodes:
  assumes "wf_json (JDict d)"
  shows "rbind (utf8_decode (native_serialize fmt d)) json_loads =
    Inr (JDict [(''type'', JStr ''workspace_package''), (''data'', JDict d), (''format'', JStr fmt)])"
proof -
  have "wf_json (JDict [(''type'', JStr ''workspace_package''), (''data'', JDict d), (''format'', JStr fmt)])"
    using assms by (simp add: wf_dict_def)
  from json_loads_indent [OF this] show ?thesis by (simp add: native_serialize_def)
qed

lemma adapter_decodes:
  assumes "a \<in> set (vendor_adapters h)" and "wf_json (JDict d)"
  shows "\<exists>fmt. rbind (utf8_decode (va_serialize a d)) json_loads =
    Inr (JDict [(''type'', JStr ''workspace_package''), (''data'', JDict d), (''format'', JStr fmt)])"
proof -
  have "\<exists>fmt. va_serialize a = native_serialize fmt"
    using assms(1) unfolding vendor_adapters_def by (auto simp: adapter_defs)
  then obtain fmt where "va_serialize a = native_serialize fmt" ..
  with native_decodes [OF assms(2), of fmt] show ?thesis by metis
qed

text \<open>If no two names of a vendor mean the same capability, the reverse map that the constructor builds is the inverse.\<close>

lemma mapping_inverse:
  assumes "wf_dict m" and "distinct (map snd m)"
  shows "vendor_to_runtime_cap (capability_mapping i m []) v = Some c \<longleftrightarrow> runtime_to_vendor_cap (capability_mapping i m []) c = Some v"
    and "(\<exists>v. vendor_to_runtime_cap (capability_mapping i m []) v = Some c) \<longleftrightarrow> c \<in> snd ` set m"
proof -
  have wf: "wf_dict (map (\<lambda>(k, v). (v, k)) m)" using assms(2) by (simp add: wf_dict_def comp_def split_beta)
  have m: "map_of m v = Some c \<longleftrightarrow> (v, c) \<in> set m" for v c using assms(1) by (simp add: wf_dict_def)
  have "map_of (map (\<lambda>(k, v). (v, k)) m) c = Some v \<longleftrightarrow> (v, c) \<in> set m" using wf by (auto simp: wf_dict_def)
  then show "vendor_to_runtime_cap (capability_mapping i m []) v = Some c \<longleftrightarrow> runtime_to_vendor_cap (capability_mapping i m []) c = Some v"
    by (simp add: vendor_to_runtime_cap_def runtime_to_vendor_cap_def capability_mapping_def dict_of_pairs_wf [OF wf] m)
  show "(\<exists>v. vendor_to_runtime_cap (capability_mapping i m []) v = Some c) \<longleftrightarrow> c \<in> snd ` set m"
    by (force simp: vendor_to_runtime_cap_def capability_mapping_def m)
qed

lemma adapter_mapping:
  assumes "a \<in> set (vendor_adapters h)"
  shows "\<exists>i m. va_capability_mapping a = capability_mapping i m [] \<and> wf_dict m \<and> distinct (map snd m) \<and>
    snd ` set m = vm_supported_capabilities (va_manifest a) \<and> vm_default_serializer (va_manifest a) = va_format_name a"
  using assms unfolding vendor_adapters_def
  by (simp, elim disjE) (simp_all add: adapter_defs native_manifest_def wf_dict_def, fastforce+)

text \<open>Names of capabilities translate back and forth.  For every native adapter the two maps are inverse to each other, the
  capabilities it maps are those of its manifest, and the default serializer of the manifest is its own format; no two
  adapters share a format or a vendor.\<close>

theorem vendor_mappings_correct:
  "(\<forall>a \<in> set (vendor_adapters h).
      (\<forall>v c. vendor_to_runtime_cap (va_capability_mapping a) v = Some c \<longleftrightarrow> runtime_to_vendor_cap (va_capability_mapping a) c = Some v) \<and>
      (\<forall>c. c \<in> vm_supported_capabilities (va_manifest a) \<longleftrightarrow> (\<exists>v. vendor_to_runtime_cap (va_capability_mapping a) v = Some c)) \<and>
      vm_default_serializer (va_manifest a) = va_format_name a) \<and>
   distinct (map va_format_name (vendor_adapters h)) \<and> distinct (map (vm_vendor_id \<circ> va_manifest) (vendor_adapters h))"
proof (intro conjI ballI)
  fix a assume "a \<in> set (vendor_adapters h)"
  then obtain i m where a: "va_capability_mapping a = capability_mapping i m []" "wf_dict m" "distinct (map snd m)"
    "snd ` set m = vm_supported_capabilities (va_manifest a)" "vm_default_serializer (va_manifest a) = va_format_name a"
    using adapter_mapping by blast
  note inverse = mapping_inverse [OF a(2,3), of i]
  show "\<forall>v c. vendor_to_runtime_cap (va_capability_mapping a) v = Some c \<longleftrightarrow> runtime_to_vendor_cap (va_capability_mapping a) c = Some v"
    unfolding a(1) using inverse(1) by blast
  show "\<forall>c. c \<in> vm_supported_capabilities (va_manifest a) \<longleftrightarrow> (\<exists>v. vendor_to_runtime_cap (va_capability_mapping a) v = Some c)"
    unfolding a(1) a(4) [symmetric] inverse(2) by simp
  show "vm_default_serializer (va_manifest a) = va_format_name a" by (rule a(5))
qed (simp_all add: vendor_adapters_def adapter_defs native_manifest_def)

text \<open>The inherited check of transports ignores the manifest: every adapter reports every transport as compatible.\<close>

theorem every_transport_compatible:
  "vendor_is_compatible a t \<and> vm_supported_transports (va_manifest (cursor_adapter h)) = [WEBSOCKET]"
  by (cases t) (simp_all add: vendor_is_compatible_def vendor_supported_transports_def cursor_adapter_def native_manifest_def)

end
