(* ===== verification/PyFloat.thy ===== *)
theory PyFloat
  imports Complex_Main Prelude "HOL-Library.Log_Nat"
begin

text \<open>
  Python's floats.  A finite float is the rational number it denotes, and an operation computes the
  exact result and rounds it to the nearest number with 53 significant bits, ties to even, as IEEE 754
  prescribes for binary64, with gradual underflow below \<open>2 ^ (-1022)\<close>.  The two zeros are one number here.
  Infinities and NaN are outside the model: the scores the program computes are sums and products of
  a few numbers of moderate size, far from the overflow threshold.

  A literal such as \<open>0.05\<close> is written \<open>flt (5 / 100)\<close>, the float nearest to the decimal.
  The laws that carry the components are that rounding is monotone and keeps the numbers that are floats,
  so that bounds by floats survive every operation.
\<close>

type_synonym pyfloat = rat

named_theorems float_bounds \<open>bounds of float operations by floats\<close>

section \<open>Rounding\<close>

text \<open>The integer nearest to a rational, ties to even.\<close>

definition half_even :: "rat \<Rightarrow> int" where
  "half_even x =
     (let f = \<lfloor>x\<rfloor>; r = x - of_int f
      in if r < 1 / 2 then f else if 1 / 2 < r then f + 1 else if even f then f else f + 1)"

text \<open>The binary exponent of a positive rational, \<open>2 powi ilog2 x \<le> x < 2 powi (ilog2 x + 1)\<close>.\<close>

definition ilog2 :: "rat \<Rightarrow> int" where
  "ilog2 x =
     (let (n, d) = quotient_of x; e = bitlen n - bitlen d
      in if 2 powi e \<le> x then e else e - 1)"

text \<open>The exponent of the last place.\<close>

definition ulp_exp :: "rat \<Rightarrow> int" where
  "ulp_exp x = max (ilog2 \<bar>x\<bar> - 52) (- 1074)"

definition flt :: "rat \<Rightarrow> pyfloat" where
  "flt x = (if x = 0 then 0 else of_int (half_even (x / 2 powi ulp_exp x)) * 2 powi ulp_exp x)"

definition is_float :: "rat \<Rightarrow> bool" where
  "is_float x \<longleftrightarrow> flt x = x"

section \<open>Operations\<close>

definition fadd :: "pyfloat \<Rightarrow> pyfloat \<Rightarrow> pyfloat" where
  "fadd a b = flt (a + b)"

definition fsub :: "pyfloat \<Rightarrow> pyfloat \<Rightarrow> pyfloat" where
  "fsub a b = flt (a - b)"

definition fmul :: "pyfloat \<Rightarrow> pyfloat \<Rightarrow> pyfloat" where
  "fmul a b = flt (a * b)"

text \<open>Division by a number the caller has found nonzero; ints are divided exactly and then rounded.\<close>

definition fdiv :: "rat \<Rightarrow> rat \<Rightarrow> pyfloat" where
  "fdiv a b = flt (a / b)"

text \<open>An int in an operation with a float is converted first.\<close>

definition float_of_int :: "int \<Rightarrow> pyfloat" where
  "float_of_int i = flt (of_int i)"

text \<open>\<open>round(x, n)\<close>.\<close>

definition py_round :: "nat \<Rightarrow> pyfloat \<Rightarrow> pyfloat" where
  "py_round n x = flt (of_int (half_even (x * 10 ^ n)) / 10 ^ n)"

text \<open>\<open>max(0.0, min(1.0, x))\<close>.\<close>

definition clamp01 :: "pyfloat \<Rightarrow> pyfloat" where
  "clamp01 x = max 0 (min 1 x)"

text \<open>\<open>sum\<close> of floats since Python 3.12: the running sum \<open>s\<close> with the compensation \<open>c\<close> of Neumaier.\<close>

fun compensated :: "pyfloat \<Rightarrow> pyfloat \<Rightarrow> pyfloat list \<Rightarrow> pyfloat" where
  "compensated s c [] = (if c = 0 then s else fadd s c)"
| "compensated s c (x # xs) =
     (let t = fadd s x
      in compensated t
           (fadd c (if \<bar>x\<bar> \<le> \<bar>s\<bar> then fadd (fsub s t) x else fadd (fsub x t) s)) xs)"

fun py_sum :: "pyfloat list \<Rightarrow> pyfloat" where
  "py_sum [] = 0"
| "py_sum (x # xs) = compensated x 0 xs"

section \<open>Laws of rounding\<close>

lemma half_even_of_int [simp]: "half_even (of_int i) = i"
  by (simp add: half_even_def)

lemma half_even_minus: "half_even (- x) = - half_even x"
proof (cases "x = of_int \<lfloor>x\<rfloor>")
  case True
  then show ?thesis by (metis half_even_of_int of_int_minus)
next
  case False
  have "\<lfloor>- x\<rfloor> = - \<lfloor>x\<rfloor> - 1"
    using False by (metis ceiling_altdef ceiling_def minus_minus diff_minus_eq_add minus_add_distrib uminus_add_conv_diff)
  then show ?thesis by (simp add: half_even_def Let_def)
qed

lemma half_even_bounds: "of_int (half_even x) \<le> x + 1 / 2" "x - 1 / 2 \<le> of_int (half_even x)"
  by (simp_all add: half_even_def Let_def) linarith+

lemma half_even_mono:
  assumes "x \<le> y"
  shows "half_even x \<le> half_even y"
proof (cases "\<lfloor>x\<rfloor> = \<lfloor>y\<rfloor>")
  case True
  then show ?thesis using assms by (simp add: half_even_def Let_def)
next
  case False
  with assms have "\<lfloor>x\<rfloor> + 1 \<le> \<lfloor>y\<rfloor>" using floor_mono [OF assms] by linarith
  moreover have "half_even x \<le> \<lfloor>x\<rfloor> + 1" "\<lfloor>y\<rfloor> \<le> half_even y" by (simp_all add: half_even_def Let_def)
  ultimately show ?thesis by linarith
qed

lemma half_even_le_int: "x \<le> of_int i \<Longrightarrow> half_even x \<le> i"
  using half_even_mono [of x "of_int i"] by simp

lemma half_even_ge_int: "of_int i \<le> x \<Longrightarrow> i \<le> half_even x"
  using half_even_mono [of "of_int i" x] by simp

lemma powi_split: "(2::rat) powi e = 2 powi (e - f) * 2 powi f"
  by (simp flip: power_int_add)

lemma powi_le_iff [simp]: "(2::rat) powi a \<le> 2 powi b \<longleftrightarrow> a \<le> b"
  by (metis less_le_not_le linorder_le_cases one_less_numeral_iff power_int_increasing power_int_strict_increasing
      semiring_norm(76) linorder_not_le one_le_numeral)

lemma bitlen_powi:
  assumes "0 < n"
  shows "2 powi (bitlen n - 1) \<le> (of_int n :: rat)" "(of_int n :: rat) < 2 powi bitlen n"
proof -
  have b: "2 ^ nat (bitlen n - 1) \<le> n" "n < 2 ^ nat (bitlen n)"
    using bitlen_bounds [OF assms] by simp_all
  then have p: "0 < bitlen n" using assms by (cases "0 < bitlen n") simp_all
  have "(of_int (2 ^ nat (bitlen n - 1)) :: rat) \<le> of_int n" using b(1) by (simp only: of_int_le_iff)
  then show "2 powi (bitlen n - 1) \<le> (of_int n :: rat)" using p by (simp add: power_int_def)
  have "(of_int n :: rat) < of_int (2 ^ nat (bitlen n))" using b(2) by (simp only: of_int_less_iff)
  then show "(of_int n :: rat) < 2 powi bitlen n" using p by (simp add: power_int_def)
qed

lemma ilog2_bounds:
  assumes "0 < x"
  shows "2 powi ilog2 x \<le> x" "x < 2 powi (ilog2 x + 1)"
proof -
  obtain n d where q: "quotient_of x = (n, d)" by fastforce
  have d: "0 < d" using quotient_of_denom_pos [OF q] .
  have x: "x = of_int n / of_int d" using quotient_of_div [OF q] .
  with assms d have n: "0 < n" by (simp add: zero_less_divide_iff)
  define a b where "a = bitlen n" and "b = bitlen d"
  note N = bitlen_powi [OF n, folded a_def] and D = bitlen_powi [OF d, folded b_def]
  have pos: "0 < (of_int d :: rat)" using d by simp
  have "x * of_int d = of_int n" using x pos by simp
  have "(2::rat) powi (a - b - 1) * of_int d \<le> 2 powi (a - b - 1) * 2 powi b"
    using D(2) by (intro mult_left_mono) simp_all
  also have "\<dots> = 2 powi (a - 1)" by (simp flip: power_int_add add: algebra_simps)
  also have "\<dots> \<le> of_int n" by (rule N(1))
  finally have low: "2 powi (a - b - 1) \<le> x" using x pos by (simp add: pos_le_divide_eq)
  have "(of_int n :: rat) < 2 powi a" by (rule N(2))
  also have "(2::rat) powi a = 2 powi (a - b + 1) * 2 powi (b - 1)" by (simp flip: power_int_add add: algebra_simps)
  also have "\<dots> \<le> 2 powi (a - b + 1) * of_int d" using D(1) by (intro mult_left_mono) simp_all
  finally have high: "x < 2 powi (a - b + 1)" using x pos by (simp add: pos_divide_less_eq)
  have e: "ilog2 x = (if 2 powi (a - b) \<le> x then a - b else a - b - 1)"
    by (simp add: ilog2_def q a_def b_def Let_def)
  show "2 powi ilog2 x \<le> x" using low by (simp add: e)
  show "x < 2 powi (ilog2 x + 1)" using high by (simp add: e)
qed

lemma ilog2_mono:
  assumes "0 < x" "x \<le> y"
  shows "ilog2 x \<le> ilog2 y"
proof -
  have "(2::rat) powi ilog2 x < 2 powi (ilog2 y + 1)"
    using ilog2_bounds(1) [OF assms(1)] ilog2_bounds(2) [of y] assms by linarith
  then show ?thesis by (metis linorder_not_le powi_le_iff zle_add1_eq_le)
qed

lemma flt_0 [simp]: "flt 0 = 0"
  by (simp add: flt_def)

lemma flt_minus: "flt (- x) = - flt x"
  by (simp add: flt_def ulp_exp_def half_even_minus)

lemma flt_nonneg: "0 \<le> x \<Longrightarrow> 0 \<le> flt x"
  using half_even_ge_int [of 0 "x / 2 powi ulp_exp x"] by (simp add: flt_def)

text \<open>A number \<open>m * 2 ^ e\<close> with a mantissa of 53 bits and an exponent in range is a float.\<close>

lemma flt_exact:
  assumes "\<bar>m\<bar> < 2 ^ 53" "- 1074 \<le> e"
  shows "flt (of_int m * 2 powi e) = of_int m * 2 powi e"
proof (cases "m = 0")
  case False
  define x where "x = (of_int m :: rat) * 2 powi e"
  have nz: "0 < \<bar>x\<bar>" using False by (simp add: x_def)
  have "\<bar>x\<bar> < 2 powi (e + 53)"
  proof -
    have "(of_int \<bar>m\<bar> :: rat) < of_int (2 ^ 53)" using assms(1) by (simp only: of_int_less_iff)
    then have "\<bar>of_int m :: rat\<bar> * 2 powi e < 2 powi 53 * 2 powi e" by simp
    then show ?thesis by (simp add: x_def abs_mult power_int_add mult.commute)
  qed
  with ilog2_bounds(1) [OF nz] have "(2::rat) powi ilog2 \<bar>x\<bar> < 2 powi (e + 53)" by linarith
  then have "ilog2 \<bar>x\<bar> < e + 53" by (metis linorder_not_le powi_le_iff)
  with assms(2) have u: "ulp_exp x \<le> e" by (simp add: ulp_exp_def)
  have "x / 2 powi ulp_exp x = of_int (m * 2 ^ nat (e - ulp_exp x))"
  proof -
    have "(2::rat) powi e = 2 powi (e - ulp_exp x) * 2 powi ulp_exp x" by (rule powi_split)
    then have "x / 2 powi ulp_exp x = of_int m * (2 powi (e - ulp_exp x) * 2 powi ulp_exp x) / 2 powi ulp_exp x"
      by (simp only: x_def)
    then have "x / 2 powi ulp_exp x = of_int m * 2 powi (e - ulp_exp x)" by simp
    then show ?thesis using u by (simp add: power_int_def)
  qed
  then have "half_even (x / 2 powi ulp_exp x) = m * 2 ^ nat (e - ulp_exp x)"
    and "of_int (m * 2 ^ nat (e - ulp_exp x)) = x / 2 powi ulp_exp x" by (simp_all only: half_even_of_int)
  then have "flt x = x / 2 powi ulp_exp x * 2 powi ulp_exp x"
    using nz by (simp only: flt_def) simp
  then show ?thesis by (simp add: x_def)
qed simp

lemma flt_powi [simp]: "- 1074 \<le> e \<Longrightarrow> flt (2 powi e) = 2 powi e"
  using flt_exact [of 1 e] by simp

lemma flt_of_int: "\<bar>m\<bar> < 2 ^ 53 \<Longrightarrow> flt (of_int m) = of_int m"
  using flt_exact [of m 0] by simp

lemma flt_lattice: "0 < x \<Longrightarrow> \<exists>m. flt x = of_int m * 2 powi ulp_exp x"
  by (auto simp: flt_def)

text \<open>Rounding does not cross the powers of two around a number.\<close>

lemma flt_below_power:
  assumes "0 < x" "ilog2 x + 1 \<le> e" "- 1074 \<le> e"
  shows "flt x \<le> 2 powi e"
proof -
  have u: "ulp_exp x \<le> e" using assms by (simp add: ulp_exp_def)
  have "x \<le> 2 powi e" using ilog2_bounds(2) [OF assms(1)] assms(2) by (meson less_le_trans less_imp_le powi_le_iff)
  then have "x \<le> of_int (2 ^ nat (e - ulp_exp x)) * 2 powi ulp_exp x"
    using powi_split [of e "ulp_exp x"] u by (simp add: power_int_def)
  then have "half_even (x / 2 powi ulp_exp x) \<le> 2 ^ nat (e - ulp_exp x)"
    by (intro half_even_le_int) (simp only: pos_divide_le_eq zero_less_power_int zero_less_numeral)
  then have "of_int (half_even (x / 2 powi ulp_exp x)) \<le> (of_int (2 ^ nat (e - ulp_exp x)) :: rat)" by (simp only: of_int_le_iff)
  then have "flt x \<le> of_int (2 ^ nat (e - ulp_exp x)) * 2 powi ulp_exp x"
    using assms(1) by (simp add: flt_def)
  then show ?thesis using powi_split [of e "ulp_exp x"] u by (simp add: power_int_def)
qed

lemma flt_above_power:
  assumes "0 < x" "- 1022 \<le> ilog2 x"
  shows "2 powi ilog2 x \<le> flt x"
proof -
  have u: "ulp_exp x = ilog2 x - 52" using assms by (simp add: ulp_exp_def)
  have e: "2 powi ilog2 x = of_int (2 ^ 52) * (2::rat) powi ulp_exp x"
    using powi_split [of "ilog2 x" "ulp_exp x"] by (simp add: u)
  have "of_int (2 ^ 52) \<le> x / 2 powi ulp_exp x"
    using ilog2_bounds(1) [OF assms(1)] unfolding e
    by (simp only: pos_le_divide_eq zero_less_power_int zero_less_numeral)
  then have "(2 ^ 52 :: int) \<le> half_even (x / 2 powi ulp_exp x)" by (rule half_even_ge_int)
  then have "(of_int (2 ^ 52) :: rat) \<le> of_int (half_even (x / 2 powi ulp_exp x))" by (simp only: of_int_le_iff)
  then show ?thesis unfolding e using assms(1) by (simp add: flt_def)
qed

lemma flt_mono_pos:
  assumes "0 < x" "x \<le> y"
  shows "flt x \<le> flt y"
proof (cases "ulp_exp x = ulp_exp y")
  case True
  have "half_even (x / 2 powi ulp_exp x) \<le> half_even (y / 2 powi ulp_exp x)"
    using assms(2) by (intro half_even_mono divide_right_mono) simp_all
  then show ?thesis using True assms by (simp add: flt_def)
next
  case False
  have "ilog2 x \<le> ilog2 y" using ilog2_mono [OF assms] .
  with False assms have *: "ilog2 x + 1 \<le> ilog2 y" "- 1022 \<le> ilog2 y" by (auto simp: ulp_exp_def max_def split: if_splits)
  then have "flt x \<le> 2 powi ilog2 y" by (intro flt_below_power [OF assms(1)]) simp_all
  also have "\<dots> \<le> flt y" using * assms by (intro flt_above_power) simp_all
  finally show ?thesis .
qed

theorem flt_mono: "x \<le> y \<Longrightarrow> flt x \<le> flt y"
proof (cases "0 < x")
  case False
  assume le: "x \<le> y"
  show ?thesis
  proof (cases "0 \<le> y")
    case True
    then show ?thesis using False flt_nonneg [of y] flt_nonneg [of "- x"] by (simp add: flt_minus)
  next
    case neg: False
    then show ?thesis using flt_mono_pos [of "- y" "- x"] le by (simp add: flt_minus)
  qed
qed (rule flt_mono_pos)

lemma ulp_exp_lattice:
  assumes "0 < x"
  shows "0 \<le> half_even (x / 2 powi ulp_exp x)" "half_even (x / 2 powi ulp_exp x) \<le> 2 ^ 53"
proof -
  show "0 \<le> half_even (x / 2 powi ulp_exp x)" using assms by (intro half_even_ge_int) simp
  have "ilog2 x + 1 \<le> ulp_exp x + 53" using assms by (simp add: ulp_exp_def)
  then have "x \<le> 2 powi (ulp_exp x + 53)"
    using ilog2_bounds(2) [OF assms] by (meson less_le_trans less_imp_le powi_le_iff)
  then have "x \<le> of_int (2 ^ 53) * 2 powi ulp_exp x" by (simp add: power_int_add mult.commute)
  then have "x / 2 powi ulp_exp x \<le> of_int (2 ^ 53)"
    by (simp only: pos_divide_le_eq zero_less_power_int zero_less_numeral)
  then show "half_even (x / 2 powi ulp_exp x) \<le> 2 ^ 53" by (rule half_even_le_int)
qed

lemma flt_flt_pos:
  assumes "0 < x"
  shows "flt (flt x) = flt x"
proof -
  define m where "m = half_even (x / 2 powi ulp_exp x)"
  have f: "flt x = of_int m * 2 powi ulp_exp x" using assms by (simp add: flt_def m_def)
  have m: "0 \<le> m" "m \<le> 2 ^ 53" using ulp_exp_lattice [OF assms] by (simp_all add: m_def)
  have u: "- 1074 \<le> ulp_exp x" by (simp add: ulp_exp_def)
  show ?thesis
  proof (cases "m = 2 ^ 53")
    case True
    then have "flt x = 2 powi (53 + ulp_exp x)" by (simp add: f power_int_add)
    then show ?thesis using u by simp
  next
    case False
    then show ?thesis using flt_exact [of m "ulp_exp x"] m u by (simp add: f)
  qed
qed

lemma flt_flt [simp]: "flt (flt x) = flt x"
proof (cases x "0 :: rat" rule: linorder_cases)
  case less
  then show ?thesis using flt_flt_pos [of "- x"] by (simp add: flt_minus)
qed (simp_all add: flt_flt_pos)

lemma flt_le [float_bounds]: "x \<le> b \<Longrightarrow> is_float b \<Longrightarrow> flt x \<le> b"
  using flt_mono [of x b] by (simp add: is_float_def)

lemma flt_ge [float_bounds]: "b \<le> x \<Longrightarrow> is_float b \<Longrightarrow> b \<le> flt x"
  using flt_mono [of b x] by (simp add: is_float_def)

lemma is_float_flt [simp]: "is_float (flt x)"
  by (simp add: is_float_def)

lemma is_float_ops [simp]:
  "is_float (fadd a b)" "is_float (fsub a b)" "is_float (fmul a b)" "is_float (fdiv a b)"
  "is_float (float_of_int i)" "is_float (py_round n x)"
  by (simp_all add: fadd_def fsub_def fmul_def fdiv_def float_of_int_def py_round_def)

lemma is_float_of_int: "\<bar>i\<bar> < 2 ^ 53 \<Longrightarrow> is_float (of_int i)"
  by (simp add: is_float_def flt_of_int)

lemma is_float_small [simp]: "is_float 0" "is_float 1" "is_float (- 1)"
  using is_float_of_int [of 0] is_float_of_int [of 1] is_float_of_int [of "- 1"] by simp_all

lemma is_float_numeral: "(numeral n :: int) < 2 ^ 53 \<Longrightarrow> is_float (numeral n)"
  using is_float_of_int [of "numeral n"] by simp

lemma is_float_minus [simp]: "is_float (- x) \<longleftrightarrow> is_float x"
  by (simp add: is_float_def flt_minus)

lemma is_float_min_max [simp]:
  "is_float a \<Longrightarrow> is_float b \<Longrightarrow> is_float (min a b)" "is_float a \<Longrightarrow> is_float b \<Longrightarrow> is_float (max a b)"
  by (simp_all add: min_def max_def)

section \<open>Laws of the operations\<close>

lemma fadd_mono: "a \<le> a' \<Longrightarrow> b \<le> b' \<Longrightarrow> fadd a b \<le> fadd a' b'"
  by (simp add: fadd_def add_mono flt_mono)

lemma fsub_mono: "a \<le> a' \<Longrightarrow> b' \<le> b \<Longrightarrow> fsub a b \<le> fsub a' b'"
  by (simp add: fsub_def diff_mono flt_mono)

lemma fmul_mono: "a \<le> a' \<Longrightarrow> b \<le> b' \<Longrightarrow> 0 \<le> a' \<Longrightarrow> 0 \<le> b \<Longrightarrow> fmul a b \<le> fmul a' b'"
  by (simp add: fmul_def mult_mono flt_mono)

lemma fdiv_mono: "a \<le> a' \<Longrightarrow> 0 \<le> c \<Longrightarrow> fdiv a c \<le> fdiv a' c"
  by (simp add: fdiv_def divide_right_mono flt_mono)

lemma float_of_int_mono: "i \<le> j \<Longrightarrow> float_of_int i \<le> float_of_int j"
  by (simp add: float_of_int_def flt_mono)

lemma fmul_nonneg [simp]: "0 \<le> a \<Longrightarrow> 0 \<le> b \<Longrightarrow> 0 \<le> fmul a b"
  by (simp add: fmul_def flt_nonneg)

lemma fadd_nonneg [simp]: "0 \<le> a \<Longrightarrow> 0 \<le> b \<Longrightarrow> 0 \<le> fadd a b"
  by (simp add: fadd_def flt_nonneg)

lemma fdiv_nonneg [simp]: "0 \<le> a \<Longrightarrow> 0 \<le> b \<Longrightarrow> 0 \<le> fdiv a b"
  by (simp add: fdiv_def flt_nonneg)

lemma float_of_int_nonneg [simp]: "0 \<le> i \<Longrightarrow> 0 \<le> float_of_int i"
  by (simp add: float_of_int_def flt_nonneg)

lemma float_of_int_small [simp]: "float_of_int 0 = 0" "float_of_int 1 = 1"
  using is_float_small by (simp_all add: float_of_int_def is_float_def)

lemma fadd_0 [simp]: "is_float a \<Longrightarrow> fadd a 0 = a" "is_float a \<Longrightarrow> fadd 0 a = a" "is_float a \<Longrightarrow> fsub a 0 = a"
  by (simp_all add: fadd_def fsub_def is_float_def)

lemma fmul_simps [simp]:
  "fmul 0 a = 0" "fmul a 0 = 0" "is_float a \<Longrightarrow> fmul 1 a = a" "is_float a \<Longrightarrow> fmul a 1 = a"
  by (simp_all add: fmul_def is_float_def)

lemma fmul_le_left [float_bounds]: "is_float a \<Longrightarrow> 0 \<le> a \<Longrightarrow> b \<le> 1 \<Longrightarrow> fmul a b \<le> a"
  unfolding fmul_def by (rule flt_le) (simp_all add: mult_left_le)

lemma fmul_le_right [float_bounds]: "is_float b \<Longrightarrow> 0 \<le> b \<Longrightarrow> a \<le> 1 \<Longrightarrow> fmul a b \<le> b"
  using fmul_le_left [of b a] by (simp add: fmul_def mult.commute)

lemma fdiv_le_one [float_bounds]: "a \<le> b \<Longrightarrow> 0 \<le> b \<Longrightarrow> fdiv a b \<le> 1"
  unfolding fdiv_def by (rule flt_le) (auto simp: divide_le_eq_1)

lemma clamp01_range [simp]: "0 \<le> clamp01 x" "clamp01 x \<le> 1"
  by (simp_all add: clamp01_def)

lemma clamp01_id: "0 \<le> x \<Longrightarrow> x \<le> 1 \<Longrightarrow> clamp01 x = x"
  by (simp add: clamp01_def)

lemma clamp01_mono: "x \<le> y \<Longrightarrow> clamp01 x \<le> clamp01 y"
  by (simp add: clamp01_def)

lemma is_float_clamp01 [simp]: "is_float x \<Longrightarrow> is_float (clamp01 x)"
  by (simp add: clamp01_def)

lemma py_round_mono: "x \<le> y \<Longrightarrow> py_round n x \<le> py_round n y"
  unfolding py_round_def
  by (intro flt_mono divide_right_mono) (simp_all add: half_even_mono)

lemma py_round_of_int: "\<bar>i\<bar> < 2 ^ 53 \<Longrightarrow> py_round n (of_int i) = of_int i"
proof -
  assume i: "\<bar>i\<bar> < 2 ^ 53"
  have "(of_int i * 10 ^ n :: rat) = of_int (i * 10 ^ n)" by simp
  then have "half_even (of_int i * 10 ^ n) = i * 10 ^ n" by (simp only: half_even_of_int)
  then show ?thesis using flt_of_int [OF i] by (simp add: py_round_def)
qed

lemma py_round_range [simp]: "0 \<le> x \<Longrightarrow> 0 \<le> py_round n x" "x \<le> 1 \<Longrightarrow> py_round n x \<le> 1"
  using py_round_mono [of 0 x n] py_round_mono [of x 1 n] py_round_of_int [of 0 n] py_round_of_int [of 1 n] by simp_all

end
