(* ===== verification/PyText.thy ===== *)
theory PyText
  imports Prelude "HOL-Library.Sublist"
begin

text \<open>
  The methods of \<open>str\<close> the program uses on free text: \<open>lower\<close>, \<open>split\<close>, \<open>splitlines\<close>,
  \<open>in\<close>, \<open>startswith\<close>, \<open>isdigit\<close>, and \<open>re.findall\<close> of words.  Text is made of the 256 code points
  of \<open>char\<close>; the tables below are those of Unicode for that range.
\<close>

section \<open>Characters\<close>

definition lower_char :: "char \<Rightarrow> char" where
  "lower_char c =
     (let n = of_char c :: nat
      in if 65 \<le> n \<and> n \<le> 90 \<or> 192 \<le> n \<and> n \<le> 222 \<and> n \<noteq> 215 then char_of (n + 32) else c)"

definition lower :: "string \<Rightarrow> string" where
  "lower s = map lower_char s"

text \<open>The characters that \<open>\w\<close> matches.\<close>

definition is_word_char :: "char \<Rightarrow> bool" where
  "is_word_char c \<longleftrightarrow>
     (let n = of_char c :: nat
      in 48 \<le> n \<and> n \<le> 57 \<or> 65 \<le> n \<and> n \<le> 90 \<or> n = 95 \<or> 97 \<le> n \<and> n \<le> 122 \<or>
         n = 170 \<or> n = 178 \<or> n = 179 \<or> n = 181 \<or> n = 185 \<or> n = 186 \<or> 188 \<le> n \<and> n \<le> 190 \<or>
         192 \<le> n \<and> n \<noteq> 215 \<and> n \<noteq> 247)"

text \<open>The characters \<open>str.isdigit\<close> accepts; the superscripts are digits that \<open>int\<close> refuses.\<close>

definition is_unicode_digit :: "char \<Rightarrow> bool" where
  "is_unicode_digit c \<longleftrightarrow> is_digit c \<or> (let n = of_char c :: nat in n = 178 \<or> n = 179 \<or> n = 185)"

definition isdigit_text :: "string \<Rightarrow> bool" where
  "isdigit_text s \<longleftrightarrow> s \<noteq> [] \<and> list_all is_unicode_digit s"

definition is_line_break :: "char \<Rightarrow> bool" where
  "is_line_break c \<longleftrightarrow> (let n = of_char c :: nat in 10 \<le> n \<and> n \<le> 13 \<or> 28 \<le> n \<and> n \<le> 30 \<or> n = 133)"

lemma is_space_code [code]:
  "is_space c \<longleftrightarrow> (let n = of_char c :: nat in 9 \<le> n \<and> n \<le> 13 \<or> 28 \<le> n \<and> n \<le> 32 \<or> n = 133 \<or> n = 160)"
  by (auto simp: is_space_def Let_def)

section \<open>Pieces of text\<close>

text \<open>The maximal runs of characters that satisfy \<open>P\<close>, from left to right; \<open>w\<close> is the run being read.\<close>

fun runs_acc :: "(char \<Rightarrow> bool) \<Rightarrow> string \<Rightarrow> string \<Rightarrow> string list" where
  "runs_acc P w [] = (if w = [] then [] else [w])"
| "runs_acc P w (c # s) =
     (if P c then runs_acc P (w @ [c]) s
      else (if w = [] then [] else [w]) @ runs_acc P [] s)"

definition runs :: "(char \<Rightarrow> bool) \<Rightarrow> string \<Rightarrow> string list" where
  "runs P s = runs_acc P [] s"

text \<open>\<open>s.split()\<close>.\<close>

definition split_ws :: "string \<Rightarrow> string list" where
  "split_ws s = runs (\<lambda>c. \<not> is_space c) s"

text \<open>\<open>re.findall(r"\b\w+\b", s)\<close>: the maximal runs of word characters.\<close>

definition re_words :: "string \<Rightarrow> string list" where
  "re_words s = runs is_word_char s"

text \<open>\<open>" ".join(s.lower().strip().split())\<close>, the normal form the program compares texts by.\<close>

definition norm_text :: "string \<Rightarrow> string" where
  "norm_text s = join '' '' (split_ws (strip_ws (lower s)))"

text \<open>\<open>t in s\<close>.\<close>

fun contains :: "string \<Rightarrow> string \<Rightarrow> bool" where
  "contains t [] = (t = [])"
| "contains t (c # s) = (prefix t (c # s) \<or> contains t s)"

text \<open>\<open>s.splitlines()\<close>; a carriage return and a line feed in a row are one line break.\<close>

fun splitlines_acc :: "string \<Rightarrow> string \<Rightarrow> string list" where
  "splitlines_acc w [] = (if w = [] then [] else [w])"
| "splitlines_acc w (c # s) =
     (if c = CHR 0x0D \<and> s \<noteq> [] \<and> hd s = CHR 0x0A then w # splitlines_acc [] (tl s)
      else if is_line_break c then w # splitlines_acc [] s
      else splitlines_acc (w @ [c]) s)"

definition splitlines :: "string \<Rightarrow> string list" where
  "splitlines s = splitlines_acc [] s"

text \<open>\<open>s.split(c, 1)\<close> of a text that contains \<open>c\<close>.\<close>

definition split_once :: "char \<Rightarrow> string \<Rightarrow> string \<times> string" where
  "split_once c s = (takeWhile (\<lambda>x. x \<noteq> c) s, drop 1 (dropWhile (\<lambda>x. x \<noteq> c) s))"

section \<open>Laws\<close>

lemma contains_iff: "contains t s \<longleftrightarrow> (\<exists>u v. s = u @ t @ v)"
proof (induction s)
  case (Cons c s)
  have "(\<exists>u v. c # s = u @ t @ v) \<longleftrightarrow> (\<exists>v. c # s = t @ v) \<or> (\<exists>u v. s = u @ t @ v)"
    by (metis append_Cons append_Nil list.exhaust list.inject)
  then show ?case using Cons by (simp add: prefix_def)
qed simp

lemma contains_sublist: "contains t s \<longleftrightarrow> sublist t s"
  by (simp add: contains_iff sublist_def)

lemma contains_trans: "contains t s \<Longrightarrow> contains s r \<Longrightarrow> contains t r"
  by (auto simp: contains_sublist intro: sublist_order.order_trans)

lemma lower_char_idem [simp]: "lower_char (lower_char c) = lower_char c"
proof (cases "65 \<le> (of_char c :: nat) \<and> of_char c \<le> (90 :: nat) \<or> 192 \<le> (of_char c :: nat) \<and> of_char c \<le> (222 :: nat) \<and> of_char c \<noteq> (215 :: nat)")
  case True
  then have n: "(of_char c + 32 :: nat) mod 256 = of_char c + 32" by auto
  then have "(of_char (char_of (of_char c + 32 :: nat)) :: nat) = of_char c + 32" by simp
  then show ?thesis using True by (auto simp: lower_char_def Let_def)
qed (auto simp: lower_char_def Let_def)

lemma lower_idem [simp]: "lower (lower s) = lower s"
  by (simp add: lower_def)

lemma lower_append: "lower (s @ t) = lower s @ lower t"
  by (simp add: lower_def)

lemma runs_acc_join:
  "concat (runs_acc P w s) = w @ filter P s"
  by (induction P w s rule: runs_acc.induct) auto

lemma runs_acc_set: "list_all P w \<Longrightarrow> r \<in> set (runs_acc P w s) \<Longrightarrow> r \<noteq> [] \<and> list_all P r"
  by (induction P w s rule: runs_acc.induct) (auto split: if_splits)

lemma runs_set: "r \<in> set (runs P s) \<Longrightarrow> r \<noteq> [] \<and> list_all P r"
  using runs_acc_set [of P "[]" r s] by (simp add: runs_def)

lemma runs_acc_word: "list_all P s \<Longrightarrow> runs_acc P w (s @ t) = runs_acc P (w @ s) t"
  by (induction s arbitrary: w) auto

lemma runs_join:
  assumes "\<And>r. r \<in> set rs \<Longrightarrow> r \<noteq> [] \<and> list_all P r" and "\<not> P c"
  shows "runs P (join [c] rs) = rs"
  using assms(1)
proof (induction rs)
  case Nil
  then show ?case by (simp add: runs_def)
next
  case (Cons r rs)
  then have r: "r \<noteq> []" "list_all P r" by auto
  show ?case
  proof (cases rs)
    case Nil
    then show ?thesis using r runs_acc_word [of P r "[]" "[]"] by (simp add: runs_def)
  next
    case (Cons q qs)
    have "runs_acc P [] (r @ c # join [c] rs) = r # runs_acc P [] (join [c] rs)"
      using runs_acc_word [of P r "[]" "c # join [c] rs"] r assms(2) by simp
    then show ?thesis using Cons Cons.IH Cons.prems by (simp add: runs_def)
  qed
qed

lemma split_ws_join: "(\<And>r. r \<in> set rs \<Longrightarrow> r \<noteq> [] \<and> list_all (\<lambda>c. \<not> is_space c) r) \<Longrightarrow> split_ws (join '' '' rs) = rs"
  by (simp add: split_ws_def runs_join is_space_def)

end
