(* ===== verification/Knowledge.thy ===== *)
theory Knowledge
  imports PyFloat PyText WorkspaceModels
begin

text \<open>
  Knowledge synthesized from memories: \<open>rationalevault/knowledge/models.py\<close>, \<open>relation_types.py\<close>,
  \<open>relations.py\<close>, \<open>contradiction.py\<close>, \<open>lineage.py\<close>, the memory records of \<open>memory/models.py\<close>,
  \<open>jaccard_similarity\<close> of \<open>memory/consolidation.py\<close> and \<open>detect_contradiction\<close> of
  \<open>evaluation/continuity_metrics.py\<close>, and the projection of a project's knowledge,
  \<open>projections/knowledge.py\<close>.

  Scores are floats of \<open>PyFloat\<close>.  Clock readings are arguments, and so is the order in which Python
  iterates over a set of strings, where the result depends on it.
\<close>

section \<open>Models (knowledge/models.py, memory/models.py)\<close>

datatype KnowledgeType =
    ARCHITECTURE_PRINCIPLE | PROJECT_INVARIANT | LESSON | FAILURE_PATTERN | WORKFLOW_PATTERN
  | RESEARCH_FINDING | DECISION_LINEAGE

fun knowledge_type_value :: "KnowledgeType \<Rightarrow> string" where
  "knowledge_type_value ARCHITECTURE_PRINCIPLE = ''ARCHITECTURE_PRINCIPLE''"
| "knowledge_type_value PROJECT_INVARIANT = ''PROJECT_INVARIANT''"
| "knowledge_type_value LESSON = ''LESSON''"
| "knowledge_type_value FAILURE_PATTERN = ''FAILURE_PATTERN''"
| "knowledge_type_value WORKFLOW_PATTERN = ''WORKFLOW_PATTERN''"
| "knowledge_type_value RESEARCH_FINDING = ''RESEARCH_FINDING''"
| "knowledge_type_value DECISION_LINEAGE = ''DECISION_LINEAGE''"

datatype KnowledgeDomain = ARCHITECTURE | PROCESS | QUALITY | RESEARCH | OPERATIONS

fun knowledge_domain_value :: "KnowledgeDomain \<Rightarrow> string" where
  "knowledge_domain_value ARCHITECTURE = ''ARCHITECTURE''"
| "knowledge_domain_value PROCESS = ''PROCESS''"
| "knowledge_domain_value QUALITY = ''QUALITY''"
| "knowledge_domain_value RESEARCH = ''RESEARCH''"
| "knowledge_domain_value OPERATIONS = ''OPERATIONS''"

datatype EpistemicStatus = PROPOSED | VALIDATED | INVARIANT | CONFLICTED | TOMBSTONED

fun epistemic_value :: "EpistemicStatus \<Rightarrow> string" where
  "epistemic_value PROPOSED = ''PROPOSED''"
| "epistemic_value VALIDATED = ''VALIDATED''"
| "epistemic_value INVARIANT = ''INVARIANT''"
| "epistemic_value CONFLICTED = ''CONFLICTED''"
| "epistemic_value TOMBSTONED = ''TOMBSTONED''"

definition is_transferable :: "string \<Rightarrow> bool" where
  "is_transferable t \<longleftrightarrow> t = ''REUSABLE'' \<or> t = ''ORGANIZATIONAL''"

definition generate_knowledge_id :: "host \<Rightarrow> string \<Rightarrow> string \<Rightarrow> string \<Rightarrow> string \<Rightarrow> string" where
  "generate_knowledge_id h kt title content project_id =
     sha256_hex h (utf8_encode (lower kt @ '':'' @ project_id @ '':'' @ norm_text title @ '':'' @ norm_text content))"

record KnowledgeConfidence =
  kcf_memory_count :: int
  kcf_source_event_count :: int
  kcf_contradiction_count :: int
  kcf_average_memory_confidence :: pyfloat
  kcf_score :: pyfloat

text \<open>The constructor; \<open>__post_init__\<close> overwrites the score.\<close>

definition confidence_score :: "int \<Rightarrow> int \<Rightarrow> pyfloat \<Rightarrow> pyfloat" where
  "confidence_score memory_count contradiction_count average =
     (if memory_count = 0 then 0
      else let evidence_boost = min (flt (2 / 10)) (fmul (float_of_int memory_count) (flt (5 / 100)));
               contradiction_penalty = fmul (float_of_int contradiction_count) (flt (15 / 100))
           in clamp01 (fsub (fadd average evidence_boost) contradiction_penalty))"

definition knowledge_confidence :: "int \<Rightarrow> int \<Rightarrow> int \<Rightarrow> pyfloat \<Rightarrow> KnowledgeConfidence" where
  "knowledge_confidence memory_count source_event_count contradiction_count average =
     \<lparr>kcf_memory_count = memory_count, kcf_source_event_count = source_event_count,
      kcf_contradiction_count = contradiction_count, kcf_average_memory_confidence = average,
      kcf_score = confidence_score memory_count contradiction_count average\<rparr>"

record ProvenanceChain =
  pvc_knowledge_id :: string
  pvc_source_memory_ids :: "string list"
  pvc_source_event_ids :: "string list"
  pvc_synthesis_event_id :: string
  pvc_confidence :: KnowledgeConfidence
  pvc_evidence_count :: int
  pvc_created_at :: string

record KnowledgeObject =
  ko_id :: string
  ko_version :: int
  ko_title :: string
  ko_content :: string
  ko_knowledge_type :: KnowledgeType
  ko_knowledge_domain :: KnowledgeDomain
  ko_confidence :: KnowledgeConfidence
  ko_importance :: string
  ko_provenance :: ProvenanceChain
  ko_tags :: "string list"
  ko_supporting_memory_ids :: "string list"
  ko_contradicting_memory_ids :: "string list"
  ko_lifecycle_status :: string
  ko_superseded_by :: "string option"
  ko_created_at :: string
  ko_updated_at :: string
  ko_project_id :: string
  ko_transferability :: string
  ko_epistemic_status :: EpistemicStatus

datatype RelationType = SUPPORTS | CONTRADICTS | DERIVED_FROM | SUPERSEDES | RELATED_TO

fun relation_value :: "RelationType \<Rightarrow> string" where
  "relation_value SUPPORTS = ''SUPPORTS''"
| "relation_value CONTRADICTS = ''CONTRADICTS''"
| "relation_value DERIVED_FROM = ''DERIVED_FROM''"
| "relation_value SUPERSEDES = ''SUPERSEDES''"
| "relation_value RELATED_TO = ''RELATED_TO''"

record KnowledgeRelation =
  krl_source_id :: string
  krl_target_id :: string
  krl_relation_type :: RelationType
  krl_confidence :: pyfloat
  krl_created_at :: string

datatype MemoryType =
    DECISION | DECISION_RATIONALE | LESSON_LEARNED | FAILURE | ARCHITECTURE | IMPLEMENTATION_NOTE
  | RESEARCH | WORKFLOW

fun memory_type_value :: "MemoryType \<Rightarrow> string" where
  "memory_type_value DECISION = ''DECISION''"
| "memory_type_value DECISION_RATIONALE = ''DECISION_RATIONALE''"
| "memory_type_value LESSON_LEARNED = ''LESSON_LEARNED''"
| "memory_type_value FAILURE = ''FAILURE''"
| "memory_type_value MemoryType.ARCHITECTURE = ''ARCHITECTURE''"
| "memory_type_value IMPLEMENTATION_NOTE = ''IMPLEMENTATION_NOTE''"
| "memory_type_value MemoryType.RESEARCH = ''RESEARCH''"
| "memory_type_value WORKFLOW = ''WORKFLOW''"

definition generate_memory_id :: "host \<Rightarrow> string \<Rightarrow> string \<Rightarrow> string \<Rightarrow> string" where
  "generate_memory_id h mt title content =
     sha256_hex h (utf8_encode (lower mt @ '':'' @ norm_text title @ '':'' @ norm_text content))"

record MemoryRecord =
  mem_id :: string
  mem_version :: int
  mem_title :: string
  mem_content :: string
  mem_memory_type :: MemoryType
  mem_importance :: string
  mem_lifecycle_status :: string
  mem_source_event_ids :: "string list"
  mem_source_type :: string
  mem_tags :: "string list"
  mem_confidence :: pyfloat
  mem_retrieval_priority :: pyfloat
  mem_reference_count :: int
  mem_last_referenced_at :: "string option"
  mem_created_at :: string
  mem_project_id :: string

text \<open>\<open>__post_init__\<close>: the priority that the importance stands for.\<close>

definition retrieval_priority_of :: "string \<Rightarrow> pyfloat" where
  "retrieval_priority_of importance =
     dict_get [(''low'', 1), (''medium'', 2), (''high'', 3), (''critical'', 5)] (lower importance) 2"

definition memory_post_init :: "MemoryRecord \<Rightarrow> MemoryRecord" where
  "memory_post_init m = m\<lparr>mem_retrieval_priority := retrieval_priority_of (mem_importance m)\<rparr>"

section \<open>Similarity of texts (memory/consolidation.py, evaluation/continuity\_metrics.py)\<close>

definition jaccard :: "string list \<Rightarrow> string list \<Rightarrow> pyfloat" where
  "jaccard ws vs =
     (if ws = [] \<or> vs = [] then 0
      else fdiv (of_nat (card (set ws \<inter> set vs))) (of_nat (card (set ws \<union> set vs))))"

definition jaccard_similarity :: "string \<Rightarrow> string \<Rightarrow> pyfloat" where
  "jaccard_similarity s t = jaccard (split_ws (strip_ws (lower s))) (split_ws (strip_ws (lower t)))"

definition get_jaccard_similarity :: "string \<Rightarrow> string \<Rightarrow> pyfloat" where
  "get_jaccard_similarity s t = jaccard (re_words (lower s)) (re_words (lower t))"

definition NEGATIONS :: "string list" where
  "NEGATIONS = [''not'', ''never'', ''no longer'', ''don'' @ [CHR 0x27] @ ''t'']"

definition detect_contradiction :: "string \<Rightarrow> string \<Rightarrow> bool" where
  "detect_contradiction s t =
     (let a = lower s; b = lower t
      in if (contains ''sqlite'' a \<and> contains ''postgres'' b) \<or> (contains ''postgres'' a \<and> contains ''sqlite'' b) then True
         else if (contains ''fastapi'' a \<and> contains ''flask'' b) \<or> (contains ''flask'' a \<and> contains ''fastapi'' b) then True
         else list_ex (\<lambda>neg. ((contains neg a \<and> \<not> contains neg b) \<or> (contains neg b \<and> \<not> contains neg a)) \<and>
                flt (4 / 10) < get_jaccard_similarity s t) NEGATIONS)"

section \<open>Relations (knowledge/relations.py)\<close>

text \<open>The pairs of a list, each element with those after it.\<close>

fun pairs :: "'a list \<Rightarrow> ('a \<times> 'a) list" where
  "pairs [] = []"
| "pairs (x # xs) = map (Pair x) xs @ pairs xs"

definition topic_overlap :: "KnowledgeObject \<Rightarrow> KnowledgeObject \<Rightarrow> bool" where
  "topic_overlap k1 k2 =
     (if ko_knowledge_domain k1 = ko_knowledge_domain k2 then True
      else if 2 \<le> card (set (ko_tags k1) \<inter> set (ko_tags k2)) then True
      else flt (3 / 10) \<le> jaccard_similarity (ko_content k1) (ko_content k2))"

definition make_relation :: "string \<Rightarrow> KnowledgeObject \<Rightarrow> KnowledgeObject \<Rightarrow> RelationType \<Rightarrow> pyfloat \<Rightarrow> KnowledgeRelation" where
  "make_relation now k1 k2 rt conf =
     \<lparr>krl_source_id = ko_id k1, krl_target_id = ko_id k2, krl_relation_type = rt, krl_confidence = conf,
      krl_created_at = now\<rparr>"

definition relate :: "string \<Rightarrow> KnowledgeObject \<Rightarrow> KnowledgeObject \<Rightarrow> KnowledgeRelation list" where
  "relate now k1 k2 =
     (if detect_contradiction (ko_content k1) (ko_content k2)
      then [make_relation now k1 k2 CONTRADICTS (flt (9 / 10))]
      else if ko_knowledge_type k1 = ko_knowledge_type k2
      then (let sim = jaccard_similarity (ko_content k1) (ko_content k2)
            in if flt (5 / 10) \<le> sim then [make_relation now k1 k2 SUPPORTS sim] else [])
      else if topic_overlap k1 k2 then [make_relation now k1 k2 RELATED_TO (flt (6 / 10))]
      else [])"

definition detect_relations :: "string \<Rightarrow> KnowledgeObject list \<Rightarrow> KnowledgeRelation list" where
  "detect_relations now ks = concat (map (\<lambda>(k1, k2). relate now k1 k2) (pairs ks))"

definition find_contradictions :: "KnowledgeObject list \<Rightarrow> (string \<times> string) list" where
  "find_contradictions ks =
     map (\<lambda>(k1, k2). (ko_id k1, ko_id k2))
       (filter (\<lambda>(k1, k2). detect_contradiction (ko_content k1) (ko_content k2)) (pairs ks))"

definition derived_sources :: "KnowledgeObject list \<Rightarrow> KnowledgeObject \<Rightarrow> string list" where
  "derived_sources ks k =
     map ko_id (filter (\<lambda>other. ko_id other \<noteq> ko_id k \<and>
       set (ko_supporting_memory_ids k) \<inter> set (ko_supporting_memory_ids other) \<noteq> {}) ks)"

definition build_derivation_chain :: "KnowledgeObject list \<Rightarrow> (string, string list) dict" where
  "build_derivation_chain ks = foldl (\<lambda>d k. AList.update (ko_id k) (derived_sources ks k) d) [] ks"

section \<open>Contradictions between records (knowledge/contradiction.py)\<close>

record ContradictionFinding =
  fnd_finding_id :: string
  fnd_rule_a_id :: string
  fnd_rule_b_id :: string
  fnd_contradiction_type :: string
  fnd_severity :: string
  fnd_evidence :: string
  fnd_suggested_status :: EpistemicStatus
  fnd_suppressed :: bool

definition generate_finding_id :: "host \<Rightarrow> string \<Rightarrow> string \<Rightarrow> string \<Rightarrow> string \<Rightarrow> string" where
  "generate_finding_id h ctype a b detail = short_id h ''CONTR-'' [ctype, join '':'' (sort [a, b]), detail]"

definition make_finding :: "host \<Rightarrow> string set \<Rightarrow> string \<Rightarrow> string \<Rightarrow> string \<Rightarrow> string \<Rightarrow> string \<Rightarrow> string \<Rightarrow> ContradictionFinding" where
  "make_finding h suppressed ctype severity a b detail evidence =
     (let fid = generate_finding_id h ctype a b detail
      in \<lparr>fnd_finding_id = fid, fnd_rule_a_id = a, fnd_rule_b_id = b, fnd_contradiction_type = ctype,
          fnd_severity = severity, fnd_evidence = evidence, fnd_suggested_status = CONFLICTED,
          fnd_suppressed = (fid \<in> suppressed)\<rparr>)"

definition quoted :: "string \<Rightarrow> string" where
  "quoted s = [CHR 0x27] @ s @ [CHR 0x27]"

text \<open>The first loop: records that repeat an id with another title or content.\<close>

definition duplicate_step ::
  "host \<Rightarrow> string set \<Rightarrow> (string, MemoryRecord) dict \<times> ContradictionFinding list \<Rightarrow> MemoryRecord
    \<Rightarrow> (string, MemoryRecord) dict \<times> ContradictionFinding list" where
  "duplicate_step h suppressed = (\<lambda>(id_map, findings) r.
     case map_of id_map (mem_id r) of
       Some existing \<Rightarrow>
         (id_map,
          if mem_title existing \<noteq> mem_title r \<or> mem_content existing \<noteq> mem_content r
          then findings @ [make_finding h suppressed ''duplicate_conflicting'' ''critical'' (mem_id existing) (mem_id r) []
                 (''Duplicate ID '' @ quoted (mem_id r) @ '' has conflicting content. A: '' @ quoted (mem_title existing)
                  @ '', B: '' @ quoted (mem_title r))]
          else findings)
     | None \<Rightarrow> (AList.update (mem_id r) r id_map, findings))"

definition config_line :: "string \<Rightarrow> (string \<times> string) option" where
  "config_line line =
     (if CHR ''='' \<in> set line then Some (map_prod strip_ws strip_ws (split_once (CHR ''='') line))
      else if CHR '':'' \<in> set line then Some (map_prod strip_ws strip_ws (split_once (CHR '':'') line))
      else None)"

definition parse_configs :: "string \<Rightarrow> (string, string) dict" where
  "parse_configs text =
     foldl (\<lambda>d line. case config_line line of None \<Rightarrow> d | Some (k, v) \<Rightarrow> AList.update k v d) [] (splitlines text)"

definition config_findings :: "host \<Rightarrow> string set \<Rightarrow> MemoryRecord \<Rightarrow> MemoryRecord \<Rightarrow> ContradictionFinding list" where
  "config_findings h suppressed a b =
     (let cfg_a = parse_configs (strip_ws (lower (mem_content a)));
          cfg_b = parse_configs (strip_ws (lower (mem_content b)))
      in concat (map (\<lambda>(key, val_a).
           case map_of cfg_b key of
             None \<Rightarrow> []
           | Some val_b \<Rightarrow>
               if val_a \<noteq> val_b
               then [make_finding h suppressed ''exclusive_config'' ''critical'' (mem_id a) (mem_id b) key
                       (''Mutually exclusive configuration for '' @ quoted key @ '': '' @ quoted val_a @ '' vs '' @ quoted val_b)]
               else []) cfg_a))"

definition KEYWORDS :: "string list" where
  "KEYWORDS = [''postgres'', ''sqlite'', ''mysql'', ''pooling'', ''migration'']"

definition POLARITIES :: "(string \<times> string) list" where
  "POLARITIES = [(''enable'', ''disable''), (''allow'', ''forbid''), (''allow'', ''prohibit''), (''always'', ''never''),
     (''use'', ''avoid''), (''shall'', ''shall not'')]"

definition opposite_findings :: "host \<Rightarrow> string set \<Rightarrow> MemoryRecord \<Rightarrow> MemoryRecord \<Rightarrow> ContradictionFinding list" where
  "opposite_findings h suppressed a b =
     (let content_a = strip_ws (lower (mem_content a)); content_b = strip_ws (lower (mem_content b))
      in concat (map (\<lambda>kw.
           if contains kw content_a \<and> contains kw content_b
           then concat (map (\<lambda>(pol_a, pol_b).
                  if (contains pol_a content_a \<and> contains pol_b content_b) \<or> (contains pol_b content_a \<and> contains pol_a content_b)
                  then [make_finding h suppressed ''opposite_assertion'' ''warning'' (mem_id a) (mem_id b) kw
                          (''Opposite assertions found regarding '' @ quoted kw @ '': '' @ quoted pol_a @ '' vs '' @ quoted pol_b)]
                  else []) POLARITIES)
           else []) KEYWORDS))"

definition contradiction_detect :: "host \<Rightarrow> MemoryRecord list \<Rightarrow> string set \<Rightarrow> ContradictionFinding list" where
  "contradiction_detect h records suppressed =
     snd (foldl (duplicate_step h suppressed) ([], []) records)
     @ concat (map (\<lambda>(a, b). config_findings h suppressed a b @ opposite_findings h suppressed a b) (pairs records))"

section \<open>Lineage (knowledge/lineage.py)\<close>

text \<open>The memory provider is given by its records; a later record with the same id replaces an earlier one.\<close>

definition memory_lookup :: "MemoryRecord list \<Rightarrow> string \<Rightarrow> MemoryRecord option" where
  "memory_lookup records mid = map_of (rev (map (\<lambda>m. (mem_id m, m)) records)) mid"

definition build_provenance_chain ::
  "(string set \<Rightarrow> string list) \<Rightarrow> string \<Rightarrow> MemoryRecord list \<Rightarrow> string \<Rightarrow> string list \<Rightarrow> string \<Rightarrow> ProvenanceChain" where
  "build_provenance_chain iterate now records knowledge_id source_memory_ids synthesis_event_id =
     (let mems = List.map_filter (memory_lookup records) source_memory_ids;
          event_ids = concat (map mem_source_event_ids mems);
          count = int (length mems);
          total = foldl (\<lambda>acc m. fadd acc (mem_confidence m)) 0 mems;
          average = (if 0 < count then fdiv total (of_int count) else 0)
      in \<lparr>pvc_knowledge_id = knowledge_id, pvc_source_memory_ids = source_memory_ids,
          pvc_source_event_ids = iterate (set event_ids), pvc_synthesis_event_id = synthesis_event_id,
          pvc_confidence = knowledge_confidence count (int (card (set event_ids))) 0 average,
          pvc_evidence_count = count, pvc_created_at = now\<rparr>)"

definition verify_provenance :: "MemoryRecord list \<Rightarrow> KnowledgeObject \<Rightarrow> bool" where
  "verify_provenance records k =
     list_all (\<lambda>mid. mid \<in> set (map mem_id records)) (pvc_source_memory_ids (ko_provenance k))"

definition get_memory_lineage :: "MemoryRecord list \<Rightarrow> string \<Rightarrow> payload list" where
  "get_memory_lineage records memory_id =
     (case memory_lookup records memory_id of
        None \<Rightarrow> []
      | Some m \<Rightarrow> map (\<lambda>e. [(''memory_id'', JStr memory_id), (''event_id'', JStr e),
                      (''memory_type'', JStr (memory_type_value (mem_memory_type m))),
                      (''source_type'', JStr (mem_source_type m))]) (mem_source_event_ids m))"

definition compute_provenance_depth :: "KnowledgeObject \<Rightarrow> nat" where
  "compute_provenance_depth k =
     length (pvc_source_memory_ids (ko_provenance k)) + card (set (pvc_source_event_ids (ko_provenance k)))"

section \<open>The projection (projections/knowledge.py)\<close>

record KnowledgeHealth =
  khl_confidence :: pyfloat
  khl_contradiction_rate :: pyfloat
  khl_invariant_ratio :: pyfloat
  khl_stale_ratio :: pyfloat
  khl_active_count :: int
  khl_total_count :: int
  khl_overall :: pyfloat

definition compute_health ::
  "KnowledgeObject list \<Rightarrow> KnowledgeObject list \<Rightarrow> KnowledgeObject list \<Rightarrow> KnowledgeObject list \<Rightarrow> KnowledgeObject list
    \<Rightarrow> KnowledgeHealth" where
  "compute_health active all_knowledge conflicted invariants stale =
     (let total = length all_knowledge; active_count = length active
      in if active_count = 0
         then \<lparr>khl_confidence = 0, khl_contradiction_rate = 0, khl_invariant_ratio = 0, khl_stale_ratio = 0,
               khl_active_count = 0, khl_total_count = int total, khl_overall = 0\<rparr>
         else let avg_confidence = fdiv (py_sum (map (\<lambda>k. kcf_score (ko_confidence k)) active)) (of_nat active_count);
                  contradiction_rate = fdiv (of_nat (length conflicted)) (of_nat active_count);
                  invariant_ratio = fdiv (of_nat (length invariants)) (of_nat active_count);
                  stale_ratio = (if 0 < total then fdiv (of_nat (length stale)) (of_nat total) else 0);
                  overall = fadd (fadd (fadd (fmul avg_confidence (flt (4 / 10)))
                                             (fmul (fsub 1 contradiction_rate) (flt (3 / 10))))
                                       (fmul (min invariant_ratio (flt (3 / 10))) (flt (2 / 10))))
                                 (fmul (fsub 1 stale_ratio) (flt (1 / 10)))
              in \<lparr>khl_confidence = avg_confidence, khl_contradiction_rate = contradiction_rate,
                  khl_invariant_ratio = invariant_ratio, khl_stale_ratio = stale_ratio,
                  khl_active_count = int active_count, khl_total_count = int total, khl_overall = overall\<rparr>)"

record ConflictRecord =
  cfr_conflict_id :: string
  cfr_knowledge_a_id :: string
  cfr_knowledge_b_id :: string
  cfr_knowledge_a_title :: string
  cfr_knowledge_b_title :: string
  cfr_confidence :: pyfloat
  cfr_raised_at :: string
  cfr_resolution_status :: string

definition make_conflict_id :: "host \<Rightarrow> string \<Rightarrow> string \<Rightarrow> string" where
  "make_conflict_id h a b = take 16 (sha256_hex h (utf8_encode (join '':'' (sort [a, b]))))"

text \<open>High confidence and strong evidence make an invariant.\<close>

definition is_emergent_invariant :: "KnowledgeObject \<Rightarrow> bool" where
  "is_emergent_invariant k \<longleftrightarrow>
     flt (95 / 100) \<le> kcf_score (ko_confidence k) \<and> 5 \<le> length (ko_supporting_memory_ids k) \<and>
     ko_contradicting_memory_ids k = []"

definition derive_epistemic_status :: "KnowledgeObject \<Rightarrow> EpistemicStatus" where
  "derive_epistemic_status k =
     (if ko_lifecycle_status k = ''SUPERSEDED'' \<or> ko_lifecycle_status k = ''ARCHIVED'' then TOMBSTONED
      else if ko_contradicting_memory_ids k \<noteq> [] then CONFLICTED
      else if ko_knowledge_type k = PROJECT_INVARIANT then INVARIANT
      else if is_emergent_invariant k then INVARIANT
      else if flt (7 / 10) \<le> kcf_score (ko_confidence k) \<and> ko_contradicting_memory_ids k = [] then VALIDATED
      else PROPOSED)"

definition identify_invariants :: "KnowledgeObject list \<Rightarrow> KnowledgeObject list" where
  "identify_invariants ks =
     filter (\<lambda>k. ko_lifecycle_status k = ''ACTIVE'' \<and>
       (ko_knowledge_type k = PROJECT_INVARIANT \<or> is_emergent_invariant k)) ks"

record KnowledgeState =
  kst_project_id :: string
  kst_compiled_at :: string
  kst_projection_version :: string
  kst_active_knowledge :: "KnowledgeObject list"
  kst_stale_knowledge :: "KnowledgeObject list"
  kst_superseded_knowledge :: "KnowledgeObject list"
  kst_proposed :: "KnowledgeObject list"
  kst_validated :: "KnowledgeObject list"
  kst_invariants :: "KnowledgeObject list"
  kst_conflicted :: "KnowledgeObject list"
  kst_tombstoned :: "KnowledgeObject list"
  kst_conflict_queue :: "ConflictRecord list"
  kst_unresolved_count :: int
  kst_derivation_chains :: "(string, string list) dict"
  kst_support_graph :: "(string, string list) dict"
  kst_health :: "KnowledgeHealth option"
  kst_provenance :: "(string, int list) dict"

definition with_lifecycle :: "string \<Rightarrow> KnowledgeObject list \<Rightarrow> KnowledgeObject list" where
  "with_lifecycle status ks = filter (\<lambda>k. ko_lifecycle_status k = status) ks"

definition with_status :: "EpistemicStatus \<Rightarrow> KnowledgeObject list \<Rightarrow> KnowledgeObject list" where
  "with_status status ks = filter (\<lambda>k. derive_epistemic_status k = status) ks"

text \<open>The elements whose id has not been seen before.\<close>

fun first_by_id :: "string set \<Rightarrow> KnowledgeObject list \<Rightarrow> KnowledgeObject list" where
  "first_by_id seen [] = []"
| "first_by_id seen (k # ks) =
     (if ko_id k \<in> seen then first_by_id seen ks else k # first_by_id (insert (ko_id k) seen) ks)"

definition knowledge_lookup :: "KnowledgeObject list \<Rightarrow> string \<Rightarrow> KnowledgeObject option" where
  "knowledge_lookup ks i = map_of (rev (map (\<lambda>k. (ko_id k, k)) ks)) i"

definition conflict_of :: "host \<Rightarrow> string \<Rightarrow> KnowledgeObject list \<Rightarrow> KnowledgeRelation \<Rightarrow> ConflictRecord list" where
  "conflict_of h now active rel =
     (if krl_relation_type rel = CONTRADICTS
      then case (knowledge_lookup active (krl_source_id rel), knowledge_lookup active (krl_target_id rel)) of
             (Some a, Some b) \<Rightarrow>
               [\<lparr>cfr_conflict_id = make_conflict_id h (krl_source_id rel) (krl_target_id rel),
                 cfr_knowledge_a_id = krl_source_id rel, cfr_knowledge_b_id = krl_target_id rel,
                 cfr_knowledge_a_title = ko_title a, cfr_knowledge_b_title = ko_title b,
                 cfr_confidence = krl_confidence rel, cfr_raised_at = now, cfr_resolution_status = ''unresolved''\<rparr>]
           | _ \<Rightarrow> []
      else [])"

text \<open>\<open>d.setdefault(k, []).append(v)\<close>.\<close>

definition dict_append :: "(string, 'v list) dict \<Rightarrow> string \<Rightarrow> 'v list \<Rightarrow> (string, 'v list) dict" where
  "dict_append d k vs = AList.update k (dict_get d k [] @ vs) d"

definition support_graph_of :: "KnowledgeRelation list \<Rightarrow> (string, string list) dict" where
  "support_graph_of rels =
     foldl (\<lambda>d rel. if krl_relation_type rel = SUPPORTS then dict_append d (krl_source_id rel) [krl_target_id rel] else d) [] rels"

definition event_numbers :: "KnowledgeObject \<Rightarrow> int list result" where
  "event_numbers k = rmap int_of_text (filter isdigit_text (pvc_source_event_ids (ko_provenance k)))"

definition provenance_of :: "KnowledgeObject list \<Rightarrow> (string, int list) dict result" where
  "provenance_of active =
     rfold (\<lambda>d k. if pvc_source_event_ids (ko_provenance k) = [] then Inr d
                  else rbind (event_numbers k) (\<lambda>ns. Inr (AList.update (ko_id k) ns d))) [] active"

definition knowledge_project :: "host \<Rightarrow> string \<Rightarrow> string \<Rightarrow> KnowledgeObject list \<Rightarrow> KnowledgeState result" where
  "knowledge_project h now project_id ks =
     (let active = with_lifecycle ''ACTIVE'' ks;
          stale = with_lifecycle ''STALE'' ks;
          conflicted = with_status CONFLICTED ks;
          invariants = first_by_id {} (with_status INVARIANT ks @ identify_invariants active);
          relations = detect_relations now active;
          conflict_queue = concat (map (conflict_of h now active) relations)
      in rbind (provenance_of active) (\<lambda>provenance.
         Inr \<lparr>kst_project_id = project_id, kst_compiled_at = now, kst_projection_version = ''1.0'',
              kst_active_knowledge = active, kst_stale_knowledge = stale,
              kst_superseded_knowledge = with_lifecycle ''SUPERSEDED'' ks @ with_lifecycle ''ARCHIVED'' ks,
              kst_proposed = with_status PROPOSED ks, kst_validated = with_status VALIDATED ks,
              kst_invariants = invariants, kst_conflicted = conflicted, kst_tombstoned = with_status TOMBSTONED ks,
              kst_conflict_queue = conflict_queue, kst_unresolved_count = int (length conflict_queue),
              kst_derivation_chains = build_derivation_chain active, kst_support_graph = support_graph_of relations,
              kst_health = Some (compute_health active ks conflicted invariants stale),
              kst_provenance = provenance\<rparr>))"

section \<open>Laws of similarity and relations\<close>

lemma jaccard_sym: "jaccard ws vs = jaccard vs ws"
  by (auto simp: jaccard_def Int_commute Un_commute)

lemma jaccard_range [simp]: "0 \<le> jaccard ws vs" "jaccard ws vs \<le> 1"
proof -
  show "0 \<le> jaccard ws vs" by (simp add: jaccard_def)
  have "card (set ws \<inter> set vs) \<le> card (set ws \<union> set vs)" by (intro card_mono) auto
  then show "jaccard ws vs \<le> 1" by (simp add: jaccard_def fdiv_le_one)
qed

lemma is_float_jaccard [simp]: "is_float (jaccard ws vs)"
  by (simp add: jaccard_def)

lemma detect_contradiction_sym: "detect_contradiction s t = detect_contradiction t s"
proof -
  have "get_jaccard_similarity s t = get_jaccard_similarity t s"
    unfolding get_jaccard_similarity_def by (rule jaccard_sym)
  then show ?thesis by (simp only: detect_contradiction_def Let_def conj_commute disj_commute)
qed

text \<open>A text contradicts itself exactly when it names both sides of one of the two rivalries.\<close>

lemma detect_contradiction_self:
  "detect_contradiction s s \<longleftrightarrow>
     contains ''sqlite'' (lower s) \<and> contains ''postgres'' (lower s) \<or>
     contains ''fastapi'' (lower s) \<and> contains ''flask'' (lower s)"
  by (auto simp: detect_contradiction_def Let_def list_ex_iff)

lemma set_pairs: "(x, y) \<in> set (pairs xs) \<Longrightarrow> x \<in> set xs \<and> y \<in> set xs"
  by (induction xs) auto

lemma pairs_distinct: "distinct (map f xs) \<Longrightarrow> (x, y) \<in> set (pairs xs) \<Longrightarrow> f x \<noteq> f y"
  by (induction xs) auto

lemma relate_contradicts:
  "filter (\<lambda>r. krl_relation_type r = CONTRADICTS) (relate now k1 k2) =
     (if detect_contradiction (ko_content k1) (ko_content k2) then [make_relation now k1 k2 CONTRADICTS (flt (9 / 10))] else [])"
  by (simp add: relate_def make_relation_def Let_def)

lemma detect_relations_contradicts:
  "filter (\<lambda>r. krl_relation_type r = CONTRADICTS) (detect_relations now ks) =
     map (\<lambda>(k1, k2). make_relation now k1 k2 CONTRADICTS (flt (9 / 10)))
       (filter (\<lambda>(k1, k2). detect_contradiction (ko_content k1) (ko_content k2)) (pairs ks))"
proof -
  have "filter (\<lambda>r. krl_relation_type r = CONTRADICTS) (concat (map (\<lambda>(k1, k2). relate now k1 k2) ps)) =
     map (\<lambda>(k1, k2). make_relation now k1 k2 CONTRADICTS (flt (9 / 10)))
       (filter (\<lambda>(k1, k2). detect_contradiction (ko_content k1) (ko_content k2)) ps)" for ps
    by (induction ps) (auto simp: relate_contradicts)
  then show ?thesis by (simp add: detect_relations_def)
qed

text \<open>Relations run from an object to one after it, so supports are acyclic on distinct ids.\<close>

lemma relate_ids:
  assumes "r \<in> set (relate now k1 k2)"
  shows "krl_source_id r = ko_id k1" "krl_target_id r = ko_id k2" "0 \<le> krl_confidence r" "krl_confidence r \<le> 1"
proof -
  have c: "0 \<le> flt (9 / 10)" "flt (9 / 10) \<le> 1" "0 \<le> flt (6 / 10)" "flt (6 / 10) \<le> 1"
    by (simp_all add: flt_nonneg flt_le)
  show "krl_source_id r = ko_id k1" "krl_target_id r = ko_id k2" "0 \<le> krl_confidence r" "krl_confidence r \<le> 1"
    using assms c by (auto simp: relate_def make_relation_def jaccard_similarity_def Let_def split: if_splits)
qed

lemma map_of_rev_distinct:
  "distinct (map fst d) \<Longrightarrow> map_of (rev d) = map_of d"
  using map_of_inject_set [of "rev d" d] by (simp add: rev_map [symmetric])

lemma knowledge_lookup_in:
  assumes "distinct (map ko_id ks)" "k \<in> set ks"
  shows "knowledge_lookup ks (ko_id k) = Some k"
proof -
  have "map fst (map (\<lambda>k. (ko_id k, k)) ks) = map ko_id ks" by simp
  then have "map_of (rev (map (\<lambda>k. (ko_id k, k)) ks)) = map_of (map (\<lambda>k. (ko_id k, k)) ks)"
    using assms(1) by (intro map_of_rev_distinct) (simp only:)
  moreover have "map_of (map (\<lambda>k. (ko_id k, k)) ks) (ko_id k) = Some k"
    using assms by (intro map_of_is_SomeI) (simp_all add: comp_def)
  ultimately show ?thesis by (simp add: knowledge_lookup_def)
qed

section \<open>The buckets of the projection\<close>

lemma knowledge_project_Inr:
  assumes "knowledge_project h now p ks = Inr st"
  shows "kst_active_knowledge st = with_lifecycle ''ACTIVE'' ks" "kst_stale_knowledge st = with_lifecycle ''STALE'' ks"
    "kst_superseded_knowledge st = with_lifecycle ''SUPERSEDED'' ks @ with_lifecycle ''ARCHIVED'' ks"
    "kst_proposed st = with_status PROPOSED ks" "kst_validated st = with_status VALIDATED ks"
    "kst_conflicted st = with_status CONFLICTED ks" "kst_tombstoned st = with_status TOMBSTONED ks"
    "kst_invariants st = first_by_id {} (with_status INVARIANT ks @ identify_invariants (with_lifecycle ''ACTIVE'' ks))"
    "kst_health st = Some (compute_health (kst_active_knowledge st) ks (kst_conflicted st) (kst_invariants st) (kst_stale_knowledge st))"
    "kst_conflict_queue st = concat (map (conflict_of h now (kst_active_knowledge st)) (detect_relations now (kst_active_knowledge st)))"
    "kst_unresolved_count st = int (length (kst_conflict_queue st))"
    "kst_support_graph st = support_graph_of (detect_relations now (kst_active_knowledge st))"
  using assms by (auto simp: knowledge_project_def Let_def)

lemma first_by_id_ids: "ko_id ` set (first_by_id seen ks) = ko_id ` set ks - seen"
  by (induction seen ks rule: first_by_id.induct) auto

lemma first_by_id_subset: "set (first_by_id seen ks) \<subseteq> set ks"
  by (induction seen ks rule: first_by_id.induct) auto

lemma first_by_id_distinct: "distinct (map ko_id (first_by_id seen ks))"
proof (induction seen ks rule: first_by_id.induct)
  case (2 seen k ks)
  have "ko_id k \<notin> ko_id ` set (first_by_id (insert (ko_id k) seen) ks)" by (simp add: first_by_id_ids)
  then show ?case using 2 by auto
qed simp

lemma mset_partition5:
  "mset ks = mset (filter (\<lambda>k. f k = PROPOSED) ks) + mset (filter (\<lambda>k. f k = VALIDATED) ks)
     + mset (filter (\<lambda>k. f k = INVARIANT) ks) + mset (filter (\<lambda>k. f k = CONFLICTED) ks)
     + mset (filter (\<lambda>k. f k = TOMBSTONED) ks)"
proof (induction ks)
  case (Cons k ks)
  then show ?case by (cases "f k") auto
qed simp

text \<open>The epistemic classes of a project's knowledge.  Every object is in exactly one of the
  lists of proposed, validated, conflicted and tombstoned objects, or has the status INVARIANT; the list of
  invariants has one entry for each id of an object with that status or of an active object that is declared
  an invariant or has become one.  So an active declared invariant with contradicting memories is listed as
  conflicted and under its id among the invariants, although the two statuses exclude each other.\<close>

theorem knowledge_buckets:
  assumes "knowledge_project h now p ks = Inr st"
  shows "mset ks = mset (kst_proposed st) + mset (kst_validated st) + mset (filter (\<lambda>k. derive_epistemic_status k = INVARIANT) ks)
           + mset (kst_conflicted st) + mset (kst_tombstoned st) \<and>
         distinct (map ko_id (kst_invariants st)) \<and>
         ko_id ` set (kst_invariants st) = ko_id ` {k \<in> set ks. derive_epistemic_status k = INVARIANT \<or>
           ko_lifecycle_status k = ''ACTIVE'' \<and> (ko_knowledge_type k = PROJECT_INVARIANT \<or> is_emergent_invariant k)} \<and>
         (\<forall>k \<in> set ks. ko_lifecycle_status k = ''ACTIVE'' \<and> ko_knowledge_type k = PROJECT_INVARIANT \<and>
           ko_contradicting_memory_ids k \<noteq> [] \<longrightarrow>
           k \<in> set (kst_conflicted st) \<and> ko_id k \<in> ko_id ` set (kst_invariants st))"
proof -
  note st = knowledge_project_Inr [OF assms]
  have inv: "ko_id ` set (kst_invariants st) = ko_id ` {k \<in> set ks. derive_epistemic_status k = INVARIANT \<or>
      ko_lifecycle_status k = ''ACTIVE'' \<and> (ko_knowledge_type k = PROJECT_INVARIANT \<or> is_emergent_invariant k)}"
    unfolding st(8) first_by_id_ids by (auto simp: with_status_def with_lifecycle_def identify_invariants_def)
  have "mset ks = mset (kst_proposed st) + mset (kst_validated st) + mset (filter (\<lambda>k. derive_epistemic_status k = INVARIANT) ks)
           + mset (kst_conflicted st) + mset (kst_tombstoned st)"
    unfolding st(4-7) with_status_def by (rule mset_partition5)
  moreover have "distinct (map ko_id (kst_invariants st))" unfolding st(8) by (rule first_by_id_distinct)
  moreover have "k \<in> set (kst_conflicted st)" if "k \<in> set ks" "ko_lifecycle_status k = ''ACTIVE''" "ko_contradicting_memory_ids k \<noteq> []" for k
    unfolding st(6) using that by (simp add: with_status_def derive_epistemic_status_def)
  ultimately show ?thesis using inv by auto
qed

definition sample_knowledge :: "string \<Rightarrow> string \<Rightarrow> string list \<Rightarrow> KnowledgeObject" where
  "sample_knowledge i lifecycle contradicting =
     \<lparr>ko_id = i, ko_version = 1, ko_title = ''State'', ko_content = ''state is derived from events'',
      ko_knowledge_type = PROJECT_INVARIANT, ko_knowledge_domain = KnowledgeDomain.ARCHITECTURE,
      ko_confidence = knowledge_confidence 2 2 0 (flt (8 / 10)), ko_importance = ''critical'',
      ko_provenance = \<lparr>pvc_knowledge_id = i, pvc_source_memory_ids = [''m1'', ''m2''], pvc_source_event_ids = [''7''],
        pvc_synthesis_event_id = [], pvc_confidence = knowledge_confidence 2 2 0 (flt (8 / 10)), pvc_evidence_count = 2,
        pvc_created_at = ''t''\<rparr>,
      ko_tags = [], ko_supporting_memory_ids = [''m1'', ''m2''], ko_contradicting_memory_ids = contradicting,
      ko_lifecycle_status = lifecycle, ko_superseded_by = None, ko_created_at = ''t'', ko_updated_at = ''t'',
      ko_project_id = ''p'', ko_transferability = ''ORGANIZATIONAL'', ko_epistemic_status = PROPOSED\<rparr>"

lemma provenance_of_single:
  "provenance_of [sample_knowledge i l c] = Inr [(i, [7])]"
  by (simp add: provenance_of_def event_numbers_def sample_knowledge_def isdigit_text_def is_unicode_digit_def
      is_digit_def int_of_text_def strip_ws_def is_space_def Let_def read_nat_def digit_val_def)

theorem knowledge_buckets_witness:
  "\<exists>st. knowledge_project sample_host ''now'' ''p'' [sample_knowledge ''k1'' ''ACTIVE'' [''m9'']] = Inr st \<and>
     sample_knowledge ''k1'' ''ACTIVE'' [''m9''] \<in> set (kst_conflicted st) \<and> ''k1'' \<in> ko_id ` set (kst_invariants st)"
proof -
  have k: "ko_lifecycle_status (sample_knowledge i l c) = l" "ko_knowledge_type (sample_knowledge i l c) = PROJECT_INVARIANT"
    "ko_contradicting_memory_ids (sample_knowledge i l c) = c" "ko_id (sample_knowledge i l c) = i" for i l c
    by (simp_all add: sample_knowledge_def)
  obtain st where st: "knowledge_project sample_host ''now'' ''p'' [sample_knowledge ''k1'' ''ACTIVE'' [''m9'']] = Inr st"
    by (auto simp: knowledge_project_def Let_def with_lifecycle_def k provenance_of_single)
  from knowledge_buckets [OF st] have "sample_knowledge ''k1'' ''ACTIVE'' [''m9''] \<in> set (kst_conflicted st)"
    "ko_id (sample_knowledge ''k1'' ''ACTIVE'' [''m9'']) \<in> ko_id ` set (kst_invariants st)"
    by (auto simp: k)
  with st show ?thesis by (auto simp: k)
qed

section \<open>Conflicts\<close>

lemma conflict_of_contradiction:
  assumes "distinct (map ko_id active)" "k1 \<in> set active" "k2 \<in> set active"
  shows "conflict_of h now active (make_relation now k1 k2 CONTRADICTS c) =
    [\<lparr>cfr_conflict_id = make_conflict_id h (ko_id k1) (ko_id k2), cfr_knowledge_a_id = ko_id k1, cfr_knowledge_b_id = ko_id k2,
      cfr_knowledge_a_title = ko_title k1, cfr_knowledge_b_title = ko_title k2, cfr_confidence = c, cfr_raised_at = now,
      cfr_resolution_status = ''unresolved''\<rparr>]"
  by (simp add: conflict_of_def make_relation_def knowledge_lookup_in [OF assms(1)] assms(2,3))

lemma concat_map_single: "(\<And>x. x \<in> set xs \<Longrightarrow> f x = [g x]) \<Longrightarrow> concat (map f xs) = map g xs"
  by (induction xs) auto

lemma concat_map_conflict_filter:
  "concat (map (conflict_of h now active) rs) = concat (map (conflict_of h now active) (filter (\<lambda>r. krl_relation_type r = CONTRADICTS) rs))"
  by (induction rs) (auto simp: conflict_of_def)

text \<open>The conflict queue lists exactly the contradicting pairs.  When the ids of the active objects are
  distinct, the queue names in order the pairs that find_contradictions finds, with the titles of the two
  objects, every entry is unresolved and the count of unresolved conflicts is the number of such pairs.  The id of
  a conflict does not depend on which of the two objects comes first.\<close>

theorem conflict_queue_correct:
  assumes "knowledge_project h now p ks = Inr st" and "distinct (map ko_id (kst_active_knowledge st))"
  shows "map (\<lambda>c. (cfr_knowledge_a_id c, cfr_knowledge_b_id c)) (kst_conflict_queue st) = find_contradictions (kst_active_knowledge st) \<and>
         map (\<lambda>c. (cfr_knowledge_a_title c, cfr_knowledge_b_title c)) (kst_conflict_queue st) =
           map (\<lambda>(k1, k2). (ko_title k1, ko_title k2))
             (filter (\<lambda>(k1, k2). detect_contradiction (ko_content k1) (ko_content k2)) (pairs (kst_active_knowledge st))) \<and>
         kst_unresolved_count st = int (length (find_contradictions (kst_active_knowledge st))) \<and>
         (\<forall>c \<in> set (kst_conflict_queue st). cfr_resolution_status c = ''unresolved'' \<and>
            cfr_conflict_id c = make_conflict_id h (cfr_knowledge_b_id c) (cfr_knowledge_a_id c))"
proof -
  note st = knowledge_project_Inr [OF assms(1)]
  define active where "active = kst_active_knowledge st"
  define ps where "ps = filter (\<lambda>(k1, k2). detect_contradiction (ko_content k1) (ko_content k2)) (pairs active)"
  define conf where "conf = (\<lambda>(k1 :: KnowledgeObject, k2 :: KnowledgeObject). \<lparr>cfr_conflict_id = make_conflict_id h (ko_id k1) (ko_id k2), cfr_knowledge_a_id = ko_id k1,
      cfr_knowledge_b_id = ko_id k2, cfr_knowledge_a_title = ko_title k1, cfr_knowledge_b_title = ko_title k2,
      cfr_confidence = flt (9 / 10), cfr_raised_at = now, cfr_resolution_status = ''unresolved''\<rparr>)"
  have in_active: "k1 \<in> set active \<and> k2 \<in> set active" if "(k1, k2) \<in> set ps" for k1 k2
    using that set_pairs [of k1 k2 active] by (auto simp: ps_def)
  have "concat (map (conflict_of h now active) (map (\<lambda>(k1, k2). make_relation now k1 k2 CONTRADICTS (flt (9 / 10))) ps)) = map conf ps"
    unfolding map_map using in_active
    by (intro concat_map_single) (auto simp: conflict_of_contradiction [OF assms(2) [folded active_def]] conf_def)
  then have q: "kst_conflict_queue st = map conf ps"
    unfolding st(10) active_def [symmetric] by (subst concat_map_conflict_filter) (simp add: detect_relations_contradicts ps_def)
  have "make_conflict_id h a b = make_conflict_id h b a" for a b
    by (auto simp: make_conflict_id_def insort_key.simps)
  then show ?thesis unfolding st(11) q find_contradictions_def active_def [symmetric] ps_def [symmetric]
    by (auto simp: conf_def comp_def split_def)
qed

definition sample_rival :: "string \<Rightarrow> string \<Rightarrow> KnowledgeObject" where
  "sample_rival i content = (sample_knowledge i ''ACTIVE'' [])\<lparr>ko_title := i, ko_content := content\<rparr>"

theorem conflict_queue_correct_witness:
  "\<exists>st. knowledge_project sample_host ''now'' ''p'' [sample_rival ''k1'' ''Use SQLite'', sample_rival ''k2'' ''use postgres''] = Inr st \<and>
     map (\<lambda>c. (cfr_knowledge_a_id c, cfr_knowledge_b_id c)) (kst_conflict_queue st) = [(''k1'', ''k2'')] \<and> kst_unresolved_count st = 1"
proof -
  define ks where "ks = [sample_rival ''k1'' ''Use SQLite'', sample_rival ''k2'' ''use postgres'']"
  have active: "with_lifecycle ''ACTIVE'' ks = ks"
    by (simp add: ks_def with_lifecycle_def sample_rival_def sample_knowledge_def)
  obtain st where st: "knowledge_project sample_host ''now'' ''p'' ks = Inr st"
    by (simp add: knowledge_project_def Let_def active) (simp add: ks_def provenance_of_def event_numbers_def sample_rival_def
        sample_knowledge_def isdigit_text_def is_unicode_digit_def is_digit_def int_of_text_def strip_ws_def is_space_def Let_def
        read_nat_def digit_val_def)
  have a: "kst_active_knowledge st = ks" using knowledge_project_Inr(1) [OF st] active by simp
  have "distinct (map ko_id ks)" by (simp add: ks_def sample_rival_def sample_knowledge_def)
  moreover have "find_contradictions ks = [(''k1'', ''k2'')]"
  proof -
    have "detect_contradiction ''Use SQLite'' ''use postgres''" by code_simp
    then show ?thesis by (simp add: ks_def find_contradictions_def sample_rival_def sample_knowledge_def)
  qed
  ultimately show ?thesis using conflict_queue_correct [OF st] st unfolding a by (auto simp: ks_def)
qed

section \<open>Health\<close>

lemma fdiv_gt_one:
  assumes "b < a" "0 < b" "b \<le> 2 ^ 52"
  shows "1 < fdiv (of_nat a) (of_nat b)"
proof -
  have f: "flt (1 + 1 / 2 ^ 52) = 1 + 1 / 2 ^ 52" by code_simp
  have "(1 :: rat) / 2 ^ 52 \<le> 1 / of_nat b"
  proof -
    have "(of_nat b :: rat) \<le> of_nat (2 ^ 52)" using assms(3) by (simp only: of_nat_le_iff)
    then show ?thesis using assms(2) by (intro divide_left_mono) simp_all
  qed
  moreover have "(1 :: rat) + 1 / of_nat b \<le> of_nat a / of_nat b"
  proof -
    have "(of_nat b :: rat) + 1 \<le> of_nat a" using assms(1) by (metis Suc_leI add.commute of_nat_Suc of_nat_le_iff)
    then have "((of_nat b :: rat) + 1) / of_nat b \<le> of_nat a / of_nat b" by (intro divide_right_mono) simp_all
    then show ?thesis using assms(2) by (simp add: add_divide_distrib)
  qed
  ultimately have "1 + 1 / 2 ^ 52 \<le> (of_nat a / of_nat b :: rat)" by linarith
  then have "1 + 1 / 2 ^ 52 \<le> fdiv (of_nat a) (of_nat b)"
    unfolding fdiv_def using flt_mono f by metis
  then show ?thesis by (rule less_le_trans [rotated]) simp
qed

lemma with_conflicted:
  "with_status CONFLICTED ks = filter (\<lambda>k. ko_lifecycle_status k \<notin> {''SUPERSEDED'', ''ARCHIVED''} \<and> ko_contradicting_memory_ids k \<noteq> []) ks"
  unfolding with_status_def by (rule filter_cong) (auto simp: derive_epistemic_status_def)

text \<open>The rates of a project's health.  The share of stale objects lies between 0 and 1.  The
  contradiction rate divides the contradicted objects that are not superseded or archived by the active ones: it
  lies between 0 and 1 when all objects are active, and is above 1 as soon as there are more contradicted objects
  than active ones, because contradicted stale objects count in the numerator only.\<close>

theorem health_rates:
  assumes "knowledge_project h now p ks = Inr st" and "kst_active_knowledge st \<noteq> []" and "length ks \<le> 2 ^ 52"
  shows "\<exists>hl. kst_health st = Some hl \<and>
    (0 \<le> khl_stale_ratio hl \<and> khl_stale_ratio hl \<le> 1) \<and>
    khl_contradiction_rate hl = fdiv (of_nat (length (filter (\<lambda>k. ko_lifecycle_status k \<notin> {''SUPERSEDED'', ''ARCHIVED''} \<and>
       ko_contradicting_memory_ids k \<noteq> []) ks))) (of_nat (length (kst_active_knowledge st))) \<and>
    ((\<forall>k \<in> set ks. ko_lifecycle_status k = ''ACTIVE'') \<longrightarrow> 0 \<le> khl_contradiction_rate hl \<and> khl_contradiction_rate hl \<le> 1) \<and>
    (length (kst_active_knowledge st) < length (kst_conflicted st) \<longrightarrow> 1 < khl_contradiction_rate hl)"
proof -
  note st = knowledge_project_Inr [OF assms(1)]
  define hl where "hl = compute_health (kst_active_knowledge st) ks (kst_conflicted st) (kst_invariants st) (kst_stale_knowledge st)"
  have n: "length (kst_active_knowledge st) \<noteq> 0" using assms(2) by simp
  have le: "length (kst_stale_knowledge st) \<le> length ks" "length (kst_active_knowledge st) \<le> length ks"
    by (simp_all add: st with_lifecycle_def)
  have "khl_contradiction_rate hl = fdiv (of_nat (length (kst_conflicted st))) (of_nat (length (kst_active_knowledge st)))"
    and stale: "khl_stale_ratio hl = fdiv (of_nat (length (kst_stale_knowledge st))) (of_nat (length ks))"
    using n le by (auto simp: hl_def compute_health_def Let_def)
  note rate = this(1)
  have "length (kst_conflicted st) \<le> length (kst_active_knowledge st)" if "\<forall>k \<in> set ks. ko_lifecycle_status k = ''ACTIVE''"
    using that by (simp add: st with_conflicted with_lifecycle_def filter_True)
  moreover have "0 \<le> khl_contradiction_rate hl" by (simp add: rate)
  moreover have "1 < khl_contradiction_rate hl" if "length (kst_active_knowledge st) < length (kst_conflicted st)"
    unfolding rate using that n le(2) assms(3) by (intro fdiv_gt_one) simp_all
  moreover have "0 \<le> khl_stale_ratio hl" "khl_stale_ratio hl \<le> 1" using le(1) by (simp_all add: stale fdiv_le_one)
  moreover have "khl_contradiction_rate hl \<le> 1" if "\<forall>k \<in> set ks. ko_lifecycle_status k = ''ACTIVE''"
    using calculation(1) [OF that] by (simp add: rate fdiv_le_one)
  ultimately show ?thesis
    using st(9) [folded hl_def] rate [unfolded st(6) with_conflicted] by blast
qed

theorem health_rates_witness:
  "\<exists>st hl. knowledge_project sample_host ''now'' ''p''
       [sample_knowledge ''k1'' ''ACTIVE'' [], sample_knowledge ''k2'' ''STALE'' [''m8''], sample_knowledge ''k3'' ''STALE'' [''m9'']] = Inr st \<and>
     kst_health st = Some hl \<and> 1 < khl_contradiction_rate hl"
proof -
  define ks where "ks = [sample_knowledge ''k1'' ''ACTIVE'' [], sample_knowledge ''k2'' ''STALE'' [''m8''], sample_knowledge ''k3'' ''STALE'' [''m9'']]"
  have active: "with_lifecycle ''ACTIVE'' ks = [sample_knowledge ''k1'' ''ACTIVE'' []]"
    by (simp add: ks_def with_lifecycle_def sample_knowledge_def)
  obtain st where st: "knowledge_project sample_host ''now'' ''p'' ks = Inr st"
    by (auto simp: knowledge_project_def Let_def active provenance_of_single)
  have "length (kst_conflicted st) = 2"
    by (simp add: knowledge_project_Inr(6) [OF st] with_conflicted ks_def sample_knowledge_def)
  moreover have a: "kst_active_knowledge st = [sample_knowledge ''k1'' ''ACTIVE'' []]" using knowledge_project_Inr(1) [OF st] active by simp
  moreover have "length ks \<le> 2 ^ 52" by (simp add: ks_def)
  ultimately show ?thesis using health_rates [OF st] st by (auto simp: ks_def)
qed

section \<open>Contradictions between records\<close>

lemma opposite_findingsI:
  assumes "kw \<in> set KEYWORDS" "(pa, pb) \<in> set POLARITIES"
    and "ca = strip_ws (lower (mem_content a))" "cb = strip_ws (lower (mem_content b))"
    and "contains kw ca" "contains kw cb" "contains pa ca" "contains pb cb"
  shows "make_finding h suppressed ''opposite_assertion'' ''warning'' (mem_id a) (mem_id b) kw
    (''Opposite assertions found regarding '' @ quoted kw @ '': '' @ quoted pa @ '' vs '' @ quoted pb)
     \<in> set (opposite_findings h suppressed a b)"
proof -
  define g where "g = (\<lambda>(pol_a, pol_b).
    if (contains pol_a ca \<and> contains pol_b cb) \<or> (contains pol_b ca \<and> contains pol_a cb)
    then [make_finding h suppressed ''opposite_assertion'' ''warning'' (mem_id a) (mem_id b) kw
            (''Opposite assertions found regarding '' @ quoted kw @ '': '' @ quoted pol_a @ '' vs '' @ quoted pol_b)]
    else [])"
  have "make_finding h suppressed ''opposite_assertion'' ''warning'' (mem_id a) (mem_id b) kw
      (''Opposite assertions found regarding '' @ quoted kw @ '': '' @ quoted pa @ '' vs '' @ quoted pb) \<in> set (g (pa, pb))"
    using assms(7,8) by (simp add: g_def)
  then have "make_finding h suppressed ''opposite_assertion'' ''warning'' (mem_id a) (mem_id b) kw
      (''Opposite assertions found regarding '' @ quoted kw @ '': '' @ quoted pa @ '' vs '' @ quoted pb) \<in> set (concat (map g POLARITIES))"
    using assms(2) by (simp only: set_concat set_map UN_I image_image)
  then show ?thesis
    unfolding opposite_findings_def Let_def assms(3,4) [symmetric] set_concat set_map
    using assms(1,5,6) by (intro UN_I [OF imageI [OF assms(1)]]) (simp add: g_def)
qed

text \<open>Records that agree are reported as opposite.  When two records have the same content, it names
  one of the keywords and says "shall not", the engine reports an opposite assertion between them: "shall" occurs
  in "shall not", so both halves of the polarity are found in a content that has one of them.\<close>

theorem shall_not_contradicts_itself:
  assumes "(a, b) \<in> set (pairs records)" and "mem_content a = mem_content b"
    and "kw \<in> set KEYWORDS" and "contains kw (strip_ws (lower (mem_content a)))"
    and "contains ''shall not'' (strip_ws (lower (mem_content a)))"
  shows "\<exists>f \<in> set (contradiction_detect h records suppressed).
    fnd_contradiction_type f = ''opposite_assertion'' \<and> fnd_rule_a_id f = mem_id a \<and> fnd_rule_b_id f = mem_id b"
proof -
  define c where "c = strip_ws (lower (mem_content a))"
  define f where "f = make_finding h suppressed ''opposite_assertion'' ''warning'' (mem_id a) (mem_id b) kw
    (''Opposite assertions found regarding '' @ quoted kw @ '': '' @ quoted ''shall'' @ '' vs '' @ quoted ''shall not'')"
  have "contains ''shall'' ''shall not''" by code_simp
  from contains_trans [OF this assms(5)] have "contains ''shall'' c" by (simp only: c_def)
  moreover have "(''shall'', ''shall not'') \<in> set POLARITIES" by (simp add: POLARITIES_def)
  ultimately have "f \<in> set (opposite_findings h suppressed a b)"
    unfolding f_def using assms(2-5) by (intro opposite_findingsI [of kw _ _ c _ c]) (simp_all only: c_def)
  then have "f \<in> set (contradiction_detect h records suppressed)"
    using assms(1) unfolding contradiction_detect_def set_append set_concat set_map
    by (intro UnI2 UN_I [OF imageI [OF assms(1)]]) simp
  then show ?thesis by (intro bexI [of _ f]) (simp_all add: f_def make_finding_def Let_def)
qed

definition sample_memory :: "string \<Rightarrow> string \<Rightarrow> MemoryRecord" where
  "sample_memory i content = memory_post_init
     \<lparr>mem_id = i, mem_version = 1, mem_title = i, mem_content = content, mem_memory_type = DECISION, mem_importance = ''medium'',
      mem_lifecycle_status = ''active'', mem_source_event_ids = [''7''], mem_source_type = ''manual'', mem_tags = [],
      mem_confidence = 1, mem_retrieval_priority = 2, mem_reference_count = 0, mem_last_referenced_at = None,
      mem_created_at = ''t'', mem_project_id = []\<rparr>"

theorem shall_not_contradicts_itself_witness:
  "\<exists>f \<in> set (contradiction_detect sample_host [sample_memory ''a'' ''We shall not use sqlite'', sample_memory ''b'' ''We shall not use sqlite''] {}).
    fnd_contradiction_type f = ''opposite_assertion'' \<and> fnd_rule_a_id f = ''a'' \<and> fnd_rule_b_id f = ''b''"
proof -
  have k: "''sqlite'' \<in> set KEYWORDS" "contains ''sqlite'' (strip_ws (lower ''We shall not use sqlite''))"
    "contains ''shall not'' (strip_ws (lower ''We shall not use sqlite''))" by code_simp+
  have m: "mem_content (sample_memory i c) = c" "mem_id (sample_memory i c) = i" for i c
    by (simp_all add: sample_memory_def memory_post_init_def)
  show ?thesis
    using shall_not_contradicts_itself [of "sample_memory ''a'' ''We shall not use sqlite''" "sample_memory ''b'' ''We shall not use sqlite''"
        "[sample_memory ''a'' ''We shall not use sqlite'', sample_memory ''b'' ''We shall not use sqlite'']" "''sqlite''" sample_host "{}"] k
    by (simp add: m)
qed

section \<open>Provenance\<close>

lemma numeral_digits_None:
  "list_all is_unicode_digit s \<Longrightarrow> \<not> list_all is_digit s \<Longrightarrow> numeral_digits s = None"
proof (induction s rule: numeral_digits.induct)
  case (3 c d s)
  have "\<not> is_unicode_digit (CHR ''_'')" by (simp add: is_unicode_digit_def is_digit_def)
  then have "d \<noteq> CHR ''_''" using 3(2) by auto
  then show ?case using 3 by auto
qed auto

lemma int_of_digit_text:
  assumes "isdigit_text s"
  shows "int_of_text s = (if list_all is_digit s then Inr (int (read_nat s)) else Inl (ValueError ''invalid literal for int()''))"
proof -
  have no: "\<not> is_space c" "c \<noteq> CHR ''-''" "c \<noteq> CHR ''+''" if "is_unicode_digit c" for c
    using that by (auto simp: is_unicode_digit_def is_digit_def is_space_def)
  from assms have s: "s \<noteq> []" "is_unicode_digit (hd s)" "is_unicode_digit (last s)"
    by (auto simp: isdigit_text_def list_all_iff)
  then have "strip_ws s = s" by (intro strip_ws_id) (simp_all add: no)
  then show ?thesis
    using s no [OF s(2)] assms numeral_digits_None [of s] numeral_digits_all [of s]
    by (auto simp: int_of_text_def Let_def isdigit_text_def)
qed

lemma rmap_Inl_iff: "(\<exists>e. rmap f xs = Inl e) \<longleftrightarrow> (\<exists>x \<in> set xs. \<exists>e. f x = Inl e)"
proof (induction xs)
  case (Cons x xs)
  then show ?case by (cases "f x"; cases "rmap f xs") auto
qed simp

lemma rmap_Inl_in: "rmap f xs = Inl e \<Longrightarrow> \<exists>x \<in> set xs. f x = Inl e"
proof (induction xs)
  case (Cons x xs)
  then show ?case by (cases "f x"; cases "rmap f xs") auto
qed simp

lemma provenance_raises:
  "(\<exists>e. provenance_of active = Inl e) \<longleftrightarrow>
     (\<exists>k \<in> set active. \<exists>i \<in> set (pvc_source_event_ids (ko_provenance k)). isdigit_text i \<and> \<not> list_all is_digit i)"
proof -
  define step where "step = (\<lambda>d k. if pvc_source_event_ids (ko_provenance k) = [] then Inr d
      else rbind (event_numbers k) (\<lambda>ns. Inr (AList.update (ko_id k) ns d)))"
  have bad: "(\<exists>e. event_numbers k = Inl e) \<longleftrightarrow> (\<exists>i \<in> set (pvc_source_event_ids (ko_provenance k)). isdigit_text i \<and> \<not> list_all is_digit i)"
    for k :: KnowledgeObject unfolding event_numbers_def rmap_Inl_iff by (auto simp: int_of_digit_text)
  have "(\<exists>e. rfold step d active = Inl e) \<longleftrightarrow> (\<exists>k \<in> set active. \<exists>e. event_numbers k = Inl e)" for d
  proof (induction active arbitrary: d)
    case (Cons k ks)
    have e: "event_numbers k = Inr []" if "pvc_source_event_ids (ko_provenance k) = []" using that by (simp add: event_numbers_def)
    show ?case using Cons by (cases "event_numbers k") (auto simp: step_def e)
  qed simp
  then show ?thesis by (simp add: provenance_of_def step_def [symmetric] bad)
qed

text \<open>When the projection of knowledge raises.  It does exactly when some active object has a source
  event id that isdigit accepts and int does not, which are the texts of digits with a superscript among them;
  every other input gives a state.\<close>

theorem knowledge_project_raises_iff:
  "(\<exists>e. knowledge_project h now p ks = Inl e) \<longleftrightarrow>
     (\<exists>k \<in> set ks. ko_lifecycle_status k = ''ACTIVE'' \<and>
        (\<exists>i \<in> set (pvc_source_event_ids (ko_provenance k)). isdigit_text i \<and> \<not> list_all is_digit i))"
proof -
  have "(\<exists>e. knowledge_project h now p ks = Inl e) \<longleftrightarrow> (\<exists>e. provenance_of (with_lifecycle ''ACTIVE'' ks) = Inl e)"
    unfolding knowledge_project_def Let_def by (cases "provenance_of (with_lifecycle ''ACTIVE'' ks)") simp_all
  also have "\<dots> \<longleftrightarrow> (\<exists>k \<in> set ks. ko_lifecycle_status k = ''ACTIVE'' \<and>
      (\<exists>i \<in> set (pvc_source_event_ids (ko_provenance k)). isdigit_text i \<and> \<not> list_all is_digit i))"
    unfolding provenance_raises by (auto simp: with_lifecycle_def)
  finally show ?thesis .
qed

section \<open>Lineage\<close>

lemma memory_lookup_None: "memory_lookup records i = None \<longleftrightarrow> i \<notin> mem_id ` set records"
  by (auto simp: memory_lookup_def map_of_eq_None_iff image_image)

text \<open>Provenance chains and their verification.  A chain built from the records counts as evidence
  the sources that exist, so an object with that chain passes verification exactly when the evidence count is the
  number of sources.  Its events are those of these memories and its score lies between 0 and 1.\<close>

theorem provenance_chain_verified:
  assumes "\<And>A. finite A \<Longrightarrow> set (iterate A) = A"
  shows "(verify_provenance records (k\<lparr>ko_provenance := build_provenance_chain iterate now records i sources ev\<rparr>) \<longleftrightarrow>
           pvc_evidence_count (build_provenance_chain iterate now records i sources ev) = int (length sources)) \<and>
         set (pvc_source_event_ids (build_provenance_chain iterate now records i sources ev)) =
           (\<Union>m \<in> {m. \<exists>s \<in> set sources. memory_lookup records s = Some m}. set (mem_source_event_ids m)) \<and>
         0 \<le> kcf_score (pvc_confidence (build_provenance_chain iterate now records i sources ev)) \<and>
         kcf_score (pvc_confidence (build_provenance_chain iterate now records i sources ev)) \<le> 1"
proof -
  define c where "c = build_provenance_chain iterate now records i sources ev"
  have m: "List.map_filter (memory_lookup records) sources =
      map (the \<circ> memory_lookup records) (filter (\<lambda>s. s \<in> mem_id ` set records) sources)"
    unfolding map_filter_def by (intro arg_cong2 [where f = map] filter_cong refl) (metis memory_lookup_None)
  have "verify_provenance records (k\<lparr>ko_provenance := c\<rparr>) \<longleftrightarrow> (\<forall>s \<in> set sources. s \<in> mem_id ` set records)"
    by (simp add: verify_provenance_def c_def build_provenance_chain_def Let_def list_all_iff)
  also have "\<dots> \<longleftrightarrow> length (filter (\<lambda>s. s \<in> mem_id ` set records) sources) = length sources"
    by (metis (mono_tags, lifting) filter_True length_filter_less less_irrefl)
  also have "\<dots> \<longleftrightarrow> pvc_evidence_count c = int (length sources)"
    by (simp add: c_def build_provenance_chain_def Let_def m)
  finally have 1: "verify_provenance records (k\<lparr>ko_provenance := c\<rparr>) \<longleftrightarrow> pvc_evidence_count c = int (length sources)" .
  have 2: "set (pvc_source_event_ids c) = (\<Union>m \<in> {m. \<exists>s \<in> set sources. memory_lookup records s = Some m}. set (mem_source_event_ids m))"
    unfolding c_def build_provenance_chain_def Let_def by (auto simp: assms map_filter_def split: option.splits)
  have "0 \<le> confidence_score a b x \<and> confidence_score a b x \<le> 1" for a b x by (simp add: confidence_score_def Let_def)
  then have "0 \<le> kcf_score (pvc_confidence c) \<and> kcf_score (pvc_confidence c) \<le> 1"
    by (simp add: c_def build_provenance_chain_def Let_def knowledge_confidence_def)
  with 1 2 show ?thesis by (simp add: c_def)
qed

theorem provenance_chain_verified_witness:
  "\<not> verify_provenance [sample_memory ''m1'' ''x''] ((sample_knowledge ''k'' ''ACTIVE'' [])\<lparr>ko_provenance :=
     build_provenance_chain sorted_list_of_set ''now'' [sample_memory ''m1'' ''x''] ''k'' [''m1'', ''m2''] []\<rparr>)"
proof -
  have "pvc_evidence_count (build_provenance_chain sorted_list_of_set ''now'' [sample_memory ''m1'' ''x''] ''k'' [''m1'', ''m2''] []) = 1"
    by (simp add: build_provenance_chain_def Let_def map_filter_def memory_lookup_def sample_memory_def memory_post_init_def)
  then show ?thesis
    using provenance_chain_verified [of sorted_list_of_set "[sample_memory ''m1'' ''x'']" "''now''" "''k''" "[''m1'', ''m2'']" "[]" "sample_knowledge ''k'' ''ACTIVE'' []"]
    by simp
qed

end
