(* ===== verification/Reasoning.thy ===== *)
theory Reasoning
  imports Knowledge ProjectionGraph
begin

text \<open>
  The reasoning pipeline of \<open>rationalevault/cognitive_head\<close>: evidence is aggregated over the knowledge
  states of several projects (\<open>evidence.py\<close>), assessed (\<open>assessment.py\<close>), turned into beliefs
  (\<open>belief.py\<close>), whose confidence is propagated along the support graph (\<open>propagation.py\<close>) and reported
  (\<open>reasoning_report.py\<close>, \<open>engine.py\<close>); beliefs become ranked candidates (\<open>synthesis.py\<close>), which a
  policy admits as decisions (\<open>decision.py\<close>).  \<open>cognitive_reducer.py\<close> summarizes invariants.

  Beliefs are mutable objects that the propagation reaches through a dictionary: the model keeps them in a
  list and the dictionary holds positions of the list.  The parser of time stamps and the clock are arguments.
\<close>

section \<open>Instants\<close>

text \<open>The position of a \<open>datetime\<close> on the time line in microseconds, a naive one read as UTC.\<close>

definition days_before :: "nat \<Rightarrow> nat \<Rightarrow> nat \<Rightarrow> int" where
  "days_before y m d =
     (let p = int y - 1
      in 365 * p + p div 4 - p div 100 + p div 400 + int (sum_list (map (days_in_month y) [1..<m])) + int d)"

definition instant :: "datetime \<Rightarrow> int" where
  "instant t =
     (((days_before (dt_year t) (dt_month t) (dt_day t) * 24 + int (dt_hour t)) * 60 + int (dt_minute t)
       - (case dt_tzinfo t of None \<Rightarrow> 0 | Some off \<Rightarrow> off)) * 60 + int (dt_second t)) * 1000000 + int (dt_microsecond t)"

text \<open>\<open>t > u\<close>, which raises when one is naive and the other is not.\<close>

definition later_than :: "datetime \<Rightarrow> datetime \<Rightarrow> bool result" where
  "later_than t u =
     (if (dt_tzinfo t = None) = (dt_tzinfo u = None) then Inr (instant u < instant t) else Inl TypeError)"

section \<open>Configuration (config.py)\<close>

record ReasoningConfig =
  rcf_version :: string
  rcf_attenuation :: pyfloat
  rcf_agreement_weight :: pyfloat
  rcf_corroboration_weight :: pyfloat
  rcf_contradiction_penalty_weight :: pyfloat
  rcf_staleness_penalty_weight :: pyfloat

definition default_reasoning :: ReasoningConfig where
  "default_reasoning = \<lparr>rcf_version = ''BeliefEngine v1'', rcf_attenuation = flt (8 / 10), rcf_agreement_weight = flt (1 / 10),
     rcf_corroboration_weight = flt (5 / 100), rcf_contradiction_penalty_weight = flt (3 / 10),
     rcf_staleness_penalty_weight = flt (1 / 100)\<rparr>"

section \<open>Evidence (evidence.py)\<close>

record EvidenceBundle =
  evb_concept_id :: string
  evb_title :: string
  evb_content :: string
  evb_supporting_evidence :: "string list"
  evb_contradicting_evidence :: "string list"
  evb_provenance :: "string list"
  evb_freshness :: pyfloat
  evb_source_diversity :: int
  evb_base_confidence :: pyfloat
  evb_contradiction_findings :: "ConflictRecord list"

text \<open>The dictionary that collects a bundle.\<close>

record concept_data =
  cd_concept_id :: string
  cd_title :: string
  cd_content :: string
  cd_supporting :: "string set"
  cd_contradicting :: "string set"
  cd_provenance :: "string set"
  cd_project_ids :: "string set"
  cd_confidences :: "pyfloat list"
  cd_created_ats :: "string list"
  cd_updated_ats :: "string list"
  cd_findings :: "ConflictRecord list"

definition new_concept :: "KnowledgeObject \<Rightarrow> concept_data" where
  "new_concept k = \<lparr>cd_concept_id = ko_id k, cd_title = ko_title k, cd_content = ko_content k, cd_supporting = {},
     cd_contradicting = {}, cd_provenance = {}, cd_project_ids = {}, cd_confidences = [], cd_created_ats = [], cd_updated_ats = [], cd_findings = []\<rparr>"

definition add_knowledge :: "concept_data \<Rightarrow> KnowledgeObject \<Rightarrow> concept_data" where
  "add_knowledge c k = c\<lparr>cd_supporting := cd_supporting c \<union> set (ko_supporting_memory_ids k),
     cd_contradicting := cd_contradicting c \<union> set (ko_contradicting_memory_ids k),
     cd_provenance := cd_provenance c \<union> set (pvc_source_event_ids (ko_provenance k)),
     cd_project_ids := insert (ko_project_id k) (cd_project_ids c),
     cd_confidences := cd_confidences c @ [kcf_score (ko_confidence k)],
     cd_created_ats := cd_created_ats c @ [ko_created_at k],
     cd_updated_ats := cd_updated_ats c @ [ko_updated_at k]\<rparr>"

definition group_step :: "(string, concept_data) dict \<Rightarrow> KnowledgeObject \<Rightarrow> (string, concept_data) dict" where
  "group_step d k =
     (let t = norm_text (ko_title k)
      in AList.update t (add_knowledge (dict_get d t (new_concept k)) k) d)"

definition add_finding :: "ConflictRecord \<Rightarrow> string \<Rightarrow> (string, concept_data) dict \<Rightarrow> (string, concept_data) dict" where
  "add_finding c title d =
     (case map_of d (norm_text title) of
        None \<Rightarrow> d
      | Some b \<Rightarrow> AList.update (norm_text title) (b\<lparr>cd_findings := cd_findings b @ [c]\<rparr>) d)"

definition finding_step :: "(string, concept_data) dict \<Rightarrow> ConflictRecord \<Rightarrow> (string, concept_data) dict" where
  "finding_step d c = add_finding c (cfr_knowledge_b_title c) (add_finding c (cfr_knowledge_a_title c) d)"

text \<open>The loop over the update times; a text that does not parse or compare is skipped.\<close>

fun newest_of :: "(string \<Rightarrow> datetime option) \<Rightarrow> datetime option \<Rightarrow> string list \<Rightarrow> datetime option" where
  "newest_of parse newest [] = newest"
| "newest_of parse newest (s # ss) =
     newest_of parse
       (case parse s of
          None \<Rightarrow> newest
        | Some t \<Rightarrow> (case newest of
                       None \<Rightarrow> Some t
                     | Some u \<Rightarrow> (case later_than t u of Inr True \<Rightarrow> Some t | _ \<Rightarrow> newest))) ss"

definition age_days :: "(string \<Rightarrow> datetime option) \<Rightarrow> datetime \<Rightarrow> string list \<Rightarrow> pyfloat" where
  "age_days parse now ss =
     (case newest_of parse None ss of
        None \<Rightarrow> 0
      | Some u \<Rightarrow> fdiv (fdiv (of_int (instant now - instant u)) 1000000) 86400)"

definition bundle_of :: "(string \<Rightarrow> datetime option) \<Rightarrow> datetime \<Rightarrow> concept_data \<Rightarrow> EvidenceBundle" where
  "bundle_of parse now c =
     \<lparr>evb_concept_id = cd_concept_id c, evb_title = cd_title c, evb_content = cd_content c,
      evb_supporting_evidence = sorted_list_of_set (cd_supporting c),
      evb_contradicting_evidence = sorted_list_of_set (cd_contradicting c),
      evb_provenance = sorted_list_of_set (cd_provenance c), evb_freshness = max 0 (age_days parse now (cd_updated_ats c)),
      evb_source_diversity = int (card (cd_project_ids c)),
      evb_base_confidence = (if cd_confidences c = [] then 0
        else fdiv (py_sum (cd_confidences c)) (of_nat (length (cd_confidences c)))),
      evb_contradiction_findings = cd_findings c\<rparr>"

definition by_project :: "KnowledgeState list \<Rightarrow> KnowledgeState list" where
  "by_project states = sort_key kst_project_id states"

definition concepts_of :: "KnowledgeState list \<Rightarrow> (string, concept_data) dict" where
  "concepts_of states =
     foldl finding_step
       (foldl group_step [] (concat (map kst_active_knowledge (by_project states))))
       (concat (map kst_conflict_queue (by_project states)))"

definition aggregate :: "(string \<Rightarrow> datetime option) \<Rightarrow> datetime \<Rightarrow> KnowledgeState list \<Rightarrow> EvidenceBundle list" where
  "aggregate parse now states = map (\<lambda>(t, c). bundle_of parse now c) (sort_key fst (concepts_of states))"

section \<open>Assessment (assessment.py)\<close>

record EvidenceAssessment =
  eas_base_confidence :: pyfloat
  eas_agreement_score :: pyfloat
  eas_corroboration_score :: pyfloat
  eas_contradiction_penalty :: pyfloat
  eas_staleness_penalty :: pyfloat
  eas_propagated_adjustment :: pyfloat
  eas_local_confidence :: pyfloat
  eas_final_confidence :: pyfloat

definition assess :: "EvidenceBundle \<Rightarrow> ReasoningConfig \<Rightarrow> EvidenceAssessment" where
  "assess b config =
     (let base = evb_base_confidence b;
          agreement = min (flt (2 / 10)) (max 0 (fmul (float_of_int (evb_source_diversity b - 1)) (rcf_agreement_weight config)));
          corroboration = min (flt (2 / 10)) (max 0 (fmul (float_of_int (int (length (evb_supporting_evidence b)))) (rcf_corroboration_weight config)));
          num_contradictions = int (length (evb_contradicting_evidence b)) + int (length (evb_contradiction_findings b));
          contradiction_penalty = min 1 (max 0 (fmul (float_of_int num_contradictions) (rcf_contradiction_penalty_weight config)));
          staleness_penalty = min (flt (5 / 10)) (max 0 (fmul (evb_freshness b) (rcf_staleness_penalty_weight config)));
          local_confidence = clamp01 (fsub (fsub (fadd (fadd base agreement) corroboration) contradiction_penalty) staleness_penalty)
      in \<lparr>eas_base_confidence = base, eas_agreement_score = agreement, eas_corroboration_score = corroboration,
          eas_contradiction_penalty = contradiction_penalty, eas_staleness_penalty = staleness_penalty,
          eas_propagated_adjustment = 0, eas_local_confidence = local_confidence, eas_final_confidence = local_confidence\<rparr>)"

section \<open>Beliefs (belief.py)\<close>

record Belief =
  blf_belief_id :: string
  blf_title :: string
  blf_content :: string
  blf_local_confidence :: pyfloat
  blf_propagated_adjustment :: pyfloat
  blf_final_confidence :: pyfloat
  blf_assessment :: EvidenceAssessment
  blf_supporting_evidence :: "string list"
  blf_dependent_belief_ids :: "string list"

definition generate_belief_id :: "host \<Rightarrow> string \<Rightarrow> string \<Rightarrow> string" where
  "generate_belief_id h title content = short_id h ''BEL-'' [''belief'', norm_text title, norm_text content]"

definition belief_construct :: "host \<Rightarrow> string \<Rightarrow> string \<Rightarrow> EvidenceAssessment \<Rightarrow> string list \<Rightarrow> Belief" where
  "belief_construct h title content a evidence =
     \<lparr>blf_belief_id = generate_belief_id h title content, blf_title = title, blf_content = content,
      blf_local_confidence = eas_local_confidence a, blf_propagated_adjustment = eas_propagated_adjustment a,
      blf_final_confidence = eas_final_confidence a, blf_assessment = a, blf_supporting_evidence = evidence,
      blf_dependent_belief_ids = []\<rparr>"

section \<open>Propagation (propagation.py)\<close>

text \<open>The support graph restricted to the known concepts, and its in-degrees.\<close>

definition restricted_adj :: "string list \<Rightarrow> (string, string list) dict \<Rightarrow> (string, string list) dict" where
  "restricted_adj valid graph =
     foldl (\<lambda>adj (src, targets). if src \<in> set valid then dict_append adj src (filter (\<lambda>t. t \<in> set valid) targets) else adj)
       (map (\<lambda>c. (c, [])) valid) graph"

definition restricted_degree :: "string list \<Rightarrow> (string, string list) dict \<Rightarrow> (string, int) dict" where
  "restricted_degree valid graph =
     foldl (\<lambda>deg (src, targets). if src \<in> set valid
              then foldl (\<lambda>deg t. if t \<in> set valid then AList.update t (dict_get deg t 0 + 1) deg else deg) deg targets
              else deg)
       (map (\<lambda>c. (c, 0)) valid) graph"

text \<open>Kahn's loop; the queue is sorted before each step.\<close>

function propagation_order ::
  "(string, string list) dict \<Rightarrow> (string, int) dict \<Rightarrow> string list \<Rightarrow> string list \<Rightarrow> string list result" where
  "propagation_order adj deg queue topo =
     (case sort queue of
        [] \<Rightarrow> Inr topo
      | c # rest \<Rightarrow>
          (case map_of adj c of
             None \<Rightarrow> Inl (KeyError c)
           | Some neighbors \<Rightarrow>
               (case relax deg rest neighbors of
                  Inl x \<Rightarrow> Inl x
                | Inr (deg', queue') \<Rightarrow> propagation_order adj deg' queue' (topo @ [c]))))"
  by pat_completeness auto
termination
proof (relation "measure (\<lambda>(_, deg, queue, _). pending deg + length queue)")
  fix adj deg queue topo c rest neighbors z deg' queue'
  assume sorted: "sort queue = c # rest" and step: "relax deg rest neighbors = Inr z" "(deg', queue') = z"
  have "length queue = Suc (length rest)" using sorted by (metis length_Cons length_sort)
  then show "((adj, deg', queue', topo @ [c]), (adj, deg, queue, topo)) \<in> measure (\<lambda>(_, deg, queue, _). pending deg + length queue)"
    using relax_measure [of deg rest neighbors deg' queue'] step by simp
qed simp

declare propagation_order.simps [simp del]

text \<open>The dictionary from concepts to belief objects, here to their positions.\<close>

definition first_concept :: "(string, string) dict \<Rightarrow> string \<Rightarrow> string option" where
  "first_concept concepts bid = map_option fst (List.find (\<lambda>(cid, b). b = bid) concepts)"

definition belief_index :: "Belief list \<Rightarrow> (string, string) dict \<Rightarrow> (string, nat) dict" where
  "belief_index beliefs concepts =
     foldl (\<lambda>d (i, b). case first_concept concepts (blf_belief_id b) of None \<Rightarrow> d | Some cid \<Rightarrow> AList.update cid i d) []
       (zip [0..<length beliefs] beliefs)"

text \<open>The dependents of a belief: the ids of the beliefs it supports, sorted.\<close>

definition add_dependent :: "(string, nat) dict \<Rightarrow> Belief list \<Rightarrow> Belief \<Rightarrow> string \<Rightarrow> Belief" where
  "add_dependent idx bs b target =
     (case map_of idx target of
        None \<Rightarrow> b
      | Some j \<Rightarrow> (let t = blf_belief_id (bs ! j)
                   in if t \<in> set (blf_dependent_belief_ids b) then b
                      else b\<lparr>blf_dependent_belief_ids := blf_dependent_belief_ids b @ [t]\<rparr>))"

definition set_dependents :: "(string, nat) dict \<Rightarrow> Belief list \<Rightarrow> string \<times> string list \<Rightarrow> Belief list" where
  "set_dependents idx bs = (\<lambda>(src, targets).
     case map_of idx src of
       None \<Rightarrow> bs
     | Some i \<Rightarrow> (let b = foldl (add_dependent idx bs) (bs ! i) targets
                  in bs[i := b\<lparr>blf_dependent_belief_ids := sort (blf_dependent_belief_ids b)\<rparr>]))"

text \<open>One edge of the traversal: the penalty of the parent reaches the child.\<close>

definition penalize :: "pyfloat \<Rightarrow> Belief \<Rightarrow> Belief" where
  "penalize penalty b =
     (let new_adjustment = min (blf_propagated_adjustment b) penalty;
          new_final = clamp01 (fadd (blf_local_confidence b) new_adjustment);
          a = blf_assessment b
      in b\<lparr>blf_propagated_adjustment := new_adjustment, blf_final_confidence := new_final,
           blf_assessment := \<lparr>eas_base_confidence = eas_base_confidence a, eas_agreement_score = eas_agreement_score a,
             eas_corroboration_score = eas_corroboration_score a, eas_contradiction_penalty = eas_contradiction_penalty a,
             eas_staleness_penalty = eas_staleness_penalty a, eas_propagated_adjustment = new_adjustment,
             eas_local_confidence = blf_local_confidence b, eas_final_confidence = new_final\<rparr>\<rparr>)"

definition penalty_of :: "ReasoningConfig \<Rightarrow> Belief \<Rightarrow> pyfloat" where
  "penalty_of config parent = fmul (fsub (blf_final_confidence parent) 1) (rcf_attenuation config)"

definition penalize_child :: "(string, nat) dict \<Rightarrow> pyfloat \<Rightarrow> Belief list \<Rightarrow> string \<Rightarrow> Belief list" where
  "penalize_child idx penalty bs child =
     (case map_of idx child of None \<Rightarrow> bs | Some j \<Rightarrow> bs[j := penalize penalty (bs ! j)])"

definition visit_parent ::
  "ReasoningConfig \<Rightarrow> (string, nat) dict \<Rightarrow> (string, string list) dict \<Rightarrow> Belief list \<Rightarrow> string \<Rightarrow> Belief list" where
  "visit_parent config idx adj bs parent =
     (case map_of idx parent of
        None \<Rightarrow> bs
      | Some i \<Rightarrow> foldl (penalize_child idx (penalty_of config (bs ! i))) bs (dict_get adj parent []))"

definition propagate_beliefs ::
  "Belief list \<Rightarrow> (string, string) dict \<Rightarrow> (string, string list) dict \<Rightarrow> ReasoningConfig \<Rightarrow> Belief list result" where
  "propagate_beliefs beliefs concepts graph config =
     (let valid = map fst concepts;
          adj = restricted_adj valid graph;
          deg = restricted_degree valid graph
      in rbind (propagation_order adj deg (map fst (filter (\<lambda>(c, n). n = 0) deg)) []) (\<lambda>topo.
         if length topo \<noteq> length valid then Inr beliefs
         else let idx = belief_index beliefs concepts
              in Inr (foldl (visit_parent config idx adj) (foldl (set_dependents idx) beliefs adj) topo)))"

section \<open>The report (reasoning\_report.py, engine.py)\<close>

record ReasoningReport =
  rrp_beliefs :: "Belief list"
  rrp_assessments :: "EvidenceAssessment list"
  rrp_contradictions :: "ContradictionFinding list"
  rrp_summary :: "(string, int) dict"
  rrp_overall_confidence :: pyfloat
  rrp_reasoning_version :: string
  rrp_config_snapshot :: "(string, pyfloat) dict"

text \<open>The generator inside \<open>any\<close> reads the first evidence of the belief at each active contradiction.\<close>

definition has_contradiction :: "ContradictionFinding list \<Rightarrow> Belief \<Rightarrow> bool result" where
  "has_contradiction contradictions b =
     (let active = filter (\<lambda>c. \<not> fnd_suppressed c) contradictions
      in if active = [] then Inr False
         else case blf_supporting_evidence b of
                [] \<Rightarrow> Inl IndexError
              | e # _ \<Rightarrow> Inr (list_ex (\<lambda>c. fnd_rule_a_id c = e \<or> fnd_rule_b_id c = e) active))"

record report_counts =
  rct_invariants :: int
  rct_validated :: int
  rct_conflicted :: int

definition count_belief :: "ContradictionFinding list \<Rightarrow> report_counts \<Rightarrow> Belief \<Rightarrow> report_counts result" where
  "count_belief contradictions c b =
     rbind (has_contradiction contradictions b) (\<lambda>contra.
       Inr (if contra then c\<lparr>rct_conflicted := rct_conflicted c + 1\<rparr>
            else if flt (95 / 100) \<le> blf_final_confidence b then c\<lparr>rct_invariants := rct_invariants c + 1\<rparr>
            else if flt (7 / 10) \<le> blf_final_confidence b then c\<lparr>rct_validated := rct_validated c + 1\<rparr>
            else c))"

definition report_build :: "Belief list \<Rightarrow> ContradictionFinding list \<Rightarrow> ReasoningConfig \<Rightarrow> ReasoningReport result" where
  "report_build beliefs contradictions config =
     rbind (rfold (count_belief contradictions) \<lparr>rct_invariants = 0, rct_validated = 0, rct_conflicted = 0\<rparr> beliefs) (\<lambda>c.
     Inr \<lparr>rrp_beliefs = beliefs, rrp_assessments = map blf_assessment beliefs, rrp_contradictions = contradictions,
          rrp_summary = [(''total_rules'', int (length beliefs)), (''invariants'', rct_invariants c),
            (''validated'', rct_validated c), (''conflicted'', rct_conflicted c), (''superseded'', 0), (''archived'', 0),
            (''contradictions_count'', int (length contradictions)),
            (''active_contradictions_count'', int (length (filter (\<lambda>c. \<not> fnd_suppressed c) contradictions)))],
          rrp_overall_confidence = (if beliefs = [] then 1
            else fdiv (py_sum (map blf_final_confidence beliefs)) (of_nat (length beliefs))),
          rrp_reasoning_version = rcf_version config,
          rrp_config_snapshot = [(''attenuation'', rcf_attenuation config), (''agreement_weight'', rcf_agreement_weight config),
            (''corroboration_weight'', rcf_corroboration_weight config),
            (''contradiction_penalty_weight'', rcf_contradiction_penalty_weight config),
            (''staleness_penalty_weight'', rcf_staleness_penalty_weight config)]\<rparr>)"

definition belief_of :: "host \<Rightarrow> ReasoningConfig \<Rightarrow> EvidenceBundle \<Rightarrow> Belief" where
  "belief_of h config b = belief_construct h (evb_title b) (evb_content b) (assess b config) (evb_supporting_evidence b)"

definition merged_support :: "KnowledgeState list \<Rightarrow> (string, string list) dict" where
  "merged_support states = foldl (\<lambda>d (src, targets). dict_append d src targets) [] (concat (map kst_support_graph states))"

definition record_of :: "string \<Rightarrow> KnowledgeObject \<Rightarrow> MemoryRecord" where
  "record_of now k = memory_post_init
     \<lparr>mem_id = ko_id k, mem_version = ko_version k, mem_title = ko_title k, mem_content = ko_content k,
      mem_memory_type = DECISION, mem_importance = ''medium'', mem_lifecycle_status = ''active'', mem_source_event_ids = [],
      mem_source_type = ''manual'', mem_tags = [], mem_confidence = 1, mem_retrieval_priority = 2, mem_reference_count = 0,
      mem_last_referenced_at = None, mem_created_at = now, mem_project_id = []\<rparr>"

definition temp_records :: "string \<Rightarrow> KnowledgeState list \<Rightarrow> MemoryRecord list" where
  "temp_records now states = map (record_of now) (first_by_id {} (concat (map kst_active_knowledge (by_project states))))"

definition reason ::
  "host \<Rightarrow> (string \<Rightarrow> datetime option) \<Rightarrow> datetime \<Rightarrow> string \<Rightarrow> KnowledgeState list \<Rightarrow> string set \<Rightarrow> ReasoningConfig
    \<Rightarrow> ReasoningReport result" where
  "reason h parse now now_text states suppressed config =
     (let bundles = aggregate parse now states;
          beliefs = map (belief_of h config) bundles;
          concepts = foldl (\<lambda>d b. AList.update (evb_concept_id b) (blf_belief_id (belief_of h config b)) d) [] bundles
      in rbind (propagate_beliefs beliefs concepts (merged_support states) config) (\<lambda>beliefs.
           report_build beliefs (contradiction_detect h (temp_records now_text states) suppressed) config))"

section \<open>Summary of invariants (cognitive\_reducer.py)\<close>

record CognitiveReduction =
  crd_invariants :: "string list"
  crd_supporting_evidence :: "string list"
  crd_conflicting_evidence :: "string list"
  crd_confidence :: pyfloat
  crd_unresolved_questions :: "string list"

text \<open>The elements not seen before, in order.\<close>

definition first_occurrences :: "'a list \<Rightarrow> 'a list" where
  "first_occurrences xs = rev (remdups (rev xs))"

definition question_of :: "ConflictRecord \<Rightarrow> string" where
  "question_of c = ''Resolve contradiction: '' @ cfr_knowledge_a_title c @ '' vs '' @ cfr_knowledge_b_title c"

definition cognitive_reduce :: "KnowledgeState list \<Rightarrow> CognitiveReduction" where
  "cognitive_reduce states =
     (let invs = concat (map kst_invariants (by_project states));
          total = foldl (\<lambda>acc k. fadd acc (kcf_score (ko_confidence k))) 0 invs
      in \<lparr>crd_invariants = first_occurrences (map ko_title invs),
          crd_supporting_evidence = first_occurrences (concat (map ko_supporting_memory_ids invs)),
          crd_conflicting_evidence = first_occurrences (concat (map ko_contradicting_memory_ids invs)),
          crd_confidence = (if 0 < length invs then fdiv total (of_nat (length invs)) else 1),
          crd_unresolved_questions = first_occurrences (map question_of (concat (map kst_conflict_queue (by_project states))))\<rparr>)"

section \<open>Candidates (synthesis.py)\<close>

datatype SynthesisCategory = AFFIRM | CHALLENGE | RESOLVE | DEFER | MONITOR

fun category_value :: "SynthesisCategory \<Rightarrow> string" where
  "category_value AFFIRM = ''AFFIRM''"
| "category_value CHALLENGE = ''CHALLENGE''"
| "category_value RESOLVE = ''RESOLVE''"
| "category_value DEFER = ''DEFER''"
| "category_value MONITOR = ''MONITOR''"

datatype SynthesisPriority = CRITICAL | HIGH | NORMAL | LOW

fun priority_value :: "SynthesisPriority \<Rightarrow> string" where
  "priority_value CRITICAL = ''CRITICAL''"
| "priority_value HIGH = ''HIGH''"
| "priority_value NORMAL = ''NORMAL''"
| "priority_value LOW = ''LOW''"

datatype DecisionReason =
    HIGH_CONFIDENCE | MODERATE_CONFIDENCE | LOW_CONFIDENCE | ACTIVE_CONTRADICTION | STALE | DEPENDENCY_DEGRADED
  | HIGH_CORROBORATION

fun priority_order :: "SynthesisPriority \<Rightarrow> nat" where
  "priority_order CRITICAL = 0"
| "priority_order HIGH = 1"
| "priority_order NORMAL = 2"
| "priority_order LOW = 3"

record SynthesisConfig =
  scf_version :: string
  scf_affirm_threshold :: pyfloat
  scf_challenge_threshold :: pyfloat
  scf_defer_threshold :: pyfloat
  scf_critical_urgency :: pyfloat
  scf_high_urgency :: pyfloat
  scf_normal_urgency :: pyfloat
  scf_impact_corroboration_weight :: pyfloat
  scf_impact_breadth_weight :: pyfloat
  scf_impact_diversity_weight :: pyfloat
  scf_impact_breadth_divisor :: pyfloat

definition default_synthesis :: SynthesisConfig where
  "default_synthesis = \<lparr>scf_version = ''1.0'', scf_affirm_threshold = flt (80 / 100), scf_challenge_threshold = flt (50 / 100),
     scf_defer_threshold = flt (40 / 100), scf_critical_urgency = flt (72 / 100), scf_high_urgency = flt (48 / 100),
     scf_normal_urgency = flt (24 / 100), scf_impact_corroboration_weight = flt (50 / 100),
     scf_impact_breadth_weight = flt (30 / 100), scf_impact_diversity_weight = flt (20 / 100), scf_impact_breadth_divisor = 5\<rparr>"

record DecisionCandidate =
  dcd_candidate_id :: string
  dcd_belief_id :: string
  dcd_category :: SynthesisCategory
  dcd_reasons :: "DecisionReason list"
  dcd_confidence :: pyfloat
  dcd_impact :: pyfloat
  dcd_priority :: SynthesisPriority
  dcd_contradiction_ids :: "string list"
  dcd_belief_title :: string
  dcd_belief_content :: string

record SynthesisItem =
  syi_synthesis_id :: string
  syi_candidate :: DecisionCandidate

record SynthesisReport =
  syr_items :: "SynthesisItem list"
  syr_total_candidates :: int
  syr_by_category :: "(string, int) dict"
  syr_by_priority :: "(string, int) dict"
  syr_synthesis_version :: string

text \<open>Division by the divisor of the configuration raises when it is zero.\<close>

definition compute_impact :: "Belief \<Rightarrow> SynthesisConfig \<Rightarrow> pyfloat result" where
  "compute_impact b config =
     (if scf_impact_breadth_divisor config = 0 then Inl ZeroDivisionError
      else let corroboration = eas_corroboration_score (blf_assessment b);
               evidence_breadth = min 1 (fdiv (float_of_int (int (length (blf_supporting_evidence b)))) (scf_impact_breadth_divisor config));
               diversity = eas_agreement_score (blf_assessment b);
               impact = fadd (fadd (fmul corroboration (scf_impact_corroboration_weight config))
                                   (fmul evidence_breadth (scf_impact_breadth_weight config)))
                             (fmul diversity (scf_impact_diversity_weight config))
           in Inr (py_round 4 (min 1 (max 0 impact))))"

definition derive_priority :: "pyfloat \<Rightarrow> pyfloat \<Rightarrow> SynthesisConfig \<Rightarrow> SynthesisPriority" where
  "derive_priority impact confidence config =
     (let urgency = fmul impact confidence
      in if scf_critical_urgency config \<le> urgency then CRITICAL
         else if scf_high_urgency config \<le> urgency then HIGH
         else if scf_normal_urgency config \<le> urgency then NORMAL
         else LOW)"

definition classify :: "Belief \<Rightarrow> string set \<Rightarrow> SynthesisConfig \<Rightarrow> SynthesisCategory \<times> DecisionReason list" where
  "classify b active_ids config =
     (let confidence = blf_final_confidence b;
          has_contradictions = (active_ids \<noteq> {});
          a = blf_assessment b;
          reasons = (if has_contradictions then [ACTIVE_CONTRADICTION] else [])
            @ (if flt (1 / 10) < eas_staleness_penalty a then [STALE] else [])
            @ (if eas_propagated_adjustment a < - flt (5 / 100) then [DEPENDENCY_DEGRADED] else [])
            @ (if flt (15 / 100) \<le> eas_corroboration_score a then [HIGH_CORROBORATION] else [])
      in if confidence < scf_defer_threshold config then (DEFER, reasons @ [LOW_CONFIDENCE])
         else if has_contradictions
         then (if scf_challenge_threshold config \<le> confidence then (CHALLENGE, reasons) else (RESOLVE, reasons))
         else if scf_affirm_threshold config \<le> confidence then (AFFIRM, reasons @ [HIGH_CONFIDENCE])
         else (MONITOR, reasons @ [MODERATE_CONFIDENCE]))"

definition generate_candidate_id :: "host \<Rightarrow> string \<Rightarrow> SynthesisCategory \<Rightarrow> string \<Rightarrow> string" where
  "generate_candidate_id h belief_id category version =
     short_id h ''CAND-'' [''candidate'', belief_id, category_value category, version]"

definition generate_candidates :: "host \<Rightarrow> Belief \<Rightarrow> string set \<Rightarrow> SynthesisConfig \<Rightarrow> DecisionCandidate list result" where
  "generate_candidates h b active_ids config =
     (let (category, reasons) = classify b active_ids config
      in rbind (compute_impact b config) (\<lambda>impact.
         Inr [\<lparr>dcd_candidate_id = generate_candidate_id h (blf_belief_id b) category (scf_version config),
               dcd_belief_id = blf_belief_id b, dcd_category = category, dcd_reasons = reasons,
               dcd_confidence = blf_final_confidence b, dcd_impact = impact,
               dcd_priority = derive_priority impact (blf_final_confidence b) config,
               dcd_contradiction_ids = sorted_list_of_set active_ids, dcd_belief_title = blf_title b,
               dcd_belief_content = blf_content b\<rparr>]))"

definition generate_synthesis_id :: "host \<Rightarrow> string \<Rightarrow> string \<Rightarrow> string" where
  "generate_synthesis_id h candidate_id version = short_id h ''SYN-'' [''synthesis'', candidate_id, version]"

definition active_contradiction_ids :: "Belief \<Rightarrow> ContradictionFinding list \<Rightarrow> string set" where
  "active_contradiction_ids b contradictions =
     set (map fnd_finding_id (filter (\<lambda>c. \<not> fnd_suppressed c \<and>
       (fnd_rule_a_id c \<in> set (blf_supporting_evidence b) \<or> fnd_rule_b_id c \<in> set (blf_supporting_evidence b))) contradictions))"

definition item_key :: "SynthesisItem \<Rightarrow> nat \<times> pyfloat" where
  "item_key i = (priority_order (dcd_priority (syi_candidate i)), - dcd_confidence (syi_candidate i))"

definition count_values :: "string list \<Rightarrow> string list \<Rightarrow> (string, int) dict" where
  "count_values keys vs = foldl (\<lambda>d v. AList.update v (dict_get d v 0 + 1) d) (map (\<lambda>k. (k, 0)) keys) vs"

definition synthesis_items :: "host \<Rightarrow> ReasoningReport \<Rightarrow> SynthesisConfig \<Rightarrow> SynthesisItem list result" where
  "synthesis_items h report config =
     rbind (rmap (\<lambda>b. rbind (generate_candidates h b (active_contradiction_ids b (rrp_contradictions report)) config) (\<lambda>cs.
       Inr (map (\<lambda>c. \<lparr>syi_synthesis_id = generate_synthesis_id h (dcd_candidate_id c) (scf_version config), syi_candidate = c\<rparr>) cs)))
       (rrp_beliefs report)) (\<lambda>iss. Inr (concat iss))"

definition synthesize :: "host \<Rightarrow> ReasoningReport \<Rightarrow> SynthesisConfig \<Rightarrow> SynthesisReport result" where
  "synthesize h report config =
     rbind (synthesis_items h report config) (\<lambda>unsorted.
       let items = sort_key item_key unsorted
       in Inr \<lparr>syr_items = items, syr_total_candidates = int (length items),
            syr_by_category = count_values (map category_value [AFFIRM, CHALLENGE, RESOLVE, DEFER, MONITOR])
              (map (\<lambda>i. category_value (dcd_category (syi_candidate i))) items),
            syr_by_priority = count_values (map priority_value [CRITICAL, HIGH, NORMAL, LOW])
              (map (\<lambda>i. priority_value (dcd_priority (syi_candidate i))) items),
            syr_synthesis_version = scf_version config\<rparr>)"

section \<open>Decisions (decision.py)\<close>

record DecisionGatePolicy =
  dgp_version :: string
  dgp_minimum_confidence :: pyfloat
  dgp_block_if_contradicted :: bool
  dgp_max_decisions :: int

definition default_gate :: DecisionGatePolicy where
  "default_gate = \<lparr>dgp_version = ''1.0'', dgp_minimum_confidence = flt (60 / 100), dgp_block_if_contradicted = True, dgp_max_decisions = 0\<rparr>"

record DecisionItem =
  di_decision_id :: string
  di_synthesis_id :: string
  di_belief_id :: string
  di_category :: SynthesisCategory
  di_priority :: SynthesisPriority
  di_confidence :: pyfloat
  di_impact :: pyfloat
  di_contradiction_ids :: "string list"
  di_belief_title :: string
  di_belief_content :: string
  di_gate_policy_version :: string

record DecisionSet =
  dst_decisions :: "DecisionItem list"
  dst_blocked :: "SynthesisItem list"
  dst_gate_policy :: DecisionGatePolicy
  dst_total_candidates :: int
  dst_approved :: int
  dst_blocked_count :: int

definition generate_decision_id :: "host \<Rightarrow> string \<Rightarrow> string \<Rightarrow> string" where
  "generate_decision_id h version synthesis_id = short_id h ''DEC-'' [''decision'', version, synthesis_id]"

definition passes_gate :: "SynthesisItem \<Rightarrow> DecisionGatePolicy \<Rightarrow> bool" where
  "passes_gate i policy =
     (if dcd_category (syi_candidate i) = DEFER then False
      else if dcd_confidence (syi_candidate i) < dgp_minimum_confidence policy then False
      else if dgp_block_if_contradicted policy \<and> dcd_contradiction_ids (syi_candidate i) \<noteq> [] then False
      else True)"

definition decision_of :: "host \<Rightarrow> DecisionGatePolicy \<Rightarrow> SynthesisItem \<Rightarrow> DecisionItem" where
  "decision_of h policy i =
     (let c = syi_candidate i
      in \<lparr>di_decision_id = generate_decision_id h (dgp_version policy) (syi_synthesis_id i), di_synthesis_id = syi_synthesis_id i,
          di_belief_id = dcd_belief_id c, di_category = dcd_category c, di_priority = dcd_priority c,
          di_confidence = dcd_confidence c, di_impact = dcd_impact c, di_contradiction_ids = dcd_contradiction_ids c,
          di_belief_title = dcd_belief_title c, di_belief_content = dcd_belief_content c,
          di_gate_policy_version = dgp_version policy\<rparr>)"

definition gate :: "host \<Rightarrow> SynthesisReport \<Rightarrow> DecisionGatePolicy \<Rightarrow> DecisionSet" where
  "gate h synthesis policy =
     (let passed = filter (\<lambda>i. passes_gate i policy) (syr_items synthesis);
          blocked = filter (\<lambda>i. \<not> passes_gate i policy) (syr_items synthesis);
          cap = (0 < dgp_max_decisions policy \<and> dgp_max_decisions policy < int (length passed));
          overflow = (if cap then drop (nat (dgp_max_decisions policy)) passed else []);
          kept = (if cap then take (nat (dgp_max_decisions policy)) passed else passed)
      in \<lparr>dst_decisions = map (decision_of h policy) kept, dst_blocked = blocked @ overflow, dst_gate_policy = policy,
          dst_total_candidates = int (length (syr_items synthesis)), dst_approved = int (length kept),
          dst_blocked_count = int (length (blocked @ overflow))\<rparr>)"

definition engine_synthesize ::
  "host \<Rightarrow> ReasoningReport \<Rightarrow> SynthesisConfig \<Rightarrow> DecisionGatePolicy \<Rightarrow> DecisionSet result" where
  "engine_synthesize h report config policy = rbind (synthesize h report config) (\<lambda>s. Inr (gate h s policy))"

end
