(* ===== verification/BeliefPropagation.thy ===== *)
theory BeliefPropagation
  imports Reasoning
begin

text \<open>
  What the propagation of \<open>propagation.py\<close> computes.  Its first part is Kahn's algorithm on the support graph,
  where an edge may occur several times; it lists all concepts exactly when the graph has no cycle, and then
  parents come before children.  Its second part reaches the solution of the equations that relate the
  confidence of every belief to the final confidence of the beliefs that support it.
\<close>

section \<open>The graph\<close>

definition edges_from :: "string list \<Rightarrow> (string, string list) dict \<Rightarrow> string \<Rightarrow> string list" where
  "edges_from valid graph u = concat (map (\<lambda>(s, ts). if s = u then filter (\<lambda>t. t \<in> set valid) ts else []) graph)"

definition supports :: "string list \<Rightarrow> (string, string list) dict \<Rightarrow> (string \<times> string) set" where
  "supports valid graph = {(u, c). u \<in> set valid \<and> c \<in> set (edges_from valid graph u)}"

text \<open>How many edges into \<open>c\<close> start in \<open>S\<close>.\<close>

definition degree_from :: "string list \<Rightarrow> (string, string list) dict \<Rightarrow> string set \<Rightarrow> string \<Rightarrow> nat" where
  "degree_from valid graph S c = (\<Sum>u \<in> S. count (mset (edges_from valid graph u)) c)"

lemma edges_from_valid: "set (edges_from valid graph u) \<subseteq> set valid"
  by (auto simp: edges_from_def split: if_splits)

lemma supports_iff:
  "(u, c) \<in> supports valid graph \<longleftrightarrow> u \<in> set valid \<and> c \<in> set valid \<and> (\<exists>ts. (u, ts) \<in> set graph \<and> c \<in> set ts)"
  by (auto simp: supports_def edges_from_def split: if_splits)

lemma finite_supports: "finite (supports valid graph)"
  by (rule finite_subset [of _ "set valid \<times> set valid"]) (auto simp: supports_iff)

lemma map_of_dict_append: "map_of (dict_append d k vs) u = (if u = k then Some (dict_get d k [] @ vs) else map_of d u)"
  by (simp add: dict_append_def)

lemma restricted_adj_map_of:
  assumes "distinct valid"
  shows "map_of (restricted_adj valid graph) u = (if u \<in> set valid then Some (edges_from valid graph u) else None)"
proof -
  define step where "step = (\<lambda>adj (src, targets). if src \<in> set valid
      then dict_append adj src (filter (\<lambda>t. t \<in> set valid) targets) else adj)"
  have "map_of (foldl step acc graph) u =
      (if u \<in> set valid then Some (dict_get acc u [] @ edges_from valid graph u) else None)"
    if "\<forall>u. map_of acc u \<noteq> None \<longleftrightarrow> u \<in> set valid" for acc
    using that
  proof (induction graph arbitrary: acc)
    case Nil
    then show ?case using spec [OF Nil, of u] by (cases "map_of acc u") (auto simp: edges_from_def dict_get_def)
  next
    case (Cons e graph)
    obtain s ts where e: "e = (s, ts)" by fastforce
    have dom: "\<forall>u. map_of (step acc e) u \<noteq> None \<longleftrightarrow> u \<in> set valid" using Cons.prems by (auto simp: step_def e map_of_dict_append)
    have "dict_get (step acc e) u [] = dict_get acc u [] @ (if s = u \<and> s \<in> set valid then filter (\<lambda>t. t \<in> set valid) ts else [])"
      by (auto simp: step_def e dict_get_def dict_append_def)
    then show ?case using Cons.IH [OF dom] by (auto simp: e edges_from_def)
  qed
  moreover have "\<forall>u. map_of (map (\<lambda>c. (c, [] :: string list)) valid) u \<noteq> None \<longleftrightarrow> u \<in> set valid"
    by (auto simp: map_of_eq_None_iff image_image)
  moreover have "dict_get (map (\<lambda>c. (c, [] :: string list)) valid) u [] = []" for u
    by (auto simp: dict_get_def map_of_map_restrict [where f = "\<lambda>_. []"] restrict_map_def)
  ultimately show ?thesis by (simp add: restricted_adj_def flip: step_def)
qed

lemma count_edges_from:
  "c \<in> set valid \<Longrightarrow> count (mset (edges_from valid ((s, ts) # graph) u)) c =
     (if s = u then count (mset ts) c else 0) + count (mset (edges_from valid graph u)) c"
  by (simp add: edges_from_def)

lemma degree_from_Cons:
  assumes "c \<in> set valid"
  shows "degree_from valid ((s, ts) # graph) (set valid) c =
    (if s \<in> set valid then count (mset ts) c else 0) + degree_from valid graph (set valid) c"
  by (simp add: degree_from_def count_edges_from [OF assms] sum.distrib)

lemma count_updates:
  "map_of (foldl (\<lambda>deg t. if t \<in> V then AList.update t (dict_get deg t (0 :: int) + 1) deg else deg) deg ts) c =
     (if c \<in> V \<and> c \<in> set ts then Some (dict_get deg c 0 + int (count (mset ts) c)) else map_of deg c)"
proof (induction ts arbitrary: deg)
  case (Cons t ts)
  show ?case by (auto simp: Cons dict_get_def not_in_iff)
qed simp

lemma restricted_degree_map_of:
  assumes "distinct valid"
  shows "map_of (restricted_degree valid graph) c =
    (if c \<in> set valid then Some (int (degree_from valid graph (set valid) c)) else None)"
proof -
  define step where "step = (\<lambda>deg (src, targets). if src \<in> set valid
      then foldl (\<lambda>deg t. if t \<in> set valid then AList.update t (dict_get deg t (0 :: int) + 1) deg else deg) deg targets else deg)"
  have "map_of (foldl step acc graph) c =
      (if c \<in> set valid then Some (dict_get acc c 0 + int (degree_from valid graph (set valid) c)) else None)"
    if "\<forall>u. map_of acc u \<noteq> None \<longleftrightarrow> u \<in> set valid" for acc
    using that
  proof (induction graph arbitrary: acc)
    case Nil
    then show ?case using spec [OF Nil, of c] by (cases "map_of acc c") (auto simp: degree_from_def edges_from_def dict_get_def)
  next
    case (Cons e graph)
    obtain s ts where e: "e = (s, ts)" by fastforce
    have m: "map_of (step acc e) u = (if s \<in> set valid \<and> u \<in> set valid \<and> u \<in> set ts
        then Some (dict_get acc u 0 + int (count (mset ts) u)) else map_of acc u)" for u
      by (simp add: step_def e count_updates)
    have dom: "\<forall>u. map_of (step acc e) u \<noteq> None \<longleftrightarrow> u \<in> set valid" using Cons.prems by (auto simp: m)
    have "c \<in> set valid \<Longrightarrow> dict_get (step acc e) c 0 = dict_get acc c 0 + (if s \<in> set valid then int (count (mset ts) c) else 0)"
      by (auto simp: dict_get_def m not_in_iff [symmetric] count_eq_zero_iff)
    then show ?case using Cons.IH [OF dom] by (auto simp: e degree_from_Cons)
  qed
  moreover have "\<forall>u. map_of (map (\<lambda>c. (c, 0 :: int)) valid) u \<noteq> None \<longleftrightarrow> u \<in> set valid"
    by (auto simp: map_of_eq_None_iff image_image)
  moreover have "dict_get (map (\<lambda>c. (c, 0 :: int)) valid) u 0 = 0" for u
    by (auto simp: dict_get_def map_of_map_restrict [where f = "\<lambda>_. 0"] restrict_map_def)
  ultimately show ?thesis by (simp add: restricted_degree_def flip: step_def)
qed

lemma restricted_degree_keys:
  assumes "distinct valid"
  shows "map fst (restricted_degree valid graph) = valid"
proof -
  have 1: "map fst (foldl (\<lambda>deg t. if t \<in> set valid then AList.update t (dict_get deg t (0 :: int) + 1) deg else deg) deg ts) = valid"
    if "map fst deg = valid" for deg ts
    using that
  proof (induction ts arbitrary: deg)
    case (Cons t ts)
    then show ?case by (auto simp: update_keys set_map [symmetric] simp del: set_map)
  qed simp
  have "map fst (foldl (\<lambda>deg (src, targets). if src \<in> set valid
      then foldl (\<lambda>deg t. if t \<in> set valid then AList.update t (dict_get deg t (0 :: int) + 1) deg else deg) deg targets else deg) deg graph) = valid"
    if "map fst deg = valid" for deg
    using that
  proof (induction graph arbitrary: deg)
    case (Cons e graph)
    then show ?case by (cases e) (simp add: 1)
  qed simp
  then show ?thesis by (simp add: restricted_degree_def comp_def)
qed

section \<open>The order\<close>

text \<open>Every concept comes after the concepts that support it.\<close>

definition parents_first :: "string list \<Rightarrow> (string, string list) dict \<Rightarrow> string list \<Rightarrow> bool" where
  "parents_first valid graph topo \<longleftrightarrow>
     distinct topo \<and> set topo \<subseteq> set valid \<and>
     (\<forall>i < length topo. \<forall>u. (u, topo ! i) \<in> supports valid graph \<longrightarrow> u \<in> set (take i topo))"

definition order_inv :: "string list \<Rightarrow> (string, string list) dict \<Rightarrow> (string, int) dict \<Rightarrow> string list \<Rightarrow> string list \<Rightarrow> bool" where
  "order_inv valid graph deg queue topo \<longleftrightarrow>
     (\<forall>c. map_of deg c = (if c \<in> set valid then Some (int (degree_from valid graph (set valid - set topo) c)) else None)) \<and>
     distinct queue \<and>
     set queue = {c \<in> set valid - set topo. degree_from valid graph (set valid - set topo) c = 0} \<and>
     parents_first valid graph topo"

lemma degree_from_0_iff:
  "finite S \<Longrightarrow> degree_from valid graph S c = 0 \<longleftrightarrow> (\<forall>u \<in> S. c \<notin> set (edges_from valid graph u))"
  by (auto simp: degree_from_def count_eq_zero_iff)

lemma degree_from_remove:
  assumes "finite S" "u \<in> S"
  shows "degree_from valid graph S c = count (mset (edges_from valid graph u)) c + degree_from valid graph (S - {u}) c"
  using assms by (simp add: degree_from_def sum.remove)

lemma parents_first_snoc:
  assumes "parents_first valid graph topo" "c \<in> set valid - set topo"
    and "degree_from valid graph (set valid - set topo) c = 0"
  shows "parents_first valid graph (topo @ [c])"
proof -
  have "u \<in> set topo" if "(u, c) \<in> supports valid graph" for u
    using that assms(3) by (auto simp: degree_from_0_iff supports_def)
  then show ?thesis using assms(1,2) by (auto simp: parents_first_def nth_append less_Suc_eq)
qed

lemma order_inv_step:
  assumes d: "distinct valid" and inv: "order_inv valid graph deg queue topo" and sorted: "sort queue = c # rest"
  shows "\<exists>deg' queue'. relax deg rest (edges_from valid graph c) = Inr (deg', queue') \<and>
    order_inv valid graph deg' queue' (topo @ [c])"
proof -
  define S where "S = set valid - set topo"
  have q: "distinct queue" "set queue = {c \<in> S. degree_from valid graph S c = 0}" and p: "parents_first valid graph topo"
    and deg: "map_of deg x = (if x \<in> set valid then Some (int (degree_from valid graph S x)) else None)" for x
    using inv by (auto simp: order_inv_def S_def)
  have perm: "set queue = insert c (set rest)" "distinct (c # rest)"
    using sorted q(1) by (metis list.simps(15) set_sort, metis distinct_sort)
  have c: "c \<in> S" "degree_from valid graph S c = 0" using perm(1) q(2) by auto
  have fin: "finite S" by (simp add: S_def)
  have S': "set valid - set (topo @ [c]) = S - {c}" by (auto simp: S_def)
  have rem: "degree_from valid graph S x = count (mset (edges_from valid graph c)) x + degree_from valid graph (S - {c}) x" for x
    by (rule degree_from_remove [OF fin c(1)])
  have "\<forall>x \<in> set (edges_from valid graph c). map_of deg x \<noteq> None"
    using edges_from_valid [of valid graph c] by (auto simp: deg)
  from relax_result [OF this, of rest] obtain deg' l where r: "relax deg rest (edges_from valid graph c) = Inr (deg', rest @ l)"
    "\<forall>x. map_of deg' x = map_option (\<lambda>n. n - int (count (mset (edges_from valid graph c)) x)) (map_of deg x)"
    "distinct l" "set l = {x. \<exists>n. map_of deg x = Some n \<and> 0 < n \<and> n \<le> int (count (mset (edges_from valid graph c)) x)}"
    by blast
  have l: "set l = {x \<in> set valid. 0 < degree_from valid graph S x \<and> degree_from valid graph (S - {c}) x = 0}"
    unfolding r(4) by (auto simp: deg rem)
  have in_S: "x \<in> S" if "x \<in> set valid" "0 < degree_from valid graph S x" for x
  proof (rule ccontr)
    assume "x \<notin> S"
    then have "x \<in> set topo" using that by (simp add: S_def)
    then obtain i where i: "i < length topo" "topo ! i = x" by (auto simp: in_set_conv_nth)
    from that(2) obtain u where "u \<in> S" "x \<in> set (edges_from valid graph u)"
      using degree_from_0_iff [OF fin, of valid graph x] by auto
    then have "u \<in> set (take i topo)" using p i by (auto simp: parents_first_def supports_def S_def)
    then show False using \<open>u \<in> S\<close> by (auto simp: S_def dest: in_set_takeD)
  qed
  have "set (rest @ l) = {x \<in> S - {c}. degree_from valid graph (S - {c}) x = 0}"
  proof -
    have "set rest = {x \<in> S - {c}. degree_from valid graph S x = 0}" using perm q(2) by auto
    moreover have "set l = {x \<in> S - {c}. 0 < degree_from valid graph S x \<and> degree_from valid graph (S - {c}) x = 0}"
      unfolding l using in_S c(2) by (auto simp: S_def)
    ultimately show ?thesis using rem by auto
  qed
  moreover have "distinct (rest @ l)"
  proof -
    have "set rest \<inter> set l = {}" using perm q(2) by (auto simp: l)
    then show ?thesis using perm(2) r(3) by auto
  qed
  moreover have "\<forall>x. map_of deg' x = (if x \<in> set valid then Some (int (degree_from valid graph (S - {c}) x)) else None)"
    using r(2) by (simp add: deg rem)
  moreover have "parents_first valid graph (topo @ [c])"
    using parents_first_snoc [OF p] c by (simp add: S_def)
  ultimately show ?thesis using r(1) unfolding order_inv_def S' by blast
qed

lemma propagation_order_result:
  assumes "distinct valid" "order_inv valid graph deg queue topo"
  shows "\<exists>topo'. propagation_order (restricted_adj valid graph) deg queue topo = Inr topo' \<and>
    parents_first valid graph topo' \<and> (\<forall>c \<in> set valid - set topo'. \<exists>u \<in> set valid - set topo'. (u, c) \<in> supports valid graph)"
  using assms
proof (induction "restricted_adj valid graph" deg queue topo rule: propagation_order.induct)
  case (1 deg queue topo)
  show ?case
  proof (cases "sort queue")
    case Nil
    then have "queue = []" by (metis set_empty set_sort)
    with 1(3) show ?thesis
      by (auto simp: propagation_order.simps [of _ deg] order_inv_def degree_from_0_iff supports_def)
  next
    case (Cons c rest)
    have "c \<in> set valid" using 1(3) Cons by (metis (no_types, lifting) DiffD1 list.set_intros(1) mem_Collect_eq order_inv_def set_sort)
    then have adj: "map_of (restricted_adj valid graph) c = Some (edges_from valid graph c)"
      by (simp add: restricted_adj_map_of [OF 1(2)])
    obtain deg' queue' where step: "relax deg rest (edges_from valid graph c) = Inr (deg', queue')"
      "order_inv valid graph deg' queue' (topo @ [c])" using order_inv_step [OF 1(2,3) Cons] by blast
    from 1(1) [OF Cons adj step(1) refl 1(2) step(2)] show ?thesis
      by (simp add: propagation_order.simps [of _ deg] Cons adj step(1))
  qed
qed

lemma order_inv_init:
  assumes "distinct valid"
  shows "order_inv valid graph (restricted_degree valid graph)
    (map fst (filter (\<lambda>(c, n). n = 0) (restricted_degree valid graph))) []"
proof -
  let ?deg = "restricted_degree valid graph"
  note m = restricted_degree_map_of [OF assms] and k = restricted_degree_keys [OF assms]
  have d: "distinct (map fst ?deg)" using k assms by simp
  have "distinct (map fst (filter (\<lambda>(c, n). n = 0) ?deg))" using d by (rule distinct_map_filter)
  moreover have "set (map fst (filter (\<lambda>(c, n). n = 0) ?deg)) = {c. map_of ?deg c = Some 0}"
    using d by (force simp: image_iff)
  ultimately show ?thesis by (auto simp: order_inv_def m parents_first_def)
qed

lemma parents_first_acyclic:
  assumes "parents_first valid graph topo" "set topo = set valid"
  shows "acyclic (supports valid graph)"
proof -
  define pos where "pos = (\<lambda>c. LEAST i. i < length topo \<and> topo ! i = c)"
  have pos: "pos c < length topo \<and> topo ! pos c = c" if "c \<in> set valid" for c
  proof -
    have "\<exists>i. i < length topo \<and> topo ! i = c" using that unfolding assms(2) [symmetric] in_set_conv_nth .
    then show ?thesis unfolding pos_def by (rule LeastI_ex)
  qed
  have "pos u < pos c" if "(u, c) \<in> supports valid graph" for u c
  proof -
    have uc: "u \<in> set valid" "c \<in> set valid" using that by (auto simp: supports_iff)
    then have "u \<in> set (take (pos c) topo)" using assms(1) that pos by (auto simp: parents_first_def)
    then obtain j where "j < pos c" "topo ! j = u" using pos [OF uc(2)] by (auto simp: in_set_conv_nth)
    moreover have "pos u = j"
      using calculation assms(1) pos [OF uc(1)] pos [OF uc(2)]
      by (intro nth_eq_iff_index_eq [THEN iffD1, of topo]) (auto simp: parents_first_def)
    ultimately show ?thesis by simp
  qed
  then have "supports valid graph \<subseteq> inv_image less_than pos" by (auto simp: inv_image_def)
  from wf_subset [OF wf_inv_image [OF wf_less_than] this] show ?thesis by (rule wf_acyclic)
qed

lemma propagation_order_correct:
  assumes "distinct valid"
  shows "\<exists>topo. propagation_order (restricted_adj valid graph) (restricted_degree valid graph)
      (map fst (filter (\<lambda>(c, n). n = 0) (restricted_degree valid graph))) [] = Inr topo \<and>
    (length topo = length valid \<longleftrightarrow> acyclic (supports valid graph)) \<and>
    (acyclic (supports valid graph) \<longrightarrow> parents_first valid graph topo \<and> set topo = set valid)"
proof -
  obtain topo where t: "propagation_order (restricted_adj valid graph) (restricted_degree valid graph)
      (map fst (filter (\<lambda>(c, n). n = 0) (restricted_degree valid graph))) [] = Inr topo"
    "parents_first valid graph topo" "\<forall>c \<in> set valid - set topo. \<exists>u \<in> set valid - set topo. (u, c) \<in> supports valid graph"
    using propagation_order_result [OF assms order_inv_init [OF assms, of graph]] by blast
  have all: "set topo = set valid" if "acyclic (supports valid graph)"
  proof (rule ccontr)
    assume "set topo \<noteq> set valid"
    then have "set valid - set topo \<noteq> {}" using t(2) by (auto simp: parents_first_def)
    moreover have "wf (supports valid graph)" using that finite_supports finite_acyclic_wf by blast
    ultimately obtain c where "c \<in> set valid - set topo" "\<And>u. (u, c) \<in> supports valid graph \<Longrightarrow> u \<notin> set valid - set topo"
      by (metis ex_in_conv wf_eq_minimal)
    then show False using t(3) by blast
  qed
  have "length topo = length valid \<longleftrightarrow> set topo = set valid"
    using t(2) assms unfolding parents_first_def
    by (metis card_subset_eq distinct_card finite_set)
  then show ?thesis using t(1,2) all parents_first_acyclic [OF t(2)] by blast
qed

section \<open>The store of beliefs\<close>

lemma belief_index_first:
  assumes "map_of (belief_index beliefs concepts) c = Some i"
  shows "i < length beliefs" "first_concept concepts (blf_belief_id (beliefs ! i)) = Some c"
proof -
  have "i < length beliefs \<and> first_concept concepts (blf_belief_id (beliefs ! i)) = Some c"
    if "map_of (foldl (\<lambda>d (i, b). case first_concept concepts (blf_belief_id b) of None \<Rightarrow> d | Some cid \<Rightarrow> AList.update cid i d) d ps) c = Some i"
      and "map_of d c = Some i \<longrightarrow> i < length beliefs \<and> first_concept concepts (blf_belief_id (beliefs ! i)) = Some c"
      and "\<And>j b. (j, b) \<in> set ps \<Longrightarrow> j < length beliefs \<and> b = beliefs ! j" for d ps
    using that
  proof (induction ps arbitrary: d)
    case (Cons p ps)
    obtain j b where p: "p = (j, b)" by fastforce
    have b: "j < length beliefs" "b = beliefs ! j" using Cons.prems(3) [of j b] by (auto simp: p)
    show ?case
      using Cons.prems(1) unfolding p foldl.simps prod.case
      by (rule Cons.IH) (use Cons.prems(2,3) b in \<open>auto split: option.splits if_splits\<close>)
  qed simp
  moreover have "j < length beliefs \<and> b = beliefs ! j" if "(j, b) \<in> set (zip [0..<length beliefs] beliefs)" for j b
    using that by (auto simp: set_zip)
  ultimately show "i < length beliefs" "first_concept concepts (blf_belief_id (beliefs ! i)) = Some c"
    using assms unfolding belief_index_def by fastforce+
qed

lemma first_concept_valid: "first_concept concepts b = Some c \<Longrightarrow> c \<in> set (map fst concepts)"
  by (force simp: first_concept_def find_Some_iff in_set_conv_nth)

text \<open>What the traversal needs of the dictionary: positions of the list, each for one concept.\<close>

locale belief_store =
  fixes idx :: "(string, nat) dict" and n :: nat
  assumes bound: "map_of idx c = Some i \<Longrightarrow> i < n"
    and unshared: "map_of idx c = Some i \<Longrightarrow> map_of idx c' = Some i \<Longrightarrow> c = c'"
begin

lemma penalize_children:
  assumes "length bs = n" and "map_of idx c = Some j"
  shows "length (foldl (penalize_child idx p) bs cs) = n"
    and "foldl (penalize_child idx p) bs cs ! j = (if c \<in> set cs then penalize p (bs ! j) else bs ! j)"
proof -
  have idem: "penalize p (penalize p b) = penalize p b" for b by (simp add: penalize_def Let_def)
  have "length (foldl (penalize_child idx p) bs cs) = n \<and>
      foldl (penalize_child idx p) bs cs ! j = (if c \<in> set cs then penalize p (bs ! j) else bs ! j)"
    using assms(1)
  proof (induction cs arbitrary: bs)
    case (Cons d cs)
    define bs' where "bs' = penalize_child idx p bs d"
    have l: "length bs' = n" using Cons.prems by (simp add: bs'_def penalize_child_def split: option.splits)
    have "bs' ! j = (if d = c then penalize p (bs ! j) else bs ! j)"
    proof (cases "map_of idx d")
      case None
      then show ?thesis using assms(2) by (auto simp: bs'_def penalize_child_def)
    next
      case (Some k)
      have "k = j \<longleftrightarrow> d = c" using Some assms(2) unshared [of d k c] by auto
      then show ?thesis using Some bound [OF Some] Cons.prems by (auto simp: bs'_def penalize_child_def nth_list_update)
    qed
    then show ?case using Cons.IH [OF l] idem by (simp add: bs'_def)
  qed simp
  then show "length (foldl (penalize_child idx p) bs cs) = n"
    and "foldl (penalize_child idx p) bs cs ! j = (if c \<in> set cs then penalize p (bs ! j) else bs ! j)" by simp_all
qed

lemma visit_parent_nth:
  assumes "length bs = n" and "map_of idx c = Some j"
  shows "length (visit_parent config idx adj bs q) = n"
    and "visit_parent config idx adj bs q ! j =
      (case map_of idx q of
         None \<Rightarrow> bs ! j
       | Some i \<Rightarrow> if c \<in> set (dict_get adj q []) then penalize (penalty_of config (bs ! i)) (bs ! j) else bs ! j)"
  using penalize_children [OF assms] assms by (auto simp: visit_parent_def split: option.splits)

text \<open>
  The state of the store when the concepts \<open>ds\<close> have been visited: each belief has the least adjustment that
  its visited parents impose, with the confidence they have now.
\<close>

definition settled :: "ReasoningConfig \<Rightarrow> (string, string list) dict \<Rightarrow> Belief list \<Rightarrow> string set \<Rightarrow> Belief list \<Rightarrow> bool" where
  "settled config adj start ds bs \<longleftrightarrow> length bs = n \<and>
     (\<forall>c j. map_of idx c = Some j \<longrightarrow>
        (let P = {q \<in> ds. map_of idx q \<noteq> None \<and> c \<in> set (dict_get adj q [])}
         in blf_local_confidence (bs ! j) = blf_local_confidence (start ! j) \<and>
            blf_propagated_adjustment (bs ! j) = Min (insert (blf_propagated_adjustment (start ! j))
              ((\<lambda>q. penalty_of config (bs ! the (map_of idx q))) ` P)) \<and>
            (if P = {} then bs ! j = start ! j
             else blf_final_confidence (bs ! j) = clamp01 (fadd (blf_local_confidence (start ! j)) (blf_propagated_adjustment (bs ! j))))))"

lemma settled_visit:
  assumes "settled config adj start ds bs" and "finite ds" and "q \<notin> ds"
    and children: "\<And>c. c \<in> set (dict_get adj q []) \<Longrightarrow> c \<notin> insert q ds"
  shows "settled config adj start (insert q ds) (visit_parent config idx adj bs q)"
proof -
  define bs' where "bs' = visit_parent config idx adj bs q"
  have len: "length bs = n" using assms(1) by (simp add: settled_def)
  have nth: "length bs' = n" "bs' ! j = (case map_of idx q of None \<Rightarrow> bs ! j
       | Some i \<Rightarrow> if c \<in> set (dict_get adj q []) then penalize (penalty_of config (bs ! i)) (bs ! j) else bs ! j)"
    if "map_of idx c = Some j" for c j
    using visit_parent_nth [OF len that] by (simp_all add: bs'_def)
  have lb: "length bs' = n"
    using nth(1) len by (cases "map_of idx q") (auto simp: bs'_def visit_parent_def)
  have same: "bs' ! the (map_of idx r) = bs ! the (map_of idx r)" if r: "r \<in> insert q ds" "map_of idx r \<noteq> None" for r
    using r children nth(2) by (auto split: option.splits)
  show ?thesis unfolding settled_def bs'_def [symmetric]
  proof (intro conjI allI impI)
    show "length bs' = n" by (rule lb)
    fix c j assume cj: "map_of idx c = Some j"
    define P where "P = {r \<in> ds. map_of idx r \<noteq> None \<and> c \<in> set (dict_get adj r [])}"
    define P' where "P' = {r \<in> insert q ds. map_of idx r \<noteq> None \<and> c \<in> set (dict_get adj r [])}"
    have fin: "finite P" using assms(2) by (simp add: P_def)
    have old: "blf_local_confidence (bs ! j) = blf_local_confidence (start ! j)"
      "blf_propagated_adjustment (bs ! j) = Min (insert (blf_propagated_adjustment (start ! j)) ((\<lambda>r. penalty_of config (bs ! the (map_of idx r))) ` P))"
      "P = {} \<Longrightarrow> bs ! j = start ! j"
      "P \<noteq> {} \<Longrightarrow> blf_final_confidence (bs ! j) = clamp01 (fadd (blf_local_confidence (start ! j)) (blf_propagated_adjustment (bs ! j)))"
      using assms(1) cj by (auto simp: settled_def Let_def P_def split: if_splits)
    have img: "(\<lambda>r. penalty_of config (bs' ! the (map_of idx r))) ` P' = (\<lambda>r. penalty_of config (bs ! the (map_of idx r))) ` P'"
      using same by (intro image_cong) (auto simp: P'_def)
    show "let P = {r \<in> insert q ds. map_of idx r \<noteq> None \<and> c \<in> set (dict_get adj r [])}
      in blf_local_confidence (bs' ! j) = blf_local_confidence (start ! j) \<and>
         blf_propagated_adjustment (bs' ! j) = Min (insert (blf_propagated_adjustment (start ! j)) ((\<lambda>r. penalty_of config (bs' ! the (map_of idx r))) ` P)) \<and>
         (if P = {} then bs' ! j = start ! j
          else blf_final_confidence (bs' ! j) = clamp01 (fadd (blf_local_confidence (start ! j)) (blf_propagated_adjustment (bs' ! j))))"
    proof (cases "map_of idx q \<noteq> None \<and> c \<in> set (dict_get adj q [])")
      case True
      then obtain i where i: "map_of idx q = Some i" by blast
      have P': "P' = insert q P" using True by (auto simp: P'_def P_def)
      have b: "bs' ! j = penalize (penalty_of config (bs ! i)) (bs ! j)" using nth(2) [OF cj] True i by simp
      have "Min (insert (blf_propagated_adjustment (start ! j)) ((\<lambda>r. penalty_of config (bs ! the (map_of idx r))) ` P'))
          = min (blf_propagated_adjustment (bs ! j)) (penalty_of config (bs ! i))"
        using fin i unfolding P' old(2) image_insert insert_commute [of "blf_propagated_adjustment (start ! j)"]
        by (subst Min_insert) (auto simp: min.commute)
      then show ?thesis unfolding Let_def P'_def [symmetric] img using old(1) P'
        by (simp add: b penalize_def Let_def)
    next
      case False
      then have P': "P' = P" by (auto simp: P'_def P_def)
      have b: "bs' ! j = bs ! j" using nth(2) [OF cj] False by (auto split: option.splits)
      show ?thesis unfolding Let_def P'_def [symmetric] img unfolding P' b using old by auto
    qed
  qed
qed

lemma settled_fold:
  assumes "parents_first valid graph topo" and "distinct valid" and "length start = n"
  shows "settled config (restricted_adj valid graph) start (set topo)
    (foldl (visit_parent config idx (restricted_adj valid graph)) start topo)"
proof -
  have "settled config (restricted_adj valid graph) start (set (take k topo))
      (foldl (visit_parent config idx (restricted_adj valid graph)) start (take k topo))" if "k \<le> length topo" for k
    using that
  proof (induction k)
    case 0
    then show ?case by (simp add: settled_def assms(3))
  next
    case (Suc k)
    define q where "q = topo ! k"
    have d: "distinct topo" and valid: "set topo \<subseteq> set valid"
      and first: "\<And>i u. i < length topo \<Longrightarrow> (u, topo ! i) \<in> supports valid graph \<Longrightarrow> u \<in> set (take i topo)"
      using assms(1) by (auto simp: parents_first_def)
    have k: "k < length topo" using Suc.prems by simp
    have t: "take (Suc k) topo = take k topo @ [q]" using k by (simp add: take_Suc_conv_app_nth q_def)
    have q: "q \<notin> set (take k topo)" using d k t by (metis distinct_take not_distinct_conv_prefix)
    have qv: "q \<in> set valid" using valid k by (auto simp: q_def)
    have "c \<notin> insert q (set (take k topo))" if c: "c \<in> set (dict_get (restricted_adj valid graph) q [])" for c
    proof
      assume "c \<in> insert q (set (take k topo))"
      then have "c \<in> set (take (Suc k) topo)" using t by simp
      then obtain i where i: "i < Suc k" "c = topo ! i" by (auto simp: in_set_conv_nth)
      have "(q, c) \<in> supports valid graph" using c qv by (simp add: dict_get_def restricted_adj_map_of [OF assms(2)] supports_def)
      then have "q \<in> set (take i topo)" using first i k by auto
      moreover have "set (take i topo) \<subseteq> set (take k topo)" using i by (simp add: set_take_subset_set_take)
      ultimately show False using q by blast
    qed
    with settled_visit [OF Suc.IH _ q] k show ?case by (simp add: t)
  qed
  from this [of "length topo"] show ?thesis by simp
qed

end

interpretation beliefs: belief_store "belief_index beliefs concepts" "length beliefs" for beliefs concepts
proof
  show "map_of (belief_index beliefs concepts) c = Some i \<Longrightarrow> i < length beliefs" for c i
    by (rule belief_index_first(1))
  show "map_of (belief_index beliefs concepts) c = Some i \<Longrightarrow> map_of (belief_index beliefs concepts) c' = Some i \<Longrightarrow> c = c'" for c c' i
    using belief_index_first(2) [of beliefs concepts c i] belief_index_first(2) [of beliefs concepts c' i] by simp
qed

section \<open>The result\<close>

abbreviation without_dependents :: "Belief \<Rightarrow> Belief" where
  "without_dependents b \<equiv> b\<lparr>blf_dependent_belief_ids := []\<rparr>"

lemma add_dependents_rest: "without_dependents (foldl (add_dependent idx bs) b ts) = without_dependents b"
proof (induction ts arbitrary: b)
  case (Cons t ts)
  have "without_dependents (add_dependent idx bs b t) = without_dependents b"
    by (cases "map_of idx t") (simp_all add: add_dependent_def Let_def)
  then show ?case by (simp add: Cons)
qed simp

lemma set_dependents_rest: "map without_dependents (foldl (set_dependents idx) bs es) = map without_dependents bs"
proof (induction es arbitrary: bs)
  case (Cons e es)
  have "map without_dependents (set_dependents idx bs e) = map without_dependents bs"
  proof (cases e)
    case (Pair src targets)
    have "without_dependents (b\<lparr>blf_dependent_belief_ids := ds\<rparr>) = without_dependents b" for b ds by simp
    then show ?thesis
      by (cases "map_of idx src"; cases "the (map_of idx src) < length bs")
        (simp_all add: set_dependents_def Pair Let_def map_update add_dependents_rest list_update_same_conv list_update_beyond)
  qed
  then show ?case by (simp add: Cons)
qed simp

lemma set_dependents_fields:
  assumes "j < length bs"
  shows "blf_local_confidence (foldl (set_dependents idx) bs es ! j) = blf_local_confidence (bs ! j)"
    "blf_propagated_adjustment (foldl (set_dependents idx) bs es ! j) = blf_propagated_adjustment (bs ! j)"
    "blf_final_confidence (foldl (set_dependents idx) bs es ! j) = blf_final_confidence (bs ! j)"
    "length (foldl (set_dependents idx) bs es) = length bs"
proof -
  let ?bs = "foldl (set_dependents idx) bs es"
  show l: "length ?bs = length bs" using set_dependents_rest [of idx bs es] by (metis length_map)
  have "without_dependents (?bs ! j) = without_dependents (bs ! j)"
    using set_dependents_rest [of idx bs es] assms l by (metis nth_map)
  then show "blf_local_confidence (?bs ! j) = blf_local_confidence (bs ! j)"
    "blf_propagated_adjustment (?bs ! j) = blf_propagated_adjustment (bs ! j)"
    "blf_final_confidence (?bs ! j) = blf_final_confidence (bs ! j)"
    by (metis Belief.select_convs(4-6) Belief.surjective Belief.update_convs(9))+
qed

text \<open>Property C8: propagation solves its equations.  It never raises.  A support graph with a cycle among the known
  concepts leaves the beliefs as they are.  Without a cycle, a belief with no supporting belief keeps its
  confidence, and any other belief gets the least of its adjustment and of the penalties of the beliefs that
  support it, each penalty computed from the final confidence of the supporting belief, and as its confidence the
  sum of its local confidence and this adjustment, cut to the range from 0 to 1.\<close>

theorem propagation_solves_equations:
  assumes "distinct (map fst concepts)"
  shows "\<exists>R. propagate_beliefs beliefs concepts graph config = Inr R \<and> length R = length beliefs \<and>
    (\<not> acyclic (supports (map fst concepts) graph) \<longrightarrow> R = beliefs) \<and>
    (acyclic (supports (map fst concepts) graph) \<longrightarrow>
      (\<forall>c j. map_of (belief_index beliefs concepts) c = Some j \<longrightarrow>
        (let P = {q. (q, c) \<in> supports (map fst concepts) graph \<and> map_of (belief_index beliefs concepts) q \<noteq> None}
         in blf_local_confidence (R ! j) = blf_local_confidence (beliefs ! j) \<and>
            (P = {} \<longrightarrow> blf_final_confidence (R ! j) = blf_final_confidence (beliefs ! j)) \<and>
            (P \<noteq> {} \<longrightarrow>
              blf_propagated_adjustment (R ! j) = Min (insert (blf_propagated_adjustment (beliefs ! j))
                ((\<lambda>q. penalty_of config (R ! the (map_of (belief_index beliefs concepts) q))) ` P)) \<and>
              blf_final_confidence (R ! j) = clamp01 (fadd (blf_local_confidence (beliefs ! j)) (blf_propagated_adjustment (R ! j)))))))"
proof -
  define valid where "valid = map fst concepts"
  define idx where "idx = belief_index beliefs concepts"
  define adj where "adj = restricted_adj valid graph"
  define start where "start = foldl (set_dependents idx) beliefs adj"
  have d: "distinct valid" using assms by (simp add: valid_def)
  obtain topo where t: "propagation_order adj (restricted_degree valid graph)
      (map fst (filter (\<lambda>(c, n). n = 0) (restricted_degree valid graph))) [] = Inr topo"
    "length topo = length valid \<longleftrightarrow> acyclic (supports valid graph)"
    "acyclic (supports valid graph) \<Longrightarrow> parents_first valid graph topo \<and> set topo = set valid"
    using propagation_order_correct [OF d, of graph] by (auto simp: adj_def)
  define R where "R = (if acyclic (supports valid graph) then foldl (visit_parent config idx adj) start topo else beliefs)"
  have res: "propagate_beliefs beliefs concepts graph config = Inr R"
    using t by (simp add: propagate_beliefs_def Let_def valid_def [symmetric] adj_def [symmetric] idx_def [symmetric] start_def R_def)
  have ls: "length start = length beliefs"
    using set_dependents_rest [of idx beliefs adj] by (metis length_map start_def)
  have S: "beliefs.settled beliefs concepts config adj start (set topo) R" if "acyclic (supports valid graph)"
    using beliefs.settled_fold [OF conjunct1 [OF t(3) [OF that]] d ls] that by (simp add: R_def adj_def idx_def)
  have P: "{q \<in> set topo. map_of idx q \<noteq> None \<and> c \<in> set (dict_get adj q [])} = {q. (q, c) \<in> supports valid graph \<and> map_of idx q \<noteq> None}"
    if "acyclic (supports valid graph)" for c
    using t(3) [OF that] by (auto simp: supports_def adj_def dict_get_def restricted_adj_map_of [OF d])
  have len: "length R = length beliefs" using S by (cases "acyclic (supports valid graph)") (simp_all add: beliefs.settled_def R_def)
  show ?thesis unfolding valid_def [symmetric] idx_def [symmetric]
  proof (intro exI [of _ R] conjI res len impI allI)
    assume "\<not> acyclic (supports valid graph)"
    then show "R = beliefs" by (simp add: R_def)
  next
    fix c j assume a: "acyclic (supports valid graph)" and cj: "map_of idx c = Some j"
    have j: "j < length beliefs" using cj beliefs.bound by (simp add: idx_def)
    note f = set_dependents_fields [OF j, of idx adj, folded start_def]
    show "let P = {q. (q, c) \<in> supports valid graph \<and> map_of idx q \<noteq> None}
      in blf_local_confidence (R ! j) = blf_local_confidence (beliefs ! j) \<and>
         (P = {} \<longrightarrow> blf_final_confidence (R ! j) = blf_final_confidence (beliefs ! j)) \<and>
         (P \<noteq> {} \<longrightarrow>
           blf_propagated_adjustment (R ! j) = Min (insert (blf_propagated_adjustment (beliefs ! j))
             ((\<lambda>q. penalty_of config (R ! the (map_of idx q))) ` P)) \<and>
           blf_final_confidence (R ! j) = clamp01 (fadd (blf_local_confidence (beliefs ! j)) (blf_propagated_adjustment (R ! j))))"
      using S [OF a, unfolded beliefs.settled_def] cj unfolding idx_def [symmetric] P [OF a] f(1,2) Let_def
      by (auto simp: f split: if_splits)
  qed
qed

definition sample_belief :: "string \<Rightarrow> pyfloat \<Rightarrow> Belief" where
  "sample_belief i conf = \<lparr>blf_belief_id = i, blf_title = i, blf_content = i, blf_local_confidence = conf,
     blf_propagated_adjustment = 0, blf_final_confidence = conf,
     blf_assessment = \<lparr>eas_base_confidence = conf, eas_agreement_score = 0, eas_corroboration_score = 0,
       eas_contradiction_penalty = 0, eas_staleness_penalty = 0, eas_propagated_adjustment = 0,
       eas_local_confidence = conf, eas_final_confidence = conf\<rparr>,
     blf_supporting_evidence = [''m1''], blf_dependent_belief_ids = []\<rparr>"

theorem propagation_solves_equations_witness:
  "\<exists>R. propagate_beliefs [sample_belief ''B1'' (1 / 2), sample_belief ''B2'' 1] [(''c1'', ''B1''), (''c2'', ''B2'')]
      [(''c1'', [''c2''])] default_reasoning = Inr R \<and>
    blf_final_confidence (R ! 1) = clamp01 (fadd 1 (fmul (- 1 / 2) (flt (8 / 10))))"
proof -
  let ?bs = "[sample_belief ''B1'' (1 / 2), sample_belief ''B2'' 1]" and ?cs = "[(''c1'', ''B1''), (''c2'', ''B2'')]"
  have idx: "belief_index ?bs ?cs = [(''c1'', 0), (''c2'', 1)]"
    by (simp add: belief_index_def first_concept_def sample_belief_def)
  have E: "supports (map fst ?cs) [(''c1'', [''c2''])] = {(''c1'', ''c2'')}" by (auto simp: supports_iff)
  have "acyclic ({} :: (string \<times> string) set)" by (simp add: acyclic_def)
  then have ac: "acyclic {(''c1'', ''c2'')}" by simp
  have half: "flt (1 / 2 - 1) = - 1 / 2" by code_simp
  obtain R where R: "propagate_beliefs ?bs ?cs [(''c1'', [''c2''])] default_reasoning = Inr R"
    "\<forall>c j. map_of (belief_index ?bs ?cs) c = Some j \<longrightarrow>
        (let P = {q. (q, c) \<in> supports (map fst ?cs) [(''c1'', [''c2''])] \<and> map_of (belief_index ?bs ?cs) q \<noteq> None}
         in blf_local_confidence (R ! j) = blf_local_confidence (?bs ! j) \<and>
            (P = {} \<longrightarrow> blf_final_confidence (R ! j) = blf_final_confidence (?bs ! j)) \<and>
            (P \<noteq> {} \<longrightarrow> blf_propagated_adjustment (R ! j) = Min (insert (blf_propagated_adjustment (?bs ! j))
                ((\<lambda>q. penalty_of default_reasoning (R ! the (map_of (belief_index ?bs ?cs) q))) ` P)) \<and>
              blf_final_confidence (R ! j) = clamp01 (fadd (blf_local_confidence (?bs ! j)) (blf_propagated_adjustment (R ! j)))))"
    using propagation_solves_equations [of ?cs ?bs "[(''c1'', [''c2''])]" default_reasoning] ac unfolding E by auto
  have P: "{q. (q, c) \<in> {(''c1'', ''c2'')} \<and> map_of [(''c1'', 0), (''c2'', 1)] q \<noteq> None} = (if c = ''c2'' then {''c1''} else {})" for c
    by auto
  note eqs = R(2) [unfolded idx E P, rule_format]
  have h0: "blf_final_confidence (R ! 0) = 1 / 2" using eqs [of "''c1''" 0] by (simp add: sample_belief_def Let_def)
  have att: "rcf_attenuation default_reasoning = flt (8 / 10)" by (simp add: default_reasoning_def)
  have pen: "penalty_of default_reasoning (R ! 0) = fmul (- 1 / 2) (flt (8 / 10))"
    unfolding penalty_of_def fsub_def h0 half att ..
  have neg: "fmul (- 1 / 2) (flt (8 / 10)) \<le> 0" by code_simp
  have "blf_propagated_adjustment (R ! 1) = fmul (- 1 / 2) (flt (8 / 10))"
    using eqs [of "''c2''" 1] neg unfolding pen [symmetric] by (simp add: sample_belief_def Let_def)
  moreover have "blf_final_confidence (R ! 1) = clamp01 (fadd 1 (blf_propagated_adjustment (R ! 1)))"
    using eqs [of "''c2''" 1] by (simp add: sample_belief_def Let_def)
  ultimately show ?thesis using R(1) by metis
qed

end
