(* ===== verification/Decisions.thy ===== *)
theory Decisions
  imports BeliefPropagation
begin

text \<open>
  Properties of the reasoning pipeline as a whole, from knowledge states to decisions: the range of
  confidences, which priorities and categories can occur, what the gate admits, when a report cannot be
  built, and that the order of the states does not matter.
\<close>

section \<open>Confidences\<close>

text \<open>What holds of every belief from its construction on.\<close>

definition belief_ok :: "Belief \<Rightarrow> bool" where
  "belief_ok b \<longleftrightarrow>
     0 \<le> blf_local_confidence b \<and> blf_local_confidence b \<le> 1 \<and> is_float (blf_local_confidence b) \<and>
     blf_propagated_adjustment b \<le> 0 \<and> 0 \<le> blf_final_confidence b \<and> blf_final_confidence b \<le> blf_local_confidence b \<and>
     0 \<le> eas_corroboration_score (blf_assessment b) \<and> eas_corroboration_score (blf_assessment b) \<le> flt (2 / 10) \<and>
     0 \<le> eas_agreement_score (blf_assessment b) \<and> eas_agreement_score (blf_assessment b) \<le> flt (2 / 10)"

lemma belief_of_ok: "belief_ok (belief_of h config b)"
proof -
  have "0 \<le> flt (2 / 10)" by (simp add: flt_nonneg)
  then show ?thesis
    by (simp add: belief_ok_def belief_of_def belief_construct_def assess_def Let_def)
qed

lemma penalize_ok:
  assumes "belief_ok b"
  shows "belief_ok (penalize p b)"
proof -
  have l: "0 \<le> blf_local_confidence b" "blf_local_confidence b \<le> 1" "is_float (blf_local_confidence b)" and a: "blf_propagated_adjustment b \<le> 0"
    using assms by (simp_all add: belief_ok_def)
  define adj where "adj = min (blf_propagated_adjustment b) p"
  have "adj \<le> 0" using a by (simp add: adj_def min_def)
  then have "fadd (blf_local_confidence b) adj \<le> blf_local_confidence b"
    unfolding fadd_def using l by (intro flt_le) simp_all
  then have "clamp01 (fadd (blf_local_confidence b) adj) \<le> blf_local_confidence b"
    using l by (simp add: clamp01_def)
  then show ?thesis using assms \<open>adj \<le> 0\<close> by (simp add: belief_ok_def penalize_def Let_def adj_def)
qed

text \<open>A property of beliefs that is kept by penalties and does not read the dependents is kept by propagation.\<close>

lemma propagate_preserves:
  assumes "propagate_beliefs beliefs concepts graph config = Inr R"
    and "\<And>b. b \<in> set beliefs \<Longrightarrow> Q b"
    and "\<And>b p. Q b \<Longrightarrow> Q (penalize p b)"
    and "\<And>b ds. Q (b\<lparr>blf_dependent_belief_ids := ds\<rparr>) \<longleftrightarrow> Q b"
  shows "\<forall>b \<in> set R. Q b"
proof -
  define idx where "idx = belief_index beliefs concepts"
  have idx: "map_of idx c = Some i \<Longrightarrow> i < length beliefs" for c i unfolding idx_def by (rule belief_index_first(1))
  have upd: "\<forall>b \<in> set (bs[i := b]). Q b" if "\<forall>b \<in> set bs. Q b" "Q b" for bs i b
    using that by (auto dest: subsetD [OF set_update_subset_insert])
  define ok where "ok = (\<lambda>bs. length bs = length beliefs \<and> (\<forall>b \<in> set bs. Q b))"
  have upd_ok: "ok (bs[i := b])" if "ok bs" "Q b" for bs i b
    using upd [of bs b i] that by (simp add: ok_def)
  have dep: "ok (set_dependents idx bs e)" if bs: "ok bs" for bs e
  proof (cases e)
    case (Pair src targets)
    show ?thesis
    proof (cases "map_of idx src")
      case (Some i)
      define b where "b = foldl (add_dependent idx bs) (bs ! i) targets"
      have "Q (bs ! i)" using bs idx [OF Some] by (simp add: ok_def)
      then have "Q b" using assms(4) add_dependents_rest [of idx bs "bs ! i" targets] unfolding b_def by metis
      then have "Q (b\<lparr>blf_dependent_belief_ids := sort (blf_dependent_belief_ids b)\<rparr>)" using assms(4) by simp
      then have "ok (bs[i := b\<lparr>blf_dependent_belief_ids := sort (blf_dependent_belief_ids b)\<rparr>])" by (rule upd_ok [OF bs])
      then show ?thesis by (simp add: Pair set_dependents_def Some Let_def b_def)
    qed (use bs in \<open>simp add: Pair set_dependents_def\<close>)
  qed
  have child: "ok (penalize_child idx p bs c)" if bs: "ok bs" for bs p c
  proof (cases "map_of idx c")
    case (Some j)
    then have "Q (penalize p (bs ! j))" using bs idx assms(3) by (simp add: ok_def)
    then show ?thesis using upd_ok [OF bs] by (simp add: penalize_child_def Some)
  qed (use bs in \<open>simp add: penalize_child_def\<close>)
  have visit: "ok (visit_parent config idx adj bs q)" if "ok bs" for adj bs q
  proof (cases "map_of idx q")
    case (Some i)
    show ?thesis using foldl_invariant [of ok, OF that child] by (simp add: visit_parent_def Some)
  qed (use that in \<open>simp add: visit_parent_def\<close>)
  have "ok beliefs" using assms(2) by (simp add: ok_def)
  then have start: "ok (foldl (set_dependents idx) beliefs es)" for es by (rule foldl_invariant) (rule dep)
  have all: "ok (foldl (visit_parent config idx adj) (foldl (set_dependents idx) beliefs es) ts)" for adj es ts
    by (rule foldl_invariant [of ok, OF start]) (rule visit)
  obtain topo where "R = beliefs \<or>
      R = foldl (visit_parent config idx (restricted_adj (map fst concepts) graph))
        (foldl (set_dependents idx) beliefs (restricted_adj (map fst concepts) graph)) topo"
    using assms(1) unfolding propagate_beliefs_def Let_def idx_def [symmetric] rbind_eq_Inr by (metis Inr_inject)
  then have "ok R" using all \<open>ok beliefs\<close> by metis
  then show ?thesis by (simp add: ok_def)
qed

lemma report_build_Inr:
  assumes "report_build beliefs contradictions config = Inr rep"
  shows "rrp_beliefs rep = beliefs" "rrp_contradictions rep = contradictions"
  using assms by (auto simp: report_build_def)

lemma reason_Inr:
  assumes "reason h parse now nt states suppressed config = Inr rep"
  shows "\<exists>beliefs concepts. propagate_beliefs (map (belief_of h config) (aggregate parse now states)) concepts (merged_support states) config = Inr beliefs \<and>
    report_build beliefs (contradiction_detect h (temp_records nt states) suppressed) config = Inr rep \<and>
    rrp_beliefs rep = beliefs \<and> rrp_contradictions rep = contradiction_detect h (temp_records nt states) suppressed"
proof -
  define concepts where "concepts = foldl (\<lambda>d b. AList.update (evb_concept_id b) (blf_belief_id (belief_of h config b)) d) [] (aggregate parse now states)"
  from assms obtain beliefs where b: "propagate_beliefs (map (belief_of h config) (aggregate parse now states)) concepts (merged_support states) config = Inr beliefs"
    "report_build beliefs (contradiction_detect h (temp_records nt states) suppressed) config = Inr rep"
    unfolding reason_def Let_def concepts_def by auto
  with report_build_Inr [OF b(2)] show ?thesis by blast
qed

lemma reason_beliefs_ok:
  assumes "reason h parse now nt states suppressed config = Inr rep" and "b \<in> set (rrp_beliefs rep)"
  shows "belief_ok b"
proof -
  obtain beliefs concepts where r: "propagate_beliefs (map (belief_of h config) (aggregate parse now states)) concepts (merged_support states) config = Inr beliefs"
    "rrp_beliefs rep = beliefs" using reason_Inr [OF assms(1)] by blast
  have "\<forall>b \<in> set beliefs. belief_ok b"
  proof (rule propagate_preserves [OF r(1), where Q = belief_ok])
    show "belief_ok (b\<lparr>blf_dependent_belief_ids := ds\<rparr>) \<longleftrightarrow> belief_ok b" for b ds by (simp add: belief_ok_def)
  qed (auto simp: belief_of_ok penalize_ok)
  with assms(2) r(2) show ?thesis by simp
qed

text \<open>Property C11: confidences stay in range.  Whatever the knowledge states, the weights and the attenuation are,
  every belief of a report has a final confidence between 0 and its local confidence, which is at most 1, and
  propagation only lowers it: the adjustment is never positive.\<close>

theorem confidences_in_range:
  assumes "reason h parse now nt states suppressed config = Inr rep"
  shows "\<forall>b \<in> set (rrp_beliefs rep). 0 \<le> blf_final_confidence b \<and> blf_final_confidence b \<le> blf_local_confidence b \<and>
    blf_local_confidence b \<le> 1 \<and> blf_propagated_adjustment b \<le> 0"
  using reason_beliefs_ok [OF assms] by (simp add: belief_ok_def)

definition sample_state :: "string \<Rightarrow> KnowledgeObject list \<Rightarrow> KnowledgeState" where
  "sample_state p ks = \<lparr>kst_project_id = p, kst_compiled_at = ''t'', kst_projection_version = ''1.0'', kst_active_knowledge = ks,
     kst_stale_knowledge = [], kst_superseded_knowledge = [], kst_proposed = [], kst_validated = [], kst_invariants = ks,
     kst_conflicted = [], kst_tombstoned = [], kst_conflict_queue = [], kst_unresolved_count = 0, kst_derivation_chains = [],
     kst_support_graph = [], kst_health = None, kst_provenance = []\<rparr>"

definition sample_now :: datetime where
  "sample_now = \<lparr>dt_year = 2026, dt_month = 1, dt_day = 1, dt_hour = 0, dt_minute = 0, dt_second = 0, dt_microsecond = 0, dt_tzinfo = Some 0\<rparr>"

section \<open>When a report cannot be built\<close>

lemma count_belief_Inl:
  "count_belief cs c b = Inl e \<longleftrightarrow> e = IndexError \<and> (\<exists>f \<in> set cs. \<not> fnd_suppressed f) \<and> blf_supporting_evidence b = []"
proof -
  have "has_contradiction cs b = Inl e \<longleftrightarrow> e = IndexError \<and> (\<exists>f \<in> set cs. \<not> fnd_suppressed f) \<and> blf_supporting_evidence b = []"
    by (auto simp: has_contradiction_def Let_def filter_empty_conv split: list.splits)
  then show ?thesis by (simp add: count_belief_def rbind_eq_Inl)
qed

lemma count_beliefs_Inl:
  "rfold (count_belief cs) c bs = Inl e \<longleftrightarrow>
     e = IndexError \<and> (\<exists>f \<in> set cs. \<not> fnd_suppressed f) \<and> (\<exists>b \<in> set bs. blf_supporting_evidence b = [])"
proof (induction bs arbitrary: c)
  case (Cons b bs)
  show ?case
  proof (cases "count_belief cs c b")
    case (Inl x)
    then show ?thesis using count_belief_Inl [of cs c b x] by auto
  next
    case (Inr c')
    then have "\<not> ((\<exists>f \<in> set cs. \<not> fnd_suppressed f) \<and> blf_supporting_evidence b = [])"
      using count_belief_Inl [of cs c b IndexError] by auto
    then show ?thesis using Inr Cons.IH by auto
  qed
qed simp

lemma propagate_total:
  "distinct (map fst concepts) \<Longrightarrow> \<exists>R. propagate_beliefs beliefs concepts graph config = Inr R"
  using propagation_order_correct [of "map fst concepts" graph] by (auto simp: propagate_beliefs_def Let_def)

lemma penalize_evidence [simp]: "blf_supporting_evidence (penalize p b) = blf_supporting_evidence b"
  by (simp add: penalize_def Let_def)

lemma distinct_concepts: "distinct (map fst (foldl (\<lambda>d b. AList.update (f b) (g b) d) [] bs))"
proof -
  have "distinct (map fst d) \<Longrightarrow> distinct (map fst (foldl (\<lambda>d b. AList.update (f b) (g b) d) d bs))" for d
    by (induction bs arbitrary: d) (simp_all add: distinct_update)
  then show ?thesis by simp
qed

text \<open>The evidence of the beliefs of a report is the evidence of the bundles.\<close>

lemma propagate_evidence:
  assumes "propagate_beliefs beliefs concepts graph config = Inr R"
  shows "b \<in> set R \<Longrightarrow> \<exists>b' \<in> set beliefs. blf_supporting_evidence b = blf_supporting_evidence b'"
  using propagate_preserves [OF assms, where Q = "\<lambda>b. \<exists>b' \<in> set beliefs. blf_supporting_evidence b = blf_supporting_evidence b'"] by auto

lemma propagate_map_evidence:
  assumes "propagate_beliefs beliefs concepts graph config = Inr R"
  shows "map blf_supporting_evidence R = map blf_supporting_evidence beliefs"
proof -
  define idx where "idx = belief_index beliefs concepts"
  have dep: "map blf_supporting_evidence (foldl (set_dependents idx) bs es) = map blf_supporting_evidence bs" for bs es
  proof -
    have "map blf_supporting_evidence (map without_dependents xs) = map blf_supporting_evidence xs" for xs by (induction xs) simp_all
    then show ?thesis using set_dependents_rest [of idx bs es] by metis
  qed
  have child: "map blf_supporting_evidence (penalize_child idx p bs c) = map blf_supporting_evidence bs" for p bs c
  proof (cases "map_of idx c")
    case (Some j)
    then show ?thesis by (cases "j < length bs") (simp_all add: penalize_child_def map_update list_update_same_conv list_update_beyond)
  qed (simp add: penalize_child_def)
  have children: "map blf_supporting_evidence (foldl (penalize_child idx p) bs cs) = map blf_supporting_evidence bs" for p bs cs
    by (induction cs arbitrary: bs) (simp_all add: child)
  have visit: "map blf_supporting_evidence (foldl (visit_parent config idx adj) bs ts) = map blf_supporting_evidence bs" for adj bs ts
    by (induction ts arbitrary: bs) (simp_all add: visit_parent_def children split: option.splits)
  obtain topo where "R = beliefs \<or>
      R = foldl (visit_parent config idx (restricted_adj (map fst concepts) graph))
        (foldl (set_dependents idx) beliefs (restricted_adj (map fst concepts) graph)) topo"
    using assms(1) unfolding propagate_beliefs_def Let_def idx_def [symmetric] rbind_eq_Inr by (metis Inr_inject)
  then show ?thesis using visit dep by metis
qed

text \<open>Property C31: when reasoning fails.  It raises exactly when some contradiction that is not suppressed is found and
  some bundle has no supporting evidence, and then the exception is an IndexError: the report compares the rules of
  every contradiction with the first supporting memory of every belief without asking whether there is one.\<close>

theorem reason_raises_iff:
  "reason h parse now nt states suppressed config = Inl e \<longleftrightarrow>
     e = IndexError \<and> (\<exists>f \<in> set (contradiction_detect h (temp_records nt states) suppressed). \<not> fnd_suppressed f) \<and>
     (\<exists>b \<in> set (aggregate parse now states). evb_supporting_evidence b = [])"
proof -
  define beliefs where "beliefs = map (belief_of h config) (aggregate parse now states)"
  define concepts where "concepts = foldl (\<lambda>d b. AList.update (evb_concept_id b) (blf_belief_id (belief_of h config b)) d) [] (aggregate parse now states)"
  have "distinct (map fst concepts)" unfolding concepts_def by (rule distinct_concepts)
  then obtain R where R: "propagate_beliefs beliefs concepts (merged_support states) config = Inr R" using propagate_total by blast
  have "map blf_supporting_evidence R = map evb_supporting_evidence (aggregate parse now states)"
    using propagate_map_evidence [OF R] by (simp add: beliefs_def belief_of_def belief_construct_def comp_def)
  then have "(\<exists>b \<in> set R. blf_supporting_evidence b = []) \<longleftrightarrow> (\<exists>b \<in> set (aggregate parse now states). evb_supporting_evidence b = [])"
    by (metis (no_types, lifting) image_iff list.set_map)
  then show ?thesis
    unfolding reason_def Let_def beliefs_def [symmetric] concepts_def [symmetric] R rbind_simps
    by (simp add: report_build_def rbind_eq_Inl count_beliefs_Inl)
qed

text \<open>The report of a single project whose knowledge has evidence.\<close>

lemma sample_reason:
  "\<exists>rep. reason sample_host (\<lambda>_. None) sample_now ''now'' [sample_state ''p'' [sample_knowledge ''k1'' ''ACTIVE'' []]] {} default_reasoning = Inr rep \<and>
     length (rrp_beliefs rep) = 1"
proof -
  let ?states = "[sample_state ''p'' [sample_knowledge ''k1'' ''ACTIVE'' []]]"
  have agg: "map evb_supporting_evidence (aggregate (\<lambda>_. None) sample_now ?states) = [[''m1'', ''m2'']]"
    by (simp add: aggregate_def concepts_of_def by_project_def sample_state_def group_step_def add_knowledge_def new_concept_def
        bundle_of_def sample_knowledge_def dict_get_def Let_def)
  then have "\<not> (\<exists>b \<in> set (aggregate (\<lambda>_. None) sample_now ?states). evb_supporting_evidence b = [])"
    by (auto simp: map_eq_Cons_conv)
  then obtain rep where rep: "reason sample_host (\<lambda>_. None) sample_now ''now'' ?states {} default_reasoning = Inr rep"
    using reason_raises_iff by (metis old.sum.exhaust)
  obtain beliefs concepts where b: "propagate_beliefs (map (belief_of sample_host default_reasoning) (aggregate (\<lambda>_. None) sample_now ?states))
      concepts (merged_support ?states) default_reasoning = Inr beliefs" "rrp_beliefs rep = beliefs" using reason_Inr [OF rep] by blast
  have "length (map blf_supporting_evidence (rrp_beliefs rep)) = length (map evb_supporting_evidence (aggregate (\<lambda>_. None) sample_now ?states))"
    unfolding b(2) propagate_map_evidence [OF b(1)] by simp
  then have "length (rrp_beliefs rep) = 1" unfolding agg by simp
  then show ?thesis using rep by auto
qed

theorem confidences_in_range_witness:
  "\<exists>rep b. reason sample_host (\<lambda>_. None) sample_now ''now'' [sample_state ''p'' [sample_knowledge ''k1'' ''ACTIVE'' []]] {} default_reasoning = Inr rep \<and>
     b \<in> set (rrp_beliefs rep) \<and> 0 \<le> blf_final_confidence b \<and> blf_final_confidence b \<le> 1"
proof -
  obtain rep where rep: "reason sample_host (\<lambda>_. None) sample_now ''now'' [sample_state ''p'' [sample_knowledge ''k1'' ''ACTIVE'' []]] {} default_reasoning = Inr rep"
    "length (rrp_beliefs rep) = 1" using sample_reason by blast
  then obtain b where "b \<in> set (rrp_beliefs rep)" by (cases "rrp_beliefs rep") auto
  then show ?thesis using confidences_in_range [OF rep(1)] rep(1) by fastforce
qed

section \<open>Priorities\<close>

definition max_impact :: pyfloat where
  "max_impact = py_round 4 (min 1 (max 0 (fadd (fadd (fmul (flt (2 / 10)) (flt (50 / 100))) (fmul 1 (flt (30 / 100))))
     (fmul (flt (2 / 10)) (flt (20 / 100))))))"

lemma max_impact_value: "max_impact = 7926335344172073 / 18014398509481984"
proof -
  have 1: "fmul (flt (2 / 10)) (flt (50 / 100)) = 3602879701896397 / 36028797018963968" by code_simp
  have 2: "fmul 1 (flt (30 / 100)) = 5404319552844595 / 18014398509481984" by code_simp
  have 3: "fadd (3602879701896397 / 36028797018963968) (5404319552844595 / 18014398509481984) = 3602879701896397 / 9007199254740992" by code_simp
  have 4: "fmul (flt (2 / 10)) (flt (20 / 100)) = 1441151880758559 / 36028797018963968" by code_simp
  have 5: "fadd (3602879701896397 / 9007199254740992) (1441151880758559 / 36028797018963968) = 3963167672086037 / 9007199254740992" by code_simp
  have 6: "min 1 (max 0 (3963167672086037 / 9007199254740992 :: rat)) = 3963167672086037 / 9007199254740992" by simp
  have 7: "py_round 4 (3963167672086037 / 9007199254740992) = 7926335344172073 / 18014398509481984" by code_simp
  show ?thesis unfolding max_impact_def 1 2 3 4 5 6 7 ..
qed

lemma max_impact_below: "max_impact < flt (48 / 100)" "0 \<le> max_impact"
proof -
  have "flt (48 / 100) = 1080863910568919 / 2251799813685248" by code_simp
  then show "max_impact < flt (48 / 100)" unfolding max_impact_value by simp
qed (simp add: max_impact_value)

lemma default_impact:
  assumes "belief_ok b"
  shows "\<exists>i. compute_impact b default_synthesis = Inr i \<and> 0 \<le> i \<and> i \<le> max_impact"
proof -
  define breadth where "breadth = min 1 (fdiv (float_of_int (int (length (blf_supporting_evidence b)))) 5)"
  define impact where "impact = fadd (fadd (fmul (eas_corroboration_score (blf_assessment b)) (flt (50 / 100))) (fmul breadth (flt (30 / 100))))
    (fmul (eas_agreement_score (blf_assessment b)) (flt (20 / 100)))"
  have w: "0 \<le> flt (50 / 100)" "0 \<le> flt (30 / 100)" "0 \<le> flt (20 / 100)" "0 \<le> flt (2 / 10)" by (simp_all add: flt_nonneg)
  have a: "0 \<le> eas_corroboration_score (blf_assessment b)" "eas_corroboration_score (blf_assessment b) \<le> flt (2 / 10)"
    "0 \<le> eas_agreement_score (blf_assessment b)" "eas_agreement_score (blf_assessment b) \<le> flt (2 / 10)"
    using assms by (simp_all add: belief_ok_def)
  have br: "0 \<le> breadth" "breadth \<le> 1" by (simp_all add: breadth_def)
  have "impact \<le> fadd (fadd (fmul (flt (2 / 10)) (flt (50 / 100))) (fmul 1 (flt (30 / 100)))) (fmul (flt (2 / 10)) (flt (20 / 100)))"
    unfolding impact_def using a w br by (intro fadd_mono fmul_mono order_refl) simp_all
  then have "py_round 4 (min 1 (max 0 impact)) \<le> max_impact"
    unfolding max_impact_def by (intro py_round_mono min.mono max.mono order_refl)
  moreover have "compute_impact b default_synthesis = Inr (py_round 4 (min 1 (max 0 impact)))"
    by (simp add: compute_impact_def default_synthesis_def Let_def impact_def breadth_def)
  ultimately show ?thesis by (intro exI [of _ "py_round 4 (min 1 (max 0 impact))"]) simp
qed

lemma default_priority:
  assumes "0 \<le> i" "i \<le> max_impact" "0 \<le> c" "c \<le> 1"
  shows "derive_priority i c default_synthesis \<in> {NORMAL, LOW}"
proof -
  have "is_float max_impact" by (simp add: max_impact_def)
  then have "fmul i c \<le> max_impact" unfolding fmul_def
    using assms by (intro flt_le) (metis mult_left_le order_trans)
  then have "fmul i c < flt (48 / 100)" using max_impact_below by linarith
  moreover have "flt (48 / 100) \<le> flt (72 / 100)" by (simp add: flt_mono)
  ultimately show ?thesis by (simp add: derive_priority_def default_synthesis_def Let_def)
qed

text \<open>The item that synthesis makes of a belief.\<close>

definition item_of :: "host \<Rightarrow> ContradictionFinding list \<Rightarrow> SynthesisConfig \<Rightarrow> Belief \<Rightarrow> pyfloat \<Rightarrow> SynthesisItem" where
  "item_of h contradictions config b impact =
     (let ids = active_contradiction_ids b contradictions; cid = generate_candidate_id h (blf_belief_id b) (fst (classify b ids config)) (scf_version config)
      in \<lparr>syi_synthesis_id = generate_synthesis_id h cid (scf_version config),
          syi_candidate = \<lparr>dcd_candidate_id = cid, dcd_belief_id = blf_belief_id b, dcd_category = fst (classify b ids config),
            dcd_reasons = snd (classify b ids config), dcd_confidence = blf_final_confidence b, dcd_impact = impact,
            dcd_priority = derive_priority impact (blf_final_confidence b) config,
            dcd_contradiction_ids = sorted_list_of_set ids, dcd_belief_title = blf_title b, dcd_belief_content = blf_content b\<rparr>\<rparr>)"

lemma generate_candidates_item:
  "rbind (generate_candidates h b (active_contradiction_ids b cs) config) (\<lambda>cands.
     Inr (map (\<lambda>c. \<lparr>syi_synthesis_id = generate_synthesis_id h (dcd_candidate_id c) (scf_version config), syi_candidate = c\<rparr>) cands)) =
   rbind (compute_impact b config) (\<lambda>i. Inr [item_of h cs config b i])"
  by (cases "compute_impact b config") (simp_all add: generate_candidates_def item_of_def split_def Let_def)

lemma synthesis_items_Inr:
  assumes "synthesis_items h rep config = Inr items"
  shows "\<exists>impacts. rmap (\<lambda>b. compute_impact b config) (rrp_beliefs rep) = Inr impacts \<and>
    items = map2 (item_of h (rrp_contradictions rep) config) (rrp_beliefs rep) impacts"
proof -
  have "\<exists>impacts. rmap (\<lambda>b. compute_impact b config) bs = Inr impacts \<and> concat iss = map2 (item_of h cs config) bs impacts"
    if "rmap (\<lambda>b. rbind (compute_impact b config) (\<lambda>i. Inr [item_of h cs config b i])) bs = Inr iss" for cs bs iss
    using that
  proof (induction bs arbitrary: iss)
    case (Cons b bs)
    then obtain i iss' where "compute_impact b config = Inr i" "iss = [item_of h cs config b i] # iss'"
      "rmap (\<lambda>b. rbind (compute_impact b config) (\<lambda>i. Inr [item_of h cs config b i])) bs = Inr iss'" by auto
    with Cons.IH [of iss'] show ?case by auto
  qed simp
  with assms show ?thesis unfolding synthesis_items_def generate_candidates_item by auto
qed

lemma synthesize_items:
  assumes "synthesize h rep config = Inr s" and "i \<in> set (syr_items s)"
  shows "\<exists>b impact. b \<in> set (rrp_beliefs rep) \<and> compute_impact b config = Inr impact \<and>
    i = item_of h (rrp_contradictions rep) config b impact"
proof -
  obtain unsorted where u: "synthesis_items h rep config = Inr unsorted" "set (syr_items s) = set unsorted"
    using assms(1) by (auto simp: synthesize_def Let_def)
  obtain impacts where m: "rmap (\<lambda>b. compute_impact b config) (rrp_beliefs rep) = Inr impacts"
    "unsorted = map2 (item_of h (rrp_contradictions rep) config) (rrp_beliefs rep) impacts"
    using synthesis_items_Inr [OF u(1)] by blast
  have "compute_impact b config = Inr x" if "(b, x) \<in> set (zip (rrp_beliefs rep) impacts)" for b x
    using m(1) that
  proof (induction "rrp_beliefs rep" arbitrary: impacts rep)
    case (Cons b' bs)
    then show ?case using Cons.hyps(1) [of "rep\<lparr>rrp_beliefs := bs\<rparr>"] by (auto simp: Cons.hyps(2) [symmetric])
  qed simp
  moreover from assms(2) u(2) m(2) obtain b x where "(b, x) \<in> set (zip (rrp_beliefs rep) impacts)"
    "i = item_of h (rrp_contradictions rep) config b x" by auto
  ultimately show ?thesis by (metis set_zip_leftD)
qed

text \<open>With the default thresholds no decision is urgent.  The scores that the assessment caps at 0.2 keep
  the impact below 0.48, and the product with a confidence below the threshold of HIGH: every candidate that the
  default configuration synthesizes from a report has the priority NORMAL or LOW.\<close>

theorem no_urgent_decisions:
  assumes "reason h parse now nt states suppressed config = Inr rep"
    and "synthesize h rep default_synthesis = Inr s"
  shows "\<forall>i \<in> set (syr_items s). dcd_priority (syi_candidate i) \<in> {NORMAL, LOW} \<and> dcd_impact (syi_candidate i) < flt (48 / 100)"
proof
  fix i assume "i \<in> set (syr_items s)"
  then obtain b x where b: "b \<in> set (rrp_beliefs rep)" "compute_impact b default_synthesis = Inr x"
    "i = item_of h (rrp_contradictions rep) default_synthesis b x" using synthesize_items [OF assms(2)] by blast
  have ok: "belief_ok b" using reason_beliefs_ok [OF assms(1) b(1)] .
  from default_impact [OF ok] b(2) have x: "0 \<le> x" "x \<le> max_impact" by auto
  moreover have "0 \<le> blf_final_confidence b" "blf_final_confidence b \<le> 1" using ok by (auto simp: belief_ok_def)
  ultimately have "derive_priority x (blf_final_confidence b) default_synthesis \<in> {NORMAL, LOW}" by (rule default_priority)
  then show "dcd_priority (syi_candidate i) \<in> {NORMAL, LOW} \<and> dcd_impact (syi_candidate i) < flt (48 / 100)"
    using x max_impact_below(1) unfolding b(3) item_of_def Let_def by simp
qed

lemma default_synthesis_total:
  assumes "reason h parse now nt states suppressed config = Inr rep"
  shows "\<exists>s. synthesize h rep default_synthesis = Inr s \<and> length (syr_items s) = length (rrp_beliefs rep)"
proof -
  have "\<exists>iss. rmap (\<lambda>b. rbind (compute_impact b default_synthesis) (\<lambda>i. Inr [item_of h cs default_synthesis b i])) bs = Inr iss \<and>
      length (concat iss) = length bs" if "\<forall>b \<in> set bs. belief_ok b" for bs cs
    using that
  proof (induction bs)
    case (Cons b bs)
    then obtain iss x where "rmap (\<lambda>b. rbind (compute_impact b default_synthesis) (\<lambda>i. Inr [item_of h cs default_synthesis b i])) bs = Inr iss"
      "length (concat iss) = length bs" "compute_impact b default_synthesis = Inr x" using default_impact [of b] by auto
    then show ?case by (intro exI [of _ "[item_of h cs default_synthesis b x] # iss"]) simp
  qed simp
  from this [of "rrp_beliefs rep" "rrp_contradictions rep"] reason_beliefs_ok [OF assms]
  show ?thesis unfolding synthesize_def synthesis_items_def generate_candidates_item by (auto simp: Let_def)
qed

theorem no_urgent_decisions_witness:
  "\<exists>rep s i. reason sample_host (\<lambda>_. None) sample_now ''now'' [sample_state ''p'' [sample_knowledge ''k1'' ''ACTIVE'' []]] {} default_reasoning = Inr rep \<and>
     synthesize sample_host rep default_synthesis = Inr s \<and> syr_items s = [i] \<and> dcd_priority (syi_candidate i) \<in> {NORMAL, LOW}"
proof -
  obtain rep where rep: "reason sample_host (\<lambda>_. None) sample_now ''now'' [sample_state ''p'' [sample_knowledge ''k1'' ''ACTIVE'' []]] {} default_reasoning = Inr rep"
    "length (rrp_beliefs rep) = 1" using sample_reason by blast
  obtain s where s: "synthesize sample_host rep default_synthesis = Inr s" "length (syr_items s) = 1"
    using default_synthesis_total [OF rep(1)] rep(2) by auto
  then obtain i where i: "syr_items s = [i]" by (cases "syr_items s") auto
  with no_urgent_decisions [OF rep(1) s(1)] rep(1) s(1) show ?thesis by auto
qed

section \<open>The gate\<close>

lemma passes_gate_iff:
  "passes_gate i policy \<longleftrightarrow> dcd_category (syi_candidate i) \<noteq> DEFER \<and> dgp_minimum_confidence policy \<le> dcd_confidence (syi_candidate i) \<and>
     (dgp_block_if_contradicted policy \<longrightarrow> dcd_contradiction_ids (syi_candidate i) = [])"
  by (auto simp: passes_gate_def)

lemma gate_decisions_from:
  assumes "d \<in> set (dst_decisions (gate h s policy))"
  shows "\<exists>i \<in> set (syr_items s). passes_gate i policy \<and> d = decision_of h policy i"
proof -
  have "\<exists>m. dst_decisions (gate h s policy) = map (decision_of h policy) (take m (filter (\<lambda>i. passes_gate i policy) (syr_items s)))"
    unfolding gate_def Let_def by simp (metis take_all_iff order_refl)
  then obtain m where "dst_decisions (gate h s policy) = map (decision_of h policy) (take m (filter (\<lambda>i. passes_gate i policy) (syr_items s)))" ..
  with assms obtain i where "i \<in> set (take m (filter (\<lambda>i. passes_gate i policy) (syr_items s)))" "d = decision_of h policy i" by auto
  moreover from this(1) have "i \<in> set (filter (\<lambda>i. passes_gate i policy) (syr_items s))" by (rule in_set_takeD)
  ultimately show ?thesis by auto
qed

text \<open>Property C10: what the gate decides.  Exactly the items of the synthesis that are not deferred, reach the minimum
  confidence and, when the policy asks for that, have no active contradiction are decided, in the order of the
  synthesis, all of them if the limit is not positive and otherwise the first ones up to the limit.  A decision copies belief,
  category, priority and confidence; decided and blocked items together are the whole synthesis.  Decisions
  are ordered by priority and then by falling confidence, and an item that would pass but is blocked by the limit comes no
  earlier in this order than any decision.\<close>

theorem gate_correct:
  assumes "synthesize h rep config = Inr s"
    and "passed = filter (\<lambda>i. dcd_category (syi_candidate i) \<noteq> DEFER \<and> dgp_minimum_confidence policy \<le> dcd_confidence (syi_candidate i) \<and>
       (dgp_block_if_contradicted policy \<longrightarrow> dcd_contradiction_ids (syi_candidate i) = [])) (syr_items s)"
    and "kept = (if 0 < dgp_max_decisions policy then take (nat (dgp_max_decisions policy)) passed else passed)"
  shows "dst_decisions (gate h s policy) = map (decision_of h policy) kept \<and>
    map (\<lambda>d. (di_belief_id d, di_category d, di_priority d, di_confidence d)) (dst_decisions (gate h s policy)) =
      map (\<lambda>i. (dcd_belief_id (syi_candidate i), dcd_category (syi_candidate i), dcd_priority (syi_candidate i), dcd_confidence (syi_candidate i))) kept \<and>
    mset kept + mset (dst_blocked (gate h s policy)) = mset (syr_items s) \<and>
    (0 < dgp_max_decisions policy \<longrightarrow> int (length kept) \<le> dgp_max_decisions policy) \<and>
    sorted (map item_key kept) \<and>
    (\<forall>i \<in> set kept. \<forall>j \<in> set (dst_blocked (gate h s policy)). j \<in> set passed \<longrightarrow> item_key i \<le> item_key j)"
proof -
  define blocked where "blocked = filter (\<lambda>i. \<not> passes_gate i policy) (syr_items s)"
  define m where "m = (if 0 < dgp_max_decisions policy then nat (dgp_max_decisions policy) else length passed)"
  have passed: "passed = filter (\<lambda>i. passes_gate i policy) (syr_items s)" unfolding assms(2) passes_gate_iff ..
  have kept: "kept = take m passed" by (simp add: assms(3) m_def)
  have g: "dst_decisions (gate h s policy) = map (decision_of h policy) (take m passed)"
    "dst_blocked (gate h s policy) = blocked @ drop m passed"
    by (auto simp: gate_def Let_def passed blocked_def m_def)
  have sorted: "sorted (map item_key (syr_items s))" using assms(1) by (auto simp: synthesize_def Let_def)
  then have sp: "sorted (map item_key passed)" unfolding passed by (rule sorted_filter)
  have "mset (take m passed) + mset (drop m passed) = mset passed" by (metis append_take_drop_id mset_append)
  moreover have "mset passed + mset blocked = mset (syr_items s)" unfolding passed blocked_def by (simp add: multiset_partition [symmetric])
  ultimately have 1: "mset (take m passed) + mset (blocked @ drop m passed) = mset (syr_items s)" by (simp add: ac_simps)
  have 2: "0 < dgp_max_decisions policy \<longrightarrow> int (length (take m passed)) \<le> dgp_max_decisions policy" by (auto simp: m_def)
  have 3: "sorted (map item_key (take m passed))" using sorted_wrt_take [OF sp, of m] by (simp add: take_map)
  have 4: "item_key i \<le> item_key j" if "i \<in> set (take m passed)" "j \<in> set (drop m passed)" for i j
    using sp that by (metis (no_types, lifting) append_take_drop_id map_append sorted_append imageI list.set_map)
  have 5: "j \<in> set (drop m passed)" if "j \<in> set (blocked @ drop m passed)" "j \<in> set passed" for j
    using that by (auto simp: blocked_def passed)
  have 6: "map (\<lambda>d. (di_belief_id d, di_category d, di_priority d, di_confidence d)) (map (decision_of h policy) kept) =
      map (\<lambda>i. (dcd_belief_id (syi_candidate i), dcd_category (syi_candidate i), dcd_priority (syi_candidate i), dcd_confidence (syi_candidate i))) kept"
    by (simp add: decision_of_def Let_def)
  show ?thesis using 6 unfolding g kept using 1 2 3 4 5 by blast
qed

definition sample_belief :: "string \<Rightarrow> Belief" where
  "sample_belief t = \<lparr>blf_belief_id = t, blf_title = t, blf_content = t, blf_local_confidence = 1, blf_propagated_adjustment = 0,
     blf_final_confidence = 1,
     blf_assessment = \<lparr>eas_base_confidence = 1, eas_agreement_score = 0, eas_corroboration_score = 0, eas_contradiction_penalty = 0,
       eas_staleness_penalty = 0, eas_propagated_adjustment = 0, eas_local_confidence = 1, eas_final_confidence = 1\<rparr>,
     blf_supporting_evidence = [''m''], blf_dependent_belief_ids = []\<rparr>"

definition sample_report :: ReasoningReport where
  "sample_report = \<lparr>rrp_beliefs = [sample_belief ''a'', sample_belief ''b''], rrp_assessments = [], rrp_contradictions = [], rrp_summary = [],
     rrp_overall_confidence = 1, rrp_reasoning_version = ''1.0'', rrp_config_snapshot = []\<rparr>"

lemma sample_synthesis:
  "\<exists>s i j. synthesize sample_host sample_report default_synthesis = Inr s \<and> syr_items s = [i, j] \<and>
     (\<forall>x \<in> {i, j}. dcd_category (syi_candidate x) = AFFIRM \<and> dcd_confidence (syi_candidate x) = 1 \<and> dcd_contradiction_ids (syi_candidate x) = [])"
proof -
  have fl: "flt (80 / 100) \<le> 1" "flt (40 / 100) \<le> 1" by code_simp+
  have item: "dcd_category (syi_candidate u) = AFFIRM \<and> dcd_confidence (syi_candidate u) = 1 \<and> dcd_contradiction_ids (syi_candidate u) = []"
    if "u = item_of sample_host [] default_synthesis (sample_belief t) x" for u t x
    using fl unfolding that
    by (simp add: item_of_def Let_def classify_def active_contradiction_ids_def sample_belief_def default_synthesis_def not_less)
  have "\<exists>x. compute_impact (sample_belief t) default_synthesis = Inr x" for t
    by (simp add: compute_impact_def default_synthesis_def Let_def)
  then obtain x y where xy: "compute_impact (sample_belief ''a'') default_synthesis = Inr x" "compute_impact (sample_belief ''b'') default_synthesis = Inr y"
    by blast
  let ?u = "item_of sample_host [] default_synthesis (sample_belief ''a'') x" and ?v = "item_of sample_host [] default_synthesis (sample_belief ''b'') y"
  obtain s where s: "synthesize sample_host sample_report default_synthesis = Inr s" "syr_items s = sort_key item_key [?u, ?v]"
    using xy by (simp add: synthesize_def synthesis_items_def generate_candidates_item sample_report_def Let_def del: sort_key_simps)
  then have "length (syr_items s) = Suc (Suc 0)" "set (syr_items s) = {?u, ?v}" by (simp_all only: length_sort set_sort) simp_all
  then obtain i j where ij: "syr_items s = [i, j]" "{i, j} = {?u, ?v}" by (auto simp: length_Suc_conv)
  with item s(1) show ?thesis by (intro exI [of _ s] exI [of _ i] exI [of _ j]) auto
qed

text \<open>Without a limit both items are decided, with the limit one the first of them.\<close>

theorem gate_correct_witness:
  "\<exists>s i j. synthesize sample_host sample_report default_synthesis = Inr s \<and> syr_items s = [i, j] \<and>
     dst_decisions (gate sample_host s default_gate) = map (decision_of sample_host default_gate) [i, j] \<and>
     dst_decisions (gate sample_host s (default_gate\<lparr>dgp_max_decisions := 1\<rparr>)) = map (decision_of sample_host (default_gate\<lparr>dgp_max_decisions := 1\<rparr>)) [i]"
proof -
  obtain s i j where s: "synthesize sample_host sample_report default_synthesis = Inr s" "syr_items s = [i, j]"
    "\<forall>x \<in> {i, j}. dcd_category (syi_candidate x) = AFFIRM \<and> dcd_confidence (syi_candidate x) = 1 \<and> dcd_contradiction_ids (syi_candidate x) = []"
    using sample_synthesis by blast
  have "flt (60 / 100) \<le> 1" by code_simp
  with s(3) have passed: "[i, j] = filter (\<lambda>i. dcd_category (syi_candidate i) \<noteq> DEFER \<and> dgp_minimum_confidence (default_gate\<lparr>dgp_max_decisions := m\<rparr>) \<le> dcd_confidence (syi_candidate i) \<and>
      (dgp_block_if_contradicted (default_gate\<lparr>dgp_max_decisions := m\<rparr>) \<longrightarrow> dcd_contradiction_ids (syi_candidate i) = [])) (syr_items s)" for m
    by (simp add: s(2) default_gate_def)
  have "default_gate\<lparr>dgp_max_decisions := 0\<rparr> = default_gate" by (simp add: default_gate_def)
  then show ?thesis
    using gate_correct [OF s(1) passed refl, of 0] gate_correct [OF s(1) passed refl, of 1] s(1,2) by (auto simp: default_gate_def)
qed

section \<open>Contradictions and evidence\<close>

lemma make_finding_rules [simp]:
  "fnd_rule_a_id (make_finding h supp t sev a b d ev) = a" "fnd_rule_b_id (make_finding h supp t sev a b d ev) = b"
  by (simp_all add: make_finding_def Let_def)

lemma pair_findings_rules:
  assumes "f \<in> set (config_findings h supp a b @ opposite_findings h supp a b)"
  shows "fnd_rule_a_id f = mem_id a \<and> fnd_rule_b_id f = mem_id b"
  using assms
  by (auto simp: config_findings_def opposite_findings_def Let_def split: option.splits if_splits prod.splits)

lemma duplicate_findings_rules:
  "f \<in> set (snd (foldl (duplicate_step h supp) ([], []) records)) \<Longrightarrow>
     fnd_rule_a_id f \<in> mem_id ` set records \<and> fnd_rule_b_id f \<in> mem_id ` set records"
proof -
  define ok where "ok = (\<lambda>(d :: (string, MemoryRecord) dict, fs :: ContradictionFinding list). (\<forall>k r. map_of d k = Some r \<longrightarrow> r \<in> set records) \<and>
    (\<forall>f \<in> set fs. fnd_rule_a_id f \<in> mem_id ` set records \<and> fnd_rule_b_id f \<in> mem_id ` set records))"
  have "ok (foldl (duplicate_step h supp) ([], []) records)"
  proof (rule foldl_invariant)
    show "ok (duplicate_step h supp s r)" if "ok s" "r \<in> set records" for s r
      using that by (auto simp: ok_def duplicate_step_def split: option.splits prod.splits)
  qed (simp add: ok_def)
  then show "f \<in> set (snd (foldl (duplicate_step h supp) ([], []) records)) \<Longrightarrow>
     fnd_rule_a_id f \<in> mem_id ` set records \<and> fnd_rule_b_id f \<in> mem_id ` set records"
    by (auto simp: ok_def split: prod.splits)
qed

lemma finding_rules:
  assumes "f \<in> set (contradiction_detect h records supp)"
  shows "fnd_rule_a_id f \<in> mem_id ` set records \<and> fnd_rule_b_id f \<in> mem_id ` set records"
proof -
  from assms consider "f \<in> set (snd (foldl (duplicate_step h supp) ([], []) records))"
    | a b where "(a, b) \<in> set (pairs records)" "f \<in> set (config_findings h supp a b @ opposite_findings h supp a b)"
    unfolding contradiction_detect_def by fastforce
  then show ?thesis
  proof cases
    case 1
    then show ?thesis by (rule duplicate_findings_rules)
  next
    case (2 a b)
    then show ?thesis using pair_findings_rules [OF 2(2)] set_pairs [OF 2(1)] by auto
  qed
qed

text \<open>The active knowledge of all states.\<close>

definition all_active :: "KnowledgeState list \<Rightarrow> KnowledgeObject set" where
  "all_active states = (\<Union>s \<in> set states. set (kst_active_knowledge s))"

lemma temp_record_ids: "mem_id ` set (temp_records now states) \<subseteq> ko_id ` all_active states"
proof -
  have "set (first_by_id {} (concat (map kst_active_knowledge (by_project states)))) \<subseteq> all_active states"
    using first_by_id_subset by (fastforce simp: by_project_def all_active_def)
  then show ?thesis by (auto simp: temp_records_def record_of_def memory_post_init_def)
qed

lemma concepts_evidence:
  assumes "(t, c) \<in> set (concepts_of states)"
  shows "finite (cd_supporting c) \<and> cd_supporting c \<subseteq> (\<Union>k \<in> all_active states. set (ko_supporting_memory_ids k))"
proof -
  define U where "U = (\<Union>k \<in> all_active states. set (ko_supporting_memory_ids k))"
  define ok where "ok = (\<lambda>d :: (string, concept_data) dict. \<forall>(t, c) \<in> set d. finite (cd_supporting c) \<and> cd_supporting c \<subseteq> U)"
  have upd: "ok (AList.update t c d)" if "ok d" "finite (cd_supporting c)" "cd_supporting c \<subseteq> U" for t c d
    using that set_update_subset [of t c d] by (fastforce simp: ok_def)
  have get: "finite (cd_supporting c) \<and> cd_supporting c \<subseteq> U" if "ok d" "map_of d t = Some c" for d t c
    using that by (auto simp: ok_def dest!: map_of_SomeD)
  have "ok (foldl group_step [] (concat (map kst_active_knowledge (by_project states))))"
  proof (rule foldl_invariant)
    fix d k assume d: "ok d" and "k \<in> set (concat (map kst_active_knowledge (by_project states)))"
    then have "set (ko_supporting_memory_ids k) \<subseteq> U" by (auto simp: U_def all_active_def by_project_def)
    moreover have "finite (cd_supporting (dict_get d t (new_concept k))) \<and> cd_supporting (dict_get d t (new_concept k)) \<subseteq> U" for t
      using get [OF d, of t] by (cases "map_of d t") (auto simp: dict_get_def new_concept_def)
    ultimately show "ok (group_step d k)" unfolding group_step_def Let_def by (intro upd [OF d]) (simp_all add: add_knowledge_def)
  qed (simp add: ok_def)
  then have "ok (concepts_of states)" unfolding concepts_of_def
  proof (rule foldl_invariant)
    have "ok (add_finding c t d)" if "ok d" for c t d
      using that get [OF that] upd [OF that] by (auto simp: add_finding_def split: option.splits)
    then show "ok d \<Longrightarrow> ok (finding_step d c)" for d c by (simp add: finding_step_def)
  qed
  with assms show ?thesis by (auto simp: ok_def U_def)
qed

lemma bundle_evidence:
  assumes "b \<in> set (aggregate parse now states)"
  shows "set (evb_supporting_evidence b) \<subseteq> (\<Union>k \<in> all_active states. set (ko_supporting_memory_ids k))"
  using assms concepts_evidence by (fastforce simp: aggregate_def bundle_of_def)

text \<open>Property C12: contradictions reach no decision.  Contradictions are found between knowledge objects and name
  their ids, but beliefs are matched with them by the ids of their supporting memories.  As long as no knowledge id
  is a memory id, no belief has an active contradiction: nothing counts as conflicted in the report, no candidate
  is a challenge or a resolution, and the gate blocks nothing for being contradicted.\<close>

theorem contradictions_reach_no_decision:
  assumes "reason h parse now nt states suppressed config = Inr rep"
    and "ko_id ` all_active states \<inter> (\<Union>k \<in> all_active states. set (ko_supporting_memory_ids k)) = {}"
    and "synthesize h rep sconfig = Inr s"
  shows "\<forall>i \<in> set (syr_items s). dcd_contradiction_ids (syi_candidate i) = [] \<and>
      dcd_category (syi_candidate i) \<notin> {CHALLENGE, RESOLVE} \<and>
      (passes_gate i policy \<longleftrightarrow> dcd_category (syi_candidate i) \<noteq> DEFER \<and> dgp_minimum_confidence policy \<le> dcd_confidence (syi_candidate i))"
proof
  fix i assume "i \<in> set (syr_items s)"
  then obtain b x where b: "b \<in> set (rrp_beliefs rep)" "i = item_of h (rrp_contradictions rep) sconfig b x"
    using synthesize_items [OF assms(3)] by blast
  obtain beliefs concepts where r: "propagate_beliefs (map (belief_of h config) (aggregate parse now states)) concepts (merged_support states) config = Inr beliefs"
    "rrp_beliefs rep = beliefs" "rrp_contradictions rep = contradiction_detect h (temp_records nt states) suppressed"
    using reason_Inr [OF assms(1)] by blast
  obtain e where e: "e \<in> set (aggregate parse now states)" "blf_supporting_evidence b = evb_supporting_evidence e"
    using propagate_evidence [OF r(1)] b(1) r(2) by (auto simp: belief_of_def belief_construct_def)
  have "fnd_rule_a_id f \<notin> set (blf_supporting_evidence b) \<and> fnd_rule_b_id f \<notin> set (blf_supporting_evidence b)"
    if "f \<in> set (rrp_contradictions rep)" for f
  proof -
    have "fnd_rule_a_id f \<in> ko_id ` all_active states" "fnd_rule_b_id f \<in> ko_id ` all_active states"
      using finding_rules [of f h "temp_records nt states" suppressed] that temp_record_ids r(3) by (metis subsetD)+
    then show ?thesis using bundle_evidence [OF e(1)] assms(2) e(2) by (metis IntI empty_iff subsetD)
  qed
  then have "active_contradiction_ids b (rrp_contradictions rep) = {}" by (auto simp: active_contradiction_ids_def)
  then show "dcd_contradiction_ids (syi_candidate i) = [] \<and> dcd_category (syi_candidate i) \<notin> {CHALLENGE, RESOLVE} \<and>
      (passes_gate i policy \<longleftrightarrow> dcd_category (syi_candidate i) \<noteq> DEFER \<and> dgp_minimum_confidence policy \<le> dcd_confidence (syi_candidate i))"
    unfolding b(2) passes_gate_iff item_of_def Let_def by (simp add: classify_def Let_def)
qed

theorem contradictions_reach_no_decision_witness:
  "\<exists>rep s i. reason sample_host (\<lambda>_. None) sample_now ''now'' [sample_state ''p'' [sample_knowledge ''k1'' ''ACTIVE'' []]] {} default_reasoning = Inr rep \<and>
     synthesize sample_host rep default_synthesis = Inr s \<and> syr_items s = [i] \<and> dcd_contradiction_ids (syi_candidate i) = []"
proof -
  let ?states = "[sample_state ''p'' [sample_knowledge ''k1'' ''ACTIVE'' []]]"
  obtain rep where rep: "reason sample_host (\<lambda>_. None) sample_now ''now'' ?states {} default_reasoning = Inr rep"
    "length (rrp_beliefs rep) = 1" using sample_reason by blast
  obtain s where s: "synthesize sample_host rep default_synthesis = Inr s" "length (syr_items s) = 1"
    using default_synthesis_total [OF rep(1)] rep(2) by auto
  have "ko_id ` all_active ?states \<inter> (\<Union>k \<in> all_active ?states. set (ko_supporting_memory_ids k)) = {}"
    by (simp add: all_active_def sample_state_def sample_knowledge_def)
  moreover obtain i where "syr_items s = [i]" using s(2) by (cases "syr_items s") auto
  ultimately show ?thesis using contradictions_reach_no_decision [OF rep(1) _ s(1)] rep(1) s(1) by auto
qed

section \<open>The order of the states\<close>

lemma by_project_perm:
  assumes "mset states = mset states'" and "distinct (map kst_project_id states)"
  shows "by_project states = by_project states'"
proof -
  have "inj_on kst_project_id (set states)" using assms(2) by (simp add: distinct_map)
  then show ?thesis unfolding by_project_def using assms by (intro sort_key_unique_perm) (auto simp: distinct_map)
qed

text \<open>The order in which projects are listed does not matter.  For states of different projects,
  the evidence bundles and the summary of invariants are the same for every order of the states.\<close>

theorem state_order_irrelevant:
  assumes "mset states = mset states'" and "distinct (map kst_project_id states)"
  shows "aggregate parse now states = aggregate parse now states' \<and> cognitive_reduce states = cognitive_reduce states' \<and>
    temp_records nt states = temp_records nt states'"
  using by_project_perm [OF assms] by (simp add: aggregate_def concepts_of_def cognitive_reduce_def temp_records_def)

theorem state_order_irrelevant_witness:
  "aggregate (\<lambda>_. None) sample_now [sample_state ''q'' [], sample_state ''p'' []] =
   aggregate (\<lambda>_. None) sample_now [sample_state ''p'' [], sample_state ''q'' []]"
  using state_order_irrelevant [of "[sample_state ''q'' [], sample_state ''p'' []]" "[sample_state ''p'' [], sample_state ''q'' []]"]
  by (simp add: sample_state_def)

end
