(* ===== verification/Skills.thy ===== *)
theory Skills
  imports Decisions SchemaEvents "HOL-Library.Product_Lexorder"
begin

text \<open>
  The skill platform, \<open>rationalevault/skill_platform\<close>: permissions, manifests and their registry,
  provenance, the bridge from decisions to skills, execution contexts and the runtime, the events that
  record executions, the projection of execution states, the validator of outputs and the choice of a
  timeout.

  A skill is a function that the caller supplies: from the input dictionary to an output dictionary, or
  to the text of the exception it raises.  Clock readings and the measured duration are arguments.
\<close>

section \<open>Permissions (permissions.py)\<close>

definition CAPABILITY_KEYS :: "string list" where
  "CAPABILITY_KEYS = [''projection:memory'', ''projection:knowledge'', ''projection:graph'', ''projection:context'',
     ''projection:organization'', ''ledger:read'', ''ledger:write'', ''skill:execute'']"

record PermissionDecision =
  pd_allowed :: bool
  pd_missing_capabilities :: "string list"
  pd_denial_reason :: string
  pd_evaluation_version :: string

record CapabilityModel =
  cm_capabilities :: "string set"

definition capability_model :: "string list \<Rightarrow> CapabilityModel" where
  "capability_model cs = \<lparr>cm_capabilities = set cs\<rparr>"

definition capability_grant :: "CapabilityModel \<Rightarrow> string \<Rightarrow> CapabilityModel result" where
  "capability_grant m c =
     (if c \<notin> set CAPABILITY_KEYS then Inl (ValueError ''Unknown capability'')
      else Inr \<lparr>cm_capabilities = insert c (cm_capabilities m)\<rparr>)"

definition capability_revoke :: "CapabilityModel \<Rightarrow> string \<Rightarrow> CapabilityModel" where
  "capability_revoke m c = \<lparr>cm_capabilities = cm_capabilities m - {c}\<rparr>"

definition capability_has :: "CapabilityModel \<Rightarrow> string \<Rightarrow> bool" where
  "capability_has m c \<longleftrightarrow> c \<in> cm_capabilities m"

definition capability_available :: "CapabilityModel \<Rightarrow> string list" where
  "capability_available m = sorted_list_of_set (cm_capabilities m)"

definition permission_to_dict :: "PermissionDecision \<Rightarrow> payload" where
  "permission_to_dict d = [(''allowed'', JBool (pd_allowed d)),
     (''missing_capabilities'', JList (map JStr (pd_missing_capabilities d))),
     (''denial_reason'', JStr (pd_denial_reason d)), (''evaluation_version'', JStr (pd_evaluation_version d))]"

definition permission_check :: "string list \<Rightarrow> CapabilityModel \<Rightarrow> PermissionDecision" where
  "permission_check required_permissions m =
     (let missing = filter (\<lambda>p. \<not> capability_has m p) required_permissions
      in if missing = []
         then \<lparr>pd_allowed = True, pd_missing_capabilities = [], pd_denial_reason = [], pd_evaluation_version = ''1.0''\<rparr>
         else \<lparr>pd_allowed = False, pd_missing_capabilities = missing,
               pd_denial_reason = ''Missing capabilities: '' @ join '', '' missing, pd_evaluation_version = ''1.0''\<rparr>)"

section \<open>Manifests (manifest.py)\<close>

record SkillManifest =
  mf_skill_id :: string
  mf_name :: string
  mf_version :: string
  mf_description :: string
  mf_input_schema :: payload
  mf_output_schema :: payload
  mf_required_permissions :: "string list"
  mf_accepted_categories :: "string list"
  mf_timeout_seconds :: int
  mf_idempotent :: bool

definition generate_skill_id :: "host \<Rightarrow> string \<Rightarrow> string \<Rightarrow> string" where
  "generate_skill_id h name version = short_id h ''SKL-'' [''skill'', name, version]"

definition manifest_to_dict :: "SkillManifest \<Rightarrow> payload" where
  "manifest_to_dict m = [(''skill_id'', JStr (mf_skill_id m)), (''name'', JStr (mf_name m)),
     (''version'', JStr (mf_version m)), (''description'', JStr (mf_description m)),
     (''input_schema'', JDict (mf_input_schema m)), (''output_schema'', JDict (mf_output_schema m)),
     (''required_permissions'', JList (map JStr (mf_required_permissions m))),
     (''accepted_categories'', JList (map JStr (mf_accepted_categories m))),
     (''timeout_seconds'', JInt (mf_timeout_seconds m)), (''idempotent'', JBool (mf_idempotent m))]"

fun as_dict :: "json \<Rightarrow> payload result" where
  "as_dict (JDict d) = Inr d"
| "as_dict v = Inl (Untyped ''dict'')"

fun as_bool :: "json \<Rightarrow> bool result" where
  "as_bool (JBool b) = Inr b"
| "as_bool v = Inl (Untyped ''bool'')"

definition manifest_from_dict :: "payload \<Rightarrow> SkillManifest result" where
  "manifest_from_dict d =
     rbind (rbind (dict_item d ''skill_id'') as_str) (\<lambda>skill_id.
     rbind (rbind (dict_item d ''name'') as_str) (\<lambda>name.
     rbind (rbind (dict_item d ''version'') as_str) (\<lambda>version.
     rbind (as_str (get_or d ''description'' (JStr []))) (\<lambda>description.
     rbind (as_dict (get_or d ''input_schema'' (JDict []))) (\<lambda>input_schema.
     rbind (as_dict (get_or d ''output_schema'' (JDict []))) (\<lambda>output_schema.
     rbind (as_strs (get_or d ''required_permissions'' (JList []))) (\<lambda>required_permissions.
     rbind (as_strs (get_or d ''accepted_categories'' (JList []))) (\<lambda>accepted_categories.
     rbind (as_int (get_or d ''timeout_seconds'' (JInt 0))) (\<lambda>timeout_seconds.
     rbind (as_bool (get_or d ''idempotent'' (JBool False))) (\<lambda>idempotent.
     Inr \<lparr>mf_skill_id = skill_id, mf_name = name, mf_version = version, mf_description = description,
       mf_input_schema = input_schema, mf_output_schema = output_schema,
       mf_required_permissions = required_permissions, mf_accepted_categories = accepted_categories,
       mf_timeout_seconds = timeout_seconds, mf_idempotent = idempotent\<rparr>))))))))))"

definition manifest_validate :: "SkillManifest \<Rightarrow> string list" where
  "manifest_validate m =
     (if take 4 (mf_skill_id m) \<noteq> ''SKL-''
      then [''skill_id must start with '' @ [CHR 0x27] @ ''SKL-'' @ [CHR 0x27] @ '', got: '' @ mf_skill_id m] else []) @
     (if length (mf_skill_id m) \<noteq> 12
      then [''skill_id must be 12 characters (SKL- + 8 hex), got: '' @ show_nat (length (mf_skill_id m))] else []) @
     map (\<lambda>p. ''Unknown capability: '' @ p) (filter (\<lambda>p. p \<notin> set CAPABILITY_KEYS) (mf_required_permissions m)) @
     map (\<lambda>c. ''Unknown category: '' @ c)
       (filter (\<lambda>c. c \<notin> {''AFFIRM'', ''CHALLENGE'', ''RESOLVE'', ''DEFER'', ''MONITOR''}) (mf_accepted_categories m)) @
     (if mf_timeout_seconds m < 0
      then [''timeout_seconds must be >= 0, got: '' @ show_int (mf_timeout_seconds m)] else [])"

type_synonym manifest_registry = "(string, SkillManifest) dict"

definition manifest_register :: "manifest_registry \<Rightarrow> SkillManifest \<Rightarrow> manifest_registry result" where
  "manifest_register r m =
     (if dict_has r (mf_skill_id m) then Inl (ValueError ''Skill already registered'')
      else Inr (AList.update (mf_skill_id m) m r))"

definition manifest_get :: "manifest_registry \<Rightarrow> string \<Rightarrow> SkillManifest option" where
  "manifest_get r skill_id = map_of r skill_id"

definition manifest_get_by_name :: "manifest_registry \<Rightarrow> string \<Rightarrow> SkillManifest option" where
  "manifest_get_by_name r name = find (\<lambda>m. mf_name m = name) (map snd r)"

definition manifest_list_all :: "manifest_registry \<Rightarrow> SkillManifest list" where
  "manifest_list_all r = map snd r"

definition find_by_category :: "manifest_registry \<Rightarrow> string \<Rightarrow> SkillManifest list" where
  "find_by_category r category = filter (\<lambda>m. category \<in> set (mf_accepted_categories m)) (map snd r)"

section \<open>Resolution of skills (resolver.py)\<close>

record ActivationTarget =
  at_kind :: string
  at_module_path :: string
  at_class_name :: string
  at_metadata :: payload

definition target_to_dict :: "ActivationTarget \<Rightarrow> payload" where
  "target_to_dict t = [(''kind'', JStr (at_kind t)), (''module_path'', JStr (at_module_path t)),
     (''class_name'', JStr (at_class_name t)), (''metadata'', JDict (at_metadata t))]"

definition target_from_dict :: "payload \<Rightarrow> ActivationTarget result" where
  "target_from_dict d =
     rbind (as_str (get_or d ''kind'' (JStr ''python''))) (\<lambda>kind.
     rbind (as_str (get_or d ''module_path'' (JStr []))) (\<lambda>module_path.
     rbind (as_str (get_or d ''class_name'' (JStr []))) (\<lambda>class_name.
     rbind (as_dict (get_or d ''metadata'' (JDict []))) (\<lambda>metadata.
     Inr \<lparr>at_kind = kind, at_module_path = module_path, at_class_name = class_name, at_metadata = metadata\<rparr>))))"

record SkillDescriptor =
  sd_skill_id :: string
  sd_name :: string
  sd_version :: string
  sd_activation_target :: ActivationTarget
  sd_required_permissions :: "string list"
  sd_accepted_categories :: "string list"
  sd_deterministic :: bool
  sd_side_effect_free :: bool
  sd_idempotent :: bool
  sd_requires_network :: bool

text \<open>The two tables of the class, which registrations change.\<close>

record SkillResolver =
  rs_builtin :: "(string, string \<times> string) dict"
  rs_external :: "(string, ActivationTarget) dict"

definition resolver_init :: SkillResolver where
  "resolver_init = \<lparr>rs_builtin =
     [(''affirm-skill'', (''rationalevault.skills.affirm_skill'', ''AffirmSkill'')),
      (''challenge-skill'', (''rationalevault.skills.challenge_skill'', ''ChallengeSkill'')),
      (''resolve-skill'', (''rationalevault.skills.resolve_skill'', ''ResolveSkill'')),
      (''monitor-skill'', (''rationalevault.skills.monitor_skill'', ''MonitorSkill''))], rs_external = []\<rparr>"

definition resolve_skill :: "SkillResolver \<Rightarrow> SkillManifest \<Rightarrow> SkillDescriptor" where
  "resolve_skill rs m =
     (let target = (case map_of (rs_builtin rs) (mf_name m) of
            Some (module_path, class_name) \<Rightarrow>
              \<lparr>at_kind = ''python'', at_module_path = module_path, at_class_name = class_name, at_metadata = []\<rparr>
          | None \<Rightarrow> (case map_of (rs_external rs) (mf_name m) of
              Some t \<Rightarrow> t
            | None \<Rightarrow> \<lparr>at_kind = ''python'', at_module_path = mf_name m, at_class_name = ''ExternalSkill'', at_metadata = []\<rparr>))
      in \<lparr>sd_skill_id = mf_skill_id m, sd_name = mf_name m, sd_version = mf_version m, sd_activation_target = target,
          sd_required_permissions = mf_required_permissions m, sd_accepted_categories = mf_accepted_categories m,
          sd_deterministic = True, sd_side_effect_free = True, sd_idempotent = True, sd_requires_network = False\<rparr>)"

definition register_builtin :: "SkillResolver \<Rightarrow> string \<Rightarrow> string \<Rightarrow> string \<Rightarrow> SkillResolver" where
  "register_builtin rs name module_path class_name =
     rs\<lparr>rs_builtin := AList.update name (module_path, class_name) (rs_builtin rs)\<rparr>"

definition register_external :: "SkillResolver \<Rightarrow> string \<Rightarrow> ActivationTarget \<Rightarrow> SkillResolver" where
  "register_external rs name target = rs\<lparr>rs_external := AList.update name target (rs_external rs)\<rparr>"

section \<open>Provenance (provenance.py)\<close>

record Provenance =
  pr_execution_id :: string
  pr_decision_id :: string
  pr_synthesis_id :: string
  pr_belief_id :: string
  pr_source_event_ids :: "string list"
  pr_skill_version :: string
  pr_gate_policy_version :: string
  pr_input_snapshot_hash :: string
  pr_timestamp :: string

definition provenance_to_dict :: "Provenance \<Rightarrow> payload" where
  "provenance_to_dict p = [(''execution_id'', JStr (pr_execution_id p)), (''decision_id'', JStr (pr_decision_id p)),
     (''synthesis_id'', JStr (pr_synthesis_id p)), (''belief_id'', JStr (pr_belief_id p)),
     (''source_event_ids'', JList (map JStr (pr_source_event_ids p))), (''skill_version'', JStr (pr_skill_version p)),
     (''gate_policy_version'', JStr (pr_gate_policy_version p)),
     (''input_snapshot_hash'', JStr (pr_input_snapshot_hash p)), (''timestamp'', JStr (pr_timestamp p))]"

definition provenance_from_dict :: "payload \<Rightarrow> Provenance result" where
  "provenance_from_dict d =
     rbind (rbind (dict_item d ''execution_id'') as_str) (\<lambda>execution_id.
     rbind (rbind (dict_item d ''decision_id'') as_str) (\<lambda>decision_id.
     rbind (rbind (dict_item d ''synthesis_id'') as_str) (\<lambda>synthesis_id.
     rbind (rbind (dict_item d ''belief_id'') as_str) (\<lambda>belief_id.
     rbind (as_strs (get_or d ''source_event_ids'' (JList []))) (\<lambda>source_event_ids.
     rbind (as_str (get_or d ''skill_version'' (JStr []))) (\<lambda>skill_version.
     rbind (as_str (get_or d ''gate_policy_version'' (JStr []))) (\<lambda>gate_policy_version.
     rbind (as_str (get_or d ''input_snapshot_hash'' (JStr []))) (\<lambda>input_snapshot_hash.
     rbind (as_str (get_or d ''timestamp'' (JStr []))) (\<lambda>timestamp.
     Inr \<lparr>pr_execution_id = execution_id, pr_decision_id = decision_id, pr_synthesis_id = synthesis_id,
       pr_belief_id = belief_id, pr_source_event_ids = source_event_ids, pr_skill_version = skill_version,
       pr_gate_policy_version = gate_policy_version, pr_input_snapshot_hash = input_snapshot_hash,
       pr_timestamp = timestamp\<rparr>)))))))))"

definition compute_snapshot_hash :: "host \<Rightarrow> payload \<Rightarrow> string" where
  "compute_snapshot_hash h inputs =
     ascii_upper (take 16 (sha256_hex h (utf8_encode (json_dumps compact_ascii_format True (JDict inputs)))))"

section \<open>From decisions to skills (bridge.py)\<close>

record SkillCandidate =
  sc_decision :: DecisionItem
  sc_manifest :: SkillManifest
  sc_match_score :: string
  sc_blocked :: bool
  sc_blocked_reason :: string
  sc_specificity :: nat

definition specificity_key :: "SkillManifest \<Rightarrow> nat \<times> string" where
  "specificity_key m = (length (mf_accepted_categories m), mf_skill_id m)"

fun select_best :: "SkillManifest list \<Rightarrow> SkillManifest option" where
  "select_best [] = None"
| "select_best (m # ms) = Some (foldl (\<lambda>b c. if specificity_key c < specificity_key b then c else b) m ms)"

definition no_manifest :: SkillManifest where
  "no_manifest = \<lparr>mf_skill_id = [], mf_name = [], mf_version = [], mf_description = ''No matching skill'',
     mf_input_schema = [], mf_output_schema = [], mf_required_permissions = [], mf_accepted_categories = [],
     mf_timeout_seconds = 0, mf_idempotent = False\<rparr>"

definition map_decision :: "DecisionItem \<Rightarrow> manifest_registry \<Rightarrow> SkillCandidate" where
  "map_decision d r =
     (case select_best (find_by_category r (category_value (di_category d))) of
        None \<Rightarrow> \<lparr>sc_decision = d, sc_manifest = no_manifest, sc_match_score = ''0.0'', sc_blocked = True,
                 sc_blocked_reason = ''no_matching_skill'', sc_specificity = 0\<rparr>
      | Some best \<Rightarrow> \<lparr>sc_decision = d, sc_manifest = best, sc_match_score = ''1.0'', sc_blocked = False,
                 sc_blocked_reason = [], sc_specificity = length (mf_accepted_categories best)\<rparr>)"

definition map_decision_set :: "DecisionItem list \<Rightarrow> manifest_registry \<Rightarrow> SkillCandidate list" where
  "map_decision_set ds r = map (\<lambda>d. map_decision d r) ds"

section \<open>Contexts and plans (context.py, execution\_plan.py)\<close>

record ExecutionContext =
  cx_decision_id :: string
  cx_synthesis_id :: string
  cx_belief_id :: string
  cx_source_event_ids :: "string list"
  cx_manifest :: SkillManifest
  cx_candidate :: SkillCandidate
  cx_input_snapshot :: payload
  cx_provenance :: Provenance
  cx_capabilities :: CapabilityModel
  cx_gate_policy_version :: string
  cx_runtime_config :: payload
  cx_snapshot_hash :: string

definition context_post_init :: "host \<Rightarrow> ExecutionContext \<Rightarrow> ExecutionContext" where
  "context_post_init h c =
     (if cx_snapshot_hash c = [] then c\<lparr>cx_snapshot_hash := compute_snapshot_hash h (cx_input_snapshot c)\<rparr> else c)"

definition context_build ::
  "host \<Rightarrow> string \<Rightarrow> string \<Rightarrow> string \<Rightarrow> string \<Rightarrow> string list \<Rightarrow> SkillManifest \<Rightarrow> SkillCandidate \<Rightarrow> payload
    \<Rightarrow> string \<Rightarrow> CapabilityModel \<Rightarrow> payload \<Rightarrow> ExecutionContext" where
  "context_build h now decision_id synthesis_id belief_id source_event_ids manifest candidate input_snapshot
     gate_policy_version capabilities runtime_config =
     context_post_init h
       \<lparr>cx_decision_id = decision_id, cx_synthesis_id = synthesis_id, cx_belief_id = belief_id,
        cx_source_event_ids = source_event_ids, cx_manifest = manifest, cx_candidate = candidate,
        cx_input_snapshot = input_snapshot,
        cx_provenance = \<lparr>pr_execution_id = [], pr_decision_id = decision_id, pr_synthesis_id = synthesis_id,
          pr_belief_id = belief_id, pr_source_event_ids = source_event_ids, pr_skill_version = mf_version manifest,
          pr_gate_policy_version = gate_policy_version,
          pr_input_snapshot_hash = compute_snapshot_hash h input_snapshot, pr_timestamp = now\<rparr>,
        cx_capabilities = capabilities, cx_gate_policy_version = gate_policy_version,
        cx_runtime_config = runtime_config, cx_snapshot_hash = []\<rparr>"

record ExecutionPlan =
  xp_candidate :: SkillCandidate
  xp_context :: ExecutionContext
  xp_version :: string
  xp_retry_policy :: string
  xp_priority :: int
  xp_confirmation_required :: bool
  xp_timeout_seconds :: int
  xp_max_memory_mb :: "int option"
  xp_allow_parallel :: bool
  xp_expected_duration :: string

definition plan_of_candidate :: "host \<Rightarrow> SkillCandidate \<Rightarrow> ExecutionPlan" where
  "plan_of_candidate h c =
     (let d = sc_decision c;
          provenance = \<lparr>pr_execution_id = [], pr_decision_id = di_decision_id d, pr_synthesis_id = di_synthesis_id d,
            pr_belief_id = di_belief_id d, pr_source_event_ids = [], pr_skill_version = mf_version (sc_manifest c),
            pr_gate_policy_version = di_gate_policy_version d, pr_input_snapshot_hash = [], pr_timestamp = []\<rparr>;
          ctx = context_post_init h
            \<lparr>cx_decision_id = di_decision_id d, cx_synthesis_id = di_synthesis_id d, cx_belief_id = di_belief_id d,
             cx_source_event_ids = [], cx_manifest = sc_manifest c, cx_candidate = c, cx_input_snapshot = [],
             cx_provenance = provenance, cx_capabilities = capability_model [''projection:memory'', ''ledger:read''],
             cx_gate_policy_version = di_gate_policy_version d, cx_runtime_config = [], cx_snapshot_hash = []\<rparr>
      in \<lparr>xp_candidate = c, xp_context = ctx, xp_version = ''1.0'', xp_retry_policy = ''none'', xp_priority = 0,
          xp_confirmation_required = False, xp_timeout_seconds = mf_timeout_seconds (sc_manifest c),
          xp_max_memory_mb = None, xp_allow_parallel = False, xp_expected_duration = ''short''\<rparr>)"

definition create_execution_plans :: "host \<Rightarrow> DecisionItem list \<Rightarrow> manifest_registry \<Rightarrow> ExecutionPlan list" where
  "create_execution_plans h ds r = map (plan_of_candidate h) (filter (\<lambda>c. \<not> sc_blocked c) (map_decision_set ds r))"

section \<open>The runtime (runtime.py)\<close>

datatype SkillState = SELECTED | AUTHORIZED | EXECUTING | COMPLETED | FAILED | RESULT_CREATED

fun skill_state_value :: "SkillState \<Rightarrow> string" where
  "skill_state_value SELECTED = ''SELECTED''"
| "skill_state_value AUTHORIZED = ''AUTHORIZED''"
| "skill_state_value EXECUTING = ''EXECUTING''"
| "skill_state_value COMPLETED = ''COMPLETED''"
| "skill_state_value FAILED = ''FAILED''"
| "skill_state_value RESULT_CREATED = ''RESULT_CREATED''"

record SkillExecutionRecord =
  xr_execution_id :: string
  xr_state :: SkillState
  xr_context :: ExecutionContext
  xr_output_snapshot :: "payload option"
  xr_error :: "string option"
  xr_started_at :: "string option"
  xr_completed_at :: "string option"
  xr_permission_decision :: PermissionDecision
  xr_timeout_seconds :: int

text \<open>\<open>d or {}\<close> for an optional dictionary.\<close>

definition dict_or_empty :: "payload option \<Rightarrow> payload" where
  "dict_or_empty d = (case d of None \<Rightarrow> [] | Some x \<Rightarrow> x)"

definition to_event_payload :: "host \<Rightarrow> SkillExecutionRecord \<Rightarrow> payload" where
  "to_event_payload h r =
     [(''execution_id'', JStr (xr_execution_id r)), (''decision_id'', JStr (cx_decision_id (xr_context r))),
      (''skill_id'', JStr (mf_skill_id (cx_manifest (xr_context r)))),
      (''skill_name'', JStr (mf_name (cx_manifest (xr_context r)))),
      (''skill_version'', JStr (mf_version (cx_manifest (xr_context r)))),
      (''state'', JStr (skill_state_value (xr_state r))),
      (''input_hash'', JStr (cx_snapshot_hash (xr_context r))),
      (''output_hash'', JStr (compute_snapshot_hash h (dict_or_empty (xr_output_snapshot r)))),
      (''error'', json_of_option (xr_error r)), (''started_at'', json_of_option (xr_started_at r)),
      (''completed_at'', json_of_option (xr_completed_at r)),
      (''permission_decision'', JDict (permission_to_dict (xr_permission_decision r))),
      (''provenance'', JDict (provenance_to_dict (cx_provenance (xr_context r)))),
      (''timeout_seconds'', JInt (xr_timeout_seconds r))]"

definition generate_execution_id :: "host \<Rightarrow> string \<Rightarrow> string \<Rightarrow> string \<Rightarrow> string" where
  "generate_execution_id h skill_id decision_id policy_version =
     short_id h ''SKE-'' [''execution'', skill_id, decision_id, policy_version]"

type_synonym skill_fn = "payload \<Rightarrow> string + payload"

definition execution_record ::
  "host \<Rightarrow> ExecutionContext \<Rightarrow> PermissionDecision \<Rightarrow> string \<Rightarrow> string \<Rightarrow> payload option \<Rightarrow> string option \<Rightarrow> SkillExecutionRecord" where
  "execution_record h ctx perm started completed output err =
     (let execution_id = generate_execution_id h (mf_skill_id (cx_manifest ctx)) (cx_decision_id ctx) (cx_gate_policy_version ctx)
      in \<lparr>xr_execution_id = execution_id, xr_state = RESULT_CREATED,
          xr_context = context_post_init h (ctx\<lparr>cx_provenance := (cx_provenance ctx)\<lparr>pr_execution_id := execution_id\<rparr>\<rparr>),
          xr_output_snapshot = output, xr_error = err, xr_started_at = Some started,
          xr_completed_at = Some completed, xr_permission_decision = perm,
          xr_timeout_seconds = mf_timeout_seconds (cx_manifest ctx)\<rparr>)"

definition skill_execute ::
  "host \<Rightarrow> string \<Rightarrow> string \<Rightarrow> int \<Rightarrow> skill_fn \<Rightarrow> ExecutionContext \<Rightarrow> SkillExecutionRecord" where
  "skill_execute h started completed duration_ms f ctx =
     (let m = cx_manifest ctx;
          perm = permission_check (mf_required_permissions m) (cx_capabilities ctx);
          make = execution_record h ctx perm started completed
      in if \<not> pd_allowed perm then make None (Some (pd_denial_reason perm))
         else case f (cx_input_snapshot ctx) of
           Inl message \<Rightarrow> make None (Some message)
         | Inr output \<Rightarrow>
             (if mf_timeout_seconds m > 0 \<and> duration_ms > mf_timeout_seconds m * 1000
              then make None (Some (''Execution exceeded timeout of '' @ show_int (mf_timeout_seconds m) @ ''s''))
              else make (Some output) None))"

section \<open>Events of executions (skill\_event.py, event\_emitter.py)\<close>

record SkillExecutionEvent =
  ee_version :: string
  ee_event_type :: string
  ee_execution_id :: string
  ee_decision_id :: string
  ee_skill_id :: string
  ee_skill_name :: string
  ee_skill_version :: string
  ee_state :: string
  ee_input_hash :: string
  ee_output_hash :: string
  ee_error :: "string option"
  ee_started_at :: "string option"
  ee_completed_at :: "string option"
  ee_duration_ms :: int
  ee_provenance :: "Provenance option"
  ee_timeout_seconds :: int

definition to_payload :: "SkillExecutionEvent \<Rightarrow> payload" where
  "to_payload e =
     [(''version'', JStr (ee_version e)), (''event_type'', JStr (ee_event_type e)),
      (''execution_id'', JStr (ee_execution_id e)), (''decision_id'', JStr (ee_decision_id e)),
      (''skill_id'', JStr (ee_skill_id e)), (''skill_name'', JStr (ee_skill_name e)),
      (''skill_version'', JStr (ee_skill_version e)), (''state'', JStr (ee_state e)),
      (''input_hash'', JStr (ee_input_hash e)), (''output_hash'', JStr (ee_output_hash e)),
      (''error'', json_of_option (ee_error e)), (''started_at'', json_of_option (ee_started_at e)),
      (''completed_at'', json_of_option (ee_completed_at e)), (''duration_ms'', JInt (ee_duration_ms e)),
      (''provenance'', JDict (case ee_provenance e of None \<Rightarrow> [] | Some p \<Rightarrow> provenance_to_dict p)),
      (''timeout_seconds'', JInt (ee_timeout_seconds e))]"

record ExecutionSummary =
  es_execution_id :: string
  es_decision_id :: string
  es_skill_id :: string
  es_skill_name :: string
  es_skill_version :: string
  es_state :: string
  es_input_hash :: string
  es_output_hash :: string
  es_error :: "string option"
  es_started_at :: "string option"
  es_completed_at :: "string option"
  es_duration_ms :: int
  es_provenance :: Provenance
  es_timeout_seconds :: int

definition emit :: "ExecutionSummary \<Rightarrow> SkillExecutionEvent" where
  "emit s = \<lparr>ee_version = ''1.0'', ee_event_type = ''SKILL_EXECUTED'', ee_execution_id = es_execution_id s,
     ee_decision_id = es_decision_id s, ee_skill_id = es_skill_id s, ee_skill_name = es_skill_name s,
     ee_skill_version = es_skill_version s, ee_state = es_state s, ee_input_hash = es_input_hash s,
     ee_output_hash = es_output_hash s, ee_error = es_error s, ee_started_at = es_started_at s,
     ee_completed_at = es_completed_at s, ee_duration_ms = es_duration_ms s,
     ee_provenance = Some (es_provenance s), ee_timeout_seconds = es_timeout_seconds s\<rparr>"

definition summary_of_record :: "SkillExecutionRecord \<Rightarrow> ExecutionSummary" where
  "summary_of_record r =
     \<lparr>es_execution_id = xr_execution_id r, es_decision_id = cx_decision_id (xr_context r),
      es_skill_id = mf_skill_id (cx_manifest (xr_context r)), es_skill_name = mf_name (cx_manifest (xr_context r)),
      es_skill_version = mf_version (cx_manifest (xr_context r)), es_state = skill_state_value (xr_state r),
      es_input_hash = cx_snapshot_hash (xr_context r), es_output_hash = [], es_error = xr_error r,
      es_started_at = xr_started_at r, es_completed_at = xr_completed_at r, es_duration_ms = 0,
      es_provenance = cx_provenance (xr_context r), es_timeout_seconds = xr_timeout_seconds r\<rparr>"

section \<open>Execution state (execution\_state.py)\<close>

text \<open>The values of a payload reach the entries unchecked.\<close>

record ExecutionEntry =
  en_execution_id :: json
  en_decision_id :: json
  en_skill_id :: json
  en_state :: json
  en_input_hash :: json
  en_output_hash :: json
  en_error :: json
  en_started_at :: json
  en_completed_at :: json
  en_duration_ms :: json

record ExecutionState =
  xs_pending_decisions :: "string list"
  xs_completed_executions :: "ExecutionEntry list"
  xs_failed_executions :: "ExecutionEntry list"
  xs_timeout_executions :: "ExecutionEntry list"
  xs_denied_executions :: "ExecutionEntry list"
  xs_execution_counts :: "(json, nat) dict"
  xs_success_counts :: "(json, nat) dict"
  xs_durations :: "(json, json list) dict"
  xs_total_executions :: nat
  xs_total_completed :: nat
  xs_total_failed :: nat
  xs_total_timeout :: nat
  xs_total_denied :: nat

record execution_fold =
  xf_completed :: "ExecutionEntry list"
  xf_failed :: "ExecutionEntry list"
  xf_timeouts :: "ExecutionEntry list"
  xf_denied :: "ExecutionEntry list"
  xf_executed :: "json set"
  xf_counts :: "(json, nat) dict"
  xf_success :: "(json, nat) dict"
  xf_durations :: "(json, json list) dict"

definition entry_of_payload :: "payload \<Rightarrow> ExecutionEntry" where
  "entry_of_payload p =
     \<lparr>en_execution_id = get_or p ''execution_id'' (JStr []), en_decision_id = get_or p ''decision_id'' (JStr []),
      en_skill_id = get_or p ''skill_id'' (JStr []), en_state = get_or p ''state'' (JStr ''UNKNOWN''),
      en_input_hash = get_or p ''input_hash'' (JStr []), en_output_hash = get_or p ''output_hash'' (JStr []),
      en_error = get_or_none p ''error'', en_started_at = get_or_none p ''started_at'',
      en_completed_at = get_or_none p ''completed_at'', en_duration_ms = get_or_none p ''duration_ms''\<rparr>"

definition count_one :: "json \<Rightarrow> (json, nat) dict \<Rightarrow> (json, nat) dict" where
  "count_one k d = AList.update k (dict_get d k 0 + 1) d"

definition execution_add :: "execution_fold \<Rightarrow> ExecutionEntry \<Rightarrow> json \<Rightarrow> json \<Rightarrow> execution_fold" where
  "execution_add f entry did sid =
     (let f = f\<lparr>xf_executed := insert did (xf_executed f), xf_counts := count_one sid (xf_counts f)\<rparr>;
          f = (if en_duration_ms entry \<noteq> JNull
               then f\<lparr>xf_durations := AList.update sid (dict_get (xf_durations f) sid [] @ [en_duration_ms entry])
                      (xf_durations f)\<rparr> else f)
      in if en_state entry = JStr ''COMPLETED''
         then f\<lparr>xf_completed := xf_completed f @ [entry], xf_success := count_one sid (xf_success f)\<rparr>
         else if en_state entry = JStr ''TIMEOUT'' then f\<lparr>xf_timeouts := xf_timeouts f @ [entry]\<rparr>
         else if en_state entry = JStr ''DENIED'' then f\<lparr>xf_denied := xf_denied f @ [entry]\<rparr>
         else f\<lparr>xf_failed := xf_failed f @ [entry]\<rparr>)"

definition execution_step :: "execution_fold \<Rightarrow> EventRecord \<Rightarrow> execution_fold result" where
  "execution_step f e =
     (if er_event_type e \<noteq> SKILL_EXECUTED then Inr f
      else let entry = entry_of_payload (er_payload e)
        in rbind (hash_key (en_decision_id entry)) (\<lambda>did.
           rbind (hash_key (en_skill_id entry)) (\<lambda>sid. Inr (execution_add f entry did sid))))"

definition execution_init :: execution_fold where
  "execution_init = \<lparr>xf_completed = [], xf_failed = [], xf_timeouts = [], xf_denied = [], xf_executed = {},
     xf_counts = [], xf_success = [], xf_durations = []\<rparr>"

definition execution_reduce :: "EventRecord list \<Rightarrow> string list option \<Rightarrow> ExecutionState result" where
  "execution_reduce events known_decision_ids =
     rbind (rfold execution_step execution_init events) (\<lambda>f. Inr
       \<lparr>xs_pending_decisions = (case known_decision_ids of None \<Rightarrow> []
          | Some ids \<Rightarrow> filter (\<lambda>d. JStr d \<notin> xf_executed f) ids),
        xs_completed_executions = xf_completed f, xs_failed_executions = xf_failed f,
        xs_timeout_executions = xf_timeouts f, xs_denied_executions = xf_denied f,
        xs_execution_counts = xf_counts f, xs_success_counts = xf_success f, xs_durations = xf_durations f,
        xs_total_executions = length (xf_completed f) + length (xf_failed f) + length (xf_timeouts f) + length (xf_denied f),
        xs_total_completed = length (xf_completed f), xs_total_failed = length (xf_failed f),
        xs_total_timeout = length (xf_timeouts f), xs_total_denied = length (xf_denied f)\<rparr>)"

section \<open>Output validation (validator.py) and timeouts (sandbox.py)\<close>

record ValidationResult =
  vr_valid :: bool
  vr_errors :: "string list"
  vr_warnings :: "string list"
  vr_evaluation_version :: string

fun type_name :: "json \<Rightarrow> string" where
  "type_name JNull = ''NoneType''"
| "type_name (JBool b) = ''bool''"
| "type_name (JInt i) = ''int''"
| "type_name (JFloat t) = ''float''"
| "type_name (JStr s) = ''str''"
| "type_name (JList vs) = ''list''"
| "type_name (JDict d) = ''dict''"

text \<open>\<open>bool\<close> is a subclass of \<open>int\<close>; an unknown type name matches everything.\<close>

definition type_matches :: "json \<Rightarrow> string \<Rightarrow> bool" where
  "type_matches v t =
     (case map_of [(''string'', [''str'']), (''number'', [''int'', ''float'', ''bool'']), (''integer'', [''int'', ''bool'']),
        (''boolean'', [''bool'']), (''array'', [''list'']), (''object'', [''dict''])] t of
        None \<Rightarrow> True | Some names \<Rightarrow> type_name v \<in> set names)"

definition property_errors :: "payload \<Rightarrow> string \<times> json \<Rightarrow> string list result" where
  "property_errors output kp =
     (case kp of (key, prop_schema) \<Rightarrow>
        (case map_of output key of
           None \<Rightarrow> Inr []
         | Some actual \<Rightarrow>
             (case prop_schema of
                JDict d \<Rightarrow>
                  (case get_or_none d ''type'' of
                     JStr t \<Rightarrow> Inr (if t = [] \<or> type_matches actual t then []
                       else [''Field '' @ [CHR 0x27] @ key @ [CHR 0x27] @ '' expected type '' @ [CHR 0x27] @ t @ [CHR 0x27]
                             @ '', got '' @ [CHR 0x27] @ type_name actual @ [CHR 0x27]])
                   | JList vs \<Rightarrow> (if vs = [] then Inr [] else Inl TypeError)
                   | JDict vs \<Rightarrow> (if vs = [] then Inr [] else Inl TypeError)
                   | v \<Rightarrow> Inr [])
              | v \<Rightarrow> Inl (AttributeError ''get''))))"

definition output_validate :: "payload \<Rightarrow> payload \<Rightarrow> ValidationResult result" where
  "output_validate output output_schema =
     (if output_schema = []
      then Inr \<lparr>vr_valid = True, vr_errors = [], vr_warnings = [], vr_evaluation_version = ''1.0''\<rparr>
      else rbind (as_strs (get_or output_schema ''required'' (JList []))) (\<lambda>required.
           rbind (case get_or output_schema ''properties'' (JDict []) of JDict ps \<Rightarrow> Inr ps | v \<Rightarrow> Inl (AttributeError ''items'')) (\<lambda>properties.
           rbind (rmap (property_errors output) properties) (\<lambda>type_errors.
           let errors = map (\<lambda>f. ''Missing required field: '' @ f) (filter (\<lambda>f. \<not> dict_has output f) required) @ concat type_errors;
               unexpected = set (map fst output) - set (map fst properties);
               warnings = (if properties \<noteq> [] \<and> unexpected \<noteq> {}
                 then [''Unexpected fields: '' @ join '', '' (sorted_list_of_set unexpected)] else [])
           in Inr \<lparr>vr_valid = (length errors = 0), vr_errors = errors, vr_warnings = warnings,
                   vr_evaluation_version = ''1.0''\<rparr>))))"

definition validate_timeout :: "int \<Rightarrow> int \<Rightarrow> int" where
  "validate_timeout timeout_seconds skill_timeout =
     (if timeout_seconds \<le> 0 then skill_timeout
      else if skill_timeout \<le> 0 then timeout_seconds
      else min timeout_seconds skill_timeout)"

section \<open>Round trips\<close>

lemma manifest_roundtrip: "manifest_from_dict (manifest_to_dict m) = Inr m"
  by (simp add: manifest_from_dict_def manifest_to_dict_def)

lemma provenance_roundtrip: "provenance_from_dict (provenance_to_dict p) = Inr p"
  by (simp add: provenance_from_dict_def provenance_to_dict_def)

lemma target_roundtrip: "target_from_dict (target_to_dict t) = Inr t"
  by (simp add: target_from_dict_def target_to_dict_def)

text \<open>A plugin can provide a skill under any name that is not built in, and cannot replace one that is.\<close>

lemma resolve_external:
  "sd_activation_target (resolve_skill (register_external rs name t) m) =
     (if mf_name m = name \<and> map_of (rs_builtin rs) name = None then t else sd_activation_target (resolve_skill rs m))"
  by (auto simp: resolve_skill_def register_external_def Let_def split: option.split)

lemma manifest_register_get:
  "manifest_register r m = Inr r' \<Longrightarrow> manifest_get r (mf_skill_id m) = None \<and>
     manifest_get r' i = (if i = mf_skill_id m then Some m else manifest_get r i)"
  by (auto simp: manifest_register_def manifest_get_def dict_has_map_of split: if_splits)

section \<open>Selection of skills\<close>

lemma foldl_best:
  "foldl (\<lambda>b c. if specificity_key c < specificity_key b then c else b) m ms \<in> set (m # ms) \<and>
   (\<forall>c \<in> set (m # ms). specificity_key (foldl (\<lambda>b c. if specificity_key c < specificity_key b then c else b) m ms) \<le> specificity_key c)"
proof (induction ms arbitrary: m)
  case (Cons a ms)
  show ?case
  proof (cases "specificity_key a < specificity_key m")
    case True
    with Cons.IH [of a] show ?thesis by (auto intro: order_trans [OF _ less_imp_le])
  next
    case False
    with Cons.IH [of m] show ?thesis by (auto intro: order_trans)
  qed
qed simp

lemma select_best_Some:
  "select_best ms = Some b \<Longrightarrow> b \<in> set ms \<and> (\<forall>c \<in> set ms. specificity_key b \<le> specificity_key c)"
  using foldl_best by (cases ms) auto

lemma select_best_None [simp]: "select_best ms = None \<longleftrightarrow> ms = []"
  by (cases ms) auto

lemma candidate_decision [simp]: "sc_decision (map_decision d r) = d"
  by (simp add: map_decision_def split: option.split)

lemma candidate_blocked: "sc_blocked (map_decision d r) \<longleftrightarrow> find_by_category r (category_value (di_category d)) = []"
  by (auto simp: map_decision_def split: option.split)

text \<open>The bridge plans every decision that some registered skill can handle, and no other, in
  the order of the decisions.  The skill it chooses is registered and accepts the decision's category,
  and among all such skills it accepts the fewest categories, ties broken by the least id.\<close>

theorem bridge_selects_best:
  shows "map (\<lambda>p. sc_decision (xp_candidate p)) (create_execution_plans h ds r) =
           filter (\<lambda>d. \<exists>m \<in> set (map snd r). category_value (di_category d) \<in> set (mf_accepted_categories m)) ds \<and>
         (\<forall>p \<in> set (create_execution_plans h ds r).
           let best = sc_manifest (xp_candidate p); category = category_value (di_category (sc_decision (xp_candidate p))) in
           best \<in> set (map snd r) \<and> category \<in> set (mf_accepted_categories best) \<and>
           (\<forall>m \<in> set (map snd r). category \<in> set (mf_accepted_categories m) \<longrightarrow> specificity_key best \<le> specificity_key m))"
proof (rule conjI)
  have cat: "find_by_category r (category_value (di_category d)) \<noteq> [] \<longleftrightarrow> (\<exists>m \<in> set (map snd r). category_value (di_category d) \<in> set (mf_accepted_categories m))" for d
    by (auto simp: find_by_category_def filter_empty_conv)
  have "xp_candidate (plan_of_candidate h c) = c" for c by (simp add: plan_of_candidate_def Let_def)
  then show "map (\<lambda>p. sc_decision (xp_candidate p)) (create_execution_plans h ds r) =
      filter (\<lambda>d. \<exists>m \<in> set (map snd r). category_value (di_category d) \<in> set (mf_accepted_categories m)) ds"
    by (induction ds) (simp_all add: create_execution_plans_def map_decision_set_def candidate_blocked cat)
  show "\<forall>p \<in> set (create_execution_plans h ds r).
           let best = sc_manifest (xp_candidate p); category = category_value (di_category (sc_decision (xp_candidate p))) in
           best \<in> set (map snd r) \<and> category \<in> set (mf_accepted_categories best) \<and>
           (\<forall>m \<in> set (map snd r). category \<in> set (mf_accepted_categories m) \<longrightarrow> specificity_key best \<le> specificity_key m)"
  proof
    fix p assume "p \<in> set (create_execution_plans h ds r)"
    then obtain d where p: "xp_candidate p = map_decision d r" "\<not> sc_blocked (map_decision d r)"
      by (auto simp: create_execution_plans_def map_decision_set_def plan_of_candidate_def Let_def)
    then have "select_best (find_by_category r (category_value (di_category d))) \<noteq> None" by (simp add: candidate_blocked)
    then obtain best where b: "select_best (find_by_category r (category_value (di_category d))) = Some best" by blast
    then have "sc_manifest (map_decision d r) = best" by (simp add: map_decision_def)
    with select_best_Some [OF b] p(1) show "let best = sc_manifest (xp_candidate p); category = category_value (di_category (sc_decision (xp_candidate p))) in
           best \<in> set (map snd r) \<and> category \<in> set (mf_accepted_categories best) \<and>
           (\<forall>m \<in> set (map snd r). category \<in> set (mf_accepted_categories m) \<longrightarrow> specificity_key best \<le> specificity_key m)"
      by (auto simp: Let_def find_by_category_def)
  qed
qed

definition sample_skill :: "string \<Rightarrow> string list \<Rightarrow> string list \<Rightarrow> SkillManifest" where
  "sample_skill i categories permissions = no_manifest\<lparr>mf_skill_id := i, mf_accepted_categories := categories,
     mf_required_permissions := permissions\<rparr>"

definition sample_decision :: DecisionItem where
  "sample_decision = \<lparr>di_decision_id = ''DEC-1'', di_synthesis_id = ''SYN-1'', di_belief_id = ''BEL-1'',
     di_category = AFFIRM, di_priority = NORMAL, di_confidence = flt (9 / 10), di_impact = flt (4 / 10),
     di_contradiction_ids = [], di_belief_title = ''title'', di_belief_content = ''content'',
     di_gate_policy_version = ''1.0''\<rparr>"

theorem bridge_selects_best_witness:
  "let r = [(''a'', sample_skill ''a'' [''AFFIRM'', ''MONITOR''] []), (''b'', sample_skill ''b'' [''AFFIRM''] [])]
   in map (\<lambda>p. sc_decision (xp_candidate p)) (create_execution_plans sample_host [sample_decision] r) = [sample_decision]"
  using bridge_selects_best [of sample_host "[sample_decision]"
      "[(''a'', sample_skill ''a'' [''AFFIRM'', ''MONITOR''] []), (''b'', sample_skill ''b'' [''AFFIRM''] [])]", THEN conjunct1]
  by (simp add: Let_def sample_skill_def sample_decision_def)

section \<open>Permissions\<close>

lemma permission_check_allowed:
  "pd_allowed (permission_check required m) \<longleftrightarrow> set required \<subseteq> cm_capabilities m"
  by (auto simp: permission_check_def capability_has_def Let_def filter_empty_conv)

lemma permission_check_missing:
  "pd_missing_capabilities (permission_check required m) = filter (\<lambda>p. p \<notin> cm_capabilities m) required"
  by (simp add: permission_check_def capability_has_def Let_def)

text \<open>A skill runs only with its permissions.  If the context lacks a required capability, the
  record does not depend on the skill at all: it has no output, and its error names exactly the missing
  capabilities.  An output is recorded only if all permissions were there, and then it is the skill's.
  A plan made by the bridge has the capabilities to read memory and the ledger only, so a skill that
  requires any other one is always denied.\<close>

theorem skill_needs_permissions:
  shows "(\<not> set (mf_required_permissions (cx_manifest ctx)) \<subseteq> cm_capabilities (cx_capabilities ctx) \<longrightarrow>
           skill_execute h t1 t2 n f ctx = skill_execute h t1 t2 n' g ctx \<and>
           xr_output_snapshot (skill_execute h t1 t2 n f ctx) = None \<and>
           xr_error (skill_execute h t1 t2 n f ctx) = Some (''Missing capabilities: ''
             @ join '', '' (filter (\<lambda>p. p \<notin> cm_capabilities (cx_capabilities ctx)) (mf_required_permissions (cx_manifest ctx))))) \<and>
         (xr_output_snapshot (skill_execute h t1 t2 n f ctx) = Some out \<longrightarrow>
           set (mf_required_permissions (cx_manifest ctx)) \<subseteq> cm_capabilities (cx_capabilities ctx) \<and>
           f (cx_input_snapshot ctx) = Inr out) \<and>
         (p \<in> set (create_execution_plans h ds r) \<longrightarrow>
           cm_capabilities (cx_capabilities (xp_context p)) = {''projection:memory'', ''ledger:read''})"
proof (intro conjI impI)
  assume "\<not> set (mf_required_permissions (cx_manifest ctx)) \<subseteq> cm_capabilities (cx_capabilities ctx)"
  then have na: "\<not> pd_allowed (permission_check (mf_required_permissions (cx_manifest ctx)) (cx_capabilities ctx))"
    by (simp add: permission_check_allowed)
  then show "skill_execute h t1 t2 n f ctx = skill_execute h t1 t2 n' g ctx"
    "xr_output_snapshot (skill_execute h t1 t2 n f ctx) = None"
    by (simp_all add: skill_execute_def execution_record_def Let_def)
  from na have "pd_denial_reason (permission_check (mf_required_permissions (cx_manifest ctx)) (cx_capabilities ctx)) =
      ''Missing capabilities: '' @ join '', '' (filter (\<lambda>p. p \<notin> cm_capabilities (cx_capabilities ctx)) (mf_required_permissions (cx_manifest ctx)))"
    by (auto simp: permission_check_def capability_has_def Let_def split: if_splits)
  with na show "xr_error (skill_execute h t1 t2 n f ctx) = Some (''Missing capabilities: ''
             @ join '', '' (filter (\<lambda>p. p \<notin> cm_capabilities (cx_capabilities ctx)) (mf_required_permissions (cx_manifest ctx))))"
    by (simp add: skill_execute_def execution_record_def Let_def)
next
  assume o: "xr_output_snapshot (skill_execute h t1 t2 n f ctx) = Some out"
  show "set (mf_required_permissions (cx_manifest ctx)) \<subseteq> cm_capabilities (cx_capabilities ctx)"
    using o by (rule contrapos_pp) (simp add: skill_execute_def execution_record_def Let_def permission_check_allowed)
  show "f (cx_input_snapshot ctx) = Inr out"
    using o by (auto simp: skill_execute_def execution_record_def Let_def split: if_splits sum.splits)
next
  assume "p \<in> set (create_execution_plans h ds r)"
  then show "cm_capabilities (cx_capabilities (xp_context p)) = {''projection:memory'', ''ledger:read''}"
    by (auto simp: create_execution_plans_def plan_of_candidate_def context_post_init_def capability_model_def Let_def)
qed

definition sample_context :: "string list \<Rightarrow> ExecutionContext" where
  "sample_context permissions = xp_context (plan_of_candidate sample_host
     \<lparr>sc_decision = sample_decision, sc_manifest = sample_skill ''SKL-00000001'' [''AFFIRM''] permissions,
      sc_match_score = ''1.0'', sc_blocked = False, sc_blocked_reason = [], sc_specificity = 1\<rparr>)"

lemma sample_context_simps [simp]:
  "cm_capabilities (cx_capabilities (sample_context ps)) = {''projection:memory'', ''ledger:read''}"
  "mf_required_permissions (cx_manifest (sample_context ps)) = ps"
  by (simp_all add: sample_context_def plan_of_candidate_def context_post_init_def capability_model_def sample_skill_def Let_def)

theorem skill_needs_permissions_witness:
  "xr_error (skill_execute sample_host ''t'' ''u'' 5 (\<lambda>d. Inr []) (sample_context [''projection:graph'', ''ledger:read'']))
     = Some ''Missing capabilities: projection:graph''"
  using skill_needs_permissions [of "sample_context [''projection:graph'', ''ledger:read'']" sample_host "''t''" "''u''" 5 "\<lambda>d. Inr []",
      THEN conjunct1] by simp

section \<open>Projection of executions\<close>

definition skill_entries :: "EventRecord list \<Rightarrow> ExecutionEntry list" where
  "skill_entries events = map (\<lambda>e. entry_of_payload (er_payload e)) (filter (\<lambda>e. er_event_type e = SKILL_EXECUTED) events)"

definition in_state :: "string \<Rightarrow> ExecutionEntry \<Rightarrow> bool" where
  "in_state t e \<longleftrightarrow> en_state e = JStr t"

definition of_skill :: "json \<Rightarrow> ExecutionEntry \<Rightarrow> bool" where
  "of_skill k e \<longleftrightarrow> hash_key (en_skill_id e) = Inr k"

definition fold_spec :: "ExecutionEntry list \<Rightarrow> execution_fold \<Rightarrow> bool" where
  "fold_spec es f \<longleftrightarrow>
     xf_completed f = filter (in_state ''COMPLETED'') es \<and> xf_timeouts f = filter (in_state ''TIMEOUT'') es \<and>
     xf_denied f = filter (in_state ''DENIED'') es \<and>
     xf_failed f = filter (\<lambda>e. \<not> in_state ''COMPLETED'' e \<and> \<not> in_state ''TIMEOUT'' e \<and> \<not> in_state ''DENIED'' e) es \<and>
     xf_executed f = {k. \<exists>e \<in> set es. hash_key (en_decision_id e) = Inr k} \<and>
     (\<forall>k. dict_get (xf_counts f) k 0 = length (filter (of_skill k) es)) \<and>
     (\<forall>k. dict_get (xf_success f) k 0 = length (filter (of_skill k) (filter (in_state ''COMPLETED'') es))) \<and>
     (\<forall>k. dict_get (xf_durations f) k [] = map en_duration_ms (filter (\<lambda>e. of_skill k e \<and> en_duration_ms e \<noteq> JNull) es))"

lemma dict_get_update [simp]: "dict_get (AList.update k v d) x y = (if x = k then v else dict_get d x y)"
  by (simp add: dict_get_def)

lemma execution_add_fields:
  "xf_completed (execution_add f x d s) = xf_completed f @ filter (in_state ''COMPLETED'') [x]"
  "xf_timeouts (execution_add f x d s) = xf_timeouts f @ filter (in_state ''TIMEOUT'') [x]"
  "xf_denied (execution_add f x d s) = xf_denied f @ filter (in_state ''DENIED'') [x]"
  "xf_failed (execution_add f x d s) = xf_failed f @
     filter (\<lambda>e. \<not> in_state ''COMPLETED'' e \<and> \<not> in_state ''TIMEOUT'' e \<and> \<not> in_state ''DENIED'' e) [x]"
  "xf_executed (execution_add f x d s) = insert d (xf_executed f)"
  "dict_get (xf_counts (execution_add f x d s)) k 0 = dict_get (xf_counts f) k 0 + (if k = s then 1 else 0)"
  "dict_get (xf_success (execution_add f x d s)) k 0 =
     dict_get (xf_success f) k 0 + (if k = s \<and> in_state ''COMPLETED'' x then 1 else 0)"
  "dict_get (xf_durations (execution_add f x d s)) k [] =
     dict_get (xf_durations f) k [] @ (if k = s \<and> en_duration_ms x \<noteq> JNull then [en_duration_ms x] else [])"
  by (simp_all add: execution_add_def in_state_def count_one_def Let_def)

lemma execution_step_spec:
  assumes "execution_step f e = Inr f'" and "fold_spec es f"
  shows "fold_spec (es @ skill_entries [e]) f'"
proof (cases "er_event_type e = SKILL_EXECUTED")
  case False
  with assms show ?thesis by (simp add: execution_step_def skill_entries_def)
next
  case True
  define x where "x = entry_of_payload (er_payload e)"
  from True assms(1) obtain did sid where k: "hash_key (en_decision_id x) = Inr did" "hash_key (en_skill_id x) = Inr sid"
    "f' = execution_add f x did sid"
    by (auto simp: execution_step_def x_def Let_def)
  from True have sk: "skill_entries [e] = [x]" by (simp add: skill_entries_def x_def)
  have os: "of_skill k x \<longleftrightarrow> k = sid" for k by (auto simp: of_skill_def k)
  have "{k. \<exists>e \<in> set (es @ [x]). hash_key (en_decision_id e) = Inr k} =
      insert did {k. \<exists>e \<in> set es. hash_key (en_decision_id e) = Inr k}"
    by (auto simp: k)
  with assms(2) show ?thesis
    by (simp add: fold_spec_def k(3) sk execution_add_fields os)
qed

lemma fold_spec_rfold:
  "rfold execution_step execution_init events = Inr f \<Longrightarrow> fold_spec (skill_entries events) f"
proof (induction events arbitrary: f rule: rev_induct)
  case Nil
  then show ?case by (auto simp: fold_spec_def skill_entries_def execution_init_def dict_get_def)
next
  case (snoc e events)
  from snoc.prems obtain g where g: "rfold execution_step execution_init events = Inr g" "execution_step g e = Inr f"
    by (auto simp: rfold_append)
  from execution_step_spec [OF g(2) snoc.IH [OF g(1)]] show ?case by (simp add: skill_entries_def)
qed

lemma states_partition:
  "length (filter (in_state ''COMPLETED'') es) +
   length (filter (\<lambda>e. \<not> in_state ''COMPLETED'' e \<and> \<not> in_state ''TIMEOUT'' e \<and> \<not> in_state ''DENIED'' e) es) +
   length (filter (in_state ''TIMEOUT'') es) + length (filter (in_state ''DENIED'') es) = length es"
  by (induction es) (auto simp: in_state_def)

text \<open>The projection of executions is the classification of the recorded entries.  Each list
  holds the entries of its state in order of recording, failed ones being all that are in no other list;
  nothing is lost or counted twice; the counters and durations of a skill are those of its own entries,
  and the pending decisions are the known ones without any entry.\<close>

theorem execution_state_correct:
  assumes "execution_reduce events known = Inr st"
  shows "xs_completed_executions st = filter (in_state ''COMPLETED'') (skill_entries events) \<and>
         xs_timeout_executions st = filter (in_state ''TIMEOUT'') (skill_entries events) \<and>
         xs_denied_executions st = filter (in_state ''DENIED'') (skill_entries events) \<and>
         xs_total_executions st = length (skill_entries events) \<and>
         xs_total_failed st = length (skill_entries events) - xs_total_completed st - xs_total_timeout st - xs_total_denied st \<and>
         dict_get (xs_execution_counts st) k 0 = length (filter (of_skill k) (skill_entries events)) \<and>
         dict_get (xs_success_counts st) k 0 = length (filter (of_skill k) (xs_completed_executions st)) \<and>
         dict_get (xs_success_counts st) k 0 \<le> dict_get (xs_execution_counts st) k 0 \<and>
         dict_get (xs_durations st) k [] =
           map en_duration_ms (filter (\<lambda>e. of_skill k e \<and> en_duration_ms e \<noteq> JNull) (skill_entries events)) \<and>
         (known = Some ids \<longrightarrow> xs_pending_decisions st =
           filter (\<lambda>d. \<forall>e \<in> set (skill_entries events). hash_key (en_decision_id e) \<noteq> Inr (JStr d)) ids)"
proof -
  from assms obtain f where f: "rfold execution_step execution_init events = Inr f"
    by (auto simp: execution_reduce_def)
  note spec = fold_spec_rfold [OF f, unfolded fold_spec_def]
  have le: "length (filter (of_skill k) (filter (in_state ''COMPLETED'') es)) \<le> length (filter (of_skill k) es)" for es
    by (induction es) auto
  from assms f have st: "st = \<lparr>xs_pending_decisions = (case known of None \<Rightarrow> []
          | Some ids \<Rightarrow> filter (\<lambda>d. JStr d \<notin> xf_executed f) ids),
        xs_completed_executions = xf_completed f, xs_failed_executions = xf_failed f,
        xs_timeout_executions = xf_timeouts f, xs_denied_executions = xf_denied f,
        xs_execution_counts = xf_counts f, xs_success_counts = xf_success f, xs_durations = xf_durations f,
        xs_total_executions = length (xf_completed f) + length (xf_failed f) + length (xf_timeouts f) + length (xf_denied f),
        xs_total_completed = length (xf_completed f), xs_total_failed = length (xf_failed f),
        xs_total_timeout = length (xf_timeouts f), xs_total_denied = length (xf_denied f)\<rparr>"
    by (simp add: execution_reduce_def)
  have "xs_total_failed st = length (skill_entries events) - xs_total_completed st - xs_total_timeout st - xs_total_denied st"
    using spec states_partition [of "skill_entries events"] by (simp add: st)
  moreover have "xs_total_executions st = length (skill_entries events)"
    using spec states_partition [of "skill_entries events"] by (simp add: st)
  moreover have "JStr d \<notin> xf_executed f \<longleftrightarrow> (\<forall>e \<in> set (skill_entries events). hash_key (en_decision_id e) \<noteq> Inr (JStr d))" for d
    using spec by auto
  ultimately show ?thesis using spec le by (simp add: st)
qed

definition sample_event :: "payload \<Rightarrow> EventRecord" where
  "sample_event p = \<lparr>er_event_sequence = 1, er_id = ''e'', er_project_id = ''p'', er_stream_id = ''s'', er_version = 1,
     er_event_type = SKILL_EXECUTED,
     er_metadata = \<lparr>em_actor = [], em_source = [], em_correlation_id = [], em_session_id = []\<rparr>, er_payload = p,
     er_parent_id = None, er_recorded_at = None, er_schema_version = 1\<rparr>"

theorem execution_state_correct_witness:
  "\<exists>st. execution_reduce [sample_event [(''skill_id'', JStr ''a''), (''decision_id'', JStr ''d1''), (''state'', JStr ''COMPLETED'')]]
       (Some [''d1'', ''d2'']) = Inr st \<and>
     dict_get (xs_success_counts st) (JStr ''a'') 0 = 1 \<and> xs_pending_decisions st = [''d2'']"
proof -
  let ?es = "[sample_event [(''skill_id'', JStr ''a''), (''decision_id'', JStr ''d1''), (''state'', JStr ''COMPLETED'')]]"
  obtain st where st: "execution_reduce ?es (Some [''d1'', ''d2'']) = Inr st"
    by (simp add: execution_reduce_def execution_step_def sample_event_def entry_of_payload_def Let_def)
  from execution_state_correct [OF st, of "JStr ''a''" "[''d1'', ''d2'']"] st show ?thesis
    by (auto simp: skill_entries_def sample_event_def entry_of_payload_def in_state_def of_skill_def)
qed

text \<open>Property C29: executions of the runtime never count as completed.  A record of the runtime is always in
  the state that follows completion or failure, and the projection knows that state only as a failure: in
  a log whose executions are the payloads of runtime records, directly or through the emitter, every
  execution is counted as failed, also those that produced an output without error.\<close>

theorem runtime_records_count_as_failures:
  assumes "\<forall>e \<in> set events. er_event_type e = SKILL_EXECUTED \<longrightarrow>
      (\<exists>h t1 t2 n f ctx. er_payload e \<in> {to_event_payload h (skill_execute h t1 t2 n f ctx),
         to_payload (emit (summary_of_record (skill_execute h t1 t2 n f ctx)))})"
  shows "\<exists>st. execution_reduce events known = Inr st \<and> xs_total_completed st = 0 \<and>
           xs_total_failed st = length (filter (\<lambda>e. er_event_type e = SKILL_EXECUTED) events)"
proof -
  have created: "xr_state (skill_execute h t1 t2 n f ctx) = RESULT_CREATED" for h t1 t2 n f ctx
    by (simp add: skill_execute_def execution_record_def Let_def split: sum.split)
  have entry: "en_state (entry_of_payload (er_payload e)) = JStr ''RESULT_CREATED'' \<and>
      (\<exists>d s. en_decision_id (entry_of_payload (er_payload e)) = JStr d \<and> en_skill_id (entry_of_payload (er_payload e)) = JStr s)"
    if "e \<in> set events" "er_event_type e = SKILL_EXECUTED" for e
    using assms that
    by (fastforce simp: entry_of_payload_def to_event_payload_def to_payload_def emit_def summary_of_record_def created)
  have "\<exists>f. rfold execution_step g events = Inr f" for g
    using entry
  proof (induction events arbitrary: g)
    case (Cons e events)
    have "\<exists>g'. execution_step g e = Inr g'"
      using Cons.prems [of e] by (auto simp: execution_step_def Let_def)
    with Cons.IH Cons.prems show ?case by fastforce
  qed simp
  then obtain f where f: "rfold execution_step execution_init events = Inr f" by blast
  have "\<not> in_state ''COMPLETED'' x \<and> \<not> in_state ''TIMEOUT'' x \<and> \<not> in_state ''DENIED'' x" if "x \<in> set (skill_entries events)" for x
    using that entry by (auto simp: skill_entries_def in_state_def)
  then have "filter (in_state ''COMPLETED'') (skill_entries events) = []"
    "filter (\<lambda>e. \<not> in_state ''COMPLETED'' e \<and> \<not> in_state ''TIMEOUT'' e \<and> \<not> in_state ''DENIED'' e) (skill_entries events) = skill_entries events"
    by (simp_all add: filter_empty_conv)
  with fold_spec_rfold [OF f] f show ?thesis
    by (auto simp: execution_reduce_def fold_spec_def skill_entries_def)
qed

theorem runtime_records_count_as_failures_witness:
  "xr_output_snapshot (skill_execute sample_host ''t'' ''u'' 5 (\<lambda>d. Inr [(''ok'', JBool True)]) (sample_context []))
     = Some [(''ok'', JBool True)] \<and>
   (\<exists>st. execution_reduce [sample_event (to_event_payload sample_host
       (skill_execute sample_host ''t'' ''u'' 5 (\<lambda>d. Inr [(''ok'', JBool True)]) (sample_context [])))] None = Inr st \<and>
     xs_total_completed st = 0 \<and> xs_total_failed st = 1)"
proof -
  let ?r = "skill_execute sample_host ''t'' ''u'' 5 (\<lambda>d. Inr [(''ok'', JBool True)]) (sample_context [])"
  have "mf_timeout_seconds (cx_manifest (sample_context [])) = 0"
    by (simp add: sample_context_def plan_of_candidate_def context_post_init_def sample_skill_def no_manifest_def Let_def)
  then have "xr_output_snapshot ?r = Some [(''ok'', JBool True)]"
    by (simp add: skill_execute_def permission_check_allowed execution_record_def Let_def)
  moreover have "er_payload (sample_event (to_event_payload sample_host ?r)) = to_event_payload sample_host ?r"
    by (simp add: sample_event_def)
  then have "\<forall>e \<in> set [sample_event (to_event_payload sample_host ?r)]. er_event_type e = SKILL_EXECUTED \<longrightarrow>
      (\<exists>h t1 t2 n f ctx. er_payload e \<in> {to_event_payload h (skill_execute h t1 t2 n f ctx),
         to_payload (emit (summary_of_record (skill_execute h t1 t2 n f ctx)))})"
    unfolding list.set by blast
  from runtime_records_count_as_failures [OF this, of None]
  have "\<exists>st. execution_reduce [sample_event (to_event_payload sample_host ?r)] None = Inr st \<and>
      xs_total_completed st = 0 \<and> xs_total_failed st = 1"
    by (simp add: sample_event_def)
  ultimately show ?thesis by blast
qed

section \<open>Validation and timeouts\<close>

text \<open>What a valid output guarantees.\<close>

lemma output_validate_valid:
  assumes "output_validate output schema = Inr r" and "vr_valid r" and "schema \<noteq> []"
  shows "\<exists>required properties. as_strs (get_or schema ''required'' (JList [])) = Inr required \<and>
    get_or schema ''properties'' (JDict []) = JDict properties \<and>
    (\<forall>f \<in> set required. dict_has output f) \<and>
    (\<forall>kp \<in> set properties. property_errors output kp = Inr [])"
proof -
  from assms(1,3) obtain required properties errs where e:
    "as_strs (get_or schema ''required'' (JList [])) = Inr required"
    "get_or schema ''properties'' (JDict []) = JDict properties"
    "rmap (property_errors output) properties = Inr errs"
    "vr_valid r \<longleftrightarrow> map (\<lambda>f. ''Missing required field: '' @ f) (filter (\<lambda>f. \<not> dict_has output f) required) @ concat errs = []"
    by (auto simp: output_validate_def Let_def split: json.splits)
  from e(4) assms(2) have v: "filter (\<lambda>f. \<not> dict_has output f) required = []" "concat errs = []" by simp_all
  have "rmap g xs = Inr ys \<Longrightarrow> concat ys = [] \<Longrightarrow> \<forall>x \<in> set xs. g x = Inr []" for g :: "string \<times> json \<Rightarrow> string list result" and xs ys
    by (induction xs arbitrary: ys) auto
  with e v show ?thesis by (auto simp: filter_empty_conv)
qed

lemma validate_timeout_bounds:
  "(0 < a \<longrightarrow> validate_timeout a b \<le> a) \<and> (0 < b \<longrightarrow> validate_timeout a b \<le> b) \<and>
   (0 < a \<or> 0 < b \<longrightarrow> 0 < validate_timeout a b)"
  by (auto simp: validate_timeout_def)

end
