(* ===== verification/GraphSearch.thy ===== *)
theory GraphSearch
  imports Prelude
begin

text \<open>
  Breadth-first search.  The graph classes of the program repeat two loops.  One marks a node when it
  is put into the queue (\<open>bfs_mark\<close>); the other marks it when it is taken out, so that the queue may
  hold a node several times (\<open>bfs_visit\<close>).  An entry of the queue is a node with what the loop
  carries along (a distance, a path, a confidence); \<open>exp\<close> gives the entries for the neighbours of an
  entry, in the order in which the loop meets them.  Both definitions return the entries in the order
  in which they are processed, from which the callers read their results.  The list \<open>U\<close> holds the
  nodes that edges lead to; the loops never meet another one, and it bounds the recursion.

  The locale \<open>breadth_first\<close> states what a search with distances finds, and \<open>reachability\<close> what a
  search without them finds.
\<close>

section \<open>The loops\<close>

text \<open>The entries whose node is not marked yet; later entries for the same node are dropped.\<close>

fun fresh :: "'n set \<Rightarrow> ('n \<times> 'p) list \<Rightarrow> ('n \<times> 'p) list" where
  "fresh V [] = []"
| "fresh V (x # xs) = (if fst x \<in> V then fresh V xs else x # fresh (insert (fst x) V) xs)"

lemma set_fresh: "set (fresh V xs) \<subseteq> set xs"
  by (induction V xs rule: fresh.induct) auto

lemma fst_fresh: "fst ` set (fresh V xs) = fst ` set xs - V"
  by (induction V xs rule: fresh.induct) auto

lemma distinct_fresh: "distinct (map fst (fresh V xs))"
  by (induction V xs rule: fresh.induct) (auto simp: fst_fresh)

lemma fresh_append: "fresh V (xs @ ys) = fresh V xs @ fresh (V \<union> fst ` set (fresh V xs)) ys"
  by (induction V xs rule: fresh.induct) (simp_all add: Un_commute)

lemma fresh_filter: "W \<subseteq> V \<Longrightarrow> fresh V (filter (\<lambda>x. fst x \<notin> W \<and> P x) xs) = fresh V (filter P xs)"
  by (induction xs arbitrary: V) (auto simp: subset_insertI2)

lemma fresh_id: "distinct (map fst xs) \<Longrightarrow> fst ` set xs \<inter> V = {} \<Longrightarrow> fresh V xs = xs"
  by (induction V xs rule: fresh.induct) auto

definition expand :: "'n list \<Rightarrow> ('n \<times> 'p \<Rightarrow> ('n \<times> 'p) list) \<Rightarrow> 'n set \<Rightarrow> 'n \<times> 'p \<Rightarrow> ('n \<times> 'p) list" where
  "expand U exp V x = fresh V (filter (\<lambda>y. fst y \<in> set U) (exp x))"

lemma expand_facts:
  "set (expand U exp V x) \<subseteq> set (exp x)"
  "fst ` set (expand U exp V x) = fst ` set (exp x) \<inter> set U - V"
  "distinct (map fst (expand U exp V x))"
  using set_fresh [of V "filter (\<lambda>y. fst y \<in> set U) (exp x)"]
  by (auto simp: expand_def fst_fresh distinct_fresh)

function bfs_mark :: "'n list \<Rightarrow> ('n \<times> 'p \<Rightarrow> ('n \<times> 'p) list) \<Rightarrow> 'n set \<Rightarrow> ('n \<times> 'p) list \<Rightarrow> ('n \<times> 'p) list" where
  "bfs_mark U exp V [] = []"
| "bfs_mark U exp V (x # q) =
     (let new = expand U exp V x in x # bfs_mark U exp (V \<union> fst ` set new) (q @ new))"
  by pat_completeness auto

lemma card_diff_marked:
  assumes "distinct (map fst new)" "fst ` set new \<subseteq> set U - V"
  shows "card (set U - (V \<union> fst ` set new)) + length new = card (set U - V)"
proof -
  have "card (fst ` set new) = length new"
    using assms(1) by (metis distinct_card length_map list.set_map)
  moreover have "card (fst ` set new) \<le> card (set U - V)" using assms(2) by (simp add: card_mono)
  moreover have "set U - (V \<union> fst ` set new) = set U - V - fst ` set new" by auto
  ultimately show ?thesis using card_Diff_subset [OF _ assms(2)] by simp
qed

termination bfs_mark
proof (relation "measure (\<lambda>(U, exp, V, q). 2 * card (set U - V) + length q)", goal_cases)
  case 1 show ?case by simp
next
  case (2 U exp V x q new)
  have "distinct (map fst new)" "fst ` set new \<subseteq> set U - V"
    unfolding 2 by (auto simp: expand_facts)
  from card_diff_marked [OF this] show ?case by simp
qed

function bfs_visit :: "'n list \<Rightarrow> ('n \<times> 'p \<Rightarrow> bool) \<Rightarrow> ('n \<times> 'p \<Rightarrow> ('n \<times> 'p) list) \<Rightarrow> 'n set \<Rightarrow> ('n \<times> 'p) list \<Rightarrow> ('n \<times> 'p) list" where
  "bfs_visit U ok exp V [] = []"
| "bfs_visit U ok exp V (x # q) =
     (if fst x \<in> V \<or> \<not> ok x then bfs_visit U ok exp V q
      else x # bfs_visit U ok exp (insert (fst x) V)
             (q @ filter (\<lambda>y. fst y \<notin> insert (fst x) V \<and> fst y \<in> set U) (exp x)))"
  by pat_completeness auto

termination bfs_visit
proof (relation "measures [\<lambda>(U, ok, exp, V, q). card ((set U \<union> fst ` set q) - V), \<lambda>(U, ok, exp, V, q). length q]", goal_cases)
  case 1 show ?case by simp
next
  case (2 U ok exp V x q)
  have "card (set U \<union> fst ` set q - V) \<le> card (set U \<union> fst ` set (x # q) - V)"
    by (rule card_mono) auto
  then show ?case by auto
next
  case (3 U ok exp V x q)
  have "card (set U \<union> fst ` set (q @ filter (\<lambda>y. fst y \<notin> insert (fst x) V \<and> fst y \<in> set U) (exp x)) - insert (fst x) V)
      < card (set U \<union> fst ` set (x # q) - V)"
    by (rule psubset_card_mono) (use 3 in auto)
  then show ?case by simp
qed

text \<open>The second loop is the first one after removal of the entries it will skip.\<close>

theorem bfs_visit_mark:
  "bfs_visit U ok exp V q =
     bfs_mark U (\<lambda>x. filter ok (exp x)) (V \<union> fst ` set (fresh V (filter ok q))) (fresh V (filter ok q))"
proof (induction U ok exp V q rule: bfs_visit.induct)
  case (1 U ok exp V)
  show ?case by simp
next
  case (2 U ok exp V x q)
  show ?case
  proof (cases "fst x \<in> V \<or> \<not> ok x")
    case True
    with 2(1) show ?thesis by auto
  next
    case False
    define I where "I = insert (fst x) V"
    define F where "F = fresh I (filter ok q)"
    define W where "W = I \<union> fst ` set F"
    define ys where "ys = filter (\<lambda>y. fst y \<notin> I \<and> fst y \<in> set U) (exp x)"
    define new where "new = fresh W (filter ok ys)"
    have "filter ok ys = filter (\<lambda>y. fst y \<notin> I \<and> (fst y \<in> set U \<and> ok y)) (exp x)"
      by (auto simp: ys_def intro: filter_cong)
    then have new: "new = fresh W (filter (\<lambda>y. fst y \<in> set U) (filter ok (exp x)))"
      using fresh_filter [of I W "\<lambda>y. fst y \<in> set U \<and> ok y" "exp x"] by (simp add: new_def W_def conj_commute)
    have "bfs_visit U ok exp I (q @ ys) =
            bfs_mark U (\<lambda>x. filter ok (exp x)) (I \<union> fst ` set (fresh I (filter ok (q @ ys)))) (fresh I (filter ok (q @ ys)))"
      using 2(2) [OF False] by (simp add: I_def ys_def)
    also have "fresh I (filter ok (q @ ys)) = F @ new"
      by (simp add: fresh_append F_def new_def W_def)
    also have "I \<union> fst ` set (F @ new) = W \<union> fst ` set new" by (auto simp: W_def)
    finally have lhs: "bfs_visit U ok exp V (x # q) = x # bfs_mark U (\<lambda>x. filter ok (exp x)) (W \<union> fst ` set new) (F @ new)"
      using False by (simp add: I_def ys_def)
    have "fresh V (filter ok (x # q)) = x # F" using False by (simp add: F_def I_def)
    moreover have "V \<union> fst ` set (x # F) = W" by (auto simp: W_def I_def)
    ultimately show ?thesis unfolding lhs by (simp add: Let_def expand_def new del: fresh.simps filter.simps)
  qed
qed

lemma visit_from_start:
  "P p \<Longrightarrow> bfs_visit U (\<lambda>x. P (snd x)) f {} [(s, p)] = bfs_mark U (\<lambda>x. filter (\<lambda>y. P (snd y)) (f x)) {s} [(s, p)]"
  by (simp add: bfs_visit_mark)

section \<open>What the first loop processes\<close>

lemma mark_Cons:
  "bfs_mark U exp V (x # q) = x # bfs_mark U exp (V \<union> fst ` set (expand U exp V x)) (q @ expand U exp V x)"
  by (simp add: Let_def)

lemma mark_induct [case_names Nil Cons]:
  assumes "\<And>V. P V []" and "\<And>V x q. P (V \<union> fst ` set (expand U exp V x)) (q @ expand U exp V x) \<Longrightarrow> P V (x # q)"
  shows "P V q"
proof -
  have "U' = U \<longrightarrow> exp' = exp \<longrightarrow> P V q" for U' exp'
    by (induction U' exp' V q rule: bfs_mark.induct) (use assms in auto)
  then show ?thesis by blast
qed

declare bfs_mark.simps(2) [simp del] bfs_visit.simps(2) [simp del]

text \<open>Everything processed comes from the queue by expansion.\<close>

lemma mark_entries:
  assumes "z \<in> set (bfs_mark U exp V q)" and "\<And>x. x \<in> set q \<Longrightarrow> P x" and "\<And>x y. P x \<Longrightarrow> y \<in> set (exp x) \<Longrightarrow> P y"
  shows "P z"
  using assms(1,2)
proof (induction V q rule: mark_induct [where U = U and exp = exp])
  case (Cons V x q)
  have "P y" if "y \<in> set (expand U exp V x)" for y
    using that expand_facts(1) [of U exp V x] assms(3) [of x y] Cons(3) [of x] by auto
  then have "P y" if "y \<in> set (q @ expand U exp V x)" for y using that Cons(3) by (metis Un_iff list.set_intros(2) set_append)
  moreover have "P x" by (rule Cons(3)) simp
  ultimately show ?case using Cons(1,2) by (metis mark_Cons set_ConsD)
qed simp

lemma mark_queue: "x \<in> set q \<Longrightarrow> x \<in> set (bfs_mark U exp V q)"
  by (induction V q rule: mark_induct [where U = U and exp = exp]) (auto simp: mark_Cons)

lemma mark_queue_nodes: "n \<in> fst ` set q \<Longrightarrow> n \<in> fst ` set (bfs_mark U exp V q)"
  using mark_queue by fastforce

lemma mark_new_nodes: "n \<in> fst ` set (bfs_mark U exp V q) \<Longrightarrow> n \<in> V \<Longrightarrow> n \<in> fst ` set q"
proof (induction V q rule: mark_induct [where U = U and exp = exp])
  case (Cons V x q)
  from Cons(2) consider "n = fst x"
    | "n \<in> fst ` set (bfs_mark U exp (V \<union> fst ` set (expand U exp V x)) (q @ expand U exp V x))"
    by (auto simp: mark_Cons)
  then show ?case
  proof cases
    case 2
    with Cons(1,3) have "n \<in> fst ` set q \<union> fst ` set (expand U exp V x)" by (simp add: image_Un)
    then show ?thesis using Cons(3) expand_facts(2) [of U exp V x] by simp
  qed simp
qed simp

lemma mark_distinct:
  "distinct (map fst q) \<Longrightarrow> fst ` set q \<subseteq> V \<Longrightarrow> distinct (map fst (bfs_mark U exp V q))"
proof (induction V q rule: mark_induct [where U = U and exp = exp])
  case (Cons V x q)
  let ?new = "expand U exp V x"
  let ?rest = "bfs_mark U exp (V \<union> fst ` set ?new) (q @ ?new)"
  have new: "distinct (map fst ?new)" "fst ` set ?new \<inter> V = {}"
    using expand_facts(2,3) [of U exp V x] by blast+
  have "distinct (map fst ?rest)" using Cons(2,3) new by (intro Cons(1)) auto
  moreover have "fst x \<notin> fst ` set ?rest"
    using mark_new_nodes [of "fst x" U exp "V \<union> fst ` set ?new" "q @ ?new"] Cons(2,3) new(2) by auto
  ultimately show ?case by (simp add: mark_Cons)
qed simp

lemma mark_closed:
  "x \<in> set (bfs_mark U exp V q) \<Longrightarrow> n \<in> fst ` set (exp x) \<Longrightarrow> n \<in> set U \<Longrightarrow> n \<in> V \<or> n \<in> fst ` set (bfs_mark U exp V q)"
proof (induction V q rule: mark_induct [where U = U and exp = exp])
  case (Cons V z q)
  define rest where "rest = bfs_mark U exp (V \<union> fst ` set (expand U exp V z)) (q @ expand U exp V z)"
  have eq: "bfs_mark U exp V (z # q) = z # rest" by (simp add: rest_def mark_Cons)
  have sub: "fst ` set (expand U exp V z) \<subseteq> fst ` set rest"
    unfolding rest_def by (intro subsetI mark_queue_nodes) (simp add: image_Un)
  have "n \<in> V \<or> n \<in> fst ` set (expand U exp V z) \<or> n \<in> fst ` set rest"
  proof (cases "x \<in> set rest")
    case True
    with Cons(1,3,4) show ?thesis by (auto simp: rest_def [symmetric])
  next
    case False
    with Cons(2) have "x = z" by (simp add: eq)
    with Cons(3,4) show ?thesis by (auto simp: expand_facts(2))
  qed
  with sub show ?case unfolding eq by auto
qed simp

section \<open>Reachability\<close>

locale reachability =
  fixes U :: "'n list" and exp :: "'n \<times> 'p \<Rightarrow> ('n \<times> 'p) list" and R :: "('n \<times> 'n) set" and N :: "'n set"
  assumes exp_nodes: "fst x \<in> N \<Longrightarrow> fst ` set (exp x) = R `` {fst x}"
    and nodes: "Range R \<subseteq> set U" "Range R \<subseteq> N"
begin

lemma reach:
  assumes "R `` V \<subseteq> V" and "s \<notin> V" and "s \<in> N"
  shows "fst ` set (bfs_mark U exp (insert s V) [(s, p)]) = R\<^sup>* `` {s} - V" (is "?L = _")
proof (intro equalityI subsetI)
  fix m assume m: "m \<in> ?L"
  then obtain z where z: "z \<in> set (bfs_mark U exp (insert s V) [(s, p)])" "m = fst z" by auto
  have "(s, fst z) \<in> R\<^sup>* \<and> fst z \<in> N"
    using z(1)
  proof (rule mark_entries)
    fix x y assume x: "(s, fst x) \<in> R\<^sup>* \<and> fst x \<in> N" and "y \<in> set (exp x)"
    then have "(fst x, fst y) \<in> R" using exp_nodes [of x] by auto
    with x show "(s, fst y) \<in> R\<^sup>* \<and> fst y \<in> N" using nodes(2) by (auto intro: rtrancl_into_rtrancl)
  qed (use assms(3) in simp)
  moreover have "m \<notin> V" using mark_new_nodes [OF m] assms(2) by auto
  ultimately show "m \<in> R\<^sup>* `` {s} - V" using z by simp
next
  fix m assume m: "m \<in> R\<^sup>* `` {s} - V"
  have s: "s \<in> ?L" using mark_queue [of "(s, p)" "[(s, p)]"] by force
  from m have "(s, m) \<in> R\<^sup>*" by simp
  then have "m \<in> N \<and> m \<in> V \<union> ?L"
  proof (induction rule: rtrancl_induct)
    case (step m m')
    show ?case
    proof (cases "m \<in> V")
      case False
      then obtain x where x: "x \<in> set (bfs_mark U exp (insert s V) [(s, p)])" "fst x = m" using step(3) by auto
      from step(2,3) x(2) have "m' \<in> fst ` set (exp x)" using exp_nodes [of x] by auto
      moreover have "m' \<in> set U" "m' \<in> N" using step(2) nodes by auto
      ultimately show ?thesis using mark_closed [OF x(1)] s by auto
    qed (use step(2) assms(1) nodes(2) in auto)
  qed (use s assms(3) in simp)
  with m show "m \<in> ?L" by auto
qed

end

section \<open>Distances\<close>

text \<open>Distances are the lengths of shortest walks; a search follows edges while \<open>more\<close> holds of the
  distance reached.  Entries satisfy the invariant \<open>good\<close>.\<close>

definition distance :: "('n \<times> 'n) set \<Rightarrow> 'n \<Rightarrow> 'n \<Rightarrow> nat \<Rightarrow> bool" where
  "distance R s n k \<longleftrightarrow> (s, n) \<in> R ^^ k \<and> (\<forall>j < k. (s, n) \<notin> R ^^ j)"

lemma distance_unique: "distance R s n k \<Longrightarrow> distance R s n j \<Longrightarrow> j = k"
  unfolding distance_def by (metis linorder_neqE_nat)

lemma distance_exists: "(s, n) \<in> R ^^ k \<Longrightarrow> \<exists>j \<le> k. distance R s n j"
proof (induction k rule: less_induct)
  case (less k)
  show ?case
  proof (cases "\<exists>j < k. (s, n) \<in> R ^^ j")
    case True
    then obtain j where "j < k" "(s, n) \<in> R ^^ j" by auto
    with less(1) [of j] show ?thesis by (meson less_imp_le order_trans)
  qed (use less(2) in \<open>auto simp: distance_def\<close>)
qed

locale breadth_first =
  fixes U :: "'n list" and exp :: "'n \<times> 'p \<Rightarrow> ('n \<times> 'p) list" and R :: "('n \<times> 'n) set"
    and dep :: "'p \<Rightarrow> nat" and more :: "nat \<Rightarrow> bool" and good :: "'n \<times> 'p \<Rightarrow> bool"
  assumes exp_nodes: "good x \<Longrightarrow> more (dep (snd x)) \<Longrightarrow> fst ` set (exp x) = R `` {fst x}"
    and exp_stop: "good x \<Longrightarrow> \<not> more (dep (snd x)) \<Longrightarrow> exp x = []"
    and exp_dep: "good x \<Longrightarrow> y \<in> set (exp x) \<Longrightarrow> dep (snd y) = Suc (dep (snd x))"
    and exp_good: "good x \<Longrightarrow> y \<in> set (exp x) \<Longrightarrow> good y"
    and nodes: "Range R \<subseteq> set U"
    and more_antimono: "more k \<Longrightarrow> j \<le> k \<Longrightarrow> more j"
begin

text \<open>The invariant of the loop: distances in the queue are exact and ascending and differ by at most
  one, and what has left the queue has been expanded unless it was too far.\<close>

definition level :: "'n \<Rightarrow> 'n set \<Rightarrow> ('n \<times> 'p) list \<Rightarrow> bool" where
  "level s V q \<longleftrightarrow>
     distinct (map fst q) \<and> fst ` set q \<subseteq> V \<and> s \<in> V \<and>
     sorted (map (dep \<circ> snd) q) \<and> (\<forall>x \<in> set q. dep (snd x) \<le> Suc (dep (snd (hd q)))) \<and>
     (\<forall>x \<in> set q. good x \<and> distance R s (fst x) (dep (snd x))) \<and>
     (\<forall>u \<in> V - fst ` set q. R `` {u} \<subseteq> V \<or> (\<forall>k. (s, u) \<in> R ^^ k \<longrightarrow> \<not> more k))"

text \<open>A walk that leaves the marked nodes passes through the queue or goes too far.\<close>

lemma walk_leaves:
  assumes "level s V (x # q)" and "(s, n) \<in> R ^^ k" and "n \<notin> V"
  shows "dep (snd x) < k \<or> (\<exists>j < k. \<not> more j)"
  using assms(2,3)
proof (induction k arbitrary: n)
  case 0
  then show ?case using assms(1) by (auto simp: level_def)
next
  case (Suc k)
  then obtain u where u: "(s, u) \<in> R ^^ k" "(u, n) \<in> R" by auto
  show ?case
  proof (cases "u \<in> V")
    case False
    then show ?thesis using Suc(1) [OF u(1)] by (auto simp: less_Suc_eq)
  next
    case True
    show ?thesis
    proof (cases "u \<in> fst ` set (x # q)")
      case True
      then obtain y where y: "y \<in> set (x # q)" "fst y = u" by (elim imageE) simp
      with assms(1) have "dep (snd x) \<le> dep (snd y)" "distance R s u (dep (snd y))"
        unfolding level_def by auto
      with u(1) show ?thesis by (metis distance_def le_less_trans less_Suc_eq_le not_le)
    next
      case False
      with True assms(1) u(2) Suc(3) have "\<not> more k" using u(1) unfolding level_def by blast
      then show ?thesis by blast
    qed
  qed
qed

lemma level_step:
  assumes lev: "level s V (x # q)"
  defines "new \<equiv> expand U exp V x"
  shows "level s (V \<union> fst ` set new) (q @ new)"
proof -
  define d where "d = dep (snd x)"
  have gx: "good x" using lev by (simp add: level_def)
  have fnew: "fst ` set new = fst ` set (exp x) \<inter> set U - V" and sub: "set new \<subseteq> set (exp x)"
    unfolding new_def by (rule expand_facts)+
  have dnew: "dep (snd y) = Suc d" if "y \<in> set new" for y using exp_dep [of x y] gx sub that by (auto simp: d_def)
  have q: "dep (snd y) \<le> Suc d" "d \<le> dep (snd y)" if "y \<in> set q" for y using lev that by (auto simp: level_def d_def)
  have dist: "distance R s (fst y) (Suc d)" if y: "y \<in> set new" for y
  proof -
    have m: "more d" using exp_stop [of x] gx y sub by (cases "more d") (auto simp: d_def)
    have "(fst x, fst y) \<in> R" using exp_nodes [of x] gx m y sub by (force simp: d_def)
    moreover have "(s, fst x) \<in> R ^^ d" using lev by (auto simp: level_def distance_def d_def)
    ultimately have "(s, fst y) \<in> R ^^ Suc d" by auto
    moreover have "(s, fst y) \<notin> R ^^ j" if jd: "j < Suc d" for j
    proof
      assume "(s, fst y) \<in> R ^^ j"
      moreover have "fst y \<notin> V" using y fnew by auto
      ultimately have "d < j \<or> (\<exists>i < j. \<not> more i)" using walk_leaves [OF lev] by (simp add: d_def)
      with jd obtain i where "i < j" "\<not> more i" by auto
      then have "i \<le> d" "\<not> more i" using jd by auto
      then show False using more_antimono [OF m] by blast
    qed
    ultimately show ?thesis by (simp add: distance_def)
  qed
  have x: "R `` {fst x} \<subseteq> V \<union> fst ` set new \<or> (\<forall>k. (s, fst x) \<in> R ^^ k \<longrightarrow> \<not> more k)"
  proof (cases "more d")
    case True
    have "R `` {fst x} \<subseteq> set U" using nodes by auto
    with exp_nodes [of x] gx True show ?thesis unfolding fnew d_def by auto
  next
    case False
    have "d \<le> k" if "(s, fst x) \<in> R ^^ k" for k using lev that unfolding level_def distance_def d_def by (metis list.set_intros(1) not_le)
    with False more_antimono show ?thesis by blast
  qed
  have "map (dep \<circ> snd) new = replicate (length new) (Suc d)" using dnew by (intro replicate_eqI) auto
  then have srt: "sorted (map (dep \<circ> snd) (q @ new))"
    using lev q(1) by (auto simp: level_def sorted_append)
  have hd: "\<forall>y \<in> set (q @ new). dep (snd y) \<le> Suc (dep (snd (hd (q @ new))))"
    using dnew q by (cases q; cases new) (auto, fastforce+)
  have "\<forall>u \<in> V \<union> fst ` set new - fst ` set (q @ new). R `` {u} \<subseteq> V \<union> fst ` set new \<or> (\<forall>k. (s, u) \<in> R ^^ k \<longrightarrow> \<not> more k)"
  proof
    fix u assume u: "u \<in> V \<union> fst ` set new - fst ` set (q @ new)"
    show "R `` {u} \<subseteq> V \<union> fst ` set new \<or> (\<forall>k. (s, u) \<in> R ^^ k \<longrightarrow> \<not> more k)"
    proof (cases "u = fst x")
      case False
      with u have "u \<in> V - fst ` set (x # q)" by auto
      with lev show ?thesis unfolding level_def by blast
    qed (use x in simp)
  qed
  moreover have "distinct (map fst (q @ new))" using lev fnew by (auto simp: level_def new_def expand_facts)
  moreover have "good y \<and> distance R s (fst y) (dep (snd y))" if "y \<in> set new" for y
    using dist [OF that] dnew [OF that] that exp_good [OF gx, of y] sub by auto
  ultimately show ?thesis using lev srt hd unfolding level_def by auto
qed

lemma mark_distance: "level s V q \<Longrightarrow> x \<in> set (bfs_mark U exp V q) \<Longrightarrow> good x \<and> distance R s (fst x) (dep (snd x))"
proof (induction V q rule: mark_induct [where U = U and exp = exp])
  case (Cons V y q)
  from Cons(3) consider "x = y" | "x \<in> set (bfs_mark U exp (V \<union> fst ` set (expand U exp V y)) (q @ expand U exp V y))"
    by (auto simp: mark_Cons)
  then show ?case
  proof cases
    case 1
    with Cons(2) show ?thesis by (simp add: level_def)
  qed (use Cons(1) level_step [OF Cons(2)] in blast)
qed simp

lemma mark_sorted: "level s V q \<Longrightarrow> sorted (map (dep \<circ> snd) (bfs_mark U exp V q))"
proof (induction V q rule: mark_induct [where U = U and exp = exp])
  case (Cons V y q)
  let ?rest = "bfs_mark U exp (V \<union> fst ` set (expand U exp V y)) (q @ expand U exp V y)"
  have "good x \<and> dep (snd y) \<le> dep (snd x)" if "x \<in> set ?rest" for x
    using that
  proof (rule mark_entries)
    fix x assume "x \<in> set (q @ expand U exp V y)"
    then show "good x \<and> dep (snd y) \<le> dep (snd x)"
      using Cons(2) expand_facts(1) [of U exp V y] exp_dep [of y x] exp_good [of y x] by (auto simp: level_def)
  next
    fix x z assume "good x \<and> dep (snd y) \<le> dep (snd x)" "z \<in> set (exp x)"
    then show "good z \<and> dep (snd y) \<le> dep (snd z)" using exp_dep [of x z] exp_good [of x z] by simp
  qed
  with Cons(1) [OF level_step [OF Cons(2)]] show ?case by (auto simp: mark_Cons)
qed simp

text \<open>The search from \<open>s\<close> processes exactly the nodes that are near enough, each once, in order of
  distance, and with its distance.\<close>

lemma search:
  fixes s p
  assumes "dep p = 0" and "good (s, p)"
  defines "found \<equiv> bfs_mark U exp {s} [(s, p)]"
  shows "distinct (map fst found)"
    and "sorted (map (dep \<circ> snd) found)"
    and "x \<in> set found \<Longrightarrow> good x \<and> distance R s (fst x) (dep (snd x))"
    and "n \<in> fst ` set found \<longleftrightarrow> (\<exists>k. (s, n) \<in> R ^^ k \<and> (\<forall>j < k. more j))"
proof -
  have lev: "level s {s} [(s, p)]" using assms(1,2) by (simp add: level_def distance_def)
  show "distinct (map fst found)" unfolding found_def by (rule mark_distinct) simp_all
  show "sorted (map (dep \<circ> snd) found)" unfolding found_def by (rule mark_sorted [OF lev])
  show dist: "good x \<and> distance R s (fst x) (dep (snd x))" if "x \<in> set found" for x
    using that unfolding found_def by (rule mark_distance [OF lev])
  show "n \<in> fst ` set found \<longleftrightarrow> (\<exists>k. (s, n) \<in> R ^^ k \<and> (\<forall>j < k. more j))"
  proof
    assume "n \<in> fst ` set found"
    then obtain x where x: "x \<in> set found" "fst x = n" by auto
    from x(1) have "good x \<and> (\<forall>j < dep (snd x). more j)"
      unfolding found_def
    proof (rule mark_entries)
      fix y z assume y: "good y \<and> (\<forall>j < dep (snd y). more j)" and z: "z \<in> set (exp y)"
      from y z have "more (dep (snd y))" using exp_stop [of y] by (cases "more (dep (snd y))") auto
      with y z exp_dep [of y z] exp_good [of y z] show "good z \<and> (\<forall>j < dep (snd z). more j)" by (simp add: less_Suc_eq)
    qed (use assms(1,2) in simp)
    with dist [OF x(1)] x(2) show "\<exists>k. (s, n) \<in> R ^^ k \<and> (\<forall>j < k. more j)" by (auto simp: distance_def)
  next
    assume "\<exists>k. (s, n) \<in> R ^^ k \<and> (\<forall>j < k. more j)"
    then obtain k where "(s, n) \<in> R ^^ k" "\<forall>j < k. more j" by blast
    then show "n \<in> fst ` set found"
    proof (induction k arbitrary: n)
      case 0
      then show ?case using mark_queue [of "(s, p)" "[(s, p)]"] by (force simp: found_def)
    next
      case (Suc k)
      then obtain u where u: "(s, u) \<in> R ^^ k" "(u, n) \<in> R" by auto
      with Suc have "u \<in> fst ` set found" by simp
      then obtain x where x: "x \<in> set found" "fst x = u" by auto
      have "dep (snd x) \<le> k" using dist [OF x(1)] x(2) u(1) unfolding distance_def by (metis not_le)
      then have "more (dep (snd x))" using Suc(3) by simp
      with u(2) x(2) have "n \<in> fst ` set (exp x)" using exp_nodes [of x] dist [OF x(1)] by auto
      moreover have "n \<in> set U" using u(2) nodes by auto
      moreover have "s \<in> fst ` set found" using mark_queue [of "(s, p)" "[(s, p)]"] by (force simp: found_def)
      ultimately show ?case using mark_closed [of x U exp "{s}" "[(s, p)]" n] x(1) by (auto simp: found_def)
    qed
  qed
qed

end

section \<open>Connected components\<close>

text \<open>The loop that starts a search at every node that no earlier search has met.\<close>

fun components :: "('n set \<Rightarrow> 'n \<Rightarrow> 'n list) \<Rightarrow> 'n set \<Rightarrow> 'n list \<Rightarrow> 'n list list" where
  "components search V [] = []"
| "components search V (n # ns) =
     (if n \<in> V then components search V ns
      else let c = search V n in c # components search (V \<union> set c) ns)"

locale component_search =
  fixes search :: "'n set \<Rightarrow> 'n \<Rightarrow> 'n list" and R :: "('n \<times> 'n) set" and N :: "'n set"
  assumes search: "R `` V \<subseteq> V \<Longrightarrow> n \<notin> V \<Longrightarrow> n \<in> N \<Longrightarrow> set (search V n) = R\<^sup>* `` {n} - V"
    and sym: "sym R"
begin

lemma class_outside: "R `` V \<subseteq> V \<Longrightarrow> n \<notin> V \<Longrightarrow> R\<^sup>* `` {n} \<inter> V = {}"
proof -
  assume V: "R `` V \<subseteq> V" "n \<notin> V"
  have "n \<in> V" if "(n, m) \<in> R\<^sup>*" "m \<in> V" for m
  proof -
    have "(m, n) \<in> R\<^sup>*" using that(1) sym by (metis sym_rtrancl symD)
    then show ?thesis using V(1) that(2) by (induction rule: rtrancl_induct) auto
  qed
  with V show ?thesis by auto
qed

lemma class_closed: "R `` (R\<^sup>* `` {n}) \<subseteq> R\<^sup>* `` {n}"
  by (auto intro: rtrancl_into_rtrancl)

lemma class_eq: "(n, m) \<in> R\<^sup>* \<Longrightarrow> R\<^sup>* `` {m} = R\<^sup>* `` {n}"
  using symD [OF sym_rtrancl [OF sym]] by (auto intro: rtrancl_trans)

text \<open>The components found are the classes of the nodes, each once.\<close>

lemma components_classes:
  assumes "R `` V \<subseteq> V" and "set ns \<subseteq> N"
  shows "set ` set (components search V ns) = (\<lambda>n. R\<^sup>* `` {n}) ` (set ns - V)"
    and "distinct (map set (components search V ns))"
  using assms
proof (induction ns arbitrary: V)
  case (Cons n ns)
  {
    case 1
    have N: "n \<in> N" "set ns \<subseteq> N" using 1(2) by simp_all
    show ?case
    proof (cases "n \<in> V")
      case True
      then show ?thesis using Cons(1) [OF 1(1) N(2)] by (simp add: insert_Diff_if)
    next
      case False
      let ?C = "R\<^sup>* `` {n}"
      have c: "set (search V n) = ?C" using search [OF 1(1) False N(1)] class_outside [OF 1(1) False] by auto
      have cl: "R `` (V \<union> ?C) \<subseteq> V \<union> ?C" using 1(1) class_closed [of n] by blast
      have "(\<lambda>m. R\<^sup>* `` {m}) ` (set (n # ns) - V) = insert ?C ((\<lambda>m. R\<^sup>* `` {m}) ` (set ns - (V \<union> ?C)))"
        using False class_eq by (auto simp: image_iff)
      then show ?thesis using Cons(1) [OF cl N(2)] False by (simp add: Let_def c)
    qed
  next
    case 2
    have N: "n \<in> N" "set ns \<subseteq> N" using 2(2) by simp_all
    show ?case
    proof (cases "n \<in> V")
      case True
      then show ?thesis using Cons(2) [OF 2(1) N(2)] by simp
    next
      case False
      let ?C = "R\<^sup>* `` {n}"
      have c: "set (search V n) = ?C" using search [OF 2(1) False N(1)] class_outside [OF 2(1) False] by auto
      have cl: "R `` (V \<union> ?C) \<subseteq> V \<union> ?C" using 2(1) class_closed [of n] by blast
      have "?C \<notin> set ` set (components search (V \<union> ?C) ns)"
        unfolding Cons(1) [OF cl N(2)] using class_outside [OF cl] by blast
      then show ?thesis using Cons(2) [OF cl N(2)] False by (simp add: Let_def c)
    qed
  }
qed simp_all

end

end
