(* ===== verification/KnowledgeGraph.thy ===== *)
theory KnowledgeGraph
  imports Knowledge GraphSearch "HOL-Library.Product_Lexorder"
begin

text \<open>
  The knowledge graph (\<open>knowledge/graph.py\<close>): nodes and edges projected from knowledge objects and
  relations, with the queries on them.  Node ids are hashes of type, title and version.  Python's sets
  are lists without repetition where the code iterates over them; the lemmas show that results do not
  depend on that order.  Exports and \<open>from_dict\<close> only render and read the fields and are left out.
  The time of construction is an argument.
\<close>

section \<open>Data\<close>

record KnowledgeNode =
  kn_id :: string
  kn_title :: string
  kn_type :: string
  kn_domain :: string
  kn_confidence :: pyfloat
  kn_importance :: string
  kn_evidence_count :: int
  kn_source_event_count :: int
  kn_tags :: "string list"
  kn_metadata :: "(string \<times> json) list"

record KnowledgeEdge =
  ke_source :: string
  ke_target :: string
  ke_relation_type :: RelationType
  ke_confidence :: pyfloat
  ke_metadata :: "(string \<times> json) list"

record GraphProjection =
  gp_graph_id :: string
  gp_version :: int
  gp_node_count :: int
  gp_edge_count :: int
  gp_generated_at :: string
  gp_nodes :: "KnowledgeNode list"
  gp_edges :: "KnowledgeEdge list"

section \<open>Construction\<close>

definition node_id_of :: "host \<Rightarrow> KnowledgeObject \<Rightarrow> string" where
  "node_id_of h k =
     sha256_hex h (utf8_encode (knowledge_type_value (ko_knowledge_type k) @ '':'' @ ko_title k @ '':'' @ show_int (ko_version k)))"

definition node_of :: "host \<Rightarrow> KnowledgeObject \<Rightarrow> KnowledgeNode" where
  "node_of h k =
     \<lparr>kn_id = node_id_of h k, kn_title = ko_title k, kn_type = knowledge_type_value (ko_knowledge_type k),
      kn_domain = knowledge_domain_value (ko_knowledge_domain k), kn_confidence = kcf_score (ko_confidence k),
      kn_importance = ko_importance k, kn_evidence_count = pvc_evidence_count (ko_provenance k),
      kn_source_event_count = int (length (pvc_source_event_ids (ko_provenance k))), kn_tags = ko_tags k,
      kn_metadata =
        [(''original_id'', JStr (ko_id k)), (''version'', JInt (ko_version k)),
         (''lifecycle_status'', JStr (ko_lifecycle_status k)),
         (''superseded_by'', case ko_superseded_by k of None \<Rightarrow> JNull | Some s \<Rightarrow> JStr s),
         (''created_at'', JStr (ko_created_at k)), (''updated_at'', JStr (ko_updated_at k))]\<rparr>"

definition nodes_map :: "host \<Rightarrow> KnowledgeObject list \<Rightarrow> (string, KnowledgeNode) dict" where
  "nodes_map h ks = foldl (\<lambda>d k. AList.update (node_id_of h k) (node_of h k) d) [] ks"

definition id_mapping :: "host \<Rightarrow> KnowledgeObject list \<Rightarrow> (string, string) dict" where
  "id_mapping h ks = foldl (\<lambda>d k. AList.update (ko_id k) (node_id_of h k) d) [] ks"

definition edge_of :: "(string, string) dict \<Rightarrow> KnowledgeRelation \<Rightarrow> KnowledgeEdge list" where
  "edge_of ids r =
     (let s = dict_get ids (krl_source_id r) []; t = dict_get ids (krl_target_id r) []
      in if s = [] \<or> t = [] then []
         else [\<lparr>ke_source = s, ke_target = t, ke_relation_type = krl_relation_type r,
                ke_confidence = krl_confidence r, ke_metadata = [(''created_at'', JStr (krl_created_at r))]\<rparr>])"

definition edge_key :: "KnowledgeEdge \<Rightarrow> string \<times> string \<times> string" where
  "edge_key e = (ke_source e, ke_target e, relation_value (ke_relation_type e))"

text \<open>In a format string a member of an enumeration is written with its class.\<close>

definition edge_text :: "KnowledgeEdge \<Rightarrow> string" where
  "edge_text e = ke_source e @ '':'' @ ke_target e @ '':'' @ ''RelationType.'' @ relation_value (ke_relation_type e)"

definition graph_id_of :: "host \<Rightarrow> KnowledgeNode list \<Rightarrow> KnowledgeEdge list \<Rightarrow> string" where
  "graph_id_of h nodes edges =
     sha256_hex h (utf8_encode (join '':'' (map kn_id nodes) @ ''::'' @ join '':'' (map edge_text edges)))"

definition graph_of :: "host \<Rightarrow> string \<Rightarrow> int \<Rightarrow> KnowledgeNode list \<Rightarrow> KnowledgeEdge list \<Rightarrow> GraphProjection" where
  "graph_of h now version nodes edges =
     (let sorted_nodes = sort_key kn_id nodes; sorted_edges = sort_key edge_key edges
      in \<lparr>gp_graph_id = graph_id_of h sorted_nodes sorted_edges, gp_version = version,
          gp_node_count = int (length sorted_nodes), gp_edge_count = int (length sorted_edges),
          gp_generated_at = now, gp_nodes = sorted_nodes, gp_edges = sorted_edges\<rparr>)"

definition graph_build :: "host \<Rightarrow> string \<Rightarrow> KnowledgeObject list \<Rightarrow> KnowledgeRelation list \<Rightarrow> int \<Rightarrow> GraphProjection" where
  "graph_build h now ks rs version =
     graph_of h now version (map snd (nodes_map h ks)) (concat (map (edge_of (id_mapping h ks)) rs))"

section \<open>Queries\<close>

definition query_node :: "GraphProjection \<Rightarrow> string \<Rightarrow> KnowledgeNode option" where
  "query_node g i = find (\<lambda>n. kn_id n = i \<or> prefix i (kn_id n)) (gp_nodes g)"

definition adj_init :: "string list \<Rightarrow> (string, string list) dict" where
  "adj_init ids = foldl (\<lambda>d i. AList.update i [] d) [] ids"

definition dict_insert :: "(string, string list) dict \<Rightarrow> string \<Rightarrow> string \<Rightarrow> (string, string list) dict" where
  "dict_insert adj k v = AList.update k (if v \<in> set (dict_get adj k []) then dict_get adj k [] else dict_get adj k [] @ [v]) adj"

definition link_both :: "(string, string list) dict \<Rightarrow> KnowledgeEdge \<Rightarrow> (string, string list) dict" where
  "link_both adj e =
     (if dict_has adj (ke_source e) \<and> dict_has adj (ke_target e)
      then dict_insert (dict_insert adj (ke_source e) (ke_target e)) (ke_target e) (ke_source e)
      else adj)"

definition undirected_adj :: "GraphProjection \<Rightarrow> (string, string list) dict" where
  "undirected_adj g = foldl link_both (adj_init (map kn_id (gp_nodes g))) (gp_edges g)"

definition step_within :: "GraphProjection \<Rightarrow> int \<Rightarrow> string \<times> nat \<Rightarrow> (string \<times> nat) list" where
  "step_within g depth x =
     (if int (snd x) \<ge> depth then []
      else map (\<lambda>m. (m, snd x + 1)) (dict_get (undirected_adj g) (fst x) []))"

definition neighbors :: "host \<Rightarrow> string \<Rightarrow> GraphProjection \<Rightarrow> string \<Rightarrow> int \<Rightarrow> GraphProjection" where
  "neighbors h now g i depth =
     (case query_node g i of
        None \<Rightarrow> \<lparr>gp_graph_id = sha256_hex h [], gp_version = gp_version g, gp_node_count = 0, gp_edge_count = 0,
                 gp_generated_at = now, gp_nodes = [], gp_edges = []\<rparr>
      | Some start \<Rightarrow>
          let visited = map fst (bfs_mark (map kn_id (gp_nodes g)) (step_within g depth) {kn_id start} [(kn_id start, 0)])
          in graph_of h now (gp_version g) (filter (\<lambda>n. kn_id n \<in> set visited) (gp_nodes g))
               (filter (\<lambda>e. ke_source e \<in> set visited \<and> ke_target e \<in> set visited) (gp_edges g)))"

definition link_forward :: "(string, string list) dict \<Rightarrow> KnowledgeEdge \<Rightarrow> (string, string list) dict" where
  "link_forward adj e =
     (if dict_has adj (ke_source e) \<and> dict_has adj (ke_target e)
      then AList.update (ke_source e) (dict_get adj (ke_source e) [] @ [ke_target e]) adj
      else adj)"

definition directed_adj :: "GraphProjection \<Rightarrow> (string, string list) dict" where
  "directed_adj g = foldl link_forward (adj_init (map kn_id (gp_nodes g))) (gp_edges g)"

definition extend_path :: "GraphProjection \<Rightarrow> string \<times> string list \<Rightarrow> (string \<times> string list) list" where
  "extend_path g x = map (\<lambda>m. (m, snd x @ [m])) (dict_get (directed_adj g) (fst x) [])"

text \<open>The loop returns the path of the first entry for the target that it takes out of the queue.\<close>

definition shortest_path :: "GraphProjection \<Rightarrow> string \<Rightarrow> string \<Rightarrow> string list" where
  "shortest_path g source target =
     (case (query_node g source, query_node g target) of
        (Some a, Some b) \<Rightarrow>
          if kn_id a = kn_id b then [kn_id a]
          else (case find (\<lambda>x. fst x = kn_id b)
                       (bfs_mark (map kn_id (gp_nodes g)) (extend_path g) {kn_id a} [(kn_id a, [kn_id a])]) of
                  Some x \<Rightarrow> snd x
                | None \<Rightarrow> [])
      | _ \<Rightarrow> [])"

record GraphStats =
  gs_node_count :: int
  gs_edge_count :: int
  gs_density :: pyfloat
  gs_connected_components :: int
  gs_orphan_count :: int
  gs_orphan_pct :: pyfloat
  gs_largest_component_pct :: pyfloat

definition degree_of :: "(KnowledgeEdge \<Rightarrow> string) \<Rightarrow> KnowledgeEdge list \<Rightarrow> string \<Rightarrow> nat" where
  "degree_of endpoint es i = length (filter (\<lambda>e. endpoint e = i) es)"

definition component_from :: "GraphProjection \<Rightarrow> string set \<Rightarrow> string \<Rightarrow> string list" where
  "component_from g V i =
     map fst (bfs_mark (map kn_id (gp_nodes g)) (\<lambda>x. map (\<lambda>m. (m, ())) (dict_get (undirected_adj g) (fst x) []))
                (insert i V) [(i, ())])"

definition graph_stats :: "GraphProjection \<Rightarrow> GraphStats" where
  "graph_stats g =
     (let nodes_set = remdups (map kn_id (gp_nodes g));
          v = int (length nodes_set);
          e = int (length (gp_edges g));
          orphans = filter (\<lambda>i. degree_of ke_target (gp_edges g) i = 0 \<and> degree_of ke_source (gp_edges g) i = 0) nodes_set;
          cs = components (component_from g) {} nodes_set;
          largest = foldl max 0 (map (int \<circ> length) cs)
      in \<lparr>gs_node_count = v, gs_edge_count = e,
          gs_density = (if v > 1 then fdiv (of_int e) (of_int (v * (v - 1))) else 0),
          gs_connected_components = int (length cs), gs_orphan_count = int (length orphans),
          gs_orphan_pct = (if v > 0 then fdiv (of_int (int (length orphans))) (of_int v) else 0),
          gs_largest_component_pct = (if v > 0 then fdiv (of_int largest) (of_int v) else 0)\<rparr>)"

section \<open>Adjacency\<close>

abbreviation gp_ids :: "GraphProjection \<Rightarrow> string list" where
  "gp_ids g \<equiv> map kn_id (gp_nodes g)"

text \<open>The edges between nodes of the graph, as a relation, and the same without their direction.\<close>

definition arcs :: "GraphProjection \<Rightarrow> (string \<times> string) set" where
  "arcs g = {(a, b). a \<in> set (gp_ids g) \<and> b \<in> set (gp_ids g) \<and> (\<exists>e \<in> set (gp_edges g). ke_source e = a \<and> ke_target e = b)}"

definition links :: "GraphProjection \<Rightarrow> (string \<times> string) set" where
  "links g = arcs g \<union> (arcs g)\<inverse>"

lemma map_of_adj_init: "map_of (adj_init ids) k = (if k \<in> set ids then Some [] else None)"
proof -
  have "map_of (foldl (\<lambda>d i. AList.update i [] d) d ids) k = (if k \<in> set ids then Some [] else map_of d k)" for d :: "(string, string list) dict"
    by (induction ids arbitrary: d) auto
  then show ?thesis by (simp add: adj_init_def)
qed

lemma link_fold:
  fixes link :: "(string, string list) dict \<Rightarrow> KnowledgeEdge \<Rightarrow> (string, string list) dict"
  assumes "\<And>adj e. dict_has (link adj e) = dict_has adj"
    and "\<And>adj e k. set (dict_get (link adj e) k []) =
           set (dict_get adj k []) \<union> {m. dict_has adj (ke_source e) \<and> dict_has adj (ke_target e) \<and> P e k m}"
  shows "set (dict_get (foldl link adj es) k []) =
           set (dict_get adj k []) \<union> {m. \<exists>e \<in> set es. dict_has adj (ke_source e) \<and> dict_has adj (ke_target e) \<and> P e k m}"
  by (induction es arbitrary: adj) (auto simp: assms)

lemma set_undirected_adj: "set (dict_get (undirected_adj g) k []) = links g `` {k}"
proof -
  have has: "dict_has (adj_init (gp_ids g)) k \<longleftrightarrow> k \<in> set (gp_ids g)" for k
    by (simp add: dict_has_map_of map_of_adj_init)
  have "set (dict_get (undirected_adj g) k []) = set (dict_get (adj_init (gp_ids g)) k []) \<union>
    {m. \<exists>e \<in> set (gp_edges g). dict_has (adj_init (gp_ids g)) (ke_source e) \<and> dict_has (adj_init (gp_ids g)) (ke_target e) \<and>
        (ke_source e = k \<and> ke_target e = m \<or> ke_target e = k \<and> ke_source e = m)}"
    unfolding undirected_adj_def
    by (rule link_fold [where P = "\<lambda>e k m. ke_source e = k \<and> ke_target e = m \<or> ke_target e = k \<and> ke_source e = m"]) (auto simp: link_both_def dict_insert_def dict_has_map_of dict_get_def fun_eq_iff)
  then show ?thesis unfolding has by (auto simp: links_def arcs_def dict_get_def map_of_adj_init)
qed

lemma set_directed_adj: "set (dict_get (directed_adj g) k []) = arcs g `` {k}"
proof -
  have has: "dict_has (adj_init (gp_ids g)) k \<longleftrightarrow> k \<in> set (gp_ids g)" for k
    by (simp add: dict_has_map_of map_of_adj_init)
  have "set (dict_get (directed_adj g) k []) = set (dict_get (adj_init (gp_ids g)) k []) \<union>
    {m. \<exists>e \<in> set (gp_edges g). dict_has (adj_init (gp_ids g)) (ke_source e) \<and> dict_has (adj_init (gp_ids g)) (ke_target e) \<and>
        (ke_source e = k \<and> ke_target e = m)}"
    unfolding directed_adj_def
    by (rule link_fold [where P = "\<lambda>e k m. ke_source e = k \<and> ke_target e = m"]) (auto simp: link_forward_def dict_has_map_of dict_get_def fun_eq_iff)
  then show ?thesis unfolding has by (auto simp: arcs_def dict_get_def map_of_adj_init)
qed

interpretation near: breadth_first "gp_ids g" "step_within g depth" "links g" "\<lambda>k. k" "\<lambda>k. int k < depth" "\<lambda>x. True" for g depth
proof (unfold_locales, goal_cases)
  case (1 x)
  then show ?case by (simp add: step_within_def image_image set_undirected_adj)
next
  case (3 x y)
  then show ?case by (auto simp: step_within_def split: if_splits)
next
  case 5
  show ?case by (auto simp: links_def arcs_def)
qed (auto simp: step_within_def)

definition path_from :: "GraphProjection \<Rightarrow> string \<Rightarrow> string \<times> string list \<Rightarrow> bool" where
  "path_from g s x \<longleftrightarrow> snd x \<noteq> [] \<and> hd (snd x) = s \<and> last (snd x) = fst x \<and> successively (\<lambda>a b. (a, b) \<in> arcs g) (snd x)"

interpretation paths: breadth_first "gp_ids g" "extend_path g" "arcs g" "\<lambda>p. length p - 1" "\<lambda>k. True" "path_from g s" for g s
proof (unfold_locales, goal_cases)
  case (1 x)
  then show ?case by (simp add: extend_path_def image_image set_directed_adj)
next
  case (4 x y)
  then show ?case by (auto simp: extend_path_def set_directed_adj path_from_def successively_append_iff)
next
  case 5
  show ?case by (auto simp: arcs_def)
qed (auto simp: extend_path_def path_from_def)

interpretation reach: reachability "gp_ids g" "\<lambda>x. map (\<lambda>m. (m, ())) (dict_get (undirected_adj g) (fst x) [])" "links g" UNIV for g
  by unfold_locales (auto simp: image_image set_undirected_adj links_def arcs_def)

interpretation comps: component_search "component_from g" "links g" UNIV for g
proof (unfold_locales, goal_cases)
  case (1 V n)
  show ?case unfolding component_from_def set_map by (rule reach.reach [OF 1])
next
  case 2
  show ?case by (auto simp: links_def sym_def)
qed

section \<open>Queries are correct\<close>

lemma query_node_id: "query_node g i = Some n \<Longrightarrow> n \<in> set (gp_nodes g) \<and> prefix i (kn_id n)"
  by (auto simp: query_node_def find_Some_iff)

text \<open>The neighbourhood of a node.  For a depth that is not negative the sub-graph holds exactly the nodes
  of the graph that an undirected walk of at most that many edges reaches, and exactly the edges between such nodes.\<close>

theorem neighbors_correct:
  assumes "query_node g i = Some u" and "0 \<le> depth"
  shows "(n \<in> set (gp_nodes (neighbors h now g i depth)) \<longleftrightarrow>
            n \<in> set (gp_nodes g) \<and> (\<exists>k. int k \<le> depth \<and> (kn_id u, kn_id n) \<in> links g ^^ k)) \<and>
         (e \<in> set (gp_edges (neighbors h now g i depth)) \<longleftrightarrow>
            e \<in> set (gp_edges g) \<and> (\<exists>k. int k \<le> depth \<and> (kn_id u, ke_source e) \<in> links g ^^ k) \<and>
            (\<exists>k. int k \<le> depth \<and> (kn_id u, ke_target e) \<in> links g ^^ k))"
proof -
  have "(\<forall>j < k. int j < depth) \<longleftrightarrow> int k \<le> depth" for k
    using assms(2) by (cases k) (auto simp: less_Suc_eq_le intro: le_less_trans)
  then have "m \<in> fst ` set (bfs_mark (gp_ids g) (step_within g depth) {kn_id u} [(kn_id u, 0)]) \<longleftrightarrow>
      (\<exists>k. int k \<le> depth \<and> (kn_id u, m) \<in> links g ^^ k)" for m
    using near.search(4) [where s = "kn_id u" and p = 0 and n = m and g = g and depth = depth] by auto
  then show ?thesis by (simp add: neighbors_def assms(1) graph_of_def Let_def)
qed

text \<open>Shortest paths.  A path is returned exactly if both ends are found and the target is reachable along
  the direction of the edges; it starts and ends at the nodes asked for, follows edges of the graph, and no walk
  between the two nodes is shorter.\<close>

theorem shortest_path_correct:
  assumes "query_node g a = Some u" and "query_node g b = Some v"
  defines "p \<equiv> shortest_path g a b"
  shows "(p \<noteq> [] \<longleftrightarrow> (kn_id u, kn_id v) \<in> (arcs g)\<^sup>*) \<and>
         (p \<noteq> [] \<longrightarrow> hd p = kn_id u \<and> last p = kn_id v \<and> successively (\<lambda>x y. (x, y) \<in> arcs g) p \<and>
            (\<forall>k. (kn_id u, kn_id v) \<in> arcs g ^^ k \<longrightarrow> length p \<le> Suc k))"
proof (cases "kn_id u = kn_id v")
  case True
  then show ?thesis by (simp add: p_def shortest_path_def assms(1,2))
next
  case False
  define found where "found = bfs_mark (gp_ids g) (extend_path g) {kn_id u} [(kn_id u, [kn_id u])]"
  have start: "path_from g (kn_id u) (kn_id u, [kn_id u])" by (simp add: path_from_def)
  note search = paths.search [of "[kn_id u]" g "kn_id u" "kn_id u", simplified, OF start, folded found_def]
  have mem: "kn_id v \<in> fst ` set found \<longleftrightarrow> (kn_id u, kn_id v) \<in> (arcs g)\<^sup>*"
    using search(4) by (simp add: rtrancl_power)
  have p: "p = (case find (\<lambda>x. fst x = kn_id v) found of Some x \<Rightarrow> snd x | None \<Rightarrow> [])"
    using False by (simp add: p_def shortest_path_def assms(1,2) found_def)
  show ?thesis
  proof (cases "find (\<lambda>x. fst x = kn_id v) found")
    case None
    then have "kn_id v \<notin> fst ` set found" by (auto simp: find_None_iff)
    with mem None p show ?thesis by simp
  next
    case (Some x)
    then have x: "x \<in> set found" "fst x = kn_id v" by (auto simp: find_Some_iff)
    from search(3) [OF x(1)] have path: "path_from g (kn_id u) x" "distance (arcs g) (kn_id u) (kn_id v) (length (snd x) - 1)"
      using x(2) by simp_all
    have "length p \<le> Suc k" if "(kn_id u, kn_id v) \<in> arcs g ^^ k" for k
    proof -
      have "\<not> k < length (snd x) - 1" using path(2) that by (auto simp: distance_def)
      then show ?thesis using p Some by simp
    qed
    moreover have "kn_id v \<in> fst ` set found" using x by force
    ultimately show ?thesis using path(1) x(2) Some p mem by (simp add: path_from_def)
  qed
qed

lemma foldl_max: "foldl max a xs = Max (insert a (set xs))" for a :: "'a :: linorder"
proof (induction xs arbitrary: a)
  case (Cons x xs)
  have "Max (insert (max a x) (set xs)) = Max (insert a (insert x (set xs)))"
    by (cases "xs = []") (simp_all add: max.assoc)
  with Cons show ?case by simp
qed simp

text \<open>The statistics of a graph.  Nodes are counted by their ids; the components counted are the classes of nodes
  that undirected walks connect, the largest share is that of a largest class, and orphans are the nodes at which no
  edge starts or ends.\<close>

theorem graph_stats_correct:
  defines "N \<equiv> \<lambda>g. set (gp_ids g)" and "classes \<equiv> \<lambda>g. (\<lambda>i. (links g)\<^sup>* `` {i}) ` set (gp_ids g)"
  shows "gs_node_count (graph_stats g) = int (card (N g)) \<and>
         gs_connected_components (graph_stats g) = int (card (classes g)) \<and>
         gs_largest_component_pct (graph_stats g) =
           (if N g = {} then 0 else fdiv (of_nat (Max (card ` classes g))) (of_nat (card (N g)))) \<and>
         gs_orphan_count (graph_stats g) =
           int (card {i \<in> N g. \<forall>e \<in> set (gp_edges g). ke_source e \<noteq> i \<and> ke_target e \<noteq> i})"
proof -
  define ns where "ns = remdups (gp_ids g)"
  define cs where "cs = components (component_from g) {} ns"
  have ns: "set ns = N g" "distinct ns" by (simp_all add: ns_def N_def)
  have cs: "set ` set cs = classes g" "distinct (map set cs)"
    using comps.components_classes [of g "{}" ns] by (simp_all add: cs_def classes_def ns N_def)
  have len: "length cs = card (classes g)"
    using cs by (metis distinct_card length_map list.set_map)
  have size: "length c = card (set c)" if "c \<in> set cs" for c
  proof -
    have "c \<in> set (components (component_from g) V ns) \<Longrightarrow> distinct c" for V
      by (induction ns arbitrary: V) (auto simp: Let_def component_from_def mark_distinct split: if_splits)
    with that show ?thesis by (simp add: cs_def distinct_card)
  qed
  have largest: "foldl max 0 (map (int \<circ> length) cs) = int (Max (card ` classes g))" if "N g \<noteq> {}"
  proof -
    have ne: "classes g \<noteq> {}" "finite (classes g)" using that by (auto simp: classes_def N_def)
    have "set (map (int \<circ> length) cs) = int ` card ` classes g"
      unfolding cs(1) [symmetric] using size by (auto simp: image_image)
    then have "foldl max 0 (map (int \<circ> length) cs) = Max (insert 0 (int ` card ` classes g))" by (simp add: foldl_max)
    also have "\<dots> = max 0 (Max (int ` card ` classes g))" using ne by simp
    also have "Max (int ` card ` classes g) = int (Max (card ` classes g))"
      using ne by (intro mono_Max_commute [symmetric]) (auto intro: monoI)
    finally show ?thesis by (simp add: comp_def)
  qed
  have orphans: "length (filter (\<lambda>i. degree_of ke_target (gp_edges g) i = 0 \<and> degree_of ke_source (gp_edges g) i = 0) ns) =
      card {i \<in> N g. \<forall>e \<in> set (gp_edges g). ke_source e \<noteq> i \<and> ke_target e \<noteq> i}"
  proof -
    have "length (filter P ns) = card {i \<in> N g. P i}" for P
      using ns by (metis distinct_card distinct_filter set_filter)
    then show ?thesis by (simp add: degree_of_def filter_empty_conv conj_commute ball_conj_distrib)
  qed
  have "card (N g) = length ns" using ns by (metis distinct_card)
  moreover have "N g = {} \<longleftrightarrow> ns = []" using ns(1) by auto
  ultimately show ?thesis
    using largest len orphans by (auto simp: graph_stats_def Let_def ns_def [symmetric] cs_def [symmetric])
qed

section \<open>Construction is correct\<close>

definition edge_between :: "host \<Rightarrow> KnowledgeObject \<Rightarrow> KnowledgeObject \<Rightarrow> KnowledgeRelation \<Rightarrow> KnowledgeEdge" where
  "edge_between h a b r =
     \<lparr>ke_source = node_id_of h a, ke_target = node_id_of h b, ke_relation_type = krl_relation_type r,
      ke_confidence = krl_confidence r, ke_metadata = [(''created_at'', JStr (krl_created_at r))]\<rparr>"

lemma id_mapping_get:
  assumes "distinct (map ko_id ks)" and "k \<in> set ks"
  shows "dict_get (id_mapping h ks) (ko_id k) [] = node_id_of h k"
proof -
  have "map_of (rev (map (\<lambda>k. (ko_id k, node_id_of h k)) ks)) (ko_id k) = Some (node_id_of h k)"
    using assms by (intro map_of_is_SomeI) (auto simp: rev_map comp_def simp flip: rev_map)
  then show ?thesis by (simp add: dict_get_def id_mapping_def fold_update)
qed

lemma id_mapping_none: "i \<notin> ko_id ` set ks \<Longrightarrow> dict_get (id_mapping h ks) i [] = []"
proof -
  assume "i \<notin> ko_id ` set ks"
  then have "map_of (id_mapping h ks) i = None" by (simp add: id_mapping_def map_of_eq_None_iff fold_update(2))
  then show ?thesis by (simp add: dict_get_def)
qed

lemma nodes_map_facts:
  "fst ` set (nodes_map h ks) = node_id_of h ` set ks" "wf_dict (nodes_map h ks)"
  "(i, n) \<in> set (nodes_map h ks) \<Longrightarrow> \<exists>k \<in> set ks. n = node_of h k \<and> i = node_id_of h k"
proof -
  show "fst ` set (nodes_map h ks) = node_id_of h ` set ks" "wf_dict (nodes_map h ks)"
    by (simp_all add: nodes_map_def fold_update(2,3))
  assume "(i, n) \<in> set (nodes_map h ks)"
  then have "map_of (nodes_map h ks) i = Some n" using \<open>wf_dict (nodes_map h ks)\<close> by (simp add: wf_dict_def)
  then have "map_of (rev (map (\<lambda>k. (node_id_of h k, node_of h k)) ks)) i = Some n"
    by (simp add: nodes_map_def fold_update(1))
  then show "\<exists>k \<in> set ks. n = node_of h k \<and> i = node_id_of h k" by (auto dest!: map_of_SomeD)
qed

lemma kn_id_nodes_map: "map kn_id (map snd (nodes_map h ks)) = map fst (nodes_map h ks)"
  using nodes_map_facts(3) by (fastforce simp: node_of_def)

text \<open>The graph that is built.  Its nodes are the objects given, one for each node id and in ascending order of
  ids.  When the ids of the objects are distinct and no hash is empty, its edges are exactly the relations whose two
  ends are among the objects.\<close>

theorem graph_build_correct:
  fixes h now ks rs version
  defines "G \<equiv> graph_build h now ks rs version"
  assumes "distinct (map ko_id ks)" and "\<forall>b. sha256_hex h b \<noteq> []"
  shows "sorted_wrt (<) (gp_ids G) \<and> set (gp_nodes G) \<subseteq> node_of h ` set ks \<and>
         set (gp_ids G) = node_id_of h ` set ks \<and>
         set (gp_edges G) = {edge_between h a b r | a b r. r \<in> set rs \<and> a \<in> set ks \<and> b \<in> set ks \<and>
                               krl_source_id r = ko_id a \<and> krl_target_id r = ko_id b} \<and>
         (\<forall>e \<in> set (gp_edges G). ke_source e \<in> set (gp_ids G) \<and> ke_target e \<in> set (gp_ids G))"
proof -
  have nodes: "gp_nodes G = sort_key kn_id (map snd (nodes_map h ks))"
    by (simp add: G_def graph_build_def graph_of_def Let_def)
  have ids: "set (gp_ids G) = node_id_of h ` set ks"
    unfolding nodes using nodes_map_facts(1) [of h ks] kn_id_nodes_map [of h ks] by (metis set_map set_sort)
  have "distinct (gp_ids G)"
    unfolding nodes using nodes_map_facts(2) [of h ks] kn_id_nodes_map [of h ks]
    by (metis distinct_map distinct_sort set_sort wf_dict_def)
  then have "sorted_wrt (<) (gp_ids G)" by (simp add: nodes strict_sorted_iff)
  moreover have "set (gp_nodes G) \<subseteq> node_of h ` set ks" unfolding nodes using nodes_map_facts(3) by fastforce
  moreover have edges: "set (gp_edges G) = {edge_between h a b r | a b r. r \<in> set rs \<and> a \<in> set ks \<and> b \<in> set ks \<and>
                               krl_source_id r = ko_id a \<and> krl_target_id r = ko_id b}" (is "_ = ?E")
  proof -
    have ne: "node_id_of h k \<noteq> []" for k using assms(3) by (simp add: node_id_of_def)
    have "set (edge_of (id_mapping h ks) r) = {edge_between h a b r | a b. a \<in> set ks \<and> b \<in> set ks \<and>
            krl_source_id r = ko_id a \<and> krl_target_id r = ko_id b}" for r
    proof (cases "krl_source_id r \<in> ko_id ` set ks \<and> krl_target_id r \<in> ko_id ` set ks")
      case True
      then obtain a b where ab: "a \<in> set ks" "b \<in> set ks" "krl_source_id r = ko_id a" "krl_target_id r = ko_id b" by auto
      have "set (edge_of (id_mapping h ks) r) = {edge_between h a b r}"
        using ab ne by (simp add: edge_of_def id_mapping_get [OF assms(2)] edge_between_def Let_def)
      moreover have "a' = k" if "k \<in> set ks" "a' \<in> set ks" "ko_id k = ko_id a'" for a' k
        using that assms(2) by (metis distinct_map inj_onD)
      ultimately show ?thesis using ab(1,2) unfolding ab(3,4) by blast
    next
      case False
      then have "edge_of (id_mapping h ks) r = []" by (auto simp: edge_of_def id_mapping_none Let_def)
      then show ?thesis using False by auto
    qed
    then show ?thesis by (auto simp: G_def graph_build_def graph_of_def Let_def)
  qed
  moreover have "ke_source e \<in> set (gp_ids G) \<and> ke_target e \<in> set (gp_ids G)" if "e \<in> set (gp_edges G)" for e
    using that unfolding edges ids by (auto simp: edge_between_def)
  ultimately show ?thesis using ids by blast
qed

lemma id_mapping_cong:
  assumes "set ks' = set ks" and "distinct (map ko_id ks')" and "distinct (map ko_id ks)"
  shows "dict_get (id_mapping h ks') i [] = dict_get (id_mapping h ks) i []"
proof (cases "i \<in> ko_id ` set ks")
  case True
  then obtain k where "k \<in> set ks" "i = ko_id k" by auto
  then show ?thesis using assms by (simp add: id_mapping_get)
next
  case False
  then show ?thesis using assms(1) by (simp add: id_mapping_none)
qed

lemma sorted_node_ids:
  "map kn_id (sort_key kn_id (map snd (nodes_map h ks))) = sorted_list_of_set (node_id_of h ` set ks)"
proof -
  have "map kn_id (sort_key kn_id (map snd (nodes_map h ks))) = sort (map fst (nodes_map h ks))"
    using sort_key_map [of "\<lambda>x. x" kn_id "map snd (nodes_map h ks)"] unfolding kn_id_nodes_map by simp
  also have "\<dots> = sorted_list_of_set (set (map fst (nodes_map h ks)))"
    using nodes_map_facts(2) [of h ks] unfolding sorted_list_of_set_sort_remdups by (simp add: distinct_remdups_id wf_dict_def)
  finally show ?thesis by (simp add: nodes_map_facts(1))
qed

lemma sorted_edge_texts: "map edge_text (sort_key edge_key es) =
    map (\<lambda>(s, t, r). s @ '':'' @ t @ '':'' @ ''RelationType.'' @ r) (sort (map edge_key es))"
proof -
  have "sort (map edge_key es) = map edge_key (sort_key edge_key es)" using sort_key_map [of "\<lambda>x. x" edge_key es] by simp
  moreover have "edge_text = (\<lambda>(s, t, r). s @ '':'' @ t @ '':'' @ ''RelationType.'' @ r) \<circ> edge_key"
    by (simp add: fun_eq_iff edge_text_def edge_key_def)
  ultimately show ?thesis by (simp only: map_map)
qed

lemma set_nodes_map:
  assumes "distinct (map (node_id_of h) ks)"
  shows "set (map snd (nodes_map h ks)) = node_of h ` set ks"
proof (intro equalityI subsetI)
  fix n assume "n \<in> node_of h ` set ks"
  then obtain k where k: "k \<in> set ks" "n = node_of h k" by auto
  then have "node_id_of h k \<in> fst ` set (nodes_map h ks)" by (simp add: nodes_map_facts(1))
  then obtain m where m: "(node_id_of h k, m) \<in> set (nodes_map h ks)" by auto
  with nodes_map_facts(3) obtain k' where "k' \<in> set ks" "m = node_of h k'" "node_id_of h k = node_id_of h k'" by blast
  with k assms have "m = n" by (metis distinct_map inj_onD)
  with m show "n \<in> set (map snd (nodes_map h ks))" by force
qed (use nodes_map_facts(3) in fastforce)

text \<open>The graph does not depend on the order of its input.  When the ids of the objects are distinct, reordering
  objects and relations changes neither the id of the graph nor its counts; if no two objects share a node id, it does
  not change the nodes either.\<close>

theorem graph_build_order_irrelevant:
  assumes "mset ks' = mset ks" and "mset rs' = mset rs" and "distinct (map ko_id ks)"
  shows "gp_graph_id (graph_build h now ks' rs' version) = gp_graph_id (graph_build h now ks rs version) \<and>
         gp_node_count (graph_build h now ks' rs' version) = gp_node_count (graph_build h now ks rs version) \<and>
         gp_edge_count (graph_build h now ks' rs' version) = gp_edge_count (graph_build h now ks rs version) \<and>
         (distinct (map (node_id_of h) ks) \<longrightarrow>
            gp_nodes (graph_build h now ks' rs' version) = gp_nodes (graph_build h now ks rs version))"
proof -
  have ks: "set ks' = set ks" and d': "distinct (map ko_id ks')"
    using assms(1,3) by (metis set_mset_mset, metis mset_eq_imp_distinct_iff mset_map)
  define es where "es = (\<lambda>ks rs. concat (map (edge_of (id_mapping h ks)) rs))"
  have "edge_of (id_mapping h ks') = edge_of (id_mapping h ks)"
    using id_mapping_cong [OF ks d' assms(3)] by (simp add: edge_of_def fun_eq_iff)
  then have edges: "mset (es ks' rs') = mset (es ks rs)"
    by (simp add: es_def mset_concat assms(2) flip: sum_mset_sum_list)
  then have keys: "sort (map edge_key (es ks' rs')) = sort (map edge_key (es ks rs))"
    by (intro properties_for_sort) (simp_all add: mset_map)
  have len: "length (nodes_map h ks') = length (nodes_map h ks)"
    using sorted_node_ids [of h ks'] sorted_node_ids [of h ks] ks by (metis length_map length_sort)
  have nodes: "sort_key kn_id (map snd (nodes_map h ks')) = sort_key kn_id (map snd (nodes_map h ks))"
    if d: "distinct (map (node_id_of h) ks)"
  proof (rule map_sorted_distinct_set_unique [where f = kn_id])
    have dk: "distinct (map (node_id_of h) ks')" using assms(1) d by (metis mset_eq_imp_distinct_iff mset_map)
    show "set (sort_key kn_id (map snd (nodes_map h ks'))) = set (sort_key kn_id (map snd (nodes_map h ks)))"
      using set_nodes_map [OF d] set_nodes_map [OF dk] ks by simp
    show "distinct (map kn_id (sort_key kn_id (map snd (nodes_map h ks'))))"
      "distinct (map kn_id (sort_key kn_id (map snd (nodes_map h ks))))"
      unfolding sorted_node_ids by simp_all
    show "inj_on kn_id (set (sort_key kn_id (map snd (nodes_map h ks'))) \<union> set (sort_key kn_id (map snd (nodes_map h ks))))"
    proof -
      have "kn_id (node_of h k) = node_id_of h k" for k by (simp add: node_of_def)
      then have "inj_on kn_id (node_of h ` set ks)" using d by (auto simp: inj_on_def distinct_map)
      then show ?thesis using set_nodes_map [OF d] set_nodes_map [OF dk] ks by (simp del: set_map)
    qed
  qed simp_all
  have "length (es ks' rs') = length (es ks rs)" using edges by (metis size_mset)
  then show ?thesis using nodes len keys
    by (simp add: graph_build_def graph_of_def Let_def graph_id_of_def sorted_node_ids sorted_edge_texts ks es_def)
qed

section \<open>Examples\<close>

definition sample_node :: "string \<Rightarrow> KnowledgeNode" where
  "sample_node i = \<lparr>kn_id = i, kn_title = i, kn_type = ''fact'', kn_domain = ''architecture'', kn_confidence = 1, kn_importance = ''high'',
     kn_evidence_count = 1, kn_source_event_count = 1, kn_tags = [], kn_metadata = []\<rparr>"

definition sample_edge :: "string \<Rightarrow> string \<Rightarrow> KnowledgeEdge" where
  "sample_edge a b = \<lparr>ke_source = a, ke_target = b, ke_relation_type = SUPPORTS, ke_confidence = 1, ke_metadata = []\<rparr>"

definition sample_graph :: GraphProjection where
  "sample_graph = \<lparr>gp_graph_id = ''g'', gp_version = 1, gp_node_count = 4, gp_edge_count = 4, gp_generated_at = ''t'',
     gp_nodes = map sample_node [''a'', ''b'', ''c'', ''d''],
     gp_edges = [sample_edge ''a'' ''b'', sample_edge ''b'' ''d'', sample_edge ''a'' ''c'', sample_edge ''b'' ''c'']\<rparr>"

lemma sample_query: "query_node sample_graph ''a'' = Some (sample_node ''a'')" "query_node sample_graph ''d'' = Some (sample_node ''d'')"
  by code_simp+

theorem neighbors_correct_witness:
  "query_node sample_graph ''d'' = Some (sample_node ''d'') \<and>
   (\<forall>h now. sample_node ''c'' \<in> set (gp_nodes (neighbors h now sample_graph ''d'' 2)))"
proof -
  have "(''d'', ''b'') \<in> links sample_graph" "(''b'', ''c'') \<in> links sample_graph"
    by (simp_all add: links_def arcs_def sample_graph_def sample_node_def sample_edge_def)
  then have "(''d'', ''c'') \<in> links sample_graph ^^ 2" by (auto simp: numeral_2_eq_2)
  moreover have "sample_node ''c'' \<in> set (gp_nodes sample_graph)" by (simp add: sample_graph_def)
  ultimately show ?thesis
    using neighbors_correct [OF sample_query(2), of 2 "sample_node ''c''"] sample_query(2)
    by (auto simp: sample_node_def intro!: exI [of _ 2])
qed

theorem shortest_path_correct_witness:
  "shortest_path sample_graph ''a'' ''d'' = [''a'', ''b'', ''d''] \<and> (''a'', ''d'') \<notin> arcs sample_graph ^^ 1"
proof -
  have p: "shortest_path sample_graph ''a'' ''d'' = [''a'', ''b'', ''d'']" by code_simp
  have "(''a'', ''d'') \<in> arcs sample_graph ^^ k \<longrightarrow> 2 \<le> k" for k
    using shortest_path_correct [OF sample_query] by (auto simp: sample_node_def p)
  from this [of 1] p show ?thesis by auto
qed

definition sample_hash :: host where
  "sample_hash = \<lparr>nfc = (\<lambda>s. s), sha256_hex = (\<lambda>b. ''h'' @ b)\<rparr>"

definition sample_titled :: "string \<Rightarrow> KnowledgeObject" where
  "sample_titled i = (sample_knowledge i ''ACTIVE'' [])\<lparr>ko_title := i\<rparr>"

definition sample_relation :: KnowledgeRelation where
  "sample_relation = \<lparr>krl_source_id = ''x'', krl_target_id = ''y'', krl_relation_type = SUPPORTS, krl_confidence = 1, krl_created_at = ''t''\<rparr>"

lemma sample_titled_id: "ko_id (sample_titled i) = i"
  by (simp add: sample_titled_def sample_knowledge_def)

lemma sample_hash_nonempty: "sha256_hex sample_hash b \<noteq> []"
  by (simp add: sample_hash_def)

lemma sample_relation_ends: "krl_source_id sample_relation = ''x''" "krl_target_id sample_relation = ''y''"
  by (simp_all add: sample_relation_def)

theorem graph_build_correct_witness:
  "edge_between sample_hash (sample_titled ''x'') (sample_titled ''y'') sample_relation
     \<in> set (gp_edges (graph_build sample_hash ''t'' [sample_titled ''x'', sample_titled ''y''] [sample_relation] 1))"
  using graph_build_correct [of "[sample_titled ''x'', sample_titled ''y'']" sample_hash "''t''" "[sample_relation]" 1]
  by (simp add: sample_titled_id sample_hash_nonempty sample_relation_ends) (metis sample_titled_id)

theorem graph_build_order_irrelevant_witness:
  "gp_graph_id (graph_build sample_hash ''t'' [sample_titled ''y'', sample_titled ''x''] [sample_relation] 1) =
   gp_graph_id (graph_build sample_hash ''t'' [sample_titled ''x'', sample_titled ''y''] [sample_relation] 1)"
  using graph_build_order_irrelevant [of "[sample_titled ''y'', sample_titled ''x'']" "[sample_titled ''x'', sample_titled ''y'']"
      "[sample_relation]" "[sample_relation]" sample_hash "''t''" 1]
  by (simp add: sample_titled_id add_mset_commute)

end
