(* ===== verification/GraphNavigation.thy ===== *)
theory GraphNavigation
  imports Knowledge GraphSearch "HOL-Library.Product_Lexorder"
begin

text \<open>
  The navigable graph of a project (\<open>projections/graph.py\<close>): its construction from the state of the
  knowledge projection and its traversals.  Shortest paths by weight, orders, cycles and enumeration of
  paths are in \<open>GraphWeights\<close> and \<open>GraphPaths\<close>.  The time of compilation is an argument, and so is
  \<open>it\<close>, the order in which Python iterates over a set, where a result depends on it.  A set that is
  only built and tested for membership is a set.  \<open>to_dict\<close> methods, which only render, are left out.
\<close>

section \<open>Data\<close>

definition MAX_PATHS :: nat where "MAX_PATHS = 100"

record GraphNode =
  gn_id :: string
  gn_title :: string
  gn_knowledge_type :: string
  gn_domain :: string
  gn_confidence :: pyfloat
  gn_importance :: string
  gn_tags :: "string list"

record GraphEdge =
  ge_source :: string
  ge_target :: string
  ge_relation_type :: RelationType
  ge_confidence :: pyfloat

record GraphState =
  gst_project_id :: string
  gst_compiled_at :: string
  gst_projection_version :: string
  gst_nodes :: "(string, GraphNode) dict"
  gst_edges :: "GraphEdge list"
  gst_adjacency :: "(string, GraphEdge list) dict"
  gst_reverse_adjacency :: "(string, GraphEdge list) dict"
  gst_clusters :: "string list list"
  gst_cycles :: "string list list option"
  gst_node_count :: int
  gst_edge_count :: int
  gst_density :: pyfloat
  gst_conflicted_nodes :: "string set"
  gst_edges_by_relation :: "(RelationType, GraphEdge list) dict"
  gst_provenance :: "(string, int list) dict"

definition all_relation_types :: "RelationType list" where
  "all_relation_types = [SUPPORTS, CONTRADICTS, DERIVED_FROM, SUPERSEDES, RELATED_TO]"

text \<open>A state with the default of every field but the first two.\<close>

definition graph_state :: "string \<Rightarrow> string \<Rightarrow> GraphState" where
  "graph_state project_id compiled_at =
     \<lparr>gst_project_id = project_id, gst_compiled_at = compiled_at, gst_projection_version = ''1.0'', gst_nodes = [], gst_edges = [],
      gst_adjacency = [], gst_reverse_adjacency = [], gst_clusters = [], gst_cycles = None, gst_node_count = 0, gst_edge_count = 0,
      gst_density = 0, gst_conflicted_nodes = {}, gst_edges_by_relation = map (\<lambda>rt. (rt, [])) all_relation_types, gst_provenance = []\<rparr>"

section \<open>Construction\<close>

definition graph_node_of :: "KnowledgeObject \<Rightarrow> GraphNode" where
  "graph_node_of k =
     \<lparr>gn_id = ko_id k, gn_title = ko_title k, gn_knowledge_type = knowledge_type_value (ko_knowledge_type k),
      gn_domain = knowledge_domain_value (ko_knowledge_domain k), gn_confidence = kcf_score (ko_confidence k),
      gn_importance = ko_importance k, gn_tags = ko_tags k\<rparr>"

definition graph_nodes :: "KnowledgeObject list \<Rightarrow> (string, GraphNode) dict" where
  "graph_nodes ks = foldl (\<lambda>d k. AList.update (ko_id k) (graph_node_of k) d) [] ks"

type_synonym edge_acc = "GraphEdge list \<times> (string \<times> string \<times> RelationType) set"

definition gedge_key :: "GraphEdge \<Rightarrow> string \<times> string \<times> RelationType" where
  "gedge_key e = (ge_source e, ge_target e, ge_relation_type e)"

definition append_edge :: "GraphEdge \<Rightarrow> edge_acc \<Rightarrow> edge_acc" where
  "append_edge e acc = (fst acc @ [e], insert (gedge_key e) (snd acc))"

definition add_edge :: "(string, GraphNode) dict \<Rightarrow> edge_acc \<Rightarrow> GraphEdge \<Rightarrow> edge_acc" where
  "add_edge nodes acc e =
     (if gedge_key e \<notin> snd acc \<and> dict_has nodes (ge_source e) \<and> dict_has nodes (ge_target e)
      then append_edge e acc else acc)"

definition support_edges :: "(string, string list) dict \<Rightarrow> GraphEdge list" where
  "support_edges g = concat (map (\<lambda>(src, ts). map (\<lambda>t.
     \<lparr>ge_source = src, ge_target = t, ge_relation_type = SUPPORTS, ge_confidence = flt (8 / 10)\<rparr>) ts) g)"

definition derived_edges :: "(string, string list) dict \<Rightarrow> GraphEdge list" where
  "derived_edges deps = concat (map (\<lambda>(src, ds). map (\<lambda>d.
     \<lparr>ge_source = d, ge_target = src, ge_relation_type = DERIVED_FROM, ge_confidence = flt (9 / 10)\<rparr>) ds) deps)"

definition conflict_edge :: "string \<Rightarrow> string \<Rightarrow> pyfloat \<Rightarrow> GraphEdge" where
  "conflict_edge a b c = \<lparr>ge_source = a, ge_target = b, ge_relation_type = CONTRADICTS, ge_confidence = c\<rparr>"

definition add_conflict :: "(string, GraphNode) dict \<Rightarrow> edge_acc \<Rightarrow> ConflictRecord \<Rightarrow> edge_acc" where
  "add_conflict nodes acc c =
     (let a = cfr_knowledge_a_id c; b = cfr_knowledge_b_id c;
          e = conflict_edge a b (cfr_confidence c); r = conflict_edge b a (cfr_confidence c)
      in if gedge_key e \<notin> snd acc \<and> dict_has nodes a \<and> dict_has nodes b
         then let acc' = append_edge e acc
              in if gedge_key r \<notin> snd acc' then append_edge r acc' else acc'
         else acc)"

definition graph_edges :: "(string, GraphNode) dict \<Rightarrow> KnowledgeState \<Rightarrow> GraphEdge list" where
  "graph_edges nodes st =
     (let acc = foldl (add_edge nodes) ([], {}) (support_edges (kst_support_graph st));
          acc = foldl (add_edge nodes) acc (derived_edges (kst_derivation_chains st))
      in fst (foldl (add_conflict nodes) acc (kst_conflict_queue st)))"

definition adjacency_by :: "(GraphEdge \<Rightarrow> string) \<Rightarrow> GraphEdge list \<Rightarrow> (string, GraphEdge list) dict" where
  "adjacency_by endpoint es = foldl (\<lambda>d e. dict_append d (endpoint e) [e]) [] es"

text \<open>The entries for the neighbours of a node in both directions, and the component found from it.\<close>

definition around :: "(string, GraphEdge list) dict \<Rightarrow> (string, GraphEdge list) dict \<Rightarrow> string \<times> unit \<Rightarrow> (string \<times> unit) list" where
  "around adj rev_adj x =
     map (\<lambda>e. (ge_target e, ())) (dict_get adj (fst x) []) @ map (\<lambda>e. (ge_source e, ())) (dict_get rev_adj (fst x) [])"

definition bfs_undirected :: "(string, GraphEdge list) dict \<Rightarrow> (string, GraphEdge list) dict \<Rightarrow> string list \<Rightarrow> string set \<Rightarrow> string \<Rightarrow> string list" where
  "bfs_undirected adj rev_adj allowed visited start =
     map fst (bfs_visit allowed (\<lambda>x. fst x \<in> set allowed) (around adj rev_adj) visited [(start, ())])"

definition density_of :: "int \<Rightarrow> int \<Rightarrow> pyfloat" where
  "density_of n e = (if n > 1 then fdiv (of_int e) (of_int (n * (n - 1))) else 0)"

definition graph_project :: "string \<Rightarrow> KnowledgeState \<Rightarrow> GraphState result" where
  "graph_project now st =
     (let nodes = graph_nodes (kst_active_knowledge st);
          edges = graph_edges nodes st;
          adjacency = adjacency_by ge_source edges;
          reverse_adjacency = adjacency_by ge_target edges;
          conflicts = filter (\<lambda>e. ge_relation_type e = CONTRADICTS) edges;
          n = int (length nodes); e = int (length edges)
      in rbind (provenance_of (kst_active_knowledge st)) (\<lambda>provenance. Inr
        \<lparr>gst_project_id = kst_project_id st, gst_compiled_at = now, gst_projection_version = ''1.0'',
         gst_nodes = nodes, gst_edges = edges, gst_adjacency = adjacency, gst_reverse_adjacency = reverse_adjacency,
         gst_clusters = map sort (components (bfs_undirected adjacency reverse_adjacency (map fst nodes)) {} (map fst nodes)),
         gst_cycles = None, gst_node_count = n, gst_edge_count = e, gst_density = density_of n e,
         gst_conflicted_nodes = set (map ge_source conflicts) \<union> set (map ge_target conflicts),
         gst_edges_by_relation = map (\<lambda>rt. (rt, filter (\<lambda>e. ge_relation_type e = rt) edges)) all_relation_types,
         gst_provenance = provenance\<rparr>))"

section \<open>Traversals\<close>

definition out_edges :: "GraphState \<Rightarrow> string \<Rightarrow> GraphEdge list" where
  "out_edges st n = dict_get (gst_adjacency st) n []"

definition in_edges :: "GraphState \<Rightarrow> string \<Rightarrow> GraphEdge list" where
  "in_edges st n = dict_get (gst_reverse_adjacency st) n []"

text \<open>The nodes that edges lead to.\<close>

definition endpoints :: "GraphState \<Rightarrow> string list" where
  "endpoints st = concat (map (map ge_target \<circ> snd) (gst_adjacency st)) @ concat (map (map ge_source \<circ> snd) (gst_reverse_adjacency st))"

definition build_subgraph :: "(string list \<Rightarrow> string list) \<Rightarrow> GraphState \<Rightarrow> (string, GraphNode) dict \<Rightarrow> GraphEdge list \<Rightarrow> GraphState" where
  "build_subgraph it st nodes edges =
     (let adj = adjacency_by ge_source edges;
          rev_adj = adjacency_by ge_target edges;
          n = int (length nodes); e = int (length edges)
      in (graph_state (gst_project_id st) (gst_compiled_at st))
           \<lparr>gst_projection_version := gst_projection_version st, gst_nodes := nodes, gst_edges := edges, gst_adjacency := adj,
            gst_reverse_adjacency := rev_adj,
            gst_clusters := map sort (components (bfs_undirected adj (gst_reverse_adjacency st) (map fst nodes)) {} (it (map fst nodes))),
            gst_node_count := n, gst_edge_count := e, gst_density := density_of n e\<rparr>)"

definition follows :: "string list option \<Rightarrow> pyfloat \<Rightarrow> GraphEdge \<Rightarrow> bool" where
  "follows edge_types min_confidence e \<longleftrightarrow>
     \<not> (edge_types \<noteq> None \<and> the edge_types \<noteq> [] \<and> relation_value (ge_relation_type e) \<notin> set (the edge_types)) \<and>
     \<not> ge_confidence e < min_confidence"

definition forward_edges :: "GraphState \<Rightarrow> string list option \<Rightarrow> pyfloat \<Rightarrow> string \<Rightarrow> string \<Rightarrow> GraphEdge list" where
  "forward_edges st edge_types min_confidence direction n =
     (if direction \<in> {''both'', ''forward''} then filter (follows edge_types min_confidence) (out_edges st n) else [])"

definition backward_edges :: "GraphState \<Rightarrow> string list option \<Rightarrow> pyfloat \<Rightarrow> string \<Rightarrow> string \<Rightarrow> GraphEdge list" where
  "backward_edges st edge_types min_confidence direction n =
     (if direction \<in> {''both'', ''backward''} then filter (follows edge_types min_confidence) (in_edges st n) else [])"

definition traverse_step :: "GraphState \<Rightarrow> string list option \<Rightarrow> pyfloat \<Rightarrow> string \<Rightarrow> string \<times> nat \<Rightarrow> (string \<times> nat) list" where
  "traverse_step st edge_types min_confidence direction x =
     map (\<lambda>e. (ge_target e, snd x + 1)) (forward_edges st edge_types min_confidence direction (fst x)) @
     map (\<lambda>e. (ge_source e, snd x + 1)) (backward_edges st edge_types min_confidence direction (fst x))"

definition filtered_traversal ::
  "(string list \<Rightarrow> string list) \<Rightarrow> GraphState \<Rightarrow> string \<Rightarrow> string list option \<Rightarrow> pyfloat \<Rightarrow> string \<Rightarrow> int \<Rightarrow> GraphState result" where
  "filtered_traversal it st node_id edge_types min_confidence direction max_depth =
     (if \<not> dict_has (gst_nodes st) node_id then Inr (graph_state (gst_project_id st) (gst_compiled_at st))
      else let visits = map fst (bfs_visit (endpoints st) (\<lambda>x. \<not> int (snd x) > max_depth)
                                   (traverse_step st edge_types min_confidence direction) {} [(node_id, 0)]);
               edges = concat (map (\<lambda>n. forward_edges st edge_types min_confidence direction n @
                                        backward_edges st edge_types min_confidence direction n) visits)
           in rbind (rmap (\<lambda>n. case map_of (gst_nodes st) n of None \<Rightarrow> Inl (KeyError n) | Some v \<Rightarrow> Inr (n, v)) visits)
                (\<lambda>nodes. Inr (build_subgraph it st nodes edges)))"

definition directional_step :: "GraphState \<Rightarrow> string \<Rightarrow> string list option \<Rightarrow> string \<times> nat \<Rightarrow> (string \<times> nat) list" where
  "directional_step st direction relation_types x =
     map (\<lambda>e. (if direction = ''forward'' then ge_target e else ge_source e, snd x + 1))
       (filter (\<lambda>e. \<not> (relation_types \<noteq> None \<and> the relation_types \<noteq> [] \<and> relation_value (ge_relation_type e) \<notin> set (the relation_types)))
          (if direction = ''forward'' then out_edges st (fst x) else in_edges st (fst x)))"

definition bfs_directional :: "GraphState \<Rightarrow> string \<Rightarrow> string \<Rightarrow> int \<Rightarrow> string list option \<Rightarrow> string list" where
  "bfs_directional st node_id direction max_depth relation_types =
     filter (\<lambda>n. n \<noteq> node_id)
       (map fst (bfs_visit (endpoints st) (\<lambda>x. \<not> int (snd x) \<ge> max_depth) (directional_step st direction relation_types) {} [(node_id, 0)]))"

record ImpactAnalysis =
  imp_upstream :: "string list"
  imp_downstream :: "string list"
  imp_affected_by_contradiction :: "string list"

definition impact_analysis :: "GraphState \<Rightarrow> string \<Rightarrow> int \<Rightarrow> string list option \<Rightarrow> ImpactAnalysis" where
  "impact_analysis st node_id depth relation_types =
     \<lparr>imp_upstream = sort (bfs_directional st node_id ''reverse'' depth relation_types),
      imp_downstream = sort (bfs_directional st node_id ''forward'' depth relation_types),
      imp_affected_by_contradiction =
        sort (remdups (map ge_target (filter (\<lambda>e. ge_relation_type e = CONTRADICTS) (out_edges st node_id)) @
                       map ge_source (filter (\<lambda>e. ge_relation_type e = CONTRADICTS) (in_edges st node_id))))\<rparr>"

definition blast_step :: "GraphState \<Rightarrow> int \<Rightarrow> string \<times> nat \<times> pyfloat \<Rightarrow> (string \<times> nat \<times> pyfloat) list" where
  "blast_step st depth x =
     (if int (fst (snd x)) \<ge> depth then []
      else map (\<lambda>e. (ge_target e, fst (snd x) + 1, min (snd (snd x)) (ge_confidence e))) (out_edges st (fst x)) @
           map (\<lambda>e. (ge_source e, fst (snd x) + 1, min (snd (snd x)) (ge_confidence e))) (in_edges st (fst x)))"

definition blast_radius :: "GraphState \<Rightarrow> string \<Rightarrow> int \<Rightarrow> (string \<times> nat \<times> pyfloat) list" where
  "blast_radius st node_id depth =
     (if \<not> dict_has (gst_nodes st) node_id then []
      else sort_key (\<lambda>x. (fst (snd x), - snd (snd x)))
             (filter (\<lambda>x. fst (snd x) > 0) (bfs_mark (endpoints st) (blast_step st depth) {node_id} [(node_id, 0, 1)])))"

section \<open>Well-formed states\<close>

text \<open>The edges as a relation, and without their direction.\<close>

definition edge_rel :: "GraphEdge list \<Rightarrow> (string \<times> string) set" where
  "edge_rel es = (\<lambda>e. (ge_source e, ge_target e)) ` set es"

definition graph_wf :: "GraphState \<Rightarrow> bool" where
  "graph_wf st \<longleftrightarrow>
     distinct (map fst (gst_nodes st)) \<and>
     (\<forall>e \<in> set (gst_edges st). ge_source e \<in> fst ` set (gst_nodes st) \<and> ge_target e \<in> fst ` set (gst_nodes st)) \<and>
     gst_adjacency st = adjacency_by ge_source (gst_edges st) \<and>
     gst_reverse_adjacency st = adjacency_by ge_target (gst_edges st)"

lemma adjacency_by_snoc: "adjacency_by f (es @ [e]) = dict_append (adjacency_by f es) (f e) [e]"
  by (simp add: adjacency_by_def)

lemma get_adjacency_by: "dict_get (adjacency_by f es) n [] = filter (\<lambda>e. f e = n) es"
proof (induction es rule: rev_induct)
  case Nil
  show ?case by (simp add: adjacency_by_def dict_get_def)
next
  case (snoc e es)
  then show ?case by (simp add: adjacency_by_snoc dict_append_def dict_get_def)
qed

lemma wf_adjacency_by: "wf_dict (adjacency_by f es)"
  by (induction es rule: rev_induct) (simp_all add: adjacency_by_snoc dict_append_def, simp add: adjacency_by_def)

lemma in_dict_values: "e \<in> set (dict_get d n []) \<Longrightarrow> \<exists>x \<in> set d. e \<in> set (snd x)"
  by (cases "map_of d n") (force simp: dict_get_def dest: map_of_SomeD)+

lemma set_adjacency_by: "set (concat (map snd (adjacency_by f es))) = set es"
proof (intro equalityI subsetI)
  fix x assume "x \<in> set (concat (map snd (adjacency_by f es)))"
  then obtain k xs where kx: "(k, xs) \<in> set (adjacency_by f es)" "x \<in> set xs" by auto
  then have "dict_get (adjacency_by f es) k [] = xs" using wf_adjacency_by [of f es] by (simp add: dict_get_def wf_dict_def)
  with kx(2) show "x \<in> set es" unfolding get_adjacency_by by auto
next
  fix x assume "x \<in> set es"
  then have "x \<in> set (dict_get (adjacency_by f es) (f x) [])" unfolding get_adjacency_by by auto
  then show "x \<in> set (concat (map snd (adjacency_by f es)))" by (auto dest!: in_dict_values)
qed

lemma wf_edges:
  assumes "graph_wf st"
  shows "out_edges st n = filter (\<lambda>e. ge_source e = n) (gst_edges st)"
    and "in_edges st n = filter (\<lambda>e. ge_target e = n) (gst_edges st)"
    and "set (endpoints st) = ge_target ` set (gst_edges st) \<union> ge_source ` set (gst_edges st)"
    and "e \<in> set (gst_edges st) \<Longrightarrow> dict_has (gst_nodes st) (ge_source e) \<and> dict_has (gst_nodes st) (ge_target e)"
proof -
  show "out_edges st n = filter (\<lambda>e. ge_source e = n) (gst_edges st)" "in_edges st n = filter (\<lambda>e. ge_target e = n) (gst_edges st)"
    using assms by (simp_all add: graph_wf_def out_edges_def in_edges_def get_adjacency_by)
  have "concat (map (map g \<circ> snd) d) = map g (concat (map snd d))" for g :: "GraphEdge \<Rightarrow> string" and d :: "(string, GraphEdge list) dict"
    by (simp add: map_concat comp_def)
  then show "set (endpoints st) = ge_target ` set (gst_edges st) \<union> ge_source ` set (gst_edges st)"
    using assms set_adjacency_by [of ge_source "gst_edges st"] set_adjacency_by [of ge_target "gst_edges st"]
    by (simp add: endpoints_def graph_wf_def del: set_concat)
  show "e \<in> set (gst_edges st) \<Longrightarrow> dict_has (gst_nodes st) (ge_source e) \<and> dict_has (gst_nodes st) (ge_target e)"
    using assms by (simp add: graph_wf_def dict_has_def)
qed

section \<open>The projected graph\<close>

text \<open>Adding edges keeps them between nodes, with different keys, and the record of keys exact.\<close>

definition edges_inv :: "(string, GraphNode) dict \<Rightarrow> edge_acc \<Rightarrow> bool" where
  "edges_inv nodes acc \<longleftrightarrow>
     distinct (map gedge_key (fst acc)) \<and> snd acc = gedge_key ` set (fst acc) \<and>
     (\<forall>e \<in> set (fst acc). dict_has nodes (ge_source e) \<and> dict_has nodes (ge_target e))"

lemma append_edge_inv:
  "edges_inv nodes acc \<Longrightarrow> gedge_key e \<notin> snd acc \<Longrightarrow> dict_has nodes (ge_source e) \<Longrightarrow> dict_has nodes (ge_target e) \<Longrightarrow>
     edges_inv nodes (append_edge e acc)"
  by (auto simp: edges_inv_def append_edge_def)

lemma add_edges_inv: "edges_inv nodes acc \<Longrightarrow> edges_inv nodes (foldl (add_edge nodes) acc es)"
  by (rule foldl_invariant) (auto simp: add_edge_def intro: append_edge_inv)

lemma add_conflict_inv: "edges_inv nodes acc \<Longrightarrow> edges_inv nodes (add_conflict nodes acc c)"
  by (auto simp: add_conflict_def Let_def conflict_edge_def intro!: append_edge_inv)

text \<open>Edges of contradictions come in pairs.\<close>

definition paired :: "edge_acc \<Rightarrow> bool" where
  "paired acc \<longleftrightarrow> (\<forall>a b. (a, b, CONTRADICTS) \<in> snd acc \<longrightarrow> (b, a, CONTRADICTS) \<in> snd acc)"

lemma add_edges_paired:
  assumes "paired acc" and "\<forall>e \<in> set es. ge_relation_type e \<noteq> CONTRADICTS"
  shows "paired (foldl (add_edge nodes) acc es)"
  using assms(1) by (rule foldl_invariant) (use assms(2) in \<open>auto simp: add_edge_def append_edge_def paired_def gedge_key_def\<close>)

lemma add_conflict_paired: "paired acc \<Longrightarrow> paired (add_conflict nodes acc c)"
  by (auto simp: paired_def add_conflict_def append_edge_def gedge_key_def conflict_edge_def Let_def)

lemma graph_edges_facts:
  "distinct (map gedge_key (graph_edges nodes st))"
  "e \<in> set (graph_edges nodes st) \<Longrightarrow> dict_has nodes (ge_source e) \<and> dict_has nodes (ge_target e)"
  "(a, b, CONTRADICTS) \<in> gedge_key ` set (graph_edges nodes st) \<Longrightarrow> (b, a, CONTRADICTS) \<in> gedge_key ` set (graph_edges nodes st)"
proof -
  define acc0 where "acc0 = foldl (add_edge nodes) ([], {}) (support_edges (kst_support_graph st))"
  define acc1 where "acc1 = foldl (add_edge nodes) acc0 (derived_edges (kst_derivation_chains st))"
  define acc where "acc = foldl (add_conflict nodes) acc1 (kst_conflict_queue st)"
  have g: "graph_edges nodes st = fst acc" by (simp add: graph_edges_def acc_def acc1_def acc0_def Let_def)
  have "edges_inv nodes ([], {})" "paired ([], {})" by (simp_all add: edges_inv_def paired_def)
  then have "edges_inv nodes acc1" "paired acc1"
    unfolding acc1_def acc0_def
    by (auto intro!: add_edges_inv add_edges_paired simp: derived_edges_def support_edges_def)
  then have inv: "edges_inv nodes acc \<and> paired acc"
    unfolding acc_def by (rule_tac foldl_invariant) (auto intro: add_conflict_inv add_conflict_paired)
  then show "distinct (map gedge_key (graph_edges nodes st))"
    "e \<in> set (graph_edges nodes st) \<Longrightarrow> dict_has nodes (ge_source e) \<and> dict_has nodes (ge_target e)"
    unfolding g by (simp_all add: edges_inv_def)
  show "(a, b, CONTRADICTS) \<in> gedge_key ` set (graph_edges nodes st) \<Longrightarrow> (b, a, CONTRADICTS) \<in> gedge_key ` set (graph_edges nodes st)"
    using inv unfolding g edges_inv_def paired_def by metis
qed

text \<open>The undirected edges inside a set of nodes, and the components that the search finds.\<close>

definition links_in :: "GraphEdge list \<Rightarrow> string list \<Rightarrow> (string \<times> string) set" where
  "links_in es ns = {(a, b). a \<in> set ns \<and> b \<in> set ns \<and> (\<exists>e \<in> set es. ge_source e = a \<and> ge_target e = b \<or> ge_source e = b \<and> ge_target e = a)}"

interpretation around: reachability ns "\<lambda>x. filter (\<lambda>y. fst y \<in> set ns) (around (adjacency_by ge_source es) (adjacency_by ge_target es) x)"
    "links_in es ns" "set ns" for ns es
proof (unfold_locales, goal_cases)
  case (1 x)
  have "fst ` {y. y \<in> f ` A \<and> fst y \<in> B} = fst ` f ` A \<inter> B" for f :: "GraphEdge \<Rightarrow> string \<times> unit" and A B by auto
  then show ?case using 1 by (auto simp: around_def get_adjacency_by links_in_def image_Un image_image filter_set [symmetric] simp flip: Collect_conj_eq)
qed (auto simp: links_in_def)

interpretation clusters: component_search "bfs_undirected (adjacency_by ge_source es) (adjacency_by ge_target es) ns" "links_in es ns" "set ns" for es ns
proof (unfold_locales, goal_cases)
  case (1 V n)
  then show ?case using around.reach [OF 1] by (simp add: bfs_undirected_def bfs_visit_mark)
next
  case 2
  show ?case by (auto simp: links_in_def sym_def)
qed

lemma graph_project_Inr:
  assumes "graph_project now st = Inr g"
  defines "nodes \<equiv> graph_nodes (kst_active_knowledge st)"
  shows "gst_nodes g = nodes" "gst_edges g = graph_edges nodes st"
    "gst_adjacency g = adjacency_by ge_source (gst_edges g)" "gst_reverse_adjacency g = adjacency_by ge_target (gst_edges g)"
    "gst_clusters g = map sort (components (bfs_undirected (gst_adjacency g) (gst_reverse_adjacency g) (map fst nodes)) {} (map fst nodes))"
    "gst_conflicted_nodes g = ge_source ` {e \<in> set (gst_edges g). ge_relation_type e = CONTRADICTS} \<union>
                              ge_target ` {e \<in> set (gst_edges g). ge_relation_type e = CONTRADICTS}"
  using assms by (auto simp: graph_project_def Let_def)

lemma graph_project_nodes:
  assumes "graph_project now st = Inr g"
  shows "graph_wf g" and "fst ` set (gst_nodes g) = ko_id ` set (kst_active_knowledge st)"
proof -
  note p = graph_project_Inr [OF assms]
  have keys: "wf_dict (gst_nodes g)" unfolding p graph_nodes_def by (simp add: fold_update)
  show "fst ` set (gst_nodes g) = ko_id ` set (kst_active_knowledge st)" unfolding p graph_nodes_def by (simp add: fold_update)
  have "ge_source e \<in> fst ` set (gst_nodes g) \<and> ge_target e \<in> fst ` set (gst_nodes g)" if "e \<in> set (gst_edges g)" for e
    using graph_edges_facts(2) [of e "gst_nodes g" st] that p(1,2) by (simp add: dict_has_def)
  then show "graph_wf g" using keys p(3,4) by (simp add: graph_wf_def wf_dict_def)
qed

text \<open>Property C32: the graph projected from the state of knowledge is well formed.  Its nodes are the active objects; every edge joins two
  nodes, no two edges agree in ends and type, contradictions are symmetric, and the two adjacency maps list the edges
  by source and by target.  The clusters are exactly the classes of nodes that undirected walks connect, each sorted and
  listed once.\<close>

theorem graph_project_wf:
  assumes "graph_project now st = Inr g"
  shows "graph_wf g \<and> fst ` set (gst_nodes g) = ko_id ` set (kst_active_knowledge st) \<and>
         distinct (map gedge_key (gst_edges g)) \<and>
         (\<forall>a b. (a, b, CONTRADICTS) \<in> gedge_key ` set (gst_edges g) \<longrightarrow> (b, a, CONTRADICTS) \<in> gedge_key ` set (gst_edges g)) \<and>
         set ` set (gst_clusters g) = (\<lambda>n. (edge_rel (gst_edges g) \<union> (edge_rel (gst_edges g))\<inverse>)\<^sup>* `` {n}) ` fst ` set (gst_nodes g) \<and>
         distinct (map set (gst_clusters g)) \<and> (\<forall>c \<in> set (gst_clusters g). sorted c)"
proof -
  note p = graph_project_Inr [OF assms]
  define ns where "ns = map fst (gst_nodes g)"
  have ends: "ge_source e \<in> set ns" "ge_target e \<in> set ns" if "e \<in> set (gst_edges g)" for e
    using graph_project_nodes(1) [OF assms] that by (simp_all add: ns_def graph_wf_def)
  then have links: "links_in (gst_edges g) ns = edge_rel (gst_edges g) \<union> (edge_rel (gst_edges g))\<inverse>"
    by (fastforce simp: links_in_def edge_rel_def)
  define cs where "cs = components (bfs_undirected (gst_adjacency g) (gst_reverse_adjacency g) ns) {} ns"
  have cs: "gst_clusters g = map sort cs" using p(1,5) by (simp add: cs_def ns_def)
  have "set ` set cs = (\<lambda>n. (links_in (gst_edges g) ns)\<^sup>* `` {n}) ` set ns" "distinct (map set cs)"
    using clusters.components_classes [of "gst_edges g" ns "{}" ns] by (simp_all add: cs_def p(3,4))
  then have "set ` set (gst_clusters g) = (\<lambda>n. (edge_rel (gst_edges g) \<union> (edge_rel (gst_edges g))\<inverse>)\<^sup>* `` {n}) ` fst ` set (gst_nodes g)"
    "distinct (map set (gst_clusters g))"
    unfolding links cs by (simp_all add: image_image comp_def ns_def)
  moreover have "distinct (map gedge_key (gst_edges g))"
    "\<forall>a b. (a, b, CONTRADICTS) \<in> gedge_key ` set (gst_edges g) \<longrightarrow> (b, a, CONTRADICTS) \<in> gedge_key ` set (gst_edges g)"
    unfolding p(2) using graph_edges_facts by blast+
  ultimately show ?thesis using graph_project_nodes [OF assms] cs by auto
qed

section \<open>Traversals are correct\<close>

lemma out_edges_endpoints: "e \<in> set (out_edges st n) \<Longrightarrow> ge_target e \<in> set (endpoints st)"
  by (auto simp: out_edges_def endpoints_def dest!: in_dict_values)

lemma in_edges_endpoints: "e \<in> set (in_edges st n) \<Longrightarrow> ge_source e \<in> set (endpoints st)"
  by (auto simp: in_edges_def endpoints_def dest!: in_dict_values)

definition follow_rel :: "GraphState \<Rightarrow> string list option \<Rightarrow> pyfloat \<Rightarrow> string \<Rightarrow> (string \<times> string) set" where
  "follow_rel st ts mc dir = {(a, b). b \<in> ge_target ` set (forward_edges st ts mc dir a) \<or> b \<in> ge_source ` set (backward_edges st ts mc dir a)}"

interpretation traverse: breadth_first "endpoints st" "\<lambda>x. filter (\<lambda>y. \<not> int (snd y) > depth) (traverse_step st ts mc dir x)"
    "follow_rel st ts mc dir" "\<lambda>k. k" "\<lambda>k. int k < depth" "\<lambda>x. True" for st ts mc dir depth
proof (unfold_locales, goal_cases)
  case (1 x)
  then have "filter (\<lambda>y. \<not> int (snd y) > depth) (traverse_step st ts mc dir x) = traverse_step st ts mc dir x"
    by (auto simp: traverse_step_def intro!: filter_True)
  then show ?case by (auto simp: traverse_step_def follow_rel_def image_Un image_image)
next
  case 5
  show ?case
    by (auto simp: follow_rel_def forward_edges_def backward_edges_def out_edges_endpoints in_edges_endpoints split: if_splits)
qed (auto simp: traverse_step_def)

interpretation direct: breadth_first "endpoints st" "\<lambda>x. filter (\<lambda>y. \<not> int (snd y) \<ge> depth) (directional_step st dir ts x)"
    "{(n, m). m \<in> fst ` set (directional_step st dir ts (n, 0))}" "\<lambda>k. k" "\<lambda>k. int k + 1 < depth" "\<lambda>x. True" for st ts dir depth
proof (unfold_locales, goal_cases)
  case (1 x)
  then have "filter (\<lambda>y. \<not> int (snd y) \<ge> depth) (directional_step st dir ts x) = directional_step st dir ts x"
    by (auto simp: directional_step_def intro!: filter_True)
  then show ?case by (auto simp: directional_step_def image_image)
next
  case 5
  show ?case
    by (auto simp: directional_step_def out_edges_endpoints in_edges_endpoints split: if_splits)
qed (auto simp: directional_step_def)

lemma visits_traverse:
  fixes s dir mc ts st
  assumes "0 \<le> depth"
  defines "visits \<equiv> map fst (bfs_visit (endpoints st) (\<lambda>x. \<not> int (snd x) > depth) (traverse_step st ts mc dir) {} [(s, 0)])"
  shows "distinct visits" and "n \<in> set visits \<longleftrightarrow> (\<exists>k. int k \<le> depth \<and> (s, n) \<in> follow_rel st ts mc dir ^^ k)"
proof -
  have v: "visits = map fst (bfs_mark (endpoints st) (\<lambda>x. filter (\<lambda>y. \<not> int (snd y) > depth) (traverse_step st ts mc dir x)) {s} [(s, 0)])"
    unfolding visits_def using assms(1) by (subst visit_from_start [of "\<lambda>k. \<not> int k > depth"]) simp_all
  show "distinct visits" unfolding v using traverse.search(1) [of 0] by simp
  have "(\<forall>j < k. int j < depth) \<longleftrightarrow> int k \<le> depth" for k
    using assms(1) by (cases k) (auto simp: less_Suc_eq_le intro: le_less_trans)
  then show "n \<in> set visits \<longleftrightarrow> (\<exists>k. int k \<le> depth \<and> (s, n) \<in> follow_rel st ts mc dir ^^ k)"
    unfolding v using traverse.search(4) [where p = 0 and s = s and n = n and depth = depth and st = st and ts = ts and mc = mc and dir = dir] by auto
qed

lemma count_concat_by_key:
  "distinct ns \<Longrightarrow> count (mset (concat (map (\<lambda>n. filter (\<lambda>e. f e = n \<and> P e) es) ns))) e =
     (if f e \<in> set ns \<and> P e then count (mset es) e else 0)"
  by (induction ns) (auto simp: count_mset_0_iff)

lemma count_concat_append:
  "count (mset (concat (map (\<lambda>n. f n @ g n) ns))) e = count (mset (concat (map f ns))) e + count (mset (concat (map g ns))) e"
  by (induction ns) auto

text \<open>Property C33: filtered traversal.  On a well-formed state, from an existing node and with a depth that is not negative, it never raises.
  The sub-graph has exactly the nodes that a walk of at most that many followed edges reaches.  An edge is listed once
  for each of its ends that was visited in a direction that leaves it there: twice when the direction is both and both
  ends were visited, and also when its other end is too far away to be a node of the sub-graph.\<close>

theorem filtered_traversal_correct:
  assumes "graph_wf st" and "dict_has (gst_nodes st) s" and "0 \<le> depth"
  shows "\<exists>g. filtered_traversal it st s ts mc dir depth = Inr g \<and>
    (\<forall>n. n \<in> fst ` set (gst_nodes g) \<longleftrightarrow> (\<exists>k. int k \<le> depth \<and> (s, n) \<in> follow_rel st ts mc dir ^^ k)) \<and>
    (\<forall>n v. (n, v) \<in> set (gst_nodes g) \<longrightarrow> map_of (gst_nodes st) n = Some v) \<and>
    (\<forall>e. count (mset (gst_edges g)) e =
       (if follows ts mc e then count (mset (gst_edges st)) e else 0) *
       (of_bool (dir \<in> {''both'', ''forward''} \<and> ge_source e \<in> fst ` set (gst_nodes g)) +
        of_bool (dir \<in> {''both'', ''backward''} \<and> ge_target e \<in> fst ` set (gst_nodes g))))"
proof -
  define visits where "visits = map fst (bfs_visit (endpoints st) (\<lambda>x. \<not> int (snd x) > depth) (traverse_step st ts mc dir) {} [(s, 0)])"
  note v = visits_traverse [OF assms(3), where st = st and ts = ts and mc = mc and dir = dir and s = s, folded visits_def]
  have step: "(a, b) \<in> follow_rel st ts mc dir \<Longrightarrow> dict_has (gst_nodes st) b" for a b
    using wf_edges [OF assms(1)] by (auto simp: follow_rel_def forward_edges_def backward_edges_def split: if_splits)
  have has: "dict_has (gst_nodes st) n" if n: "n \<in> set visits" for n
  proof -
    from n v(2) obtain k where "(s, n) \<in> follow_rel st ts mc dir ^^ k" by blast
    then show ?thesis using step assms(2) by (cases k) auto
  qed
  define look where "look = (\<lambda>n. case map_of (gst_nodes st) n of None \<Rightarrow> Inl (KeyError n) | Some v \<Rightarrow> Inr (n, v))"
  have look: "look n = Inr (n, the (map_of (gst_nodes st) n))" if "n \<in> set visits" for n
    using has [OF that] by (auto simp: look_def dict_has_map_of split: option.splits)
  define nodes where "nodes = map (\<lambda>n. (n, the (map_of (gst_nodes st) n))) visits"
  have r: "rmap look visits = Inr nodes" unfolding nodes_def by (rule rmap_Inr) (rule look)
  define edges where "edges = concat (map (\<lambda>n. forward_edges st ts mc dir n @ backward_edges st ts mc dir n) visits)"
  have "filtered_traversal it st s ts mc dir depth = Inr (build_subgraph it st nodes edges)"
    using assms(2) r by (simp add: filtered_traversal_def Let_def visits_def [symmetric] edges_def [symmetric] look_def [symmetric])
  moreover have "fst ` set nodes = set visits" by (simp add: nodes_def image_image)
  moreover have "map_of (gst_nodes st) n = Some v" if "(n, v) \<in> set nodes" for n v
    using that has by (auto simp: nodes_def dict_has_map_of)
  moreover have "count (mset edges) e = (if follows ts mc e then count (mset (gst_edges st)) e else 0) *
       (of_bool (dir \<in> {''both'', ''forward''} \<and> ge_source e \<in> set visits) + of_bool (dir \<in> {''both'', ''backward''} \<and> ge_target e \<in> set visits))" for e
    using count_concat_by_key [OF v(1), of ge_source "follows ts mc" "gst_edges st" e]
      count_concat_by_key [OF v(1), of ge_target "follows ts mc" "gst_edges st" e]
    by (simp add: edges_def count_concat_append forward_edges_def backward_edges_def wf_edges(1,2) [OF assms(1)] conj_commute)
  ultimately show ?thesis using v(2) by (simp add: build_subgraph_def graph_state_def Let_def)
qed

text \<open>The edges of the given types; without a list of types, or with an empty one, all edges.\<close>

definition typed_rel :: "GraphState \<Rightarrow> string list option \<Rightarrow> (string \<times> string) set" where
  "typed_rel st ts = edge_rel (filter (\<lambda>e. ts = None \<or> ts = Some [] \<or> relation_value (ge_relation_type e) \<in> set (the ts)) (gst_edges st))"

lemma relpow_converse: "(a, b) \<in> (R\<inverse>) ^^ k \<longleftrightarrow> (b, a) \<in> R ^^ k" for R :: "('a \<times> 'a) set"
proof (induction k arbitrary: b)
  case (Suc k)
  have "(b, a) \<in> R ^^ Suc k \<longleftrightarrow> (b, a) \<in> R O R ^^ k" by (simp add: relpow_commute)
  then show ?case using Suc by auto
qed auto

lemma directional_rel:
  assumes "graph_wf st"
  shows "{(n, m). m \<in> fst ` set (directional_step st ''forward'' ts (n, 0))} = typed_rel st ts"
    and "{(n, m). m \<in> fst ` set (directional_step st ''reverse'' ts (n, 0))} = (typed_rel st ts)\<inverse>"
proof -
  have t: "\<not> (ts \<noteq> None \<and> the ts \<noteq> [] \<and> v \<notin> set (the ts)) \<longleftrightarrow> ts = None \<or> ts = Some [] \<or> v \<in> set (the ts)" for v
    by (cases ts) auto
  show "{(n, m). m \<in> fst ` set (directional_step st ''forward'' ts (n, 0))} = typed_rel st ts"
    "{(n, m). m \<in> fst ` set (directional_step st ''reverse'' ts (n, 0))} = (typed_rel st ts)\<inverse>"
    unfolding directional_step_def typed_rel_def edge_rel_def t wf_edges(1,2) [OF assms] by (auto simp: image_image image_iff)
qed

lemma bfs_directional_set:
  fixes st dir ts
  assumes "0 < depth"
  defines "R \<equiv> {(n, m). m \<in> fst ` set (directional_step st dir ts (n, 0))}"
  shows "distinct (bfs_directional st s dir depth ts)"
    and "n \<in> set (bfs_directional st s dir depth ts) \<longleftrightarrow> n \<noteq> s \<and> (\<exists>k. int k < depth \<and> (s, n) \<in> R ^^ k)"
proof -
  have v: "bfs_visit (endpoints st) (\<lambda>x. \<not> int (snd x) \<ge> depth) (directional_step st dir ts) {} [(s, 0)] =
      bfs_mark (endpoints st) (\<lambda>x. filter (\<lambda>y. \<not> int (snd y) \<ge> depth) (directional_step st dir ts x)) {s} [(s, 0)]"
    using assms(1) by (subst visit_from_start [of "\<lambda>k. \<not> int k \<ge> depth"]) simp_all
  show "distinct (bfs_directional st s dir depth ts)"
    unfolding bfs_directional_def v using direct.search(1) [of 0] by simp
  have "(\<forall>j < k. int j + 1 < depth) \<longleftrightarrow> int k < depth" for k
    using assms(1) by (cases k) (auto simp: less_Suc_eq_le intro: le_less_trans)
  then show "n \<in> set (bfs_directional st s dir depth ts) \<longleftrightarrow> n \<noteq> s \<and> (\<exists>k. int k < depth \<and> (s, n) \<in> R ^^ k)"
    unfolding bfs_directional_def v R_def
    using direct.search(4) [where p = 0 and s = s and n = n and depth = depth and st = st and ts = ts and dir = dir] by auto
qed

text \<open>Impact analysis.  On a well-formed state and for a positive depth, the lists are sorted and without repetition; downstream
  are exactly the other nodes that fewer than that many edges of the given types lead to, upstream those that lead to the
  node in the same way, and affected by contradiction the ends of contradicting edges at the node.\<close>

theorem impact_analysis_correct:
  fixes s ts n
  assumes "graph_wf st" and "0 < depth"
  defines "i \<equiv> impact_analysis st s depth ts"
  shows "sorted_wrt (<) (imp_downstream i) \<and> sorted_wrt (<) (imp_upstream i) \<and>
         (n \<in> set (imp_downstream i) \<longleftrightarrow> n \<noteq> s \<and> (\<exists>k. int k < depth \<and> (s, n) \<in> typed_rel st ts ^^ k)) \<and>
         (n \<in> set (imp_upstream i) \<longleftrightarrow> n \<noteq> s \<and> (\<exists>k. int k < depth \<and> (n, s) \<in> typed_rel st ts ^^ k)) \<and>
         (n \<in> set (imp_affected_by_contradiction i) \<longleftrightarrow>
            (\<exists>e \<in> set (gst_edges st). ge_relation_type e = CONTRADICTS \<and> {ge_source e, ge_target e} = {s, n}))"
proof -
  note d = bfs_directional_set [OF assms(2), where st = st and ts = ts and s = s]
  have conv: "(s, n) \<in> ((typed_rel st ts)\<inverse>) ^^ k \<longleftrightarrow> (n, s) \<in> typed_rel st ts ^^ k" for k by (rule relpow_converse)
  show ?thesis
    using d(1) [where dir = "''forward''"] d(1) [where dir = "''reverse''"]
      d(2) [where n = n and dir = "''forward''"] d(2) [where n = n and dir = "''reverse''"]
    unfolding directional_rel [OF assms(1)] conv
    by (auto simp: i_def impact_analysis_def strict_sorted_iff wf_edges(1,2) [OF assms(1)] doubleton_eq_iff)
qed

text \<open>A list of edges that leads from one node to another, each edge followed in one of its two directions.\<close>

fun uwalk :: "GraphState \<Rightarrow> string \<Rightarrow> GraphEdge list \<Rightarrow> string \<Rightarrow> bool" where
  "uwalk st a [] b \<longleftrightarrow> a = b"
| "uwalk st a (e # es) b \<longleftrightarrow>
     e \<in> set (out_edges st a) \<and> uwalk st (ge_target e) es b \<or> e \<in> set (in_edges st a) \<and> uwalk st (ge_source e) es b"

lemma uwalk_snoc:
  "uwalk st a es b \<Longrightarrow> e \<in> set (out_edges st b) \<and> ge_target e = c \<or> e \<in> set (in_edges st b) \<and> ge_source e = c \<Longrightarrow> uwalk st a (es @ [e]) c"
  by (induction es arbitrary: a) auto

definition both_ways :: "GraphState \<Rightarrow> (string \<times> string) set" where
  "both_ways st = {(a, b). b \<in> ge_target ` set (out_edges st a) \<or> b \<in> ge_source ` set (in_edges st a)}"

definition blast_entry :: "GraphState \<Rightarrow> string \<Rightarrow> string \<times> nat \<times> pyfloat \<Rightarrow> bool" where
  "blast_entry st s x \<longleftrightarrow>
     (\<exists>es. uwalk st s es (fst x) \<and> length es = fst (snd x) \<and> snd (snd x) = foldl min 1 (map ge_confidence es))"

lemma blast_entry_step: "blast_entry st s x \<Longrightarrow> y \<in> set (blast_step st depth x) \<Longrightarrow> blast_entry st s y"
proof -
  assume "blast_entry st s x" and y: "y \<in> set (blast_step st depth x)"
  then obtain es where es: "uwalk st s es (fst x)" "length es = fst (snd x)" "snd (snd x) = foldl min 1 (map ge_confidence es)"
    by (auto simp: blast_entry_def)
  from y have "\<exists>e. (e \<in> set (out_edges st (fst x)) \<and> ge_target e = fst y \<or> e \<in> set (in_edges st (fst x)) \<and> ge_source e = fst y) \<and>
      snd y = (fst (snd x) + 1, min (snd (snd x)) (ge_confidence e))"
    by (force simp: blast_step_def split: if_splits)
  then obtain e where e: "e \<in> set (out_edges st (fst x)) \<and> ge_target e = fst y \<or> e \<in> set (in_edges st (fst x)) \<and> ge_source e = fst y"
    and p: "snd y = (fst (snd x) + 1, min (snd (snd x)) (ge_confidence e))" by blast
  show ?thesis unfolding blast_entry_def
    using uwalk_snoc [OF es(1) e] es(2,3) p by (intro exI [of _ "es @ [e]"]) simp
qed

interpretation blast: breadth_first "endpoints st" "blast_step st depth" "both_ways st" fst "\<lambda>k. int k < depth" "blast_entry st root" for st depth root
proof (unfold_locales, goal_cases)
  case (1 x)
  then show ?case by (auto simp: blast_step_def both_ways_def image_Un image_image)
next
  case (4 x y)
  then show ?case by (rule blast_entry_step)
next
  case 5
  show ?case by (auto simp: both_ways_def out_edges_endpoints in_edges_endpoints)
qed (auto simp: blast_step_def split: if_splits)

text \<open>Property C34: the blast radius.  From an existing node it lists exactly the other nodes within the given number of hops in either direction,
  each once and with its distance, in order of distance and then of falling confidence.  The confidence of an entry is
  the least on some walk of that length to the node.\<close>

theorem blast_radius_correct:
  assumes "dict_has (gst_nodes st) s" and "0 \<le> depth"
  defines "r \<equiv> blast_radius st s depth"
  shows "((\<exists>c. (n, d, c) \<in> set r) \<longleftrightarrow> 0 < d \<and> int d \<le> depth \<and> distance (both_ways st) s n d) \<and>
         distinct (map fst r) \<and> sorted (map (\<lambda>x. (fst (snd x), - snd (snd x))) r) \<and>
         (\<forall>x \<in> set r. \<exists>es. uwalk st s es (fst x) \<and> length es = fst (snd x) \<and> snd (snd x) = foldl min 1 (map ge_confidence es))"
proof -
  define found where "found = bfs_mark (endpoints st) (blast_step st depth) {s} [(s, 0, 1)]"
  have start: "blast_entry st s (s, 0, 1)" by (auto simp: blast_entry_def intro!: exI [of _ "[]"])
  note f = blast.search [where p = "(0, 1)" and s = s and root = s and st = st and depth = depth, simplified, OF start, folded found_def]
  have r: "r = sort_key (\<lambda>x. (fst (snd x), - snd (snd x))) (filter (\<lambda>x. fst (snd x) > 0) found)"
    using assms(1) by (simp add: r_def blast_radius_def found_def)
  have lim: "(\<forall>j < k. int j < depth) \<longleftrightarrow> int k \<le> depth" for k
    using assms(2) by (cases k) (auto simp: less_Suc_eq_le intro: le_less_trans)
  have "(\<exists>c. (n, d, c) \<in> set r) \<longleftrightarrow> 0 < d \<and> int d \<le> depth \<and> distance (both_ways st) s n d"
  proof
    assume "\<exists>c. (n, d, c) \<in> set r"
    then obtain c where c: "(n, d, c) \<in> set found" "0 < d" by (auto simp: r)
    have dist: "distance (both_ways st) s n d" using f(3) [OF c(1)] by simp
    from c(1) have "n \<in> fst ` set found" by force
    with f(4) obtain k where "(s, n) \<in> both_ways st ^^ k" "int k \<le> depth" unfolding lim by blast
    with dist have "d \<le> k" unfolding distance_def by (meson not_le)
    with \<open>int k \<le> depth\<close> dist c(2) show "0 < d \<and> int d \<le> depth \<and> distance (both_ways st) s n d" by simp
  next
    assume d: "0 < d \<and> int d \<le> depth \<and> distance (both_ways st) s n d"
    then have "n \<in> fst ` set found" using f(4) [of n] unfolding lim distance_def by blast
    then obtain k c where x: "(n, k, c) \<in> set found" by auto
    have "k = d" using f(3) [OF x] d by (auto intro: distance_unique)
    with x d show "\<exists>c. (n, d, c) \<in> set r" by (auto simp: r)
  qed
  moreover have "distinct (map fst r)"
    using f(1) unfolding r by (simp add: distinct_map inj_on_def)
  moreover have "\<exists>es. uwalk st s es (fst x) \<and> length es = fst (snd x) \<and> snd (snd x) = foldl min 1 (map ge_confidence es)" if "x \<in> set r" for x
    using f(3) [of x] that by (simp add: r blast_entry_def)
  ultimately show ?thesis by (simp add: r)
qed

text \<open>A sub-graph from a traversal is connected: whatever the order in which Python iterates over its nodes, it has one cluster.\<close>

definition mixed_rel :: "GraphEdge list \<Rightarrow> (string, GraphEdge list) dict \<Rightarrow> string list \<Rightarrow> (string \<times> string) set" where
  "mixed_rel es rev_adj ns = {(a, b). b \<in> set ns \<and> ((\<exists>e \<in> set es. ge_source e = a \<and> ge_target e = b) \<or> b \<in> ge_source ` set (dict_get rev_adj a []))}"

interpretation mixed: reachability ns "\<lambda>x. filter (\<lambda>y. fst y \<in> set ns) (around (adjacency_by ge_source es) rev_adj x)" "mixed_rel es rev_adj ns" UNIV
  for ns es rev_adj
proof (unfold_locales, goal_cases)
  case (1 x)
  have "fst ` {y. y \<in> f ` A \<and> fst y \<in> B} = fst ` f ` A \<inter> B" for f :: "GraphEdge \<Rightarrow> string \<times> unit" and A B by auto
  then show ?case by (auto simp: around_def get_adjacency_by mixed_rel_def image_Un image_image simp flip: Collect_conj_eq)
qed (auto simp: mixed_rel_def)

lemma components_one:
  assumes "set (search {} n) = set ns" and "set order = set ns" and "hd order = n" and "order \<noteq> []"
  shows "components search {} order = [search {} n]"
proof -
  have skip: "set xs \<subseteq> V \<Longrightarrow> components search V xs = []" for xs V by (induction xs) auto
  obtain rest where "order = n # rest" using assms(3,4) by (cases order) auto
  with assms(1,2) show ?thesis by (auto simp: Let_def intro!: skip)
qed

theorem traversal_one_cluster:
  assumes "graph_wf st" and "dict_has (gst_nodes st) s" and "0 \<le> depth" and "\<And>xs. set (it xs) = set xs"
    and "filtered_traversal it st s ts mc dir depth = Inr g"
  shows "gst_clusters g = [sort (map fst (gst_nodes g))]"
proof -
  define visits where "visits = map fst (bfs_visit (endpoints st) (\<lambda>x. \<not> int (snd x) > depth) (traverse_step st ts mc dir) {} [(s, 0)])"
  note v = visits_traverse [OF assms(3), where st = st and ts = ts and mc = mc and dir = dir and s = s, folded visits_def]
  define edges where "edges = concat (map (\<lambda>n. forward_edges st ts mc dir n @ backward_edges st ts mc dir n) visits)"
  define R where "R = mixed_rel edges (gst_reverse_adjacency st) visits"
  have g: "\<exists>nodes. g = build_subgraph it st nodes edges \<and> map fst nodes = visits"
  proof -
    obtain nodes where n: "rmap (\<lambda>n. case map_of (gst_nodes st) n of None \<Rightarrow> Inl (KeyError n) | Some v \<Rightarrow> Inr (n, v)) visits = Inr nodes"
      and g: "g = build_subgraph it st nodes edges"
      using assms(2,5) unfolding filtered_traversal_def Let_def visits_def [symmetric] edges_def [symmetric] by auto
    have "map fst nodes = xs" if "rmap (\<lambda>n. case map_of (gst_nodes st) n of None \<Rightarrow> Inl (KeyError n) | Some v \<Rightarrow> Inr (n, v)) xs = Inr nodes" for xs nodes
      using that by (induction xs arbitrary: nodes) (auto split: option.splits)
    with n g show ?thesis by blast
  qed
  have s: "s \<in> set visits" using v(2) [of s] assms(3) by (auto intro!: exI [of _ 0])
  have both: "(a, b) \<in> R \<and> (b, a) \<in> R" if "(a, b) \<in> follow_rel st ts mc dir" "a \<in> set visits" "b \<in> set visits" for a b
  proof -
    from that(1) obtain e where e: "e \<in> set (forward_edges st ts mc dir a) \<and> ge_target e = b \<or> e \<in> set (backward_edges st ts mc dir a) \<and> ge_source e = b"
      by (auto simp: follow_rel_def)
    then have "e \<in> set edges" "e \<in> set (gst_edges st)" "{ge_source e, ge_target e} = {a, b}"
      using that(2) wf_edges(1,2) [OF assms(1)] by (auto simp: edges_def forward_edges_def backward_edges_def split: if_splits)
    moreover have "ge_source e' \<in> ge_source ` set (dict_get (gst_reverse_adjacency st) (ge_target e') [])" if "e' \<in> set (gst_edges st)" for e'
      using that wf_edges(2) [OF assms(1), of "ge_target e'"] by (auto simp: in_edges_def)
    ultimately show ?thesis using that(2,3) by (auto simp: R_def mixed_rel_def doubleton_eq_iff)
  qed
  have conn: "(s, n) \<in> R\<^sup>* \<and> (n, s) \<in> R\<^sup>*" if "(s, n) \<in> follow_rel st ts mc dir ^^ k" "int k \<le> depth" for n k
    using that
  proof (induction k arbitrary: n)
    case (Suc k)
    then obtain m where m: "(s, m) \<in> follow_rel st ts mc dir ^^ k" "(m, n) \<in> follow_rel st ts mc dir" by auto
    have "m \<in> set visits" "n \<in> set visits" using m Suc(2,3) v(2) by (force, blast)
    with both [OF m(2)] Suc(1) [OF m(1)] Suc(3) show ?case by (auto intro: rtrancl_into_rtrancl converse_rtrancl_into_rtrancl)
  qed simp
  have all: "R\<^sup>* `` {n} = set visits" if "n \<in> set visits" for n
  proof (intro equalityI subsetI)
    fix m assume "m \<in> R\<^sup>* `` {n}"
    then show "m \<in> set visits" using that by (auto elim: rtranclE simp: R_def mixed_rel_def)
  next
    fix m assume "m \<in> set visits"
    with that v(2) conn show "m \<in> R\<^sup>* `` {n}" by (meson Image_singleton_iff rtrancl_trans)
  qed
  define search where "search = bfs_undirected (adjacency_by ge_source edges) (gst_reverse_adjacency st) visits"
  have search: "set (search {} n) = set visits" "distinct (search {} n)" if "n \<in> set visits" for n
    using mixed.reach [of edges "gst_reverse_adjacency st" visits "{}" n "()"] that all [OF that]
    by (simp_all add: search_def bfs_undirected_def bfs_visit_mark R_def mark_distinct)
  have "it visits \<noteq> []" "hd (it visits) \<in> set visits" using s assms(4) [of visits] by (metis empty_iff list.set(1), metis empty_iff hd_in_set list.set(1) s)
  then have "components search {} (it visits) = [search {} (hd (it visits))]" "set (search {} (hd (it visits))) = set visits" "distinct (search {} (hd (it visits)))"
    using components_one [of search "hd (it visits)" visits "it visits"] search assms(4) by auto
  moreover from this v(1) have "sort (search {} (hd (it visits))) = sort visits"
    by (intro sorted_distinct_set_unique) simp_all
  moreover obtain nodes where "gst_clusters g = map sort (components search {} (it visits))" "map fst (gst_nodes g) = visits"
    using g by (auto simp: build_subgraph_def Let_def search_def)
  ultimately show ?thesis by simp
qed

section \<open>Examples\<close>

definition sample_gnode :: "string \<Rightarrow> GraphNode" where
  "sample_gnode i = \<lparr>gn_id = i, gn_title = i, gn_knowledge_type = ''fact'', gn_domain = ''architecture'', gn_confidence = 1,
     gn_importance = ''high'', gn_tags = []\<rparr>"

definition sample_gedge :: "string \<Rightarrow> string \<Rightarrow> RelationType \<Rightarrow> GraphEdge" where
  "sample_gedge a b rt = \<lparr>ge_source = a, ge_target = b, ge_relation_type = rt, ge_confidence = 1\<rparr>"

definition sample_gstate :: "GraphEdge list \<Rightarrow> GraphState" where
  "sample_gstate es = (graph_state ''p'' ''t'')\<lparr>gst_nodes := map (\<lambda>i. (i, sample_gnode i)) [''a'', ''b'', ''c'', ''d''],
     gst_edges := es, gst_adjacency := adjacency_by ge_source es, gst_reverse_adjacency := adjacency_by ge_target es\<rparr>"

definition sample_line :: GraphState where
  "sample_line = sample_gstate [sample_gedge ''a'' ''b'' SUPPORTS, sample_gedge ''b'' ''c'' SUPPORTS]"

lemma sample_line_wf: "graph_wf sample_line"
  by (simp add: graph_wf_def sample_line_def sample_gstate_def sample_gedge_def)

lemma sample_line_nodes: "dict_has (gst_nodes sample_line) ''a''"
  by (simp add: sample_line_def sample_gstate_def dict_has_def)

lemma sample_line_edges: "gst_edges sample_line = [sample_gedge ''a'' ''b'' SUPPORTS, sample_gedge ''b'' ''c'' SUPPORTS]"
  by (simp add: sample_line_def sample_gstate_def)

lemmas sample_line_simps = wf_edges(1,2) [OF sample_line_wf] sample_line_edges sample_gedge_def

definition sample_kstate :: KnowledgeState where
  "sample_kstate = \<lparr>kst_project_id = ''p'', kst_compiled_at = ''t'', kst_projection_version = ''1.0'',
     kst_active_knowledge = [sample_knowledge ''k1'' ''ACTIVE'' [], sample_knowledge ''k2'' ''ACTIVE'' []], kst_stale_knowledge = [],
     kst_superseded_knowledge = [], kst_proposed = [], kst_validated = [], kst_invariants = [], kst_conflicted = [], kst_tombstoned = [],
     kst_conflict_queue = [], kst_unresolved_count = 0, kst_derivation_chains = [], kst_support_graph = [(''k1'', [''k2''])],
     kst_health = None, kst_provenance = []\<rparr>"

lemma sample_event_numbers: "event_numbers (sample_knowledge i l c) = Inr [7]"
  by (simp add: event_numbers_def sample_knowledge_def isdigit_text_def is_unicode_digit_def is_digit_def int_of_text_def strip_ws_def
      is_space_def Let_def read_nat_def digit_val_def)

lemma sample_kstate_projects: "\<exists>g. graph_project ''t'' (sample_kstate\<lparr>kst_derivation_chains := ds\<rparr>) = Inr g"
proof -
  have "pvc_source_event_ids (ko_provenance (sample_knowledge i l c)) \<noteq> []" for i l c by (simp add: sample_knowledge_def)
  then have d: "provenance_of (kst_active_knowledge (sample_kstate\<lparr>kst_derivation_chains := ds\<rparr>)) =
      Inr (AList.update (ko_id (sample_knowledge ''k2'' ''ACTIVE'' [])) [7] (AList.update (ko_id (sample_knowledge ''k1'' ''ACTIVE'' [])) [7] []))"
    by (simp add: provenance_of_def sample_kstate_def sample_event_numbers)
  show ?thesis unfolding graph_project_def Let_def d rbind_simps by (rule exI) (rule refl)
qed

theorem graph_project_wf_witness: "\<exists>g. graph_project ''t'' (sample_kstate\<lparr>kst_derivation_chains := []\<rparr>) = Inr g \<and> graph_wf g"
proof -
  obtain g where g: "graph_project ''t'' (sample_kstate\<lparr>kst_derivation_chains := []\<rparr>) = Inr g" using sample_kstate_projects ..
  moreover have "graph_wf g" by (rule conjunct1 [OF graph_project_wf [OF g]])
  ultimately show ?thesis by (intro exI conjI)
qed

theorem filtered_traversal_correct_witness:
  "\<exists>g. filtered_traversal (\<lambda>xs. xs) sample_line ''a'' None 0 ''both'' 1 = Inr g \<and>
     count (mset (gst_edges g)) (sample_gedge ''a'' ''b'' SUPPORTS) = 2"
proof -
  obtain g where g: "filtered_traversal (\<lambda>xs. xs) sample_line ''a'' None 0 ''both'' 1 = Inr g"
    and n: "\<forall>n. n \<in> fst ` set (gst_nodes g) \<longleftrightarrow> (\<exists>k. int k \<le> 1 \<and> (''a'', n) \<in> follow_rel sample_line None 0 ''both'' ^^ k)"
    and e: "\<forall>e. count (mset (gst_edges g)) e = (if follows None 0 e then count (mset (gst_edges sample_line)) e else 0) *
       (of_bool (''both'' \<in> {''both'', ''forward''} \<and> ge_source e \<in> fst ` set (gst_nodes g)) +
        of_bool (''both'' \<in> {''both'', ''backward''} \<and> ge_target e \<in> fst ` set (gst_nodes g)))"
    using filtered_traversal_correct [OF sample_line_wf sample_line_nodes zero_le_one, of "\<lambda>xs. xs" None 0 "''both''"] by blast
  have "(''a'', ''b'') \<in> follow_rel sample_line None 0 ''both''"
    by (simp add: follow_rel_def forward_edges_def follows_def sample_line_simps)
  then have "(''a'', ''b'') \<in> follow_rel sample_line None 0 ''both'' ^^ 1" "(''a'', ''a'') \<in> follow_rel sample_line None 0 ''both'' ^^ 0" by simp_all
  then have "''b'' \<in> fst ` set (gst_nodes g)" "''a'' \<in> fst ` set (gst_nodes g)"
    using n by (metis of_nat_1 order_refl, metis of_nat_0 zero_le_one)
  then show ?thesis using g e [rule_format, of "sample_gedge ''a'' ''b'' SUPPORTS"]
    by (simp add: follows_def sample_line_edges) (simp add: sample_gedge_def)
qed

theorem impact_analysis_correct_witness:
  "''b'' \<in> set (imp_downstream (impact_analysis sample_line ''a'' 2 None)) \<and>
   ''c'' \<notin> set (imp_downstream (impact_analysis sample_line ''a'' 2 None))"
proof -
  have r: "typed_rel sample_line None = {(''a'', ''b''), (''b'', ''c'')}" by (simp add: typed_rel_def edge_rel_def sample_line_simps)
  have "int k < 2 \<longleftrightarrow> k = 0 \<or> k = 1" for k by auto
  then have two: "(\<exists>k. int k < 2 \<and> P k) \<longleftrightarrow> P 0 \<or> P 1" for P by metis
  have i: "n \<in> set (imp_downstream (impact_analysis sample_line ''a'' 2 None)) \<longleftrightarrow>
      n \<noteq> ''a'' \<and> (\<exists>k. int k < 2 \<and> (''a'', n) \<in> typed_rel sample_line None ^^ k)" for n
    using impact_analysis_correct [OF sample_line_wf, of 2 "''a''" None n] by simp
  show ?thesis unfolding i two r by simp
qed

theorem blast_radius_correct_witness: "\<exists>c. (''b'', 1, c) \<in> set (blast_radius sample_line ''a'' 2)"
proof -
  have "(''a'', ''b'') \<in> both_ways sample_line" by (simp add: both_ways_def sample_line_simps)
  then have "distance (both_ways sample_line) ''a'' ''b'' 1" by (simp add: distance_def)
  then show ?thesis using blast_radius_correct [OF sample_line_nodes, of 2 "''b''" 1] by simp
qed

end
