(* ===== verification/GraphWeights.thy ===== *)
theory GraphWeights
  imports GraphNavigation
begin

text \<open>
  Shortest paths by weight (\<open>weighted_shortest_path\<close> of \<open>projections/graph.py\<close>), Dijkstra's algorithm
  with a binary heap and lazy deletion.  The heap is the list of its entries, of which the least is taken.
  Weights and distances are floats.  Rounding is monotone and the sum of two floats that are not negative is
  not below either, which is all that the algorithm needs: the path returned has the least length among all
  walks, where the length of a walk is its sum computed from left to right as the program computes it.
\<close>

section \<open>The algorithm\<close>

definition edge_weight :: "GraphEdge \<Rightarrow> pyfloat" where
  "edge_weight e = fdiv 1 (max (ge_confidence e) (flt (1 / 100)))"

type_synonym dists = "(string, pyfloat) dict \<times> (string, string option) dict \<times> (pyfloat \<times> string) list"

text \<open>One edge of the node \<open>current\<close>, whose distance is \<open>d\<close>; a missing distance is infinite.\<close>

definition relax_edge :: "pyfloat \<Rightarrow> string \<Rightarrow> dists \<Rightarrow> GraphEdge \<Rightarrow> dists" where
  "relax_edge d current s e =
     (case s of (ds, prev, heap) \<Rightarrow>
        let new_dist = fadd d (edge_weight e)
        in if (case map_of ds (ge_target e) of None \<Rightarrow> True | Some old \<Rightarrow> new_dist < old)
           then (AList.update (ge_target e) new_dist ds, AList.update (ge_target e) (Some current) prev, heap @ [(new_dist, ge_target e)])
           else s)"

definition heap_least :: "(pyfloat \<times> string) list \<Rightarrow> pyfloat \<times> string" where
  "heap_least heap = foldl min (hd heap) (tl heap)"

lemma foldl_min: "foldl min a xs = Min (insert a (set xs))" for a :: "'a :: linorder"
proof (induction xs arbitrary: a)
  case (Cons x xs)
  have "Min (insert (min a x) (set xs)) = Min (insert a (insert x (set xs)))"
    by (cases "xs = []") (simp_all add: min.assoc)
  with Cons show ?case by simp
qed simp

lemma heap_least: "heap \<noteq> [] \<Longrightarrow> heap_least heap \<in> set heap \<and> (\<forall>x \<in> set heap. heap_least heap \<le> x)"
proof -
  assume "heap \<noteq> []"
  then have "heap_least heap = Min (set heap)" by (cases heap) (simp_all only: heap_least_def foldl_min list.sel list.set)
  with \<open>heap \<noteq> []\<close> show ?thesis by simp
qed

lemma relax_heap:
  "snd ` set (snd (snd (foldl (relax_edge d c) s es))) \<subseteq> snd ` set (snd (snd s)) \<union> ge_target ` set es"
proof (induction es arbitrary: s)
  case (Cons e es)
  have "snd ` set (snd (snd (relax_edge d c s e))) \<subseteq> snd ` set (snd (snd s)) \<union> {ge_target e}"
    by (auto simp: relax_edge_def Let_def split: prod.splits if_splits)
  with Cons [of "relax_edge d c s e"] show ?case by auto
qed simp

function dijkstra_loop :: "GraphState \<Rightarrow> string \<Rightarrow> string set \<Rightarrow> dists \<Rightarrow> (string, pyfloat) dict \<times> (string, string option) dict" where
  "dijkstra_loop st target visited (ds, prev, heap) =
     (if heap = [] then (ds, prev)
      else let x = heap_least heap; d = fst x; current = snd x; heap' = remove1 x heap
           in if current \<in> visited then dijkstra_loop st target visited (ds, prev, heap')
              else if current = target then (ds, prev)
              else dijkstra_loop st target (insert current visited)
                     (foldl (relax_edge d current) (ds, prev, heap') (out_edges st current)))"
  by pat_completeness auto

lemma unvisited_psubset: "X \<subseteq> H \<union> U \<Longrightarrow> c \<in> H \<Longrightarrow> c \<notin> V \<Longrightarrow> U \<union> X - insert c V \<subset> U \<union> H - V"
  by auto

termination dijkstra_loop
proof (relation "measures [\<lambda>(st, t, V, s). card ((set (endpoints st) \<union> snd ` set (snd (snd s))) - V), \<lambda>(st, t, V, s). length (snd (snd s))]", goal_cases)
  case 1 show ?case by simp
next
  case (2 st target V ds prev heap x d current heap')
  have "card (set (endpoints st) \<union> snd ` set heap' - V) \<le> card (set (endpoints st) \<union> snd ` set heap - V)"
    unfolding 2(5) using set_remove1_subset [of x heap] by (intro card_mono) auto
  moreover have "length heap' < length heap"
    using heap_least [OF 2(1)] 2(1) unfolding 2(2,5) by (simp add: length_remove1)
  ultimately show ?case by auto
next
  case (3 st target V ds prev heap x d current heap')
  let ?s = "foldl (relax_edge d current) (ds, prev, heap') (out_edges st current)"
  have sub: "snd ` set (snd (snd ?s)) \<subseteq> snd ` set heap \<union> set (endpoints st)"
  proof -
    have a: "snd ` set heap' \<subseteq> snd ` set heap" using set_remove1_subset [of x heap] unfolding 3(5) by (rule image_mono)
    have b: "ge_target ` set (out_edges st current) \<subseteq> set (endpoints st)" using out_edges_endpoints by auto
    have "snd ` set (snd (snd ?s)) \<subseteq> snd ` set heap' \<union> ge_target ` set (out_edges st current)"
      using relax_heap [of d current "(ds, prev, heap')" "out_edges st current"] by (simp only: snd_conv)
    then show ?thesis by (rule subset_trans [OF _ Un_mono [OF a b]])
  qed
  have "current \<in> snd ` set heap" using heap_least [OF 3(1)] 3(2,4) by auto
  then have "set (endpoints st) \<union> snd ` set (snd (snd ?s)) - insert current V \<subset> set (endpoints st) \<union> snd ` set heap - V"
    by (rule unvisited_psubset [OF sub _ 3(6)])
  then have "card (set (endpoints st) \<union> snd ` set (snd (snd ?s)) - insert current V) < card (set (endpoints st) \<union> snd ` set heap - V)"
    by (rule psubset_card_mono [rotated]) simp
  then show ?case by simp
qed

declare dijkstra_loop.simps [simp del]

lemma dijkstra_loop_step:
  "heap \<noteq> [] \<Longrightarrow> heap_least heap = (d, c) \<Longrightarrow> dijkstra_loop st t V (ds, prev, heap) =
     (if c \<in> V then dijkstra_loop st t V (ds, prev, remove1 (d, c) heap) else if c = t then (ds, prev)
      else dijkstra_loop st t (insert c V) (foldl (relax_edge d c) (ds, prev, remove1 (d, c) heap) (out_edges st c)))"
  by (subst dijkstra_loop.simps) (simp add: Let_def)

text \<open>The walk back from the target.  The loop of the program has no bound; \<open>None\<close> says that it has not ended
  after that many steps.\<close>

fun path_back :: "nat \<Rightarrow> (string, string option) dict \<Rightarrow> string option \<Rightarrow> string list result option" where
  "path_back k prev None = Some (Inr [])"
| "path_back 0 prev (Some n) = None"
| "path_back (Suc k) prev (Some n) =
     (case map_of prev n of
        None \<Rightarrow> Some (Inl (KeyError n))
      | Some m \<Rightarrow> map_option (\<lambda>r. rbind r (\<lambda>p. Inr (n # p))) (path_back k prev m))"

text \<open>The path and its length, \<open>None\<close> for an infinite one.\<close>

definition weighted_shortest_path :: "GraphState \<Rightarrow> string \<Rightarrow> string \<Rightarrow> (string list \<times> pyfloat option) result option" where
  "weighted_shortest_path st source target =
     (if \<not> dict_has (gst_nodes st) source \<or> \<not> dict_has (gst_nodes st) target then Some (Inr ([], None))
      else if source = target then Some (Inr ([source], Some 0))
      else case dijkstra_loop st target {} ([(source, 0)], [(source, None)], [(0, source)]) of (ds, prev) \<Rightarrow>
        if \<not> dict_has prev target then Some (Inr ([], None))
        else map_option (\<lambda>r. rbind r (\<lambda>p. case map_of ds target of
                 None \<Rightarrow> Inl (KeyError target)
               | Some d \<Rightarrow> Inr (rev p, Some d))) (path_back (length prev) prev (Some target)))"

section \<open>Walks and their lengths\<close>

fun ewalk :: "GraphState \<Rightarrow> string \<Rightarrow> GraphEdge list \<Rightarrow> string \<Rightarrow> bool" where
  "ewalk st a [] b \<longleftrightarrow> a = b"
| "ewalk st a (e # es) b \<longleftrightarrow> e \<in> set (out_edges st a) \<and> ewalk st (ge_target e) es b"

definition walk_length :: "GraphEdge list \<Rightarrow> pyfloat" where
  "walk_length es = foldl (\<lambda>d e. fadd d (edge_weight e)) 0 es"

lemma ewalk_snoc: "ewalk st a (es @ [e]) b \<longleftrightarrow> (\<exists>c. ewalk st a es c \<and> e \<in> set (out_edges st c) \<and> ge_target e = b)"
  by (induction es arbitrary: a) auto

lemma walk_length_snoc: "walk_length (es @ [e]) = fadd (walk_length es) (edge_weight e)"
  by (simp add: walk_length_def)

lemma edge_weight_nonneg: "0 \<le> edge_weight e"
proof -
  have "0 \<le> flt (1 / 100)" by (simp add: flt_nonneg)
  then show ?thesis by (simp add: edge_weight_def le_max_iff_disj)
qed

lemma fadd_ge: "is_float d \<Longrightarrow> d \<le> fadd d (edge_weight e)"
  using edge_weight_nonneg [of e] by (auto simp: fadd_def intro: flt_ge)

lemma walk_length_float [simp]: "is_float (walk_length es)"
  by (induction es rule: rev_induct) (simp_all add: walk_length_snoc, simp add: walk_length_def)

lemma walk_length_nonneg: "0 \<le> walk_length es"
  by (induction es rule: rev_induct) (simp_all add: walk_length_snoc edge_weight_nonneg, simp add: walk_length_def)

section \<open>The invariant\<close>

text \<open>The distance of a node comes from a visited node, whose distance is final.\<close>

definition dist_from :: "GraphState \<Rightarrow> string \<Rightarrow> string set \<Rightarrow> (string, pyfloat) dict \<Rightarrow> (string, string option) dict \<Rightarrow> string \<Rightarrow> pyfloat \<Rightarrow> bool" where
  "dist_from st s V ds prev n d \<longleftrightarrow>
     n = s \<and> d = 0 \<and> map_of prev n = Some None \<or>
     (\<exists>m dm e. m \<in> V \<and> map_of prev n = Some (Some m) \<and> map_of ds m = Some dm \<and>
        e \<in> set (out_edges st m) \<and> ge_target e = n \<and> d = fadd dm (edge_weight e))"

text \<open>\<open>E\<close> holds the edges that have been relaxed.\<close>

definition dij_inv :: "GraphState \<Rightarrow> string \<Rightarrow> string set \<Rightarrow> (string \<times> GraphEdge) set \<Rightarrow> dists \<Rightarrow> bool" where
  "dij_inv st s V E x \<longleftrightarrow>
     (case x of (ds, prev, heap) \<Rightarrow>
        map_of ds s = Some 0 \<and> dom (map_of prev) = dom (map_of ds) \<and> V \<subseteq> dom (map_of ds) \<and>
        (\<forall>n d. map_of ds n = Some d \<longrightarrow> is_float d \<and> 0 \<le> d \<and> (n \<in> V \<or> (d, n) \<in> set heap) \<and> dist_from st s V ds prev n d) \<and>
        (\<forall>n d. n \<in> V \<longrightarrow> map_of ds n = Some d \<longrightarrow> (\<forall>y \<in> set heap. d \<le> fst y) \<and> (\<forall>es. ewalk st s es n \<longrightarrow> d \<le> walk_length es)) \<and>
        (\<forall>y \<in> set heap. \<exists>d. map_of ds (snd y) = Some d \<and> d \<le> fst y) \<and>
        (\<forall>y \<in> E. \<exists>dm d. map_of ds (fst y) = Some dm \<and> map_of ds (ge_target (snd y)) = Some d \<and> d \<le> fadd dm (edge_weight (snd y))))"

lemma dij_invD:
  assumes "dij_inv st s V E (ds, prev, heap)"
  shows "map_of ds s = Some 0" and "dom (map_of prev) = dom (map_of ds)" and "V \<subseteq> dom (map_of ds)"
    and "map_of ds n = Some d \<Longrightarrow> is_float d \<and> 0 \<le> d"
    and "map_of ds n = Some d \<Longrightarrow> n \<notin> V \<Longrightarrow> (d, n) \<in> set heap"
    and "map_of ds n = Some d \<Longrightarrow> dist_from st s V ds prev n d"
    and "map_of ds n = Some d \<Longrightarrow> n \<in> V \<Longrightarrow> y \<in> set heap \<Longrightarrow> d \<le> fst y"
    and "map_of ds n = Some d \<Longrightarrow> n \<in> V \<Longrightarrow> ewalk st s es n \<Longrightarrow> d \<le> walk_length es"
    and "y \<in> set heap \<Longrightarrow> \<exists>d. map_of ds (snd y) = Some d \<and> d \<le> fst y"
    and "(m, e) \<in> E \<Longrightarrow> \<exists>dm d. map_of ds m = Some dm \<and> map_of ds (ge_target e) = Some d \<and> d \<le> fadd dm (edge_weight e)"
  using assms unfolding dij_inv_def prod.case by (blast | fastforce)+

lemma dij_inv_smaller_heap:
  assumes "dij_inv st s V E (ds, prev, heap)" and "set h \<subseteq> set heap"
    and "\<And>n x. map_of ds n = Some x \<Longrightarrow> n \<notin> V \<Longrightarrow> (x, n) \<in> set h"
  shows "dij_inv st s V E (ds, prev, h)"
proof -
  have "\<forall>n d. map_of ds n = Some d \<longrightarrow> is_float d \<and> 0 \<le> d \<and> (n \<in> V \<or> (d, n) \<in> set h) \<and> dist_from st s V ds prev n d"
    using dij_invD(4,6) [OF assms(1)] assms(3) by blast
  moreover have "\<forall>n d. n \<in> V \<longrightarrow> map_of ds n = Some d \<longrightarrow> (\<forall>y \<in> set h. d \<le> fst y) \<and> (\<forall>es. ewalk st s es n \<longrightarrow> d \<le> walk_length es)"
    using dij_invD(7,8) [OF assms(1)] assms(2) by blast
  moreover have "\<forall>y \<in> set h. \<exists>d. map_of ds (snd y) = Some d \<and> d \<le> fst y"
    using dij_invD(9) [OF assms(1)] assms(2) by blast
  moreover have "\<forall>y \<in> E. \<exists>dm d. map_of ds (fst y) = Some dm \<and> map_of ds (ge_target (snd y)) = Some d \<and> d \<le> fadd dm (edge_weight (snd y))"
    using assms(1) unfolding dij_inv_def prod.case by (elim conjE)
  ultimately show ?thesis unfolding dij_inv_def prod.case using dij_invD(1,2,3) [OF assms(1)] by (intro conjI)
qed

text \<open>A walk to a node that is not visited is at least as long as the least entry of the heap.\<close>

lemma walk_through_heap:
  assumes inv: "dij_inv st s V {(m, e). m \<in> V \<and> e \<in> set (out_edges st m)} (ds, prev, heap)"
    and "ewalk st s es n" and "n \<notin> V"
  shows "\<exists>y \<in> set heap. fst y \<le> walk_length es"
  using assms(2,3)
proof (induction es arbitrary: n rule: rev_induct)
  case Nil
  then have "(0, s) \<in> set heap" using dij_invD(5) [OF inv dij_invD(1) [OF inv]] by simp
  then show ?case by (intro bexI) (auto simp: walk_length_def)
next
  case (snoc e es)
  then obtain m where m: "ewalk st s es m" "e \<in> set (out_edges st m)" "ge_target e = n" by (auto simp: ewalk_snoc)
  show ?case
  proof (cases "m \<in> V")
    case True
    with m dij_invD(10) [OF inv, of m e] obtain dm d
      where d: "map_of ds m = Some dm" "map_of ds n = Some d" "d \<le> fadd dm (edge_weight e)" by auto
    have "dm \<le> walk_length es" by (rule dij_invD(8) [OF inv d(1) True m(1)])
    then have "d \<le> walk_length (es @ [e])"
      using d(3) fadd_mono [of dm "walk_length es" "edge_weight e" "edge_weight e"] by (simp add: walk_length_snoc)
    with dij_invD(5) [OF inv d(2) snoc(3)] show ?thesis by (intro bexI) auto
  next
    case False
    with snoc(1) [OF m(1)] obtain y where y: "y \<in> set heap" "fst y \<le> walk_length es" by auto
    have "walk_length es \<le> walk_length (es @ [e])" using fadd_ge [of "walk_length es" e] by (simp add: walk_length_snoc)
    with y show ?thesis by (intro bexI [of _ y]) auto
  qed
qed

text \<open>The least entry of the heap for a node that is not visited has its final distance.\<close>

lemma least_final:
  assumes inv: "dij_inv st s V {(m, e). m \<in> V \<and> e \<in> set (out_edges st m)} (ds, prev, heap)"
    and heap: "heap \<noteq> []" and least: "heap_least heap = (d, c)" and "c \<notin> V"
  shows "map_of ds c = Some d" and "ewalk st s es c \<Longrightarrow> d \<le> walk_length es"
proof -
  have l: "(d, c) \<in> set heap" "\<And>y. y \<in> set heap \<Longrightarrow> (d, c) \<le> y" using heap_least [OF heap] least by auto
  from dij_invD(9) [OF inv l(1)] obtain d' where d': "map_of ds c = Some d'" "d' \<le> d" by auto
  have "(d, c) \<le> (d', c)" by (rule l(2) [OF dij_invD(5) [OF inv d'(1) assms(4)]])
  then show "map_of ds c = Some d" using d' by auto
  assume "ewalk st s es c"
  from walk_through_heap [OF inv this assms(4)] obtain y where "y \<in> set heap" "fst y \<le> walk_length es" by auto
  with l(2) [of y] show "d \<le> walk_length es" by (auto simp: less_eq_prod_def)
qed

text \<open>Relaxing one edge of a visited node with the greatest distance of all visited ones.\<close>

lemma relax_edge_inv:
  assumes inv: "dij_inv st s V E (ds, prev, heap)" and E: "fst ` E \<subseteq> V"
    and c: "c \<in> V" "map_of ds c = Some d" and e: "e \<in> set (out_edges st c)"
    and top: "\<And>m dm. m \<in> V \<Longrightarrow> map_of ds m = Some dm \<Longrightarrow> dm \<le> d"
  shows "dij_inv st s V (insert (c, e) E) (relax_edge d c (ds, prev, heap) e) \<and>
         (\<forall>m \<in> V. map_of (fst (relax_edge d c (ds, prev, heap) e)) m = map_of ds m \<and>
                  map_of (fst (snd (relax_edge d c (ds, prev, heap) e))) m = map_of prev m)"
proof -
  let ?t = "ge_target e" and ?n = "fadd d (edge_weight e)"
  have float: "is_float d" "0 \<le> d" using dij_invD(4) [OF inv c(2)] by simp_all
  have ge: "d \<le> ?n" by (rule fadd_ge [OF float(1)])
  show ?thesis
  proof (cases "case map_of ds ?t of None \<Rightarrow> True | Some old \<Rightarrow> ?n < old")
    case False
    then obtain old where "map_of ds ?t = Some old" "old \<le> ?n" by (auto split: option.splits)
    then have "dij_inv st s V (insert (c, e) E) (ds, prev, heap)" using inv c(2) unfolding dij_inv_def prod.case by auto
    then show ?thesis using False by (simp add: relax_edge_def Let_def)
  next
    case True
    define ds' where "ds' = AList.update ?t ?n ds"
    define prev' where "prev' = AList.update ?t (Some c) prev"
    define heap' where "heap' = heap @ [(?n, ?t)]"
    have res: "relax_edge d c (ds, prev, heap) e = (ds', prev', heap')"
      using True by (simp add: relax_edge_def Let_def ds'_def prev'_def heap'_def)
    have less: "?n < old" if "map_of ds ?t = Some old" for old using True that by simp
    have t: "?t \<notin> V"
    proof
      assume v: "?t \<in> V"
      then obtain old where o: "map_of ds ?t = Some old" using dij_invD(3) [OF inv] by auto
      with less [OF o] top [OF v o] ge show False by simp
    qed
    have same: "map_of ds' m = map_of ds m" "map_of prev' m = map_of prev m" if "m \<noteq> ?t" for m
      using that by (simp_all add: ds'_def prev'_def)
    have V: "m \<noteq> ?t" if "m \<in> V" for m using t that by auto
    have new: "map_of ds' ?t = Some ?n" "map_of prev' ?t = Some (Some c)" by (simp_all add: ds'_def prev'_def)
    have "?t \<noteq> s" using less [of 0] dij_invD(1) [OF inv] ge float(2) by auto
    then have 1: "map_of ds' s = Some 0" using dij_invD(1) [OF inv] same by auto
    have 2: "dom (map_of prev') = dom (map_of ds')" "V \<subseteq> dom (map_of ds')"
      using dij_invD(2,3) [OF inv] by (auto simp: ds'_def prev'_def dom_def)
    have from_old: "dist_from st s V ds' prev' n x" if "dist_from st s V ds prev n x" "n \<noteq> ?t" for n x
      using that V same unfolding dist_from_def by metis
    have 3: "is_float x \<and> 0 \<le> x \<and> (n \<in> V \<or> (x, n) \<in> set heap') \<and> dist_from st s V ds' prev' n x" if x: "map_of ds' n = Some x" for n x
    proof (cases "n = ?t")
      case True
      then have "x = ?n" using x new by simp
      moreover have "dist_from st s V ds' prev' ?t ?n"
        unfolding dist_from_def using c e new same V by auto
      ultimately show ?thesis using True float edge_weight_nonneg [of e] by (simp add: heap'_def)
    next
      case False
      then have "map_of ds n = Some x" using x same by simp
      then show ?thesis using dij_invD(4,5,6) [OF inv, of n x] from_old False by (auto simp: heap'_def)
    qed
    have 4: "(\<forall>y \<in> set heap'. x \<le> fst y) \<and> (\<forall>es. ewalk st s es n \<longrightarrow> x \<le> walk_length es)" if "n \<in> V" "map_of ds' n = Some x" for n x
    proof -
      have x: "map_of ds n = Some x" using that V same by simp
      then show ?thesis using dij_invD(7,8) [OF inv x that(1)] top [OF that(1) x] ge by (auto simp: heap'_def)
    qed
    have 5: "\<exists>x. map_of ds' (snd y) = Some x \<and> x \<le> fst y" if "y \<in> set heap'" for y
    proof (cases "y \<in> set heap")
      case True
      from dij_invD(9) [OF inv True] obtain x where x: "map_of ds (snd y) = Some x" "x \<le> fst y" by auto
      show ?thesis using x less new same by (cases "snd y = ?t") (fastforce, auto)
    next
      case False
      then show ?thesis using that new by (auto simp: heap'_def)
    qed
    have 6: "\<exists>dm x. map_of ds' (fst y) = Some dm \<and> map_of ds' (ge_target (snd y)) = Some x \<and> x \<le> fadd dm (edge_weight (snd y))"
      if "y \<in> insert (c, e) E" for y
    proof (cases "y = (c, e)")
      case True
      then show ?thesis using new c same V by auto
    next
      case False
      then have y: "(fst y, snd y) \<in> E" "fst y \<in> V" using that E by auto
      from dij_invD(10) [OF inv y(1)] obtain dm x where x: "map_of ds (fst y) = Some dm" "map_of ds (ge_target (snd y)) = Some x"
        "x \<le> fadd dm (edge_weight (snd y))" by auto
      then show ?thesis using less new same V [OF y(2)] by (cases "ge_target (snd y) = ?t") (fastforce, auto)
    qed
    have "dij_inv st s V (insert (c, e) E) (ds', prev', heap')"
      unfolding dij_inv_def prod.case using 1 2 3 4 5 6 by blast
    then show ?thesis unfolding res using same V by auto
  qed
qed

lemma relax_edges_inv:
  assumes "dij_inv st s V E x" and "fst ` E \<subseteq> V" and "c \<in> V" "map_of (fst x) c = Some d" and "set es \<subseteq> set (out_edges st c)"
    and "\<And>m dm. m \<in> V \<Longrightarrow> map_of (fst x) m = Some dm \<Longrightarrow> dm \<le> d"
  shows "dij_inv st s V (E \<union> Pair c ` set es) (foldl (relax_edge d c) x es) \<and>
         (\<forall>m \<in> V. map_of (fst (foldl (relax_edge d c) x es)) m = map_of (fst x) m \<and>
                  map_of (fst (snd (foldl (relax_edge d c) x es))) m = map_of (fst (snd x)) m)"
  using assms
proof (induction es arbitrary: x E)
  case (Cons e es)
  obtain ds prev heap where x: "x = (ds, prev, heap)" by (cases x)
  let ?y = "relax_edge d c x e"
  have step: "dij_inv st s V (insert (c, e) E) ?y" "\<forall>m \<in> V. map_of (fst ?y) m = map_of (fst x) m \<and> map_of (fst (snd ?y)) m = map_of (fst (snd x)) m"
    using relax_edge_inv [of st s V E ds prev heap c d e] Cons(2-7) by (simp_all add: x)
  have "dij_inv st s V (insert (c, e) E \<union> Pair c ` set es) (foldl (relax_edge d c) ?y es) \<and>
      (\<forall>m \<in> V. map_of (fst (foldl (relax_edge d c) ?y es)) m = map_of (fst ?y) m \<and>
               map_of (fst (snd (foldl (relax_edge d c) ?y es))) m = map_of (fst (snd ?y)) m)"
    using Cons(3-7) step by (intro Cons(1) [OF step(1)]) auto
  with step(2) show ?case by auto
qed auto

lemma visit_inv:
  assumes inv: "dij_inv st s V {(m, e). m \<in> V \<and> e \<in> set (out_edges st m)} (ds, prev, heap)"
    and heap: "heap \<noteq> []" and least: "heap_least heap = (d, c)" and c: "c \<notin> V"
  shows "dij_inv st s (insert c V) {(m, e). m \<in> V \<and> e \<in> set (out_edges st m)} (ds, prev, remove1 (d, c) heap)"
    and "m \<in> insert c V \<Longrightarrow> map_of ds m = Some dm \<Longrightarrow> dm \<le> d"
proof -
  note f = least_final [OF inv heap least c]
  have l: "(d, c) \<in> set heap" "\<And>y. y \<in> set heap \<Longrightarrow> d \<le> fst y"
    using heap_least [OF heap] least by (auto simp: less_eq_prod_def)
  have sub: "set (remove1 (d, c) heap) \<subseteq> set heap" by (rule set_remove1_subset)
  have mono: "dist_from st s (insert c V) ds prev n x" if "dist_from st s V ds prev n x" for n x
    using that unfolding dist_from_def by blast
  have 1: "is_float x \<and> 0 \<le> x \<and> (n \<in> insert c V \<or> (x, n) \<in> set (remove1 (d, c) heap)) \<and> dist_from st s (insert c V) ds prev n x"
    if "map_of ds n = Some x" for n x
    using dij_invD(4,5,6) [OF inv that] mono in_set_remove1 [of "(x, n)" "(d, c)" heap]
    by (cases "n \<in> V"; cases "n = c") auto
  have 2: "(\<forall>y \<in> set (remove1 (d, c) heap). x \<le> fst y) \<and> (\<forall>es. ewalk st s es n \<longrightarrow> x \<le> walk_length es)"
    if "n \<in> insert c V" "map_of ds n = Some x" for n x
    using that dij_invD(7,8) [OF inv, of n x] f l sub by (cases "n = c") auto
  have "c \<in> dom (map_of ds)" using f(1) by auto
  then show "dij_inv st s (insert c V) {(m, e). m \<in> V \<and> e \<in> set (out_edges st m)} (ds, prev, remove1 (d, c) heap)"
    unfolding dij_inv_def prod.case using dij_invD(1,2,3) [OF inv] dij_invD(9) [OF inv] dij_invD(10) [OF inv] 1 2 sub by auto
  show "dm \<le> d" if "m \<in> insert c V" "map_of ds m = Some dm"
    using that f(1) dij_invD(7) [OF inv that(2) _ l(1)] by (cases "m = c") auto
qed

section \<open>The path back\<close>

text \<open>The visited nodes, last visited first: the predecessor of each was visited before it.\<close>

fun grounded :: "(string, string option) dict \<Rightarrow> string list \<Rightarrow> bool" where
  "grounded prev [] \<longleftrightarrow> True"
| "grounded prev (n # vs) \<longleftrightarrow> (map_of prev n = Some None \<or> (\<exists>m \<in> set vs. map_of prev n = Some (Some m))) \<and> n \<notin> set vs \<and> grounded prev vs"

lemma grounded_cong: "\<forall>m \<in> set vs. map_of prev' m = map_of prev m \<Longrightarrow> grounded prev' vs = grounded prev vs"
  by (induction vs) auto

lemma grounded_distinct: "grounded prev vs \<Longrightarrow> distinct vs"
  by (induction vs) auto

lemma path_back_mono: "path_back k prev n = Some r \<Longrightarrow> k \<le> k' \<Longrightarrow> path_back k' prev n = Some r"
proof (induction k prev n arbitrary: r k' rule: path_back.induct)
  case (3 k prev n)
  obtain k'' where k': "k' = Suc k''" "k \<le> k''" using 3(3) by (cases k') simp_all
  show ?case
  proof (cases "map_of prev n")
    case None
    then show ?thesis using 3(2) k'(1) by simp
  next
    case (Some m)
    then obtain r' where "path_back k prev m = Some r'" "r = rbind r' (\<lambda>p. Inr (n # p))" using 3(2) by auto
    with 3(1) [OF Some _ k'(2)] show ?thesis using Some k'(1) by simp
  qed
qed auto

lemma path_back_walk:
  assumes inv: "dij_inv st s V E (ds, prev, heap)"
  shows "grounded prev vs \<Longrightarrow> n \<in> set vs \<Longrightarrow> map_of ds n = Some d \<Longrightarrow>
    \<exists>es. path_back (length vs) prev (Some n) = Some (Inr (rev (s # map ge_target es))) \<and> ewalk st s es n \<and> d = walk_length es"
proof (induction vs arbitrary: n d)
  case (Cons v vs)
  show ?case
  proof (cases "n \<in> set vs")
    case True
    with Cons(1) [OF _ True Cons(4)] Cons(2) obtain es where
      es: "path_back (length vs) prev (Some n) = Some (Inr (rev (s # map ge_target es)))" "ewalk st s es n" "d = walk_length es" by auto
    from path_back_mono [OF es(1), of "length (v # vs)"] es(2,3) show ?thesis by (intro exI [of _ es]) simp
  next
    case False
    then have n: "n = v" using Cons(3) by simp
    from dij_invD(6) [OF inv Cons(4)] consider "n = s" "d = 0" "map_of prev n = Some None"
      | m dm e where "map_of prev n = Some (Some m)" "map_of ds m = Some dm" "e \<in> set (out_edges st m)" "ge_target e = n" "d = fadd dm (edge_weight e)"
      unfolding dist_from_def by blast
    then show ?thesis
    proof cases
      case 1
      then show ?thesis by (intro exI [of _ "[]"]) (simp add: walk_length_def)
    next
      case (2 m dm e)
      then have "m \<in> set vs" using Cons(2) n by auto
      from Cons(1) [OF _ this 2(2)] Cons(2) obtain es where
        es: "path_back (length vs) prev (Some m) = Some (Inr (rev (s # map ge_target es)))" "ewalk st s es m" "dm = walk_length es" by auto
      then show ?thesis using 2 by (intro exI [of _ "es @ [e]"]) (auto simp: ewalk_snoc walk_length_snoc)
    qed
  qed
qed simp

lemma dijkstra_loop_result:
  assumes "dij_inv st s V {(m, e). m \<in> V \<and> e \<in> set (out_edges st m)} x" and "grounded (fst (snd x)) vs" and "set vs = V"
    and "dijkstra_loop st t V x = (ds', prev')"
  shows "\<exists>V' E heap' vs'. dij_inv st s V' E (ds', prev', heap') \<and> grounded prev' vs' \<and> set vs' = V' \<and>
           (t \<in> V' \<or> heap' = [] \<and> E = {(m, e). m \<in> V' \<and> e \<in> set (out_edges st m)})"
  using assms
proof (induction st t V x arbitrary: vs rule: dijkstra_loop.induct)
  case (1 st t V ds prev heap)
  show ?case
  proof (cases "heap = []")
    case True
    then have "(ds', prev') = (ds, prev)" using 1(6) by (simp add: dijkstra_loop.simps)
    with True 1(3-5) show ?thesis
      by (intro exI [of _ V] exI [of _ "{(m, e). m \<in> V \<and> e \<in> set (out_edges st m)}"] exI [of _ "[]"] exI [of _ vs]) simp
  next
    case False
    obtain d c where least: "heap_least heap = (d, c)" by (cases "heap_least heap")
    let ?h = "remove1 (d, c) heap" and ?EV = "\<lambda>V. {(m, e). m \<in> V \<and> e \<in> set (out_edges st m)}"
    have loop: "(ds', prev') = (if c \<in> V then dijkstra_loop st t V (ds, prev, ?h) else if c = t then (ds, prev)
        else dijkstra_loop st t (insert c V) (foldl (relax_edge d c) (ds, prev, ?h) (out_edges st c)))"
      using dijkstra_loop_step [OF False least] 1(6) by simp
    show ?thesis
    proof (cases "c \<in> V")
      case True
      have "dij_inv st s V (?EV V) (ds, prev, ?h)"
      proof -
        have sub: "set ?h \<subseteq> set heap" by (rule set_remove1_subset)
        have "(x, n) \<in> set ?h" if "map_of ds n = Some x" "n \<notin> V" for n x
          using dij_invD(5) [OF 1(3) that] that(2) True by (subst in_set_remove1) auto
        then show ?thesis by (rule dij_inv_smaller_heap [OF 1(3) sub])
      qed
      moreover have "dijkstra_loop st t V (ds, prev, ?h) = (ds', prev')" using loop True by simp
      ultimately show ?thesis
        using 1(1) [OF False refl refl refl refl, unfolded least fst_conv snd_conv, OF True] 1(4,5) by simp
    next
      case c: False
      note v = visit_inv [OF 1(3) False least c]
      note f = least_final [OF 1(3) False least c]
      have g: "grounded prev (c # vs)"
        using dij_invD(6) [OF 1(3) f(1)] 1(4,5) c by (auto simp: dist_from_def)
      show ?thesis
      proof (cases "c = t")
        case True
        then have "(ds', prev') = (ds, prev)" using loop c by simp
        with True v(1) g 1(5) show ?thesis
          by (intro exI [of _ "insert c V"] exI [of _ "?EV V"] exI [of _ ?h] exI [of _ "c # vs"]) simp
      next
        case t: False
        let ?x = "foldl (relax_edge d c) (ds, prev, ?h) (out_edges st c)"
        have r: "dij_inv st s (insert c V) (?EV V \<union> Pair c ` set (out_edges st c)) ?x"
          "\<forall>m \<in> insert c V. map_of (fst (snd ?x)) m = map_of prev m"
        proof -
          have "fst ` ?EV V \<subseteq> insert c V" by auto
          from relax_edges_inv [OF v(1) this, of c d "out_edges st c"] v(2) f(1)
          show "dij_inv st s (insert c V) (?EV V \<union> Pair c ` set (out_edges st c)) ?x"
            "\<forall>m \<in> insert c V. map_of (fst (snd ?x)) m = map_of prev m" by simp_all
        qed
        have "?EV V \<union> Pair c ` set (out_edges st c) = ?EV (insert c V)" by auto
        with r(1) have "dij_inv st s (insert c V) (?EV (insert c V)) ?x" by simp
        moreover have "grounded (fst (snd ?x)) (c # vs)" using g r(2) 1(5) grounded_cong [of "c # vs" "fst (snd ?x)" prev] by simp
        moreover have "dijkstra_loop st t (insert c V) ?x = (ds', prev')" using loop c t by simp
        moreover have "set (c # vs) = insert c V" using 1(5) by simp
        ultimately show ?thesis using 1(2) [OF False refl refl refl refl, unfolded least fst_conv snd_conv, OF c t] by blast
      qed
    qed
  qed
qed

section \<open>Shortest paths are correct\<close>

text \<open>Property C3: shortest paths by weight.  The walk back always ends.  Between two nodes of the graph an empty path of infinite length is
  returned exactly if no walk joins them; otherwise the path follows edges from the source to the target, the length
  returned is its length, and no walk between the two nodes is shorter.\<close>

theorem weighted_shortest_path_correct:
  assumes "dict_has (gst_nodes st) s" and "dict_has (gst_nodes st) t"
  shows "if \<exists>es. ewalk st s es t
         then \<exists>es. ewalk st s es t \<and> weighted_shortest_path st s t = Some (Inr (s # map ge_target es, Some (walk_length es))) \<and>
                (\<forall>es'. ewalk st s es' t \<longrightarrow> walk_length es \<le> walk_length es')
         else weighted_shortest_path st s t = Some (Inr ([], None))"
proof (cases "s = t")
  case True
  have "walk_length [] \<le> walk_length es'" for es' using walk_length_nonneg [of es'] by (simp add: walk_length_def)
  with True assms show ?thesis
    by (auto simp: weighted_shortest_path_def walk_length_def intro!: exI [of _ "[]"])
next
  case False
  obtain ds prev where loop: "dijkstra_loop st t {} ([(s, 0)], [(s, None)], [(0, s)]) = (ds, prev)"
    by (cases "dijkstra_loop st t {} ([(s, 0)], [(s, None)], [(0, s)])")
  have "dij_inv st s {} {(m, e). m \<in> {} \<and> e \<in> set (out_edges st m)} ([(s, 0)], [(s, None)], [(0, s)])"
    by (auto simp: dij_inv_def dist_from_def dom_def split: if_splits)
  then have "\<exists>V' E heap' vs'. dij_inv st s V' E (ds, prev, heap') \<and> grounded prev vs' \<and> set vs' = V' \<and>
      (t \<in> V' \<or> heap' = [] \<and> E = {(m, e). m \<in> V' \<and> e \<in> set (out_edges st m)})"
    by (rule dijkstra_loop_result [OF _ _ _ loop, where vs = "[]"]) simp_all
  then obtain V E heap vs where
    inv: "dij_inv st s V E (ds, prev, heap)" and g: "grounded prev vs" "set vs = V"
    and fin: "t \<in> V \<or> heap = [] \<and> E = {(m, e). m \<in> V \<and> e \<in> set (out_edges st m)}" by (elim exE conjE)
  have res: "weighted_shortest_path st s t = (if \<not> dict_has prev t then Some (Inr ([], None))
        else map_option (\<lambda>r. rbind r (\<lambda>p. case map_of ds t of None \<Rightarrow> Inl (KeyError t) | Some d \<Rightarrow> Inr (rev p, Some d)))
               (path_back (length prev) prev (Some t)))"
    using assms False loop by (simp add: weighted_shortest_path_def)
  have has: "dict_has prev t \<longleftrightarrow> t \<in> dom (map_of ds)"
    unfolding dij_invD(2) [OF inv, symmetric] by (auto simp: dict_has_map_of)
  show ?thesis
  proof (cases "t \<in> V")
    case True
    then obtain d where d: "map_of ds t = Some d" using dij_invD(3) [OF inv] by auto
    from path_back_walk [OF inv g(1) _ d] True g(2) obtain es where
      es: "path_back (length vs) prev (Some t) = Some (Inr (rev (s # map ge_target es)))" "ewalk st s es t" "d = walk_length es" by auto
    have "length vs \<le> length prev"
    proof -
      have "V \<subseteq> fst ` set prev" using dij_invD(2,3) [OF inv] by (simp add: dom_map_of_conv_image_fst)
      then have "card (set vs) \<le> card (fst ` set prev)" using g(2) by (simp add: card_mono)
      also have "\<dots> \<le> length prev" by (metis card_length length_map list.set_map)
      finally show ?thesis using grounded_distinct [OF g(1)] by (simp add: distinct_card)
    qed
    from path_back_mono [OF es(1) this] d has have "weighted_shortest_path st s t = Some (Inr (s # map ge_target es, Some (walk_length es)))"
      unfolding res using es(3) by auto
    moreover have "walk_length es \<le> walk_length es'" if "ewalk st s es' t" for es'
      using dij_invD(8) [OF inv d True that] es(3) by simp
    ultimately show ?thesis using es(2) by auto
  next
    case False
    with fin have heap: "heap = []" and E: "E = {(m, e). m \<in> V \<and> e \<in> set (out_edges st m)}" by auto
    have dom: "n \<in> V" if "map_of ds n = Some d" for n d using dij_invD(5) [OF inv that] heap by auto
    have "n \<in> V" if "ewalk st s es n" for es n
      using that
    proof (induction es arbitrary: n rule: rev_induct)
      case Nil
      then show ?case using dom dij_invD(1) [OF inv] by auto
    next
      case (snoc e es)
      then obtain m where "m \<in> V" "e \<in> set (out_edges st m)" "ge_target e = n" by (auto simp: ewalk_snoc)
      then show ?case using dij_invD(10) [OF inv, of m e] dom by (auto simp: E)
    qed
    with False have no: "\<not> (\<exists>es. ewalk st s es t)" by auto
    have "\<not> dict_has prev t" using dom has False by auto
    with no show ?thesis unfolding res by simp
  qed
qed

definition sample_weighted :: GraphState where
  "sample_weighted = sample_gstate [(sample_gedge ''a'' ''d'' SUPPORTS)\<lparr>ge_confidence := 1 / 8\<rparr>, sample_gedge ''a'' ''b'' SUPPORTS, sample_gedge ''b'' ''d'' SUPPORTS]"

theorem weighted_shortest_path_correct_witness:
  "weighted_shortest_path sample_weighted ''a'' ''d'' = Some (Inr ([''a'', ''b'', ''d''], Some 2)) \<and>
   \<not> (\<exists>es. ewalk sample_weighted ''a'' es ''d'' \<and> walk_length es < 2)"
proof -
  have r: "weighted_shortest_path sample_weighted ''a'' ''d'' = Some (Inr ([''a'', ''b'', ''d''], Some 2))" by code_simp
  have nodes: "dict_has (gst_nodes sample_weighted) ''a''" "dict_has (gst_nodes sample_weighted) ''d''"
    by (simp_all add: sample_weighted_def sample_gstate_def dict_has_def)
  have walk: "\<exists>es. ewalk sample_weighted ''a'' es ''d''"
    by (rule exI [of _ "[(sample_gedge ''a'' ''d'' SUPPORTS)\<lparr>ge_confidence := 1 / 8\<rparr>]"])
      (simp add: sample_weighted_def sample_gstate_def sample_gedge_def out_edges_def get_adjacency_by)
  from weighted_shortest_path_correct [OF nodes] walk obtain es where
    "walk_length es = 2" "\<forall>es'. ewalk sample_weighted ''a'' es' ''d'' \<longrightarrow> walk_length es \<le> walk_length es'"
    unfolding r by auto
  with r show ?thesis by auto
qed

end
