(* ===== verification/GraphPaths.thy ===== *)
theory GraphPaths
  imports GraphNavigation ProjectionGraph
begin

text \<open>
  Dependency chains, simple paths, cycles and topological orders of the navigable graph (the remaining
  operations of \<open>projections/graph.py\<close>).  Their loops keep a stack of iterators; an iterator is the list of
  the neighbours that are left.  Nothing in the loops bounds them, so they are partial functions: \<open>None\<close> is a
  loop that does not end, and the lemmas show that this does not happen.  The stack is a list with its top first.
\<close>

section \<open>Dependency chains\<close>

definition dependency_sources :: "GraphState \<Rightarrow> RelationType \<Rightarrow> string \<Rightarrow> string list" where
  "dependency_sources st rt n = map ge_source (filter (\<lambda>e. ge_relation_type e = rt) (in_edges st n))"

partial_function (option) dependency_loop ::
  "GraphState \<Rightarrow> RelationType \<Rightarrow> string set \<Rightarrow> (string \<times> nat) list \<Rightarrow> (string list \<times> nat) list \<Rightarrow> (string \<times> nat) list result option" where
  "dependency_loop st rt seen chain stack =
     (case stack of
        [] \<Rightarrow> Some (Inr chain)
      | (neighbors, depth) # frames \<Rightarrow>
          (case neighbors of
             [] \<Rightarrow> dependency_loop st rt seen chain frames
           | v # rest \<Rightarrow>
               if v \<in> seen then Some (Inl (ValueError (''Cycle detected at node '' @ v)))
               else dependency_loop st rt (insert v seen) (chain @ [(v, depth + 1)])
                      ((dependency_sources st rt v, depth + 1) # (rest, depth) # frames)))"

definition dependency_chain :: "GraphState \<Rightarrow> string \<Rightarrow> RelationType \<Rightarrow> (string \<times> nat) list result option" where
  "dependency_chain st node_id rt =
     dependency_loop st rt {node_id} [(node_id, 0)] [(dependency_sources st rt node_id, 0)]"

text \<open>The dependencies of a node, and when they form a tree: no node is met along two different ways.\<close>

definition dep_rel :: "GraphState \<Rightarrow> RelationType \<Rightarrow> (string \<times> string) set" where
  "dep_rel st rt = {(a, b). b \<in> set (dependency_sources st rt a)}"

definition dependency_tree :: "GraphState \<Rightarrow> RelationType \<Rightarrow> string \<Rightarrow> bool" where
  "dependency_tree st rt r0 \<longleftrightarrow> (\<forall>n \<in> (dep_rel st rt)\<^sup>* `` {r0}.
     distinct (dependency_sources st rt n) \<and> r0 \<notin> set (dependency_sources st rt n) \<and>
     (\<forall>m \<in> (dep_rel st rt)\<^sup>* `` {r0}. m \<noteq> n \<longrightarrow> set (dependency_sources st rt n) \<inter> set (dependency_sources st rt m) = {}))"

lemma sources_endpoints: "set (dependency_sources st rt n) \<subseteq> set (endpoints st)"
  by (force simp: dependency_sources_def in_edges_def endpoints_def dest: in_dict_values)

lemma finite_dependencies: "finite ((dep_rel st rt)\<^sup>* `` {n})"
proof (rule finite_subset)
  have "Range (dep_rel st rt) \<subseteq> set (endpoints st)" using sources_endpoints by (auto simp: dep_rel_def)
  then show "(dep_rel st rt)\<^sup>* `` {n} \<subseteq> insert n (set (endpoints st))" by (blast elim: rtranclE)
qed simp

lemma distinct_concat_map:
  "distinct ns \<Longrightarrow> distinct (concat (map f ns)) \<longleftrightarrow>
     (\<forall>n \<in> set ns. distinct (f n) \<and> (\<forall>m \<in> set ns. m \<noteq> n \<longrightarrow> set (f n) \<inter> set (f m) = {}))"
proof (induction ns)
  case (Cons a ns)
  then have new: "a \<notin> set ns" and IH: "distinct (concat (map f ns)) \<longleftrightarrow>
      (\<forall>n \<in> set ns. distinct (f n) \<and> (\<forall>m \<in> set ns. m \<noteq> n \<longrightarrow> set (f n) \<inter> set (f m) = {}))" by simp_all
  have "distinct (concat (map f (a # ns))) \<longleftrightarrow>
      distinct (f a) \<and> distinct (concat (map f ns)) \<and> (\<forall>m \<in> set ns. set (f a) \<inter> set (f m) = {})" by auto
  also have "\<dots> \<longleftrightarrow> (\<forall>n \<in> set (a # ns). distinct (f n) \<and> (\<forall>m \<in> set (a # ns). m \<noteq> n \<longrightarrow> set (f n) \<inter> set (f m) = {}))"
  proof -
    have ne: "m \<noteq> a" "a \<noteq> m" if "m \<in> set ns" for m using that new by auto
    show ?thesis unfolding IH by (simp add: ne Int_commute [of "set (f a)"] ball_conj_distrib cong: ball_cong) (simp only: conj_ac)
  qed
  finally show ?case .
qed simp

text \<open>What the loop keeps: the dependencies of the nodes in the chain are the nodes in the chain, but for the
  first one, and the neighbours that are left on the stack.\<close>

definition chain_inv :: "GraphState \<Rightarrow> RelationType \<Rightarrow> string \<Rightarrow> (string \<times> nat) list \<Rightarrow> (string list \<times> nat) list \<Rightarrow> bool" where
  "chain_inv st rt r0 chain stack \<longleftrightarrow>
     chain \<noteq> [] \<and> hd chain = (r0, 0) \<and> distinct (map fst chain) \<and>
     mset (concat (map (dependency_sources st rt) (map fst chain))) = mset (tl (map fst chain)) + mset (concat (map fst stack)) \<and>
     (\<forall>x \<in> set chain. (r0, fst x) \<in> dep_rel st rt ^^ snd x) \<and>
     (\<forall>x \<in> set stack. \<forall>v \<in> set (fst x). (r0, v) \<in> dep_rel st rt ^^ Suc (snd x))"

lemma chain_inv_push:
  assumes "chain_inv st rt r0 chain ((v # rest, d) # frames)" and "v \<notin> fst ` set chain"
  shows "chain_inv st rt r0 (chain @ [(v, d + 1)]) ((dependency_sources st rt v, d + 1) # (rest, d) # frames)"
proof -
  have "(r0, v) \<in> dep_rel st rt ^^ Suc d" using assms(1) by (simp add: chain_inv_def)
  moreover from this have "(r0, w) \<in> dep_rel st rt ^^ Suc (Suc d)" if "w \<in> set (dependency_sources st rt v)" for w
    using that by (auto simp: dep_rel_def)
  ultimately show ?thesis using assms by (simp add: chain_inv_def image_iff)
qed

lemma chain_inv_pop: "chain_inv st rt r0 chain (([], d) # frames) \<Longrightarrow> chain_inv st rt r0 chain frames"
  by (simp add: chain_inv_def)

lemma chain_inv_reach:
  assumes "chain_inv st rt r0 chain stack"
  shows "fst ` set chain \<subseteq> (dep_rel st rt)\<^sup>* `` {r0}" and "set (concat (map fst stack)) \<subseteq> (dep_rel st rt)\<^sup>* `` {r0}"
proof -
  show "fst ` set chain \<subseteq> (dep_rel st rt)\<^sup>* `` {r0}"
    using assms by (auto simp: chain_inv_def intro: relpow_imp_rtrancl)
  show "set (concat (map fst stack)) \<subseteq> (dep_rel st rt)\<^sup>* `` {r0}"
    using assms by (fastforce simp: chain_inv_def simp del: relpow.simps intro: relpow_imp_rtrancl)
qed

lemma chain_inv_repeat:
  assumes "chain_inv st rt r0 chain ((v # rest, d) # frames)" and "v \<in> fst ` set chain"
  shows "\<not> dependency_tree st rt r0"
proof
  let ?ns = "map fst chain" and ?nb = "dependency_sources st rt"
  assume tree: "dependency_tree st rt r0"
  have inv: "distinct ?ns" "mset (concat (map ?nb ?ns)) = mset (tl ?ns) + mset (v # rest @ concat (map fst frames))"
    "?ns = r0 # tl ?ns"
    using assms(1) by (auto simp: chain_inv_def hd_conv_nth neq_Nil_conv)
  have reach: "set ?ns \<subseteq> (dep_rel st rt)\<^sup>* `` {r0}" using chain_inv_reach(1) [OF assms(1)] by simp
  have d: "distinct (concat (map ?nb ?ns))" unfolding distinct_concat_map [OF inv(1)]
    using tree subsetD [OF reach] unfolding dependency_tree_def by blast
  then have "distinct (tl ?ns @ v # rest @ concat (map fst frames))" using inv(2) mset_eq_imp_distinct_iff [of "concat (map ?nb ?ns)"]
    by (metis mset_append)
  then have "v \<notin> set (tl ?ns)" by auto
  then have "v = r0" using assms(2) inv(3) by (metis image_set set_ConsD)
  moreover have "v \<in> set (concat (map ?nb ?ns))" using inv(2) by (metis in_multiset_in_set list.set_intros(1) union_iff)
  ultimately show False using tree subsetD [OF reach] unfolding dependency_tree_def by auto
qed

lemma chain_inv_end:
  assumes "chain_inv st rt r0 chain []"
  shows "fst ` set chain = (dep_rel st rt)\<^sup>* `` {r0}" and "dependency_tree st rt r0"
proof -
  let ?ns = "map fst chain" and ?nb = "dependency_sources st rt"
  have inv: "distinct ?ns" "mset (concat (map ?nb ?ns)) = mset (tl ?ns)" "?ns = r0 # tl ?ns"
    using assms by (auto simp: chain_inv_def neq_Nil_conv)
  have in_tl: "set (concat (map ?nb ?ns)) = set (tl ?ns)" using inv(2) by (rule mset_eq_setD)
  have closed: "dep_rel st rt `` set ?ns \<subseteq> set ?ns"
  proof
    fix b assume "b \<in> dep_rel st rt `` set ?ns"
    then have "b \<in> set (concat (map ?nb ?ns))" by (auto simp: dep_rel_def)
    then show "b \<in> set ?ns" unfolding in_tl by (subst inv(3)) simp
  qed
  have r0: "r0 \<in> set ?ns" by (subst inv(3)) simp
  show reach: "fst ` set chain = (dep_rel st rt)\<^sup>* `` {r0}"
  proof
    show "(dep_rel st rt)\<^sup>* `` {r0} \<subseteq> fst ` set chain"
      using Image_closed_trancl [OF closed] r0 by (auto simp flip: set_map)
  qed (rule chain_inv_reach(1) [OF assms])
  have "distinct (tl ?ns)" "r0 \<notin> set (tl ?ns)" using inv(1,3) by (metis distinct.simps(2))+
  then have "distinct (concat (map ?nb ?ns))" "r0 \<notin> set (concat (map ?nb ?ns))"
    using inv(2) in_tl by (metis mset_eq_imp_distinct_iff, simp)
  then show "dependency_tree st rt r0"
    unfolding distinct_concat_map [OF inv(1)] dependency_tree_def reach [symmetric] by auto
qed

definition stack_size :: "('a list \<times> 'b) list \<Rightarrow> nat" where
  "stack_size stack = sum_list (map (Suc \<circ> length \<circ> fst) stack)"

lemma stack_size_simps [simp]:
  "stack_size [] = 0" "stack_size ((ns, d) # frames) = Suc (length ns) + stack_size frames"
  by (simp_all add: stack_size_def)

lemma dependency_loop_result:
  assumes "chain_inv st rt r0 chain stack"
  shows "\<exists>r. dependency_loop st rt (fst ` set chain) chain stack = Some r \<and>
    (case r of Inl e \<Rightarrow> \<not> dependency_tree st rt r0 \<and> (\<exists>v \<in> (dep_rel st rt)\<^sup>* `` {r0}. e = ValueError (''Cycle detected at node '' @ v))
     | Inr c \<Rightarrow> chain_inv st rt r0 c [])"
  using assms
proof (induction "(chain, stack)" arbitrary: chain stack
    rule: wf_induct_rule [OF wf_measures [of "[\<lambda>x. card ((dep_rel st rt)\<^sup>* `` {r0} - fst ` set (fst x)), \<lambda>x. stack_size (snd x)]"]])
  case 1
  note IH = 1(1) and inv = 1(2)
  show ?case
  proof (cases stack)
    case Nil
    with inv show ?thesis by (simp add: dependency_loop.simps)
  next
    case (Cons f frames)
    obtain ns d where f: "f = (ns, d)" by (cases f)
    show ?thesis
    proof (cases ns)
      case Nil
      with IH [of chain frames] inv show ?thesis
        by (simp add: Cons f chain_inv_pop dependency_loop.simps [of _ _ _ _ "([], d) # frames"])
    next
      case (Cons v rest)
      note stack = \<open>stack = f # frames\<close> [unfolded f Cons]
      have v: "v \<in> (dep_rel st rt)\<^sup>* `` {r0}" using chain_inv_reach(2) [OF inv [unfolded stack]] by simp
      note loop = dependency_loop.simps [of _ _ _ _ "(v # rest, d) # frames"]
      show ?thesis
      proof (cases "v \<in> fst ` set chain")
        case True
        with chain_inv_repeat [OF inv [unfolded stack]] v show ?thesis by (auto simp: stack loop)
      next
        case False
        have "card ((dep_rel st rt)\<^sup>* `` {r0} - insert v (fst ` set chain)) < card ((dep_rel st rt)\<^sup>* `` {r0} - fst ` set chain)"
          using v False finite_dependencies by (intro psubset_card_mono) auto
        with IH [OF _ chain_inv_push [OF inv [unfolded stack] False]] False show ?thesis by (simp add: stack loop)
      qed
    qed
  qed
qed

text \<open>Property C35: dependency_chain always returns.  It raises a ValueError exactly if the dependencies of the node
  do not form a tree, that is, if some node is met along two ways or the node depends on itself.  Otherwise it
  lists the node first and then every node it depends on, directly or not, once each, with the number of steps
  that lead to it.\<close>

theorem dependency_chain_correct:
  "\<exists>r. dependency_chain st node_id rt = Some r \<and>
     (dependency_tree st rt node_id \<longleftrightarrow> (\<exists>c. r = Inr c)) \<and>
     (\<forall>e. r = Inl e \<longrightarrow> (\<exists>v. (node_id, v) \<in> (dep_rel st rt)\<^sup>* \<and> e = ValueError (''Cycle detected at node '' @ v))) \<and>
     (\<forall>c. r = Inr c \<longrightarrow> hd c = (node_id, 0) \<and> distinct (map fst c) \<and> fst ` set c = (dep_rel st rt)\<^sup>* `` {node_id} \<and>
        (\<forall>x \<in> set c. (node_id, fst x) \<in> dep_rel st rt ^^ snd x))"
proof -
  have "chain_inv st rt node_id [(node_id, 0)] [(dependency_sources st rt node_id, 0)]"
    by (simp add: chain_inv_def dep_rel_def)
  from dependency_loop_result [OF this] obtain r where r: "dependency_chain st node_id rt = Some r"
    "case r of Inl e \<Rightarrow> \<not> dependency_tree st rt node_id \<and> (\<exists>v \<in> (dep_rel st rt)\<^sup>* `` {node_id}. e = ValueError (''Cycle detected at node '' @ v))
     | Inr c \<Rightarrow> chain_inv st rt node_id c []"
    by (auto simp: dependency_chain_def)
  show ?thesis
  proof (cases r)
    case (Inl e)
    with r show ?thesis by auto
  next
    case (Inr c)
    with r(2) have c: "chain_inv st rt node_id c []" by simp
    have "hd c = (node_id, 0)" "distinct (map fst c)" "\<forall>x \<in> set c. (node_id, fst x) \<in> dep_rel st rt ^^ snd x"
      using c by (simp_all add: chain_inv_def)
    with Inr r(1) chain_inv_end [OF c] show ?thesis by simp
  qed
qed

text \<open>A shared dependency is reported as a cycle although there is none.\<close>

definition sample_diamond :: GraphState where
  "sample_diamond = sample_gstate [sample_gedge ''a'' ''b'' DERIVED_FROM, sample_gedge ''a'' ''c'' DERIVED_FROM,
     sample_gedge ''b'' ''d'' DERIVED_FROM, sample_gedge ''c'' ''d'' DERIVED_FROM]"

lemma sample_diamond_sources:
  "dependency_sources sample_diamond DERIVED_FROM n =
     (if n = ''b'' \<or> n = ''c'' then [''a''] else if n = ''d'' then [''b'', ''c''] else [])"
  by (simp add: dependency_sources_def sample_diamond_def sample_gstate_def sample_gedge_def in_edges_def get_adjacency_by)

theorem diamond_reported_as_cycle:
  "dependency_chain sample_diamond ''d'' DERIVED_FROM = Some (Inl (ValueError ''Cycle detected at node a'')) \<and>
   acyclic (dep_rel sample_diamond DERIVED_FROM)"
proof
  show "dependency_chain sample_diamond ''d'' DERIVED_FROM = Some (Inl (ValueError ''Cycle detected at node a''))"
    by (simp add: dependency_chain_def dependency_loop.simps sample_diamond_sources)
  show "acyclic (dep_rel sample_diamond DERIVED_FROM)"
    by (rule acyclicI_order [where f = id]) (auto simp: dep_rel_def sample_diamond_sources less_list_code split: if_splits)
qed

theorem dependency_chain_correct_witness:
  "dependency_chain sample_diamond ''b'' DERIVED_FROM = Some (Inr [(''b'', 0), (''a'', 1)]) \<and> dependency_tree sample_diamond DERIVED_FROM ''b'' \<and>
   (dep_rel sample_diamond DERIVED_FROM)\<^sup>* `` {''b''} = {''b'', ''a''}"
proof -
  have r: "dependency_chain sample_diamond ''b'' DERIVED_FROM = Some (Inr [(''b'', 0), (''a'', 1)])"
    by (simp add: dependency_chain_def dependency_loop.simps sample_diamond_sources)
  with dependency_chain_correct [of sample_diamond "''b''" DERIVED_FROM] show ?thesis by auto
qed

section \<open>All simple paths\<close>

partial_function (option) paths_loop ::
  "GraphState \<Rightarrow> string \<Rightarrow> int \<Rightarrow> string list \<Rightarrow> string set \<Rightarrow> (string \<times> string list) list \<Rightarrow> string list list \<Rightarrow> string list list result option" where
  "paths_loop st target max_depth path seen stack paths =
     (case stack of
        [] \<Rightarrow> Some (Inr paths)
      | (current, children) # frames \<Rightarrow>
          if MAX_PATHS \<le> length paths then Some (Inr paths)
          else (case children of
             [] \<Rightarrow>
               if current \<notin> seen then Some (Inl (KeyError current))
               else if path = [] then Some (Inl IndexError)
               else paths_loop st target max_depth (butlast path) (seen - {current}) frames paths
           | nxt # rest \<Rightarrow>
               if nxt \<in> seen then paths_loop st target max_depth path seen ((current, rest) # frames) paths
               else if nxt = target then paths_loop st target max_depth path seen ((current, rest) # frames) (paths @ [path @ [nxt]])
               else if int (length path) < max_depth then
                 paths_loop st target max_depth (path @ [nxt]) (insert nxt seen)
                   ((nxt, map ge_target (out_edges st nxt)) # (current, rest) # frames) paths
               else paths_loop st target max_depth path seen ((current, rest) # frames) paths))"

definition all_paths :: "GraphState \<Rightarrow> string \<Rightarrow> string \<Rightarrow> int \<Rightarrow> string list list result option" where
  "all_paths st source target max_depth =
     (if \<not> dict_has (gst_nodes st) source \<or> \<not> dict_has (gst_nodes st) target then Some (Inr [])
      else if source = target then Some (Inr [[source]])
      else paths_loop st target max_depth [source] {source} [(source, map ge_target (out_edges st source))] [])"

text \<open>The reference: all extensions of a path by simple paths to the target, in depth-first order.\<close>

function simple_paths :: "GraphState \<Rightarrow> string \<Rightarrow> int \<Rightarrow> string list \<Rightarrow> string list \<Rightarrow> string list list" where
  "simple_paths st t d path [] = []"
| "simple_paths st t d path (n # ns) =
     (if n \<in> set path then [] else if n = t then [path @ [n]]
      else if int (length path) < d then simple_paths st t d (path @ [n]) (map ge_target (out_edges st n)) else []) @
     simple_paths st t d path ns"
  by pat_completeness auto
termination
  by (relation "measures [\<lambda>(st, t, d, path, ns). nat (d - int (length path)), \<lambda>(st, t, d, path, ns). length ns]") auto

lemma take_take_append: "take n (take n xs @ ys) = take n (xs @ ys)"
  by (cases "length xs \<le> n") simp_all

lemma paths_loop_capped: "MAX_PATHS \<le> length paths \<Longrightarrow> paths_loop st t d path seen stack paths = Some (Inr paths)"
  by (simp add: paths_loop.simps [of _ _ _ _ _ stack] split: list.split)

lemma paths_loop_pop:
  assumes "n \<notin> set path"
  shows "paths_loop st t d (path @ [n]) (set (path @ [n])) ((n, []) # frames) paths = paths_loop st t d path (set path) frames paths"
proof (cases "MAX_PATHS \<le> length paths")
  case False
  with assms show ?thesis by (simp add: paths_loop.simps [of st t d "path @ [n]" _ "(n, []) # frames"])
qed (simp only: paths_loop_capped)

text \<open>One frame is worked off as the reference says, unless the cap stops the search.\<close>

lemma paths_loop_frame:
  assumes "length paths \<le> MAX_PATHS"
  shows "paths_loop st t d path (set path) ((current, ns) # frames) paths =
    paths_loop st t d path (set path) ((current, []) # frames) (take MAX_PATHS (paths @ simple_paths st t d path ns))"
  using assms
proof (induction st t d path ns arbitrary: current frames paths rule: simple_paths.induct)
  case (1 st t d path)
  then show ?case by simp
next
  case (2 st t d path n ns)
  note rest = "2.IH"(2)
  show ?case
  proof (cases "length paths < MAX_PATHS")
    case False
    with 2(3) show ?thesis by (simp add: paths_loop_capped)
  next
    case True
    note loop = paths_loop.simps [of st t d path "set path" "(current, n # ns) # frames"]
    show ?thesis
    proof (cases "n \<notin> set path \<and> n \<noteq> t \<and> int (length path) < d")
      case inner: True
      let ?q = "take MAX_PATHS (paths @ simple_paths st t d (path @ [n]) (map ge_target (out_edges st n)))"
      have "paths_loop st t d path (set path) ((current, n # ns) # frames) paths =
          paths_loop st t d (path @ [n]) (set (path @ [n])) ((n, []) # (current, ns) # frames) ?q"
        using True inner "2.IH"(1) [of paths n "(current, ns) # frames"] by (simp add: loop)
      also have "\<dots> = paths_loop st t d path (set path) ((current, ns) # frames) ?q"
        using inner by (intro paths_loop_pop) simp
      also have "\<dots> = paths_loop st t d path (set path) ((current, []) # frames) (take MAX_PATHS (?q @ simple_paths st t d path ns))"
        by (rule rest) simp
      finally show ?thesis using inner by (simp only: take_take_append) simp
    next
      case False
      then show ?thesis using True rest [of paths current frames] rest [of "paths @ [path @ [n]]" current frames]
        by (auto simp: loop simp del: take_append)
    qed
  qed
qed

text \<open>Every path the reference lists is simple, follows the edges, ends in the target and has at most \<open>d\<close> edges
  (one edge is always allowed); and every such path is listed.\<close>

definition edge_to :: "GraphState \<Rightarrow> string \<Rightarrow> string \<Rightarrow> bool" where
  "edge_to st a b \<longleftrightarrow> b \<in> ge_target ` set (out_edges st a)"

definition path_ext :: "GraphState \<Rightarrow> string \<Rightarrow> int \<Rightarrow> string list \<Rightarrow> string list \<Rightarrow> string list \<Rightarrow> bool" where
  "path_ext st t d path ns q \<longleftrightarrow>
     q \<noteq> [] \<and> hd q \<in> set ns \<and> last q = t \<and> distinct q \<and> set path \<inter> set q = {} \<and> successively (edge_to st) q \<and>
     (length q = 1 \<or> int (length path + length q) \<le> d + 1)"

lemma path_ext_Cons:
  "path_ext st t d path ns (n # q) \<longleftrightarrow> n \<in> set ns \<and> n \<notin> set path \<and>
     (if n = t then q = [] else int (length path) < d \<and> path_ext st t d (path @ [n]) (map ge_target (out_edges st n)) q)"
proof (cases q)
  case Nil
  then show ?thesis by (auto simp: path_ext_def)
next
  case (Cons m q')
  have "last (n # q) = t \<Longrightarrow> distinct (n # q) \<Longrightarrow> n \<noteq> t" using Cons by (metis distinct.simps(2) last_ConsR last_in_set list.discI)
  moreover have "int (length path + length (n # q)) \<le> d + 1 \<longleftrightarrow>
      int (length path) < d \<and> (length q = 1 \<or> int (length (path @ [n]) + length q) \<le> d + 1)"
    by (auto simp: Cons)
  ultimately show ?thesis by (auto simp: path_ext_def Cons edge_to_def)
qed

lemma set_simple_paths: "set (simple_paths st t d path ns) = (\<lambda>q. path @ q) ` {q. path_ext st t d path ns q}"
proof (induction st t d path ns rule: simple_paths.induct)
  case (1 st t d path)
  then show ?case by (auto simp: path_ext_def)
next
  case (2 st t d path n ns)
  have split: "path_ext st t d path (n # ns) q \<longleftrightarrow> path_ext st t d path [n] q \<or> path_ext st t d path ns q" for q
    by (auto simp: path_ext_def)
  have first: "{q. path_ext st t d path [n] q} =
      (if n \<in> set path then {} else if n = t then {[n]} else if int (length path) < d
       then (#) n ` {q. path_ext st t d (path @ [n]) (map ge_target (out_edges st n)) q} else {})" (is "_ = ?F")
  proof (intro set_eqI)
    fix q
    show "q \<in> {q. path_ext st t d path [n] q} \<longleftrightarrow> q \<in> ?F"
    proof (cases q)
      case Nil
      then show ?thesis by (auto simp: path_ext_def)
    next
      case (Cons m q')
      then show ?thesis by (auto simp: path_ext_Cons)
    qed
  qed
  have "{q. path_ext st t d path (n # ns) q} = ?F \<union> {q. path_ext st t d path ns q}" unfolding first [symmetric] by (auto simp: split)
  with 2 show ?case by (auto simp: image_Un image_image)
qed

lemma distinct_simple_paths:
  assumes "\<And>n. distinct (map ge_target (out_edges st n))" and "distinct ns"
  shows "distinct (simple_paths st t d path ns)"
  using assms
proof (induction st t d path ns rule: simple_paths.induct)
  case (2 st t d path n ns)
  have "\<exists>q'. q = path @ n # q'" if "q \<in> set (simple_paths st t d (path @ [n]) (map ge_target (out_edges st n)))" for q
    using that unfolding set_simple_paths by auto
  moreover have "\<not> (\<exists>q'. q = path @ n # q')" if "q \<in> set (simple_paths st t d path ns)" for q
    using that 2(4) unfolding set_simple_paths by (auto simp: path_ext_def)
  ultimately show ?case using 2 by auto
qed simp

text \<open>Depth-first order: where two paths part, the first takes an edge that is stored before that of the second.\<close>

definition before :: "GraphState \<Rightarrow> string list \<Rightarrow> string list \<Rightarrow> bool" where
  "before st p q \<longleftrightarrow>
     (\<exists>r a p' q' i j. p = r @ a # ge_target (out_edges st a ! i) # p' \<and> q = r @ a # ge_target (out_edges st a ! j) # q' \<and>
        i < j \<and> j < length (out_edges st a))"

lemma sorted_simple_paths:
  assumes "path \<noteq> []" and "ns = drop k (map ge_target (out_edges st (last path)))"
  shows "sorted_wrt (before st) (simple_paths st t d path ns)"
  using assms
proof (induction st t d path ns arbitrary: k rule: simple_paths.induct)
  case (2 st t d path n ns)
  let ?ts = "map ge_target (out_edges st (last path))"
  have k: "k < length (out_edges st (last path))" using 2(4) by (metis drop_all length_map linorder_not_le list.discI)
  then have n: "n = ge_target (out_edges st (last path) ! k)" "ns = drop (Suc k) ?ts"
    using Cons_nth_drop_Suc [of k ?ts] k unfolding 2(4) [symmetric] by simp_all
  have parts: "before st p q" if "p = path @ n # p'" "q \<in> set (simple_paths st t d path ns)" for p p' q
  proof -
    from that(2) obtain x where x: "q = path @ x" "path_ext st t d path ns x" unfolding set_simple_paths by auto
    then have "x \<noteq> []" "hd x \<in> set ns" by (simp_all add: path_ext_def)
    with x(1) obtain m q' where q: "q = path @ m # q'" "m \<in> set ns" by (cases x) simp_all
    then obtain i where i: "i < length ns" "m = ns ! i" by (metis in_set_conv_nth)
    then have "m = ge_target (out_edges st (last path) ! (Suc k + i))" "Suc k + i < length (out_edges st (last path))"
      using n(2) by auto
    moreover obtain r a where path: "path = r @ [a]" using 2(3) by (metis append_butlast_last_id)
    ultimately have "p = r @ a # ge_target (out_edges st a ! k) # p'" "q = r @ a # ge_target (out_edges st a ! (Suc k + i)) # q'"
      "k < Suc k + i" "Suc k + i < length (out_edges st a)" using that(1) q(1) n(1) by simp_all
    then show ?thesis unfolding before_def by blast
  qed
  have inner: "\<exists>p'. p = path @ n # p'" if "p \<in> set (simple_paths st t d (path @ [n]) (map ge_target (out_edges st n)))" for p
    using that unfolding set_simple_paths by auto
  have "sorted_wrt (before st) (simple_paths st t d path ns)" using "2.IH"(2) [OF 2(3) n(2)] .
  moreover have "sorted_wrt (before st) (simple_paths st t d (path @ [n]) (map ge_target (out_edges st n)))"
    if "n \<notin> set path" "n \<noteq> t" "int (length path) < d"
    using "2.IH"(1) [OF that, of 0] by simp
  ultimately show ?case using parts inner by (auto simp: sorted_wrt_append) blast
qed simp

text \<open>Property C36: for two different nodes of the graph, all_paths ends and returns the first hundred, in depth-first
  order, of the simple paths along edges from the source to the target that have at most max_depth edges or are
  a single edge, which is listed whatever max_depth is.  Without parallel edges no path is repeated.  For one and the same node the
  result is the path without edges, and for a node that is not in the graph there is no path.\<close>

theorem all_paths_correct:
  "(\<not> dict_has (gst_nodes st) source \<or> \<not> dict_has (gst_nodes st) target \<longrightarrow> all_paths st source target d = Some (Inr [])) \<and>
   (dict_has (gst_nodes st) source \<and> source = target \<longrightarrow> all_paths st source target d = Some (Inr [[source]])) \<and>
   (dict_has (gst_nodes st) source \<and> dict_has (gst_nodes st) target \<and> source \<noteq> target \<longrightarrow>
      (\<exists>ps. all_paths st source target d = Some (Inr (take MAX_PATHS ps)) \<and>
         (\<forall>p. p \<in> set ps \<longleftrightarrow> p \<noteq> [] \<and> hd p = source \<and> last p = target \<and> distinct p \<and> successively (edge_to st) p \<and>
              (length p = 2 \<or> int (length p - 1) \<le> d)) \<and>
         sorted_wrt (before st) ps \<and>
         ((\<forall>n. distinct (map ge_target (out_edges st n))) \<longrightarrow> distinct ps)))"
proof (intro conjI impI)
  assume nodes: "dict_has (gst_nodes st) source \<and> dict_has (gst_nodes st) target \<and> source \<noteq> target"
  let ?ps = "simple_paths st target d [source] (map ge_target (out_edges st source))"
  have "all_paths st source target d = paths_loop st target d [source] (set [source]) [(source, [])] (take MAX_PATHS ?ps)"
    using nodes paths_loop_frame [of "[]" st target d "[source]" source] by (simp add: all_paths_def)
  also have "\<dots> = Some (Inr (take MAX_PATHS ?ps))"
    using paths_loop_pop [of source "[]" st target d "[]"] by (simp add: paths_loop.simps [of _ _ _ _ _ "[]"])
  finally have r: "all_paths st source target d = Some (Inr (take MAX_PATHS ?ps))" .
  have ext: "path_ext st target d [source] (map ge_target (out_edges st source)) q \<longleftrightarrow>
      last (source # q) = target \<and> distinct (source # q) \<and> successively (edge_to st) (source # q) \<and>
      (length (source # q) = 2 \<or> int (length (source # q) - 1) \<le> d)" for q
    using nodes by (cases q) (auto simp: path_ext_def edge_to_def)
  have "p \<in> set ?ps \<longleftrightarrow> p \<noteq> [] \<and> hd p = source \<and> last p = target \<and> distinct p \<and> successively (edge_to st) p \<and>
      (length p = 2 \<or> int (length p - 1) \<le> d)" for p
  proof (cases p)
    case (Cons a q)
    then have "p \<in> set ?ps \<longleftrightarrow> a = source \<and> path_ext st target d [source] (map ge_target (out_edges st source)) q"
      unfolding set_simple_paths by auto
    then show ?thesis unfolding ext Cons list.sel by auto
  qed (simp add: set_simple_paths image_iff)
  moreover have "(\<forall>n. distinct (map ge_target (out_edges st n))) \<longrightarrow> distinct ?ps" by (simp add: distinct_simple_paths)
  moreover have "sorted_wrt (before st) ?ps" by (rule sorted_simple_paths [where k = 0]) simp_all
  ultimately show "\<exists>ps. all_paths st source target d = Some (Inr (take MAX_PATHS ps)) \<and>
         (\<forall>p. p \<in> set ps \<longleftrightarrow> p \<noteq> [] \<and> hd p = source \<and> last p = target \<and> distinct p \<and> successively (edge_to st) p \<and>
              (length p = 2 \<or> int (length p - 1) \<le> d)) \<and>
         sorted_wrt (before st) ps \<and>
         ((\<forall>n. distinct (map ge_target (out_edges st n))) \<longrightarrow> distinct ps)"
    using r by blast
qed (auto simp: all_paths_def)

theorem all_paths_correct_witness:
  "all_paths sample_diamond ''a'' ''d'' 2 = Some (Inr [[''a'', ''b'', ''d''], [''a'', ''c'', ''d'']]) \<and>
   all_paths sample_diamond ''a'' ''d'' 1 = Some (Inr []) \<and>
   \<not> (\<exists>p. p \<noteq> [] \<and> hd p = ''a'' \<and> last p = ''d'' \<and> distinct p \<and> successively (edge_to sample_diamond) p \<and> length p = 2)"
proof -
  have out: "out_edges sample_diamond n = filter (\<lambda>e. ge_source e = n) [sample_gedge ''a'' ''b'' DERIVED_FROM, sample_gedge ''a'' ''c'' DERIVED_FROM,
     sample_gedge ''b'' ''d'' DERIVED_FROM, sample_gedge ''c'' ''d'' DERIVED_FROM]" for n
    by (simp add: out_edges_def sample_diamond_def sample_gstate_def get_adjacency_by)
  have nodes: "dict_has (gst_nodes sample_diamond) ''a''" "dict_has (gst_nodes sample_diamond) ''d''"
    by (simp_all add: sample_diamond_def sample_gstate_def dict_has_def)
  have r: "all_paths sample_diamond ''a'' ''d'' 2 = Some (Inr [[''a'', ''b'', ''d''], [''a'', ''c'', ''d'']])"
    "all_paths sample_diamond ''a'' ''d'' 1 = Some (Inr [])"
    by (simp_all add: all_paths_def paths_loop.simps out nodes sample_gedge_def MAX_PATHS_def)
  from all_paths_correct [of sample_diamond "''a''" "''d''" 1] nodes r(2)
  have "\<exists>ps. take MAX_PATHS ps = [] \<and> (\<forall>p. p \<in> set ps \<longleftrightarrow> p \<noteq> [] \<and> hd p = ''a'' \<and> last p = ''d'' \<and> distinct p \<and>
      successively (edge_to sample_diamond) p \<and> (length p = 2 \<or> int (length p - 1) \<le> 1))" by auto
  then show ?thesis using r by (auto simp: MAX_PATHS_def)
qed

section \<open>Cycles\<close>

partial_function (option) cycles_loop ::
  "(string, string list) dict \<Rightarrow> string set \<Rightarrow> string list \<Rightarrow> string list list \<Rightarrow> string set \<Rightarrow> (string \<times> string list) list \<Rightarrow>
    (string list list \<times> string set) result option" where
  "cycles_loop adj path path_list cs seen stack =
     (case stack of
        [] \<Rightarrow> Some (Inr (cs, seen))
      | (current, neighbors) # frames \<Rightarrow>
          (case neighbors of
             [] \<Rightarrow>
               if path_list = [] then Some (Inl IndexError)
               else cycles_loop adj (path - {current}) (butlast path_list) cs seen frames
           | nxt # rest \<Rightarrow>
               if nxt \<in> path then
                 if nxt \<notin> set path_list then Some (Inl (ValueError (nxt @ '' is not in list'')))
                 else cycles_loop adj path path_list (cs @ [dropWhile (\<lambda>x. x \<noteq> nxt) path_list @ [nxt]]) seen ((current, rest) # frames)
               else if nxt \<notin> seen then
                 cycles_loop adj (insert nxt path) (path_list @ [nxt]) cs (insert nxt seen)
                   ((nxt, dict_get adj nxt []) # (current, rest) # frames)
               else cycles_loop adj path path_list cs seen ((current, rest) # frames)))"

definition dfs_cycles :: "(string, string list) dict \<Rightarrow> string \<Rightarrow> string set \<Rightarrow> string list \<Rightarrow> string list list \<times> string set \<Rightarrow>
    (string list list \<times> string set) result option" where
  "dfs_cycles adj start path path_list s =
     (if start \<in> path then
        if start \<notin> set path_list then Some (Inl (ValueError (start @ '' is not in list'')))
        else Some (Inr (fst s @ [dropWhile (\<lambda>x. x \<noteq> start) path_list @ [start]], snd s))
      else if start \<in> snd s then Some (Inr s)
      else cycles_loop adj (insert start path) (path_list @ [start]) (fst s) (insert start (snd s)) [(start, dict_get adj start [])])"

text \<open>The loop over the start nodes that \<open>detect_cycles\<close> and \<open>_find_cycles_in_subset\<close> share.\<close>

fun cycles_from :: "(string, string list) dict \<Rightarrow> string list \<Rightarrow> string list list \<times> string set \<Rightarrow> (string list list \<times> string set) result option" where
  "cycles_from adj [] s = Some (Inr s)"
| "cycles_from adj (n # ns) s =
     (if n \<in> snd s then cycles_from adj ns s
      else case dfs_cycles adj n {} [] s of
          None \<Rightarrow> None
        | Some (Inl e) \<Rightarrow> Some (Inl e)
        | Some (Inr s') \<Rightarrow> cycles_from adj ns s')"

definition target_lists :: "GraphEdge list \<Rightarrow> (string, string list) dict" where
  "target_lists es = foldl (\<lambda>d e. dict_append d (ge_source e) [ge_target e]) [] es"

definition cycles_of :: "GraphEdge list \<Rightarrow> string list list result option" where
  "cycles_of es = map_option (\<lambda>r. rbind r (\<lambda>s. Inr (fst s))) (cycles_from (target_lists es) (map fst (target_lists es)) ([], {}))"

definition detect_cycles :: "GraphState \<Rightarrow> string option \<Rightarrow> (string list list \<times> GraphState) result option" where
  "detect_cycles st relation_type =
     (case (gst_cycles st, relation_type) of
        (Some cs, None) \<Rightarrow> Some (Inr (cs, st))
      | _ \<Rightarrow>
          (let edges_to_check =
             (case relation_type of
                None \<Rightarrow> gst_edges st
              | Some rt \<Rightarrow> if rt = [] then gst_edges st else filter (\<lambda>e. relation_value (ge_relation_type e) = rt) (gst_edges st))
           in map_option (\<lambda>r. rbind r (\<lambda>cs. Inr (cs, if relation_type = None then st\<lparr>gst_cycles := Some cs\<rparr> else st)))
                (cycles_of edges_to_check)))"

text \<open>A cycle is listed with its first node repeated at the end.\<close>

definition next_rel :: "(string, string list) dict \<Rightarrow> (string \<times> string) set" where
  "next_rel adj = {(a, b). b \<in> set (dict_get adj a [])}"

definition cycle_in :: "(string \<times> string) set \<Rightarrow> string list \<Rightarrow> bool" where
  "cycle_in R c \<longleftrightarrow> 2 \<le> length c \<and> hd c = last c \<and> distinct (butlast c) \<and> successively (\<lambda>a b. (a, b) \<in> R) c"

lemma walk_trancl: "successively (\<lambda>a b. (a, b) \<in> R) (a # b # p) \<Longrightarrow> (a, last (b # p)) \<in> R\<^sup>+"
  by (induction p arbitrary: a b) (auto intro: trancl_into_trancl2)

lemma cycle_not_acyclic: "cycle_in R c \<Longrightarrow> \<not> acyclic R"
proof -
  assume c: "cycle_in R c"
  then obtain a b p where "c = a # b # p" unfolding cycle_in_def by (cases c; cases "tl c") auto
  with c walk_trancl [of R a b p] show ?thesis by (auto simp: cycle_in_def acyclic_def split: if_splits)
qed

text \<open>What the search keeps.  The finished nodes are those seen that are not on the path.  As long as no cycle has
  been found, the finished nodes lead to finished nodes only and have no cycle among them.\<close>

fun frames_ok :: "(string, string list) dict \<Rightarrow> string set \<Rightarrow> string set \<Rightarrow> (string \<times> string list) list \<Rightarrow> bool" where
  "frames_ok adj F W [] \<longleftrightarrow> True"
| "frames_ok adj F W ((c, ns) # frames) \<longleftrightarrow> set (dict_get adj c []) \<subseteq> F \<union> set ns \<union> W \<and> frames_ok adj F {c} frames"

definition closed_acyclic :: "(string \<times> string) set \<Rightarrow> string set \<Rightarrow> bool" where
  "closed_acyclic R F \<longleftrightarrow> R `` F \<subseteq> F \<and> acyclic (R \<inter> F \<times> F)"

definition cycle_inv :: "(string, string list) dict \<Rightarrow> string list \<Rightarrow> string list list \<Rightarrow> string set \<Rightarrow> (string \<times> string list) list \<Rightarrow> bool" where
  "cycle_inv adj path_list cs seen stack \<longleftrightarrow>
     path_list = rev (map fst stack) \<and> distinct path_list \<and> set path_list \<subseteq> seen \<and>
     successively (\<lambda>a b. (a, b) \<in> next_rel adj) path_list \<and>
     (\<forall>x \<in> set stack. set (snd x) \<subseteq> next_rel adj `` {fst x}) \<and>
     (\<forall>c \<in> set cs. cycle_in (next_rel adj) c) \<and>
     (cs = [] \<longrightarrow> closed_acyclic (next_rel adj) (seen - set path_list) \<and> frames_ok adj (seen - set path_list) {} stack)"

lemma frames_ok_mono: "frames_ok adj F W frames \<Longrightarrow> F \<subseteq> F' \<Longrightarrow> W \<subseteq> F' \<union> W' \<Longrightarrow> frames_ok adj F' W' frames"
  by (induction adj F W frames arbitrary: W' rule: frames_ok.induct) (auto 4 3)

lemma closed_acyclic_insert:
  assumes "closed_acyclic R F" and "R `` {c} \<subseteq> F" and "c \<notin> F"
  shows "closed_acyclic R (insert c F)"
proof -
  have F: "R `` F \<subseteq> F" "acyclic (R \<inter> F \<times> F)" using assms(1) by (simp_all add: closed_acyclic_def)
  have "R \<inter> insert c F \<times> insert c F \<subseteq> (R \<inter> F \<times> F) \<union> {c} \<times> F" using F(1) assms(2,3) by auto
  moreover have "acyclic ((R \<inter> F \<times> F) \<union> {c} \<times> F)"
  proof (rule acyclicI, intro allI notI)
    fix x assume "(x, x) \<in> ((R \<inter> F \<times> F) \<union> {c} \<times> F)\<^sup>+"
    moreover have "(a, b) \<in> ((R \<inter> F \<times> F) \<union> {c} \<times> F)\<^sup>+ \<Longrightarrow> b \<in> F \<and> (a = c \<or> (a, b) \<in> (R \<inter> F \<times> F)\<^sup>+)" for a b
      by (induction rule: trancl_induct) (use assms(3) in \<open>auto intro: trancl_into_trancl\<close>)
    ultimately show False using F(2) assms(3) by (auto simp: acyclic_def)
  qed
  ultimately show ?thesis using F(1) assms(2) by (auto simp: closed_acyclic_def intro: acyclic_subset)
qed

lemma finite_next_rel: "finite (Range (next_rel adj))"
proof (rule finite_subset)
  show "Range (next_rel adj) \<subseteq> set (concat (map snd adj))" by (auto simp: next_rel_def dest: in_dict_values)
qed simp

lemma found_cycle:
  assumes "nxt \<in> set (p @ [c])" and "distinct (p @ [c])" and "successively (\<lambda>a b. (a, b) \<in> R) (p @ [c])" and "(c, nxt) \<in> R"
  shows "cycle_in R (dropWhile (\<lambda>x. x \<noteq> nxt) (p @ [c]) @ [nxt])"
proof -
  obtain u v where uv: "p @ [c] = u @ nxt # v" "nxt \<notin> set u" using split_list_first [OF assms(1)] by auto
  then have "\<forall>x \<in> set u. x \<noteq> nxt" by auto
  then have d: "dropWhile (\<lambda>x. x \<noteq> nxt) (p @ [c]) = nxt # v" unfolding uv(1) by (simp add: dropWhile_append2)
  have last: "last (nxt # v) = c" using uv(1) by (metis last_appendR last_snoc list.discI)
  have "successively (\<lambda>a b. (a, b) \<in> R) (nxt # v)" "distinct (nxt # v)" using assms(2,3) unfolding uv(1) by (auto simp: successively_append_iff)
  moreover from this last assms(4) have "successively (\<lambda>a b. (a, b) \<in> R) ((nxt # v) @ [nxt])" unfolding successively_append_iff by simp
  ultimately show ?thesis unfolding d cycle_in_def by simp
qed

lemma cycle_inv_frame:
  assumes "cycle_inv adj pl cs seen ((c, ns) # frames)"
  shows "pl = rev (map fst frames) @ [c]" and "distinct pl" and "set pl \<subseteq> seen" and "successively (\<lambda>a b. (a, b) \<in> next_rel adj) pl"
    and "set ns \<subseteq> next_rel adj `` {c}" and "\<forall>x \<in> set frames. set (snd x) \<subseteq> next_rel adj `` {fst x}"
    and "\<forall>c \<in> set cs. cycle_in (next_rel adj) c"
    and "cs = [] \<Longrightarrow> closed_acyclic (next_rel adj) (seen - set pl) \<and> frames_ok adj (seen - set pl) {} ((c, ns) # frames)"
  using assms unfolding cycle_inv_def list.set list.map ball_simps fst_conv snd_conv rev.simps by blast+

lemma cycle_inv_back:
  assumes "cycle_inv adj pl cs seen ((c, nxt # rest) # frames)" and "nxt \<in> set pl"
  shows "cycle_inv adj pl (cs @ [dropWhile (\<lambda>x. x \<noteq> nxt) pl @ [nxt]]) seen ((c, rest) # frames)"
proof -
  note inv = cycle_inv_frame [OF assms(1)]
  have "(c, nxt) \<in> next_rel adj" using inv(5) by simp
  then have "cycle_in (next_rel adj) (dropWhile (\<lambda>x. x \<noteq> nxt) pl @ [nxt])"
    using found_cycle [of nxt "rev (map fst frames)" c] assms(2) inv(2,4) unfolding inv(1) by blast
  with inv(1-7) show ?thesis unfolding cycle_inv_def by simp
qed

lemma cycle_inv_tree:
  assumes "cycle_inv adj pl cs seen ((c, nxt # rest) # frames)" and "nxt \<notin> seen"
  shows "cycle_inv adj (pl @ [nxt]) cs (insert nxt seen) ((nxt, dict_get adj nxt []) # (c, rest) # frames)"
proof -
  note inv = cycle_inv_frame [OF assms(1)]
  have F: "nxt \<notin> set pl" "nxt \<noteq> c" "c \<noteq> nxt" "insert nxt seen - set (pl @ [nxt]) = seen - set pl" using assms(2) inv(1,3) by auto
  have "frames_ok adj (seen - set pl) {} ((nxt, dict_get adj nxt []) # (c, rest) # frames)" if "cs = []"
    using inv(8) [OF that] by auto
  moreover have "(c, nxt) \<in> next_rel adj" using inv(5) by simp
  then have "successively (\<lambda>a b. (a, b) \<in> next_rel adj) (pl @ [nxt])"
    using inv(1,4) by (simp add: successively_append_iff)
  moreover have "set (dict_get adj nxt []) \<subseteq> next_rel adj `` {nxt}" by (auto simp: next_rel_def)
  ultimately show ?thesis using inv F(1-3) unfolding cycle_inv_def F(4) by (simp add: subset_insertI2)
qed

lemma cycle_inv_skip:
  assumes "cycle_inv adj pl cs seen ((c, nxt # rest) # frames)" and "nxt \<in> seen" "nxt \<notin> set pl"
  shows "cycle_inv adj pl cs seen ((c, rest) # frames)"
proof -
  note inv = cycle_inv_frame [OF assms(1)]
  have "frames_ok adj (seen - set pl) {} ((c, rest) # frames)" if "cs = []"
    using inv(8) [OF that] assms(2,3) by auto
  with inv show ?thesis unfolding cycle_inv_def by simp
qed

lemma cycle_inv_pop:
  assumes "cycle_inv adj pl cs seen ((c, []) # frames)"
  shows "cycle_inv adj (butlast pl) cs seen frames" and "set pl - {c} = set (butlast pl)" and "pl \<noteq> []"
proof -
  note inv = cycle_inv_frame [OF assms]
  let ?F = "seen - set pl"
  have pl: "butlast pl = rev (map fst frames)" "c \<in> set pl" "c \<notin> set (butlast pl)" "set pl = insert c (set (butlast pl))"
    using inv(1,2) by simp_all
  then have F: "seen - set (butlast pl) = insert c ?F" using inv(3) by blast
  have ok: "closed_acyclic (next_rel adj) (insert c ?F) \<and> frames_ok adj (insert c ?F) {} frames" if "cs = []"
  proof
    have *: "closed_acyclic (next_rel adj) ?F" "set (dict_get adj c []) \<subseteq> ?F" "frames_ok adj ?F {c} frames"
      using inv(8) [OF that] by simp_all
    have "next_rel adj `` {c} \<subseteq> ?F" using *(2) by (auto simp: next_rel_def)
    then show "closed_acyclic (next_rel adj) (insert c ?F)" using pl(2) by (intro closed_acyclic_insert [OF *(1)]) simp_all
    show "frames_ok adj (insert c ?F) {} frames" by (rule frames_ok_mono [OF *(3)]) auto
  qed
  have "distinct (butlast pl)" "set (butlast pl) \<subseteq> seen" "successively (\<lambda>a b. (a, b) \<in> next_rel adj) (butlast pl)"
    using inv(1-4) by (simp_all add: successively_append_iff)
  with ok inv(6,7) pl(1) show "cycle_inv adj (butlast pl) cs seen frames" unfolding cycle_inv_def F by simp
  show "set pl - {c} = set (butlast pl)" "pl \<noteq> []" using pl by auto
qed

lemma cycles_loop_result:
  assumes "cycle_inv adj pl cs seen stack"
  shows "\<exists>cs' seen'. cycles_loop adj (set pl) pl cs seen stack = Some (Inr (cs', seen')) \<and> cycle_inv adj [] cs' seen' [] \<and> seen \<subseteq> seen'"
  using assms
proof (induction "(seen, stack)" arbitrary: pl cs seen stack
    rule: wf_induct_rule [OF wf_measures [of "[\<lambda>x. card (Range (next_rel adj) - fst x), \<lambda>x. sum_list (map (Suc \<circ> length \<circ> snd) (snd x))]"]])
  case 1
  note IH = 1(1) and inv = 1(2)
  have fin: "finite (Range (next_rel adj))" by (rule finite_next_rel)
  show ?case
  proof (cases stack)
    case Nil
    then have "pl = []" using inv by (simp add: cycle_inv_def)
    with Nil inv show ?thesis by (simp add: cycles_loop.simps)
  next
    case (Cons f frames)
    obtain c ns where f: "f = (c, ns)" by (cases f)
    show ?thesis
    proof (cases ns)
      case Nil
      note stack = \<open>stack = f # frames\<close> [unfolded f Nil]
      from IH [OF _ cycle_inv_pop(1) [OF inv [unfolded stack]]] cycle_inv_pop(2,3) [OF inv [unfolded stack]] show ?thesis
        by (simp add: stack cycles_loop.simps [of _ _ _ _ _ "(c, []) # frames"])
    next
      case (Cons nxt rest)
      note stack = \<open>stack = f # frames\<close> [unfolded f Cons]
      note loop = cycles_loop.simps [of _ _ _ _ _ "(c, nxt # rest) # frames"] and inv = inv [unfolded stack]
      have nxt: "nxt \<in> Range (next_rel adj)" "set pl \<subseteq> seen" using cycle_inv_frame(3,5) [OF inv] by auto
      consider "nxt \<in> set pl" | "nxt \<notin> seen" | "nxt \<in> seen" "nxt \<notin> set pl" by blast
      then show ?thesis
      proof cases
        case 1
        with IH [OF _ cycle_inv_back [OF inv 1]] show ?thesis by (simp add: stack loop)
      next
        case 2
        then have "card (Range (next_rel adj) - insert nxt seen) < card (Range (next_rel adj) - seen)"
          using nxt(1) fin by (intro psubset_card_mono) auto
        moreover have "nxt \<notin> set pl" using 2 nxt(2) by auto
        ultimately show ?thesis using IH [OF _ cycle_inv_tree [OF inv 2]] 2 by (auto simp: stack loop)
      next
        case 3
        with IH [OF _ cycle_inv_skip [OF inv 3]] show ?thesis by (simp add: stack loop)
      qed
    qed
  qed
qed

lemma dfs_cycles_result:
  assumes "cycle_inv adj [] cs seen []"
  shows "\<exists>cs' seen'. dfs_cycles adj n {} [] (cs, seen) = Some (Inr (cs', seen')) \<and> cycle_inv adj [] cs' seen' [] \<and> insert n seen \<subseteq> seen'"
proof (cases "n \<in> seen")
  case True
  with assms show ?thesis by (auto simp: dfs_cycles_def)
next
  case False
  then have "insert n seen - {n} = seen" by auto
  moreover have "set (dict_get adj n []) \<subseteq> next_rel adj `` {n}" by (auto simp: next_rel_def)
  ultimately have "cycle_inv adj [n] cs (insert n seen) [(n, dict_get adj n [])]" using assms by (simp add: cycle_inv_def)
  from cycles_loop_result [OF this] False show ?thesis by (auto simp: dfs_cycles_def)
qed

lemma cycles_from_result:
  assumes "cycle_inv adj [] cs seen []"
  shows "\<exists>cs' seen'. cycles_from adj ns (cs, seen) = Some (Inr (cs', seen')) \<and> cycle_inv adj [] cs' seen' [] \<and> seen \<union> set ns \<subseteq> seen'"
  using assms
proof (induction ns arbitrary: cs seen)
  case (Cons n ns)
  show ?case
  proof (cases "n \<in> seen")
    case True
    with Cons.IH [OF Cons.prems] show ?thesis by auto
  next
    case False
    obtain cs1 seen1 where one: "dfs_cycles adj n {} [] (cs, seen) = Some (Inr (cs1, seen1))" "cycle_inv adj [] cs1 seen1 []" "insert n seen \<subseteq> seen1"
      using dfs_cycles_result [OF Cons.prems] by blast
    with Cons.IH [OF one(2)] False show ?thesis by auto
  qed
qed auto

lemma get_target_lists: "dict_get (target_lists es) n [] = map ge_target (filter (\<lambda>e. ge_source e = n) es)"
proof (induction es rule: rev_induct)
  case Nil
  show ?case by (simp add: target_lists_def dict_get_def)
next
  case (snoc e es)
  then show ?case by (auto simp: target_lists_def dict_append_def dict_get_def)
qed

lemma next_rel_target_lists: "next_rel (target_lists es) = edge_rel es"
  by (auto simp: next_rel_def get_target_lists edge_rel_def)

lemma cycles_of_result:
  "\<exists>cs. cycles_of es = Some (Inr cs) \<and> (\<forall>c \<in> set cs. cycle_in (edge_rel es) c) \<and> (cs = [] \<longleftrightarrow> acyclic (edge_rel es))"
proof -
  let ?adj = "target_lists es"
  have "cycle_inv ?adj [] [] {} []" by (simp add: cycle_inv_def closed_acyclic_def acyclic_def)
  from cycles_from_result [OF this, of "map fst ?adj"] obtain cs seen where r: "cycles_from ?adj (map fst ?adj) ([], {}) = Some (Inr (cs, seen))"
    "cycle_inv ?adj [] cs seen []" "fst ` set ?adj \<subseteq> seen" by auto
  have cyc: "\<forall>c \<in> set cs. cycle_in (edge_rel es) c" "cs = [] \<Longrightarrow> closed_acyclic (edge_rel es) seen"
    using r(2) by (simp_all add: cycle_inv_def next_rel_target_lists)
  have "acyclic (edge_rel es)" if "cs = []"
  proof -
    have keys: "a \<in> fst ` set ?adj" if "(a, b) \<in> edge_rel es" for a b
    proof (rule ccontr)
      assume "a \<notin> fst ` set ?adj"
      then have "dict_get ?adj a [] = []" by (simp add: dict_get_def map_of_eq_None_iff [THEN iffD2])
      with that show False by (simp add: next_rel_target_lists [symmetric] next_rel_def)
    qed
    have sub: "edge_rel es \<subseteq> edge_rel es \<inter> seen \<times> seen"
    proof
      fix x assume x: "x \<in> edge_rel es"
      obtain a b where ab: "x = (a, b)" by (cases x)
      have "a \<in> seen" using x ab keys r(3) by blast
      moreover from this have "b \<in> seen" using x ab cyc(2) [OF that] unfolding closed_acyclic_def by blast
      ultimately show "x \<in> edge_rel es \<inter> seen \<times> seen" using x ab by simp
    qed
    have "acyclic (edge_rel es \<inter> seen \<times> seen)" using cyc(2) [OF that] by (simp add: closed_acyclic_def)
    then show ?thesis using sub by (rule acyclic_subset)
  qed
  moreover have "cs = []" if "acyclic (edge_rel es)"
  proof (cases cs)
    case (Cons c cs')
    then have "cycle_in (edge_rel es) c" using cyc(1) by simp
    with that cycle_not_acyclic show ?thesis by blast
  qed
  moreover have "cycles_of es = Some (Inr cs)" by (simp add: cycles_of_def r(1))
  ultimately show ?thesis using cyc(1) by blast
qed

definition edges_of_type :: "string option \<Rightarrow> GraphEdge list \<Rightarrow> GraphEdge list" where
  "edges_of_type ty es = filter (\<lambda>e. ty = None \<or> ty = Some [] \<or> ty = Some (relation_value (ge_relation_type e))) es"

text \<open>Property C5: on a state whose cycles have not been computed, detect_cycles ends.  What it lists are simple cycles
  along edges of the given type (all edges without a type), and the list is empty exactly if there is no such
  cycle.  Without a type the result is stored, and a second call returns it and changes nothing.\<close>

theorem detect_cycles_correct:
  "gst_cycles st = None \<Longrightarrow>
   \<exists>cs. detect_cycles st ty = Some (Inr (cs, if ty = None then st\<lparr>gst_cycles := Some cs\<rparr> else st)) \<and>
     (\<forall>c \<in> set cs. cycle_in (edge_rel (edges_of_type ty (gst_edges st))) c) \<and>
     (cs = [] \<longleftrightarrow> acyclic (edge_rel (edges_of_type ty (gst_edges st)))) \<and>
     detect_cycles (st\<lparr>gst_cycles := Some cs\<rparr>) None = Some (Inr (cs, st\<lparr>gst_cycles := Some cs\<rparr>))"
proof -
  assume fresh: "gst_cycles st = None"
  obtain cs where cs: "cycles_of (edges_of_type ty (gst_edges st)) = Some (Inr cs)"
    "\<forall>c \<in> set cs. cycle_in (edge_rel (edges_of_type ty (gst_edges st))) c"
    "cs = [] \<longleftrightarrow> acyclic (edge_rel (edges_of_type ty (gst_edges st)))"
    using cycles_of_result by blast
  have "(case ty of None \<Rightarrow> gst_edges st | Some rt \<Rightarrow> if rt = [] then gst_edges st else filter (\<lambda>e. relation_value (ge_relation_type e) = rt) (gst_edges st))
      = edges_of_type ty (gst_edges st)"
    by (auto simp: edges_of_type_def split: option.split intro: filter_cong)
  then have "detect_cycles st ty = Some (Inr (cs, if ty = None then st\<lparr>gst_cycles := Some cs\<rparr> else st))"
    using fresh cs(1) by (simp add: detect_cycles_def)
  moreover have "detect_cycles (st\<lparr>gst_cycles := Some cs\<rparr>) None = Some (Inr (cs, st\<lparr>gst_cycles := Some cs\<rparr>))"
    by (simp add: detect_cycles_def)
  ultimately show ?thesis using cs(2,3) by auto
qed

definition sample_loop :: GraphState where
  "sample_loop = sample_gstate [sample_gedge ''a'' ''b'' DERIVED_FROM, sample_gedge ''b'' ''c'' DERIVED_FROM,
     sample_gedge ''c'' ''b'' DERIVED_FROM, sample_gedge ''c'' ''d'' DERIVED_FROM]"

theorem detect_cycles_correct_witness:
  "detect_cycles sample_loop None = Some (Inr ([[''b'', ''c'', ''b'']], sample_loop\<lparr>gst_cycles := Some [[''b'', ''c'', ''b'']]\<rparr>)) \<and>
   \<not> acyclic (edge_rel (gst_edges sample_loop))"
proof -
  have fresh: "gst_cycles sample_loop = None" by (simp add: sample_loop_def sample_gstate_def graph_state_def)
  have "cycles_of (gst_edges sample_loop) = Some (Inr [[''b'', ''c'', ''b'']])"
    by (simp add: cycles_of_def sample_loop_def sample_gstate_def sample_gedge_def target_lists_def dict_append_def dict_get_def
        dfs_cycles_def cycles_loop.simps)
  then have "detect_cycles sample_loop None = Some (Inr ([[''b'', ''c'', ''b'']], sample_loop\<lparr>gst_cycles := Some [[''b'', ''c'', ''b'']]\<rparr>))"
    by (simp add: detect_cycles_def fresh)
  with detect_cycles_correct [OF fresh, of None] show ?thesis by (auto simp: edges_of_type_def)
qed

section \<open>Topological order\<close>

definition link_edge :: "RelationType \<Rightarrow> (string, int) dict \<times> (string, string list) dict \<Rightarrow> GraphEdge \<Rightarrow>
    ((string, int) dict \<times> (string, string list) dict) result" where
  "link_edge rt s e =
     (if ge_relation_type e = rt then
        case map_of (snd s) (ge_source e) of
          None \<Rightarrow> Inl (KeyError (ge_source e))
        | Some ts \<Rightarrow> Inr (AList.update (ge_target e) (dict_get (fst s) (ge_target e) 0 + 1) (fst s),
                       AList.update (ge_source e) (ts @ [ge_target e]) (snd s))
      else Inr s)"

text \<open>The loop over the queue; its inner loop is the one of the projection registry (\<open>relax\<close>).\<close>

function order_loop :: "(string, string list) dict \<Rightarrow> (string, int) dict \<Rightarrow> string list \<Rightarrow> string list \<Rightarrow> string list result" where
  "order_loop sub_adj in_degree [] order = Inr order"
| "order_loop sub_adj in_degree (n # queue) order =
     (case relax in_degree queue (dict_get sub_adj n []) of
        Inl e \<Rightarrow> Inl e
      | Inr (in_degree', queue') \<Rightarrow> order_loop sub_adj in_degree' queue' (order @ [n]))"
  by pat_completeness auto
termination
  by (relation "measure (\<lambda>(_, deg, queue, _). pending deg + length queue)") (auto dest!: relax_measure)

definition find_cycles_in_subset :: "GraphState \<Rightarrow> string list \<Rightarrow> RelationType \<Rightarrow> string list list result option" where
  "find_cycles_in_subset st node_ids rt =
     cycles_of (filter (\<lambda>e. ge_relation_type e = rt \<and> ge_source e \<in> set node_ids \<and> ge_target e \<in> set node_ids) (gst_edges st))"

definition graph_topological_sort :: "GraphState \<Rightarrow> RelationType \<Rightarrow> (string list \<times> string list list) result option" where
  "graph_topological_sort st rt =
     (let ids = map fst (gst_nodes st) in
      case rfold (link_edge rt) (map (\<lambda>n. (n, 0)) ids, map (\<lambda>n. (n, [])) ids) (gst_edges st) of
        Inl e \<Rightarrow> Some (Inl e)
      | Inr (in_degree, sub_adj) \<Rightarrow>
          (case order_loop sub_adj in_degree (map fst (filter (\<lambda>x. snd x = 0) in_degree)) [] of
             Inl e \<Rightarrow> Some (Inl e)
           | Inr order \<Rightarrow>
               (let remaining = filter (\<lambda>n. n \<notin> set order) ids in
                if remaining = [] then Some (Inr (order, []))
                else map_option (\<lambda>r. rbind r (\<lambda>cs. Inr (order, cs))) (find_cycles_in_subset st remaining rt))))"

text \<open>The nodes as classes of the projection registry whose dependencies are the sources of their edges: the
  invariant of the order computed there carries over.\<close>

definition as_classes :: "GraphEdge list \<Rightarrow> classes" where
  "as_classes es n = \<lparr>pc_projection_name = [], pc_version = \<lparr>sv_major = 0, sv_minor = 0, sv_patch = 0\<rparr>, pc_projection_kind = DERIVED,
     pc_dependencies = map ge_source (filter (\<lambda>e. ge_target e = n) es), pc_build_priority = 0\<rparr>"

lemma as_classes_simps: "pc_dependencies (as_classes es n) = map ge_source (filter (\<lambda>e. ge_target e = n) es)"
  "order_key (as_classes es) n = (0, [])"
  by (simp_all add: as_classes_def order_key_def)

lemma order_loop_result:
  assumes "kahn_inv (as_classes es) V deg queue order" and "adjacent (as_classes es) V adj"
  shows "\<exists>order'. order_loop adj deg queue order = Inr order' \<and> set order' \<subseteq> V \<and> in_order (as_classes es) order' \<and>
    available (as_classes es) V (set order') = {}"
  using assms
proof (induction adj deg queue order rule: order_loop.induct)
  case (1 adj deg order)
  then show ?case by (simp add: kahn_inv_def)
next
  case (2 adj deg n queue order)
  have "sort_key (order_key (as_classes es)) (n # queue) = n # queue"
    by (rule sort_key_sorted_id) (simp add: as_classes_simps sorted_wrt_map comp_def del: sort_key_simps)
  from kahn_inv_step [OF 2(2,3) this] obtain children deg' queue' where step: "map_of adj n = Some children"
    "relax deg queue children = Inr (deg', queue')" "kahn_inv (as_classes es) V deg' queue' (order @ [n])" by blast
  then have "relax deg queue (dict_get adj n []) = Inr (deg', queue')" by (simp add: dict_get_def)
  from 2(1) [OF this refl step(3) 2(3)] this show ?case by simp
qed

lemma link_edges_result:
  assumes "\<forall>e \<in> set es. ge_source e \<in> set ids \<and> ge_target e \<in> set ids"
  shows "\<exists>deg adj. rfold (link_edge rt) (map (\<lambda>n. (n, 0)) ids, map (\<lambda>n. (n, [])) ids) es = Inr (deg, adj) \<and> map fst deg = ids \<and>
    (\<forall>n \<in> set ids. map_of deg n = Some (int (length (filter (\<lambda>e. ge_relation_type e = rt \<and> ge_target e = n) es))) \<and>
       map_of adj n = Some (map ge_target (filter (\<lambda>e. ge_relation_type e = rt \<and> ge_source e = n) es)))"
  using assms
proof (induction es rule: rev_induct)
  case Nil
  show ?case by (simp add: comp_def map_of_map_restrict)
next
  case (snoc e es)
  then obtain deg adj where r: "rfold (link_edge rt) (map (\<lambda>n. (n, 0)) ids, map (\<lambda>n. (n, [])) ids) es = Inr (deg, adj)" "map fst deg = ids"
    "\<forall>n \<in> set ids. map_of deg n = Some (int (length (filter (\<lambda>e. ge_relation_type e = rt \<and> ge_target e = n) es))) \<and>
       map_of adj n = Some (map ge_target (filter (\<lambda>e. ge_relation_type e = rt \<and> ge_source e = n) es))" by auto
  show ?case
  proof (cases "ge_relation_type e = rt")
    case False
    with r show ?thesis by (simp add: rfold_append link_edge_def [of _ _ e])
  next
    case True
    have ends: "ge_source e \<in> set ids" "ge_target e \<in> set ids" using snoc.prems by simp_all
    let ?deg = "AList.update (ge_target e) (dict_get deg (ge_target e) 0 + 1) deg"
      and ?adj = "AList.update (ge_source e) (map ge_target (filter (\<lambda>x. ge_relation_type x = rt \<and> ge_source x = ge_source e) es) @ [ge_target e]) adj"
    have "rfold (link_edge rt) (map (\<lambda>n. (n, 0)) ids, map (\<lambda>n. (n, [])) ids) (es @ [e]) = Inr (?deg, ?adj)"
      using r(3) ends(1) True by (simp add: rfold_append r(1) link_edge_def [of _ _ e])
    moreover have "ge_target e \<in> fst ` set deg" using ends(2) unfolding r(2) [symmetric] by simp
    then have "map fst ?deg = ids" using r(2) by (simp add: map_fst_update)
    moreover have "map_of ?deg n = Some (int (length (filter (\<lambda>e. ge_relation_type e = rt \<and> ge_target e = n) (es @ [e]))))"
        "map_of ?adj n = Some (map ge_target (filter (\<lambda>e. ge_relation_type e = rt \<and> ge_source e = n) (es @ [e])))" if "n \<in> set ids" for n
      using bspec [OF r(3) that] bspec [OF r(3) ends(2)] True by (auto simp: dict_get_def)
    ultimately show ?thesis by blast
  qed
qed

lemma kahn_inv_start:
  fixes es :: "GraphEdge list"
  defines "deps \<equiv> \<lambda>n. filter (\<lambda>e. ge_target e = n) es"
  assumes ids: "distinct ids" "map fst deg = ids" and deg: "\<forall>n \<in> set ids. map_of deg n = Some (int (length (deps n)))"
  shows "kahn_inv (as_classes es) (set ids) deg (map fst (filter (\<lambda>x. snd x = 0) deg)) []"
proof -
  have dom: "map_of deg n = (if n \<in> set ids then Some (int (length (deps n))) else None)" for n
    by (cases "n \<in> set ids") (use deg ids(2) in \<open>simp_all add: map_of_eq_None_iff flip: set_map\<close>)
  have "n \<in> set (map fst (filter (\<lambda>x. snd x = 0) deg)) \<longleftrightarrow> n \<in> set ids \<and> deps n = []" for n
  proof -
    have "n \<in> set (map fst (filter (\<lambda>x. snd x = 0) deg)) \<longleftrightarrow> (n, 0) \<in> set deg" by force
    also have "\<dots> \<longleftrightarrow> map_of deg n = Some 0" using ids by (subst map_of_eq_Some_iff) simp_all
    finally show ?thesis by (simp add: dom)
  qed
  then have "set (map fst (filter (\<lambda>x. snd x = 0) deg)) = {n \<in> set ids. deps n = []}" by blast
  moreover have "distinct (map fst (filter (\<lambda>x. snd x = 0) deg))" using ids by (simp add: distinct_map_filter)
  ultimately show ?thesis
    by (simp add: kahn_inv_def dom missing_deps_def available_def in_order_def as_classes_simps deps_def filter_empty_conv Ball_def)
qed

lemma count_ends:
  "count (mset (map f (filter (\<lambda>e. g e = d) es))) x = count (mset (map g (filter (\<lambda>e. f e = x) es))) d"
  by (induction es) auto

lemma adjacent_targets:
  assumes "\<forall>e \<in> set es. ge_target e \<in> V" and "\<forall>n \<in> V. map_of adj n = Some (map ge_target (filter (\<lambda>e. ge_source e = n) es))"
  shows "adjacent (as_classes es) V adj"
proof -
  have "count (mset (map ge_target (filter (\<lambda>e. ge_source e = d) es))) x =
      (if x \<in> V then count (mset (pc_dependencies (as_classes es x))) d else 0)" for d x
  proof (cases "x \<in> V")
    case False
    with assms(1) have "x \<notin> set (map ge_target (filter (\<lambda>e. ge_source e = d) es))" by auto
    then have "count (mset (map ge_target (filter (\<lambda>e. ge_source e = d) es))) x = 0" by (simp only: count_mset_0_iff not_False_eq_True)
    with False show ?thesis by simp
  qed (simp only: if_True as_classes_simps count_ends [of ge_target ge_source])
  with assms(2) show ?thesis by (auto simp: adjacent_def)
qed

text \<open>A node has a cycle behind it if it is reached from a node that lies on a cycle.\<close>

definition behind_cycle :: "('n \<times> 'n) set \<Rightarrow> 'n \<Rightarrow> bool" where
  "behind_cycle R n \<longleftrightarrow> (\<exists>m. (m, m) \<in> R\<^sup>+ \<and> (m, n) \<in> R\<^sup>*)"

lemma stuck_behind_cycle:
  assumes "finite Q" and "\<forall>n \<in> Q. \<exists>m \<in> Q. (m, n) \<in> R" and "n \<in> Q"
  shows "behind_cycle R n" and "\<not> acyclic (R \<inter> Q \<times> Q)"
proof -
  let ?A = "{m \<in> Q. (m, n) \<in> R\<^sup>*}"
  have "\<not> wf (R \<inter> ?A \<times> ?A)"
  proof
    assume "wf (R \<inter> ?A \<times> ?A)"
    moreover have "n \<in> ?A" using assms(3) by simp
    ultimately obtain z where z: "z \<in> ?A" "\<forall>y. (y, z) \<in> R \<inter> ?A \<times> ?A \<longrightarrow> y \<notin> ?A" by (rule wfE_min) blast
    then obtain m where "m \<in> Q" "(m, z) \<in> R" using assms(2) by auto
    with z show False by (auto intro: converse_rtrancl_into_rtrancl)
  qed
  moreover have "finite (R \<inter> ?A \<times> ?A)" using assms(1) by auto
  ultimately have "\<not> acyclic (R \<inter> ?A \<times> ?A)" using finite_acyclic_wf by blast
  then obtain m where m: "(m, m) \<in> (R \<inter> ?A \<times> ?A)\<^sup>+" by (auto simp: acyclic_def)
  then have "(m, n) \<in> R\<^sup>*" by (induction rule: converse_trancl_induct) auto
  with m show "behind_cycle R n" by (auto simp: behind_cycle_def intro: trancl_mono)
  show "\<not> acyclic (R \<inter> Q \<times> Q)" using m by (auto simp: acyclic_def intro: trancl_mono)
qed

lemma ordered_not_behind:
  assumes order: "distinct order" "\<And>i. i < length order \<Longrightarrow> {a. (a, order ! i) \<in> R} \<subseteq> set (take i order)" and "n \<in> set order"
  shows "\<not> behind_cycle R n"
proof
  assume "behind_cycle R n"
  then obtain m where m: "(m, m) \<in> R\<^sup>+" "(m, n) \<in> R\<^sup>*" by (auto simp: behind_cycle_def)
  have before: "\<exists>j < i. order ! j = a" if "(a, order ! i) \<in> R" "i < length order" for a i
    using order(2) [OF that(2)] that by (force simp: in_set_conv_nth)
  have earlier: "\<exists>j < i. order ! j = a" if "(a, order ! i) \<in> R\<^sup>+" "i < length order" for a i
    using that
  proof (induction rule: converse_trancl_induct)
    case (base y)
    then show ?case by (rule before)
  next
    case (step y z)
    then obtain j where "j < i" "order ! j = z" by auto
    with before [of y j] step show ?case by (auto intro: less_trans)
  qed
  obtain i where i: "i < length order" "order ! i = n" using assms(3) by (auto simp: in_set_conv_nth)
  have "\<exists>j < length order. order ! j = m"
    using m(2) earlier [of m i] i by (auto simp: rtrancl_eq_or_trancl intro: less_trans)
  then obtain j where j: "j < length order" "order ! j = m" by auto
  with earlier [of m j] m(1) obtain k where "k < j" "order ! k = m" by auto
  with j order(1) show False by (metis less_trans nat_neq_iff nth_eq_iff_index_eq)
qed

definition typed_edges :: "GraphState \<Rightarrow> RelationType \<Rightarrow> GraphEdge list" where
  "typed_edges st rt = filter (\<lambda>e. ge_relation_type e = rt) (gst_edges st)"

lemma typed_edges_in: "graph_wf st \<Longrightarrow> edge_rel (typed_edges st rt) \<subseteq> set (map fst (gst_nodes st)) \<times> set (map fst (gst_nodes st))"
  by (auto simp: edge_rel_def typed_edges_def graph_wf_def)

lemma edge_rel_restrict:
  "edge_rel (filter (\<lambda>e. P e \<and> ge_source e \<in> Q \<and> ge_target e \<in> Q) es) = edge_rel (filter P es) \<inter> Q \<times> Q"
  by (auto simp: edge_rel_def)

lemma sorted_part:
  fixes st :: GraphState and rt :: RelationType
  assumes "graph_wf st"
  defines "ids \<equiv> map fst (gst_nodes st)" and "R \<equiv> edge_rel (typed_edges st rt)"
  shows "\<exists>deg adj order. rfold (link_edge rt) (map (\<lambda>n. (n, 0)) ids, map (\<lambda>n. (n, [])) ids) (gst_edges st) = Inr (deg, adj) \<and>
    order_loop adj deg (map fst (filter (\<lambda>x. snd x = 0) deg)) [] = Inr order \<and> distinct order \<and> set order \<subseteq> set ids \<and>
    (\<forall>i < length order. {a. (a, order ! i) \<in> R} \<subseteq> set (take i order)) \<and>
    (\<forall>n \<in> set ids - set order. \<exists>m \<in> set ids - set order. (m, n) \<in> R)"
proof -
  let ?es = "typed_edges st rt"
  have wf: "distinct ids" "\<forall>e \<in> set (gst_edges st). ge_source e \<in> set ids \<and> ge_target e \<in> set ids"
    using assms(1) by (simp_all add: graph_wf_def ids_def)
  obtain deg adj where r: "rfold (link_edge rt) (map (\<lambda>n. (n, 0)) ids, map (\<lambda>n. (n, [])) ids) (gst_edges st) = Inr (deg, adj)" "map fst deg = ids"
    "\<forall>n \<in> set ids. map_of deg n = Some (int (length (filter (\<lambda>e. ge_target e = n) ?es))) \<and>
       map_of adj n = Some (map ge_target (filter (\<lambda>e. ge_source e = n) ?es))"
    using link_edges_result [OF wf(2), of rt] unfolding typed_edges_def filter_filter by blast
  have inv: "kahn_inv (as_classes ?es) (set ids) deg (map fst (filter (\<lambda>x. snd x = 0) deg)) []"
    using kahn_inv_start [OF wf(1) r(2), of ?es] r(3) by blast
  have adj: "adjacent (as_classes ?es) (set ids) adj"
    by (rule adjacent_targets) (use wf(2) r(3) in \<open>auto simp: typed_edges_def\<close>)
  from order_loop_result [OF inv adj] obtain order where o: "order_loop adj deg (map fst (filter (\<lambda>x. snd x = 0) deg)) [] = Inr order"
    "set order \<subseteq> set ids" "in_order (as_classes ?es) order" "available (as_classes ?es) (set ids) (set order) = {}" by blast
  have deps: "set (pc_dependencies (as_classes ?es n)) = {a. (a, n) \<in> R}" for n
    by (auto simp: as_classes_simps R_def edge_rel_def image_iff)
  have "\<exists>m \<in> set ids - set order. (m, n) \<in> R" if "n \<in> set ids - set order" for n
  proof -
    have "\<not> {a. (a, n) \<in> R} \<subseteq> set order" using o(4) that unfolding available_def deps by blast
    then obtain m where "(m, n) \<in> R" "m \<notin> set order" by auto
    with typed_edges_in [OF assms(1)] show ?thesis unfolding R_def ids_def by blast
  qed
  with r(1) o deps show ?thesis unfolding in_order_def by auto
qed

lemma topological_sort_result:
  "graph_wf st \<Longrightarrow>
   \<exists>order cs. graph_topological_sort st rt = Some (Inr (order, cs)) \<and> distinct order \<and>
     set order = {n \<in> fst ` set (gst_nodes st). \<not> behind_cycle (edge_rel (typed_edges st rt)) n} \<and>
     (\<forall>i < length order. {a. (a, order ! i) \<in> edge_rel (typed_edges st rt)} \<subseteq> set (take i order)) \<and>
     (\<forall>c \<in> set cs. cycle_in (edge_rel (typed_edges st rt)) c) \<and>
     (cs = [] \<longleftrightarrow> acyclic (edge_rel (typed_edges st rt))) \<and> (cs = [] \<longrightarrow> set order = fst ` set (gst_nodes st))"
proof -
  assume wf: "graph_wf st"
  let ?ids = "map fst (gst_nodes st)" and ?R = "edge_rel (typed_edges st rt)"
  obtain deg adj order where r: "rfold (link_edge rt) (map (\<lambda>n. (n, 0)) ?ids, map (\<lambda>n. (n, [])) ?ids) (gst_edges st) = Inr (deg, adj)"
    "order_loop adj deg (map fst (filter (\<lambda>x. snd x = 0) deg)) [] = Inr order" and order: "distinct order" "set order \<subseteq> set ?ids"
    "\<forall>i < length order. {a. (a, order ! i) \<in> ?R} \<subseteq> set (take i order)"
    and stuck: "\<forall>n \<in> set ?ids - set order. \<exists>m \<in> set ?ids - set order. (m, n) \<in> ?R"
    using sorted_part [OF wf] by blast
  let ?Q = "set ?ids - set order" and ?rem = "filter (\<lambda>n. n \<notin> set order) ?ids"
  have Q: "set ?rem = ?Q" by auto
  have sort: "graph_topological_sort st rt = (if ?rem = [] then Some (Inr (order, []))
      else map_option (\<lambda>r. rbind r (\<lambda>cs. Inr (order, cs))) (find_cycles_in_subset st ?rem rt))"
    unfolding graph_topological_sort_def Let_def r(1) sum.case prod.case r(2) ..
  have behind: "behind_cycle ?R n" "\<not> acyclic (?R \<inter> ?Q \<times> ?Q)" if "n \<in> ?Q" for n
    using stuck_behind_cycle [OF _ stuck that] by simp_all
  have free: "\<not> behind_cycle ?R n" if "n \<in> set order" for n by (rule ordered_not_behind [OF order(1) _ that]) (use order(3) in simp)
  have set: "set order = {n \<in> set ?ids. \<not> behind_cycle ?R n}" using behind(1) free order(2) by blast
  show ?thesis
  proof (cases "?rem = []")
    case True
    then have all: "set order = set ?ids" using Q order(2) by (metis Diff_eq_empty_iff empty_set subset_antisym)
    have "acyclic ?R"
    proof (rule acyclicI, intro allI notI)
      fix x assume x: "(x, x) \<in> ?R\<^sup>+"
      then have "x \<in> set ?ids" using trancl_subset_Sigma [OF typed_edges_in [OF wf]] by blast
      with x free all show False by (auto simp: behind_cycle_def)
    qed
    moreover have "graph_topological_sort st rt = Some (Inr (order, []))" unfolding sort True by simp
    ultimately show ?thesis using order(1,3) set all by auto
  next
    case False
    then obtain n where n: "n \<in> ?Q" using Q by (metis empty_set ex_in_conv set_empty2)
    let ?es = "filter (\<lambda>e. ge_relation_type e = rt \<and> ge_source e \<in> ?Q \<and> ge_target e \<in> ?Q) (gst_edges st)"
    have es: "edge_rel ?es = ?R \<inter> ?Q \<times> ?Q" unfolding edge_rel_restrict typed_edges_def ..
    obtain cs where cs: "find_cycles_in_subset st ?rem rt = Some (Inr cs)" "\<forall>c \<in> set cs. cycle_in (?R \<inter> ?Q \<times> ?Q) c" "cs \<noteq> []"
      using cycles_of_result [of ?es] behind(2) [OF n] unfolding find_cycles_in_subset_def Q es by blast
    then have "graph_topological_sort st rt = Some (Inr (order, cs))" unfolding sort using False by (simp only: if_False option.map rbind_simps)
    moreover have "\<forall>c \<in> set cs. cycle_in ?R c" using cs(2) by (auto simp: cycle_in_def elim: successively_mono)
    moreover have "\<not> acyclic ?R" using behind(2) [OF n] acyclic_subset by blast
    ultimately show ?thesis using order(1,3) set cs(3) by auto
  qed
qed

text \<open>Property C4: on a well-formed graph topological_sort ends.  Its order holds exactly the nodes that have no cycle
  behind them, once each, every node after the sources of its edges of the given type.  The cycles listed are simple
  cycles along such edges, and there is none exactly if these edges have no cycle, in which case the order holds all nodes.\<close>

theorem graph_topological_sort_correct:
  "graph_wf st \<Longrightarrow>
   \<exists>order cs. graph_topological_sort st rt = Some (Inr (order, cs)) \<and> distinct order \<and>
     set order = {n \<in> fst ` set (gst_nodes st). \<not> behind_cycle (edge_rel (typed_edges st rt)) n} \<and>
     (\<forall>i < length order. {a. (a, order ! i) \<in> edge_rel (typed_edges st rt)} \<subseteq> set (take i order)) \<and>
     (\<forall>c \<in> set cs. cycle_in (edge_rel (typed_edges st rt)) c) \<and>
     (cs = [] \<longleftrightarrow> acyclic (edge_rel (typed_edges st rt))) \<and> (cs = [] \<longrightarrow> set order = fst ` set (gst_nodes st))"
  by (rule topological_sort_result)

theorem graph_topological_sort_correct_witness:
  "graph_wf sample_loop \<and> graph_topological_sort sample_loop DERIVED_FROM = Some (Inr ([''a''], [[''b'', ''c'', ''b'']])) \<and>
   behind_cycle (edge_rel (typed_edges sample_loop DERIVED_FROM)) ''d'' \<and>
   graph_topological_sort sample_diamond DERIVED_FROM = Some (Inr ([''a'', ''b'', ''c'', ''d''], [])) \<and>
   acyclic (edge_rel (typed_edges sample_diamond DERIVED_FROM))"
proof -
  have wf: "graph_wf sample_loop" "graph_wf sample_diamond"
    by (simp_all add: graph_wf_def sample_loop_def sample_diamond_def sample_gstate_def sample_gedge_def)
  have nodes: "fst ` set (gst_nodes sample_loop) = {''a'', ''b'', ''c'', ''d''}" by (simp add: sample_loop_def sample_gstate_def)
  have r: "graph_topological_sort sample_loop DERIVED_FROM = Some (Inr ([''a''], [[''b'', ''c'', ''b'']]))"
    "graph_topological_sort sample_diamond DERIVED_FROM = Some (Inr ([''a'', ''b'', ''c'', ''d''], []))"
    by (simp_all add: graph_topological_sort_def sample_loop_def sample_diamond_def sample_gstate_def sample_gedge_def link_edge_def dict_get_def
        find_cycles_in_subset_def cycles_of_def target_lists_def dict_append_def dfs_cycles_def cycles_loop.simps)
  from graph_topological_sort_correct [OF wf(1), of DERIVED_FROM] r(1)
  have "{''a''} = {n \<in> fst ` set (gst_nodes sample_loop). \<not> behind_cycle (edge_rel (typed_edges sample_loop DERIVED_FROM)) n}" by auto
  then have "n = ''a'' \<or> behind_cycle (edge_rel (typed_edges sample_loop DERIVED_FROM)) n" if "n \<in> fst ` set (gst_nodes sample_loop)" for n
    using that by blast
  from this [of "''d''"] have "behind_cycle (edge_rel (typed_edges sample_loop DERIVED_FROM)) ''d''" unfolding nodes by simp
  moreover from graph_topological_sort_correct [OF wf(2), of DERIVED_FROM] r(2)
  have "acyclic (edge_rel (typed_edges sample_diamond DERIVED_FROM))" by auto
  ultimately show ?thesis using wf(1) r by blast
qed

section \<open>Orders of derived knowledge\<close>

definition derivations :: "KnowledgeState \<Rightarrow> (string \<times> string) set" where
  "derivations st = {(d, s). (\<exists>ds. (s, ds) \<in> set (kst_derivation_chains st) \<and> d \<in> set ds) \<and>
     d \<in> ko_id ` set (kst_active_knowledge st) \<and> s \<in> ko_id ` set (kst_active_knowledge st)}"

lemma add_edges_keys:
  "snd (foldl (add_edge nodes) acc es) =
     snd acc \<union> gedge_key ` {e \<in> set es. dict_has nodes (ge_source e) \<and> dict_has nodes (ge_target e)}"
  by (induction es arbitrary: acc) (auto simp: add_edge_def append_edge_def)

lemma add_conflicts_keys:
  "rt \<noteq> CONTRADICTS \<Longrightarrow> (a, b, rt) \<in> snd (foldl (add_conflict nodes) acc cs) \<longleftrightarrow> (a, b, rt) \<in> snd acc"
proof (induction cs arbitrary: acc)
  case (Cons c cs)
  have "(a, b, rt) \<in> snd (add_conflict nodes acc c) \<longleftrightarrow> (a, b, rt) \<in> snd acc"
    using Cons.prems by (auto simp: add_conflict_def append_edge_def gedge_key_def conflict_edge_def Let_def)
  with Cons show ?case by simp
qed simp

lemma derived_keys:
  "(a, b, DERIVED_FROM) \<in> gedge_key ` {e \<in> set (derived_edges deps). P (ge_source e) \<and> P (ge_target e)} \<longleftrightarrow>
     (\<exists>ds. (b, ds) \<in> set deps \<and> a \<in> set ds) \<and> P a \<and> P b" (is "?L \<longleftrightarrow> ?R")
proof
  show "?L \<Longrightarrow> ?R" by (auto simp: gedge_key_def derived_edges_def)
  assume ?R
  then obtain ds where "(b, ds) \<in> set deps" "a \<in> set ds" "P a" "P b" by blast
  then show ?L
    by (intro image_eqI [of _ _ "\<lparr>ge_source = a, ge_target = b, ge_relation_type = DERIVED_FROM, ge_confidence = flt (9 / 10)\<rparr>"])
      (auto simp: gedge_key_def derived_edges_def)
qed

lemma support_keys: "(a, b, DERIVED_FROM) \<notin> gedge_key ` {e \<in> set (support_edges s). P e}"
  by (auto simp: gedge_key_def support_edges_def)

lemma derived_edges_graph:
  assumes "graph_project now st = Inr g"
  shows "edge_rel (typed_edges g DERIVED_FROM) = derivations st"
proof -
  note p = graph_project_Inr [OF assms]
  define acc0 where "acc0 = foldl (add_edge (gst_nodes g)) ([], {}) (support_edges (kst_support_graph st))"
  define acc1 where "acc1 = foldl (add_edge (gst_nodes g)) acc0 (derived_edges (kst_derivation_chains st))"
  define acc where "acc = foldl (add_conflict (gst_nodes g)) acc1 (kst_conflict_queue st)"
  have e: "gst_edges g = fst acc" unfolding p(2) p(1) [symmetric] by (simp add: graph_edges_def acc_def acc1_def acc0_def Let_def)
  have "edges_inv (gst_nodes g) ([], {})" by (simp add: edges_inv_def)
  then have "edges_inv (gst_nodes g) acc1" unfolding acc1_def acc0_def by (intro add_edges_inv)
  then have "edges_inv (gst_nodes g) acc" unfolding acc_def by (rule foldl_invariant) (rule add_conflict_inv)
  then have keys: "snd acc = gedge_key ` set (gst_edges g)" unfolding e by (simp add: edges_inv_def)
  have nodes: "dict_has (gst_nodes g) n \<longleftrightarrow> n \<in> ko_id ` set (kst_active_knowledge st)" for n
    unfolding p(1) graph_nodes_def dict_has_def by (simp add: fold_update)
  have "(a, b) \<in> edge_rel (typed_edges g DERIVED_FROM) \<longleftrightarrow> (a, b, DERIVED_FROM) \<in> snd acc" for a b
    unfolding keys by (force simp: edge_rel_def typed_edges_def gedge_key_def)
  also have "(a, b, DERIVED_FROM) \<in> snd acc \<longleftrightarrow> (a, b, DERIVED_FROM) \<in> snd acc1" for a b
    unfolding acc_def by (rule add_conflicts_keys) simp
  also have "(a, b, DERIVED_FROM) \<in> snd acc1 \<longleftrightarrow> (a, b) \<in> derivations st" for a b
    using derived_keys [of a b "kst_derivation_chains st" "dict_has (gst_nodes g)"]
    unfolding acc1_def acc0_def add_edges_keys by (simp add: support_keys derivations_def nodes)
  finally show ?thesis by auto
qed

end
