(* ===== verification/CrossProject.thy ===== *)
theory CrossProject
  imports Knowledge
begin

text \<open>
  Transfer of knowledge between projects (\<open>projections/cross_project.py\<close>): which objects of other projects may
  be offered to a project, how relevant they are to a query, and how similar the projects are.  The time of
  compilation is an argument, and so is \<open>it\<close>, the order in which Python iterates over the set of the words of
  the query, on which the order of the matched terms depends.
\<close>

section \<open>State\<close>

record CrossProjectKnowledge =
  cpk_knowledge_id :: string
  cpk_source_project_id :: string
  cpk_title :: string
  cpk_content :: string
  cpk_knowledge_type :: string
  cpk_transferability :: string
  cpk_confidence :: pyfloat
  cpk_relevance_score :: pyfloat
  cpk_matched_terms :: "string list"
  cpk_reasons :: "string list"

record CrossProjectHealth =
  cph_total_projects :: int
  cph_total_transferable :: int
  cph_reusable_count :: int
  cph_organizational_count :: int
  cph_coverage :: pyfloat

record CrossProjectState =
  cps_project_id :: string
  cps_compiled_at :: string
  cps_projection_version :: string
  cps_source_projects :: "string list"
  cps_transferable_knowledge :: "CrossProjectKnowledge list"
  cps_knowledge_by_project :: "(string, string list) dict"
  cps_provenance_map :: "(string, string) dict"
  cps_related_projects :: "(string, pyfloat) dict"
  cps_health :: "CrossProjectHealth option"

type_synonym knowledge_map = "(string, KnowledgeObject list) dict"

section \<open>Projection\<close>

definition score_relevance :: "(string list \<Rightarrow> string list) \<Rightarrow> KnowledgeObject \<Rightarrow> string \<Rightarrow> pyfloat \<times> string list" where
  "score_relevance it k query =
     (if query = [] then (1 / 2, [])
      else
        let query_lower = lower query;
            query_terms = it (remdups (split_ws query_lower));
            text = lower (ko_title k @ '' '' @ ko_content k);
            matched = filter (\<lambda>t. contains t text) query_terms
        in if matched = [] then (0, [])
           else
             let score = (if query_terms \<noteq> [] then fdiv (of_nat (length matched)) (of_nat (length query_terms)) else 0);
                 score = (if contains query_lower (lower (ko_title k)) then min 1 (fadd score (flt (3 / 10))) else score)
             in (min 1 score, matched))"

definition build_reasons :: "KnowledgeObject \<Rightarrow> pyfloat \<Rightarrow> string list \<Rightarrow> string list" where
  "build_reasons k relevance matched_terms =
     (let reasons =
        (if ko_transferability k = ''ORGANIZATIONAL'' then [''organizational_knowledge'']
         else if ko_transferability k = ''REUSABLE'' then [''reusable_knowledge''] else []) @
        (if flt (8 / 10) \<le> relevance then [''high_query_relevance'']
         else if 1 / 2 \<le> relevance then [''moderate_query_relevance''] else []) @
        (if matched_terms \<noteq> [] then [''matched_terms:'' @ join '','' matched_terms] else []) @
        (if flt (9 / 10) \<le> kcf_score (ko_confidence k) then [''high_confidence''] else [])
      in if reasons = [] then [''general_relevance''] else reasons)"

definition title_words :: "KnowledgeObject \<Rightarrow> string list" where
  "title_words k = split_ws (lower (ko_title k))"

definition compute_related_projects :: "KnowledgeObject list \<Rightarrow> knowledge_map \<Rightarrow> (string, pyfloat) dict" where
  "compute_related_projects current_knowledge target_knowledge =
     (if current_knowledge = [] then map (\<lambda>(pid, _). (pid, 0)) target_knowledge
      else
        let current_terms = concat (map title_words current_knowledge)
        in foldl (\<lambda>related (pid, ks).
             let target_terms = concat (map title_words ks)
             in AList.update pid
                  (if ks = [] then 0
                   else if target_terms = [] then 0
                   else fdiv (of_nat (card (set current_terms \<inter> set target_terms))) (of_nat (card (set current_terms \<union> set target_terms)))) related)
             [] target_knowledge)"

definition cross_record :: "(string list \<Rightarrow> string list) \<Rightarrow> string \<Rightarrow> string \<Rightarrow> KnowledgeObject \<Rightarrow> CrossProjectKnowledge" where
  "cross_record it query proj_id k =
     (let (relevance, matched) = score_relevance it k query
      in \<lparr>cpk_knowledge_id = ko_id k, cpk_source_project_id = proj_id, cpk_title = ko_title k, cpk_content = ko_content k,
          cpk_knowledge_type = knowledge_type_value (ko_knowledge_type k), cpk_transferability = ko_transferability k,
          cpk_confidence = kcf_score (ko_confidence k), cpk_relevance_score = relevance, cpk_matched_terms = matched,
          cpk_reasons = build_reasons k relevance matched\<rparr>)"

text \<open>One object of a project: it is skipped, or recorded with its project.\<close>

type_synonym transfers = "CrossProjectKnowledge list \<times> (string, string list) dict \<times> (string, string) dict"

definition passes_filter :: "string list option \<Rightarrow> KnowledgeObject \<Rightarrow> bool" where
  "passes_filter transferability_filter k \<longleftrightarrow>
     is_transferable (ko_transferability k) \<and>
     (case transferability_filter of None \<Rightarrow> True | Some fs \<Rightarrow> fs = [] \<or> ko_transferability k \<in> set fs)"

definition transfer_step :: "(string list \<Rightarrow> string list) \<Rightarrow> string \<Rightarrow> string list option \<Rightarrow> string \<Rightarrow> transfers \<Rightarrow> KnowledgeObject \<Rightarrow> transfers" where
  "transfer_step it query transferability_filter proj_id acc k =
     (case acc of (transferable, by_project, provenance_map) \<Rightarrow>
        if \<not> passes_filter transferability_filter k then acc
        else (transferable @ [cross_record it query proj_id k], dict_append by_project proj_id [ko_id k],
              AList.update (ko_id k) proj_id provenance_map))"

definition collect_transfers :: "(string list \<Rightarrow> string list) \<Rightarrow> string \<Rightarrow> string list option \<Rightarrow> knowledge_map \<Rightarrow> transfers" where
  "collect_transfers it query transferability_filter target_knowledge =
     foldl (\<lambda>(transferable, by_project, provenance_map) (proj_id, ks).
        foldl (transfer_step it query transferability_filter proj_id) (transferable, AList.update proj_id [] by_project, provenance_map) ks)
       ([], [], []) target_knowledge"

definition cross_health :: "knowledge_map \<Rightarrow> CrossProjectHealth" where
  "cross_health target_knowledge =
     (let all = concat (map snd target_knowledge);
          total_all = int (length all);
          total_transferable = int (length (filter (\<lambda>k. is_transferable (ko_transferability k)) all))
      in \<lparr>cph_total_projects = int (length target_knowledge), cph_total_transferable = total_transferable,
          cph_reusable_count = int (length (filter (\<lambda>k. ko_transferability k = ''REUSABLE'') all)),
          cph_organizational_count = int (length (filter (\<lambda>k. ko_transferability k = ''ORGANIZATIONAL'') all)),
          cph_coverage = (if total_all > 0 then fdiv (of_int total_transferable) (of_int total_all) else 0)\<rparr>)"

definition cross_project :: "(string list \<Rightarrow> string list) \<Rightarrow> string \<Rightarrow> string \<Rightarrow> KnowledgeObject list \<Rightarrow> knowledge_map \<Rightarrow> string \<Rightarrow>
    string list option \<Rightarrow> CrossProjectState" where
  "cross_project it now current_project_id current_knowledge target_knowledge query transferability_filter =
     (let (transferable, by_project, provenance_map) = collect_transfers it query transferability_filter target_knowledge
      in \<lparr>cps_project_id = current_project_id, cps_compiled_at = now, cps_projection_version = ''1.0'',
          cps_source_projects = sort (map fst target_knowledge), cps_transferable_knowledge = transferable,
          cps_knowledge_by_project = by_project, cps_provenance_map = provenance_map,
          cps_related_projects = compute_related_projects current_knowledge target_knowledge,
          cps_health = Some (cross_health target_knowledge)\<rparr>)"

section \<open>What is transferred\<close>

lemma transfer_steps:
  "foldl (transfer_step it q f p) (ts, bp, pm) ks =
     (ts @ map (cross_record it q p) (filter (passes_filter f) ks),
      (if filter (passes_filter f) ks = [] then bp else dict_append bp p (map ko_id (filter (passes_filter f) ks))),
      foldl (\<lambda>pm k. AList.update (ko_id k) p pm) pm (filter (passes_filter f) ks))"
proof (induction ks arbitrary: ts bp pm)
  case (Cons k ks)
  have "dict_append (dict_append bp p xs) p ys = dict_append bp p (xs @ ys)" for xs ys
    by (simp add: dict_append_def dict_get_def)
  with Cons show ?case by (auto simp: transfer_step_def)
qed simp

definition passing :: "string list option \<Rightarrow> KnowledgeObject list \<Rightarrow> KnowledgeObject list" where
  "passing f ks = filter (passes_filter f) ks"

text \<open>The loops over projects and objects, project by project.\<close>

lemma collect_transfers_snoc:
  "collect_transfers it q f (ts @ [(p, ks)]) =
     (case collect_transfers it q f ts of (tr, bp, pm) \<Rightarrow>
        (tr @ map (cross_record it q p) (passing f ks),
         AList.update p (map ko_id (passing f ks)) bp,
         foldl (\<lambda>pm k. AList.update (ko_id k) p pm) pm (passing f ks)))"
  by (auto simp: collect_transfers_def transfer_steps passing_def dict_append_def dict_get_def split: prod.split)

lemma collect_transfers_result:
  assumes "wf_dict ts"
  shows "fst (collect_transfers it q f ts) = concat (map (\<lambda>(p, ks). map (cross_record it q p) (passing f ks)) ts)"
    and "fst (snd (collect_transfers it q f ts)) = map (\<lambda>(p, ks). (p, map ko_id (passing f ks))) ts"
  using assms
proof (induction ts rule: rev_induct)
  case Nil
  { case 1 then show ?case by (simp add: collect_transfers_def) next case 2 then show ?case by (simp add: collect_transfers_def) }
next
  case (snoc x ts)
  obtain p ks where x: "x = (p, ks)" by (cases x)
  {
    case 1
    then have "wf_dict ts" by (simp add: wf_dict_def)
    from snoc(1) [OF this] show ?case by (auto simp: x collect_transfers_snoc split: prod.split)
  next
    case 2
    then have wf: "wf_dict ts" and new: "p \<notin> fst ` set ts" by (simp_all add: wf_dict_def x)
    have "p \<notin> fst ` set (map (\<lambda>(p, ks). (p, map ko_id (passing f ks))) ts)" using new by force
    from update_new [OF this] snoc(2) [OF wf] show ?case by (auto simp: x collect_transfers_snoc split: prod.split)
  }
qed

lemma provenance_update:
  "map_of (foldl (\<lambda>pm k. AList.update (ko_id k) p pm) pm ks) i = (if i \<in> ko_id ` set ks then Some p else map_of pm i)"
  by (induction ks rule: rev_induct) auto

text \<open>The project recorded as the source of an id is the last one that offers it.\<close>

lemma collect_transfers_provenance:
  "map_of (snd (snd (collect_transfers it q f ts))) i =
     map_option fst (find (\<lambda>x. i \<in> ko_id ` set (passing f (snd x))) (rev ts))"
proof (induction ts rule: rev_induct)
  case Nil
  then show ?case by (simp add: collect_transfers_def)
next
  case (snoc x ts)
  obtain p ks where x: "x = (p, ks)" by (cases x)
  from snoc show ?case by (auto simp: x collect_transfers_snoc provenance_update split: prod.split)
qed

lemma relevance_range:
  assumes "\<And>xs. mset (it xs) = mset xs"
  shows "0 \<le> fst (score_relevance it k q)" "fst (score_relevance it k q) \<le> 1" "set (snd (score_relevance it k q)) \<subseteq> set (split_ws (lower q))"
proof -
  have s: "set (it xs) = set xs" for xs using assms mset_eq_setD by blast
  show "0 \<le> fst (score_relevance it k q)" "fst (score_relevance it k q) \<le> 1" "set (snd (score_relevance it k q)) \<subseteq> set (split_ws (lower q))"
    by (auto simp: score_relevance_def Let_def s flt_nonneg)
qed

lemma related_entries:
  assumes "wf_dict ts" and "current \<noteq> []"
  shows "compute_related_projects current ts =
    map (\<lambda>(p, ks). (p, jaccard (concat (map title_words current)) (concat (map title_words ks)))) ts"
proof -
  let ?c = "concat (map title_words current)"
  let ?sim = "\<lambda>ks. if ks = [] then 0 else if concat (map title_words ks) = [] then 0
      else fdiv (of_nat (card (set ?c \<inter> set (concat (map title_words ks))))) (of_nat (card (set ?c \<union> set (concat (map title_words ks)))))"
  have sim: "?sim ks = jaccard ?c (concat (map title_words ks))" for ks by (simp add: jaccard_def fdiv_def)
  have "foldl (\<lambda>related (pid, ks). let target_terms = concat (map title_words ks) in AList.update pid (?sim ks) related) [] ts =
      map (\<lambda>(p, ks). (p, ?sim ks)) ts"
    using assms(1)
  proof (induction ts rule: rev_induct)
    case (snoc x ts)
    obtain p ks where x: "x = (p, ks)" by (cases x)
    have wf: "wf_dict ts" and new: "p \<notin> fst ` set (map (\<lambda>(p, ks). (p, ?sim ks)) ts)" using snoc.prems by (force simp: wf_dict_def x)+
    from update_new [OF new] snoc.IH [OF wf] show ?case by (simp add: x)
  qed simp
  then show ?thesis using assms(2) unfolding sim by (simp add: compute_related_projects_def Let_def sim)
qed

text \<open>Property C40: knowledge leaves a project only if it may.  For projects with different ids, the records are exactly the
  objects that are reusable or organizational and pass the filter, project by project and in their order, each with
  the project it comes from; nothing that is local only is offered.  The source of an id is the last project that
  offers it.  Relevance and coverage lie between 0 and 1, similarity of projects is the Jaccard index of
  the words of their titles, and the transferable objects are the reusable and the organizational ones.\<close>

theorem cross_project_correct:
  assumes "wf_dict targets" and "\<And>xs. mset (it xs) = mset xs"
    and "st = cross_project it now pid current targets query f"
  shows "cps_transferable_knowledge st = concat (map (\<lambda>(p, ks). map (cross_record it query p) (passing f ks)) targets) \<and>
    (\<forall>r \<in> set (cps_transferable_knowledge st). is_transferable (cpk_transferability r) \<and> 0 \<le> cpk_relevance_score r \<and> cpk_relevance_score r \<le> 1 \<and>
       (\<exists>ks. (cpk_source_project_id r, ks) \<in> set targets \<and> cpk_knowledge_id r \<in> ko_id ` set ks)) \<and>
    cps_knowledge_by_project st = map (\<lambda>(p, ks). (p, map ko_id (passing f ks))) targets \<and>
    (\<forall>i. map_of (cps_provenance_map st) i = map_option fst (find (\<lambda>x. i \<in> ko_id ` set (passing f (snd x))) (rev targets))) \<and>
    (current \<noteq> [] \<longrightarrow> cps_related_projects st =
       map (\<lambda>(p, ks). (p, jaccard (concat (map title_words current)) (concat (map title_words ks)))) targets) \<and>
    (\<exists>h. cps_health st = Some h \<and> cph_total_transferable h = cph_reusable_count h + cph_organizational_count h \<and>
       0 \<le> cph_coverage h \<and> cph_coverage h \<le> 1) \<and>
    (\<forall>ks. passing f ks = filter (\<lambda>k. ko_transferability k \<in> {''REUSABLE'', ''ORGANIZATIONAL''} \<and>
       (\<forall>levels. f = Some levels \<longrightarrow> levels \<noteq> [] \<longrightarrow> ko_transferability k \<in> set levels)) ks)"
proof -
  obtain tr bp pm where c: "collect_transfers it query f targets = (tr, bp, pm)" by (cases "collect_transfers it query f targets") auto
  have st: "cps_transferable_knowledge st = tr" "cps_knowledge_by_project st = bp" "cps_provenance_map st = pm"
    "cps_related_projects st = compute_related_projects current targets" "cps_health st = Some (cross_health targets)"
    by (simp_all add: assms(3) cross_project_def c)
  have r: "tr = concat (map (\<lambda>(p, ks). map (cross_record it query p) (passing f ks)) targets)"
    "bp = map (\<lambda>(p, ks). (p, map ko_id (passing f ks))) targets"
    using collect_transfers_result [OF assms(1), of it query f] c by simp_all
  have rec: "cpk_transferability (cross_record it query p k) = ko_transferability k" "cpk_source_project_id (cross_record it query p k) = p"
    "cpk_knowledge_id (cross_record it query p k) = ko_id k" "cpk_relevance_score (cross_record it query p k) = fst (score_relevance it k query)" for p k
    by (simp_all add: cross_record_def split: prod.split)
  have "\<forall>r \<in> set tr. is_transferable (cpk_transferability r) \<and> 0 \<le> cpk_relevance_score r \<and> cpk_relevance_score r \<le> 1 \<and>
       (\<exists>ks. (cpk_source_project_id r, ks) \<in> set targets \<and> cpk_knowledge_id r \<in> ko_id ` set ks)"
    unfolding r(1) by (auto simp: rec relevance_range [OF assms(2)] passing_def passes_filter_def)
  moreover have "map_of pm i = map_option fst (find (\<lambda>x. i \<in> ko_id ` set (passing f (snd x))) (rev targets))" for i
    using collect_transfers_provenance [of it query f targets i] c by simp
  moreover have "cph_total_transferable (cross_health targets) = cph_reusable_count (cross_health targets) + cph_organizational_count (cross_health targets)"
  proof -
    have "length (filter (\<lambda>k. is_transferable (ko_transferability k)) ks) =
        length (filter (\<lambda>k. ko_transferability k = ''REUSABLE'') ks) + length (filter (\<lambda>k. ko_transferability k = ''ORGANIZATIONAL'') ks)" for ks
      by (induction ks) (auto simp: is_transferable_def)
    from this [of "concat (map snd targets)"] show ?thesis by (simp add: cross_health_def Let_def)
  qed
  moreover have "0 \<le> cph_coverage (cross_health targets)" "cph_coverage (cross_health targets) \<le> 1"
    by (auto simp: cross_health_def Let_def fdiv_le_one)
  moreover have "passing f ks = filter (\<lambda>k. ko_transferability k \<in> {''REUSABLE'', ''ORGANIZATIONAL''} \<and>
       (\<forall>levels. f = Some levels \<longrightarrow> levels \<noteq> [] \<longrightarrow> ko_transferability k \<in> set levels)) ks" for ks
    by (cases f) (auto simp: passing_def passes_filter_def is_transferable_def intro!: filter_cong)
  ultimately show ?thesis unfolding st using r related_entries [OF assms(1)] by (simp add: st)
qed

theorem cross_project_correct_witness:
  "\<exists>r. cps_transferable_knowledge (cross_project (\<lambda>xs. xs) ''t'' ''p'' [] [(''q'', [(sample_knowledge ''k1'' ''ACTIVE'' [])\<lparr>ko_transferability := ''REUSABLE''\<rparr>,
      (sample_knowledge ''k2'' ''ACTIVE'' [])\<lparr>ko_transferability := ''LOCAL_ONLY''\<rparr>])] [] None) = [r] \<and>
     cpk_knowledge_id r = ''k1'' \<and> cpk_source_project_id r = ''q'' \<and> is_transferable (cpk_transferability r)"
proof -
  let ?t = "[(''q'', [(sample_knowledge ''k1'' ''ACTIVE'' [])\<lparr>ko_transferability := ''REUSABLE''\<rparr>,
      (sample_knowledge ''k2'' ''ACTIVE'' [])\<lparr>ko_transferability := ''LOCAL_ONLY''\<rparr>])]"
  have "wf_dict ?t" by (simp add: wf_dict_def)
  from cross_project_correct [OF this refl refl, of "''t''" "''p''" "[]" "[]" None] show ?thesis
    by (simp add: passing_def passes_filter_def is_transferable_def cross_record_def sample_knowledge_def split: prod.split)
qed

end
