(* ===== verification/Organization.thy ===== *)
theory Organization
  imports CrossProject GraphSearch "HOL-Library.Product_Lexorder"
begin

text \<open>
  What an organization knows (\<open>organization/models.py\<close> and \<open>organization/projection.py\<close>): lineages of transferred
  knowledge, knowledge shared between projects, conflicts between them, invariants that span projects,
  clusters of similar projects, telemetry and health.  A Python set that is only built and then sorted is a
  list without repetition.  A loop over two nested collections is a loop over the list of their pairs.  The
  registry argument of the projection is not used by the code and is left out; \<open>to_dict\<close> methods only render.
\<close>

section \<open>Models (organization/models.py)\<close>

record TransferabilityTelemetry =
  ttl_local_only_count :: int
  ttl_reusable_count :: int
  ttl_organizational_count :: int
  ttl_transfer_attempts :: int
  ttl_transfer_matches :: int
  ttl_acceptance_rate :: pyfloat

record KnowledgeLineage =
  kln_knowledge_id :: string
  kln_origin_project :: string
  kln_current_projects :: "string list"
  kln_transfer_path :: "string list"
  kln_depth :: int

record SharedKnowledge =
  shk_knowledge_id :: string
  shk_title :: string
  shk_knowledge_type :: string
  shk_present_in_projects :: "string list"
  shk_transfer_count :: int

record CrossProjectConflict =
  cpc_conflict_id :: string
  cpc_knowledge_a_id :: string
  cpc_knowledge_b_id :: string
  cpc_project_a :: string
  cpc_project_b :: string
  cpc_knowledge_a_title :: string
  cpc_knowledge_b_title :: string
  cpc_confidence :: pyfloat
  cpc_reasons :: "string list"

record OrganizationHealth =
  ohl_total_projects :: int
  ohl_total_knowledge :: int
  ohl_transferable_knowledge :: int
  ohl_shared_knowledge_count :: int
  ohl_knowledge_adoption_rate :: pyfloat
  ohl_cross_project_conflicts :: int
  ohl_invariant_count :: int
  ohl_lineage_depth_avg :: pyfloat
  ohl_overall :: pyfloat

record OrganizationState =
  ost_compiled_at :: string
  ost_projection_version :: string
  ost_project_ids :: "string list"
  ost_active_lineages :: "(string, KnowledgeLineage) dict"
  ost_shared_knowledge :: "SharedKnowledge list"
  ost_cross_project_conflicts :: "CrossProjectConflict list"
  ost_invariants_across_projects :: "SharedKnowledge list"
  ost_project_clusters :: "string list list"
  ost_transferability_telemetry :: TransferabilityTelemetry
  ost_health :: OrganizationHealth

section \<open>Projection (organization/projection.py)\<close>

type_synonym cross_states = "(string, CrossProjectState) dict"

definition lexical_similarity :: "string \<Rightarrow> string \<Rightarrow> pyfloat" where
  "lexical_similarity a b = jaccard (split_ws (lower a)) (split_ws (lower b))"

definition deterministic_id :: "host \<Rightarrow> string \<Rightarrow> string \<Rightarrow> string" where
  "deterministic_id h a b = take 16 (sha256_hex h (utf8_encode (join ''|'' (sort [a, b]))))"

text \<open>\<open>if k not in d: d[k] = set()\<close> followed by \<open>d[k].add(v)\<close>, for a list of pairs.\<close>

definition dict_add :: "('k, 'v list) dict \<Rightarrow> 'k \<times> 'v \<Rightarrow> ('k, 'v list) dict" where
  "dict_add d kv = AList.update (fst kv) (let vs = dict_get d (fst kv) [] in if snd kv \<in> set vs then vs else vs @ [snd kv]) d"

definition group_pairs :: "('k \<times> 'v) list \<Rightarrow> ('k, 'v list) dict" where
  "group_pairs kvs = foldl dict_add [] kvs"

definition origin_project :: "knowledge_map \<Rightarrow> string \<Rightarrow> string \<Rightarrow> string" where
  "origin_project by_project kid source =
     foldl (\<lambda>origin (proj_id, ks). case find (\<lambda>k. ko_id k = kid \<and> ko_project_id k \<noteq> []) ks of
         None \<Rightarrow> origin
       | Some k \<Rightarrow> ko_project_id k) source by_project"

definition transfer_path :: "cross_states \<Rightarrow> string \<Rightarrow> string \<Rightarrow> string list" where
  "transfer_path states kid origin =
     foldl (\<lambda>path (proj_id, st). case map_of (cps_provenance_map st) kid of
         None \<Rightarrow> path
       | Some source \<Rightarrow> if source \<noteq> last path then path @ [source] else path) [origin] states"

text \<open>The transferred items: those that come from another project than the one that asks.\<close>

definition transferred :: "cross_states \<Rightarrow> (string \<times> CrossProjectKnowledge) list" where
  "transferred states = concat (map (\<lambda>(proj_id, st). map (Pair proj_id)
     (filter (\<lambda>k. cpk_source_project_id k \<noteq> cps_project_id st) (cps_transferable_knowledge st))) states)"

definition compute_active_lineages :: "cross_states \<Rightarrow> knowledge_map \<Rightarrow> (string, KnowledgeLineage) dict" where
  "compute_active_lineages states by_project =
     (let kid_projects = group_pairs (concat (map (\<lambda>(proj_id, k).
            [(cpk_knowledge_id k, proj_id), (cpk_knowledge_id k, cpk_source_project_id k)]) (transferred states)));
          kid_source = foldl (\<lambda>d (proj_id, k). AList.update (cpk_knowledge_id k) (cpk_source_project_id k) d) [] (transferred states)
      in map (\<lambda>(kid, projects).
           let origin = origin_project by_project kid (dict_get kid_source kid []);
               path = transfer_path states kid origin
           in (kid, \<lparr>kln_knowledge_id = kid, kln_origin_project = origin, kln_current_projects = sort projects,
                     kln_transfer_path = path, kln_depth = max 0 (int (length path) - 1)\<rparr>)) kid_projects)"

definition offered :: "cross_states \<Rightarrow> (string \<times> CrossProjectKnowledge) list" where
  "offered states = concat (map (\<lambda>(proj_id, st). map (Pair proj_id) (cps_transferable_knowledge st)) states)"

definition shared_of :: "string \<Rightarrow> string \<times> string \<Rightarrow> string list \<Rightarrow> SharedKnowledge" where
  "shared_of kid meta projects =
     \<lparr>shk_knowledge_id = kid, shk_title = fst meta, shk_knowledge_type = snd meta, shk_present_in_projects = sort projects,
      shk_transfer_count = int (length projects) - 1\<rparr>"

definition detect_shared_knowledge :: "cross_states \<Rightarrow> SharedKnowledge list" where
  "detect_shared_knowledge states =
     (let kid_projects = group_pairs (map (\<lambda>(proj_id, k). (cpk_knowledge_id k, proj_id)) (offered states));
          kid_meta = foldl (\<lambda>d (proj_id, k). AList.update (cpk_knowledge_id k) (cpk_title k, cpk_knowledge_type k) d) [] (offered states)
      in sort_key shk_knowledge_id (map (\<lambda>(kid, projects). shared_of kid (dict_get kid_meta kid ([], [])) projects)
           (filter (\<lambda>(kid, projects). 1 < length projects) kid_projects)))"

text \<open>\<open>d.setdefault(key(x), []).append(x)\<close> for the elements of a list.\<close>

definition index_by :: "('a \<Rightarrow> 'k) \<Rightarrow> 'a list \<Rightarrow> ('k, 'a list) dict" where
  "index_by key xs = foldl (\<lambda>d x. AList.update (key x) (dict_get d (key x) [] @ [x]) d) [] xs"

definition type_title :: "KnowledgeObject \<Rightarrow> string \<times> string" where
  "type_title k = (knowledge_type_value (ko_knowledge_type k), lower (ko_title k))"

definition divergence :: "host \<Rightarrow> string \<Rightarrow> string \<Rightarrow> KnowledgeObject \<Rightarrow> KnowledgeObject \<Rightarrow> CrossProjectConflict list" where
  "divergence h proj_a proj_b k_a k_b =
     (if ko_content k_a = ko_content k_b then []
      else
        let sim = lexical_similarity (ko_content k_a) (ko_content k_b)
        in if sim \<le> flt (3 / 10) then []
           else [\<lparr>cpc_conflict_id = deterministic_id h (ko_id k_a) (ko_id k_b), cpc_knowledge_a_id = ko_id k_a, cpc_knowledge_b_id = ko_id k_b,
                  cpc_project_a = proj_a, cpc_project_b = proj_b, cpc_knowledge_a_title = ko_title k_a, cpc_knowledge_b_title = ko_title k_b,
                  cpc_confidence = sim, cpc_reasons = [''same_title'', ''same_type'', ''content_divergence'']\<rparr>])"

definition conflicts_between :: "host \<Rightarrow> knowledge_map \<Rightarrow> string \<times> string \<Rightarrow> CrossProjectConflict list" where
  "conflicts_between h by_project ab =
     (let (proj_a, proj_b) = ab;
          type_title_index = index_by type_title (dict_get by_project proj_a [])
      in concat (map (\<lambda>k_b. concat (map (\<lambda>k_a. divergence h proj_a proj_b k_a k_b) (dict_get type_title_index (type_title k_b) [])))
           (dict_get by_project proj_b [])))"

definition detect_cross_project_conflicts :: "host \<Rightarrow> knowledge_map \<Rightarrow> CrossProjectConflict list" where
  "detect_cross_project_conflicts h by_project =
     sort_key cpc_conflict_id (concat (map (conflicts_between h by_project) (pairs (sort (map fst by_project)))))"

definition is_spanning :: "KnowledgeObject \<Rightarrow> bool" where
  "is_spanning k \<longleftrightarrow> knowledge_type_value (ko_knowledge_type k) = ''PROJECT_INVARIANT'' \<or> ko_transferability k = ''ORGANIZATIONAL''"

definition title_type :: "KnowledgeObject \<Rightarrow> string \<times> string" where
  "title_type k = (lower (ko_title k), knowledge_type_value (ko_knowledge_type k))"

definition find_spanning_invariants :: "knowledge_map \<Rightarrow> SharedKnowledge list" where
  "find_spanning_invariants by_project =
     (let items = concat (map (\<lambda>(proj_id, ks). map (Pair proj_id) (filter is_spanning ks)) by_project);
          key_projects = group_pairs (map (\<lambda>(proj_id, k). (title_type k, proj_id)) items);
          key_meta = foldl (\<lambda>d (proj_id, k). AList.update (title_type k) (ko_title k, knowledge_type_value (ko_knowledge_type k)) d) [] items
      in sort_key shk_knowledge_id (map (\<lambda>(key, projects). shared_of (fst key) (dict_get key_meta key ([], [])) projects)
           (filter (\<lambda>(key, projects). 1 < length projects) key_projects)))"

definition project_terms :: "knowledge_map \<Rightarrow> string \<Rightarrow> string list" where
  "project_terms by_project pid = concat (map title_words (dict_get by_project pid []))"

definition similar_projects :: "knowledge_map \<Rightarrow> string \<Rightarrow> string \<Rightarrow> bool" where
  "similar_projects by_project a b \<longleftrightarrow>
     (let ta = project_terms by_project a; tb = project_terms by_project b
      in ta \<noteq> [] \<and> tb \<noteq> [] \<and> fdiv (of_nat (card (set ta \<inter> set tb))) (of_nat (card (set ta \<union> set tb))) > 0)"

definition cluster_adj :: "knowledge_map \<Rightarrow> string list \<Rightarrow> (string, string list) dict" where
  "cluster_adj by_project project_ids =
     foldl (\<lambda>adj (a, b). if similar_projects by_project a b then dict_append (dict_append adj a [b]) b [a] else adj)
       (map (\<lambda>p. (p, [])) project_ids) (pairs project_ids)"

definition cluster_from :: "(string, string list) dict \<Rightarrow> string list \<Rightarrow> string set \<Rightarrow> string \<Rightarrow> string list" where
  "cluster_from adj project_ids seen start =
     map fst (bfs_visit project_ids (\<lambda>x. True) (\<lambda>x. map (\<lambda>m. (m, ())) (dict_get adj (fst x) [])) seen [(start, ())])"

definition cluster_projects :: "knowledge_map \<Rightarrow> string list list" where
  "cluster_projects by_project =
     (if length by_project \<le> 1 then map (\<lambda>x. [fst x]) by_project
      else
        let project_ids = sort (map fst by_project)
        in sort_key hd (map sort (components (cluster_from (cluster_adj by_project project_ids) project_ids) {} project_ids)))"

definition compute_telemetry :: "knowledge_map \<Rightarrow> TransferabilityTelemetry" where
  "compute_telemetry by_project =
     (let all = concat (map snd by_project);
          local_only = int (length (filter (\<lambda>k. ko_transferability k = ''LOCAL_ONLY'') all));
          reusable = int (length (filter (\<lambda>k. ko_transferability k = ''REUSABLE'') all));
          org_count = int (length (filter (\<lambda>k. ko_transferability k = ''ORGANIZATIONAL'') all));
          total = local_only + reusable + org_count;
          matches = reusable + org_count
      in \<lparr>ttl_local_only_count = local_only, ttl_reusable_count = reusable, ttl_organizational_count = org_count,
          ttl_transfer_attempts = total, ttl_transfer_matches = matches,
          ttl_acceptance_rate = (if total > 0 then fdiv (of_int matches) (of_int total) else 0)\<rparr>)"

definition empty_telemetry :: TransferabilityTelemetry where
  "empty_telemetry = \<lparr>ttl_local_only_count = 0, ttl_reusable_count = 0, ttl_organizational_count = 0,
     ttl_transfer_attempts = 0, ttl_transfer_matches = 0, ttl_acceptance_rate = 0\<rparr>"

definition organization_health :: "(string, KnowledgeLineage) dict \<Rightarrow> SharedKnowledge list \<Rightarrow> CrossProjectConflict list \<Rightarrow> SharedKnowledge list \<Rightarrow>
    TransferabilityTelemetry \<Rightarrow> int \<Rightarrow> OrganizationHealth" where
  "organization_health lineages shared conflicts invariants telemetry project_count =
     (let transferable = ttl_transfer_matches telemetry;
          shared_count = int (length shared);
          adoption = (if transferable > 0 then fdiv (of_int shared_count) (of_int transferable) else 0);
          depths = map (kln_depth \<circ> snd) lineages;
          avg_depth = (if depths \<noteq> [] then fdiv (of_int (sum_list depths)) (of_nat (length depths)) else 0);
          parts = (if project_count > 0 then [min 1 (fdiv (of_int project_count) 5)] else []) @
                  (if transferable > 0 then [min 1 adoption] else []) @
                  [if conflicts = [] then 1 else max 0 (fsub 1 (fmul (float_of_int (int (length conflicts))) (flt (1 / 10))))] @
                  [min 1 (fdiv (of_nat (length invariants)) (of_int (max 1 project_count)))];
          overall = (if parts \<noteq> [] then fdiv (py_sum parts) (of_nat (length parts)) else 1)
      in \<lparr>ohl_total_projects = project_count, ohl_total_knowledge = ttl_transfer_attempts telemetry, ohl_transferable_knowledge = transferable,
          ohl_shared_knowledge_count = shared_count, ohl_knowledge_adoption_rate = adoption,
          ohl_cross_project_conflicts = int (length conflicts), ohl_invariant_count = int (length invariants),
          ohl_lineage_depth_avg = avg_depth, ohl_overall = overall\<rparr>)"

definition organization_project :: "host \<Rightarrow> string \<Rightarrow> cross_states \<Rightarrow> knowledge_map \<Rightarrow> bool \<Rightarrow> OrganizationState" where
  "organization_project h now states by_project include_telemetry =
     (let project_ids = sort (map fst states);
          lineages = compute_active_lineages states by_project;
          shared = detect_shared_knowledge states;
          conflicts = detect_cross_project_conflicts h by_project;
          invariants = find_spanning_invariants by_project;
          clusters = cluster_projects by_project;
          telemetry = (if include_telemetry then compute_telemetry by_project else empty_telemetry);
          health = organization_health lineages shared conflicts invariants telemetry (int (length project_ids))
      in \<lparr>ost_compiled_at = now, ost_projection_version = ''1.0'', ost_project_ids = project_ids, ost_active_lineages = lineages,
          ost_shared_knowledge = shared, ost_cross_project_conflicts = conflicts, ost_invariants_across_projects = invariants,
          ost_project_clusters = clusters, ost_transferability_telemetry = telemetry, ost_health = health\<rparr>)"

section \<open>Grouping\<close>

lemma group_pairs_snoc: "group_pairs (kvs @ [kv]) = dict_add (group_pairs kvs) kv"
  by (simp add: group_pairs_def)

lemma group_pairs_facts:
  "wf_dict (group_pairs kvs)" "fst ` set (group_pairs kvs) = fst ` set kvs"
  "set (dict_get (group_pairs kvs) k []) = {v. (k, v) \<in> set kvs} \<and> distinct (dict_get (group_pairs kvs) k [])"
proof (induction kvs rule: rev_induct)
  case Nil
  { case 1 show ?case by (simp add: group_pairs_def) next case 2 show ?case by (simp add: group_pairs_def)
    next case 3 show ?case by (simp add: group_pairs_def dict_get_def) }
next
  case (snoc kv kvs)
  {
    case 1
    show ?case using snoc(1) by (simp add: group_pairs_snoc dict_add_def)
  next
    case 2
    show ?case using snoc(2) unfolding group_pairs_snoc dict_add_def by (simp add: dom_update)
  next
    case 3
    show ?case using snoc(3) by (cases kv) (auto simp: group_pairs_snoc dict_add_def dict_get_def Let_def)
  }
qed

lemma group_entries:
  "(k, vs) \<in> set (group_pairs kvs) \<longleftrightarrow> k \<in> fst ` set kvs \<and> vs = dict_get (group_pairs kvs) k []"
proof -
  have wf: "distinct (map fst (group_pairs kvs))" using group_pairs_facts(1) [of kvs] by (simp add: wf_dict_def)
  show ?thesis
  proof
    assume "(k, vs) \<in> set (group_pairs kvs)"
    moreover from this have "k \<in> fst ` set kvs" using group_pairs_facts(2) [of kvs] by force
    ultimately show "k \<in> fst ` set kvs \<and> vs = dict_get (group_pairs kvs) k []" using wf by (simp add: dict_get_def)
  next
    assume r: "k \<in> fst ` set kvs \<and> vs = dict_get (group_pairs kvs) k []"
    then obtain ws where "map_of (group_pairs kvs) k = Some ws"
      using group_pairs_facts(2) [of kvs] by (metis map_of_eq_None_iff not_None_eq)
    with r show "(k, vs) \<in> set (group_pairs kvs)" by (simp add: dict_get_def map_of_SomeD)
  qed
qed

lemma group_sorted: "sort (dict_get (group_pairs kvs) k []) = sorted_list_of_set {v. (k, v) \<in> set kvs}"
  and group_card: "length (dict_get (group_pairs kvs) k []) = card {v. (k, v) \<in> set kvs}"
  for kvs :: "('k \<times> 'v :: linorder) list"
  using group_pairs_facts(3) [of kvs k] by (metis sorted_list_of_set_sort_remdups distinct_remdups_id, metis distinct_card)

text \<open>The last value recorded for a key belongs to one of the items with that key.\<close>

lemma last_recorded:
  assumes "k \<in> f ` set xs"
  shows "\<exists>x \<in> set xs. f x = k \<and> dict_get (foldl (\<lambda>d x. AList.update (f x) (g x) d) [] xs) k z = g x"
  using assms by (induction xs rule: rev_induct) (auto simp: dict_get_def)

section \<open>Shared knowledge\<close>

definition holders :: "cross_states \<Rightarrow> string \<Rightarrow> string set" where
  "holders states kid = {p. \<exists>st. (p, st) \<in> set states \<and> kid \<in> cpk_knowledge_id ` set (cps_transferable_knowledge st)}"

lemma offered_holders: "{v. (kid, v) \<in> set (map (\<lambda>(p, k). (cpk_knowledge_id k, p)) (offered states))} = holders states kid"
  by (force simp: offered_def holders_def)

text \<open>Shared knowledge is exactly the knowledge that at least two projects are offered, each id once and in
  the order of ids, with the sorted list of those projects, one transfer less than projects, and a title and type
  that one of the offers has.\<close>

theorem shared_knowledge_correct:
  "sorted (map shk_knowledge_id (detect_shared_knowledge states)) \<and> distinct (map shk_knowledge_id (detect_shared_knowledge states)) \<and>
   (\<forall>kid. kid \<in> shk_knowledge_id ` set (detect_shared_knowledge states) \<longleftrightarrow> 2 \<le> card (holders states kid)) \<and>
   (\<forall>s \<in> set (detect_shared_knowledge states). shk_present_in_projects s = sorted_list_of_set (holders states (shk_knowledge_id s)) \<and>
      shk_transfer_count s = int (card (holders states (shk_knowledge_id s))) - 1 \<and>
      (\<exists>(p, k) \<in> set (offered states). cpk_knowledge_id k = shk_knowledge_id s \<and> shk_title s = cpk_title k \<and> shk_knowledge_type s = cpk_knowledge_type k))"
proof -
  define kvs where "kvs = map (\<lambda>(p, k). (cpk_knowledge_id k, p)) (offered states)"
  have H: "{v. (kid, v) \<in> set kvs} = holders states kid" for kid unfolding kvs_def by (rule offered_holders)
  have keys: "kid \<in> fst ` set kvs \<longleftrightarrow> kid \<in> (\<lambda>x. cpk_knowledge_id (snd x)) ` set (offered states)" for kid
    by (force simp: kvs_def)
  define meta where "meta = foldl (\<lambda>d (p, k). AList.update (cpk_knowledge_id k) (cpk_title k, cpk_knowledge_type k) d) [] (offered states)"
  define gs where "gs = filter (\<lambda>(kid, ps). 1 < length ps) (group_pairs kvs)"
  define f where "f = (\<lambda>(kid, ps). shared_of kid (dict_get meta kid ([], [])) ps)"
  have r: "detect_shared_knowledge states = sort_key shk_knowledge_id (map f gs)"
    by (simp add: detect_shared_knowledge_def meta_def gs_def f_def kvs_def)
  have id: "shk_knowledge_id (f x) = fst x" for x by (simp add: f_def shared_of_def split: prod.split)
  have gs: "(kid, ps) \<in> set gs \<longleftrightarrow> 2 \<le> card (holders states kid) \<and> ps = dict_get (group_pairs kvs) kid []" for kid ps
  proof -
    have "2 \<le> card (holders states kid) \<Longrightarrow> kid \<in> fst ` set kvs"
      using H [of kid] by (metis (mono_tags, lifting) card.empty empty_Collect_eq fst_conv image_eqI not_numeral_le_zero)
    then show ?thesis unfolding gs_def by (auto simp: group_entries group_card [of kvs] H)
  qed
  have "distinct (map fst gs)" using group_pairs_facts(1) [of kvs] by (simp add: gs_def wf_dict_def distinct_map_filter)
  then have "distinct (map shk_knowledge_id (map f gs))" by (simp add: id comp_def)
  moreover have "mset (map shk_knowledge_id (detect_shared_knowledge states)) = mset (map shk_knowledge_id (map f gs))" by (simp add: r multiset.map_comp)
  ultimately have "distinct (map shk_knowledge_id (detect_shared_knowledge states))" using mset_eq_imp_distinct_iff by blast
  moreover have "kid \<in> shk_knowledge_id ` set (detect_shared_knowledge states) \<longleftrightarrow> 2 \<le> card (holders states kid)" for kid
  proof -
    have "shk_knowledge_id ` set (detect_shared_knowledge states) = fst ` set gs" by (simp add: r image_image id)
    moreover have "kid \<in> fst ` set gs \<longleftrightarrow> (\<exists>ps. (kid, ps) \<in> set gs)" by force
    ultimately show ?thesis by (simp add: gs)
  qed
  moreover have "shk_present_in_projects s = sorted_list_of_set (holders states (shk_knowledge_id s)) \<and>
      shk_transfer_count s = int (card (holders states (shk_knowledge_id s))) - 1 \<and>
      (\<exists>(p, k) \<in> set (offered states). cpk_knowledge_id k = shk_knowledge_id s \<and> shk_title s = cpk_title k \<and> shk_knowledge_type s = cpk_knowledge_type k)"
    if "s \<in> set (detect_shared_knowledge states)" for s
  proof -
    from that obtain kid ps where s: "s = f (kid, ps)" "(kid, ps) \<in> set gs" unfolding r by auto
    then have ps: "ps = dict_get (group_pairs kvs) kid []" "2 \<le> card (holders states kid)" using gs by auto
    have "kid \<in> (\<lambda>x. cpk_knowledge_id (snd x)) ` set (offered states)"
      using s(2) unfolding gs_def keys [symmetric] by (auto simp: group_entries)
    from last_recorded [OF this, of "\<lambda>x. (cpk_title (snd x), cpk_knowledge_type (snd x))" "([], [])"]
    obtain x where x: "x \<in> set (offered states)" "cpk_knowledge_id (snd x) = kid"
      "dict_get meta kid ([], []) = (cpk_title (snd x), cpk_knowledge_type (snd x))"
      by (auto simp: meta_def split_beta')
    show ?thesis using x
      by (auto simp: s(1) f_def shared_of_def ps(1) group_sorted [of kvs] group_card [of kvs] H intro!: bexI [of _ x])
  qed
  ultimately show ?thesis by (simp add: r)
qed

section \<open>Conflicts\<close>

lemma get_index_by: "dict_get (index_by key xs) k [] = filter (\<lambda>x. key x = k) xs"
proof (induction xs rule: rev_induct)
  case Nil
  show ?case by (simp add: index_by_def dict_get_def)
next
  case (snoc x xs)
  then show ?case by (auto simp: index_by_def dict_get_def)
qed

lemma set_pairs_sorted:
  fixes xs :: "('a :: linorder) list"
  assumes "sorted xs" and "distinct xs"
  shows "set (pairs xs) = {(a, b). a \<in> set xs \<and> b \<in> set xs \<and> a < b}"
  using assms
proof (induction xs)
  case (Cons x xs)
  then have "\<forall>y \<in> set xs. x < y" by (auto simp: order.strict_iff_order)
  with Cons show ?case by (auto dest: less_asym)
qed simp

lemma deterministic_id_commute: "deterministic_id h a b = deterministic_id h b a"
  by (simp add: deterministic_id_def insort_is_Cons) (metis insort_key.simps linorder_le_cases order_antisym)

text \<open>The share of words that two texts have in common, without the guard of the code for texts without words.\<close>

definition word_share :: "string \<Rightarrow> string \<Rightarrow> pyfloat" where
  "word_share a b =
     fdiv (of_nat (card (set (split_ws (lower a)) \<inter> set (split_ws (lower b))))) (of_nat (card (set (split_ws (lower a)) \<union> set (split_ws (lower b)))))"

lemma lexical_share: "lexical_similarity a b = word_share a b"
  by (auto simp: lexical_similarity_def jaccard_def word_share_def fdiv_def)

lemma type_title_eq: "type_title k = type_title l \<longleftrightarrow> ko_knowledge_type k = ko_knowledge_type l \<and> lower (ko_title k) = lower (ko_title l)"
proof -
  have "knowledge_type_value s = knowledge_type_value u \<longleftrightarrow> s = u" for s u by (cases s; cases u) simp_all
  then show ?thesis by (simp add: type_title_def)
qed

lemma set_divergence:
  "c \<in> set (divergence h p q k l) \<longleftrightarrow> ko_content k \<noteq> ko_content l \<and> flt (3 / 10) < word_share (ko_content k) (ko_content l) \<and>
     c = \<lparr>cpc_conflict_id = take 16 (sha256_hex h (utf8_encode (join ''|'' (sort [ko_id k, ko_id l])))),
          cpc_knowledge_a_id = ko_id k, cpc_knowledge_b_id = ko_id l, cpc_project_a = p, cpc_project_b = q,
          cpc_knowledge_a_title = ko_title k, cpc_knowledge_b_title = ko_title l,
          cpc_confidence = word_share (ko_content k) (ko_content l),
          cpc_reasons = [''same_title'', ''same_type'', ''content_divergence'']\<rparr>"
  by (auto simp: divergence_def Let_def lexical_share deterministic_id_def)

lemma set_conflicts:
  assumes "wf_dict by_project"
  shows "c \<in> set (detect_cross_project_conflicts h by_project) \<longleftrightarrow>
      (\<exists>p q ks ls k l. (p, ks) \<in> set by_project \<and> (q, ls) \<in> set by_project \<and> p < q \<and> k \<in> set ks \<and> l \<in> set ls \<and> type_title k = type_title l \<and>
         c \<in> set (divergence h p q k l))" (is "?L \<longleftrightarrow> ?R")
proof
  have get: "dict_get by_project p [] = ks" if "(p, ks) \<in> set by_project" for p ks
    using assms that by (simp add: dict_get_def wf_dict_def)
  have keys: "sorted (sort (map fst by_project))" "distinct (sort (map fst by_project))" using assms by (simp_all add: wf_dict_def)
  {
    assume ?L
    then obtain p q where pq: "p \<in> fst ` set by_project" "q \<in> fst ` set by_project" "p < q" "c \<in> set (conflicts_between h by_project (p, q))"
      unfolding detect_cross_project_conflicts_def by (auto simp: set_pairs_sorted [OF keys])
    then obtain ks ls where "(p, ks) \<in> set by_project" "(q, ls) \<in> set by_project" by auto
    moreover from pq(4) obtain k l where "k \<in> set (dict_get by_project p [])" "l \<in> set (dict_get by_project q [])" "type_title k = type_title l"
      "c \<in> set (divergence h p q k l)"
      unfolding conflicts_between_def by (auto simp: get_index_by)
    ultimately show ?R using pq(3) get by blast
  next
    assume ?R
    then obtain p q ks ls k l where *: "(p, ks) \<in> set by_project" "(q, ls) \<in> set by_project" "p < q" "k \<in> set ks" "l \<in> set ls"
      "type_title k = type_title l" "c \<in> set (divergence h p q k l)" by blast
    then have "c \<in> set (conflicts_between h by_project (p, q))"
      unfolding conflicts_between_def by (auto simp: get_index_by get)
    moreover have "(p, q) \<in> set (pairs (sort (map fst by_project)))" using * by (force simp: set_pairs_sorted [OF keys])
    ultimately show ?L unfolding detect_cross_project_conflicts_def by auto
  }
qed

text \<open>Property C39: conflicts between projects.  The list is sorted by id and holds exactly the following records: for two
  objects of different projects that agree in type and in title up to case, differ in content and have contents that
  share more than three tenths of their words, the record with the digest of both ids, the ids and titles of both
  with the smaller project first, and that share as its confidence, which is at most 1.\<close>

theorem cross_project_conflicts_correct:
  assumes "wf_dict by_project"
  shows "sorted (map cpc_conflict_id (detect_cross_project_conflicts h by_project)) \<and>
    (\<forall>c. c \<in> set (detect_cross_project_conflicts h by_project) \<longleftrightarrow>
       (\<exists>p q ks ls k l. (p, ks) \<in> set by_project \<and> (q, ls) \<in> set by_project \<and> p < q \<and> k \<in> set ks \<and> l \<in> set ls \<and>
          ko_knowledge_type k = ko_knowledge_type l \<and> lower (ko_title k) = lower (ko_title l) \<and>
          ko_content k \<noteq> ko_content l \<and> flt (3 / 10) < word_share (ko_content k) (ko_content l) \<and>
          c = \<lparr>cpc_conflict_id = take 16 (sha256_hex h (utf8_encode (join ''|'' (sort [ko_id k, ko_id l])))),
               cpc_knowledge_a_id = ko_id k, cpc_knowledge_b_id = ko_id l, cpc_project_a = p, cpc_project_b = q,
               cpc_knowledge_a_title = ko_title k, cpc_knowledge_b_title = ko_title l,
               cpc_confidence = word_share (ko_content k) (ko_content l),
               cpc_reasons = [''same_title'', ''same_type'', ''content_divergence'']\<rparr>)) \<and>
    (\<forall>c \<in> set (detect_cross_project_conflicts h by_project). cpc_project_a c < cpc_project_b c \<and> flt (3 / 10) < cpc_confidence c \<and> cpc_confidence c \<le> 1)"
proof -
  have "word_share a b \<le> 1" for a b unfolding lexical_share [symmetric] lexical_similarity_def by (rule jaccard_range(2))
  then have range: "cpc_project_a c < cpc_project_b c \<and> flt (3 / 10) < cpc_confidence c \<and> cpc_confidence c \<le> 1"
    if "c \<in> set (detect_cross_project_conflicts h by_project)" for c
    using that unfolding set_conflicts [OF assms] set_divergence by auto
  note mem = set_conflicts [OF assms, of _ h, unfolded set_divergence type_title_eq conj_assoc]
  show ?thesis using mem range by (intro conjI ballI allI) (simp_all add: detect_cross_project_conflicts_def)
qed

section \<open>Clusters\<close>

text \<open>The projects linked because their titles have words in common.\<close>

definition project_links :: "knowledge_map \<Rightarrow> (string \<times> string) set" where
  "project_links by_project = {(a, b). a \<in> fst ` set by_project \<and> b \<in> fst ` set by_project \<and> a \<noteq> b \<and> similar_projects by_project a b}"

lemma similar_projects_commute: "similar_projects d a b = similar_projects d b a"
  by (simp add: similar_projects_def Let_def Int_commute Un_commute conj_ac)

lemma link_all:
  "set (dict_get (foldl (\<lambda>adj (a, b). if S a b then dict_append (dict_append adj a [b]) b [a] else adj) d ps) n []) =
     set (dict_get d n []) \<union> {m. (n, m) \<in> set ps \<and> S n m \<or> (m, n) \<in> set ps \<and> S m n}"
  by (induction ps arbitrary: d) (auto simp: dict_append_def dict_get_def split: if_splits)

lemma get_empty_lists: "dict_get (map (\<lambda>p. (p, [])) ps) n [] = []"
  by (auto simp: dict_get_def split: option.split dest: map_of_SomeD)

lemma set_cluster_adj:
  assumes "wf_dict d"
  shows "set (dict_get (cluster_adj d (sort (map fst d))) n []) = project_links d `` {n}"
proof -
  have keys: "sorted (sort (map fst d))" "distinct (sort (map fst d))" using assms by (simp_all add: wf_dict_def)
  show ?thesis unfolding cluster_adj_def link_all get_empty_lists set_pairs_sorted [OF keys]
    by (auto simp: project_links_def similar_projects_commute [of d n] dest: less_imp_neq)
qed

definition adj_rel :: "knowledge_map \<Rightarrow> (string \<times> string) set" where
  "adj_rel d = {(a, b). b \<in> set (dict_get (cluster_adj d (sort (map fst d))) a [])}"

lemma set_pairs_subset: "(a, b) \<in> set (pairs xs) \<Longrightarrow> a \<in> set xs \<and> b \<in> set xs"
  by (induction xs) auto

lemma adj_rel_pairs:
  "adj_rel d = {(n, m). (n, m) \<in> set (pairs (sort (map fst d))) \<and> similar_projects d n m \<or> (m, n) \<in> set (pairs (sort (map fst d))) \<and> similar_projects d m n}"
  unfolding adj_rel_def cluster_adj_def link_all get_empty_lists by simp

interpretation near_projects: reachability "sort (map fst d)" "\<lambda>x. filter (\<lambda>y. True) (map (\<lambda>m. (m, ())) (dict_get (cluster_adj d (sort (map fst d))) (fst x) []))"
    "adj_rel d" UNIV for d
proof (unfold_locales, goal_cases)
  case (1 x)
  show ?case by (auto simp: adj_rel_def image_image)
next
  case 2
  show ?case by (auto simp: adj_rel_pairs dest!: set_pairs_subset)
qed simp

interpretation project_clusters: component_search "cluster_from (cluster_adj d (sort (map fst d))) (sort (map fst d))" "adj_rel d" UNIV for d
proof (unfold_locales, goal_cases)
  case (1 V n)
  then show ?case using near_projects.reach [OF 1] by (simp add: cluster_from_def bfs_visit_mark)
next
  case 2
  show ?case by (auto simp: adj_rel_pairs sym_def)
qed

lemma adj_rel_links: "wf_dict d \<Longrightarrow> adj_rel d = project_links d"
  by (auto simp: adj_rel_def set_cluster_adj)

text \<open>Clusters of projects.  Every project lies in exactly one cluster; the clusters are the classes of projects
  connected through pairs whose titles have words in common, each sorted, and listed by their first project.\<close>

theorem cluster_projects_correct:
  assumes "wf_dict by_project"
  shows "set ` set (cluster_projects by_project) = (\<lambda>p. (project_links by_project)\<^sup>* `` {p}) ` fst ` set by_project \<and>
    distinct (map set (cluster_projects by_project)) \<and> (\<forall>c \<in> set (cluster_projects by_project). sorted c \<and> c \<noteq> []) \<and>
    sorted (map hd (cluster_projects by_project))"
proof (cases "length by_project \<le> 1")
  case True
  then consider "by_project = []" | p ks where "by_project = [(p, ks)]" by (cases by_project) auto
  then show ?thesis
  proof cases
    case 2
    then have "project_links by_project = {}" by (auto simp: project_links_def)
    then show ?thesis by (simp add: 2 cluster_projects_def)
  qed (simp add: cluster_projects_def)
next
  case False
  let ?ids = "sort (map fst by_project)"
  define cs where "cs = components (cluster_from (cluster_adj by_project ?ids) ?ids) {} ?ids"
  have r: "cluster_projects by_project = sort_key hd (map sort cs)" using False by (simp add: cluster_projects_def cs_def Let_def)
  have cs: "set ` set cs = (\<lambda>p. (project_links by_project)\<^sup>* `` {p}) ` fst ` set by_project" "distinct (map set cs)"
    using project_clusters.components_classes [of by_project "{}" ?ids] by (simp_all add: cs_def adj_rel_links [OF assms])
  have sets: "set ` set (cluster_projects by_project) = set ` set cs" by (simp add: r image_image)
  have "mset (map set (cluster_projects by_project)) = mset (map set cs)" by (simp add: r multiset.map_comp comp_def)
  then have "distinct (map set (cluster_projects by_project))" using cs(2) mset_eq_imp_distinct_iff by blast
  moreover have "{} \<notin> set ` set cs" unfolding cs(1) by auto
  then have "c \<noteq> []" if "c \<in> set (cluster_projects by_project)" for c using that sets by (metis empty_set image_eqI)
  ultimately show ?thesis unfolding sets cs(1) by (auto simp: r)
qed

section \<open>Examples\<close>

definition sample_organization :: knowledge_map where
  "sample_organization = [(''p'', [(sample_knowledge ''k1'' ''ACTIVE'' [])\<lparr>ko_title := ''Store'', ko_content := ''use a''\<rparr>]),
     (''q'', [(sample_knowledge ''k2'' ''ACTIVE'' [])\<lparr>ko_title := ''store'', ko_content := ''use b''\<rparr>])]"

lemma sample_organization_wf: "wf_dict sample_organization"
  by (simp add: sample_organization_def wf_dict_def)

lemma sample_similarity: "flt (3 / 10) < lexical_similarity ''use a'' ''use b''"
  by code_simp

theorem cross_project_conflicts_correct_witness:
  "\<exists>c \<in> set (detect_cross_project_conflicts sample_host sample_organization). cpc_project_a c = ''p'' \<and> cpc_project_b c = ''q'' \<and>
     cpc_knowledge_a_id c = ''k1'' \<and> cpc_knowledge_b_id c = ''k2'' \<and> cpc_confidence c = word_share ''use a'' ''use b''"
proof -
  let ?k = "(sample_knowledge ''k1'' ''ACTIVE'' [])\<lparr>ko_title := ''Store'', ko_content := ''use a''\<rparr>"
    and ?l = "(sample_knowledge ''k2'' ''ACTIVE'' [])\<lparr>ko_title := ''store'', ko_content := ''use b''\<rparr>"
  let ?c = "\<lparr>cpc_conflict_id = take 16 (sha256_hex sample_host (utf8_encode (join ''|'' (sort [ko_id ?k, ko_id ?l])))),
    cpc_knowledge_a_id = ko_id ?k, cpc_knowledge_b_id = ko_id ?l, cpc_project_a = ''p'', cpc_project_b = ''q'',
    cpc_knowledge_a_title = ko_title ?k, cpc_knowledge_b_title = ko_title ?l,
    cpc_confidence = word_share (ko_content ?k) (ko_content ?l),
    cpc_reasons = [''same_title'', ''same_type'', ''content_divergence'']\<rparr>"
  have "lower (ko_title ?k) = lower (ko_title ?l)" by code_simp
  moreover have "(''p'', [?k]) \<in> set sample_organization" "(''q'', [?l]) \<in> set sample_organization" "''p'' < ''q''"
    by (simp_all add: sample_organization_def less_list_code)
  moreover have "ko_content ?k \<noteq> ko_content ?l" "flt (3 / 10) < word_share (ko_content ?k) (ko_content ?l)"
    "ko_knowledge_type ?k = ko_knowledge_type ?l" "?k \<in> set [?k]" "?l \<in> set [?l]"
    using sample_similarity by (simp_all add: lexical_share sample_knowledge_def)
  ultimately have "?c \<in> set (detect_cross_project_conflicts sample_host sample_organization)"
    using cross_project_conflicts_correct [OF sample_organization_wf, of sample_host] by blast
  then show ?thesis by (rule rev_bexI) (simp add: sample_knowledge_def)
qed

end
