(* ===== verification/OrganizationGraph.thy ===== *)
theory OrganizationGraph
  imports Organization
begin

text \<open>
  The graph of an organization (\<open>organization/graph.py\<close>): projects as nodes, transfers, shared knowledge,
  conflicts and clusters as edges, with the metrics and the searches on it.  The power of floats in the overall
  health is the C library's and an argument (\<open>fpow\<close>).  \<open>to_dict\<close> and \<open>from_dict\<close>, which render
  and read the fields, are left out.
\<close>

section \<open>State\<close>

datatype OrganizationRelationType = TRANSFERRED_TO | SHARED_BY | CONFLICTS_WITH | IN_CLUSTER | DERIVES_FROM

record OrganizationNode =
  ond_project_id :: string
  ond_name :: string
  ond_knowledge_count :: int
  ond_transferable_count :: int
  ond_shared_count :: int
  ond_conflict_count :: int
  ond_is_cluster_center :: bool
  ond_health_score :: pyfloat

record OrganizationEdge =
  oe_source :: string
  oe_target :: string
  oe_relation_type :: OrganizationRelationType
  oe_weight :: pyfloat
  oe_confidence :: pyfloat

record OrganizationGraphHealth =
  ogh_connectivity :: pyfloat
  ogh_density :: pyfloat
  ogh_conflict_density :: pyfloat
  ogh_cluster_cohesion :: pyfloat
  ogh_producer_consumer_balance :: pyfloat
  ogh_overall :: pyfloat

type_synonym org_adj = "(string, OrganizationEdge list) dict"

record OrganizationGraphState =
  og_compiled_at :: string
  og_projection_version :: string
  og_nodes :: "(string, OrganizationNode) dict"
  og_edges :: "OrganizationEdge list"
  og_adjacency :: org_adj
  og_reverse_adjacency :: org_adj
  og_clusters :: "string list list"
  og_density :: pyfloat
  og_conflicted_nodes :: "string list"
  og_edges_by_relation :: "(OrganizationRelationType, OrganizationEdge list) dict"
  og_knowledge_flow_balance :: "(string, int) dict"
  og_knowledge_producers :: "(string \<times> pyfloat) list"
  og_knowledge_consumers :: "(string \<times> pyfloat) list"
  og_contradiction_hotspots :: "(string \<times> pyfloat) list"
  og_health :: OrganizationGraphHealth

section \<open>Nodes and edges\<close>

text \<open>\<open>d[k] = d.get(k, 0) + 1\<close> for every element of a list.\<close>

definition tally :: "'k list \<Rightarrow> ('k, int) dict" where
  "tally ks = foldl (\<lambda>d k. AList.update k (dict_get d k 0 + 1) d) [] ks"

definition lineages :: "OrganizationState \<Rightarrow> KnowledgeLineage list" where
  "lineages st = map snd (ost_active_lineages st)"

definition build_nodes :: "OrganizationState \<Rightarrow> (string, OrganizationNode) dict" where
  "build_nodes st =
     (let knowledge_counts = tally (concat (map kln_current_projects (lineages st)));
          transferable_counts = tally (filter (\<lambda>p. p \<noteq> []) (map kln_origin_project (lineages st)));
          shared_counts = tally (concat (map shk_present_in_projects (ost_shared_knowledge st)));
          conflict_counts = tally (concat (map (\<lambda>c. [cpc_project_a c, cpc_project_b c]) (ost_cross_project_conflicts st)));
          cluster_centers = map hd (filter (\<lambda>c. c \<noteq> []) (ost_project_clusters st))
      in foldl (\<lambda>nodes pid. AList.update pid
           \<lparr>ond_project_id = pid, ond_name = pid, ond_knowledge_count = dict_get knowledge_counts pid 0,
            ond_transferable_count = dict_get transferable_counts pid 0, ond_shared_count = dict_get shared_counts pid 0,
            ond_conflict_count = dict_get conflict_counts pid 0, ond_is_cluster_center = (pid \<in> set cluster_centers),
            ond_health_score = ohl_overall (ost_health st)\<rparr> nodes) [] (ost_project_ids st))"

definition transfer_agg :: "OrganizationState \<Rightarrow> (string \<times> string, int) dict" where
  "transfer_agg st = tally (concat (map (\<lambda>l. map (Pair (kln_origin_project l))
     (filter (\<lambda>p. p \<noteq> kln_origin_project l) (kln_current_projects l))) (lineages st)))"

definition shared_agg :: "OrganizationState \<Rightarrow> (string \<times> string, int) dict" where
  "shared_agg st = tally (concat (map (\<lambda>s. pairs (sort (shk_present_in_projects s))) (ost_shared_knowledge st)))"

definition conflict_agg :: "OrganizationState \<Rightarrow> (string \<times> string, int \<times> pyfloat) dict" where
  "conflict_agg st =
     foldl (\<lambda>d c.
        let pair = (min (cpc_project_a c) (cpc_project_b c), max (cpc_project_a c) (cpc_project_b c));
            (count, total) = dict_get d pair (0, 0)
        in AList.update pair (count + 1, fadd total (cpc_confidence c)) d) [] (ost_cross_project_conflicts st)"

definition project_knowledge_sets :: "OrganizationState \<Rightarrow> (string, string list) dict" where
  "project_knowledge_sets st =
     group_pairs (concat (map (\<lambda>(kid, l).
        (if kln_origin_project l \<noteq> [] then [(kln_origin_project l, kid)] else []) @ map (\<lambda>p. (p, kid)) (kln_current_projects l))
       (ost_active_lineages st)))"

definition both_directions :: "string \<Rightarrow> string \<Rightarrow> OrganizationRelationType \<Rightarrow> pyfloat \<Rightarrow> pyfloat \<Rightarrow> OrganizationEdge list" where
  "both_directions a b rt weight confidence =
     [\<lparr>oe_source = a, oe_target = b, oe_relation_type = rt, oe_weight = weight, oe_confidence = confidence\<rparr>,
      \<lparr>oe_source = b, oe_target = a, oe_relation_type = rt, oe_weight = weight, oe_confidence = confidence\<rparr>]"

definition transfer_edges :: "OrganizationState \<Rightarrow> OrganizationEdge list" where
  "transfer_edges st = map (\<lambda>((src, tgt), count).
     \<lparr>oe_source = src, oe_target = tgt, oe_relation_type = TRANSFERRED_TO, oe_weight = float_of_int count, oe_confidence = 1\<rparr>) (transfer_agg st)"

definition shared_edges :: "OrganizationState \<Rightarrow> OrganizationEdge list" where
  "shared_edges st = concat (map (\<lambda>((src, tgt), count). both_directions src tgt SHARED_BY (float_of_int count) 1) (shared_agg st))"

definition conflict_edges :: "OrganizationState \<Rightarrow> OrganizationEdge list" where
  "conflict_edges st = concat (map (\<lambda>((pa, pb), (count, total)).
     both_directions pa pb CONFLICTS_WITH (of_int count) (if count > 0 then fdiv total (float_of_int count) else 1)) (conflict_agg st))"

definition cluster_edges :: "OrganizationState \<Rightarrow> OrganizationEdge list" where
  "cluster_edges st = concat (map (\<lambda>(a, b).
     let a_kids = dict_get (project_knowledge_sets st) a []; b_kids = dict_get (project_knowledge_sets st) b [];
         intersection = int (card (set a_kids \<inter> set b_kids));
         union = int (length a_kids) + int (length b_kids) - intersection
     in both_directions a b IN_CLUSTER (float_of_int intersection) (if union > 0 then fdiv (of_int intersection) (of_int union) else 0))
     (concat (map pairs (ost_project_clusters st))))"

definition build_edges :: "OrganizationState \<Rightarrow> OrganizationEdge list" where
  "build_edges st =
     filter (\<lambda>e. oe_source e \<in> set (ost_project_ids st) \<and> oe_target e \<in> set (ost_project_ids st))
       (transfer_edges st @ shared_edges st @ conflict_edges st @ cluster_edges st)"

text \<open>Lists are only extended for nodes that are keys.\<close>

definition org_adjacency :: "(OrganizationEdge \<Rightarrow> string) \<Rightarrow> string list \<Rightarrow> OrganizationEdge list \<Rightarrow> org_adj" where
  "org_adjacency endpoint ids edges =
     foldl (\<lambda>d e. if dict_has d (endpoint e) then dict_append d (endpoint e) [e] else d) (map (\<lambda>p. (p, [])) ids) edges"

section \<open>Metrics\<close>

definition compute_density :: "nat \<Rightarrow> nat \<Rightarrow> pyfloat" where
  "compute_density n e = (if n \<le> 1 then 0 else fdiv (of_nat e) (of_nat (n * (n - 1))))"

definition compute_edges_by_relation :: "OrganizationEdge list \<Rightarrow> (OrganizationRelationType, OrganizationEdge list) dict" where
  "compute_edges_by_relation edges = index_by oe_relation_type edges"

text \<open>\<open>int(x)\<close> of a float.\<close>

definition py_trunc :: "pyfloat \<Rightarrow> int" where
  "py_trunc x = (if 0 \<le> x then \<lfloor>x\<rfloor> else \<lceil>x\<rceil>)"

definition transfer_weight :: "OrganizationEdge list \<Rightarrow> int" where
  "transfer_weight es = sum_list (map (py_trunc \<circ> oe_weight) (filter (\<lambda>e. oe_relation_type e = TRANSFERRED_TO) es))"

definition compute_flow_balance :: "org_adj \<Rightarrow> org_adj \<Rightarrow> (string, int) dict" where
  "compute_flow_balance adjacency reverse_adjacency =
     map (\<lambda>(pid, es). (pid, transfer_weight es - transfer_weight (dict_get reverse_adjacency pid []))) adjacency"

definition compute_conflicted_nodes :: "OrganizationState \<Rightarrow> string list" where
  "compute_conflicted_nodes st = remdups (concat (map (\<lambda>c. [cpc_project_a c, cpc_project_b c]) (ost_cross_project_conflicts st)))"

text \<open>\<open>sorted(xs, key=second, reverse=True)\<close>, which keeps the order of equal keys.\<close>

definition sort_desc :: "(string \<times> pyfloat) list \<Rightarrow> (string \<times> pyfloat) list" where
  "sort_desc xs = sort_key (\<lambda>x. - snd x) xs"

definition hotspot_scores :: "OrganizationEdge list \<Rightarrow> (string, pyfloat) dict" where
  "hotspot_scores es =
     foldl (\<lambda>d e.
        let d = AList.update (oe_source e) (fadd (dict_get d (oe_source e) 0) (oe_weight e)) d
        in AList.update (oe_target e) (fadd (dict_get d (oe_target e) 0) (oe_weight e)) d) [] es"

definition compute_derived_metrics :: "(OrganizationRelationType, OrganizationEdge list) dict \<Rightarrow> (string, int) dict \<Rightarrow>
    (string \<times> pyfloat) list \<times> (string \<times> pyfloat) list \<times> (string \<times> pyfloat) list" where
  "compute_derived_metrics edges_by_relation flow_balance =
     (sort_desc (map (\<lambda>(pid, b). (pid, float_of_int b)) (filter (\<lambda>(pid, b). b > 0) flow_balance)),
      sort_desc (map (\<lambda>(pid, b). (pid, float_of_int \<bar>b\<bar>)) (filter (\<lambda>(pid, b). b < 0) flow_balance)),
      sort_desc (hotspot_scores (dict_get edges_by_relation CONFLICTS_WITH [])))"

definition cohesion_ratio :: "OrganizationEdge list \<Rightarrow> string list list \<Rightarrow> pyfloat" where
  "cohesion_ratio edges clusters =
     (if edges = [] then 0
      else fdiv (of_nat (length (filter (\<lambda>e. list_ex (\<lambda>c. oe_source e \<in> set c \<and> oe_target e \<in> set c) clusters) edges))) (of_nat (length edges)))"

text \<open>The entries for the targets of the edges of a node that satisfy a condition.\<close>

definition along :: "(OrganizationEdge \<Rightarrow> bool) \<Rightarrow> org_adj \<Rightarrow> string \<times> unit \<Rightarrow> (string \<times> unit) list" where
  "along P adjacency x = map (\<lambda>e. (oe_target e, ())) (filter P (dict_get adjacency (fst x) []))"

definition all_targets :: "org_adj \<Rightarrow> string list" where
  "all_targets adjacency = map oe_target (concat (map snd adjacency))"

definition org_bfs :: "(OrganizationEdge \<Rightarrow> bool) \<Rightarrow> org_adj \<Rightarrow> string \<Rightarrow> string list" where
  "org_bfs P adjacency start = map fst (bfs_mark (all_targets adjacency) (along P adjacency) {start} [(start, ())])"

definition graph_health :: "(pyfloat \<Rightarrow> pyfloat \<Rightarrow> pyfloat) \<Rightarrow> string list \<Rightarrow> OrganizationEdge list \<Rightarrow> org_adj \<Rightarrow> string list list \<Rightarrow>
    string list \<Rightarrow> (string, int) dict \<Rightarrow> OrganizationGraphHealth" where
  "graph_health fpow ids edges adjacency clusters conflicted_nodes flow_balance =
     (let n = length ids;
          connectivity = (if n = 0 then 1 else fdiv (of_nat (length (org_bfs (\<lambda>e. True) adjacency (hd ids)))) (of_nat n));
          conflict_density = (if n > 0 then fdiv (of_nat (length conflicted_nodes)) (of_nat n) else 0);
          cluster_cohesion = cohesion_ratio edges clusters;
          total_positive = sum_list (filter (\<lambda>v. v > 0) (map snd flow_balance));
          total_negative = sum_list (map abs (filter (\<lambda>v. v < 0) (map snd flow_balance)));
          total_flow = total_positive + total_negative;
          balance = (if total_flow > 0 then fsub 1 (fdiv (of_int \<bar>total_positive - total_negative\<bar>) (of_int total_flow)) else 1)
      in \<lparr>ogh_connectivity = connectivity, ogh_density = compute_density n (length edges), ogh_conflict_density = conflict_density,
          ogh_cluster_cohesion = cluster_cohesion, ogh_producer_consumer_balance = balance,
          ogh_overall = fpow (fmul (fmul connectivity cluster_cohesion) balance) (fdiv 1 3)\<rparr>)"

definition organization_graph :: "(pyfloat \<Rightarrow> pyfloat \<Rightarrow> pyfloat) \<Rightarrow> string \<Rightarrow> OrganizationState \<Rightarrow> OrganizationGraphState" where
  "organization_graph fpow now st =
     (let nodes = build_nodes st;
          edges = build_edges st;
          adjacency = org_adjacency oe_source (map fst nodes) edges;
          reverse_adjacency = org_adjacency oe_target (map fst nodes) edges;
          clusters = ost_project_clusters st;
          by_relation = compute_edges_by_relation edges;
          flow = compute_flow_balance adjacency reverse_adjacency;
          conflicted = compute_conflicted_nodes st;
          (producers, consumers, hotspots) = compute_derived_metrics by_relation flow
      in \<lparr>og_compiled_at = now, og_projection_version = ''1.0'', og_nodes = nodes, og_edges = edges, og_adjacency = adjacency,
          og_reverse_adjacency = reverse_adjacency, og_clusters = clusters, og_density = compute_density (length nodes) (length edges),
          og_conflicted_nodes = conflicted, og_edges_by_relation = by_relation, og_knowledge_flow_balance = flow,
          og_knowledge_producers = producers, og_knowledge_consumers = consumers, og_contradiction_hotspots = hotspots,
          og_health = graph_health fpow (map fst nodes) edges adjacency clusters conflicted flow\<rparr>)"

section \<open>Operations\<close>

definition project_centrality :: "OrganizationGraphState \<Rightarrow> string \<Rightarrow> pyfloat" where
  "project_centrality g pid =
     (if length (og_nodes g) \<le> 1 then 0
      else fdiv (of_nat (length (dict_get (og_reverse_adjacency g) pid []) + length (dict_get (og_adjacency g) pid []))) (of_nat (length (og_nodes g) - 1)))"

definition is_transfer :: "OrganizationEdge \<Rightarrow> bool" where
  "is_transfer e \<longleftrightarrow> oe_relation_type e = TRANSFERRED_TO"

definition org_blast_radius :: "OrganizationGraphState \<Rightarrow> string \<Rightarrow> string list" where
  "org_blast_radius g pid = org_bfs is_transfer (og_adjacency g) pid"

definition org_filtered_traversal :: "OrganizationGraphState \<Rightarrow> string \<Rightarrow> OrganizationRelationType list option \<Rightarrow> pyfloat \<Rightarrow> string list" where
  "org_filtered_traversal g start relation_types confidence_min =
     org_bfs (\<lambda>e. (case relation_types of None \<Rightarrow> True | Some rts \<Rightarrow> oe_relation_type e \<in> set rts) \<and> confidence_min \<le> oe_confidence e)
       (og_adjacency g) start"

text \<open>\<open>xs[:n]\<close>.\<close>

definition slice_to :: "'a list \<Rightarrow> int \<Rightarrow> 'a list" where
  "slice_to xs n = (if 0 \<le> n then take (nat n) xs else take (length xs - nat (- n)) xs)"

definition top_hotspots :: "OrganizationGraphState \<Rightarrow> int \<Rightarrow> (string \<times> pyfloat) list" where
  "top_hotspots g n = slice_to (og_contradiction_hotspots g) n"

definition top_producers :: "OrganizationGraphState \<Rightarrow> int \<Rightarrow> (string \<times> pyfloat) list" where
  "top_producers g n = slice_to (og_knowledge_producers g) n"

definition top_consumers :: "OrganizationGraphState \<Rightarrow> int \<Rightarrow> (string \<times> pyfloat) list" where
  "top_consumers g n = slice_to (og_knowledge_consumers g) n"

definition org_cluster_cohesion :: "OrganizationGraphState \<Rightarrow> pyfloat" where
  "org_cluster_cohesion g = cohesion_ratio (og_edges g) (og_clusters g)"

text \<open>The search with a map of parents; nothing in the loop bounds it.\<close>

type_synonym parents = "string set \<times> (string, string) dict \<times> string list"

definition mark_target :: "string \<Rightarrow> parents \<Rightarrow> OrganizationEdge \<Rightarrow> parents" where
  "mark_target node s e =
     (case s of (seen, parent, queue) \<Rightarrow>
        if is_transfer e \<and> oe_target e \<notin> seen
        then (insert (oe_target e) seen, AList.update (oe_target e) node parent, queue @ [oe_target e]) else s)"

partial_function (option) transfer_loop :: "org_adj \<Rightarrow> string \<Rightarrow> parents \<Rightarrow> (string set \<times> (string, string) dict) option" where
  "transfer_loop adjacency target s =
     (case s of (seen, parent, queue) \<Rightarrow>
        (case queue of
           [] \<Rightarrow> Some (seen, parent)
         | node # rest \<Rightarrow>
             if node = target then Some (seen, parent)
             else transfer_loop adjacency target (foldl (mark_target node) (seen, parent, rest) (dict_get adjacency node []))))"

partial_function (option) parent_path :: "(string, string) dict \<Rightarrow> string \<Rightarrow> string \<Rightarrow> string list result option" where
  "parent_path parent source node =
     (if node = source then Some (Inr [source])
      else case map_of parent node of
          None \<Rightarrow> Some (Inl (KeyError node))
        | Some p \<Rightarrow> Option.bind (parent_path parent source p) (\<lambda>r. Some (rbind r (\<lambda>path. Inr (path @ [node])))))"

definition shortest_transfer_path :: "OrganizationGraphState \<Rightarrow> string \<Rightarrow> string \<Rightarrow> string list result option" where
  "shortest_transfer_path g source target =
     (if source = target then Some (Inr [source])
      else Option.bind (transfer_loop (og_adjacency g) target ({source}, [], [source])) (\<lambda>(seen, parent).
        if target \<in> seen then parent_path parent source target else Some (Inr [])))"

section \<open>The graph is well formed\<close>

lemma tally_count: "dict_get (tally ks) k 0 = int (count (mset ks) k)"
proof (induction ks rule: rev_induct)
  case Nil
  show ?case by (simp add: tally_def dict_get_def)
next
  case (snoc x ks)
  then show ?case by (auto simp: tally_def dict_get_def)
qed

lemma org_adjacency_snoc:
  "org_adjacency f ids (es @ [e]) =
     (if dict_has (org_adjacency f ids es) (f e) then dict_append (org_adjacency f ids es) (f e) [e] else org_adjacency f ids es)"
  by (simp add: org_adjacency_def)

lemma org_adjacency_keys: "map fst (org_adjacency f ids es) = ids"
proof (induction es rule: rev_induct)
  case Nil
  show ?case by (simp add: org_adjacency_def comp_def)
next
  case (snoc e es)
  show ?case
  proof (cases "dict_has (org_adjacency f ids es) (f e)")
    case True
    then have "f e \<in> fst ` set (org_adjacency f ids es)" by (simp add: dict_has_def)
    then show ?thesis using snoc True by (simp only: org_adjacency_snoc dict_append_def map_fst_update if_True)
  qed (simp add: snoc org_adjacency_snoc)
qed

lemma get_org_adjacency:
  assumes "p \<in> set ids"
  shows "dict_get (org_adjacency f ids es) p [] = filter (\<lambda>e. f e = p) es"
proof (induction es rule: rev_induct)
  case Nil
  show ?case by (simp add: org_adjacency_def get_empty_lists)
next
  case (snoc e es)
  have "dict_has (org_adjacency f ids es) p" using assms org_adjacency_keys [of f ids es] unfolding dict_has_def by (metis image_set)
  with snoc show ?case by (auto simp: org_adjacency_snoc dict_append_def dict_get_def)
qed

lemma build_nodes_keys: "distinct (ost_project_ids st) \<Longrightarrow> map fst (build_nodes st) = ost_project_ids st"
proof -
  have "distinct ps \<Longrightarrow> map fst (foldl (\<lambda>nodes pid. AList.update pid (f pid) nodes) [] ps) = ps" for f :: "string \<Rightarrow> OrganizationNode" and ps
  proof (induction ps rule: rev_induct)
    case (snoc p ps)
    let ?d = "foldl (\<lambda>nodes pid. AList.update pid (f pid) nodes) [] ps"
    have "map fst ?d = ps" "p \<notin> set ps" using snoc by simp_all
    then have "p \<notin> fst ` set ?d" by (metis image_set)
    then show ?case using \<open>map fst ?d = ps\<close> by (simp add: map_fst_update)
  qed simp
  then show "distinct (ost_project_ids st) \<Longrightarrow> map fst (build_nodes st) = ost_project_ids st" by (simp add: build_nodes_def Let_def)
qed

lemma organization_graph_fields:
  assumes "distinct (ost_project_ids st)"
  shows "map fst (og_nodes (organization_graph fpow now st)) = ost_project_ids st"
    and "og_edges (organization_graph fpow now st) = build_edges st"
    and "og_adjacency (organization_graph fpow now st) = org_adjacency oe_source (ost_project_ids st) (build_edges st)"
    and "og_reverse_adjacency (organization_graph fpow now st) = org_adjacency oe_target (ost_project_ids st) (build_edges st)"
    and "og_knowledge_flow_balance (organization_graph fpow now st) =
      compute_flow_balance (org_adjacency oe_source (ost_project_ids st) (build_edges st)) (org_adjacency oe_target (ost_project_ids st) (build_edges st))"
    and "og_health (organization_graph fpow now st) = graph_health fpow (ost_project_ids st) (build_edges st)
      (org_adjacency oe_source (ost_project_ids st) (build_edges st)) (ost_project_clusters st) (compute_conflicted_nodes st)
      (og_knowledge_flow_balance (organization_graph fpow now st))"
  by (simp_all add: organization_graph_def Let_def build_nodes_keys [OF assms] split_beta compute_derived_metrics_def)

section \<open>Flow\<close>

lemma transfer_weight_split:
  assumes "distinct ids" and "\<forall>e \<in> set es. f e \<in> set ids"
  shows "sum_list (map (\<lambda>p. transfer_weight (filter (\<lambda>e. f e = p) es)) ids) = transfer_weight es"
  using assms(2)
proof (induction es)
  case Nil
  show ?case by (simp add: transfer_weight_def)
next
  case (Cons e es)
  define w where "w = transfer_weight [e]"
  have one: "transfer_weight (filter (\<lambda>e. f e = p) (e # es)) = (if p = f e then w else 0) + transfer_weight (filter (\<lambda>e. f e = p) es)" for p
    by (simp add: transfer_weight_def w_def)
  have "sum_list (map (\<lambda>p. if p = f e then w else 0) ids) = w"
    using assms(1) Cons.prems by (simp add: sum_list_distinct_conv_sum_set)
  then have "sum_list (map (\<lambda>p. transfer_weight (filter (\<lambda>e. f e = p) (e # es))) ids) = w + transfer_weight es"
    unfolding one using Cons by (simp add: sum_list_addf)
  then show ?case by (simp add: transfer_weight_def w_def)
qed

lemma flow_sum_zero:
  assumes "distinct ids" and "\<forall>e \<in> set es. oe_source e \<in> set ids \<and> oe_target e \<in> set ids"
  shows "sum_list (map snd (compute_flow_balance (org_adjacency oe_source ids es) (org_adjacency oe_target ids es))) = 0"
proof -
  let ?a = "org_adjacency oe_source ids es" and ?r = "org_adjacency oe_target ids es"
  have wf: "distinct (map fst ?a)" using assms(1) by (simp add: org_adjacency_keys)
  have entry: "transfer_weight (snd x) - transfer_weight (dict_get ?r (fst x) []) =
      transfer_weight (filter (\<lambda>e. oe_source e = fst x) es) - transfer_weight (filter (\<lambda>e. oe_target e = fst x) es)" if "x \<in> set ?a" for x
  proof -
    have "fst x \<in> set ids" using that org_adjacency_keys [of oe_source ids es] by (metis image_eqI image_set)
    moreover have "map_of ?a (fst x) = Some (snd x)" using that by (intro map_of_is_SomeI [OF wf]) simp
    then have "dict_get ?a (fst x) [] = snd x" by (simp add: dict_get_def)
    ultimately show ?thesis using get_org_adjacency [of "fst x" ids] by metis
  qed
  have "sum_list (map snd (compute_flow_balance ?a ?r)) = sum_list (map (\<lambda>x. transfer_weight (filter (\<lambda>e. oe_source e = fst x) es) -
      transfer_weight (filter (\<lambda>e. oe_target e = fst x) es)) ?a)"
    unfolding compute_flow_balance_def using entry by (auto simp: split_beta comp_def intro!: arg_cong [where f = sum_list])
  also have "\<dots> = sum_list (map (\<lambda>p. transfer_weight (filter (\<lambda>e. oe_source e = p) es) - transfer_weight (filter (\<lambda>e. oe_target e = p) es)) (map fst ?a))"
    by (simp add: comp_def)
  finally show ?thesis unfolding org_adjacency_keys sum_list_subtractf
    using transfer_weight_split [OF assms(1), of es oe_source] transfer_weight_split [OF assms(1), of es oe_target] assms(2) by simp
qed

lemma sum_by_sign: "sum_list (filter (\<lambda>v. v > 0) vs) - sum_list (map abs (filter (\<lambda>v. v < 0) vs)) = sum_list vs" for vs :: "int list"
  by (induction vs) auto

lemma build_edges_ends: "e \<in> set (build_edges st) \<Longrightarrow> oe_source e \<in> set (ost_project_ids st) \<and> oe_target e \<in> set (ost_project_ids st)"
  by (auto simp: build_edges_def)

text \<open>Property C38: knowledge that flows out of projects flows into projects.  For different project ids the balances of all
  projects add up to zero, what producers give is what consumers take, and therefore the metric of
  the balance between producers and consumers is 1 for every organization.\<close>

theorem flow_conserved:
  assumes "distinct (ost_project_ids st)" and "g = organization_graph fpow now st"
  shows "map fst (og_knowledge_flow_balance g) = ost_project_ids st \<and>
    sum_list (map snd (og_knowledge_flow_balance g)) = 0 \<and>
    sum_list (filter (\<lambda>v. v > 0) (map snd (og_knowledge_flow_balance g))) = - sum_list (filter (\<lambda>v. v < 0) (map snd (og_knowledge_flow_balance g))) \<and>
    ogh_producer_consumer_balance (og_health g) = 1"
proof -
  note f = organization_graph_fields [OF assms(1), of fpow now, folded assms(2)]
  let ?vs = "map snd (og_knowledge_flow_balance g)"
  have zero: "sum_list ?vs = 0" unfolding f(5) by (rule flow_sum_zero [OF assms(1)]) (use build_edges_ends in blast)
  have neg: "sum_list (map abs (filter (\<lambda>v. v < 0) vs)) = - sum_list (filter (\<lambda>v. v < 0) vs)" for vs :: "int list"
    by (induction vs) auto
  have eq: "sum_list (filter (\<lambda>v. v > 0) ?vs) = sum_list (map abs (filter (\<lambda>v. v < 0) ?vs))" using zero sum_by_sign [of ?vs] by simp
  have "map fst (og_knowledge_flow_balance g) = ost_project_ids st"
    unfolding f(5) compute_flow_balance_def by (simp add: split_beta comp_def org_adjacency_keys)
  moreover have "ogh_producer_consumer_balance (og_health g) = 1" unfolding f(6) graph_health_def Let_def using eq by (simp add: fdiv_def)
  ultimately show ?thesis using zero eq neg [of ?vs] by simp
qed

section \<open>Relations in both directions\<close>

definition reversed :: "OrganizationEdge \<Rightarrow> OrganizationEdge" where
  "reversed e = e\<lparr>oe_source := oe_target e, oe_target := oe_source e\<rparr>"

lemma both_directions_reversed: "e \<in> set (both_directions a b rt w c) \<Longrightarrow> reversed e \<in> set (both_directions a b rt w c) \<and> oe_relation_type e = rt"
  by (auto simp: both_directions_def reversed_def)

lemma undirected_edges:
  assumes "e \<in> set (concat (map f xs))" and "\<And>x. \<exists>a b w c. f x = both_directions a b rt w c"
  shows "reversed e \<in> set (concat (map f xs)) \<and> oe_relation_type e = rt"
proof -
  obtain x where x: "x \<in> set xs" "e \<in> set (f x)" using assms(1) by auto
  then have "reversed e \<in> set (f x) \<and> oe_relation_type e = rt" using assms(2) [of x] both_directions_reversed by auto
  with x(1) show ?thesis by auto
qed

text \<open>Every edge joins two projects.  The relations that have no direction have every edge in both; a transfer leads from
  the origin of a lineage to another project that holds it.\<close>

theorem organization_edges_correct:
  "(\<forall>e \<in> set (build_edges st). oe_source e \<in> set (ost_project_ids st) \<and> oe_target e \<in> set (ost_project_ids st) \<and> oe_relation_type e \<noteq> DERIVES_FROM \<and>
      (if is_transfer e then oe_source e \<noteq> oe_target e \<and> (\<exists>l \<in> set (lineages st). kln_origin_project l = oe_source e \<and> oe_target e \<in> set (kln_current_projects l))
       else reversed e \<in> set (build_edges st)))"
proof -
  have keys: "fst ` set (tally ks) \<subseteq> set ks" for ks :: "(string \<times> string) list"
    by (induction ks rule: rev_induct) (auto simp: tally_def dom_update)
  have shared: "reversed e \<in> set (shared_edges st) \<and> oe_relation_type e = SHARED_BY" if "e \<in> set (shared_edges st)" for e
    using that unfolding shared_edges_def by (rule undirected_edges) (auto split: prod.split)
  have conflict: "reversed e \<in> set (conflict_edges st) \<and> oe_relation_type e = CONFLICTS_WITH" if "e \<in> set (conflict_edges st)" for e
    using that unfolding conflict_edges_def by (rule undirected_edges) (auto split: prod.split)
  have cluster: "reversed e \<in> set (cluster_edges st) \<and> oe_relation_type e = IN_CLUSTER" if "e \<in> set (cluster_edges st)" for e
    using that unfolding cluster_edges_def by (rule undirected_edges) (auto simp: Let_def split: prod.split)
  have transfer: "oe_relation_type e = TRANSFERRED_TO \<and> oe_source e \<noteq> oe_target e \<and>
      (\<exists>l \<in> set (lineages st). kln_origin_project l = oe_source e \<and> oe_target e \<in> set (kln_current_projects l))" if "e \<in> set (transfer_edges st)" for e
  proof -
    from that obtain x where x: "x \<in> set (transfer_agg st)" "oe_relation_type e = TRANSFERRED_TO" "(oe_source e, oe_target e) = fst x"
      unfolding transfer_edges_def by auto
    then have "fst x \<in> set (concat (map (\<lambda>l. map (Pair (kln_origin_project l)) (filter (\<lambda>p. p \<noteq> kln_origin_project l) (kln_current_projects l))) (lineages st)))"
      using keys unfolding transfer_agg_def by blast
    with x(2,3) show ?thesis by auto
  qed
  have ends: "reversed e \<in> set (build_edges st) \<longleftrightarrow> reversed e \<in> set (transfer_edges st) \<union> set (shared_edges st) \<union> set (conflict_edges st) \<union> set (cluster_edges st)"
    if "e \<in> set (build_edges st)" for e
    using build_edges_ends [OF that] by (auto simp: build_edges_def reversed_def)
  show ?thesis
  proof
    fix e assume e: "e \<in> set (build_edges st)"
    then consider "e \<in> set (transfer_edges st)" | "e \<in> set (shared_edges st)" | "e \<in> set (conflict_edges st)" | "e \<in> set (cluster_edges st)"
      unfolding build_edges_def by auto
    then show "oe_source e \<in> set (ost_project_ids st) \<and> oe_target e \<in> set (ost_project_ids st) \<and> oe_relation_type e \<noteq> DERIVES_FROM \<and>
      (if is_transfer e then oe_source e \<noteq> oe_target e \<and> (\<exists>l \<in> set (lineages st). kln_origin_project l = oe_source e \<and> oe_target e \<in> set (kln_current_projects l))
       else reversed e \<in> set (build_edges st))"
      using build_edges_ends [OF e] ends [OF e] shared conflict cluster transfer by cases (simp_all add: is_transfer_def)
  qed
qed

section \<open>Searches\<close>

definition along_rel :: "(OrganizationEdge \<Rightarrow> bool) \<Rightarrow> org_adj \<Rightarrow> (string \<times> string) set" where
  "along_rel P adj = {(a, b). b \<in> oe_target ` {e \<in> set (dict_get adj a []). P e}}"

lemma get_targets: "e \<in> set (dict_get adj n []) \<Longrightarrow> oe_target e \<in> set (all_targets adj)"
  by (cases "map_of adj n") (force simp: all_targets_def dict_get_def dest: map_of_SomeD)+

interpretation org_search: reachability "all_targets adj" "along P adj" "along_rel P adj" UNIV for adj P
proof (unfold_locales, goal_cases)
  case (1 x)
  show ?case by (auto simp: along_def along_rel_def image_image)
next
  case 2
  show ?case by (auto simp: along_rel_def intro: get_targets)
qed simp

lemma org_bfs_reach: "set (org_bfs P adj s) = (along_rel P adj)\<^sup>* `` {s}" "distinct (org_bfs P adj s)"
proof -
  show "set (org_bfs P adj s) = (along_rel P adj)\<^sup>* `` {s}"
    unfolding org_bfs_def set_map using org_search.reach [of P adj "{}" s "()"] by simp
  show "distinct (org_bfs P adj s)" unfolding org_bfs_def by (rule mark_distinct) simp_all
qed

text \<open>The blast radius of a project holds exactly the projects that its knowledge can reach through transfers; a filtered
  traversal lists exactly what its edges reach, once each.\<close>

theorem org_searches_correct:
  "set (org_blast_radius g p) = (along_rel is_transfer (og_adjacency g))\<^sup>* `` {p} \<and> distinct (org_blast_radius g p) \<and>
   set (org_filtered_traversal g p rts c) =
     (along_rel (\<lambda>e. (\<forall>ts. rts = Some ts \<longrightarrow> oe_relation_type e \<in> set ts) \<and> c \<le> oe_confidence e) (og_adjacency g))\<^sup>* `` {p} \<and>
   distinct (org_filtered_traversal g p rts c)"
proof -
  have allowed: "(case rts of None \<Rightarrow> True | Some ts \<Rightarrow> oe_relation_type e \<in> set ts) = (\<forall>ts. rts = Some ts \<longrightarrow> oe_relation_type e \<in> set ts)" for e
    by (cases rts) simp_all
  show ?thesis unfolding org_blast_radius_def org_filtered_traversal_def allowed
    by (intro conjI org_bfs_reach)
qed

section \<open>Shortest transfer paths\<close>

text \<open>The search with the path carried along, to which the search with parents is compared.\<close>

definition carry_path :: "org_adj \<Rightarrow> string \<times> string list \<Rightarrow> (string \<times> string list) list" where
  "carry_path adj x = map (\<lambda>e. (oe_target e, snd x @ [oe_target e])) (filter is_transfer (dict_get adj (fst x) []))"

definition transfer_path_from :: "org_adj \<Rightarrow> string \<Rightarrow> string \<times> string list \<Rightarrow> bool" where
  "transfer_path_from adj s x \<longleftrightarrow>
     snd x \<noteq> [] \<and> hd (snd x) = s \<and> last (snd x) = fst x \<and> successively (\<lambda>a b. (a, b) \<in> along_rel is_transfer adj) (snd x)"

interpretation transfer_search: breadth_first "all_targets adj" "carry_path adj" "along_rel is_transfer adj" "\<lambda>p. length p - 1" "\<lambda>k. True"
    "transfer_path_from adj s" for adj s
proof (unfold_locales, goal_cases)
  case (1 x)
  show ?case by (auto simp: carry_path_def along_rel_def image_image)
next
  case (3 x y)
  then show ?case by (auto simp: carry_path_def transfer_path_from_def)
next
  case (4 x y)
  then show ?case by (auto simp: carry_path_def transfer_path_from_def successively_append_iff along_rel_def)
next
  case 5
  show ?case by (auto simp: along_rel_def intro: get_targets)
qed simp_all

inductive traced :: "(string, string) dict \<Rightarrow> string \<Rightarrow> string \<times> string list \<Rightarrow> bool" for parent s where
  start: "traced parent s (s, [s])"
| step: "traced parent s (m, p) \<Longrightarrow> n \<noteq> s \<Longrightarrow> map_of parent n = Some m \<Longrightarrow> traced parent s (n, p @ [n])"

lemma traced_path: "traced parent s x \<Longrightarrow> parent_path parent s (fst x) = Some (Inr (snd x))"
  by (induction rule: traced.induct) (subst parent_path.simps, simp)+

lemma traced_mono: "traced parent s x \<Longrightarrow> map_of parent \<subseteq>\<^sub>m map_of parent' \<Longrightarrow> traced parent' s x"
  by (induction rule: traced.induct) (auto intro: traced.intros simp: map_le_def dom_def)

lemma mark_targets:
  "foldl (mark_target n) (V, parent, rest) es =
     (let new = fresh V (map (\<lambda>e. (oe_target e, p @ [oe_target e])) (filter is_transfer es))
      in (V \<union> fst ` set new, foldl (\<lambda>d y. AList.update (fst y) n d) parent new, rest @ map fst new))"
  by (induction es arbitrary: V parent rest) (simp_all add: mark_target_def Let_def)

lemma expand_carry: "expand (all_targets adj) (carry_path adj) V x = fresh V (carry_path adj x)"
proof -
  have "filter (\<lambda>y. fst y \<in> set (all_targets adj)) (carry_path adj x) = carry_path adj x"
    by (auto simp: carry_path_def filter_id_conv intro: get_targets)
  then show ?thesis by (simp add: expand_def)
qed

lemma new_parents:
  "map_of (foldl (\<lambda>d y. AList.update (fst y) n d) parent new) k = (if k \<in> fst ` set new then Some n else map_of parent k)"
  by (induction new rule: rev_induct) auto

lemma transfer_loop_result:
  assumes "\<forall>x \<in> set q. traced parent s x" and "fst ` set parent \<subseteq> V" and "s \<in> V" and "fst ` set q \<subseteq> V" and "distinct (map fst q)"
    and "target \<in> V \<Longrightarrow> target \<in> fst ` set q"
  shows "\<exists>V' parent'. transfer_loop adj target (V, parent, map fst q) = Some (V', parent') \<and>
    (target \<in> V' \<longleftrightarrow> target \<in> fst ` set (bfs_mark (all_targets adj) (carry_path adj) V q)) \<and>
    (\<forall>x \<in> set (bfs_mark (all_targets adj) (carry_path adj) V q). fst x = target \<longrightarrow> traced parent' s x)"
  using assms
proof (induction V q arbitrary: parent rule: mark_induct [where U = "all_targets adj" and exp = "carry_path adj"])
  case (Nil V)
  then show ?case by (subst transfer_loop.simps) auto
next
  case (Cons V x q)
  let ?new = "expand (all_targets adj) (carry_path adj) V x"
  have distinct: "distinct (map fst (bfs_mark (all_targets adj) (carry_path adj) V (x # q)))" using Cons(5,6) by (intro mark_distinct)
  show ?case
  proof (cases "fst x = target")
    case True
    have loop: "transfer_loop adj target (V, parent, map fst (x # q)) = Some (V, parent)" using True by (subst transfer_loop.simps) simp
    have "y = x" if "y \<in> set (bfs_mark (all_targets adj) (carry_path adj) V (x # q))" "fst y = target" for y
      using distinct that True unfolding mark_Cons by (auto simp: image_iff)
    then show ?thesis using loop True Cons(2,5) by (auto simp: mark_Cons)
  next
    case False
    define parent' where "parent' = foldl (\<lambda>d y. AList.update (fst y) (fst x) d) parent ?new"
    have loop: "transfer_loop adj target (V, parent, map fst (x # q)) = transfer_loop adj target (V \<union> fst ` set ?new, parent', map fst (q @ ?new))"
      using False mark_targets [of "fst x" V parent "map fst q" "dict_get adj (fst x) []" "snd x"]
      by (subst transfer_loop.simps) (simp add: expand_carry carry_path_def parent'_def Let_def)
    have new: "fst ` set ?new \<inter> V = {}" "distinct (map fst ?new)" "set ?new \<subseteq> set (carry_path adj x)"
      using expand_facts [of "all_targets adj" "carry_path adj" V x] by auto
    have "map_of parent k = None" if "k \<in> fst ` set ?new" for k using that new(1) Cons(3) by (auto simp: map_of_eq_None_iff)
    then have le: "map_of parent \<subseteq>\<^sub>m map_of parent'" unfolding map_le_def parent'_def new_parents by (auto simp: dom_def)
    have "traced parent' s y" if "y \<in> set ?new" for y
    proof -
      have y: "y = (fst y, snd x @ [fst y])" using that new(3) by (auto simp: carry_path_def)
      have "traced parent' s (fst x, snd x)" using Cons(2) traced_mono [OF _ le] by simp
      moreover have "fst y \<noteq> s" using that new(1) Cons(4) by auto
      moreover have "map_of parent' (fst y) = Some (fst x)" using that by (simp add: parent'_def new_parents)
      ultimately show ?thesis by (subst y) (rule traced.step)
    qed
    moreover have queue: "fst ` set (q @ ?new) \<subseteq> V \<union> fst ` set ?new" "distinct (map fst (q @ ?new))"
      using Cons(5,6) new(1,2) by (simp_all, blast+)
    moreover have target: "target \<in> V \<union> fst ` set ?new \<Longrightarrow> target \<in> fst ` set (q @ ?new)" using Cons(7) False by auto
    ultimately have "\<forall>y \<in> set (q @ ?new). traced parent' s y" using Cons(2) traced_mono [OF _ le] by auto
    moreover have "fst ` set parent' \<subseteq> V \<union> fst ` set ?new"
    proof
      fix k assume "k \<in> fst ` set parent'"
      then have "map_of parent' k \<noteq> None" by (simp add: map_of_eq_None_iff)
      then show "k \<in> V \<union> fst ` set ?new" using Cons(3) unfolding parent'_def new_parents by (force split: if_splits dest: map_of_SomeD)
    qed
    ultimately have "\<exists>V' p'. transfer_loop adj target (V \<union> fst ` set ?new, parent', map fst (q @ ?new)) = Some (V', p') \<and>
      (target \<in> V' \<longleftrightarrow> target \<in> fst ` set (bfs_mark (all_targets adj) (carry_path adj) (V \<union> fst ` set ?new) (q @ ?new))) \<and>
      (\<forall>x \<in> set (bfs_mark (all_targets adj) (carry_path adj) (V \<union> fst ` set ?new) (q @ ?new)). fst x = target \<longrightarrow> traced p' s x)"
      using queue target Cons(4) by (intro Cons(1)) auto
    then show ?thesis unfolding loop mark_Cons using False by auto
  qed
qed

text \<open>Property C37: shortest_transfer_path always returns a list and never raises.  The list is empty exactly if knowledge
  cannot reach the target through transfers; otherwise it leads from the source to the target along transfers, and
  no walk along transfers between the two is shorter.\<close>

theorem shortest_transfer_path_correct:
  "\<exists>p. shortest_transfer_path g source target = Some (Inr p) \<and>
     (p \<noteq> [] \<longleftrightarrow> (source, target) \<in> (along_rel is_transfer (og_adjacency g))\<^sup>*) \<and>
     (p \<noteq> [] \<longrightarrow> hd p = source \<and> last p = target \<and> successively (\<lambda>a b. (a, b) \<in> along_rel is_transfer (og_adjacency g)) p \<and>
        (\<forall>k. (source, target) \<in> along_rel is_transfer (og_adjacency g) ^^ k \<longrightarrow> length p \<le> Suc k))"
proof (cases "source = target")
  case True
  then show ?thesis by (simp add: shortest_transfer_path_def)
next
  case False
  let ?adj = "og_adjacency g" and ?R = "along_rel is_transfer (og_adjacency g)"
  define found where "found = bfs_mark (all_targets ?adj) (carry_path ?adj) {source} [(source, [source])]"
  have start: "transfer_path_from ?adj source (source, [source])" by (simp add: transfer_path_from_def)
  note search = transfer_search.search [of "[source]" ?adj source source, simplified, OF start, folded found_def]
  have "\<exists>V' parent'. transfer_loop ?adj target ({source}, [], map fst [(source, [source])]) = Some (V', parent') \<and>
      (target \<in> V' \<longleftrightarrow> target \<in> fst ` set found) \<and> (\<forall>x \<in> set found. fst x = target \<longrightarrow> traced parent' source x)"
    unfolding found_def by (rule transfer_loop_result) (use False in \<open>auto intro: traced.start\<close>)
  then obtain V parent where loop: "transfer_loop ?adj target ({source}, [], [source]) = Some (V, parent)"
    "target \<in> V \<longleftrightarrow> target \<in> fst ` set found" "\<forall>x \<in> set found. fst x = target \<longrightarrow> traced parent source x" by auto
  have mem: "target \<in> fst ` set found \<longleftrightarrow> (source, target) \<in> ?R\<^sup>*" using search(4) by (simp add: rtrancl_power)
  show ?thesis
  proof (cases "target \<in> fst ` set found")
    case True
    then obtain x where x: "x \<in> set found" "fst x = target" by auto
    from search(3) [OF x(1)] have path: "transfer_path_from ?adj source x" "distance ?R source target (length (snd x) - 1)"
      using x(2) by simp_all
    have "shortest_transfer_path g source target = Some (Inr (snd x))"
      using False loop True x traced_path [of parent source x] by (simp add: shortest_transfer_path_def)
    moreover have "length (snd x) \<le> Suc k" if "(source, target) \<in> ?R ^^ k" for k
      using path(2) that unfolding distance_def by (metis Suc_le_mono le_SucI le_diff_conv linorder_not_le plus_1_eq_Suc add.commute)
    ultimately show ?thesis using path(1) x(2) mem True by (auto simp: transfer_path_from_def)
  next
    case no: False
    then show ?thesis using False loop mem by (simp add: shortest_transfer_path_def)
  qed
qed

definition sample_org_state :: OrganizationState where
  "sample_org_state = \<lparr>ost_compiled_at = ''t'', ost_projection_version = ''1.0'', ost_project_ids = [''a'', ''b'', ''c''],
     ost_active_lineages = map (\<lambda>(k, src, c). (k, \<lparr>kln_knowledge_id = k, kln_origin_project = src, kln_current_projects = [c], kln_transfer_path = [src], kln_depth = 0\<rparr>))
       [(''k'', ''a'', ''b''), (''l'', ''b'', ''c'')],
     ost_shared_knowledge = [], ost_cross_project_conflicts = [], ost_invariants_across_projects = [], ost_project_clusters = [],
     ost_transferability_telemetry = empty_telemetry,
     ost_health = organization_health [] [] [] [] empty_telemetry 3\<rparr>"

theorem flow_conserved_witness:
  "og_knowledge_flow_balance (organization_graph (\<lambda>x y. x) ''t'' sample_org_state) = [(''a'', 1), (''b'', 0), (''c'', - 1)] \<and>
   ogh_producer_consumer_balance (og_health (organization_graph (\<lambda>x y. x) ''t'' sample_org_state)) = 1"
proof -
  have "og_knowledge_flow_balance (organization_graph (\<lambda>x y. x) ''t'' sample_org_state) = [(''a'', 1), (''b'', 0), (''c'', - 1)]" by code_simp
  moreover have "distinct (ost_project_ids sample_org_state)" by (simp add: sample_org_state_def)
  from flow_conserved [OF this refl, of "\<lambda>x y. x" "''t''"]
  have "ogh_producer_consumer_balance (og_health (organization_graph (\<lambda>x y. x) ''t'' sample_org_state)) = 1" by (elim conjE)
  ultimately show ?thesis ..
qed

definition sample_transfers :: OrganizationGraphState where
  "sample_transfers = organization_graph (\<lambda>x y. x) ''t'' sample_org_state"

theorem shortest_transfer_path_correct_witness:
  "shortest_transfer_path sample_transfers ''a'' ''c'' = Some (Inr [''a'', ''b'', ''c'']) \<and>
   (''a'', ''c'') \<notin> along_rel is_transfer (og_adjacency sample_transfers) ^^ 1"
proof -
  have ids: "ost_project_ids sample_org_state = [''a'', ''b'', ''c'']" by (simp add: sample_org_state_def)
  have adj: "dict_get (og_adjacency sample_transfers) p [] = filter (\<lambda>e. oe_source e = p) (build_edges sample_org_state)"
    if "p \<in> {''a'', ''b'', ''c''}" for p
    using that organization_graph_fields(3) [of sample_org_state] get_org_adjacency [of p "[''a'', ''b'', ''c'']"]
    by (simp add: sample_transfers_def ids)
  have "map (\<lambda>e. (oe_source e, oe_target e, is_transfer e)) (build_edges sample_org_state) = [(''a'', ''b'', True), (''b'', ''c'', True)]"
    by code_simp
  then obtain e f where "build_edges sample_org_state = [e, f]" "oe_source e = ''a''" "oe_target e = ''b''" "is_transfer e"
    "oe_source f = ''b''" "oe_target f = ''c''" "is_transfer f" by auto
  with adj [of "''a''"] adj [of "''b''"]
  have "dict_get (og_adjacency sample_transfers) ''a'' [] = [e]" "oe_target e = ''b''" "is_transfer e"
    "dict_get (og_adjacency sample_transfers) ''b'' [] = [f]" "oe_target f = ''c''" "is_transfer f" by simp_all
  then have "transfer_loop (og_adjacency sample_transfers) ''c'' ({''a''}, [], [''a'']) =
      Some ({''c'', ''b'', ''a''}, [(''b'', ''a''), (''c'', ''b'')])"
    by (subst transfer_loop.simps, simp add: mark_target_def)+
  moreover have "parent_path [(''b'', ''a''), (''c'', ''b'')] ''a'' ''c'' = Some (Inr [''a'', ''b'', ''c''])"
    by (subst parent_path.simps, simp)+
  ultimately have r: "shortest_transfer_path sample_transfers ''a'' ''c'' = Some (Inr [''a'', ''b'', ''c''])"
    by (simp add: shortest_transfer_path_def)
  have "(''a'', ''c'') \<in> along_rel is_transfer (og_adjacency sample_transfers) ^^ k \<longrightarrow> 2 \<le> k" for k
    using shortest_transfer_path_correct [of sample_transfers "''a''" "''c''"] unfolding r by auto
  from this [of 1] r show ?thesis by auto
qed

end
