(* ===== verification/Spec2Isabelle.thy ===== *)
theory Spec2Isabelle
  imports Replay Schema ProjectionGraph HeadProjection Vendor Skills KnowledgeGraph GraphWeights GraphPaths OrganizationGraph
begin

text \<open>
  A verification development for RationaleVault, an event-sourced memory of software projects.  It
  models the core of the Python package under \<open>src/rationalevault\<close> as executable HOL functions and
  proves what makes that core correct.  All paths below are relative to \<open>src/rationalevault\<close>.

  \<^bold>\<open>The program.\<close>  Everything a project knows is a log of immutable events.  There are two logs:
  the \<^emph>\<open>ledger\<close> (\<open>ledger\<close>), which stores commits of canonical envelopes, and the
  \<^emph>\<open>event store\<close> (\<open>db\<close>), which stores single events with metadata.  State is never stored as
  the truth: it is a \<^emph>\<open>projection\<close>, a fold over a log.  \<open>replay\<close> folds a ledger;
  \<open>cognitive_head\<close> folds an event store into the head that agents read, with snapshots to avoid full
  replays; \<open>projections\<close> orders projections that depend on each other and decides which to rebuild;
  \<open>projection_platform\<close> is the newer registry and compiler for the same task; \<open>schema\<close> and the
  governance projection bring old events to the versions the project's governance asks for.

  What a project knows is distilled into memories and knowledge (\<open>memory\<close>, \<open>knowledge\<close>).  The
  reasoning part of \<open>cognitive_head\<close> turns knowledge into beliefs, propagates doubts between them,
  derives candidates for decisions and lets a gate choose; \<open>skill_platform\<close> plans an execution for
  each decision.  The knowledge is also seen as a graph, once as a store of relations
  (\<open>knowledge/graph.py\<close>) and once for navigation (\<open>projections/graph.py\<close>); \<open>cross_project.py\<close>
  and \<open>organization\<close> compare the knowledge of several projects and draw the graph of who gives what
  to whom.

  Around this core, \<open>workspace\<close> groups projects and agents and packs what an agent needs to resume;
  \<open>runtime\<close> runs the sessions of agents; \<open>transport\<close> carries packages to them; \<open>skill_platform\<close>
  turns decisions into executions of skills, whose records are events again.

  \<^bold>\<open>Theories.\<close>
  \<^item> \<open>Prelude\<close>: exceptions as values of \<open>py_error\<close>, computations that may raise
    (\<open>rbind\<close>, \<open>rmap\<close>, \<open>rfold\<close>), Python dictionaries as association lists in insertion
    order, sorting, decimal text, the 64-bit range of SQLite.
  \<^item> \<open>PyJson\<close>: JSON values, \<open>json.dumps\<close>, with and without indentation, and \<open>json.loads\<close> of Python's library.  Reading back
    what was written gives the same value.
  \<^item> \<open>Canonical\<close>: \<open>canonical\<close>.  Canonical form, timestamps, envelopes, digests, stable ids; the
    codec loses nothing and digests do not depend on key order.
  \<^item> \<open>Ledger\<close>: commits, entries and the in-memory ledger (\<open>ledger/commit.py\<close>, \<open>entry.py\<close>,
    \<open>storage/memory.py\<close>).  The locale \<open>ledger_backend\<close> states what a ledger promises.
  \<^item> \<open>SqliteLedger\<close>: \<open>ledger/storage/sqlite.py\<close>, a table of rows.  It satisfies the same locale,
    refines the in-memory ledger, keeps streams contiguous and never loses an entry.
  \<^item> \<open>Replay\<close>: \<open>replay/types.py\<close>, \<open>reducer.py\<close>, \<open>registry.py\<close>, \<open>engine/default.py\<close>.
    Reducers are callables that may mutate their arguments.  Replay is incremental, projections do not
    disturb each other, and a replay to an earlier boundary is the replay at that time.
  \<^item> \<open>SchemaEvents\<close> and \<open>Schema\<close>: \<open>schema/events.py\<close>, \<open>policy.py\<close>, \<open>upcaster.py\<close>,
    \<open>resolver.py\<close>, \<open>factory.py\<close>, \<open>projections/governance.py\<close>, \<open>context.py\<close>,
    \<open>pipeline.py\<close>, \<open>service.py\<close>.  Which governance records win, when an event resolves, and
    which replays must fail.
  \<^item> \<open>ProjectionGraph\<close>: \<open>projections/base.py\<close>, \<open>registry.py\<close>, \<open>cache.py\<close>,
    \<open>fingerprint.py\<close>, \<open>planner.py\<close>.  The build order is a topological order, exists exactly for
    acyclic registries, does not depend on the iteration order of sets, and the planner rebuilds
    exactly what changed and what depends on it.
  \<^item> \<open>EventStore\<close>: \<open>db/sqlite_store.py\<close>.  The invariant of the two tables, the locale
    \<open>event_source\<close>, and that an appended event is read back as it was requested.
  \<^item> \<open>Reducers\<close>: \<open>cognitive_head/reducers.py\<close>.  The locales \<open>keyed_fold\<close> and
    \<open>keyed_status\<close> carry what the reducers of tasks, decisions and questions have in common.
  \<^item> \<open>HeadState\<close>: the head and its derivation (\<open>compiler.py\<close>, \<open>replay_engine.py\<close>).
  \<^item> \<open>Snapshot\<close>: \<open>snapshot_payload.py\<close>, \<open>snapshot.py\<close>, \<open>snapshot_policy.py\<close> over the
    store's snapshot table, with the inductive predicate \<open>reachable\<close> of stores that the program can
    produce.
  \<^item> \<open>ReplayEngine\<close>: \<open>replay_engine.py\<close> and \<open>compile_cognitive_head\<close>.  Delta replay equals
    full replay; what the fast path does instead.
  \<^item> \<open>Platform\<close>: \<open>projection_platform\<close>.  Freezing, compilation with its nested requests, health.
  \<^item> \<open>HeadProjection\<close>: \<open>cognitive_head_projection.py\<close> and \<open>compile_cognitive_head_v2\<close>.
  \<^item> \<open>WorkspaceModels\<close> and \<open>Workspaces\<close>: \<open>workspace\<close> and \<open>projections/workspace.py\<close>.
    Round trips of all models and payloads, the lifecycle of a workspace, differences of snapshots as
    patches, at most one open session per agent, and what a continuation package contains.
  \<^item> \<open>SessionTable\<close>: the locale \<open>session_table\<close> that both registries of sessions satisfy.
  \<^item> \<open>AgentRuntime\<close>: \<open>runtime\<close>.  The session state machine refines \<open>next_statuses\<close>, its
    invariant, capabilities, and that streaming equals continuation.
  \<^item> \<open>Transport\<close>: \<open>transport\<close>.  Negotiation agrees with \<open>satisfies\<close>; sessions count what
    they send.
  \<^item> \<open>Vendor\<close>: \<open>vendor\<close>.  Names of capabilities translate back and forth; what the five native connectors
    serialize decodes to the package.
  \<^item> \<open>PyFloat\<close>: Python's floats as rationals rounded to the nearest binary64 value, half to even,
    with the arithmetic, \<open>round\<close> and \<open>sum\<close> the program uses.  Rounding is monotone, so bounds
    carry over.  \<open>PyText\<close>: the string methods and the one regular expression the program uses.
  \<^item> \<open>Knowledge\<close>: \<open>knowledge/models.py\<close>, \<open>relations.py\<close>, \<open>contradiction.py\<close>,
    \<open>lineage.py\<close>, \<open>memory/models.py\<close> and \<open>projections/knowledge.py\<close>.  How knowledge is
    classified, which conflicts are queued, and when the projection raises.
  \<^item> \<open>Reasoning\<close>: evidence, assessment, beliefs, propagation, report, synthesis, gate and engine
    of \<open>cognitive_head\<close>, definitions only.  \<open>BeliefPropagation\<close>: the result of propagation is
    the solution of one equation per belief (locale \<open>belief_store\<close>).  \<open>Decisions\<close>: ranges of
    confidences, what the gate selects, when reasoning raises, what contradictions do not reach.
  \<^item> \<open>Skills\<close>: \<open>skill_platform\<close> without the executor.  Skills are chosen by least specificity, run
    only with their permissions, and what the projection of executions makes of their records.
  \<^item> \<open>GraphSearch\<close>: the breadth-first searches that the graph components share, with the locales
    \<open>reachability\<close> (what is found is what is reachable), \<open>breadth_first\<close> (each node is found at its
    distance) and \<open>component_search\<close> (the classes of connected nodes).  Every search is an
    interpretation of one of them.
  \<^item> \<open>KnowledgeGraph\<close>: \<open>knowledge/graph.py\<close>.  Construction, neighbourhoods, shortest paths and
    statistics.
  \<^item> \<open>GraphNavigation\<close>, \<open>GraphWeights\<close>, \<open>GraphPaths\<close>: \<open>projections/graph.py\<close>.  The graph is
    well formed; traversals reach exactly what their filters allow; Dijkstra's algorithm on floats finds a
    path of least weight; dependency chains, path enumeration, cycle search and topological order.
  \<^item> \<open>CrossProject\<close>: \<open>projections/cross_project.py\<close>.  Only knowledge that may leave its project does.
  \<^item> \<open>Organization\<close>: \<open>organization/models.py\<close> and \<open>projection.py\<close>.  Shared knowledge, conflicts
    and clusters are exactly what their definitions say.
  \<^item> \<open>OrganizationGraph\<close>: \<open>organization/graph.py\<close>.  Edges, the balance of flow, searches, and the
    shortest path of transfers.

  \<^bold>\<open>Conventions.\<close>  A dataclass is a record, an enum a datatype, a raise a value \<open>Inl e\<close>.  Text
  is a list of characters.  A float in JSON is the text \<open>repr\<close> writes; a float the program computes
  with is a rational rounded after every operation (\<open>PyFloat\<close>); infinities and overflow do not
  occur, as the operands are bounded scores.  Values that the program reads from
  JSON unchecked stay JSON values in the records, because the program compares and stores them as they
  are.  Clock readings, fresh UUIDs, NFC normalization and SHA-256 are arguments.  Functions the caller
  supplies (reducers, upcasters, projection classes, serializers other than the native connectors) are arguments too.

  \<^bold>\<open>Bounds and fuel.\<close>  Python's ints are \<open>int\<close>; where SQLite binds them they must satisfy
  \<open>fits64\<close> and the model raises \<open>OverflowError\<close> otherwise.  The scanner of \<open>json_loads\<close> has twice
  the length of the text and two as fuel, enough for every text that \<open>json_dumps\<close> writes.  The cycle search and the compiler of the platform follow dependencies
  with one unit of fuel per projection and one more (\<open>compile_fuel\<close>); the outcome of a compilation that uses it up is \<open>None\<close>, and
  \<open>compile_terminates\<close> shows that it never does, whatever the dependencies.  Kahn's algorithm and the iterative cycle search of
  \<open>ProjectionGraph\<close> are total by a measure.  The breadth-first searches are total by the number of
  nodes not yet seen.  Walking back from a target in \<open>weighted_shortest_path\<close> has the size of the
  predecessor map as fuel, which the correctness theorem shows to be enough.  The loops of \<open>GraphPaths\<close>
  and the search for a transfer path in \<open>OrganizationGraph\<close> are partial functions in which \<open>None\<close>
  stands for a loop that does not end; the theorems about them state that they return.

  \<^bold>\<open>Not modelled.\<close>  Command line and servers (\<open>cli\<close>, \<open>mcp\<close>, \<open>logging.py\<close>,
  \<open>diagnostics\<close>) are input and output.  The PostgreSQL store repeats the SQLite one against a server
  the repository does not hold.  Embeddings and vector search (\<open>embedding\<close>) call external models and
  faiss.  Evaluation suites, benchmarks, conformance kits and examples (\<open>evaluation\<close>,
  \<open>certification\<close>, the \<open>compliance\<close> and \<open>conformance\<close> packages, \<open>examples\<close>) measure the
  program rather than being part of it.  Retrieval, synthesis of knowledge, promotion and
  recommendation (\<open>memory\<close>, the rest of \<open>knowledge\<close>, \<open>retrieval\<close>, \<open>recommendation\<close>, and the
  services of \<open>organization\<close>) are not modelled: they rank by scores that come from embeddings or
  tuned weights and render text.  The executor, gates and reflections of the skill platform, remote
  runtimes, telemetry and the timeline are left for an extension.  Methods such as \<open>to_dict\<close> that only
  render a state are left out where nothing reads their result.  The prompt compilers
  (\<open>compilers\<close>) render text.

  \<^bold>\<open>Possible extensions.\<close>  Consolidation and ranking of memories, the promotion pipeline,
  recommendation and governance rules, gates and reflections of the skill platform, remote runtimes and
  telemetry.
\<close>

section \<open>From a workspace to an agent\<close>





section \<open>From knowledge to executions\<close>

lemma plan_decisions:
  "p \<in> set (create_execution_plans h ds r) \<Longrightarrow>
     sc_decision (xp_candidate p) \<in> set ds \<and> category_value (di_category (sc_decision (xp_candidate p))) \<in> set (mf_accepted_categories (sc_manifest (xp_candidate p)))"
proof -
  assume "p \<in> set (create_execution_plans h ds r)"
  then obtain d where d: "d \<in> set ds" "\<not> sc_blocked (map_decision d r)" "xp_candidate p = map_decision d r"
    by (auto simp: create_execution_plans_def map_decision_set_def plan_of_candidate_def Let_def)
  then obtain best where b: "select_best (find_by_category r (category_value (di_category d))) = Some best"
    by (auto simp: map_decision_def split: option.splits)
  then have "best \<in> set (find_by_category r (category_value (di_category d)))" using select_best_Some by blast
  then show ?thesis using d b by (simp add: map_decision_def find_by_category_def)
qed

text \<open>Property C9: what is executed was believed.  Every plan that the bridge makes of the decisions of a report stands
  for a belief of that report whose final confidence, carried unchanged into the decision, reaches the minimum of the
  policy and is at most 1; the category is not DEFER and is one that the chosen skill accepts.\<close>

theorem planned_executions_are_gated:
  assumes "reason h parse now nt states suppressed config = Inr rep"
    and "engine_synthesize h rep sconfig policy = Inr ds"
    and "p \<in> set (create_execution_plans h (dst_decisions ds) registry)"
  shows "\<exists>b \<in> set (rrp_beliefs rep).
    di_belief_id (sc_decision (xp_candidate p)) = blf_belief_id b \<and>
    di_confidence (sc_decision (xp_candidate p)) = blf_final_confidence b \<and>
    dgp_minimum_confidence policy \<le> blf_final_confidence b \<and> blf_final_confidence b \<le> 1 \<and>
    di_category (sc_decision (xp_candidate p)) \<noteq> DEFER \<and>
    category_value (di_category (sc_decision (xp_candidate p))) \<in> set (mf_accepted_categories (sc_manifest (xp_candidate p)))"
proof -
  define d where "d = sc_decision (xp_candidate p)"
  obtain s where s: "synthesize h rep sconfig = Inr s" "ds = gate h s policy" using assms(2) by (auto simp: engine_synthesize_def)
  have d: "d \<in> set (dst_decisions ds)" "category_value (di_category d) \<in> set (mf_accepted_categories (sc_manifest (xp_candidate p)))"
    using plan_decisions [OF assms(3)] by (simp_all add: d_def)
  then obtain i where i: "i \<in> set (syr_items s)" "passes_gate i policy" "d = decision_of h policy i"
    using gate_decisions_from s(2) by blast
  obtain b x where b: "b \<in> set (rrp_beliefs rep)" "i = item_of h (rrp_contradictions rep) sconfig b x"
    using synthesize_items [OF s(1) i(1)] by blast
  have "belief_ok b" using reason_beliefs_ok [OF assms(1) b(1)] .
  then have "blf_final_confidence b \<le> 1" by (simp add: belief_ok_def)
  then show ?thesis using b i(2) d unfolding d_def [symmetric] i(3)
    by (intro bexI [of _ b]) (auto simp: decision_of_def item_of_def Let_def passes_gate_iff)
qed

theorem planned_executions_are_gated_witness:
  "\<exists>rep ds. reason sample_host (\<lambda>_. None) sample_now ''now'' [sample_state ''p'' [sample_knowledge ''k1'' ''ACTIVE'' []]] {} default_reasoning = Inr rep \<and>
     engine_synthesize sample_host rep default_synthesis (default_gate\<lparr>dgp_minimum_confidence := 0\<rparr>) = Inr ds \<and>
     (\<forall>p \<in> set (create_execution_plans sample_host (dst_decisions ds) [(''a'', sample_skill ''a'' [''AFFIRM'', ''MONITOR''] [])]).
        \<exists>b \<in> set (rrp_beliefs rep). di_belief_id (sc_decision (xp_candidate p)) = blf_belief_id b)"
proof -
  obtain rep where rep: "reason sample_host (\<lambda>_. None) sample_now ''now'' [sample_state ''p'' [sample_knowledge ''k1'' ''ACTIVE'' []]] {} default_reasoning = Inr rep"
    using sample_reason by blast
  obtain s where "synthesize sample_host rep default_synthesis = Inr s" using default_synthesis_total [OF rep] by blast
  then obtain ds where ds: "engine_synthesize sample_host rep default_synthesis (default_gate\<lparr>dgp_minimum_confidence := 0\<rparr>) = Inr ds"
    by (simp add: engine_synthesize_def)
  show ?thesis using planned_executions_are_gated [OF rep ds] rep ds by blast
qed

section \<open>From knowledge to the order of its derivation\<close>

text \<open>Property C6: knowledge in the order of its derivation.  From a state of knowledge whose graph can be built, the graph
  projection and its topological sort by DERIVED_FROM return an order in which every active object comes after the
  active objects it is derived from.  The order leaves out exactly the objects derived, directly or not, from a cycle
  of derivations; if there is no such cycle it holds every active object and no cycle is listed.\<close>

theorem knowledge_in_derivation_order:
  assumes "graph_project now st = Inr g"
  shows "\<exists>order cs. graph_topological_sort g DERIVED_FROM = Some (Inr (order, cs)) \<and> distinct order \<and>
    (\<forall>i < length order. {d. (d, order ! i) \<in> derivations st} \<subseteq> set (take i order)) \<and>
    set order = {n \<in> ko_id ` set (kst_active_knowledge st). \<not> behind_cycle (derivations st) n} \<and>
    (cs = [] \<longleftrightarrow> acyclic (derivations st)) \<and> (acyclic (derivations st) \<longrightarrow> set order = ko_id ` set (kst_active_knowledge st))"
proof -
  note g = graph_project_nodes [OF assms] and R = derived_edges_graph [OF assms]
  obtain order cs where o: "graph_topological_sort g DERIVED_FROM = Some (Inr (order, cs))" "distinct order"
    "set order = {n \<in> ko_id ` set (kst_active_knowledge st). \<not> behind_cycle (derivations st) n}"
    "\<forall>i < length order. {d. (d, order ! i) \<in> derivations st} \<subseteq> set (take i order)"
    "cs = [] \<longleftrightarrow> acyclic (derivations st)" "cs = [] \<longrightarrow> set order = ko_id ` set (kst_active_knowledge st)"
    using topological_sort_result [OF g(1), of DERIVED_FROM] unfolding g(2) R by (elim exE conjE)
  have "acyclic (derivations st) \<longrightarrow> set order = ko_id ` set (kst_active_knowledge st)" using o(5,6) by (simp only: simp_thms)
  with o(1-5) show ?thesis by (intro exI conjI)
qed

theorem knowledge_in_derivation_order_witness:
  "\<exists>g order. graph_project ''t'' (sample_kstate\<lparr>kst_derivation_chains := [(''k1'', [''k2''])]\<rparr>) = Inr g \<and>
     graph_topological_sort g DERIVED_FROM = Some (Inr (order, [])) \<and> set order = {''k1'', ''k2''} \<and> hd order = ''k2''"
proof -
  let ?st = "sample_kstate\<lparr>kst_derivation_chains := [(''k1'', [''k2''])]\<rparr>"
  obtain g where g: "graph_project ''t'' ?st = Inr g" using sample_kstate_projects ..
  have ids: "ko_id ` set (kst_active_knowledge ?st) = {''k1'', ''k2''}" by (simp add: sample_kstate_def sample_knowledge_def)
  then have d: "derivations ?st = {(''k2'', ''k1'')}" unfolding derivations_def ids by auto
  have acyc: "acyclic (derivations ?st)" unfolding d by (rule acyclicI_order [where f = id]) (auto simp: less_list_code)
  obtain order cs where o: "graph_topological_sort g DERIVED_FROM = Some (Inr (order, cs))"
    "\<forall>i < length order. {d. (d, order ! i) \<in> derivations ?st} \<subseteq> set (take i order)" "cs = [] \<longleftrightarrow> acyclic (derivations ?st)"
    "acyclic (derivations ?st) \<longrightarrow> set order = ko_id ` set (kst_active_knowledge ?st)"
    using knowledge_in_derivation_order [OF g] by (elim exE conjE)
  have cs: "cs = []" and set: "set order = {''k1'', ''k2''}" using iffD2 [OF o(3) acyc] mp [OF o(4) acyc] unfolding ids .
  have ne: "order \<noteq> []" using set by (metis empty_set insert_not_empty)
  have "{d. (d, order ! 0) \<in> derivations ?st} \<subseteq> set (take 0 order)" by (rule o(2) [rule_format]) (simp add: ne)
  then have "hd order \<noteq> ''k1''" unfolding d hd_conv_nth [OF ne] by auto
  moreover have "hd order \<in> {''k1'', ''k2''}" using ne set by (metis hd_in_set)
  ultimately show ?thesis using g o(1) set unfolding cs by blast
qed

end
